(* ===== verification/Prelude.thy ===== *)
theory Prelude
  imports
    Complex_Main
    "HOL-Library.Word"
    "HOL-Library.List_Lexorder"
    "HOL-Library.Char_ord"
    "HOL-Library.Multiset"
begin

text \<open>
  Shared vocabulary of the development.

  \<^item> Machine types: \<open>u8\<close>, \<open>u32\<close>, \<open>u64\<close> are words; \<open>i64\<close> values are read as \<open>int\<close>
    where the code only compares them; a \<open>Ulid\<close> is a 128-bit word with \<open>0\<close> as
    \<open>Ulid::nil()\<close>; a \<open>jiff::Timestamp\<close> is its signed count of nanoseconds.
  \<^item> Rust strings are UTF-8 byte sequences, so a \<open>string\<close> (a list of 8-bit \<open>char\<close>) is
    one, \<open>String::len\<close> is \<open>length\<close>, and \<open>Ord for String\<close> is the lexicographic order
    that \<open>List_Lexorder\<close> and \<open>Char_ord\<close> put on \<open>string\<close>.
  \<^item> \<open>Vec::sort\<close> is \<open>sort\<close>, \<open>sort_by(key)\<close> is the stable \<open>sort_key\<close>, \<open>Vec::dedup\<close>
    is \<open>remdups_adj\<close>, \<open>dedup_by(key)\<close> is \<open>dedup_key\<close> below.
  \<^item> A panic of the code is a value of \<open>panic\<close>, an error return a value of the
    component's own error type; both are carried on the left of a sum.
  \<^item> \<open>ext\<close> bundles the third-party functions the code calls (HMAC over the JSON
    serializer, the \<open>Display\<close> forms of ids and timestamps, the largest timestamp).
\<close>

named_theorems narrowing \<open>facts saying that an operation keeps or narrows authority\<close>

section \<open>Machine types\<close>

type_synonym u8 = "8 word"
type_synonym u32 = "32 word"
type_synonym u64 = "64 word"
type_synonym bytes = "u8 list"
type_synonym ulid = "128 word"
type_synonym timestamp = int

abbreviation nil_ulid :: ulid where
  "nil_ulid \<equiv> 0"

text \<open>Panics of the modelled code, as values.\<close>

datatype panic =
    CharBoundary      \<comment> \<open>slicing a \<open>str\<close> inside a code point\<close>
  | TimestampOverflow \<comment> \<open>\<open>Timestamp + Duration\<close> past the largest instant\<close>
  | ArithmeticOverflow

text \<open>
  \<open>f64\<close> as the code compares it: a NaN, the infinities, and the finite values. Every
  comparison with a NaN is false.
\<close>

datatype f64 = NaN | NegInf | Finite rat | PosInf

fun f64_less :: "f64 \<Rightarrow> f64 \<Rightarrow> bool" where
  "f64_less NaN _ = False"
| "f64_less _ NaN = False"
| "f64_less PosInf _ = False"
| "f64_less _ NegInf = False"
| "f64_less NegInf _ = True"
| "f64_less _ PosInf = True"
| "f64_less (Finite a) (Finite b) = (a < b)"

lemma f64_less_irrefl [simp]: "\<not> f64_less a a"
  by (cases a) auto

lemma f64_less_trans: "f64_less a b \<Longrightarrow> f64_less b c \<Longrightarrow> f64_less a c"
  by (cases a; cases b; cases c) auto

section \<open>Sorting and deduplication\<close>

text \<open>\<open>Vec::dedup_by(|l, r| key l == key r)\<close>: of a run with one key, the first stays.\<close>

fun dedup_key :: "('a \<Rightarrow> 'k) \<Rightarrow> 'a list \<Rightarrow> 'a list" where
  "dedup_key f [] = []"
| "dedup_key f [x] = [x]"
| "dedup_key f (x # y # xs) =
     (if f x = f y then dedup_key f (x # xs) else x # dedup_key f (y # xs))"

lemma map_dedup_key: "map f (dedup_key f xs) = remdups_adj (map f xs)"
  by (induction f xs rule: dedup_key.induct) auto

lemma set_dedup_key: "set (dedup_key f xs) \<subseteq> set xs"
  by (induction f xs rule: dedup_key.induct) auto

lemma dedup_key_eq_Nil [simp]: "dedup_key f xs = [] \<longleftrightarrow> xs = []"
  by (induction f xs rule: dedup_key.induct) auto

lemma image_dedup_key: "f ` set (dedup_key f xs) = f ` set xs"
  by (metis list.set_map map_dedup_key remdups_adj_set)

text \<open>Sorting and then deduplicating lists a set in increasing order.\<close>

lemma distinct_remdups_adj_sorted:
  "sorted xs \<Longrightarrow> distinct (remdups_adj xs)"
proof (induction xs rule: remdups_adj.induct)
  case (3 x y xs)
  then show ?case by (cases "x = y") auto
qed auto

lemma remdups_adj_sort:
  fixes xs :: "'a::linorder list"
  shows "remdups_adj (sort xs) = sorted_list_of_set (set xs)"
proof -
  have "sorted (remdups_adj (sort xs))" "distinct (remdups_adj (sort xs))"
    by (simp_all add: distinct_remdups_adj_sorted)
  moreover have "set (remdups_adj (sort xs)) = set xs" by simp
  ultimately show ?thesis by (metis sorted_list_of_set.idem_if_sorted_distinct)
qed

lemma sort_key_unique:
  assumes eq: "mset xs = mset ys" and dist: "distinct (map f xs)"
  shows "sort_key f xs = sort_key f ys"
proof (rule map_sorted_distinct_set_unique [of f])
  have "mset (map f xs) = mset (map f ys)" using eq by (simp add: mset_map)
  then have "distinct (map f ys)" using dist by (metis mset_eq_imp_distinct_iff)
  then show "distinct (map f (sort_key f ys))"
    by (metis mset_eq_imp_distinct_iff mset_map mset_sort)
  show "distinct (map f (sort_key f xs))"
    using dist by (metis mset_eq_imp_distinct_iff mset_map mset_sort)
  have "set xs = set ys" using eq by (rule mset_eq_setD)
  then show "set (sort_key f xs) = set (sort_key f ys)" by simp
  show "inj_on f (set (sort_key f xs) \<union> set (sort_key f ys))"
    using dist \<open>set xs = set ys\<close> by (simp add: distinct_map)
qed simp_all

lemma map_sort_key: "map f (sort_key f xs) = sort (map f xs)"
  by (rule properties_for_sort [symmetric]) simp_all

text \<open>\<open>Iterator::max\<close>.\<close>

fun iter_max :: "'a::linorder list \<Rightarrow> 'a option" where
  "iter_max [] = None"
| "iter_max (x # xs) = Some (fold max xs x)"

lemma iter_max_None [simp]: "iter_max xs = None \<longleftrightarrow> xs = []"
  by (cases xs) auto

lemma iter_max_Some: "iter_max xs = Some m \<longleftrightarrow> m \<in> set xs \<and> (\<forall>x\<in>set xs. x \<le> m)"
proof (cases xs)
  case (Cons y ys)
  have "fold max ys y = Max (set xs)" by (simp add: Cons Max.set_eq_fold [symmetric])
  then show ?thesis
    using Cons by (metis List.finite_set Max_eq_iff iter_max.simps(2) list.discI option.inject
        set_empty)
qed simp

lemma find_SomeD: "find P xs = Some x \<Longrightarrow> x \<in> set xs \<and> P x"
  by (induction xs) (auto split: if_splits)

section \<open>Text and tables\<close>

text \<open>
  \<open>s.trim().is_empty()\<close>: only white space. The characters are those with the Unicode
  property White\_Space, in their UTF-8 encodings.
\<close>

definition ascii_space :: "nat \<Rightarrow> bool" where
  "ascii_space n \<longleftrightarrow> (9 \<le> n \<and> n \<le> 13) \<or> n = 32"

definition space2 :: "nat \<Rightarrow> nat \<Rightarrow> bool" where
  "space2 a b \<longleftrightarrow> a = 194 \<and> (b = 133 \<or> b = 160)"

definition space3 :: "nat \<Rightarrow> nat \<Rightarrow> nat \<Rightarrow> bool" where
  "space3 a b c \<longleftrightarrow>
     (a = 225 \<and> b = 154 \<and> c = 128) \<or>
     (a = 226 \<and> b = 128 \<and> (128 \<le> c \<and> c \<le> 138 \<or> c = 168 \<or> c = 169 \<or> c = 175)) \<or>
     (a = 226 \<and> b = 129 \<and> c = 159) \<or>
     (a = 227 \<and> b = 128 \<and> c = 128)"

fun blank_bytes :: "nat list \<Rightarrow> bool" where
  "blank_bytes [] = True"
| "blank_bytes [a] = ascii_space a"
| "blank_bytes [a, b] = (if ascii_space a then blank_bytes [b] else space2 a b)"
| "blank_bytes (a # b # c # xs) =
     (if ascii_space a then blank_bytes (b # c # xs)
      else if space2 a b then blank_bytes (c # xs)
      else if space3 a b c then blank_bytes xs
      else False)"

definition str_is_blank :: "string \<Rightarrow> bool" where
  "str_is_blank s = blank_bytes (map of_char s)"

text \<open>\<open>Display\<close> of an unsigned integer.\<close>

fun decimal :: "nat \<Rightarrow> string" where
  "decimal n =
     (if n < 10 then [char_of (48 + n)] else decimal (n div 10) @ [char_of (48 + n mod 10)])"

declare decimal.simps [simp del]

text \<open>The first row of a table of checks that fails, as a \<open>for\<close> loop with an early return.\<close>

definition first_failing :: "('f \<times> bool) list \<Rightarrow> 'f option" where
  "first_failing rows = map_option fst (find snd rows)"

lemma first_failing_None: "first_failing rows = None \<longleftrightarrow> (\<forall>(f, bad)\<in>set rows. \<not> bad)"
  by (auto simp: first_failing_def find_None_iff)

lemma first_failing_simps [simp]:
  "first_failing [] = None"
  "first_failing ((f, bad) # rows) = (if bad then Some f else first_failing rows)"
  by (simp_all add: first_failing_def)

text \<open>\<open>collect()\<close> into a \<open>HashMap\<close>: the last binding of a key stays.\<close>

definition hashmap_collect :: "('k \<times> 'v) list \<Rightarrow> ('k \<rightharpoonup> 'v)" where
  "hashmap_collect kvs = map_of (rev kvs)"

section \<open>Transactions\<close>

text \<open>
  \<open>with_immediate_tx\<close>: the closure's writes are kept when it returns \<open>Ok\<close> and dropped when it
  returns an error.
\<close>

definition with_immediate_tx :: "('s \<Rightarrow> 'e + ('a \<times> 's)) \<Rightarrow> 's \<Rightarrow> ('e + 'a) \<times> 's" where
  "with_immediate_tx f st = (case f st of Inl e \<Rightarrow> (Inl e, st) | Inr (a, st') \<Rightarrow> (Inr a, st'))"

end
