(* ===== verification/Canonical_Json.thy ===== *)
theory Canonical_Json
  imports Prelude
begin

text \<open>
  Canonical JSON, content digests and hexadecimal text
  (\<open>src/crates/openspine-schemas/src/digest.rs\<close> and the hex helpers of
  \<open>grant_chain.rs\<close>).

  \<open>serde_json::Value\<close> is the datatype \<open>json\<close>; an object is its entries in the map's
  iteration order, with distinct keys (\<open>wf_json\<close>). The compact serializer, the parser, SHA-256,
  HMAC, the \<open>Display\<close> forms of ids and timestamps, the largest timestamp and the Unicode case
  tables are the fields of \<open>ext\<close>: code and data outside the repository, passed to the
  definitions that use them.
\<close>

section \<open>JSON values and the third-party functions\<close>

datatype json_number = PosInt u64 | NegInt u64 | Float f64

datatype json =
    JNull
  | JBool bool
  | JNumber json_number
  | JString string
  | JArray "json list"
  | JObject "(string \<times> json) list"

record ext =
  json_text :: "json \<Rightarrow> string"
  sha256 :: "bytes \<Rightarrow> bytes"
  hmac :: "bytes \<Rightarrow> bytes \<Rightarrow> bytes"
  ulid_text :: "ulid \<Rightarrow> string"
  ts_text :: "timestamp \<Rightarrow> string"
  ts_max :: timestamp
  unicode_lower :: "string \<Rightarrow> string \<Rightarrow> string"
  json_parse :: "string \<Rightarrow> json option"

text \<open>What the code relies on: a SHA-256 output is a \<open>[u8; 32]\<close>, keyed or not.\<close>

definition wf_ext :: "ext \<Rightarrow> bool" where
  "wf_ext X \<longleftrightarrow> (\<forall>m. length (sha256 X m) = 32) \<and> (\<forall>k m. length (hmac X k m) = 32)"

lemma wf_ext_hmac [simp]: "wf_ext X \<Longrightarrow> length (hmac X k m) = 32"
  by (simp add: wf_ext_def)

lemma wf_ext_sha256 [simp]: "wf_ext X \<Longrightarrow> length (sha256 X m) = 32"
  by (simp add: wf_ext_def)

text \<open>\<open>Timestamp + Duration::from_secs(s)\<close> panics past the largest instant.\<close>

definition ts_add_secs :: "ext \<Rightarrow> timestamp \<Rightarrow> u64 \<Rightarrow> panic + timestamp" where
  "ts_add_secs X t s =
     (let r = t + 1000000000 * int (unat s)
      in if r \<le> ts_max X then Inr r else Inl TimestampOverflow)"

text \<open>\<open>json!\<close> of a number and of an option.\<close>

definition jnum :: "u32 \<Rightarrow> json" where
  "jnum n = JNumber (PosInt (ucast n))"

definition jopt :: "('a \<Rightarrow> json) \<Rightarrow> 'a option \<Rightarrow> json" where
  "jopt f v = (case v of None \<Rightarrow> JNull | Some x \<Rightarrow> f x)"

definition str_bytes :: "string \<Rightarrow> bytes" where
  "str_bytes s = map of_char s"

section \<open>Canonical JSON\<close>

text \<open>
  \<open>impl Serialize for CanonicalValue\<close>: object entries are written in key order. Empty and
  one-entry objects skip the sort, up to 16 entries are sorted in a fixed array of
  \<open>Option\<close> slots, larger objects in a vector.
\<close>

definition sort_entries :: "(string \<times> 'v) list \<Rightarrow> (string \<times> 'v) list" where
  "sort_entries m =
     (let len = length m in
      if len = 0 then []
      else if len = 1 then [m ! 0]
      else if len \<le> 16 then
        map the (sort_key (\<lambda>opt. fst (the opt))
          (take len (map Some m @ replicate (16 - len) None)))
      else sort_key fst m)"

primrec canonical :: "json \<Rightarrow> json" where
  "canonical JNull = JNull"
| "canonical (JBool b) = JBool b"
| "canonical (JNumber n) = JNumber n"
| "canonical (JString s) = JString s"
| "canonical (JArray xs) = JArray (map canonical xs)"
| "canonical (JObject kvs) = JObject (sort_entries (map (map_prod id canonical) kvs))"

definition canonical_json :: "ext \<Rightarrow> json \<Rightarrow> string" where
  "canonical_json X v = json_text X (canonical v)"

primrec wf_json :: "json \<Rightarrow> bool" where
  "wf_json JNull = True"
| "wf_json (JBool b) = True"
| "wf_json (JNumber n) = True"
| "wf_json (JString s) = True"
| "wf_json (JArray xs) = list_all id (map wf_json xs)"
| "wf_json (JObject kvs) =
     (distinct (map fst kvs) \<and> list_all snd (map (map_prod id wf_json) kvs))"

text \<open>Equal up to the order of object entries, at every depth.\<close>

inductive json_perm :: "json \<Rightarrow> json \<Rightarrow> bool" where
  perm_refl: "json_perm v v"
| perm_array: "list_all2 json_perm xs ys \<Longrightarrow> json_perm (JArray xs) (JArray ys)"
| perm_object: "list_all2 (rel_prod (=) json_perm) kvs ws \<Longrightarrow> mset ws = mset us \<Longrightarrow>
    json_perm (JObject kvs) (JObject us)"
monos list_all2_mono prod.rel_mono

lemma map_the_sort_key_Some:
  "map the (sort_key (\<lambda>opt. fst (the opt)) (map Some m)) = sort_key fst m"
proof -
  have ins: "insort_key (\<lambda>opt. fst (the opt)) (Some x) (map Some ys) =
      map Some (insort_key fst x ys)" for x :: "'a \<times> 'b" and ys
    by (induction ys) auto
  have "sort_key (\<lambda>opt. fst (the opt)) (map Some m) = map Some (sort_key fst m)"
    by (induction m) (simp_all add: ins)
  then show ?thesis by (simp add: comp_def)
qed

lemma sort_entries_eq: "sort_entries m = sort_key fst m"
proof -
  have one: "length m = Suc 0 \<Longrightarrow> [m ! 0] = sort_key fst m"
    by (cases m) auto
  show ?thesis
    by (auto simp: sort_entries_def Let_def one map_the_sort_key_Some)
qed

lemma set_sort_entries [simp]: "set (sort_entries m) = set m"
  by (simp add: sort_entries_eq)

lemma sort_entries_idem: "sort_entries (sort_entries m) = sort_entries m"
  by (simp add: sort_entries_eq sorted_sort_id sort_key_id_if_sorted)

text \<open>Helpers for the two inductions below.\<close>

lemma list_all_wf_array: "wf_json (JArray xs) \<longleftrightarrow> (\<forall>x\<in>set xs. wf_json x)"
  by (auto simp: list_all_iff)

lemma list_all_wf_object:
  "wf_json (JObject kvs) \<longleftrightarrow> distinct (map fst kvs) \<and> (\<forall>(k, v)\<in>set kvs. wf_json v)"
  by (auto simp: list_all_iff)

lemma map_fst_map_prod_id [simp]: "map fst (map (map_prod id f) kvs) = map fst kvs"
  by (induction kvs) auto

lemma canonical_entries_eq:
  assumes "list_all2 (rel_prod (=) (\<lambda>x y. P x y \<and> (wf_json x \<longrightarrow> canonical x = canonical y))) kvs ws"
    and "\<forall>(k, v)\<in>set kvs. wf_json v"
  shows "map (map_prod id canonical) kvs = map (map_prod id canonical) ws"
  using assms by (induction rule: list_all2_induct) auto

lemma canonical_json_perm:
  "json_perm v w \<Longrightarrow> wf_json v \<Longrightarrow> canonical v = canonical w"
proof (induction rule: json_perm.induct)
  case (perm_array xs ys)
  then have "map canonical xs = map canonical ys"
    by (auto simp: list_all2_conv_all_nth list_all_length list_eq_iff_nth_eq)
  then show ?case by simp
next
  case (perm_object kvs ws us)
  then have wf: "distinct (map fst kvs)" "\<forall>(k, v)\<in>set kvs. wf_json v"
    by (auto simp: list_all_iff)
  have eq: "map (map_prod id canonical) kvs = map (map_prod id canonical) ws"
    by (rule canonical_entries_eq [OF _ wf(2)]) (use perm_object in \<open>simp add: list_all2_mono\<close>)
  have "mset (map (map_prod id canonical) kvs) = mset (map (map_prod id canonical) us)"
    unfolding eq using perm_object(2) by (simp add: mset_map)
  then have "sort_key fst (map (map_prod id canonical) kvs) =
      sort_key fst (map (map_prod id canonical) us)"
    by (rule sort_key_unique) (simp add: wf)
  then show ?case by (simp add: sort_entries_eq)
qed simp

lemma canonical_idem: "canonical (canonical v) = canonical v"
proof (induction v)
  case (JObject kvs)
  have map: "map_prod id canonical e = e" if "e \<in> set (map (map_prod id canonical) kvs)" for e
    using that JObject by (force simp: prod_set_defs)
  have "map (map_prod id canonical) (sort_entries (map (map_prod id canonical) kvs)) =
      sort_entries (map (map_prod id canonical) kvs)"
    by (rule map_idI) (rule map, simp del: set_map)
  then show ?case by (simp add: sort_entries_idem del: map_map)
qed (auto simp: list_eq_iff_nth_eq)

section \<open>Hexadecimal text\<close>

definition hex_chars :: string where
  "hex_chars = ''0123456789abcdef''"

text \<open>\<open>hex_encode\<close>: two table lookups per byte.\<close>

primrec hex_encode :: "bytes \<Rightarrow> string" where
  "hex_encode [] = []"
| "hex_encode (b # bs) =
     hex_chars ! unat (drop_bit 4 b) # hex_chars ! unat (and b 15) # hex_encode bs"

text \<open>\<open>u8::from_str_radix(s, 16)\<close> on a one-character string.\<close>

definition hex_val :: "char \<Rightarrow> u8 option" where
  "hex_val c =
     (let n = (of_char c :: nat) in
      if 48 \<le> n \<and> n \<le> 57 then Some (of_nat (n - 48))
      else if 97 \<le> n \<and> n \<le> 102 then Some (of_nat (n - 87))
      else if 65 \<le> n \<and> n \<le> 70 then Some (of_nat (n - 55))
      else None)"

text \<open>\<open>str::is_char_boundary\<close>: not before a UTF-8 continuation byte.\<close>

definition is_char_boundary :: "string \<Rightarrow> nat \<Rightarrow> bool" where
  "is_char_boundary s i \<longleftrightarrow>
     i = 0 \<or> i = length s \<or>
     (i < length s \<and> \<not> (128 \<le> (of_char (s ! i) :: nat) \<and> (of_char (s ! i) :: nat) < 192))"

text \<open>
  The loop of \<open>hex_decode_32\<close>, with \<open>n\<close> bytes left to decode from position \<open>i\<close>. A slice
  that is not on a character boundary panics; a non-digit returns \<open>None\<close>.
\<close>

fun hex_decode_at :: "string \<Rightarrow> nat \<Rightarrow> nat \<Rightarrow> panic + bytes option" where
  "hex_decode_at s i 0 = Inr (Some [])"
| "hex_decode_at s i (Suc n) =
     (if \<not> (is_char_boundary s (i * 2) \<and> is_char_boundary s (i * 2 + 1)) then Inl CharBoundary
      else (case hex_val (s ! (i * 2)) of
        None \<Rightarrow> Inr None
      | Some hi \<Rightarrow>
          (if \<not> (is_char_boundary s (i * 2 + 1) \<and> is_char_boundary s (i * 2 + 2))
           then Inl CharBoundary
           else (case hex_val (s ! (i * 2 + 1)) of
             None \<Rightarrow> Inr None
           | Some lo \<Rightarrow>
               (case hex_decode_at s (Suc i) n of
                  Inl p \<Rightarrow> Inl p
                | Inr None \<Rightarrow> Inr None
                | Inr (Some bs) \<Rightarrow> Inr (Some ((or (push_bit 4 hi) lo) # bs)))))))"

definition hex_decode_32 :: "string \<Rightarrow> panic + bytes option" where
  "hex_decode_32 s = (if length s \<noteq> 64 then Inr None else hex_decode_at s 0 32)"

text \<open>\<open>ct_eq_hex\<close>: a comparison whose time does not depend on where the texts differ.\<close>

definition ct_eq_hex :: "string \<Rightarrow> string \<Rightarrow> bool" where
  "ct_eq_hex a b =
     (if length a \<noteq> length b then False
      else foldl (\<lambda>acc (x, y). or acc (xor (of_char x :: u8) (of_char y))) 0 (zip a b) = 0)"

lemma hex_val_chars: "n < 16 \<Longrightarrow> hex_val (hex_chars ! n) = Some (of_nat n)"
proof -
  have "\<forall>n\<in>set [0..<16]. hex_val (hex_chars ! n) = Some (of_nat n)" by code_simp
  then show "n < 16 \<Longrightarrow> ?thesis" by simp
qed

lemma hex_chars_ascii: "n < 16 \<Longrightarrow> (of_char (hex_chars ! n) :: nat) < 128"
proof -
  have "\<forall>n\<in>set [0..<16]. (of_char (hex_chars ! n) :: nat) < 128" by code_simp
  then show "n < 16 \<Longrightarrow> ?thesis" by simp
qed

lemma nibble_hi: "unat (drop_bit 4 (b :: u8)) < 16"
proof -
  have "unat b < 256" using unsigned_less [of b, where ?'a = nat] by simp
  then show ?thesis by (simp add: drop_bit_eq_div unat_div)
qed

lemma nibble_lo: "unat (and b 15 :: u8) < 16"
proof -
  have "and b 15 = take_bit 4 b" by (simp add: take_bit_eq_mask mask_eq_exp_minus_1)
  then show ?thesis by (simp add: take_bit_eq_mod unat_mod)
qed

lemma nibbles: "or (push_bit 4 (drop_bit 4 b)) (and b 15) = (b :: u8)"
proof -
  have "and b 15 = take_bit 4 b" by (simp add: take_bit_eq_mask mask_eq_exp_minus_1)
  then show ?thesis by (intro bit_word_eqI) (auto simp: bit_simps)
qed

lemma length_hex_encode [simp]: "length (hex_encode bs) = 2 * length bs"
  by (induction bs) auto

lemma hex_encode_ascii: "c \<in> set (hex_encode bs) \<Longrightarrow> (of_char c :: nat) < 128"
  by (induction bs) (auto simp: hex_chars_ascii nibble_hi nibble_lo)

lemma is_char_boundary_ascii:
  "\<forall>c\<in>set s. (of_char c :: nat) < 128 \<Longrightarrow> i \<le> length s \<Longrightarrow> is_char_boundary s i"
  by (auto simp: is_char_boundary_def not_le intro!: nth_mem)

lemma hex_decode_at_encode:
  assumes "length pre = 2 * i" "\<forall>c\<in>set pre. (of_char c :: nat) < 128"
  shows "hex_decode_at (pre @ hex_encode bs) i (length bs) = Inr (Some bs)"
  using assms
proof (induction bs arbitrary: pre i)
  case (Cons b bs)
  let ?hi = "hex_chars ! unat (drop_bit 4 b)" and ?lo = "hex_chars ! unat (and b 15)"
  let ?s = "pre @ hex_encode (b # bs)"
  have bnd: "is_char_boundary ?s j" if "j \<le> length ?s" for j
    by (rule is_char_boundary_ascii) (use that Cons.prems hex_encode_ascii in \<open>auto simp: hex_chars_ascii nibble_hi nibble_lo\<close>)
  have nths: "?s ! (i * 2) = ?hi" "?s ! (i * 2 + 1) = ?lo"
    using Cons.prems by (simp_all add: nth_append)
  have "hex_decode_at ((pre @ [?hi, ?lo]) @ hex_encode bs) (Suc i) (length bs) = Inr (Some bs)"
    by (rule Cons.IH) (use Cons.prems in \<open>auto simp: hex_chars_ascii nibble_hi nibble_lo\<close>)
  then have rest: "hex_decode_at ?s (Suc i) (length bs) = Inr (Some bs)" by simp
  have b: "is_char_boundary ?s (i * 2)" "is_char_boundary ?s (i * 2 + 1)"
    "is_char_boundary ?s (i * 2 + 2)"
    by (rule bnd, use Cons.prems in simp)+
  show ?case
    using b rest nths by (simp add: hex_val_chars nibble_hi nibble_lo nibbles del: hex_encode.simps)
qed simp

lemma hex_decode_encode: "length bs = 32 \<Longrightarrow> hex_decode_32 (hex_encode bs) = Inr (Some bs)"
  using hex_decode_at_encode [of "[]" 0 bs] by (simp add: hex_decode_32_def)

lemma foldl_or_eq_0:
  "foldl (\<lambda>acc (x, y). or acc (f x y)) a zs = (0::u8) \<longleftrightarrow> a = 0 \<and> (\<forall>(x, y)\<in>set zs. f x y = 0)"
  by (induction zs arbitrary: a) (auto simp: or_eq_0_iff)

lemma xor_eq_0_iff: "xor a b = 0 \<longleftrightarrow> a = (b :: u8)"
  by (metis bit.xor_cancel_right bit.xor_left_self xor_self_eq)

lemma unat_of_char: "unat (of_char c :: u8) = of_char c"
proof -
  have "unat (of_nat (of_char c) :: u8) = of_char c mod 256"
    by (simp only: unat_of_nat) simp
  then show ?thesis by (simp only: of_nat_of_char of_char_mod_256)
qed

lemma of_char_u8_eq_iff: "(of_char x :: u8) = of_char y \<longleftrightarrow> x = y"
  by (metis unat_of_char of_char_eq_iff)

lemma ct_eq_hex_iff: "ct_eq_hex a b \<longleftrightarrow> a = b"
proof (cases "length a = length b")
  case True
  then have "(\<forall>(x, y)\<in>set (zip a b). x = y) \<longleftrightarrow> a = b"
    by (induction a b rule: list_induct2) auto
  with True show ?thesis
    by (simp add: ct_eq_hex_def foldl_or_eq_0 xor_eq_0_iff of_char_u8_eq_iff)
next
  case False
  then show ?thesis by (auto simp: ct_eq_hex_def)
qed

section \<open>Digests\<close>

text \<open>\<open>Digest\<close>: the text \<open>sha256:\<close> followed by 64 lowercase hex digits.\<close>

datatype digest = Digest (digest_str: string)

datatype invalid_digest = InvalidDigest string

definition digest_prefix :: string where
  "digest_prefix = ''sha256:''"

definition is_lower_hex :: "char \<Rightarrow> bool" where
  "is_lower_hex c =
     (let n = (of_char c :: nat) in (48 \<le> n \<and> n \<le> 57) \<or> (97 \<le> n \<and> n \<le> 102))"

definition digest_is_valid :: "string \<Rightarrow> bool" where
  "digest_is_valid s =
     (if take 7 s = digest_prefix
      then length (drop 7 s) = 64 \<and> list_all is_lower_hex (drop 7 s)
      else False)"

definition digest_parse :: "string \<Rightarrow> invalid_digest + digest" where
  "digest_parse s = (if digest_is_valid s then Inr (Digest s) else Inl (InvalidDigest s))"

definition digest_from_hash :: "bytes \<Rightarrow> digest" where
  "digest_from_hash h = Digest (digest_prefix @ hex_encode h)"

text \<open>\<open>digest_matches_hash\<close> compares in place, without building the text.\<close>

definition digest_matches_hash :: "string \<Rightarrow> bytes \<Rightarrow> bool" where
  "digest_matches_hash s h =
     (if take 7 s \<noteq> digest_prefix \<or> length s \<noteq> 71 then False
      else list_all
        (\<lambda>i. drop 7 s ! (i * 2) = hex_chars ! unat (drop_bit 4 (h ! i)) \<and>
             drop 7 s ! (i * 2 + 1) = hex_chars ! unat (and (h ! i) 15)) [0..<length h])"

definition digest_of :: "ext \<Rightarrow> json \<Rightarrow> digest" where
  "digest_of X v = digest_from_hash (sha256 X (str_bytes (canonical_json X v)))"

definition digest_of_bytes :: "ext \<Rightarrow> bytes \<Rightarrow> digest" where
  "digest_of_bytes X b = digest_from_hash (sha256 X b)"

lemma is_lower_hex_chars: "n < 16 \<Longrightarrow> is_lower_hex (hex_chars ! n)"
proof -
  have "\<forall>n\<in>set [0..<16]. is_lower_hex (hex_chars ! n)" by code_simp
  then show "n < 16 \<Longrightarrow> ?thesis" by simp
qed

lemma hex_encode_lower: "list_all is_lower_hex (hex_encode bs)"
  by (induction bs) (auto simp: is_lower_hex_chars nibble_hi nibble_lo)

lemma length_digest_prefix [simp]: "length digest_prefix = 7"
  by (simp add: digest_prefix_def)

lemma hex_chars_inj:
  "m < 16 \<Longrightarrow> n < 16 \<Longrightarrow> hex_chars ! m = hex_chars ! n \<longleftrightarrow> m = n"
  by (rule nth_eq_iff_index_eq) (simp_all add: hex_chars_def)

lemma hex_encode_inj: "hex_encode a = hex_encode b \<Longrightarrow> a = b"
proof (induction a arbitrary: b)
  case (Cons x xs)
  then obtain y ys where b: "b = y # ys" by (cases b) auto
  have "unat (drop_bit 4 x) = unat (drop_bit 4 y)" "unat (and x 15) = unat (and y 15)"
    using Cons.prems b by (simp_all add: hex_chars_inj nibble_hi nibble_lo)
  then have "x = y" by (metis nibbles unsigned_word_eqI)
  with Cons b show ?case by simp
qed (metis hex_encode.simps(1) length_0_conv length_hex_encode mult_is_0 zero_neq_numeral)

lemma nth_hex_encode:
  "i < length h \<Longrightarrow> hex_encode h ! (i * 2) = hex_chars ! unat (drop_bit 4 (h ! i)) \<and>
     hex_encode h ! (i * 2 + 1) = hex_chars ! unat (and (h ! i) 15)"
  by (induction h arbitrary: i) (auto simp: nth_Cons split: nat.splits)

lemma eq_hex_encode_iff:
  assumes "length s = 2 * length h"
  shows "s = hex_encode h \<longleftrightarrow>
    (\<forall>i<length h. s ! (i * 2) = hex_chars ! unat (drop_bit 4 (h ! i)) \<and>
       s ! (i * 2 + 1) = hex_chars ! unat (and (h ! i) 15))" (is "_ \<longleftrightarrow> ?pairs")
proof
  assume p: ?pairs
  show "s = hex_encode h"
  proof (rule nth_equalityI)
    fix j assume "j < length s"
    with assms have "j div 2 < length h" by simp
    from p this nth_hex_encode [OF this] have
      "s ! (j div 2 * 2) = hex_encode h ! (j div 2 * 2)"
      "s ! (j div 2 * 2 + 1) = hex_encode h ! (j div 2 * 2 + 1)"
      by simp_all
    then show "s ! j = hex_encode h ! j"
      by (cases "even j") (auto elim!: oddE simp: mult.commute)
  qed (simp add: assms)
qed (use nth_hex_encode in blast)

lemma digest_matches_hash_iff:
  assumes "length h = 32"
  shows "digest_matches_hash s h \<longleftrightarrow> Digest s = digest_from_hash h"
proof (cases "take 7 s = digest_prefix \<and> length s = 71")
  case True
  then have "length (drop 7 s) = 2 * length h" using assms by simp
  from eq_hex_encode_iff [OF this]
  have "digest_matches_hash s h \<longleftrightarrow> drop 7 s = hex_encode h"
    using True assms by (auto simp: digest_matches_hash_def list_all_iff)
  also have "\<dots> \<longleftrightarrow> s = digest_prefix @ hex_encode h"
    by (metis True append_eq_conv_conj append_take_drop_id length_digest_prefix)
  finally show ?thesis by (simp add: digest_from_hash_def)
next
  case False
  then have "s \<noteq> digest_prefix @ hex_encode h" using assms by auto
  with False show ?thesis by (auto simp: digest_matches_hash_def digest_from_hash_def)
qed

lemma digest_is_valid_from_hash:
  "length h = 32 \<Longrightarrow> digest_is_valid (digest_str (digest_from_hash h))"
  by (simp add: digest_is_valid_def digest_from_hash_def hex_encode_lower)

section \<open>Properties\<close>

text \<open>
  A concrete choice of the third-party functions, with the digest length the code relies on
  and the largest instant of the timestamp library, for evaluating the properties on.
\<close>

definition ex_ext :: ext where
  "ex_ext = \<lparr>json_text = (\<lambda>_. []), sha256 = (\<lambda>_. replicate 32 0), hmac = (\<lambda>_ _. replicate 32 0),
     ulid_text = (\<lambda>_. []), ts_text = (\<lambda>_. []), ts_max = 253402207200999999999,
     unicode_lower = (\<lambda>_ rest. rest), json_parse = (\<lambda>_. None)\<rparr>"

lemma wf_ex_ext: "wf_ext ex_ext"
  by (simp add: wf_ext_def ex_ext_def)

text \<open>
  A digest does not depend on the order of object entries: two JSON values that are equal
  up to the order of the entries of their objects, at any depth, have the same digest.
\<close>

theorem digest_order_independent:
  assumes "json_perm v w" "wf_json v"
  shows "digest_of X v = digest_of X w"
  using canonical_json_perm [OF assms] by (simp add: digest_of_def canonical_json_def)

theorem digest_order_independent_witness:
  "digest_of ex_ext (JArray [JObject [(''b'', JNull), (''a'', JBool True)]]) =
     digest_of ex_ext (JArray [JObject [(''a'', JBool True), (''b'', JNull)]])"
proof (rule digest_order_independent)
  have "json_perm (JObject [(''b'', JNull), (''a'', JBool True)])
      (JObject [(''a'', JBool True), (''b'', JNull)])"
    by (rule perm_object [of _ "[(''b'', JNull), (''a'', JBool True)]"])
      (simp_all add: perm_refl add_mset_commute)
  then show "json_perm (JArray [JObject [(''b'', JNull), (''a'', JBool True)]])
      (JArray [JObject [(''a'', JBool True), (''b'', JNull)]])"
    by (intro perm_array) simp
  show "wf_json (JArray [JObject [(''b'', JNull), (''a'', JBool True)]])" by simp
qed

text \<open>
  The in-place comparison of a digest text with a hash agrees with building the digest:
  it succeeds exactly when the text parses as the digest of that hash.
\<close>

theorem digest_matches_hash_correct:
  assumes "length h = 32"
  shows "digest_matches_hash s h \<longleftrightarrow> digest_parse s = Inr (digest_from_hash h)"
  using digest_matches_hash_iff [OF assms, of s] digest_is_valid_from_hash [OF assms]
  by (auto simp: digest_parse_def digest_from_hash_def)

theorem digest_matches_hash_correct_witness:
  "digest_matches_hash (''sha256:'' @ replicate 64 (CHR ''0'')) (replicate 32 0) \<longleftrightarrow>
     digest_parse (''sha256:'' @ replicate 64 (CHR ''0'')) =
       Inr (digest_from_hash (replicate 32 0))"
  by (rule digest_matches_hash_correct) simp

text \<open>
  Hexadecimal text round-trips: decoding the encoding of 32 bytes gives them back without
  a panic, and the constant-time comparison of two encodings is equality of the bytes.
\<close>

theorem hex_roundtrip:
  assumes "length a = 32" "length b = 32"
  shows "hex_decode_32 (hex_encode a) = Inr (Some a) \<and>
    (ct_eq_hex (hex_encode a) (hex_encode b) \<longleftrightarrow> a = b)"
  using assms hex_encode_inj by (auto simp: hex_decode_encode ct_eq_hex_iff)

theorem hex_roundtrip_witness:
  "hex_decode_32 (hex_encode (replicate 32 171)) = Inr (Some (replicate 32 171)) \<and>
     \<not> ct_eq_hex (hex_encode (replicate 32 171)) (hex_encode (replicate 32 0))"
  using hex_roundtrip [of "replicate 32 171" "replicate 32 0"] by (simp add: replicate_eq_replicate)

end
