(* ===== verification/Vocabulary.thy ===== *)
theory Vocabulary
  imports Canonical_Json
begin

text \<open>
  The closed vocabularies and value types the components share: events
  (\<open>event.rs\<close>), identities (\<open>identity.rs\<close>, \<open>ids.rs\<close>), artifact references and
  lifecycle (\<open>artifact.rs\<close>), egress classes (\<open>egress.rs\<close>), provenance origins
  (\<open>provenance.rs\<close>), all under \<open>src/crates/openspine-schemas/src\<close>. Enum variants keep
  the source's names, with a suffix where two enums share one; record fields carry a
  prefix naming their struct.
\<close>

section \<open>Identifiers\<close>

datatype action_id = ActionId (as_str: string)

text \<open>\<open>ActionId\<close> derives \<open>Ord\<close>: the order of the underlying text.\<close>

instantiation action_id :: linorder
begin

definition less_eq_action_id :: "action_id \<Rightarrow> action_id \<Rightarrow> bool" where
  "less_eq_action_id a b \<longleftrightarrow> as_str a \<le> as_str b"

definition less_action_id :: "action_id \<Rightarrow> action_id \<Rightarrow> bool" where
  "less_action_id a b \<longleftrightarrow> as_str a < as_str b"

instance
  by standard (auto simp: less_eq_action_id_def less_action_id_def action_id.expand)

end

datatype principal_id = PrincipalId (principal_ulid: ulid)

datatype identity_ref = IdentityRef (identity_ulid: ulid)

type_synonym artifact_id = string

section \<open>Artifacts and their lifecycle\<close>

record artifact_ref =
  ar_digest :: digest
  ar_schema_version :: u32

datatype lifecycle =
  Proposed | Validated | ReviewRequired | Approved | Active | Quarantined | Retired

fun can_transition :: "lifecycle \<Rightarrow> lifecycle \<Rightarrow> bool" where
  "can_transition Proposed Validated = True"
| "can_transition Validated ReviewRequired = True"
| "can_transition ReviewRequired Approved = True"
| "can_transition Approved Active = True"
| "can_transition Active Approved = True"
| "can_transition Active Quarantined = True"
| "can_transition Active Retired = True"
| "can_transition _ _ = False"

text \<open>A quarantined or retired artifact never moves again.\<close>

lemma terminal_lifecycle:
  "can_transition\<^sup>*\<^sup>* s t \<Longrightarrow> s = Quarantined \<or> s = Retired \<Longrightarrow> t = s"
proof (induction rule: rtranclp_induct)
  case (step t u)
  then show ?case by (cases u) auto
qed simp

text \<open>Without a step out of \<open>Approved\<close>, nothing that starts as a proposal becomes active.\<close>

lemma proposed_without_approval:
  "(\<lambda>a b. can_transition a b \<and> a \<noteq> Approved)\<^sup>*\<^sup>* Proposed t \<Longrightarrow>
     t \<in> {Proposed, Validated, ReviewRequired, Approved}"
proof (induction rule: rtranclp_induct)
  case (step s t)
  then show ?case by (cases t) auto
qed simp

section \<open>Egress classes and provenance\<close>

datatype egress_class = Search | ForumBrowse | WebFormPost | DirectMessage

fun egress_as_str :: "egress_class \<Rightarrow> string" where
  "egress_as_str Search = ''search''"
| "egress_as_str ForumBrowse = ''forum-browse''"
| "egress_as_str WebFormPost = ''web-form-post''"
| "egress_as_str DirectMessage = ''direct-message''"

lemma egress_as_str_inj: "egress_as_str a = egress_as_str b \<longleftrightarrow> a = b"
  by (cases a; cases b) auto

datatype provenance_origin =
    OwnerOrigin principal_id
  | CounterpartyOrigin identity_ref
  | SystemOrigin

fun producing_scope :: "provenance_origin \<Rightarrow> ulid" where
  "producing_scope (OwnerOrigin p) = principal_ulid p"
| "producing_scope (CounterpartyOrigin i) = identity_ulid i"
| "producing_scope SystemOrigin = nil_ulid"

section \<open>Events\<close>

datatype source =
    Gmail | Telegram | Whatsapp | Slack | Discord | Cli | Webhook | Timer | Git | Internal_source

datatype connector =
    TelegramOwnerBot | GmailPrimaryConnector | GoogleWorkspacePrimary | OutlookPrimary
  | ImapPrimary | AgentmailPrimary | CoolifyPrimary

datatype account_role =
    OwnerMailbox | AgentInbox | SharedWorkspaceMailbox | CustomerIntakeInbox
  | NotificationInbox | OwnerControlAccount | SystemAccount

datatype event_type =
    TelegramOwnerMessage | CliOwnerMessage | EmailThreadSelected | TimerDeadlineFired
  | TimerReminderFired | TimerReflectionFired | WebhookReceived

datatype verification_method =
    OauthSession | WebhookSignature | LocalCliAuth | DeviceSession | ConnectorPoll
  | TelegramOwnerIdMatch | KernelUiSelection | NoVerification

datatype data_classification = Private | Internal | Public | Unknown_classification

datatype lane =
    OwnerControl | ExternalCommunication | ContentDocument | SystemOperations
  | ScheduledInternal | Development | BusinessWorkflow | Internal_lane

datatype channel_trust =
    OwnerDevice | VerifiedOwnerChannel | VerifiedContact | KnownContact | WorkspaceMember
  | Unknown_trust | Untrusted

datatype interaction_mode =
    OwnerMessage | UserSelected | InboundMessage | Scheduled | SystemHook

record trust_context =
  tc_channel_trust :: channel_trust
  tc_interaction_mode :: interaction_mode

record actor_hint =
  ah_channel_user_id :: "string option"
  ah_email :: "string option"
  ah_phone :: "string option"
  ah_handle :: "string option"
  ah_device_id :: "string option"

datatype target_ref_kind =
    EmailThread | Conversation_target | Project | Deployment | SecretSlot | NoTarget

record target_ref =
  tr_kind :: target_ref_kind
  tr_id :: "string option"

record event_envelope =
  ev_id :: ulid
  ev_source :: source
  ev_connector :: "connector option"
  ev_account_role :: "account_role option"
  ev_event_type :: event_type
  ev_received_at :: timestamp
  ev_verified_source :: bool
  ev_verification_method :: verification_method
  ev_replay_protected :: bool
  ev_replay_nonce :: "string option"
  ev_channel_account :: string
  ev_raw_event_ref :: artifact_ref
  ev_actor_hint :: actor_hint
  ev_target_refs :: "target_ref list"
  ev_data_classification :: data_classification
  ev_user_intent_hint :: "string option"
  ev_lane :: lane
  ev_trust_context :: trust_context
  ev_thread_id :: "string option"
  ev_schema_version :: u32

section \<open>Identity resolution\<close>

datatype relationship_kind =
  Spouse | Colleague | Client | Vendor | Owner | Family | Unknown_relationship

datatype matched_identifier_type =
  TelegramUserId | Email | Phone | Handle | Device | NoIdentifier

record identity_resolution =
  ir_event_id :: ulid
  ir_matched_identity_id :: "ulid option"
  ir_principal_id :: "ulid option"
  ir_confidence :: f64
  ir_matched_identifier_type :: matched_identifier_type
  ir_channel_trust :: channel_trust
  ir_source_verified :: bool
  ir_authority_warning :: "string option"
  ir_schema_version :: u32

section \<open>Properties\<close>

text \<open>
  The artifact lifecycle. An artifact that starts as a proposal becomes active only
  through approval: with the steps out of the approved state removed it never does; and a
  quarantined or retired artifact never changes state again.
\<close>

theorem lifecycle_needs_approval:
  "((\<lambda>a b. can_transition a b \<and> a \<noteq> Approved)\<^sup>*\<^sup>* Proposed t \<longrightarrow> t \<noteq> Active) \<and>
   (can_transition\<^sup>*\<^sup>* Quarantined t \<longrightarrow> t = Quarantined) \<and>
   (can_transition\<^sup>*\<^sup>* Retired t \<longrightarrow> t = Retired)"
  using proposed_without_approval [of t] terminal_lifecycle [of Quarantined t]
    terminal_lifecycle [of Retired t] by auto

theorem lifecycle_needs_approval_witness:
  "(\<lambda>a b. can_transition a b \<and> a \<noteq> Approved)\<^sup>*\<^sup>* Proposed Validated \<and> Validated \<noteq> Active"
proof
  show *: "(\<lambda>a b. can_transition a b \<and> a \<noteq> Approved)\<^sup>*\<^sup>* Proposed Validated"
    by (rule r_into_rtranclp) simp
  show "Validated \<noteq> Active" using lifecycle_needs_approval [of Validated] * by blast
qed

end
