(* ===== verification/Delegation.thy ===== *)
theory Delegation
  imports Vocabulary
begin

text \<open>
  Reusable-delegation declarations and their eligibility check
  (\<open>src/crates/openspine-schemas/src/delegation_contract.rs\<close>). A descriptor and one
  implementation are validated together before an owner proposal can exist. The order of
  the checks, which decides the reported error, is the source's.
\<close>

section \<open>Declarations\<close>

record budget_window =
  bw_max :: u32
  bw_window_secs :: int

datatype effect_kind =
    ReadOnly | InternalMutation | OwnerAccountWrite | CounterpartyCommunication
  | SharedWorkspaceWrite | PublicPublish | SystemOperation | SecretOperation

fun effect_is_communication_or_connector_write :: "effect_kind \<Rightarrow> bool" where
  "effect_is_communication_or_connector_write OwnerAccountWrite = True"
| "effect_is_communication_or_connector_write CounterpartyCommunication = True"
| "effect_is_communication_or_connector_write SharedWorkspaceWrite = True"
| "effect_is_communication_or_connector_write PublicPublish = True"
| "effect_is_communication_or_connector_write _ = False"

datatype effect_reversibility = Reversible | ConditionallyReversible | Irreversible

datatype data_destination =
    InternalOnly | OwnerDevice_destination | OwnerCloudAccount | BoundCounterparty
  | SharedWorkspace | Public_destination | ExternalService

fun destination_is_communication_or_connector_write :: "data_destination \<Rightarrow> bool" where
  "destination_is_communication_or_connector_write OwnerCloudAccount = True"
| "destination_is_communication_or_connector_write BoundCounterparty = True"
| "destination_is_communication_or_connector_write SharedWorkspace = True"
| "destination_is_communication_or_connector_write Public_destination = True"
| "destination_is_communication_or_connector_write ExternalService = True"
| "destination_is_communication_or_connector_write _ = False"

datatype reviewed_scope_dimension =
    ActionDim | DescriptorDim | ConnectorImplementation | ConnectorInstance | AccountRole
  | AccountIdentity | Target | Counterparty | RelationshipTier | BoundParameters
  | TargetDigest | PayloadDigest | EffectDestination | EgressClassDim | DisclosureClass
  | OutputChannel | Workflow | TaskShape

record action_semantics =
  as_owner_verb :: string
  as_owner_object :: string
  as_owner_target :: string
  as_effect_kind :: effect_kind
  as_reversibility :: effect_reversibility
  as_destination :: data_destination

record budget_window_bounds =
  bb_minimum_max :: u32
  bb_maximum_max :: u32
  bb_minimum_window_secs :: int
  bb_maximum_window_secs :: int

definition bounds_contains :: "budget_window_bounds \<Rightarrow> budget_window \<Rightarrow> bool" where
  "bounds_contains b v \<longleftrightarrow>
     bb_minimum_max b \<le> bw_max v \<and> bw_max v \<le> bb_maximum_max b \<and>
     bb_minimum_window_secs b \<le> bw_window_secs v \<and> bw_window_secs v \<le> bb_maximum_window_secs b"

datatype delegation_proposal_mode = ExplicitLimitsRequired | DefaultsPermitted

datatype dark_window_policy =
    Prohibited
  | DenyOnly int u32
  | BoundedAllow int u32

record delegation_defaults =
  dd_quota :: budget_window
  dd_rate :: budget_window
  dd_expires_after_secs :: int

record delegation_policy_bounds =
  dp_schema_version :: u32
  dp_policy_version :: u32
  dp_quota :: budget_window_bounds
  dp_rate :: budget_window_bounds
  dp_maximum_lapse_secs :: int
  dp_proposal_mode :: delegation_proposal_mode
  dp_defaults :: "delegation_defaults option"
  dp_dark_window_policy :: dark_window_policy
  dp_fresh_target_selection_required :: bool

record action_descriptor =
  ad_schema_version :: u32
  ad_descriptor_version :: u32
  ad_action_id :: action_id
  ad_semantics :: action_semantics
  ad_reusable_delegation :: bool
  ad_required_scope_dimensions :: "reviewed_scope_dimension set"
  ad_delegation_policy :: "delegation_policy_bounds option"

definition descriptor_is_communication_or_connector_write :: "action_descriptor \<Rightarrow> bool" where
  "descriptor_is_communication_or_connector_write d \<longleftrightarrow>
     effect_is_communication_or_connector_write (as_effect_kind (ad_semantics d)) \<or>
     destination_is_communication_or_connector_write (as_destination (ad_semantics d))"

datatype action_implementation_id = ActionImplementationId (implementation_str: string)

record action_implementation_descriptor =
  ai_schema_version :: u32
  ai_implementation_version :: u32
  ai_action_id :: action_id
  ai_implementation_id :: action_implementation_id
  ai_connector_kind :: string
  ai_executor_id :: string
  ai_executor_version :: u32
  ai_resolver_id :: string
  ai_resolver_version :: u32

datatype delegation_eligibility_error =
    IncompleteDescriptor string
  | IncompleteImplementation string
  | ReusableDelegationUnsupported
  | MissingDelegationPolicy
  | ImplementationActionMismatch
  | CommunicationScopeTooBroad
  | CommunicationDarkWindowAllowForbidden
  | InvalidPolicyBounds string
  | DefaultOutOfBounds string

section \<open>The eligibility check\<close>

definition validate_descriptor_shape :: "action_descriptor \<Rightarrow> delegation_eligibility_error + unit" where
  "validate_descriptor_shape d =
     (case first_failing
        [(''schema_version'', ad_schema_version d = 0),
         (''descriptor_version'', ad_descriptor_version d = 0),
         (''action_id'', str_is_blank (as_str (ad_action_id d))),
         (''owner_verb'', str_is_blank (as_owner_verb (ad_semantics d))),
         (''owner_object'', str_is_blank (as_owner_object (ad_semantics d))),
         (''owner_target'', str_is_blank (as_owner_target (ad_semantics d)))] of
        Some field \<Rightarrow> Inl (IncompleteDescriptor field)
      | None \<Rightarrow> Inr ())"

definition validate_implementation_shape ::
  "action_implementation_descriptor \<Rightarrow> delegation_eligibility_error + unit" where
  "validate_implementation_shape i =
     (case first_failing
        [(''schema_version'', ai_schema_version i = 0),
         (''implementation_version'', ai_implementation_version i = 0),
         (''action_id'', str_is_blank (as_str (ai_action_id i))),
         (''implementation_id'', str_is_blank (implementation_str (ai_implementation_id i))),
         (''connector_kind'', str_is_blank (ai_connector_kind i)),
         (''executor_id'', str_is_blank (ai_executor_id i)),
         (''executor_version'', ai_executor_version i = 0),
         (''resolver_id'', str_is_blank (ai_resolver_id i)),
         (''resolver_version'', ai_resolver_version i = 0)] of
        Some field \<Rightarrow> Inl (IncompleteImplementation field)
      | None \<Rightarrow> Inr ())"

definition bad_bounds :: "budget_window_bounds \<Rightarrow> bool" where
  "bad_bounds b \<longleftrightarrow>
     bb_minimum_max b = 0 \<or> bb_minimum_max b > bb_maximum_max b \<or>
     bb_minimum_window_secs b \<le> 0 \<or> bb_minimum_window_secs b > bb_maximum_window_secs b"

fun bad_dark_window :: "dark_window_policy \<Rightarrow> bool" where
  "bad_dark_window Prohibited = False"
| "bad_dark_window (DenyOnly t n) = (t \<le> 0 \<or> n = 0)"
| "bad_dark_window (BoundedAllow t n) = (t \<le> 0 \<or> n = 0)"

definition validate_policy :: "delegation_policy_bounds \<Rightarrow> delegation_eligibility_error + unit" where
  "validate_policy p =
     (case first_failing
        [(''schema_version'', dp_schema_version p = 0),
         (''policy_version'', dp_policy_version p = 0),
         (''quota'', bad_bounds (dp_quota p)),
         (''rate'', bad_bounds (dp_rate p)),
         (''maximum_lapse_secs'', dp_maximum_lapse_secs p \<le> 0)] of
        Some field \<Rightarrow> Inl (InvalidPolicyBounds field)
      | None \<Rightarrow>
          if bad_dark_window (dp_dark_window_policy p)
          then Inl (InvalidPolicyBounds ''dark_window_policy'')
          else if dp_proposal_mode p = ExplicitLimitsRequired \<and> dp_defaults p \<noteq> None
          then Inl (InvalidPolicyBounds ''defaults'')
          else (case dp_defaults p of
              None \<Rightarrow> Inr ()
            | Some dft \<Rightarrow>
                if \<not> bounds_contains (dp_quota p) (dd_quota dft)
                then Inl (DefaultOutOfBounds ''quota'')
                else if \<not> bounds_contains (dp_rate p) (dd_rate dft)
                then Inl (DefaultOutOfBounds ''rate'')
                else if dd_expires_after_secs dft \<le> 0 \<or>
                    dd_expires_after_secs dft > dp_maximum_lapse_secs p
                then Inl (DefaultOutOfBounds ''expires_after_secs'')
                else Inr ()))"

definition communication_minimum :: "reviewed_scope_dimension list" where
  "communication_minimum =
     [ConnectorImplementation, ConnectorInstance, AccountRole, AccountIdentity, Target,
      Counterparty, EffectDestination, Workflow, TaskShape]"

fun is_bounded_allow :: "dark_window_policy \<Rightarrow> bool" where
  "is_bounded_allow (BoundedAllow _ _) = True"
| "is_bounded_allow _ = False"

definition validate_delegation_contract ::
  "action_descriptor \<Rightarrow> action_implementation_descriptor \<Rightarrow> delegation_eligibility_error + unit"
where
  "validate_delegation_contract d i =
     (case validate_descriptor_shape d of
        Inl e \<Rightarrow> Inl e
      | Inr _ \<Rightarrow>
     (case validate_implementation_shape i of
        Inl e \<Rightarrow> Inl e
      | Inr _ \<Rightarrow>
        if ad_action_id d \<noteq> ai_action_id i then Inl ImplementationActionMismatch
        else if \<not> ad_reusable_delegation d then Inl ReusableDelegationUnsupported
        else (case ad_delegation_policy d of
            None \<Rightarrow> Inl MissingDelegationPolicy
          | Some policy \<Rightarrow>
              if descriptor_is_communication_or_connector_write d \<and>
                 list_ex (\<lambda>dim. dim \<notin> ad_required_scope_dimensions d) communication_minimum
              then Inl CommunicationScopeTooBroad
              else if descriptor_is_communication_or_connector_write d \<and>
                 is_bounded_allow (dp_dark_window_policy policy)
              then Inl CommunicationDarkWindowAllowForbidden
              else validate_policy policy)))"

section \<open>What an eligible contract guarantees\<close>

definition bounds_ok :: "budget_window_bounds \<Rightarrow> bool" where
  "bounds_ok b \<longleftrightarrow>
     0 < bb_minimum_max b \<and> bb_minimum_max b \<le> bb_maximum_max b \<and>
     0 < bb_minimum_window_secs b \<and> bb_minimum_window_secs b \<le> bb_maximum_window_secs b"

lemma bad_bounds_iff: "bad_bounds b \<longleftrightarrow> \<not> bounds_ok b"
  by (auto simp: bad_bounds_def bounds_ok_def word_neq_0_conv)

text \<open>The declarative reading of \<open>validate_policy\<close>.\<close>

definition policy_ok :: "delegation_policy_bounds \<Rightarrow> bool" where
  "policy_ok p \<longleftrightarrow>
     dp_schema_version p \<noteq> 0 \<and> dp_policy_version p \<noteq> 0 \<and>
     bounds_ok (dp_quota p) \<and> bounds_ok (dp_rate p) \<and> 0 < dp_maximum_lapse_secs p \<and>
     \<not> bad_dark_window (dp_dark_window_policy p) \<and>
     (\<forall>dft. dp_defaults p = Some dft \<longrightarrow>
        dp_proposal_mode p = DefaultsPermitted \<and>
        bounds_contains (dp_quota p) (dd_quota dft) \<and>
        bounds_contains (dp_rate p) (dd_rate dft) \<and>
        0 < dd_expires_after_secs dft \<and> dd_expires_after_secs dft \<le> dp_maximum_lapse_secs p)"

lemma validate_policy_iff: "validate_policy p = Inr () \<longleftrightarrow> policy_ok p"
  by (cases "dp_proposal_mode p"; cases "dp_defaults p")
    (auto simp: validate_policy_def policy_ok_def bad_bounds_iff not_le)

lemma validate_descriptor_shape_iff:
  "validate_descriptor_shape d = Inr () \<longleftrightarrow>
     ad_schema_version d \<noteq> 0 \<and> ad_descriptor_version d \<noteq> 0 \<and>
     \<not> str_is_blank (as_str (ad_action_id d)) \<and>
     \<not> str_is_blank (as_owner_verb (ad_semantics d)) \<and>
     \<not> str_is_blank (as_owner_object (ad_semantics d)) \<and>
     \<not> str_is_blank (as_owner_target (ad_semantics d))"
  by (auto simp: validate_descriptor_shape_def)

lemma validate_implementation_shape_iff:
  "validate_implementation_shape i = Inr () \<longleftrightarrow>
     ai_schema_version i \<noteq> 0 \<and> ai_implementation_version i \<noteq> 0 \<and>
     \<not> str_is_blank (as_str (ai_action_id i)) \<and>
     \<not> str_is_blank (implementation_str (ai_implementation_id i)) \<and>
     \<not> str_is_blank (ai_connector_kind i) \<and> \<not> str_is_blank (ai_executor_id i) \<and>
     ai_executor_version i \<noteq> 0 \<and> \<not> str_is_blank (ai_resolver_id i) \<and>
     ai_resolver_version i \<noteq> 0"
  by (auto simp: validate_implementation_shape_def)

lemma list_ex_communication_minimum:
  "list_ex (\<lambda>dim. dim \<notin> S) communication_minimum \<longleftrightarrow> \<not> set communication_minimum \<subseteq> S"
  by (auto simp: list_ex_iff)

lemma validate_delegation_contract_iff:
  "validate_delegation_contract d i = Inr () \<longleftrightarrow>
     validate_descriptor_shape d = Inr () \<and> validate_implementation_shape i = Inr () \<and>
     ad_action_id d = ai_action_id i \<and> ad_reusable_delegation d \<and>
     (\<exists>p. ad_delegation_policy d = Some p \<and> policy_ok p \<and>
        (descriptor_is_communication_or_connector_write d \<longrightarrow>
           set communication_minimum \<subseteq> ad_required_scope_dimensions d \<and>
           \<not> is_bounded_allow (dp_dark_window_policy p)))"
  by (auto simp: validate_delegation_contract_def validate_policy_iff
      list_ex_communication_minimum split: sum.splits option.splits)

end
