(* ===== verification/Catalog.thy ===== *)
theory Catalog
  imports Delegation "HOL-Library.AList"
begin

text \<open>
  The canonical action catalog and the records the gate reads beside it:
  \<open>action.rs\<close>, \<open>action/catalog_metadata.rs\<close>, \<open>action_compatibility.rs\<close>, \<open>selection.rs\<close>
  and \<open>approval.rs\<close> under \<open>src/crates/openspine-schemas/src\<close>.

  Hash sets are sets; hash maps are partial maps. The map of implementation descriptors is
  kept as its entries in iteration order, because
  \<open>implementation_descriptor_for_action\<close> returns the first value its iterator meets.
\<close>

section \<open>Selection tokens and approvals\<close>

datatype selection_token_type = SelectionTokenType string

definition email_thread_selection :: selection_token_type where
  "email_thread_selection = SelectionTokenType ''email_thread_selection''"

datatype selection_verification_method =
  KernelUiSelection_token | ApprovedOwnerControlSelection

record selection_scope =
  ss_read_thread :: bool
  ss_attachments_allowed :: bool
  ss_max_messages :: u32
  ss_include_headers :: bool
  ss_include_recipients :: bool
  ss_include_body :: bool

record selection_token =
  st_id :: ulid
  st_schema_version :: u32
  st_token_type :: selection_token_type
  st_user :: principal_id
  st_target_id :: string
  st_selected_by :: principal_id
  st_selected_at :: timestamp
  st_issued_by :: string
  st_expires_at :: timestamp
  st_verified_source :: bool
  st_verification_method :: selection_verification_method
  st_connector :: "connector option"
  st_account_role :: "account_role option"
  st_scope :: selection_scope
  st_single_use :: bool

datatype approval_decision = Approved_decision | Rejected | Edited

datatype timeout_behavior = DoNothing

record approval_record =
  ap_id :: ulid
  ap_schema_version :: u32
  ap_action_request_id :: ulid
  ap_approved_by :: principal_id
  ap_approved_at :: timestamp
  ap_approved_payload_digest :: digest
  ap_approved_target_digest :: digest
  ap_expires_at :: timestamp
  ap_decision :: approval_decision
  ap_timeout_behavior :: timeout_behavior
  ap_approval_channel :: string

definition approval_matches :: "approval_record \<Rightarrow> digest \<Rightarrow> digest \<Rightarrow> timestamp \<Rightarrow> bool" where
  "approval_matches a payload target now \<longleftrightarrow>
     ap_decision a = Approved_decision \<and>
     ap_approved_payload_digest a = payload \<and>
     ap_approved_target_digest a = target \<and>
     now < ap_expires_at a"

section \<open>The action catalog\<close>

datatype effect_path_class =
    GatedShell | PostGateApprovedEffect | KernelOriginGated | InternalMaintenanceNonEffect
  | PreGateOwnerSelectedRead

record effect_path =
  ep_name :: string
  ep_classification :: effect_path_class

record action_egress_declaration =
  ed_output_channels :: "string list option"
  ed_egress_class :: "egress_class option"

record tool_descriptor =
  td_name :: string
  td_description :: string
  td_parameters_schema :: json
  td_approval_required :: bool
  td_selection_token_required :: bool

record action_catalog =
  ac_ids :: "action_id set"
  ac_kernel_origin_actions :: "action_id set"
  ac_non_delegable_actions :: "action_id set"
  ac_non_effect_stub_actions :: "action_id set"
  ac_token_requiring_actions :: "action_id \<rightharpoonup> selection_token_type"
  ac_effect_paths :: "effect_path list"
  ac_counterparty_facing_actions :: "action_id set"
  ac_egress_declarations :: "action_id \<rightharpoonup> action_egress_declaration"
  ac_tool_descriptors :: "action_id \<rightharpoonup> tool_descriptor"
  ac_approval_narrowing_actions :: "action_id set"
  ac_delegation_descriptors :: "action_id \<rightharpoonup> action_descriptor"
  ac_implementation_descriptors ::
    "(action_implementation_id \<times> action_implementation_descriptor) list"

definition catalog_new :: "action_id list \<Rightarrow> action_catalog" where
  "catalog_new ids =
     \<lparr>ac_ids = set ids, ac_kernel_origin_actions = {}, ac_non_delegable_actions = {},
      ac_non_effect_stub_actions = {}, ac_token_requiring_actions = Map.empty,
      ac_effect_paths = [], ac_counterparty_facing_actions = {},
      ac_egress_declarations = Map.empty, ac_tool_descriptors = Map.empty,
      ac_approval_narrowing_actions = {}, ac_delegation_descriptors = Map.empty,
      ac_implementation_descriptors = []\<rparr>"

text \<open>The builders assign, except \<open>with_output_channels\<close>, which inserts.\<close>

definition with_approval_narrowing :: "action_id list \<Rightarrow> action_catalog \<Rightarrow> action_catalog" where
  "with_approval_narrowing ids c = c\<lparr>ac_approval_narrowing_actions := set ids\<rparr>"

definition with_kernel_origin :: "action_id list \<Rightarrow> action_catalog \<Rightarrow> action_catalog" where
  "with_kernel_origin ids c = c\<lparr>ac_kernel_origin_actions := set ids\<rparr>"

definition with_non_delegable :: "action_id list \<Rightarrow> action_catalog \<Rightarrow> action_catalog" where
  "with_non_delegable ids c = c\<lparr>ac_non_delegable_actions := set ids\<rparr>"

definition with_non_effect_stub :: "action_id list \<Rightarrow> action_catalog \<Rightarrow> action_catalog" where
  "with_non_effect_stub ids c = c\<lparr>ac_non_effect_stub_actions := set ids\<rparr>"

definition with_token_requiring ::
  "(action_id \<times> selection_token_type) list \<Rightarrow> action_catalog \<Rightarrow> action_catalog" where
  "with_token_requiring kvs c = c\<lparr>ac_token_requiring_actions := hashmap_collect kvs\<rparr>"

definition with_effect_paths :: "effect_path list \<Rightarrow> action_catalog \<Rightarrow> action_catalog" where
  "with_effect_paths ps c = c\<lparr>ac_effect_paths := ps\<rparr>"

definition with_counterparty_facing :: "action_id list \<Rightarrow> action_catalog \<Rightarrow> action_catalog" where
  "with_counterparty_facing ids c = c\<lparr>ac_counterparty_facing_actions := set ids\<rparr>"

fun with_output_channels ::
  "(action_id \<times> string list) list \<Rightarrow> action_catalog \<Rightarrow> action_catalog" where
  "with_output_channels [] c = c"
| "with_output_channels ((a, channels) # rest) c =
     with_output_channels rest
       (c\<lparr>ac_egress_declarations := (ac_egress_declarations c)
            (a \<mapsto> \<lparr>ed_output_channels = Some channels, ed_egress_class = None\<rparr>)\<rparr>)"

definition with_egress_declarations ::
  "(action_id \<times> action_egress_declaration) list \<Rightarrow> action_catalog \<Rightarrow> action_catalog" where
  "with_egress_declarations kvs c = c\<lparr>ac_egress_declarations := hashmap_collect kvs\<rparr>"

definition with_tool_descriptors ::
  "(action_id \<times> tool_descriptor) list \<Rightarrow> action_catalog \<Rightarrow> action_catalog" where
  "with_tool_descriptors kvs c = c\<lparr>ac_tool_descriptors := hashmap_collect kvs\<rparr>"

definition with_delegation_descriptors ::
  "action_descriptor list \<Rightarrow> action_catalog \<Rightarrow> action_catalog" where
  "with_delegation_descriptors ds c =
     c\<lparr>ac_delegation_descriptors := hashmap_collect (map (\<lambda>d. (ad_action_id d, d)) ds)\<rparr>"

definition with_implementation_descriptors ::
  "action_implementation_descriptor list \<Rightarrow> action_catalog \<Rightarrow> action_catalog" where
  "with_implementation_descriptors ds c =
     c\<lparr>ac_implementation_descriptors :=
         foldl (\<lambda>m d. AList.update (ai_implementation_id d) d m) [] ds\<rparr>"

definition catalog_contains :: "action_catalog \<Rightarrow> action_id \<Rightarrow> bool" where
  "catalog_contains c a \<longleftrightarrow> a \<in> ac_ids c"

definition is_non_delegable :: "action_catalog \<Rightarrow> action_id \<Rightarrow> bool" where
  "is_non_delegable c a \<longleftrightarrow> a \<in> ac_non_delegable_actions c"

definition is_non_effect_stub :: "action_catalog \<Rightarrow> action_id \<Rightarrow> bool" where
  "is_non_effect_stub c a \<longleftrightarrow> a \<in> ac_non_effect_stub_actions c"

definition is_counterparty_facing :: "action_catalog \<Rightarrow> action_id \<Rightarrow> bool" where
  "is_counterparty_facing c a \<longleftrightarrow> a \<in> ac_counterparty_facing_actions c"

definition is_approval_narrowing :: "action_catalog \<Rightarrow> action_id \<Rightarrow> bool" where
  "is_approval_narrowing c a \<longleftrightarrow> a \<in> ac_approval_narrowing_actions c"

definition is_kernel_origin :: "action_catalog \<Rightarrow> action_id \<Rightarrow> bool" where
  "is_kernel_origin c a \<longleftrightarrow> a \<in> ac_kernel_origin_actions c"

definition requires_selection_token :: "action_catalog \<Rightarrow> action_id \<Rightarrow> selection_token_type option" where
  "requires_selection_token c a = ac_token_requiring_actions c a"

definition egress_decl_for :: "action_catalog \<Rightarrow> action_id \<Rightarrow> action_egress_declaration option" where
  "egress_decl_for c a = ac_egress_declarations c a"

definition egress_class_for :: "action_catalog \<Rightarrow> action_id \<Rightarrow> egress_class option" where
  "egress_class_for c a = Option.bind (egress_decl_for c a) ed_egress_class"

definition output_channel_for :: "action_catalog \<Rightarrow> action_id \<Rightarrow> string list option" where
  "output_channel_for c a = Option.bind (egress_decl_for c a) ed_output_channels"

definition tool_descriptor_for :: "action_catalog \<Rightarrow> action_id \<Rightarrow> tool_descriptor option" where
  "tool_descriptor_for c a = ac_tool_descriptors c a"

definition delegation_descriptor_for :: "action_catalog \<Rightarrow> action_id \<Rightarrow> action_descriptor option" where
  "delegation_descriptor_for c a = ac_delegation_descriptors c a"

definition implementation_descriptor_for_action ::
  "action_catalog \<Rightarrow> action_id \<Rightarrow> action_implementation_descriptor option" where
  "implementation_descriptor_for_action c a =
     find (\<lambda>d. ai_action_id d = a) (map snd (ac_implementation_descriptors c))"

definition implementation_descriptor_for ::
  "action_catalog \<Rightarrow> action_implementation_id \<Rightarrow> action_implementation_descriptor option" where
  "implementation_descriptor_for c i = map_of (ac_implementation_descriptors c) i"

datatype delegation_catalog_error =
    UnknownAction_catalog action_id
  | MissingActionDescriptor action_id
  | MissingImplementationDescriptor action_implementation_id
  | Ineligible delegation_eligibility_error

definition validated_delegation_contract ::
  "action_catalog \<Rightarrow> action_id \<Rightarrow> action_implementation_id \<Rightarrow>
     delegation_catalog_error + (action_descriptor \<times> action_implementation_descriptor)" where
  "validated_delegation_contract c a i =
     (if \<not> catalog_contains c a then Inl (UnknownAction_catalog a)
      else (case delegation_descriptor_for c a of
          None \<Rightarrow> Inl (MissingActionDescriptor a)
        | Some d \<Rightarrow>
      (case implementation_descriptor_for c i of
          None \<Rightarrow> Inl (MissingImplementationDescriptor i)
        | Some m \<Rightarrow>
      (case validate_delegation_contract d m of
          Inl e \<Rightarrow> Inl (Ineligible e)
        | Inr _ \<Rightarrow> Inr (d, m)))))"

lemmas catalog_defs =
  catalog_contains_def is_non_delegable_def is_kernel_origin_def requires_selection_token_def
  egress_decl_for_def egress_class_for_def output_channel_for_def tool_descriptor_for_def
  delegation_descriptor_for_def implementation_descriptor_for_def

section \<open>Lookup after registration\<close>

lemma egress_decl_for_with_output_channels:
  "egress_decl_for (with_output_channels kvs c) a =
     (case hashmap_collect kvs a of
        Some channels \<Rightarrow> Some \<lparr>ed_output_channels = Some channels, ed_egress_class = None\<rparr>
      | None \<Rightarrow> egress_decl_for c a)"
  by (induction kvs c rule: with_output_channels.induct)
    (auto simp: hashmap_collect_def catalog_defs map_add_def map_of_append split: option.splits)

lemma map_of_foldl_update:
  "map_of (foldl (\<lambda>m d. AList.update (k d) d m) m ds) =
     map_of m ++ map_of (rev (map (\<lambda>d. (k d, d)) ds))"
  by (induction ds arbitrary: m) (auto simp: update_conv' fun_eq_iff map_add_def split: option.splits)

lemma implementation_descriptor_for_with:
  "implementation_descriptor_for (with_implementation_descriptors ds c) i =
     hashmap_collect (map (\<lambda>d. (ai_implementation_id d, d)) ds) i"
  by (simp add: implementation_descriptor_for_def with_implementation_descriptors_def
      map_of_foldl_update hashmap_collect_def)

lemma validated_delegation_contract_sound:
  "validated_delegation_contract c a i = Inr (d, m) \<Longrightarrow>
     catalog_contains c a \<and> delegation_descriptor_for c a = Some d \<and>
     implementation_descriptor_for c i = Some m \<and> validate_delegation_contract d m = Inr ()"
  by (auto simp: validated_delegation_contract_def split: if_splits option.splits sum.splits)

text \<open>
  When no two registered implementations serve one action, the lookup by action does not
  depend on the map's iteration order.
\<close>

lemma implementation_for_action_unique:
  assumes "mset (ac_implementation_descriptors c) = mset (ac_implementation_descriptors c')"
    and uniq: "\<And>m m'. m \<in> snd ` set (ac_implementation_descriptors c) \<Longrightarrow>
      m' \<in> snd ` set (ac_implementation_descriptors c) \<Longrightarrow>
      ai_action_id m = a \<Longrightarrow> ai_action_id m' = a \<Longrightarrow> m = m'"
  shows "implementation_descriptor_for_action c a = implementation_descriptor_for_action c' a"
proof -
  let ?A = "snd ` set (ac_implementation_descriptors c)"
  have same: "snd ` set (ac_implementation_descriptors c') = ?A"
    using assms(1) by (metis set_mset_mset)
  have find: "find (\<lambda>d. ai_action_id d = a) xs =
      (if \<exists>m\<in>set xs. ai_action_id m = a then Some (THE m. m \<in> ?A \<and> ai_action_id m = a) else None)"
    if "set xs = ?A" for xs
  proof (cases "find (\<lambda>d. ai_action_id d = a) xs")
    case None
    then show ?thesis by (auto simp: find_None_iff)
  next
    case (Some m)
    then have "m \<in> ?A" "ai_action_id m = a" using that by (auto simp: find_Some_iff)
    moreover from this have "(THE m. m \<in> ?A \<and> ai_action_id m = a) = m"
      using uniq by (intro the_equality) auto
    ultimately show ?thesis using Some that by auto
  qed
  show ?thesis
    unfolding implementation_descriptor_for_action_def
    using find [of "map snd (ac_implementation_descriptors c)"]
      find [of "map snd (ac_implementation_descriptors c')"] same by auto
qed

section \<open>Properties\<close>

text \<open>
  A contract the catalog certifies for reusable delegation is bounded. The action is
  catalogued, the implementation serves it, the policy exists and its bounds are proper, any
  default it proposes lies within them, and for communications and connector writes the full
  minimum scope is required and an allow in a dark window is excluded.
\<close>

theorem certified_contract_bounded:
  assumes "validated_delegation_contract c a i = Inr (d, m)"
  shows "catalog_contains c a \<and> delegation_descriptor_for c a = Some d \<and>
    implementation_descriptor_for c i = Some m \<and> ad_action_id d = ai_action_id m \<and>
    (\<exists>p. ad_delegation_policy d = Some p \<and> policy_ok p \<and>
       (descriptor_is_communication_or_connector_write d \<longrightarrow>
          set communication_minimum \<subseteq> ad_required_scope_dimensions d \<and>
          \<not> is_bounded_allow (dp_dark_window_policy p)))"
  using validated_delegation_contract_sound [OF assms]
  by (auto simp: validate_delegation_contract_iff)

text \<open>
  Registration and lookup of implementations: the map built from a list of descriptors
  returns, for an id, the last descriptor registered under it, and nothing for an id that was
  never registered.
\<close>

theorem implementation_lookup_last:
  "implementation_descriptor_for (with_implementation_descriptors (ds @ [d]) c) i =
     (if ai_implementation_id d = i then Some d
      else implementation_descriptor_for (with_implementation_descriptors ds c) i) \<and>
   implementation_descriptor_for (with_implementation_descriptors [] c) i = None"
  by (simp add: implementation_descriptor_for_with hashmap_collect_def)

definition ex_bounds :: budget_window_bounds where
  "ex_bounds = \<lparr>bb_minimum_max = 1, bb_maximum_max = 5, bb_minimum_window_secs = 60,
     bb_maximum_window_secs = 3600\<rparr>"

definition ex_descriptor :: action_descriptor where
  "ex_descriptor =
     \<lparr>ad_schema_version = 1, ad_descriptor_version = 1, ad_action_id = ActionId ''status.read'',
      ad_semantics = \<lparr>as_owner_verb = ''read'', as_owner_object = ''status'',
        as_owner_target = ''kernel'', as_effect_kind = ReadOnly, as_reversibility = Reversible,
        as_destination = InternalOnly\<rparr>,
      ad_reusable_delegation = True, ad_required_scope_dimensions = {},
      ad_delegation_policy = Some
        \<lparr>dp_schema_version = 1, dp_policy_version = 1, dp_quota = ex_bounds, dp_rate = ex_bounds,
         dp_maximum_lapse_secs = 3600, dp_proposal_mode = ExplicitLimitsRequired,
         dp_defaults = None, dp_dark_window_policy = Prohibited,
         dp_fresh_target_selection_required = False\<rparr>\<rparr>"

definition ex_implementation :: action_implementation_descriptor where
  "ex_implementation =
     \<lparr>ai_schema_version = 1, ai_implementation_version = 1, ai_action_id = ActionId ''status.read'',
      ai_implementation_id = ActionImplementationId ''impl'', ai_connector_kind = ''kernel'',
      ai_executor_id = ''exec'', ai_executor_version = 1, ai_resolver_id = ''res'',
      ai_resolver_version = 1\<rparr>"

definition ex_delegation_catalog :: action_catalog where
  "ex_delegation_catalog = with_implementation_descriptors [ex_implementation]
     (with_delegation_descriptors [ex_descriptor] (catalog_new [ActionId ''status.read'']))"

theorem certified_contract_bounded_witness:
  "catalog_contains ex_delegation_catalog (ActionId ''status.read'')"
proof -
  have "validated_delegation_contract ex_delegation_catalog (ActionId ''status.read'')
      (ActionImplementationId ''impl'') = Inr (ex_descriptor, ex_implementation)"
    by code_simp
  from certified_contract_bounded [OF this] show ?thesis by blast
qed

end
