(* ===== verification/Grant_Chain.thy ===== *)
theory Grant_Chain
  imports Catalog
begin

text \<open>
  Task grants and their authenticated caveat chain
  (\<open>src/crates/openspine-schemas/src/grant.rs\<close> and \<open>grant_chain.rs\<close>).

  A grant carries immutable root authority and a chain of hops; each hop only adds
  caveats. The tip folds HMAC over the root commitment, every caveat and every hop binding
  (\<open>compute_tip\<close>). The \<open>effectively_*\<close> predicates read the root lists through all caveats:
  the locale \<open>allowlist_axis\<close> states their common contract once, and each of them is an
  interpretation of it.
\<close>

section \<open>Grants\<close>

record grant_limits =
  gl_max_model_calls :: u32
  gl_max_artifacts :: u32
  gl_max_runtime_seconds :: u64

datatype grant_mode = Live | Shadow

datatype caveat =
    ActionAllowlist "action_id list"
  | BoundParameter string string
  | ExpiresBefore timestamp
  | ModelTier string
  | OutputChannelAllowlist "string list"
  | EgressClassAllowlist "egress_class list"
  | ProvenanceLabelAllowlist "provenance_origin list"

record chain_step =
  cs_grant_id :: ulid
  cs_parent_grant_id :: "ulid option"
  cs_mode :: grant_mode
  cs_selection_tokens :: "ulid list"
  cs_added_caveats :: "caveat list"

record task_grant =
  tg_id :: ulid
  tg_schema_version :: u32
  tg_lifecycle_state :: lifecycle
  tg_user :: principal_id
  tg_purpose :: string
  tg_issued_by :: string
  tg_issued_at :: timestamp
  tg_expires_at :: timestamp
  tg_event_id :: ulid
  tg_route_id :: artifact_id
  tg_agent_id :: artifact_id
  tg_workflow_id :: artifact_id
  tg_capability_pack_id :: artifact_id
  tg_authority_sources :: "string list"
  tg_selection_tokens :: "ulid list"
  tg_allowed_actions :: "action_id list"
  tg_approval_required_actions :: "action_id list"
  tg_denied_actions :: "action_id list"
  tg_allowed_egress_classes :: "egress_class list"
  tg_output_channels :: "string list"
  tg_limits :: grant_limits
  tg_task_token :: string
  tg_root_grant_id :: ulid
  tg_parent_grant_id :: "ulid option"
  tg_mode :: grant_mode
  tg_chain :: "chain_step list"
  tg_caveat_mac :: string
  tg_thread_id :: "string option"
  tg_persona_id :: "string option"

record root_authority =
  ra_root_grant_id :: ulid
  ra_expires_at :: timestamp
  ra_allowed_actions :: "action_id list"
  ra_approval_required_actions :: "action_id list"
  ra_denied_actions :: "action_id list"
  ra_allowed_egress_classes :: "egress_class list"
  ra_output_channels :: "string list"
  ra_limits :: grant_limits
  ra_user :: principal_id
  ra_purpose :: string
  ra_event_id :: ulid
  ra_route_id :: string
  ra_agent_id :: string
  ra_workflow_id :: string
  ra_capability_pack_id :: string
  ra_thread_id :: "string option"

definition root_of_grant :: "task_grant \<Rightarrow> root_authority" where
  "root_of_grant g =
     \<lparr>ra_root_grant_id = tg_root_grant_id g, ra_expires_at = tg_expires_at g,
      ra_allowed_actions = tg_allowed_actions g,
      ra_approval_required_actions = tg_approval_required_actions g,
      ra_denied_actions = tg_denied_actions g,
      ra_allowed_egress_classes = tg_allowed_egress_classes g,
      ra_output_channels = tg_output_channels g, ra_limits = tg_limits g,
      ra_user = tg_user g, ra_purpose = tg_purpose g, ra_event_id = tg_event_id g,
      ra_route_id = tg_route_id g, ra_agent_id = tg_agent_id g,
      ra_workflow_id = tg_workflow_id g, ra_capability_pack_id = tg_capability_pack_id g,
      ra_thread_id = tg_thread_id g\<rparr>"

section \<open>Canonical payloads\<close>

definition jstrings :: "string list \<Rightarrow> json" where
  "jstrings xs = JArray (map JString xs)"

text \<open>
  \<open>RootAuthority::canonical_bytes\<close>: lists are sorted, the egress key is omitted when the
  list is empty and the thread key when there is no thread.
\<close>

definition root_payload :: "ext \<Rightarrow> root_authority \<Rightarrow> json" where
  "root_payload X r = JObject (
     [(''root_grant_id'', JString (ulid_text X (ra_root_grant_id r))),
      (''expires_at'', JString (ts_text X (ra_expires_at r))),
      (''allowed_actions'', jstrings (sort (map as_str (ra_allowed_actions r)))),
      (''approval_required_actions'', jstrings (sort (map as_str (ra_approval_required_actions r)))),
      (''denied_actions'', jstrings (sort (map as_str (ra_denied_actions r)))),
      (''output_channels'', jstrings (sort (ra_output_channels r))),
      (''limits'', JObject
         [(''max_model_calls'', JNumber (PosInt (ucast (gl_max_model_calls (ra_limits r))))),
          (''max_artifacts'', JNumber (PosInt (ucast (gl_max_artifacts (ra_limits r))))),
          (''max_runtime_seconds'', JNumber (PosInt (gl_max_runtime_seconds (ra_limits r))))]),
      (''user'', JString (ulid_text X (principal_ulid (ra_user r)))),
      (''purpose'', JString (ra_purpose r)),
      (''event_id'', JString (ulid_text X (ra_event_id r))),
      (''route_id'', JString (ra_route_id r)),
      (''agent_id'', JString (ra_agent_id r)),
      (''workflow_id'', JString (ra_workflow_id r)),
      (''capability_pack_id'', JString (ra_capability_pack_id r))]
     @ (let egress = sort (map egress_as_str (ra_allowed_egress_classes r))
        in if egress = [] then [] else [(''allowed_egress_classes'', jstrings egress)])
     @ (case ra_thread_id r of None \<Rightarrow> [] | Some t \<Rightarrow> [(''thread_id'', JString t)]))"

definition origin_json :: "ext \<Rightarrow> provenance_origin \<Rightarrow> json" where
  "origin_json X orig = (case orig of
     OwnerOrigin p \<Rightarrow> JObject
       [(''kind'', JString ''owner''), (''principal'', JString (ulid_text X (principal_ulid p)))]
   | CounterpartyOrigin i \<Rightarrow> JObject
       [(''kind'', JString ''counterparty''), (''identity'', JString (ulid_text X (identity_ulid i)))]
   | SystemOrigin \<Rightarrow> JObject [(''kind'', JString ''system'')])"

fun caveat_payload :: "ext \<Rightarrow> caveat \<Rightarrow> json" where
  "caveat_payload X (ActionAllowlist actions) = JObject
     [(''kind'', JString ''action_allowlist''), (''actions'', jstrings (sort (map as_str actions)))]"
| "caveat_payload X (BoundParameter name val) = JObject
     [(''kind'', JString ''bound_parameter''), (''name'', JString name), (''value'', JString val)]"
| "caveat_payload X (ExpiresBefore t) = JObject
     [(''kind'', JString ''expires_before''), (''at'', JString (ts_text X t))]"
| "caveat_payload X (ModelTier tier) = JObject
     [(''kind'', JString ''model_tier''), (''max_tier'', JString tier)]"
| "caveat_payload X (OutputChannelAllowlist channels) = JObject
     [(''kind'', JString ''output_channel_allowlist''), (''channels'', jstrings (sort channels))]"
| "caveat_payload X (EgressClassAllowlist classes) = JObject
     [(''kind'', JString ''egress_class_allowlist''),
      (''classes'', jstrings (sort (map egress_as_str classes)))]"
| "caveat_payload X (ProvenanceLabelAllowlist origins) = JObject
     [(''kind'', JString ''provenance_label_allowlist''),
      (''origins'', JArray (sort_key (canonical_json X) (map (origin_json X) origins)))]"

definition step_bind_payload :: "ext \<Rightarrow> chain_step \<Rightarrow> json" where
  "step_bind_payload X s = JObject
     [(''grant_id'', JString (ulid_text X (cs_grant_id s))),
      (''parent_grant_id'',
         (case cs_parent_grant_id s of None \<Rightarrow> JNull | Some p \<Rightarrow> JString (ulid_text X p))),
      (''mode'', JString (case cs_mode s of Live \<Rightarrow> ''live'' | Shadow \<Rightarrow> ''shadow'')),
      (''selection_tokens'', jstrings (sort (map (ulid_text X) (cs_selection_tokens s))))]"

section \<open>The authenticated tip\<close>

definition hmac_canonical :: "ext \<Rightarrow> bytes \<Rightarrow> json \<Rightarrow> bytes" where
  "hmac_canonical X key v = hmac X key (str_bytes (canonical_json X v))"

definition step_tip :: "ext \<Rightarrow> bytes \<Rightarrow> chain_step \<Rightarrow> bytes" where
  "step_tip X tip s =
     hmac_canonical X
       (foldl (\<lambda>t c. hmac_canonical X t (caveat_payload X c)) tip (cs_added_caveats s))
       (step_bind_payload X s)"

definition compute_tip :: "ext \<Rightarrow> bytes \<Rightarrow> root_authority \<Rightarrow> chain_step list \<Rightarrow> bytes option" where
  "compute_tip X key r chain =
     (if chain = [] then None
      else Some (foldl (step_tip X) (hmac_canonical X key (root_payload X r)) chain))"

definition compute_mac_hex :: "ext \<Rightarrow> bytes \<Rightarrow> root_authority \<Rightarrow> chain_step list \<Rightarrow> string" where
  "compute_mac_hex X key r chain =
     (case compute_tip X key r chain of Some tip \<Rightarrow> hex_encode tip | None \<Rightarrow> [])"

text \<open>
  The loop of \<open>chain_structurally_valid\<close>: every hop names its predecessor, its tokens are a
  subset of the previous hop's, and no live hop follows a shadow one.
\<close>

fun chain_hops_valid :: "chain_step option \<Rightarrow> ulid set \<Rightarrow> bool \<Rightarrow> chain_step list \<Rightarrow> bool" where
  "chain_hops_valid prev tokens shadow_seen [] = True"
| "chain_hops_valid prev tokens shadow_seen (s # ss) =
     (case prev of
        Some p \<Rightarrow>
          if cs_parent_grant_id s \<noteq> Some (cs_grant_id p) then False
          else if \<not> set (cs_selection_tokens s) \<subseteq> tokens then False
          else if shadow_seen \<and> cs_mode s = Live then False
          else chain_hops_valid (Some s) (set (cs_selection_tokens s))
                 (shadow_seen \<or> cs_mode s = Shadow) ss
      | None \<Rightarrow>
          if shadow_seen \<and> cs_mode s = Live then False
          else chain_hops_valid (Some s) (tokens \<union> set (cs_selection_tokens s))
                 (shadow_seen \<or> cs_mode s = Shadow) ss)"

definition chain_structurally_valid :: "task_grant \<Rightarrow> bool" where
  "chain_structurally_valid g =
     (if tg_root_grant_id g = nil_ulid then False
      else (case tg_chain g of
          [] \<Rightarrow> False
        | first # _ \<Rightarrow>
            if cs_grant_id first \<noteq> tg_root_grant_id g \<or> cs_parent_grant_id first \<noteq> None then False
            else if \<not> chain_hops_valid None {} False (tg_chain g) then False
            else (let l = last (tg_chain g) in
              if cs_grant_id l \<noteq> tg_id g \<or> cs_parent_grant_id l \<noteq> tg_parent_grant_id g \<or>
                 cs_mode l \<noteq> tg_mode g then False
              else sort (cs_selection_tokens l) = sort (tg_selection_tokens g))))"

definition verify_mac :: "ext \<Rightarrow> bytes \<Rightarrow> task_grant \<Rightarrow> bool" where
  "verify_mac X key g =
     (if tg_caveat_mac g = [] \<or> \<not> chain_structurally_valid g then False
      else ct_eq_hex (compute_mac_hex X key (root_of_grant g) (tg_chain g)) (tg_caveat_mac g))"

definition seal_root :: "ext \<Rightarrow> bytes \<Rightarrow> task_grant \<Rightarrow> task_grant" where
  "seal_root X key g =
     (let g1 = (if tg_root_grant_id g = nil_ulid then g\<lparr>tg_root_grant_id := tg_id g\<rparr> else g);
          g2 = g1\<lparr>tg_parent_grant_id := None,
                  tg_chain := [\<lparr>cs_grant_id = tg_id g1, cs_parent_grant_id = None,
                                cs_mode = tg_mode g1, cs_selection_tokens = tg_selection_tokens g1,
                                cs_added_caveats = []\<rparr>]\<rparr>
      in g2\<lparr>tg_caveat_mac := compute_mac_hex X key (root_of_grant g2) (tg_chain g2)\<rparr>)"

definition seal_child_from_parent_tip :: "ext \<Rightarrow> string \<Rightarrow> chain_step \<Rightarrow> panic + string option" where
  "seal_child_from_parent_tip X parent_tip_hex s =
     (case hex_decode_32 parent_tip_hex of
        Inl p \<Rightarrow> Inl p
      | Inr None \<Rightarrow> Inr None
      | Inr (Some tip) \<Rightarrow> Inr (Some (hex_encode (step_tip X tip s))))"

section \<open>Reading authority through the caveats\<close>

definition flattened_caveats :: "chain_step list \<Rightarrow> caveat list" where
  "flattened_caveats chain = concat (map cs_added_caveats chain)"

fun bindings_loop :: "(string \<rightharpoonup> string) \<Rightarrow> caveat list \<Rightarrow> bool" where
  "bindings_loop m [] = True"
| "bindings_loop m (c # cs) =
     (case c of
        BoundParameter name val \<Rightarrow>
          (case m name of
             Some previous \<Rightarrow> if previous \<noteq> val then False else bindings_loop (m(name \<mapsto> val)) cs
           | None \<Rightarrow> bindings_loop (m(name \<mapsto> val)) cs)
      | _ \<Rightarrow> bindings_loop m cs)"

definition bindings_valid :: "task_grant \<Rightarrow> bool" where
  "bindings_valid g = bindings_loop Map.empty (flattened_caveats (tg_chain g))"

datatype supported_caveat_kind =
  OutputChannelAllowlist_kind | EgressClassAllowlist_kind | ProvenanceLabelAllowlist_kind

definition has_unsupported_caveats_except ::
  "task_grant \<Rightarrow> supported_caveat_kind list \<Rightarrow> bool" where
  "has_unsupported_caveats_except g supported =
     list_ex (\<lambda>c. case c of
         ActionAllowlist _ \<Rightarrow> False
       | BoundParameter _ _ \<Rightarrow> False
       | ExpiresBefore _ \<Rightarrow> False
       | ModelTier _ \<Rightarrow> True
       | OutputChannelAllowlist _ \<Rightarrow> OutputChannelAllowlist_kind \<notin> set supported
       | EgressClassAllowlist _ \<Rightarrow> EgressClassAllowlist_kind \<notin> set supported
       | ProvenanceLabelAllowlist _ \<Rightarrow> ProvenanceLabelAllowlist_kind \<notin> set supported)
       (flattened_caveats (tg_chain g))"

definition has_unsupported_caveats :: "task_grant \<Rightarrow> bool" where
  "has_unsupported_caveats g = has_unsupported_caveats_except g []"

definition effectively_allows_egress_class :: "task_grant \<Rightarrow> egress_class \<Rightarrow> bool" where
  "effectively_allows_egress_class g class =
     (if class \<notin> set (tg_allowed_egress_classes g) then False
      else list_all (\<lambda>c. case c of EgressClassAllowlist classes \<Rightarrow> class \<in> set classes | _ \<Rightarrow> True)
             (flattened_caveats (tg_chain g)))"

definition effectively_allows_provenance_label :: "task_grant \<Rightarrow> provenance_origin \<Rightarrow> bool" where
  "effectively_allows_provenance_label g orig =
     list_all (\<lambda>c. case c of ProvenanceLabelAllowlist origins \<Rightarrow> orig \<in> set origins | _ \<Rightarrow> True)
       (flattened_caveats (tg_chain g))"

definition effectively_allows_output_channel :: "task_grant \<Rightarrow> string \<Rightarrow> bool" where
  "effectively_allows_output_channel g channel =
     (if \<not> list_ex (\<lambda>c. c = channel) (tg_output_channels g) then False
      else list_all (\<lambda>c. case c of
               OutputChannelAllowlist channels \<Rightarrow> list_ex (\<lambda>c. c = channel) channels | _ \<Rightarrow> True)
             (flattened_caveats (tg_chain g)))"

definition effectively_allows :: "task_grant \<Rightarrow> action_id \<Rightarrow> bool" where
  "effectively_allows g a =
     (if a \<notin> set (tg_allowed_actions g) then False
      else list_all (\<lambda>c. case c of ActionAllowlist actions \<Rightarrow> a \<in> set actions | _ \<Rightarrow> True)
             (flattened_caveats (tg_chain g)))"

definition effectively_approval_required :: "task_grant \<Rightarrow> action_id \<Rightarrow> bool" where
  "effectively_approval_required g a \<longleftrightarrow>
     a \<in> set (tg_approval_required_actions g) \<and>
     list_all (\<lambda>c. \<not> (case c of ActionAllowlist actions \<Rightarrow> a \<notin> set actions | _ \<Rightarrow> False))
       (flattened_caveats (tg_chain g))"

definition is_expired :: "task_grant \<Rightarrow> timestamp \<Rightarrow> bool" where
  "is_expired g now =
     (if tg_expires_at g \<le> now then True
      else list_ex (\<lambda>c. case c of ExpiresBefore t \<Rightarrow> t \<le> now | _ \<Rightarrow> False)
             (flattened_caveats (tg_chain g)))"

section \<open>Laws of the chain\<close>

lemma flattened_caveats_append [simp]:
  "flattened_caveats (xs @ ys) = flattened_caveats xs @ flattened_caveats ys"
  by (simp add: flattened_caveats_def)

lemma flattened_caveats_single [simp]: "flattened_caveats [s] = cs_added_caveats s"
  by (simp add: flattened_caveats_def)

text \<open>
  The contract the \<open>effectively_*\<close> predicates share: membership in a root list, filtered by
  every caveat that names a list of the same kind.
\<close>

locale allowlist_axis =
  fixes root_has :: "task_grant \<Rightarrow> 'x \<Rightarrow> bool"
    and names :: "caveat \<Rightarrow> 'x list option"
    and effective :: "task_grant \<Rightarrow> 'x \<Rightarrow> bool"
  assumes effective_iff:
    "effective g x \<longleftrightarrow> root_has g x \<and>
       (\<forall>c\<in>set (flattened_caveats (tg_chain g)). \<forall>xs. names c = Some xs \<longrightarrow> x \<in> set xs)"
begin

lemma effective_root: "effective g x \<Longrightarrow> root_has g x"
  by (simp add: effective_iff)

lemma effective_snoc:
  assumes "tg_chain g' = tg_chain g @ [s]" "root_has g' x \<longleftrightarrow> root_has g x"
  shows "effective g' x \<longleftrightarrow> effective g x \<and>
    (\<forall>c\<in>set (cs_added_caveats s). \<forall>xs. names c = Some xs \<longrightarrow> x \<in> set xs)"
  using assms by (auto simp: effective_iff)

lemma effective_narrows:
  assumes "tg_chain g' = tg_chain g @ ss" "root_has g' x \<Longrightarrow> root_has g x" "effective g' x"
  shows "effective g x"
  using assms by (auto simp: effective_iff)

lemma effective_closed:
  assumes "c \<in> set (flattened_caveats (tg_chain g))" "names c = Some []"
  shows "\<not> effective g x"
  using assms by (force simp: effective_iff)

end

fun action_names :: "caveat \<Rightarrow> action_id list option" where
  "action_names (ActionAllowlist xs) = Some xs"
| "action_names _ = None"

fun channel_names :: "caveat \<Rightarrow> string list option" where
  "channel_names (OutputChannelAllowlist xs) = Some xs"
| "channel_names _ = None"

fun egress_names :: "caveat \<Rightarrow> egress_class list option" where
  "egress_names (EgressClassAllowlist xs) = Some xs"
| "egress_names _ = None"

fun origin_names :: "caveat \<Rightarrow> provenance_origin list option" where
  "origin_names (ProvenanceLabelAllowlist xs) = Some xs"
| "origin_names _ = None"

lemma case_names:
  "(case c of ActionAllowlist xs \<Rightarrow> a \<in> set xs | _ \<Rightarrow> True) \<longleftrightarrow>
     (\<forall>xs. action_names c = Some xs \<longrightarrow> a \<in> set xs)"
  "(case c of ActionAllowlist xs \<Rightarrow> a \<notin> set xs | _ \<Rightarrow> False) \<longleftrightarrow>
     \<not> (\<forall>xs. action_names c = Some xs \<longrightarrow> a \<in> set xs)"
  "(case c of OutputChannelAllowlist xs \<Rightarrow> list_ex (\<lambda>c. c = ch) xs | _ \<Rightarrow> True) \<longleftrightarrow>
     (\<forall>xs. channel_names c = Some xs \<longrightarrow> ch \<in> set xs)"
  "(case c of EgressClassAllowlist xs \<Rightarrow> cl \<in> set xs | _ \<Rightarrow> True) \<longleftrightarrow>
     (\<forall>xs. egress_names c = Some xs \<longrightarrow> cl \<in> set xs)"
  "(case c of ProvenanceLabelAllowlist xs \<Rightarrow> orig \<in> set xs | _ \<Rightarrow> True) \<longleftrightarrow>
     (\<forall>xs. origin_names c = Some xs \<longrightarrow> orig \<in> set xs)"
  by (cases c; auto simp: list_ex_iff)+

interpretation action_axis:
  allowlist_axis "\<lambda>g a. a \<in> set (tg_allowed_actions g)" action_names effectively_allows
  by unfold_locales (simp add: effectively_allows_def list_all_iff case_names)

interpretation approval_axis:
  allowlist_axis "\<lambda>g a. a \<in> set (tg_approval_required_actions g)" action_names
    effectively_approval_required
  by unfold_locales (simp add: effectively_approval_required_def list_all_iff case_names)

interpretation channel_axis:
  allowlist_axis "\<lambda>g ch. ch \<in> set (tg_output_channels g)" channel_names
    effectively_allows_output_channel
  by unfold_locales
    (simp add: effectively_allows_output_channel_def list_all_iff case_names, simp add: list_ex_iff)

interpretation egress_axis:
  allowlist_axis "\<lambda>g cl. cl \<in> set (tg_allowed_egress_classes g)" egress_names
    effectively_allows_egress_class
  by unfold_locales (simp add: effectively_allows_egress_class_def list_all_iff case_names)

interpretation origin_axis:
  allowlist_axis "\<lambda>g orig. True" origin_names effectively_allows_provenance_label
  by unfold_locales (simp add: effectively_allows_provenance_label_def list_all_iff case_names)

lemma is_expired_iff:
  "is_expired g now \<longleftrightarrow> tg_expires_at g \<le> now \<or>
     (\<exists>t. ExpiresBefore t \<in> set (flattened_caveats (tg_chain g)) \<and> t \<le> now)"
  by (auto simp: is_expired_def list_ex_iff split: caveat.splits)

text \<open>The conflict check accepts exactly the chains in which every name has one value.\<close>

definition bound_pairs :: "caveat list \<Rightarrow> (string \<times> string) set" where
  "bound_pairs cs = {(n, v). BoundParameter n v \<in> set cs}"

lemma bound_pairs_Cons [simp]:
  "bound_pairs (BoundParameter n v # cs) = insert (n, v) (bound_pairs cs)"
  "(\<And>n v. c \<noteq> BoundParameter n v) \<Longrightarrow> bound_pairs (c # cs) = bound_pairs cs"
  by (auto simp: bound_pairs_def)

lemma single_valued_insert:
  "single_valued (insert (n, u) R) \<longleftrightarrow> single_valued R \<and> (\<forall>v. (n, v) \<in> R \<longrightarrow> v = u)"
  unfolding single_valued_def by blast

lemma bindings_loop_iff:
  "bindings_loop m cs \<longleftrightarrow>
     single_valued (bound_pairs cs) \<and> (\<forall>(n, v)\<in>bound_pairs cs. m n = None \<or> m n = Some v)"
proof (induction cs arbitrary: m)
  case Nil
  then show ?case by (simp add: bound_pairs_def single_valued_def)
next
  case (Cons c cs)
  show ?case
  proof (cases c)
    case (BoundParameter n u)
    have "bindings_loop m (BoundParameter n u # cs) \<longleftrightarrow>
        (m n = None \<or> m n = Some u) \<and> bindings_loop (m(n \<mapsto> u)) cs"
      by (cases "m n") auto
    then show ?thesis
      by (auto simp: BoundParameter Cons.IH single_valued_insert split: if_splits)
  qed (simp_all add: Cons.IH)
qed

lemma bindings_valid_iff:
  "bindings_valid g \<longleftrightarrow> single_valued (bound_pairs (flattened_caveats (tg_chain g)))"
  by (auto simp: bindings_valid_def bindings_loop_iff)

subsection \<open>Structure\<close>

definition hop_ok :: "chain_step \<Rightarrow> ulid set \<Rightarrow> bool \<Rightarrow> chain_step \<Rightarrow> bool" where
  "hop_ok p tokens shadow_seen s \<longleftrightarrow>
     cs_parent_grant_id s = Some (cs_grant_id p) \<and> set (cs_selection_tokens s) \<subseteq> tokens \<and>
     \<not> (shadow_seen \<and> cs_mode s = Live)"

lemma chain_hops_valid_Some [simp]:
  "chain_hops_valid (Some p) tokens sh (s # ss) \<longleftrightarrow>
     hop_ok p tokens sh s \<and>
     chain_hops_valid (Some s) (set (cs_selection_tokens s)) (sh \<or> cs_mode s = Shadow) ss"
  by (auto simp: hop_ok_def)

lemma chain_hops_valid_None:
  "chain_hops_valid None {} False (s # ss) \<longleftrightarrow>
     chain_hops_valid (Some s) (set (cs_selection_tokens s)) (cs_mode s = Shadow) ss"
  by simp

declare chain_hops_valid.simps(2) [simp del]

lemma chain_hops_valid_snoc:
  "chain_hops_valid (Some p) tokens sh (xs @ [s]) \<longleftrightarrow>
     chain_hops_valid (Some p) tokens sh xs \<and>
     hop_ok (last (p # xs)) (if xs = [] then tokens else set (cs_selection_tokens (last xs)))
       (sh \<or> (\<exists>x\<in>set xs. cs_mode x = Shadow)) s"
  by (induction xs arbitrary: p tokens sh) auto

lemma chain_hops_valid_shadow:
  "chain_hops_valid (Some p) tokens sh xs \<Longrightarrow> sh \<longrightarrow> cs_mode p = Shadow \<Longrightarrow>
     sh \<or> (\<exists>x\<in>set xs. cs_mode x = Shadow) \<Longrightarrow> cs_mode (last (p # xs)) = Shadow"
proof (induction xs arbitrary: p tokens sh)
  case (Cons x xs)
  have ok: "hop_ok p tokens sh x"
    and rest: "chain_hops_valid (Some x) (set (cs_selection_tokens x)) (sh \<or> cs_mode x = Shadow) xs"
    using Cons.prems(1) by auto
  have "sh \<or> cs_mode x = Shadow \<longrightarrow> cs_mode x = Shadow"
    using ok by (cases "cs_mode x") (auto simp: hop_ok_def)
  moreover have "(sh \<or> cs_mode x = Shadow) \<or> (\<exists>y\<in>set xs. cs_mode y = Shadow)"
    using Cons.prems(3) by auto
  ultimately have "cs_mode (last (x # xs)) = Shadow" using Cons.IH [OF rest] by blast
  then show ?case by simp
qed auto

lemma chain_hops_valid_tokens:
  "chain_hops_valid (Some p) tokens sh xs \<Longrightarrow> set (cs_selection_tokens p) \<subseteq> tokens \<Longrightarrow>
     set (cs_selection_tokens (last (p # xs))) \<subseteq> tokens"
proof (induction xs arbitrary: p tokens sh)
  case (Cons x xs)
  then have "set (cs_selection_tokens x) \<subseteq> tokens"
    and "chain_hops_valid (Some x) (set (cs_selection_tokens x)) (sh \<or> cs_mode x = Shadow) xs"
    by (auto simp: hop_ok_def)
  then have "set (cs_selection_tokens (last (x # xs))) \<subseteq> tokens"
    using Cons.IH [OF \<open>chain_hops_valid (Some x) _ _ xs\<close>] by auto
  then show ?case by simp
qed auto

lemma chain_structurally_valid_iff:
  "chain_structurally_valid g \<longleftrightarrow>
     tg_root_grant_id g \<noteq> nil_ulid \<and>
     (\<exists>first rest. tg_chain g = first # rest \<and>
        cs_grant_id first = tg_root_grant_id g \<and> cs_parent_grant_id first = None \<and>
        chain_hops_valid (Some first) (set (cs_selection_tokens first)) (cs_mode first = Shadow) rest) \<and>
     cs_grant_id (last (tg_chain g)) = tg_id g \<and>
     cs_parent_grant_id (last (tg_chain g)) = tg_parent_grant_id g \<and>
     cs_mode (last (tg_chain g)) = tg_mode g \<and>
     mset (cs_selection_tokens (last (tg_chain g))) = mset (tg_selection_tokens g)"
proof -
  have sort_eq: "sort a = sort b \<longleftrightarrow> mset a = mset b" for a b :: "ulid list"
    by (rule iffI, metis mset_sort, rule properties_for_sort [symmetric]) simp_all
  show ?thesis
    by (cases "tg_chain g")
      (auto simp: chain_structurally_valid_def Let_def sort_eq chain_hops_valid_None)
qed

text \<open>
  In a structurally valid grant no hop has gained a token, and one shadow hop makes the
  whole grant a shadow grant.
\<close>

lemma structural_tokens:
  assumes "chain_structurally_valid g"
  shows "set (tg_selection_tokens g) \<subseteq> set (cs_selection_tokens (hd (tg_chain g)))"
  using assms chain_hops_valid_tokens
  by (fastforce simp: chain_structurally_valid_iff dest: mset_eq_setD)

lemma structural_shadow:
  assumes "chain_structurally_valid g"
  shows "tg_mode g = Shadow \<longleftrightarrow> (\<exists>s\<in>set (tg_chain g). cs_mode s = Shadow)"
proof -
  obtain first rest where c: "tg_chain g = first # rest"
    and v: "chain_hops_valid (Some first) (set (cs_selection_tokens first))
      (cs_mode first = Shadow) rest"
    and m: "cs_mode (last (tg_chain g)) = tg_mode g"
    using assms by (auto simp: chain_structurally_valid_iff)
  show ?thesis
  proof
    assume "tg_mode g = Shadow"
    then show "\<exists>s\<in>set (tg_chain g). cs_mode s = Shadow"
      using m c by (metis last_in_set list.discI)
  next
    assume "\<exists>s\<in>set (tg_chain g). cs_mode s = Shadow"
    then show "tg_mode g = Shadow"
      using chain_hops_valid_shadow [OF v] c m by auto
  qed
qed

text \<open>Appending a hop that inherits mode and id keeps the structure valid.\<close>

lemma structural_snoc:
  assumes g: "chain_structurally_valid g"
    and s: "cs_parent_grant_id s = Some (tg_id g)" "cs_mode s = tg_mode g"
      "set (cs_selection_tokens s) \<subseteq> set (tg_selection_tokens g)"
    and g': "tg_root_grant_id g' = tg_root_grant_id g" "tg_chain g' = tg_chain g @ [s]"
      "tg_id g' = cs_grant_id s" "tg_parent_grant_id g' = Some (tg_id g)" "tg_mode g' = tg_mode g"
      "mset (tg_selection_tokens g') = mset (cs_selection_tokens s)"
  shows "chain_structurally_valid g'"
proof -
  obtain first rest where c: "tg_chain g = first # rest"
    and f: "cs_grant_id first = tg_root_grant_id g" "cs_parent_grant_id first = None"
    and v: "chain_hops_valid (Some first) (set (cs_selection_tokens first))
      (cs_mode first = Shadow) rest"
    and l: "cs_grant_id (last (tg_chain g)) = tg_id g" "cs_mode (last (tg_chain g)) = tg_mode g"
      "mset (cs_selection_tokens (last (tg_chain g))) = mset (tg_selection_tokens g)"
    using g by (auto simp: chain_structurally_valid_iff)
  let ?seen = "cs_mode first = Shadow \<or> (\<exists>x\<in>set rest. cs_mode x = Shadow)"
  have "\<not> (?seen \<and> cs_mode s = Live)"
    using chain_hops_valid_shadow [OF v] l c s by (metis grant_mode.distinct(1))
  moreover have "set (cs_selection_tokens s) \<subseteq>
      (if rest = [] then set (cs_selection_tokens first) else set (cs_selection_tokens (last rest)))"
    using s(3) mset_eq_setD [OF l(3)] c by auto
  ultimately have "hop_ok (last (first # rest))
      (if rest = [] then set (cs_selection_tokens first) else set (cs_selection_tokens (last rest)))
      ?seen s"
    using l c s unfolding hop_ok_def by (metis last_ConsR last_ConsL)
  with v have "chain_hops_valid (Some first) (set (cs_selection_tokens first))
      (cs_mode first = Shadow) (rest @ [s])"
    by (simp add: chain_hops_valid_snoc)
  with g f c g' s show ?thesis by (auto simp: chain_structurally_valid_iff)
qed

section \<open>Example instances\<close>

text \<open>A root grant for evaluating the properties on.\<close>

definition ex_read :: action_id where
  "ex_read = ActionId ''openspine.status.read''"

definition ex_enable :: action_id where
  "ex_enable = ActionId ''connector.enable''"

definition ex_send :: action_id where
  "ex_send = ActionId ''email.send''"

definition ex_unsealed :: task_grant where
  "ex_unsealed =
     \<lparr>tg_id = 7, tg_schema_version = 1, tg_lifecycle_state = Active, tg_user = PrincipalId 3,
      tg_purpose = ''p'', tg_issued_by = ''kernel'', tg_issued_at = 0, tg_expires_at = 600,
      tg_event_id = 5, tg_route_id = ''r'', tg_agent_id = ''a'', tg_workflow_id = ''w'',
      tg_capability_pack_id = ''c'', tg_authority_sources = [], tg_selection_tokens = [],
      tg_allowed_actions = [ex_read], tg_approval_required_actions = [ex_enable],
      tg_denied_actions = [ex_send], tg_allowed_egress_classes = [],
      tg_output_channels = [''telegram:owner''],
      tg_limits = \<lparr>gl_max_model_calls = 8, gl_max_artifacts = 20, gl_max_runtime_seconds = 120\<rparr>,
      tg_task_token = ''t'', tg_root_grant_id = 0, tg_parent_grant_id = None, tg_mode = Live,
      tg_chain = [], tg_caveat_mac = [], tg_thread_id = None, tg_persona_id = None\<rparr>"

definition ex_grant :: task_grant where
  "ex_grant = seal_root ex_ext [] ex_unsealed"

section \<open>Properties of the chain\<close>

lemma chain_hops_valid_nth:
  "chain_hops_valid (Some p) (set (cs_selection_tokens p)) (cs_mode p = Shadow) ss \<longleftrightarrow>
     (\<forall>n < length ss.
        cs_parent_grant_id (ss ! n) = Some (cs_grant_id ((p # ss) ! n)) \<and>
        set (cs_selection_tokens (ss ! n)) \<subseteq> set (cs_selection_tokens ((p # ss) ! n)) \<and>
        (cs_mode ((p # ss) ! n) = Shadow \<longrightarrow> cs_mode (ss ! n) = Shadow))"
proof (induction ss arbitrary: p)
  case (Cons s ss)
  have mode: "(cs_mode p = Shadow \<longrightarrow> cs_mode s = Shadow) \<longleftrightarrow> \<not> (cs_mode p = Shadow \<and> cs_mode s = Live)"
    by (cases "cs_mode s") auto
  then have seen: "(cs_mode p = Shadow \<longrightarrow> cs_mode s = Shadow) \<Longrightarrow>
      (cs_mode p = Shadow \<or> cs_mode s = Shadow) = (cs_mode s = Shadow)" by auto
  have "chain_hops_valid (Some p) (set (cs_selection_tokens p)) (cs_mode p = Shadow) (s # ss) \<longleftrightarrow>
      hop_ok p (set (cs_selection_tokens p)) (cs_mode p = Shadow) s \<and>
      chain_hops_valid (Some s) (set (cs_selection_tokens s)) (cs_mode s = Shadow) ss"
    using seen by (auto simp: hop_ok_def mode)
  then show ?case
    unfolding Cons.IH All_less_Suc2 length_Cons by (simp add: hop_ok_def mode)
qed simp

text \<open>
  The structural check accepts exactly the chains that are what they claim: the first hop
  is the root and has no parent, every later hop names its predecessor, keeps only
  predecessor's tokens and stays shadow once shadow, and the last hop is the grant itself.
\<close>

theorem chain_structure_spec:
  "chain_structurally_valid g \<longleftrightarrow>
     tg_root_grant_id g \<noteq> nil_ulid \<and> tg_chain g \<noteq> [] \<and>
     cs_grant_id (hd (tg_chain g)) = tg_root_grant_id g \<and>
     cs_parent_grant_id (hd (tg_chain g)) = None \<and>
     (\<forall>n. Suc n < length (tg_chain g) \<longrightarrow>
        cs_parent_grant_id (tg_chain g ! Suc n) = Some (cs_grant_id (tg_chain g ! n)) \<and>
        set (cs_selection_tokens (tg_chain g ! Suc n)) \<subseteq> set (cs_selection_tokens (tg_chain g ! n)) \<and>
        (cs_mode (tg_chain g ! n) = Shadow \<longrightarrow> cs_mode (tg_chain g ! Suc n) = Shadow)) \<and>
     cs_grant_id (last (tg_chain g)) = tg_id g \<and>
     cs_parent_grant_id (last (tg_chain g)) = tg_parent_grant_id g \<and>
     cs_mode (last (tg_chain g)) = tg_mode g \<and>
     mset (cs_selection_tokens (last (tg_chain g))) = mset (tg_selection_tokens g)"
proof (cases "tg_chain g")
  case Nil
  then show ?thesis by (simp add: chain_structurally_valid_iff)
next
  case (Cons p ss)
  then show ?thesis
    by (simp add: chain_structurally_valid_iff chain_hops_valid_nth conj_assoc)
qed

theorem chain_structure_spec_witness:
  "chain_structurally_valid ex_grant \<and> tg_root_grant_id ex_grant \<noteq> nil_ulid"
proof
  show "chain_structurally_valid ex_grant" by code_simp
  then show "tg_root_grant_id ex_grant \<noteq> nil_ulid" unfolding chain_structure_spec by blast
qed

text \<open>
  The conflict check on bound parameters accepts exactly the grants whose chain binds
  every parameter name to at most one value, wherever the bindings stand.
\<close>

theorem bindings_valid_single:
  "bindings_valid g \<longleftrightarrow>
     (\<forall>s\<in>set (tg_chain g). \<forall>s'\<in>set (tg_chain g). \<forall>n v v'.
        BoundParameter n v \<in> set (cs_added_caveats s) \<longrightarrow>
        BoundParameter n v' \<in> set (cs_added_caveats s') \<longrightarrow> v = v')"
  unfolding bindings_valid_iff single_valued_def bound_pairs_def flattened_caveats_def
  by (simp add: set_concat) blast

theorem bindings_valid_single_witness: "bindings_valid ex_grant"
  unfolding bindings_valid_single by (simp add: ex_grant_def seal_root_def Let_def)

end
