(* ===== verification/Gate.thy ===== *)
theory Gate
  imports Grant_Chain
begin

text \<open>
  The mediation point every effectful action passes through
  (\<open>src/crates/openspine-gate/src/gate.rs\<close>; the request, reason and decision types are those
  of \<open>openspine-schemas/src/action.rs\<close>).

  The trait \<open>GateContext\<close> is the record \<open>gate_context\<close> of its three lookups. The egress
  classifier argument of the code is never read by it and is left out.
  \<open>permits\<close> is the declarative reading of an allowing decision, and
  \<open>resolve_Allow_iff\<close> says the gate implements it.
\<close>

section \<open>Requests, decisions and the lookups\<close>

datatype denial_reason =
    NotGranted | ExplicitDeny | GrantExpired | ApprovalMissing | ApprovalDigestMismatch
  | ApprovalExpired | SelectionTokenInvalid | KernelOriginNotTrusted | ChannelBindingViolation
  | LimitExceeded | UnknownAction | CaveatWidening | EgressClassNotGranted
  | OutputChannelNotGranted

datatype gate_decision =
    Allow | Deny denial_reason | ApprovalRequired string | EffectSuppressed

datatype skill_attribution_kind = Causal | Contextual "string list" u64

record skill_attribution =
  sk_id :: string
  sk_version :: u32
  sk_kind :: skill_attribution_kind

record action_request =
  rq_id :: ulid
  rq_task_grant_id :: ulid
  rq_action :: action_id
  rq_target_ref :: "target_ref option"
  rq_payload_ref :: "artifact_ref option"
  rq_target_digest :: "digest option"
  rq_selection_token_id :: "ulid option"
  rq_params :: "string \<rightharpoonup> string"
  rq_skill_attribution :: "skill_attribution option"
  rq_requested_at :: timestamp
  rq_schema_version :: u32

record gate_context =
  approval_for_request :: "ulid \<rightharpoonup> approval_record"
  find_selection_token :: "ulid \<rightharpoonup> selection_token"
  grant_hmac_key :: "bytes option"

datatype action_origin = Kernel | Shell

record audit_meta =
  am_action :: action_id
  am_task_grant_id :: ulid
  am_origin :: action_origin
  am_target_ref :: "target_ref option"
  am_target_digest :: "digest option"
  am_payload_refs :: "artifact_ref list"

record gate_outcome =
  go_decision :: gate_decision
  go_audit :: audit_meta

section \<open>The decision\<close>

definition chain_valid :: "ext \<Rightarrow> task_grant \<Rightarrow> gate_context \<Rightarrow> bool" where
  "chain_valid X g ctx =
     (if tg_caveat_mac g = [] then False
      else (case grant_hmac_key ctx of
          None \<Rightarrow> False
        | Some key \<Rightarrow>
            verify_mac X key g \<and> chain_structurally_valid g \<and>
            \<not> has_unsupported_caveats_except g
                [OutputChannelAllowlist_kind, EgressClassAllowlist_kind,
                 ProvenanceLabelAllowlist_kind]))"

definition validate_selection_token ::
  "task_grant \<Rightarrow> action_request \<Rightarrow> selection_token_type \<Rightarrow> gate_context \<Rightarrow> timestamp \<Rightarrow>
     denial_reason option" where
  "validate_selection_token g req expected_type ctx now =
     (case rq_selection_token_id req of
        None \<Rightarrow> Some SelectionTokenInvalid
      | Some token_id \<Rightarrow>
          if token_id \<notin> set (tg_selection_tokens g) then Some SelectionTokenInvalid
          else (case find_selection_token ctx token_id of
              None \<Rightarrow> Some SelectionTokenInvalid
            | Some token \<Rightarrow>
                if st_token_type token \<noteq> expected_type then Some SelectionTokenInvalid
                else if st_expires_at token \<le> now then Some SelectionTokenInvalid
                else if st_user token \<noteq> tg_user g then Some SelectionTokenInvalid
                else None))"

definition resolve_approval_required ::
  "action_request \<Rightarrow> gate_context \<Rightarrow> timestamp \<Rightarrow> gate_decision" where
  "resolve_approval_required req ctx now =
     (case approval_for_request ctx (rq_id req) of
        None \<Rightarrow> ApprovalRequired (as_str (rq_action req))
      | Some approval \<Rightarrow>
          (let currently_matches =
             (case (map_option ar_digest (rq_payload_ref req), rq_target_digest req) of
                (Some pd, Some td) \<Rightarrow> approval_matches approval pd td now
              | _ \<Rightarrow> False)
           in if currently_matches then Allow
              else Deny
                (if ap_expires_at approval \<le> now then ApprovalExpired
                 else if ap_decision approval \<noteq> Approved_decision then ApprovalMissing
                 else ApprovalDigestMismatch)))"

text \<open>The egress block: the reason it returns early with, if any.\<close>

definition egress_denial :: "task_grant \<Rightarrow> action_request \<Rightarrow> action_catalog \<Rightarrow> denial_reason option" where
  "egress_denial g req catalog =
     (case egress_decl_for catalog (rq_action req) of
        Some decl \<Rightarrow>
          if (case ed_egress_class decl of
                Some class \<Rightarrow> \<not> effectively_allows_egress_class g class
              | None \<Rightarrow> False)
          then Some EgressClassNotGranted
          else if (case ed_output_channels decl of
                Some channels \<Rightarrow>
                  channels = [] \<or>
                  list_ex (\<lambda>channel. \<not> effectively_allows_output_channel g channel) channels
              | None \<Rightarrow> False)
          then Some OutputChannelNotGranted
          else None
      | None \<Rightarrow>
          if catalog_contains catalog (rq_action req) then Some CaveatWidening else None)"

text \<open>The loop over bound parameters: \<open>False\<close> where the code returns a denial.\<close>

fun bound_parameters_met :: "(string \<rightharpoonup> string) \<Rightarrow> caveat list \<Rightarrow> bool" where
  "bound_parameters_met params [] = True"
| "bound_parameters_met params (c # cs) =
     (case c of
        BoundParameter name val \<Rightarrow>
          (case params name of
             Some actual \<Rightarrow> if actual = val then bound_parameters_met params cs else False
           | None \<Rightarrow> False)
      | _ \<Rightarrow> bound_parameters_met params cs)"

definition resolve ::
  "ext \<Rightarrow> task_grant \<Rightarrow> action_request \<Rightarrow> action_origin \<Rightarrow> gate_context \<Rightarrow> action_catalog \<Rightarrow>
     timestamp \<Rightarrow> gate_decision" where
  "resolve X g req orig ctx catalog now =
     (if \<not> chain_valid X g ctx \<or> \<not> bindings_valid g then Deny CaveatWidening
      else if is_expired g now then Deny GrantExpired
      else if \<not> catalog_contains catalog (rq_action req) then Deny UnknownAction
      else if orig = Shell \<and> rq_action req \<in> set (tg_denied_actions g) then Deny ExplicitDeny
      else (case egress_denial g req catalog of
          Some reason \<Rightarrow> Deny reason
        | None \<Rightarrow>
      if \<not> bound_parameters_met (rq_params req) (flattened_caveats (tg_chain g))
      then Deny CaveatWidening
      else if orig = Kernel
      then (if is_kernel_origin catalog (rq_action req) then Allow else Deny KernelOriginNotTrusted)
      else (case Option.bind (requires_selection_token catalog (rq_action req))
                   (\<lambda>expected_type. validate_selection_token g req expected_type ctx now) of
          Some reason \<Rightarrow> Deny reason
        | None \<Rightarrow>
      if effectively_approval_required g (rq_action req)
      then resolve_approval_required req ctx now
      else if effectively_allows g (rq_action req) then Allow
      else Deny NotGranted)))"

definition gate ::
  "ext \<Rightarrow> task_grant \<Rightarrow> action_request \<Rightarrow> action_origin \<Rightarrow> gate_context \<Rightarrow> action_catalog \<Rightarrow>
     timestamp \<Rightarrow> gate_outcome" where
  "gate X g req orig ctx catalog now =
     (let decision = resolve X g req orig ctx catalog now;
          decision = (if tg_mode g = Shadow \<and>
                        (case decision of Allow \<Rightarrow> True | ApprovalRequired _ \<Rightarrow> True | _ \<Rightarrow> False)
                      then EffectSuppressed else decision)
      in \<lparr>go_decision = decision,
          go_audit = \<lparr>am_action = rq_action req, am_task_grant_id = tg_id g, am_origin = orig,
            am_target_ref = rq_target_ref req, am_target_digest = rq_target_digest req,
            am_payload_refs = (case rq_payload_ref req of None \<Rightarrow> [] | Some p \<Rightarrow> [p])\<rparr>\<rparr>)"

section \<open>What an allowing decision means\<close>

definition permits_egress :: "task_grant \<Rightarrow> action_catalog \<Rightarrow> action_id \<Rightarrow> bool" where
  "permits_egress g catalog a \<longleftrightarrow>
     (\<exists>decl. egress_decl_for catalog a = Some decl \<and>
        (\<forall>class. ed_egress_class decl = Some class \<longrightarrow> effectively_allows_egress_class g class) \<and>
        (\<forall>channels. ed_output_channels decl = Some channels \<longrightarrow>
           channels \<noteq> [] \<and> (\<forall>ch\<in>set channels. effectively_allows_output_channel g ch)))"

definition token_ok :: "task_grant \<Rightarrow> action_request \<Rightarrow> gate_context \<Rightarrow> selection_token_type \<Rightarrow> timestamp \<Rightarrow> bool" where
  "token_ok g req ctx ty now \<longleftrightarrow>
     (\<exists>i t. rq_selection_token_id req = Some i \<and> i \<in> set (tg_selection_tokens g) \<and>
        find_selection_token ctx i = Some t \<and> st_token_type t = ty \<and> now < st_expires_at t \<and>
        st_user t = tg_user g)"

definition approval_ok :: "action_request \<Rightarrow> gate_context \<Rightarrow> timestamp \<Rightarrow> bool" where
  "approval_ok req ctx now \<longleftrightarrow>
     (\<exists>a p d. approval_for_request ctx (rq_id req) = Some a \<and> rq_payload_ref req = Some p \<and>
        rq_target_digest req = Some d \<and> approval_matches a (ar_digest p) d now)"

definition authentic :: "ext \<Rightarrow> task_grant \<Rightarrow> gate_context \<Rightarrow> bool" where
  "authentic X g ctx \<longleftrightarrow>
     (\<exists>key. grant_hmac_key ctx = Some key \<and> verify_mac X key g) \<and>
     (\<forall>tier. ModelTier tier \<notin> set (flattened_caveats (tg_chain g))) \<and>
     single_valued (bound_pairs (flattened_caveats (tg_chain g)))"

definition in_force ::
  "task_grant \<Rightarrow> action_request \<Rightarrow> action_catalog \<Rightarrow> timestamp \<Rightarrow> bool" where
  "in_force g req catalog now \<longleftrightarrow>
     \<not> is_expired g now \<and> catalog_contains catalog (rq_action req) \<and>
     permits_egress g catalog (rq_action req) \<and>
     (\<forall>(n, v)\<in>bound_pairs (flattened_caveats (tg_chain g)). rq_params req n = Some v)"

definition permits ::
  "ext \<Rightarrow> task_grant \<Rightarrow> action_request \<Rightarrow> action_origin \<Rightarrow> gate_context \<Rightarrow> action_catalog \<Rightarrow>
     timestamp \<Rightarrow> bool" where
  "permits X g req orig ctx catalog now \<longleftrightarrow>
     authentic X g ctx \<and> in_force g req catalog now \<and>
     (case orig of
        Kernel \<Rightarrow> is_kernel_origin catalog (rq_action req)
      | Shell \<Rightarrow>
          rq_action req \<notin> set (tg_denied_actions g) \<and>
          (\<forall>ty. requires_selection_token catalog (rq_action req) = Some ty \<longrightarrow>
             token_ok g req ctx ty now) \<and>
          (if effectively_approval_required g (rq_action req) then approval_ok req ctx now
           else effectively_allows g (rq_action req)))"

lemma verify_mac_structural: "verify_mac X key g \<Longrightarrow> chain_structurally_valid g"
  by (simp add: verify_mac_def split: if_splits)

lemma verify_mac_nonempty: "verify_mac X key g \<Longrightarrow> tg_caveat_mac g \<noteq> []"
  by (simp add: verify_mac_def split: if_splits)

lemma unsupported_iff:
  "has_unsupported_caveats_except g
     [OutputChannelAllowlist_kind, EgressClassAllowlist_kind, ProvenanceLabelAllowlist_kind] \<longleftrightarrow>
   (\<exists>tier. ModelTier tier \<in> set (flattened_caveats (tg_chain g)))"
proof -
  have "(case c of
      ActionAllowlist _ \<Rightarrow> False | BoundParameter _ _ \<Rightarrow> False | ExpiresBefore _ \<Rightarrow> False
    | ModelTier _ \<Rightarrow> True
    | OutputChannelAllowlist _ \<Rightarrow> OutputChannelAllowlist_kind \<notin> set K
    | EgressClassAllowlist _ \<Rightarrow> EgressClassAllowlist_kind \<notin> set K
    | ProvenanceLabelAllowlist _ \<Rightarrow> ProvenanceLabelAllowlist_kind \<notin> set K) \<longleftrightarrow>
      (\<exists>tier. c = ModelTier tier)"
    if "set K = UNIV" for c K
    using that by (cases c) auto
  moreover have "set [OutputChannelAllowlist_kind, EgressClassAllowlist_kind,
      ProvenanceLabelAllowlist_kind] = UNIV"
    using supported_caveat_kind.exhaust by auto
  ultimately show ?thesis
    unfolding has_unsupported_caveats_except_def list_ex_iff by auto
qed

lemma authentic_iff:
  "authentic X g ctx \<longleftrightarrow> chain_valid X g ctx \<and> bindings_valid g"
  by (auto simp: authentic_def chain_valid_def bindings_valid_iff unsupported_iff
      dest: verify_mac_structural verify_mac_nonempty split: option.splits)

lemma egress_denial_None:
  "catalog_contains catalog (rq_action req) \<Longrightarrow>
     egress_denial g req catalog = None \<longleftrightarrow> permits_egress g catalog (rq_action req)"
  by (auto simp: egress_denial_def permits_egress_def list_ex_iff split: option.splits)

lemma validate_selection_token_None:
  "validate_selection_token g req ty ctx now = None \<longleftrightarrow> token_ok g req ctx ty now"
  by (auto simp: validate_selection_token_def token_ok_def split: option.splits)

lemma bound_parameters_met_iff:
  "bound_parameters_met params cs \<longleftrightarrow> (\<forall>(n, v)\<in>bound_pairs cs. params n = Some v)"
proof (induction cs)
  case (Cons c cs)
  then show ?case by (cases c) (auto split: option.splits)
qed (simp add: bound_pairs_def)

lemma resolve_approval_Allow:
  "resolve_approval_required req ctx now = Allow \<longleftrightarrow> approval_ok req ctx now"
  by (auto simp: resolve_approval_required_def approval_ok_def Let_def split: option.splits)

lemma resolve_approval_cases:
  "resolve_approval_required req ctx now = ApprovalRequired t \<longleftrightarrow>
     approval_for_request ctx (rq_id req) = None \<and> t = as_str (rq_action req)"
  by (auto simp: resolve_approval_required_def Let_def split: option.splits)

lemma in_force_iff:
  "in_force g req catalog now \<longleftrightarrow>
     \<not> is_expired g now \<and> catalog_contains catalog (rq_action req) \<and>
     egress_denial g req catalog = None \<and>
     bound_parameters_met (rq_params req) (flattened_caveats (tg_chain g))"
  by (auto simp: in_force_def egress_denial_None bound_parameters_met_iff)

lemma token_stage_None:
  "Option.bind (requires_selection_token catalog a)
     (\<lambda>ty. validate_selection_token g req ty ctx now) = None \<longleftrightarrow>
   (\<forall>ty. requires_selection_token catalog a = Some ty \<longrightarrow> token_ok g req ctx ty now)"
  by (cases "requires_selection_token catalog a") (auto simp: validate_selection_token_None)

lemma resolve_Allow_iff:
  "resolve X g req orig ctx catalog now = Allow \<longleftrightarrow> permits X g req orig ctx catalog now"
proof (cases "authentic X g ctx \<and> in_force g req catalog now")
  case True
  then have "chain_valid X g ctx" "bindings_valid g" "\<not> is_expired g now"
    "catalog_contains catalog (rq_action req)" "egress_denial g req catalog = None"
    "bound_parameters_met (rq_params req) (flattened_caveats (tg_chain g))"
    by (auto simp: authentic_iff in_force_iff)
  with True show ?thesis
    by (cases orig)
      (auto simp: resolve_def permits_def resolve_approval_Allow token_stage_None [symmetric]
        split: option.splits)
next
  case False
  then show ?thesis
    by (auto simp: resolve_def permits_def authentic_iff in_force_iff split: option.splits)
qed

lemma gate_decision:
  "go_decision (gate X g req orig ctx catalog now) =
     (if tg_mode g = Shadow \<and>
         (case resolve X g req orig ctx catalog now of
            Allow \<Rightarrow> True | ApprovalRequired _ \<Rightarrow> True | _ \<Rightarrow> False)
      then EffectSuppressed else resolve X g req orig ctx catalog now)"
  by (simp add: gate_def Let_def)

lemma gate_Allow_iff:
  "go_decision (gate X g req orig ctx catalog now) = Allow \<longleftrightarrow>
     tg_mode g = Live \<and> permits X g req orig ctx catalog now"
  by (cases "tg_mode g") (auto simp: gate_decision resolve_Allow_iff [symmetric])

lemma resolve_ApprovalRequired_iff:
  "resolve X g req orig ctx catalog now = ApprovalRequired t \<longleftrightarrow>
     orig = Shell \<and> authentic X g ctx \<and> in_force g req catalog now \<and>
     rq_action req \<notin> set (tg_denied_actions g) \<and>
     (\<forall>ty. requires_selection_token catalog (rq_action req) = Some ty \<longrightarrow>
        token_ok g req ctx ty now) \<and>
     effectively_approval_required g (rq_action req) \<and>
     approval_for_request ctx (rq_id req) = None \<and> t = as_str (rq_action req)"
proof (cases "authentic X g ctx \<and> in_force g req catalog now")
  case True
  then have "chain_valid X g ctx" "bindings_valid g" "\<not> is_expired g now"
    "catalog_contains catalog (rq_action req)" "egress_denial g req catalog = None"
    "bound_parameters_met (rq_params req) (flattened_caveats (tg_chain g))"
    by (auto simp: authentic_iff in_force_iff)
  with True show ?thesis
    by (cases orig)
      (auto simp: resolve_def resolve_approval_cases token_stage_None [symmetric]
        split: option.splits)
next
  case False
  then show ?thesis
    by (auto simp: resolve_def authentic_iff in_force_iff split: option.splits)
qed

section \<open>Properties of the gate\<close>

text \<open>When the gate asks the owner.\<close>

definition asks ::
  "ext \<Rightarrow> task_grant \<Rightarrow> action_request \<Rightarrow> action_origin \<Rightarrow> gate_context \<Rightarrow> action_catalog \<Rightarrow>
     timestamp \<Rightarrow> bool" where
  "asks X g req orig ctx catalog now \<longleftrightarrow>
     orig = Shell \<and> authentic X g ctx \<and> in_force g req catalog now \<and>
     rq_action req \<notin> set (tg_denied_actions g) \<and>
     (\<forall>ty. requires_selection_token catalog (rq_action req) = Some ty \<longrightarrow>
        token_ok g req ctx ty now) \<and>
     effectively_approval_required g (rq_action req) \<and>
     approval_for_request ctx (rq_id req) = None"

lemma resolve_asks:
  "resolve X g req orig ctx catalog now = ApprovalRequired t \<longleftrightarrow>
     asks X g req orig ctx catalog now \<and> t = as_str (rq_action req)"
  by (simp add: resolve_ApprovalRequired_iff asks_def conj_assoc)

lemma resolve_not_suppressed: "resolve X g req orig ctx catalog now \<noteq> EffectSuppressed"
  by (auto simp: resolve_def resolve_approval_required_def Let_def split: option.splits)

lemma permits_not_asks:
  "permits X g req orig ctx catalog now \<Longrightarrow> \<not> asks X g req orig ctx catalog now"
  by (metis resolve_Allow_iff resolve_asks gate_decision.distinct(3))

lemma asks_iff:
  "asks X g req orig ctx catalog now \<longleftrightarrow>
     resolve X g req orig ctx catalog now = ApprovalRequired (as_str (rq_action req))"
  by (simp add: resolve_asks)

lemma resolve_denies:
  "(\<exists>r. resolve X g req orig ctx catalog now = Deny r) \<longleftrightarrow>
     \<not> permits X g req orig ctx catalog now \<and> \<not> asks X g req orig ctx catalog now"
proof (cases "resolve X g req orig ctx catalog now")
  case (ApprovalRequired t)
  moreover from this have "asks X g req orig ctx catalog now" by (simp add: resolve_asks)
  ultimately show ?thesis by simp
qed (auto simp: asks_iff resolve_Allow_iff [symmetric] resolve_not_suppressed)

text \<open>
  C1. The four outcomes of the gate, exactly. It allows when the grant is live and the
  declarative specification permits the request; it asks the owner when the grant is live and
  the request is one the owner has not yet decided; a shadow grant suppresses the effect in
  just those two cases; everything else is denied.
\<close>

theorem gate_outcome_spec:
  "(go_decision (gate X g req orig ctx catalog now) = Allow \<longleftrightarrow>
      tg_mode g = Live \<and> permits X g req orig ctx catalog now) \<and>
   (go_decision (gate X g req orig ctx catalog now) = ApprovalRequired (as_str (rq_action req)) \<longleftrightarrow>
      tg_mode g = Live \<and> asks X g req orig ctx catalog now) \<and>
   (go_decision (gate X g req orig ctx catalog now) = EffectSuppressed \<longleftrightarrow>
      tg_mode g = Shadow \<and>
      (permits X g req orig ctx catalog now \<or> asks X g req orig ctx catalog now)) \<and>
   ((\<exists>r. go_decision (gate X g req orig ctx catalog now) = Deny r) \<longleftrightarrow>
      \<not> permits X g req orig ctx catalog now \<and> \<not> asks X g req orig ctx catalog now)"
proof (cases "resolve X g req orig ctx catalog now")
  case Allow
  then have "permits X g req orig ctx catalog now" by (simp add: resolve_Allow_iff [symmetric])
  moreover from this have "\<not> asks X g req orig ctx catalog now" by (rule permits_not_asks)
  ultimately show ?thesis
    using Allow by (cases "tg_mode g") (simp_all add: gate_decision)
next
  case (ApprovalRequired t)
  then have "asks X g req orig ctx catalog now" "t = as_str (rq_action req)"
    by (simp_all add: resolve_asks)
  moreover from this(1) have "\<not> permits X g req orig ctx catalog now"
    using permits_not_asks by blast
  ultimately show ?thesis
    using ApprovalRequired by (cases "tg_mode g") (simp_all add: gate_decision)
next
  case (Deny r)
  then have "\<not> permits X g req orig ctx catalog now \<and> \<not> asks X g req orig ctx catalog now"
    using resolve_denies by blast
  with Deny show ?thesis by (simp add: gate_decision)
next
  case EffectSuppressed
  then show ?thesis by (simp add: resolve_not_suppressed)
qed

text \<open>
  C6. An approval binds the payload and the target it was given for. If the gate allows an
  approval-required request, then the same request with any other payload digest or target
  digest is denied with a digest mismatch: it neither runs nor goes back to the owner.
\<close>

theorem mutated_request_denied:
  assumes "go_decision (gate X g req Shell ctx catalog now) = Allow"
    and "effectively_approval_required g (rq_action req)"
    and "(map_option ar_digest payload, target) \<noteq>
      (map_option ar_digest (rq_payload_ref req), rq_target_digest req)"
  shows "go_decision (gate X g (req\<lparr>rq_payload_ref := payload, rq_target_digest := target\<rparr>)
    Shell ctx catalog now) = Deny ApprovalDigestMismatch"
proof -
  let ?req = "req\<lparr>rq_payload_ref := payload, rq_target_digest := target\<rparr>"
  have live: "tg_mode g = Live" and p: "permits X g req Shell ctx catalog now"
    using assms(1) by (simp_all add: gate_Allow_iff)
  then have "approval_ok req ctx now" using assms(2) by (simp add: permits_def)
  then obtain a q d where a: "approval_for_request ctx (rq_id req) = Some a"
    "rq_payload_ref req = Some q" "rq_target_digest req = Some d"
    "approval_matches a (ar_digest q) d now"
    by (auto simp: approval_ok_def)
  have mismatch: "resolve_approval_required ?req ctx now = Deny ApprovalDigestMismatch"
    using a assms(3)
    by (auto simp: resolve_approval_required_def approval_matches_def Let_def split: option.splits)
  have same: "egress_denial g ?req catalog = egress_denial g req catalog"
    "validate_selection_token g ?req ty ctx now = validate_selection_token g req ty ctx now" for ty
    by (simp_all add: egress_denial_def validate_selection_token_def)
  have "authentic X g ctx" "in_force g req catalog now" using p by (simp_all add: permits_def)
  then have "resolve X g ?req Shell ctx catalog now = resolve_approval_required ?req ctx now"
    using p assms(2)
    by (auto simp: resolve_def same authentic_iff in_force_iff permits_def
        token_stage_None [symmetric] split: option.splits)
  with mismatch live show ?thesis by (simp add: gate_decision)
qed

definition ex_catalog :: action_catalog where
  "ex_catalog = with_egress_declarations
     [(ex_read, \<lparr>ed_output_channels = None, ed_egress_class = None\<rparr>),
      (ex_enable, \<lparr>ed_output_channels = None, ed_egress_class = None\<rparr>),
      (ex_send, \<lparr>ed_output_channels = None, ed_egress_class = None\<rparr>)]
     (catalog_new [ex_read, ex_enable, ex_send])"

definition ex_request :: "action_id \<Rightarrow> action_request" where
  "ex_request a =
     \<lparr>rq_id = 11, rq_task_grant_id = 7, rq_action = a, rq_target_ref = None,
      rq_payload_ref = Some \<lparr>ar_digest = Digest ''p'', ar_schema_version = 1\<rparr>,
      rq_target_digest = Some (Digest ''t''), rq_selection_token_id = None, rq_params = Map.empty,
      rq_skill_attribution = None, rq_requested_at = 1, rq_schema_version = 1\<rparr>"

definition ex_approval :: approval_record where
  "ex_approval =
     \<lparr>ap_id = 21, ap_schema_version = 1, ap_action_request_id = 11, ap_approved_by = PrincipalId 3,
      ap_approved_at = 1, ap_approved_payload_digest = Digest ''p'',
      ap_approved_target_digest = Digest ''t'', ap_expires_at = 500, ap_decision = Approved_decision,
      ap_timeout_behavior = DoNothing, ap_approval_channel = ''c''\<rparr>"

definition ex_context :: gate_context where
  "ex_context = \<lparr>approval_for_request = [11 \<mapsto> ex_approval], find_selection_token = Map.empty,
     grant_hmac_key = Some []\<rparr>"

lemma ex_enable_allowed:
  "go_decision (gate ex_ext ex_grant (ex_request ex_enable) Shell ex_context ex_catalog 2) = Allow"
  by code_simp

theorem mutated_request_denied_witness:
  "go_decision (gate ex_ext ex_grant
     ((ex_request ex_enable)\<lparr>rq_payload_ref := None, rq_target_digest := Some (Digest ''t'')\<rparr>)
     Shell ex_context ex_catalog 2) = Deny ApprovalDigestMismatch"
proof (rule mutated_request_denied [OF ex_enable_allowed])
  show "effectively_approval_required ex_grant (rq_action (ex_request ex_enable))" by code_simp
  show "(map_option ar_digest None, Some (Digest ''t'')) \<noteq>
    (map_option ar_digest (rq_payload_ref (ex_request ex_enable)),
     rq_target_digest (ex_request ex_enable))"
    by (simp add: ex_request_def)
qed

end
