(* ===== verification/Artifacts.thy ===== *)
theory Artifacts
  imports Vocabulary
begin

text \<open>
  The declarative artifacts authority is composed from: agent manifests (\<open>agent.rs\<close>),
  policies (\<open>policy.rs\<close>), capability packs (\<open>pack.rs\<close>), routes (\<open>route.rs\<close>), persona
  elements (\<open>persona.rs\<close>) and the worker contract (\<open>worker.rs\<close>), under
  \<open>src/crates/openspine-schemas/src\<close>. Workflow manifests have a theory of their own.
\<close>

section \<open>Agents, policies, packs\<close>

datatype provider = Local | Openai | Anthropic | Onyx

datatype persistence = Persistent | Ephemeral

record model_policy =
  mp_allowed_providers :: "provider list"
  mp_private_context_requires_gateway :: bool
  mp_max_model_calls_per_task :: u32

record memory_scope =
  ms_allowed_classes :: "string list"
  ms_allowed_scopes :: "string list"
  ms_denied_classes :: "string list"

record agent_limits =
  al_max_runtime_seconds :: u64
  al_max_artifacts :: u32
  al_max_tokens :: u32

record output_channels =
  oc_allowed :: "string list"

record agent_manifest =
  ag_id :: artifact_id
  ag_schema_version :: u32
  ag_version :: u32
  ag_lifecycle_state :: lifecycle
  ag_purpose :: string
  ag_persistence :: persistence
  ag_persona :: string
  ag_model_policy :: model_policy
  ag_memory_scope :: memory_scope
  ag_designed_tools :: "action_id list"
  ag_approval_required_tools :: "action_id list"
  ag_denied_tools :: "action_id list"
  ag_limits :: agent_limits
  ag_output_channels :: output_channels

record constraints =
  co_data_classification_max :: "data_classification option"
  co_external_visibility_max :: "string option"
  co_external_communication_is_instruction :: "bool option"
  co_recovery_required :: "string option"
  co_max_runtime_seconds :: "u64 option"

record policy =
  po_id :: artifact_id
  po_schema_version :: u32
  po_version :: u32
  po_lifecycle_state :: lifecycle
  po_candidate_allowed_actions :: "action_id list"
  po_approval_required :: "action_id list"
  po_denied_actions :: "action_id list"
  po_constraints :: constraints

record session_policy =
  sp_schema_version :: u32
  sp_candidate_allowed_actions :: "action_id list"
  sp_approval_required :: "action_id list"
  sp_denied_actions :: "action_id list"
  sp_constraints :: constraints

record applies_to =
  at_event_type :: "event_type option"
  at_connector :: "connector option"
  at_account_role :: "account_role option"
  at_relationship :: "relationship_kind option"
  at_channel_trust :: "channel_trust option"
  at_verified_source :: "bool option"
  at_lane :: "lane option"

text \<open>An absent field imposes nothing; a present one must match.\<close>

definition applies_to_matches ::
  "applies_to \<Rightarrow> event_envelope \<Rightarrow> relationship_kind option \<Rightarrow> bool" where
  "applies_to_matches w e relationship =
     (if (case at_event_type w of Some et \<Rightarrow> ev_event_type e \<noteq> et | None \<Rightarrow> False) then False
      else if (case at_connector w of Some c \<Rightarrow> ev_connector e \<noteq> Some c | None \<Rightarrow> False) then False
      else if (case at_account_role w of Some ar \<Rightarrow> ev_account_role e \<noteq> Some ar | None \<Rightarrow> False)
      then False
      else if (case at_relationship w of Some r \<Rightarrow> relationship \<noteq> Some r | None \<Rightarrow> False) then False
      else if (case at_channel_trust w of
                 Some ct \<Rightarrow> tc_channel_trust (ev_trust_context e) \<noteq> ct | None \<Rightarrow> False) then False
      else if (case at_verified_source w of Some v \<Rightarrow> ev_verified_source e \<noteq> v | None \<Rightarrow> False)
      then False
      else if (case at_lane w of Some l \<Rightarrow> ev_lane e \<noteq> l | None \<Rightarrow> False) then False
      else True)"

record capability_pack =
  cp_id :: artifact_id
  cp_schema_version :: u32
  cp_version :: u32
  cp_lifecycle_state :: lifecycle
  cp_applies_to :: applies_to
  cp_candidate_allowed_actions :: "action_id list"
  cp_approval_required :: "action_id list"
  cp_denied_actions :: "action_id list"
  cp_allowed_egress_classes :: "egress_class list"
  cp_constraints :: constraints

section \<open>Routes and personas\<close>

record route_actor_when =
  raw_relationship :: "relationship_kind option"
  raw_channel_trust :: "channel_trust option"
  raw_identity_confidence_min :: "f64 option"

record route_when =
  rw_source :: "source option"
  rw_event_type :: "event_type option"
  rw_verified_source :: "bool option"
  rw_lane :: "lane option"
  rw_connector :: "connector option"
  rw_account_role :: "account_role option"
  rw_channel_account :: "string option"
  rw_actor :: "route_actor_when option"

definition is_some :: "'a option \<Rightarrow> u32" where
  "is_some x = (if x = None then 0 else 1)"

definition specificity :: "route_when \<Rightarrow> u32" where
  "specificity w =
     is_some (rw_source w) + is_some (rw_event_type w) + is_some (rw_verified_source w) +
     is_some (rw_lane w) + is_some (rw_connector w) + is_some (rw_account_role w) +
     is_some (rw_channel_account w) +
     (case rw_actor w of
        None \<Rightarrow> 0
      | Some actor \<Rightarrow> is_some (raw_relationship actor) + is_some (raw_channel_trust actor) +
          is_some (raw_identity_confidence_min actor))"

datatype route_effect = Allow_route | Deny_route

record route =
  ro_id :: artifact_id
  ro_schema_version :: u32
  ro_version :: u32
  ro_lifecycle_state :: lifecycle
  ro_priority :: "u32 option"
  ro_effect :: route_effect
  ro_when :: route_when
  ro_agent :: "artifact_id option"
  ro_workflow :: "artifact_id option"
  ro_capability_pack :: "artifact_id option"
  ro_persona :: "artifact_id option"

datatype route_resolution =
    Success artifact_id
  | Denied_route string
  | Ambiguous_route artifact_id string "artifact_id list"

record persona_element =
  pe_id :: artifact_id
  pe_schema_version :: u32
  pe_version :: u32
  pe_lifecycle_state :: lifecycle
  pe_guidance :: string

section \<open>Workers\<close>

record worker_identity =
  wi_owner :: string
  wi_conversation :: string
  wi_task :: string

datatype worker_failure_reason = ShellExited | Crash | Timeout | Lost | StartupFailure

record worker_failed =
  wf_worker_grant_id :: ulid
  wf_parent_grant_id :: ulid
  wf_identity :: worker_identity
  wf_connector :: string
  wf_reason :: worker_failure_reason
  wf_detail_ref :: "artifact_ref option"
  wf_restart_count :: u32
  wf_restart_limit :: u32
  wf_recomposition_permitted :: bool
  wf_occurred_at :: timestamp

datatype worker_outcome = Completed | Failed | Awaiting

record worker_request =
  wq_kind :: string
  wq_detail_ref :: "artifact_ref option"

record worker_slot =
  ws_id :: string
  ws_label :: string

record worker_result =
  wr_outcome :: worker_outcome
  wr_offered_slots :: "worker_slot list"
  wr_requests :: "worker_request list"
  wr_notes_ref :: "artifact_ref option"

datatype task_class = Conversation | DraftApproval | Effectful

record worker_bound_parameter =
  wb_name :: string
  wb_value :: string

record worker_commission_spec =
  wc_agent_id :: string
  wc_allowed_actions :: "action_id list"
  wc_bound_parameters :: "worker_bound_parameter list"
  wc_expires_before :: timestamp
  wc_purpose :: string
  wc_route_id :: string
  wc_workflow_id :: string
  wc_capability_pack_id :: string
  wc_counterparty_channel :: "string option"
  wc_counterparty_identifier :: "string option"
  wc_task_class :: task_class

definition worker_result_completed :: worker_result where
  "worker_result_completed =
     \<lparr>wr_outcome = Completed, wr_offered_slots = [], wr_requests = [], wr_notes_ref = None\<rparr>"

section \<open>Example instances\<close>

text \<open>An owner message, its identity resolution and a route, for evaluating the properties on.\<close>

definition ex_when :: route_when where
  "ex_when =
     \<lparr>rw_source = None, rw_event_type = None, rw_verified_source = Some True, rw_lane = None,
      rw_connector = None, rw_account_role = None, rw_channel_account = None, rw_actor = None\<rparr>"

definition ex_route :: "string \<Rightarrow> u32 \<Rightarrow> route" where
  "ex_route i priority =
     \<lparr>ro_id = i, ro_schema_version = 1, ro_version = 1, ro_lifecycle_state = Active,
      ro_priority = Some priority, ro_effect = Allow_route, ro_when = ex_when, ro_agent = None,
      ro_workflow = None, ro_capability_pack = None, ro_persona = Some ''front''\<rparr>"

definition ex_event :: event_envelope where
  "ex_event =
     \<lparr>ev_id = 5, ev_source = Telegram, ev_connector = None, ev_account_role = None,
      ev_event_type = TelegramOwnerMessage, ev_received_at = 0, ev_verified_source = True,
      ev_verification_method = TelegramOwnerIdMatch, ev_replay_protected = True,
      ev_replay_nonce = None, ev_channel_account = ''123'',
      ev_raw_event_ref = \<lparr>ar_digest = Digest ''d'', ar_schema_version = 1\<rparr>,
      ev_actor_hint = \<lparr>ah_channel_user_id = None, ah_email = None, ah_phone = None,
        ah_handle = None, ah_device_id = None\<rparr>,
      ev_target_refs = [], ev_data_classification = Private, ev_user_intent_hint = None,
      ev_lane = OwnerControl,
      ev_trust_context = \<lparr>tc_channel_trust = VerifiedOwnerChannel, tc_interaction_mode = OwnerMessage\<rparr>,
      ev_thread_id = None, ev_schema_version = 1\<rparr>"

definition ex_identity :: identity_resolution where
  "ex_identity =
     \<lparr>ir_event_id = 5, ir_matched_identity_id = Some 3, ir_principal_id = Some 3,
      ir_confidence = Finite 1, ir_matched_identifier_type = TelegramUserId,
      ir_channel_trust = VerifiedOwnerChannel, ir_source_verified = True,
      ir_authority_warning = None, ir_schema_version = 1\<rparr>"

end
