(* ===== verification/Worker_Grant.thy ===== *)
theory Worker_Grant
  imports Gate Artifacts
begin

text \<open>
  Sub-grants for commissioned workers
  (\<open>src/crates/openspine-authority/src/worker_grant.rs\<close>).

  The child id, the issue time and the random bytes of the token are arguments. The hex
  decoder can panic, so the result is a sum with \<open>panic\<close> on the left; a verified parent
  never reaches the panic. \<open>mint_worker_grant_iff\<close> gives the exact conditions of success,
  \<open>child_permits_parent\<close> says that whatever the gate allows the worker it allows the parent.
\<close>

section \<open>Minting\<close>

datatype mint_error =
    ParentChainInvalid
  | ActionNotInParentAuthority string
  | ActionNonDelegable string
  | ExpiryWidens
  | ParameterConflict string

fun check_actions :: "task_grant \<Rightarrow> action_catalog \<Rightarrow> action_id list \<Rightarrow> mint_error option" where
  "check_actions parent catalog [] = None"
| "check_actions parent catalog (a # as) =
     (if is_non_delegable catalog a then Some (ActionNonDelegable (as_str a))
      else if \<not> effectively_allows parent a then Some (ActionNotInParentAuthority (as_str a))
      else check_actions parent catalog as)"

definition parent_expiry :: "task_grant \<Rightarrow> timestamp" where
  "parent_expiry parent =
     foldl (\<lambda>e c. case c of ExpiresBefore t \<Rightarrow> (if t < e then t else e) | _ \<Rightarrow> e)
       (tg_expires_at parent) (flattened_caveats (tg_chain parent))"

definition parent_bindings :: "task_grant \<Rightarrow> (string \<rightharpoonup> string)" where
  "parent_bindings parent =
     foldl (\<lambda>m c. case c of BoundParameter name val \<Rightarrow> m(name \<mapsto> val) | _ \<Rightarrow> m)
       Map.empty (flattened_caveats (tg_chain parent))"

fun check_bindings :: "(string \<rightharpoonup> string) \<Rightarrow> worker_bound_parameter list \<Rightarrow> mint_error option" where
  "check_bindings m [] = None"
| "check_bindings m (bp # bps) =
     (case m (wb_name bp) of
        Some existing \<Rightarrow>
          if existing \<noteq> wb_value bp then Some (ParameterConflict (wb_name bp))
          else check_bindings m bps
      | None \<Rightarrow> check_bindings m bps)"

definition worker_caveats :: "worker_commission_spec \<Rightarrow> caveat list" where
  "worker_caveats spec =
     [ActionAllowlist (wc_allowed_actions spec)] @
     map (\<lambda>bp. BoundParameter (wb_name bp) (wb_value bp)) (wc_bound_parameters spec) @
     [ExpiresBefore (wc_expires_before spec), OutputChannelAllowlist [], EgressClassAllowlist [],
      ProvenanceLabelAllowlist []]"

definition child_step :: "task_grant \<Rightarrow> worker_commission_spec \<Rightarrow> ulid \<Rightarrow> chain_step" where
  "child_step parent spec child_id =
     \<lparr>cs_grant_id = child_id, cs_parent_grant_id = Some (tg_id parent), cs_mode = tg_mode parent,
      cs_selection_tokens = [], cs_added_caveats = worker_caveats spec\<rparr>"

definition worker_of ::
  "task_grant \<Rightarrow> worker_commission_spec \<Rightarrow> ulid \<Rightarrow> timestamp \<Rightarrow> string \<Rightarrow> string \<Rightarrow> task_grant" where
  "worker_of parent spec child_id issued token mac =
     parent\<lparr>tg_id := child_id, tg_issued_by := ''kernel'', tg_issued_at := issued,
       tg_selection_tokens := [], tg_task_token := token, tg_parent_grant_id := Some (tg_id parent),
       tg_chain := tg_chain parent @ [child_step parent spec child_id], tg_caveat_mac := mac\<rparr>"

definition mint_worker_grant ::
  "ext \<Rightarrow> task_grant \<Rightarrow> worker_commission_spec \<Rightarrow> action_catalog \<Rightarrow> bytes \<Rightarrow> ulid \<Rightarrow> timestamp \<Rightarrow>
     bytes \<Rightarrow> panic + (mint_error + task_grant)" where
  "mint_worker_grant X parent spec catalog key child_id issued random =
     (if \<not> verify_mac X key parent then Inr (Inl ParentChainInvalid)
      else (case check_actions parent catalog (wc_allowed_actions spec) of
          Some e \<Rightarrow> Inr (Inl e)
        | None \<Rightarrow>
      if wc_expires_before spec > parent_expiry parent then Inr (Inl ExpiryWidens)
      else (case check_bindings (parent_bindings parent) (wc_bound_parameters spec) of
          Some e \<Rightarrow> Inr (Inl e)
        | None \<Rightarrow>
      (case seal_child_from_parent_tip X (tg_caveat_mac parent) (child_step parent spec child_id) of
          Inl p \<Rightarrow> Inl p
        | Inr None \<Rightarrow> Inr (Inl ParentChainInvalid)
        | Inr (Some caveat_mac) \<Rightarrow>
            (let worker = worker_of parent spec child_id issued (hex_encode random) caveat_mac in
             if \<not> verify_mac X key worker then Inr (Inl ParentChainInvalid)
             else Inr (Inr worker))))))"

section \<open>The checks\<close>

lemma check_actions_None:
  "check_actions parent catalog as = None \<longleftrightarrow>
     (\<forall>a\<in>set as. \<not> is_non_delegable catalog a \<and> effectively_allows parent a)"
  by (induction parent catalog as rule: check_actions.induct) auto

lemma foldl_expiry:
  "foldl (\<lambda>e c. case c of ExpiresBefore t \<Rightarrow> (if t < e then t else e) | _ \<Rightarrow> e) e0 cs \<le> (now::timestamp) \<longleftrightarrow>
     e0 \<le> now \<or> (\<exists>t. ExpiresBefore t \<in> set cs \<and> t \<le> now)"
proof (induction cs arbitrary: e0)
  case (Cons c cs)
  then show ?case by (cases c) auto
qed simp

text \<open>The effective expiry is the instant from which the grant counts as expired.\<close>

lemma parent_expiry_le: "parent_expiry g \<le> now \<longleftrightarrow> is_expired g now"
  by (simp add: parent_expiry_def foldl_expiry is_expired_iff)

lemma foldl_bindings:
  "foldl (\<lambda>m c. case c of BoundParameter name val \<Rightarrow> m(name \<mapsto> val) | _ \<Rightarrow> m) m0 cs n = Some v \<Longrightarrow>
     (n, v) \<in> bound_pairs cs \<or> m0 n = Some v"
proof (induction cs arbitrary: m0)
  case (Cons c cs)
  show ?case
  proof (cases c)
    case (BoundParameter a b)
    with Cons.prems have "foldl (\<lambda>m c. case c of BoundParameter name val \<Rightarrow> m(name \<mapsto> val) | _ \<Rightarrow> m)
        (m0(a \<mapsto> b)) cs n = Some v" by simp
    from Cons.IH [OF this] BoundParameter show ?thesis by (auto split: if_splits)
  qed (use Cons in auto)
qed simp

lemma foldl_bindings_dom:
  "(n, v) \<in> bound_pairs cs \<or> m0 n \<noteq> None \<Longrightarrow>
     foldl (\<lambda>m c. case c of BoundParameter name val \<Rightarrow> m(name \<mapsto> val) | _ \<Rightarrow> m) m0 cs n \<noteq> None"
proof (induction cs arbitrary: m0)
  case (Cons c cs)
  show ?case
  proof (cases c)
    case (BoundParameter a b)
    then have "(n, v) \<in> bound_pairs cs \<or> (m0(a \<mapsto> b)) n \<noteq> None" using Cons.prems by auto
    then have "foldl (\<lambda>m c. case c of BoundParameter name val \<Rightarrow> m(name \<mapsto> val) | _ \<Rightarrow> m)
        (m0(a \<mapsto> b)) cs n \<noteq> None" by (rule Cons.IH)
    with BoundParameter show ?thesis by simp
  qed (use Cons in auto)
qed (simp add: bound_pairs_def)

lemma parent_bindings_iff:
  assumes "bindings_valid parent"
  shows "parent_bindings parent n = Some v \<longleftrightarrow>
    (n, v) \<in> bound_pairs (flattened_caveats (tg_chain parent))"
proof
  assume "(n, v) \<in> bound_pairs (flattened_caveats (tg_chain parent))"
  moreover from this obtain w where "parent_bindings parent n = Some w"
    using foldl_bindings_dom unfolding parent_bindings_def by blast
  moreover from this have "(n, w) \<in> bound_pairs (flattened_caveats (tg_chain parent))"
    using foldl_bindings unfolding parent_bindings_def by fastforce
  ultimately show "parent_bindings parent n = Some v"
    using assms unfolding bindings_valid_iff single_valued_def by blast
next
  assume "parent_bindings parent n = Some v"
  then show "(n, v) \<in> bound_pairs (flattened_caveats (tg_chain parent))"
    using foldl_bindings unfolding parent_bindings_def by fastforce
qed

lemma check_bindings_None:
  "check_bindings m bps = None \<longleftrightarrow> (\<forall>bp\<in>set bps. m (wb_name bp) \<in> {None, Some (wb_value bp)})"
  by (induction m bps rule: check_bindings.induct) (auto split: option.splits)

section \<open>The new tip\<close>

lemma length_step_tip [simp]: "wf_ext X \<Longrightarrow> length (step_tip X tip s) = 32"
  by (simp add: step_tip_def hmac_canonical_def)

lemma length_tip_fold:
  "wf_ext X \<Longrightarrow> length tip = 32 \<Longrightarrow> length (foldl (step_tip X) tip chain) = 32"
  by (induction chain arbitrary: tip) auto

lemma verify_mac_iff:
  "verify_mac X key g \<longleftrightarrow>
     chain_structurally_valid g \<and>
     tg_caveat_mac g = compute_mac_hex X key (root_of_grant g) (tg_chain g) \<and> tg_caveat_mac g \<noteq> []"
  by (auto simp: verify_mac_def ct_eq_hex_iff)

lemma structural_nonempty: "chain_structurally_valid g \<Longrightarrow> tg_chain g \<noteq> []"
  by (auto simp: chain_structurally_valid_iff)

text \<open>Extending a verified tip gives the tip of the extended chain, and never panics.\<close>

lemma seal_child_verified:
  assumes X: "wf_ext X" and v: "verify_mac X key parent"
  shows "seal_child_from_parent_tip X (tg_caveat_mac parent) s =
    Inr (Some (compute_mac_hex X key (root_of_grant parent) (tg_chain parent @ [s])))"
proof -
  let ?t0 = "hmac_canonical X key (root_payload X (root_of_grant parent))"
  let ?tip = "foldl (step_tip X) ?t0 (tg_chain parent)"
  have "tg_chain parent \<noteq> []" using v by (simp add: verify_mac_iff structural_nonempty)
  then have mac: "tg_caveat_mac parent = hex_encode ?tip"
    using v by (simp add: verify_mac_iff compute_mac_hex_def compute_tip_def)
  have "length ?tip = 32"
    by (rule length_tip_fold) (simp_all add: X hmac_canonical_def)
  then have "hex_decode_32 (tg_caveat_mac parent) = Inr (Some ?tip)"
    by (simp add: mac hex_decode_encode)
  then show ?thesis
    by (simp add: seal_child_from_parent_tip_def compute_mac_hex_def compute_tip_def)
qed

lemma root_of_worker [simp]: "root_of_grant (worker_of parent spec i t tok mac) = root_of_grant parent"
  by (simp add: root_of_grant_def worker_of_def)

lemma chain_of_worker [simp]:
  "tg_chain (worker_of parent spec i t tok mac) = tg_chain parent @ [child_step parent spec i]"
  by (simp add: worker_of_def)

lemma worker_fields [simp]:
  "tg_denied_actions (worker_of parent spec i t tok mac) = tg_denied_actions parent"
  "tg_allowed_actions (worker_of parent spec i t tok mac) = tg_allowed_actions parent"
  "tg_approval_required_actions (worker_of parent spec i t tok mac) = tg_approval_required_actions parent"
  "tg_allowed_egress_classes (worker_of parent spec i t tok mac) = tg_allowed_egress_classes parent"
  "tg_output_channels (worker_of parent spec i t tok mac) = tg_output_channels parent"
  "tg_expires_at (worker_of parent spec i t tok mac) = tg_expires_at parent"
  "tg_mode (worker_of parent spec i t tok mac) = tg_mode parent"
  "tg_user (worker_of parent spec i t tok mac) = tg_user parent"
  "tg_selection_tokens (worker_of parent spec i t tok mac) = []"
  "tg_id (worker_of parent spec i t tok mac) = i"
  "tg_caveat_mac (worker_of parent spec i t tok mac) = mac"
  by (simp_all add: worker_of_def)

lemma worker_caveats_in [simp]:
  "cs_added_caveats (child_step parent spec i) = worker_caveats spec"
  by (simp add: child_step_def)

lemma worker_structural:
  assumes "chain_structurally_valid parent"
  shows "chain_structurally_valid (worker_of parent spec i t tok mac)"
  by (rule structural_snoc [OF assms, of "child_step parent spec i"])
    (simp_all add: child_step_def worker_of_def)

lemma worker_verifies:
  assumes "wf_ext X" "verify_mac X key parent"
    and mac: "mac = compute_mac_hex X key (root_of_grant parent) (tg_chain parent @ [child_step parent spec i])"
  shows "verify_mac X key (worker_of parent spec i t tok mac)"
proof -
  have "length mac = 64"
    using assms(1) mac
    by (simp add: compute_mac_hex_def compute_tip_def)
  then show ?thesis
    using assms worker_structural by (auto simp: verify_mac_iff)
qed

text \<open>
  Minting succeeds exactly when the requested narrowing is one; the self-check of the code
  never fails, and no panic is reached.
\<close>

definition narrowing_spec :: "task_grant \<Rightarrow> worker_commission_spec \<Rightarrow> action_catalog \<Rightarrow> bool" where
  "narrowing_spec parent spec catalog \<longleftrightarrow>
     (\<forall>a\<in>set (wc_allowed_actions spec). \<not> is_non_delegable catalog a \<and> effectively_allows parent a) \<and>
     wc_expires_before spec \<le> parent_expiry parent \<and>
     (\<forall>bp\<in>set (wc_bound_parameters spec).
        parent_bindings parent (wb_name bp) \<in> {None, Some (wb_value bp)})"

lemma mint_worker_grant_iff:
  assumes X: "wf_ext X"
  shows "mint_worker_grant X parent spec catalog key i t random = Inr (Inr worker) \<longleftrightarrow>
    verify_mac X key parent \<and> narrowing_spec parent spec catalog \<and>
    worker = worker_of parent spec i t (hex_encode random)
      (compute_mac_hex X key (root_of_grant parent) (tg_chain parent @ [child_step parent spec i]))"
proof (cases "verify_mac X key parent")
  case True
  have "check_actions parent catalog (wc_allowed_actions spec) = None \<and>
      \<not> wc_expires_before spec > parent_expiry parent \<and>
      check_bindings (parent_bindings parent) (wc_bound_parameters spec) = None \<longleftrightarrow>
      narrowing_spec parent spec catalog"
    by (simp add: narrowing_spec_def check_actions_None check_bindings_None not_less)
  with True show ?thesis
    by (auto simp: mint_worker_grant_def seal_child_verified [OF X True] Let_def
        worker_verifies [OF X True] split: option.splits if_splits)
qed (simp add: mint_worker_grant_def)

lemma mint_worker_grant_total:
  assumes X: "wf_ext X"
  shows "\<exists>r. mint_worker_grant X parent spec catalog key i t random = Inr r"
proof (cases "verify_mac X key parent")
  case True
  then show ?thesis
    by (auto simp: mint_worker_grant_def seal_child_verified [OF X True] Let_def split: option.splits)
qed (simp add: mint_worker_grant_def)

section \<open>Delegation only narrows\<close>

text \<open>A grant attenuates another: the same root authority, more hops, no new token.\<close>

definition attenuates :: "task_grant \<Rightarrow> task_grant \<Rightarrow> bool" where
  "attenuates g' g \<longleftrightarrow>
     root_of_grant g' = root_of_grant g \<and> (\<exists>ss. tg_chain g' = tg_chain g @ ss) \<and>
     set (tg_selection_tokens g') \<subseteq> set (tg_selection_tokens g)"

lemma attenuates_refl: "attenuates g g"
  by (simp add: attenuates_def)

lemma attenuates_trans: "attenuates g'' g' \<Longrightarrow> attenuates g' g \<Longrightarrow> attenuates g'' g"
  by (auto simp: attenuates_def)

lemma attenuates_worker: "attenuates (worker_of parent spec i t tok mac) parent"
  by (simp add: attenuates_def)

lemma root_eqD:
  assumes "root_of_grant g' = root_of_grant g"
  shows "tg_allowed_actions g' = tg_allowed_actions g"
    "tg_approval_required_actions g' = tg_approval_required_actions g"
    "tg_denied_actions g' = tg_denied_actions g"
    "tg_allowed_egress_classes g' = tg_allowed_egress_classes g"
    "tg_output_channels g' = tg_output_channels g"
    "tg_expires_at g' = tg_expires_at g" "tg_user g' = tg_user g"
  using assms by (simp_all add: root_of_grant_def)

lemma attenuates_effective [narrowing]:
  assumes "attenuates g' g"
  shows "effectively_allows g' a \<Longrightarrow> effectively_allows g a"
    and "effectively_approval_required g' a \<Longrightarrow> effectively_approval_required g a"
    and "effectively_allows_output_channel g' ch \<Longrightarrow> effectively_allows_output_channel g ch"
    and "effectively_allows_egress_class g' cl \<Longrightarrow> effectively_allows_egress_class g cl"
    and "effectively_allows_provenance_label g' orig \<Longrightarrow> effectively_allows_provenance_label g orig"
proof -
  obtain ss where ss: "tg_chain g' = tg_chain g @ ss" and r: "root_of_grant g' = root_of_grant g"
    using assms by (auto simp: attenuates_def)
  note narrows = action_axis.effective_narrows [OF ss] approval_axis.effective_narrows [OF ss]
    channel_axis.effective_narrows [OF ss] egress_axis.effective_narrows [OF ss]
    origin_axis.effective_narrows [OF ss]
  show "effectively_allows g' a \<Longrightarrow> effectively_allows g a"
    "effectively_approval_required g' a \<Longrightarrow> effectively_approval_required g a"
    "effectively_allows_output_channel g' ch \<Longrightarrow> effectively_allows_output_channel g ch"
    "effectively_allows_egress_class g' cl \<Longrightarrow> effectively_allows_egress_class g cl"
    "effectively_allows_provenance_label g' orig \<Longrightarrow> effectively_allows_provenance_label g orig"
    by (rule narrows; simp add: root_eqD [OF r])+
qed

lemma attenuates_caveats [narrowing]:
  "attenuates g' g \<Longrightarrow> set (flattened_caveats (tg_chain g)) \<subseteq> set (flattened_caveats (tg_chain g'))"
  by (auto simp: attenuates_def)

lemma attenuates_expired [narrowing]: "attenuates g' g \<Longrightarrow> is_expired g now \<Longrightarrow> is_expired g' now"
  using attenuates_caveats [of g' g]
  by (auto simp: is_expired_iff attenuates_def dest: root_eqD(6))

lemma attenuates_bound_pairs [narrowing]:
  "attenuates g' g \<Longrightarrow>
     bound_pairs (flattened_caveats (tg_chain g)) \<subseteq> bound_pairs (flattened_caveats (tg_chain g'))"
  using attenuates_caveats [of g' g] by (auto simp: bound_pairs_def)

text \<open>
  An action the narrower grant allows outright is not one the wider grant wants an approval
  for: both lists are filtered by the same caveats.
\<close>

lemma attenuates_no_new_approval:
  assumes "attenuates g' g" "effectively_allows g' a" "\<not> effectively_approval_required g' a"
  shows "\<not> effectively_approval_required g a"
  using assms root_eqD(2) [of g' g]
  by (auto simp: action_axis.effective_iff approval_axis.effective_iff attenuates_def)

lemma attenuates_in_force:
  assumes "attenuates g' g" "in_force g' req catalog now"
  shows "in_force g req catalog now"
proof -
  have "permits_egress g catalog (rq_action req)"
    using assms(2) attenuates_effective(3,4) [OF assms(1)]
    by (force simp: in_force_def permits_egress_def)
  then show ?thesis
    using assms(2) attenuates_expired [OF assms(1)] attenuates_bound_pairs [OF assms(1)]
    by (auto simp: in_force_def)
qed

lemma attenuates_authentic:
  assumes "attenuates g' g" "authentic X g' ctx" "grant_hmac_key ctx = Some key" "verify_mac X key g"
  shows "authentic X g ctx"
  using assms attenuates_caveats [OF assms(1)]
    single_valued_subset [OF attenuates_bound_pairs [OF assms(1)]]
  by (auto simp: authentic_def)

lemma attenuates_token_ok:
  "attenuates g' g \<Longrightarrow> token_ok g' req ctx ty now \<Longrightarrow> token_ok g req ctx ty now"
  by (auto simp: token_ok_def attenuates_def dest: root_eqD(7))

lemma attenuates_permits:
  assumes "attenuates g' g" "grant_hmac_key ctx = Some key" "verify_mac X key g"
    and p: "permits X g' req orig ctx catalog now"
  shows "permits X g req orig ctx catalog now"
proof -
  have base: "authentic X g ctx" "in_force g req catalog now"
    using p attenuates_authentic [OF assms(1) _ assms(2,3)] attenuates_in_force [OF assms(1)]
    by (auto simp: permits_def)
  show ?thesis
  proof (cases orig)
    case Kernel
    then show ?thesis using p base by (simp add: permits_def)
  next
    case Shell
    have "tg_denied_actions g' = tg_denied_actions g"
      using assms(1) by (auto simp: attenuates_def dest: root_eqD(3))
    then show ?thesis
      using p base Shell attenuates_token_ok [OF assms(1)] attenuates_effective(1,2) [OF assms(1)]
        attenuates_no_new_approval [OF assms(1)]
      by (auto simp: permits_def split: if_splits)
  qed
qed

text \<open>Chains of sub-grants, each minted from the one before.\<close>

inductive delegated :: "ext \<Rightarrow> bytes \<Rightarrow> action_catalog \<Rightarrow> task_grant \<Rightarrow> task_grant \<Rightarrow> bool"
  for X key catalog where
  delegated_self: "delegated X key catalog g g"
| delegated_mint: "delegated X key catalog g h \<Longrightarrow>
    mint_worker_grant X h spec catalog key i t random = Inr (Inr w) \<Longrightarrow> delegated X key catalog g w"

lemma delegated_attenuates:
  "delegated X key catalog g w \<Longrightarrow> wf_ext X \<Longrightarrow> verify_mac X key g \<Longrightarrow>
     attenuates w g \<and> verify_mac X key w \<and> tg_mode w = tg_mode g"
proof (induction rule: delegated.induct)
  case (delegated_mint g h spec i t random w)
  then have ih: "attenuates h g" "verify_mac X key h" "tg_mode h = tg_mode g" by auto
  have w: "w = worker_of h spec i t (hex_encode random)
      (compute_mac_hex X key (root_of_grant h) (tg_chain h @ [child_step h spec i]))"
    using delegated_mint by (simp add: mint_worker_grant_iff)
  have "verify_mac X key w"
    unfolding w by (rule worker_verifies) (use delegated_mint ih in simp_all)
  with ih show ?case
    using attenuates_trans [OF attenuates_worker ih(1)] by (auto simp: w)
qed (simp add: attenuates_refl)

section \<open>What a worker can do\<close>

lemma worker_closed:
  "\<not> effectively_allows_output_channel (worker_of parent spec i t tok mac) ch"
  "\<not> effectively_allows_egress_class (worker_of parent spec i t tok mac) cl"
  "\<not> effectively_allows_provenance_label (worker_of parent spec i t tok mac) orig"
  by (rule channel_axis.effective_closed [of "OutputChannelAllowlist []"]
      egress_axis.effective_closed [of "EgressClassAllowlist []"]
      origin_axis.effective_closed [of "ProvenanceLabelAllowlist []"];
    simp add: worker_caveats_def)+

lemma worker_actions:
  "effectively_allows (worker_of parent spec i t tok mac) a \<longleftrightarrow>
     effectively_allows parent a \<and> a \<in> set (wc_allowed_actions spec)"
  "effectively_approval_required (worker_of parent spec i t tok mac) a \<longleftrightarrow>
     effectively_approval_required parent a \<and> a \<in> set (wc_allowed_actions spec)"
  by (auto simp: action_axis.effective_iff approval_axis.effective_iff worker_caveats_def)

lemma worker_expired:
  "is_expired (worker_of parent spec i t tok mac) now \<longleftrightarrow>
     is_expired parent now \<or> wc_expires_before spec \<le> now"
  by (auto simp: is_expired_iff worker_caveats_def)

lemma worker_bound_pairs:
  "bound_pairs (flattened_caveats (tg_chain (worker_of parent spec i t tok mac))) =
     bound_pairs (flattened_caveats (tg_chain parent)) \<union>
     (\<lambda>bp. (wb_name bp, wb_value bp)) ` set (wc_bound_parameters spec)"
  by (auto simp: worker_caveats_def bound_pairs_def image_iff)

lemma single_valued_Un:
  "single_valued (P \<union> S) \<longleftrightarrow>
     single_valued P \<and> single_valued S \<and> (\<forall>n v u. (n, v) \<in> P \<longrightarrow> (n, u) \<in> S \<longrightarrow> v = u)"
  unfolding single_valued_def by blast

text \<open>
  Bindings of the child are consistent exactly when the parent's are and the commission does
  not itself give one name two values.
\<close>

lemma worker_bindings_valid:
  assumes "bindings_valid parent" "narrowing_spec parent spec catalog"
  shows "bindings_valid (worker_of parent spec i t tok mac) \<longleftrightarrow>
    single_valued ((\<lambda>bp. (wb_name bp, wb_value bp)) ` set (wc_bound_parameters spec))"
proof -
  let ?P = "bound_pairs (flattened_caveats (tg_chain parent))"
  let ?S = "(\<lambda>bp. (wb_name bp, wb_value bp)) ` set (wc_bound_parameters spec)"
  have P: "single_valued ?P" using assms(1) by (simp add: bindings_valid_iff)
  have agree: "v = u" if "(n, v) \<in> ?P" "(n, u) \<in> ?S" for n v u
  proof -
    have "parent_bindings parent n = Some v"
      using that(1) by (simp add: parent_bindings_iff [OF assms(1)])
    moreover have "parent_bindings parent n \<in> {None, Some u}"
      using that(2) assms(2) by (auto simp: narrowing_spec_def)
    ultimately show ?thesis by simp
  qed
  then have "\<forall>n v u. (n, v) \<in> ?P \<longrightarrow> (n, u) \<in> ?S \<longrightarrow> v = u" by blast
  with P have "single_valued (?P \<union> ?S) \<longleftrightarrow> single_valued ?S"
    unfolding single_valued_Un by argo
  then show ?thesis by (simp only: bindings_valid_iff worker_bound_pairs)
qed

section \<open>Properties of delegation\<close>

text \<open>
  C2. Delegation never widens authority. Whatever the gate allows a worker at the end of any
  chain of minted sub-grants, it also allows the grant the chain started from, for the same
  request, origin, context and time.
\<close>

theorem delegation_never_widens:
  assumes "wf_ext X" "verify_mac X key g" "grant_hmac_key ctx = Some key"
    and "delegated X key minting_catalog g w"
    and "go_decision (gate X w req orig ctx catalog now) = Allow"
  shows "go_decision (gate X g req orig ctx catalog now) = Allow"
  using assms delegated_attenuates [OF assms(4,1,2)] attenuates_permits [of w g]
  by (auto simp: gate_Allow_iff)

text \<open>
  C4. Minting is total and exact. It never panics; it returns a worker exactly when the
  parent verifies and the commission narrows it (delegable actions the parent effectively
  allows, an expiry not after the parent's, no contradiction of a parent binding); and every
  worker it returns verifies, so the final self-check of the code never fires.
\<close>

theorem mint_worker_grant_exact:
  assumes "wf_ext X"
  shows "(\<exists>r. mint_worker_grant X parent spec catalog key i t random = Inr r) \<and>
    ((\<exists>w. mint_worker_grant X parent spec catalog key i t random = Inr (Inr w)) \<longleftrightarrow>
       verify_mac X key parent \<and> narrowing_spec parent spec catalog) \<and>
    (verify_mac X key parent \<and> narrowing_spec parent spec catalog \<longrightarrow>
       (\<exists>w. mint_worker_grant X parent spec catalog key i t random = Inr (Inr w) \<and>
          verify_mac X key w \<and> attenuates w parent))"
  using mint_worker_grant_total [OF assms, of parent spec catalog key i t random]
    mint_worker_grant_iff [OF assms, of parent spec catalog key i t random]
    worker_verifies [OF assms] attenuates_worker by auto

text \<open>
  C5. A worker is confined to its commission. If the gate allows a shell request under a
  minted worker grant, the action is one the commission names and the catalog lets be
  delegated, the time is before the commission's expiry, every bound parameter has its bound
  value, and the action reaches no egress class, no output channel and needs no selection
  token.
\<close>

theorem worker_confined:
  assumes "wf_ext X" "mint_worker_grant X parent spec catalog key i t random = Inr (Inr w)"
    and "go_decision (gate X w req Shell ctx catalog now) = Allow"
  shows "rq_action req \<in> set (wc_allowed_actions spec) \<and>
    \<not> is_non_delegable catalog (rq_action req) \<and> now < wc_expires_before spec \<and>
    (\<forall>bp\<in>set (wc_bound_parameters spec). rq_params req (wb_name bp) = Some (wb_value bp)) \<and>
    egress_class_for catalog (rq_action req) = None \<and>
    output_channel_for catalog (rq_action req) = None \<and>
    requires_selection_token catalog (rq_action req) = None"
proof -
  obtain mac where w: "w = worker_of parent spec i t (hex_encode random) mac"
    and spec: "narrowing_spec parent spec catalog"
    using assms(1,2) by (auto simp: mint_worker_grant_iff)
  have p: "permits X w req Shell ctx catalog now" using assms(3) by (simp add: gate_Allow_iff)
  then have act: "rq_action req \<in> set (wc_allowed_actions spec)"
    by (auto simp: permits_def w worker_actions split: if_splits)
  have f: "in_force w req catalog now" using p by (simp add: permits_def)
  have "egress_class_for catalog (rq_action req) = None \<and>
      output_channel_for catalog (rq_action req) = None"
    using f by (auto simp: in_force_def permits_egress_def w worker_closed egress_class_for_def
        output_channel_for_def neq_Nil_conv bind_eq_None_conv)
  moreover have "now < wc_expires_before spec"
    using f by (auto simp: in_force_def w worker_expired)
  moreover have "\<forall>bp\<in>set (wc_bound_parameters spec). rq_params req (wb_name bp) = Some (wb_value bp)"
    using f unfolding in_force_def w worker_bound_pairs by blast
  moreover have "requires_selection_token catalog (rq_action req) = None"
    using p by (cases "requires_selection_token catalog (rq_action req)")
      (auto simp: permits_def token_ok_def w)
  ultimately show ?thesis using act spec by (auto simp: narrowing_spec_def)
qed

text \<open>
  A commission that gives one parameter name two values is accepted, and the worker
  grant it yields is useless: the gate denies every request under it, whatever the origin,
  the context, the catalog and the time.
\<close>

theorem conflicting_commission_unusable:
  assumes "wf_ext X" "mint_worker_grant X parent spec catalog key i t random = Inr (Inr w)"
    and "bp \<in> set (wc_bound_parameters spec)" "bp' \<in> set (wc_bound_parameters spec)"
    and "wb_name bp = wb_name bp'" "wb_value bp \<noteq> wb_value bp'"
  shows "go_decision (gate X w req orig ctx gate_catalog now) = Deny CaveatWidening"
proof -
  obtain mac where w: "w = worker_of parent spec i t (hex_encode random) mac"
    using assms(1,2) by (auto simp: mint_worker_grant_iff)
  have "(wb_name x, wb_value x) \<in> bound_pairs (flattened_caveats (tg_chain w))"
    if "x \<in> set (wc_bound_parameters spec)" for x
    using that unfolding w worker_bound_pairs by blast
  from this [OF assms(3)] this [OF assms(4)] have "\<not> bindings_valid w"
    using assms(5,6) unfolding bindings_valid_iff single_valued_def by metis
  then show ?thesis by (simp add: gate_decision resolve_def)
qed

subsection \<open>Instances\<close>

definition ex_spec :: "worker_bound_parameter list \<Rightarrow> worker_commission_spec" where
  "ex_spec bps =
     \<lparr>wc_agent_id = ''worker'', wc_allowed_actions = [ex_read], wc_bound_parameters = bps,
      wc_expires_before = 500, wc_purpose = ''w'', wc_route_id = ''r'', wc_workflow_id = ''w'',
      wc_capability_pack_id = ''c'', wc_counterparty_channel = None,
      wc_counterparty_identifier = None, wc_task_class = Conversation\<rparr>"

definition ex_worker :: "worker_bound_parameter list \<Rightarrow> task_grant" where
  "ex_worker bps = worker_of ex_grant (ex_spec bps) 9 1 (hex_encode [])
     (compute_mac_hex ex_ext [] (root_of_grant ex_grant)
        (tg_chain ex_grant @ [child_step ex_grant (ex_spec bps) 9]))"

lemma ex_grant_verifies: "verify_mac ex_ext [] ex_grant"
  by code_simp

lemma ex_bindings: "parent_bindings ex_grant n = None"
  by (simp add: parent_bindings_def ex_grant_def seal_root_def Let_def)

lemma ex_narrowing: "narrowing_spec ex_grant (ex_spec bps) ex_catalog"
proof -
  have "\<not> is_non_delegable ex_catalog ex_read" "effectively_allows ex_grant ex_read"
    "500 \<le> parent_expiry ex_grant" by code_simp+
  then show ?thesis by (simp add: narrowing_spec_def ex_spec_def ex_bindings)
qed

lemma ex_mint:
  "mint_worker_grant ex_ext ex_grant (ex_spec bps) ex_catalog [] 9 1 [] = Inr (Inr (ex_worker bps))"
  unfolding mint_worker_grant_iff [OF wf_ex_ext]
  by (simp add: ex_grant_verifies ex_narrowing ex_worker_def)

lemma ex_worker_allowed:
  "go_decision (gate ex_ext (ex_worker []) (ex_request ex_read) Shell ex_context ex_catalog 2) = Allow"
  by code_simp

theorem delegation_never_widens_witness:
  "go_decision (gate ex_ext ex_grant (ex_request ex_read) Shell ex_context ex_catalog 2) = Allow"
  by (rule delegation_never_widens [OF wf_ex_ext ex_grant_verifies _
        delegated_mint [OF delegated_self ex_mint] ex_worker_allowed])
    (simp add: ex_context_def)

theorem mint_worker_grant_exact_witness:
  "\<exists>w. mint_worker_grant ex_ext ex_grant (ex_spec []) ex_catalog [] 9 1 [] = Inr (Inr w) \<and>
     verify_mac ex_ext [] w \<and> attenuates w ex_grant"
  using mint_worker_grant_exact [OF wf_ex_ext, of ex_grant "ex_spec []" ex_catalog "[]" 9 1 "[]"]
    ex_grant_verifies ex_narrowing by blast

theorem worker_confined_witness:
  "ex_read \<in> set (wc_allowed_actions (ex_spec [])) \<and> (2 :: timestamp) < wc_expires_before (ex_spec [])"
  using worker_confined [OF wf_ex_ext ex_mint ex_worker_allowed] by (simp add: ex_request_def)

theorem conflicting_commission_unusable_witness:
  "go_decision (gate ex_ext
     (ex_worker [\<lparr>wb_name = ''n'', wb_value = ''1''\<rparr>, \<lparr>wb_name = ''n'', wb_value = ''2''\<rparr>])
     (ex_request ex_read) Shell ex_context ex_catalog 2) = Deny CaveatWidening"
  by (rule conflicting_commission_unusable [OF wf_ex_ext ex_mint,
        of "\<lparr>wb_name = ''n'', wb_value = ''1''\<rparr>" _ "\<lparr>wb_name = ''n'', wb_value = ''2''\<rparr>"])
    (simp_all add: ex_spec_def)

end
