(* ===== verification/Grant_Integrity.thy ===== *)
theory Grant_Integrity
  imports Worker_Grant
begin

text \<open>
  What the authenticated tip of a grant binds
  (\<open>RootAuthority\<close>, \<open>compute_tip\<close>, \<open>seal_root\<close> and \<open>verify_mac\<close> of
  \<open>src/crates/openspine-schemas/src/grant_chain.rs\<close>).

  The tip is HMAC folded over a list of messages (\<open>chain_messages\<close>). Two message lists with
  one tip are the same list, or the two computations contain a collision of HMAC, or the key
  itself came out of HMAC (\<open>tip_binds\<close>): an explicit reduction with no assumption on HMAC.
\<close>

section \<open>The tip as a fold over messages\<close>

definition step_messages :: "ext \<Rightarrow> chain_step \<Rightarrow> json list" where
  "step_messages X s = map (caveat_payload X) (cs_added_caveats s) @ [step_bind_payload X s]"

definition chain_messages :: "ext \<Rightarrow> root_authority \<Rightarrow> chain_step list \<Rightarrow> json list" where
  "chain_messages X r chain = root_payload X r # concat (map (step_messages X) chain)"

lemma step_tip_messages: "step_tip X tip s = foldl (hmac_canonical X) tip (step_messages X s)"
  by (simp add: step_tip_def step_messages_def foldl_map)

lemma foldl_step_tip:
  "foldl (step_tip X) tip chain = foldl (hmac_canonical X) tip (concat (map (step_messages X) chain))"
  by (induction chain arbitrary: tip) (simp_all add: step_tip_messages)

lemma compute_mac_hex_messages:
  "chain \<noteq> [] \<Longrightarrow> compute_mac_hex X key r chain =
     hex_encode (foldl (hmac_canonical X) key (chain_messages X r chain))"
  by (simp add: compute_mac_hex_def compute_tip_def chain_messages_def foldl_step_tip)

lemma verify_mac_messages:
  "verify_mac X key g \<Longrightarrow> tg_caveat_mac g =
     hex_encode (foldl (hmac_canonical X) key (chain_messages X (root_of_grant g) (tg_chain g)))"
  by (auto simp: verify_mac_iff compute_mac_hex_messages dest: structural_nonempty)

section \<open>The reduction\<close>

text \<open>The HMAC calls a computation makes: key and message of each.\<close>

fun calls :: "ext \<Rightarrow> bytes \<Rightarrow> json list \<Rightarrow> (bytes \<times> bytes) list" where
  "calls X key [] = []"
| "calls X key (m # ms) =
     (key, str_bytes (canonical_json X m)) # calls X (hmac_canonical X key m) ms"

lemma calls_snoc:
  "calls X key (ms @ [m]) =
     calls X key ms @ [(foldl (hmac_canonical X) key ms, str_bytes (canonical_json X m))]"
  by (induction ms arbitrary: key) simp_all

definition hmac_collision :: "ext \<Rightarrow> (bytes \<times> bytes) set \<Rightarrow> (bytes \<times> bytes) set \<Rightarrow> bool" where
  "hmac_collision X A B \<longleftrightarrow>
     (\<exists>(k, m)\<in>A. \<exists>(k', m')\<in>B. (k, m) \<noteq> (k', m') \<and> hmac X k m = hmac X k' m')"

definition key_exposed :: "ext \<Rightarrow> bytes \<Rightarrow> (bytes \<times> bytes) set \<Rightarrow> bool" where
  "key_exposed X key A \<longleftrightarrow> (\<exists>(k, m)\<in>A. hmac X k m = key)"

lemma hmac_collision_mono:
  "hmac_collision X A B \<Longrightarrow> A \<subseteq> A' \<Longrightarrow> B \<subseteq> B' \<Longrightarrow> hmac_collision X A' B'"
  unfolding hmac_collision_def by blast

lemma key_exposed_mono: "key_exposed X key A \<Longrightarrow> A \<subseteq> A' \<Longrightarrow> key_exposed X key A'"
  unfolding key_exposed_def by blast

lemma str_bytes_inj: "str_bytes a = str_bytes b \<longleftrightarrow> a = b"
  unfolding str_bytes_def by (rule inj_map_eq_map) (simp add: inj_def of_char_u8_eq_iff)

lemma tip_binds:
  assumes "foldl (hmac_canonical X) key ms = foldl (hmac_canonical X) key ms'"
  shows "map (canonical_json X) ms = map (canonical_json X) ms' \<or>
    hmac_collision X (set (calls X key ms)) (set (calls X key ms')) \<or>
    key_exposed X key (set (calls X key ms) \<union> set (calls X key ms'))"
  using assms
proof (induction ms arbitrary: ms' rule: rev_induct)
  case Nil
  show ?case
  proof (cases ms' rule: rev_exhaust)
    case (snoc ns n)
    then have "hmac X (foldl (hmac_canonical X) key ns) (str_bytes (canonical_json X n)) = key"
      using Nil by (simp add: hmac_canonical_def [symmetric])
    then show ?thesis by (auto simp: snoc calls_snoc key_exposed_def)
  qed simp
next
  case (snoc m ms)
  show ?case
  proof (cases ms' rule: rev_exhaust)
    case Nil
    then have "hmac X (foldl (hmac_canonical X) key ms) (str_bytes (canonical_json X m)) = key"
      using snoc.prems by (simp add: hmac_canonical_def [symmetric])
    then show ?thesis by (auto simp: calls_snoc key_exposed_def)
  next
    case ms': (snoc ns n)
    let ?t = "foldl (hmac_canonical X) key ms" and ?u = "foldl (hmac_canonical X) key ns"
    have eq: "hmac X ?t (str_bytes (canonical_json X m)) = hmac X ?u (str_bytes (canonical_json X n))"
      using snoc.prems ms' by (simp add: hmac_canonical_def [symmetric])
    show ?thesis
    proof (cases "(?t, canonical_json X m) = (?u, canonical_json X n)")
      case True
      then have "map (canonical_json X) ms = map (canonical_json X) ns \<or>
          hmac_collision X (set (calls X key ms)) (set (calls X key ns)) \<or>
          key_exposed X key (set (calls X key ms) \<union> set (calls X key ns))"
        by (intro snoc.IH) simp
      then show ?thesis
      proof (elim disjE)
        assume "map (canonical_json X) ms = map (canonical_json X) ns"
        with True show ?thesis by (simp add: ms')
      next
        assume "hmac_collision X (set (calls X key ms)) (set (calls X key ns))"
        then have "hmac_collision X (set (calls X key (ms @ [m]))) (set (calls X key ms'))"
          by (rule hmac_collision_mono) (auto simp: ms' calls_snoc)
        then show ?thesis by blast
      next
        assume "key_exposed X key (set (calls X key ms) \<union> set (calls X key ns))"
        then have "key_exposed X key (set (calls X key (ms @ [m])) \<union> set (calls X key ms'))"
          by (rule key_exposed_mono) (auto simp: ms' calls_snoc)
        then show ?thesis by blast
      qed
    next
      case False
      then have "(?t, str_bytes (canonical_json X m)) \<noteq> (?u, str_bytes (canonical_json X n))"
        by (auto simp: str_bytes_inj)
      with eq show ?thesis by (auto simp: ms' calls_snoc hmac_collision_def)
    qed
  qed
qed

section \<open>Sealing a root grant\<close>

lemma seal_root_fields [simp]:
  "tg_id (seal_root X key g) = tg_id g" "tg_mode (seal_root X key g) = tg_mode g"
  "tg_selection_tokens (seal_root X key g) = tg_selection_tokens g"
  "tg_parent_grant_id (seal_root X key g) = None"
  "tg_root_grant_id (seal_root X key g) =
     (if tg_root_grant_id g = nil_ulid then tg_id g else tg_root_grant_id g)"
  "tg_allowed_actions (seal_root X key g) = tg_allowed_actions g"
  "tg_approval_required_actions (seal_root X key g) = tg_approval_required_actions g"
  "tg_denied_actions (seal_root X key g) = tg_denied_actions g"
  "tg_allowed_egress_classes (seal_root X key g) = tg_allowed_egress_classes g"
  "tg_output_channels (seal_root X key g) = tg_output_channels g"
  "tg_expires_at (seal_root X key g) = tg_expires_at g" "tg_user (seal_root X key g) = tg_user g"
  by (simp_all add: seal_root_def Let_def)

lemma seal_root_chain [simp]:
  "tg_chain (seal_root X key g) =
     [\<lparr>cs_grant_id = tg_id g, cs_parent_grant_id = None, cs_mode = tg_mode g,
       cs_selection_tokens = tg_selection_tokens g, cs_added_caveats = []\<rparr>]"
  by (simp add: seal_root_def Let_def)

lemma seal_root_caveats [simp]: "flattened_caveats (tg_chain (seal_root X key g)) = []"
  by (simp add: flattened_caveats_def)

lemma seal_root_mac:
  "tg_caveat_mac (seal_root X key g) =
     compute_mac_hex X key (root_of_grant (seal_root X key g)) (tg_chain (seal_root X key g))"
  by (simp add: seal_root_def Let_def root_of_grant_def)

lemma seal_root_structural:
  "chain_structurally_valid (seal_root X key g) \<longleftrightarrow>
     tg_id g \<noteq> nil_ulid \<and> (tg_root_grant_id g = nil_ulid \<or> tg_root_grant_id g = tg_id g)"
  by (auto simp: chain_structurally_valid_iff)

lemma seal_root_verifies:
  assumes "wf_ext X"
  shows "verify_mac X key (seal_root X key g) \<longleftrightarrow>
    tg_id g \<noteq> nil_ulid \<and> (tg_root_grant_id g = nil_ulid \<or> tg_root_grant_id g = tg_id g)"
proof -
  have "length (tg_caveat_mac (seal_root X key g)) = 64"
    using assms unfolding seal_root_mac
    by (simp add: compute_mac_hex_def compute_tip_def)
  then show ?thesis
    by (auto simp: verify_mac_iff seal_root_structural seal_root_mac [symmetric]
        simp del: seal_root_chain)
qed

lemma seal_root_authentic:
  assumes "wf_ext X" "tg_id g \<noteq> nil_ulid" "tg_root_grant_id g = nil_ulid"
    and "grant_hmac_key ctx = Some key"
  shows "authentic X (seal_root X key g) ctx"
  using assms by (simp add: authentic_def seal_root_verifies bound_pairs_def)

lemma seal_root_effective [simp]:
  "effectively_allows (seal_root X key g) a \<longleftrightarrow> a \<in> set (tg_allowed_actions g)"
  "effectively_approval_required (seal_root X key g) a \<longleftrightarrow> a \<in> set (tg_approval_required_actions g)"
  "effectively_allows_output_channel (seal_root X key g) ch \<longleftrightarrow> ch \<in> set (tg_output_channels g)"
  "effectively_allows_egress_class (seal_root X key g) cl \<longleftrightarrow> cl \<in> set (tg_allowed_egress_classes g)"
  "is_expired (seal_root X key g) now \<longleftrightarrow> tg_expires_at g \<le> now"
  by (simp_all add: action_axis.effective_iff approval_axis.effective_iff
      channel_axis.effective_iff egress_axis.effective_iff is_expired_iff del: seal_root_chain)

section \<open>Properties of the authenticated chain\<close>

text \<open>
  C3. A tag binds what it was computed over. If two grants verify under one key with the same
  tag, then their root commitments, caveats and hop bindings have the same canonical texts in
  the same order, or the two verifications contain an HMAC collision, or HMAC produced the key.
\<close>

theorem verified_tag_binds:
  assumes "verify_mac X key g" "verify_mac X key h" "tg_caveat_mac g = tg_caveat_mac h"
  shows "map (canonical_json X) (chain_messages X (root_of_grant g) (tg_chain g)) =
      map (canonical_json X) (chain_messages X (root_of_grant h) (tg_chain h)) \<or>
    hmac_collision X (set (calls X key (chain_messages X (root_of_grant g) (tg_chain g))))
      (set (calls X key (chain_messages X (root_of_grant h) (tg_chain h)))) \<or>
    key_exposed X key (set (calls X key (chain_messages X (root_of_grant g) (tg_chain g))) \<union>
      set (calls X key (chain_messages X (root_of_grant h) (tg_chain h))))"
  by (rule tip_binds, rule hex_encode_inj)
    (use assms verify_mac_messages in metis)

text \<open>
  Sealing a root grant makes it verify, exactly when it has an id and is its own root
  (or has none yet); a grant that names another root cannot be sealed into a verifying one.
\<close>

theorem seal_root_verifies_iff:
  assumes "wf_ext X"
  shows "verify_mac X key (seal_root X key g) \<longleftrightarrow>
    tg_id g \<noteq> nil_ulid \<and> (tg_root_grant_id g = nil_ulid \<or> tg_root_grant_id g = tg_id g)"
  by (rule seal_root_verifies [OF assms])

theorem verified_tag_binds_witness:
  "map (canonical_json ex_ext) (chain_messages ex_ext (root_of_grant ex_grant) (tg_chain ex_grant)) =
     map (canonical_json ex_ext) (chain_messages ex_ext (root_of_grant ex_grant) (tg_chain ex_grant)) \<or>
   hmac_collision ex_ext
     (set (calls ex_ext [] (chain_messages ex_ext (root_of_grant ex_grant) (tg_chain ex_grant))))
     (set (calls ex_ext [] (chain_messages ex_ext (root_of_grant ex_grant) (tg_chain ex_grant)))) \<or>
   key_exposed ex_ext []
     (set (calls ex_ext [] (chain_messages ex_ext (root_of_grant ex_grant) (tg_chain ex_grant))) \<union>
      set (calls ex_ext [] (chain_messages ex_ext (root_of_grant ex_grant) (tg_chain ex_grant))))"
  by (rule verified_tag_binds [OF ex_grant_verifies ex_grant_verifies refl])

theorem seal_root_verifies_iff_witness: "verify_mac ex_ext [1] (seal_root ex_ext [1] ex_unsealed)"
  unfolding seal_root_verifies_iff [OF wf_ex_ext] by (simp add: ex_unsealed_def)

end
