(* ===== verification/Workflow_Manifest.thy ===== *)
theory Workflow_Manifest
  imports Vocabulary
begin

text \<open>
  Workflow manifests (\<open>src/crates/openspine-schemas/src/workflow.rs\<close>): the declarative state
  machine, its validation, the Mermaid rendering and the tier lookup.

  \<open>wf_workflow\<close> says what validation accepts; \<open>validate_workflow_iff\<close> that it accepts exactly
  that. The rendering of a valid workflow determines its transitions (\<open>to_mermaid_inj\<close>).
\<close>

datatype reasoning_tier = Low | Standard | High

datatype approval_semantics = NoApproval | Required

datatype workflow_step_kind = Agentic | Deterministic

record workflow_step =
  wst_id :: string
  wst_kind :: workflow_step_kind
  wst_reasoning_tier :: reasoning_tier

record escalation_point =
  esc_id :: string
  esc_reason :: "string option"

record workflow_state =
  wss_id :: string
  wss_steps :: "workflow_step list"
  wss_approval :: approval_semantics
  wss_approval_action :: "action_id option"
  wss_escalation :: "escalation_point option"

record workflow_transition =
  wt_from :: string
  wt_to :: string
  wt_event :: "string option"

record workflow_manifest =
  wm_id :: artifact_id
  wm_schema_version :: u32
  wm_version :: u32
  wm_lifecycle_state :: lifecycle
  wm_purpose :: string
  wm_required_agent :: artifact_id
  wm_required_capability_pack :: artifact_id
  wm_steps :: "string list"
  wm_candidate_allowed_actions :: "action_id list"
  wm_approval_required :: "action_id list"
  wm_denied_actions :: "action_id list"
  wm_initial_state :: "string option"
  wm_states :: "workflow_state list"
  wm_transitions :: "workflow_transition list"

section \<open>Validation\<close>

text \<open>The two nested loops thread the sets of ids seen so far.\<close>

fun validate_steps :: "string set \<Rightarrow> workflow_step list \<Rightarrow> string + string set" where
  "validate_steps step_ids [] = Inr step_ids"
| "validate_steps step_ids (st # sts) =
     (if wst_id st = [] then Inl ''workflow step ids must not be empty''
      else if wst_id st \<in> step_ids
      then Inl (''duplicate workflow step id '' @ wst_id st @
                '' (step ids must be globally unique)'')
      else validate_steps (insert (wst_id st) step_ids) sts)"

fun validate_states ::
  "string set \<Rightarrow> string set \<Rightarrow> string set \<Rightarrow> workflow_state list \<Rightarrow>
     string + string set \<times> string set" where
  "validate_states state_ids step_ids approval_ids [] = Inr (state_ids, approval_ids)"
| "validate_states state_ids step_ids approval_ids (s # ss) =
     (if wss_id s = [] then Inl ''workflow state ids must not be empty''
      else if wss_id s \<in> state_ids then Inl (''duplicate workflow state id '' @ wss_id s)
      else (case validate_steps step_ids (wss_steps s) of
          Inl e \<Rightarrow> Inl e
        | Inr step_ids' \<Rightarrow>
            if wss_approval s = Required \<and> wss_approval_action s = None
            then Inl (''approval-required state '' @ wss_id s @ '' has no approval_action'')
            else validate_states (insert (wss_id s) state_ids) step_ids'
                   (if wss_approval s = Required then insert (wss_id s) approval_ids
                    else approval_ids) ss))"

definition has_mermaid_delimiter :: "string \<Rightarrow> bool" where
  "has_mermaid_delimiter event =
     list_ex (\<lambda>c. c = CHR ''|'' \<or> c = CHR 0x0A \<or> c = CHR 0x0D) event"

fun validate_transitions ::
  "string set \<Rightarrow> string set \<Rightarrow> workflow_transition list \<Rightarrow> string + unit" where
  "validate_transitions state_ids approval_ids [] = Inr ()"
| "validate_transitions state_ids approval_ids (t # ts) =
     (if wt_from t \<notin> state_ids \<or> wt_to t \<notin> state_ids
      then Inl (''transition '' @ wt_from t @ '' -> '' @ wt_to t @
                '' references an undeclared state'')
      else if (case wt_event t of Some event \<Rightarrow> has_mermaid_delimiter event | None \<Rightarrow> False)
      then Inl ''workflow transition events must not contain Mermaid delimiters or newlines''
      else if wt_from t \<in> approval_ids \<and> wt_to t \<in> approval_ids
      then Inl (''transition '' @ wt_from t @ '' -> '' @ wt_to t @
                '' cannot leave and enter approval-required states in one step'')
      else validate_transitions state_ids approval_ids ts)"

definition validate_workflow :: "workflow_manifest \<Rightarrow> string + unit" where
  "validate_workflow w =
     (case validate_states {} {} {} (wm_states w) of
        Inl e \<Rightarrow> Inl e
      | Inr (state_ids, approval_ids) \<Rightarrow>
          if wm_initial_state w = None \<and> (wm_states w \<noteq> [] \<or> wm_transitions w \<noteq> [])
          then Inl ''initial_state is required when a declarative workflow state machine is present''
          else (case wm_initial_state w of
              Some initial \<Rightarrow>
                if initial \<notin> state_ids then Inl (''initial state '' @ initial @ '' is not declared'')
                else validate_transitions state_ids approval_ids (wm_transitions w)
            | None \<Rightarrow> validate_transitions state_ids approval_ids (wm_transitions w)))"

section \<open>Rendering and lookup\<close>

definition is_ascii_alphanumeric :: "char \<Rightarrow> bool" where
  "is_ascii_alphanumeric c =
     (let n = (of_char c :: nat) in
      (48 \<le> n \<and> n \<le> 57) \<or> (65 \<le> n \<and> n \<le> 90) \<or> (97 \<le> n \<and> n \<le> 122))"

definition hex_upper :: string where
  "hex_upper = ''0123456789ABCDEF''"

definition mermaid_byte :: "char \<Rightarrow> string" where
  "mermaid_byte c =
     (if is_ascii_alphanumeric c then [c]
      else [CHR ''_'', hex_upper ! (of_char c div 16), hex_upper ! (of_char c mod 16)])"

definition mermaid_id :: "string \<Rightarrow> string" where
  "mermaid_id i = ''state_'' @ concat (map mermaid_byte i)"

definition mermaid_line :: "workflow_transition \<Rightarrow> string" where
  "mermaid_line t =
     ''    '' @ mermaid_id (wt_from t) @ '' -->|'' @
     (case wt_event t of Some event \<Rightarrow> event | None \<Rightarrow> ''transition'') @ ''| '' @
     mermaid_id (wt_to t) @ [CHR 0x0A]"

definition to_mermaid :: "workflow_manifest \<Rightarrow> string" where
  "to_mermaid w = ''flowchart TD'' @ [CHR 0x0A] @ concat (map mermaid_line (wm_transitions w))"

definition reasoning_tier_for_step :: "workflow_manifest \<Rightarrow> string \<Rightarrow> reasoning_tier" where
  "reasoning_tier_for_step w step_id =
     (case find (\<lambda>st. wst_id st = step_id) (concat (map wss_steps (wm_states w))) of
        Some st \<Rightarrow> wst_reasoning_tier st
      | None \<Rightarrow> Standard)"

section \<open>What validation accepts\<close>

definition all_steps :: "workflow_manifest \<Rightarrow> workflow_step list" where
  "all_steps w = concat (map wss_steps (wm_states w))"

definition approval_states :: "workflow_state list \<Rightarrow> string set" where
  "approval_states ss = {wss_id s | s. s \<in> set ss \<and> wss_approval s = Required}"

definition wf_states :: "workflow_state list \<Rightarrow> bool" where
  "wf_states ss \<longleftrightarrow>
     [] \<notin> set (map wss_id ss) \<and> distinct (map wss_id ss) \<and>
     [] \<notin> set (map wst_id (concat (map wss_steps ss))) \<and>
     distinct (map wst_id (concat (map wss_steps ss))) \<and>
     (\<forall>s\<in>set ss. wss_approval s = Required \<longrightarrow> wss_approval_action s \<noteq> None)"

definition wf_workflow :: "workflow_manifest \<Rightarrow> bool" where
  "wf_workflow w \<longleftrightarrow>
     wf_states (wm_states w) \<and>
     (wm_initial_state w = None \<longrightarrow> wm_states w = [] \<and> wm_transitions w = []) \<and>
     (\<forall>i. wm_initial_state w = Some i \<longrightarrow> i \<in> wss_id ` set (wm_states w)) \<and>
     (\<forall>t\<in>set (wm_transitions w).
        wt_from t \<in> wss_id ` set (wm_states w) \<and> wt_to t \<in> wss_id ` set (wm_states w) \<and>
        (\<forall>event. wt_event t = Some event \<longrightarrow> \<not> has_mermaid_delimiter event) \<and>
        \<not> (wt_from t \<in> approval_states (wm_states w) \<and> wt_to t \<in> approval_states (wm_states w)))"

lemma validate_steps_Inr:
  "validate_steps ids sts = Inr ids' \<longleftrightarrow>
     ids' = ids \<union> wst_id ` set sts \<and> [] \<notin> wst_id ` set sts \<and>
     distinct (map wst_id sts) \<and> wst_id ` set sts \<inter> ids = {}"
  by (induction ids sts rule: validate_steps.induct) auto

lemma approval_states_Cons:
  "approval_states (s # ss) =
     (if wss_approval s = Required then insert (wss_id s) (approval_states ss)
      else approval_states ss)"
  by (auto simp: approval_states_def)

lemma wf_states_Cons:
  "wf_states (s # ss) \<longleftrightarrow>
     wss_id s \<noteq> [] \<and> wss_id s \<notin> wss_id ` set ss \<and> [] \<notin> wst_id ` set (wss_steps s) \<and>
     distinct (map wst_id (wss_steps s)) \<and>
     wst_id ` set (wss_steps s) \<inter> wst_id ` set (concat (map wss_steps ss)) = {} \<and>
     (wss_approval s = Required \<longrightarrow> wss_approval_action s \<noteq> None) \<and> wf_states ss"
  by (auto simp: wf_states_def)

lemma validate_states_Inr:
  "validate_states S T A ss = Inr r \<longleftrightarrow>
     r = (S \<union> wss_id ` set ss, A \<union> approval_states ss) \<and> wf_states ss \<and>
     wss_id ` set ss \<inter> S = {} \<and> wst_id ` set (concat (map wss_steps ss)) \<inter> T = {}"
proof (induction S T A ss arbitrary: r rule: validate_states.induct)
  case (2 S T A s ss)
  show ?case
  proof (cases "validate_steps T (wss_steps s)")
    case (Inl e)
    then have "\<not> (\<exists>T'. validate_steps T (wss_steps s) = Inr T')" by simp
    then have "\<not> ([] \<notin> wst_id ` set (wss_steps s) \<and> distinct (map wst_id (wss_steps s)) \<and>
        wst_id ` set (wss_steps s) \<inter> T = {})"
      by (simp add: validate_steps_Inr)
    with Inl show ?thesis by (auto simp: wf_states_Cons)
  next
    case (Inr T')
    then have T': "T' = T \<union> wst_id ` set (wss_steps s)" "[] \<notin> wst_id ` set (wss_steps s)"
      "distinct (map wst_id (wss_steps s))" "wst_id ` set (wss_steps s) \<inter> T = {}"
      by (simp_all add: validate_steps_Inr)
    show ?thesis
    proof (cases "wss_id s = [] \<or> wss_id s \<in> S \<or> wss_approval s = Required \<and> wss_approval_action s = None")
      case True
      then show ?thesis using Inr by (auto simp: wf_states_Cons)
    next
      case False
      let ?A = "if wss_approval s = Required then insert (wss_id s) A else A"
      from False Inr have "validate_states S T A (s # ss) = Inr r \<longleftrightarrow>
          validate_states (insert (wss_id s) S) T' ?A ss = Inr r"
        by auto
      also have "\<dots> \<longleftrightarrow>
          r = (insert (wss_id s) S \<union> wss_id ` set ss, ?A \<union> approval_states ss) \<and> wf_states ss \<and>
          wss_id ` set ss \<inter> insert (wss_id s) S = {} \<and>
          wst_id ` set (concat (map wss_steps ss)) \<inter> T' = {}"
        using False by (intro 2 [OF _ _ Inr]) auto
      also have "?A \<union> approval_states ss = A \<union> approval_states (s # ss)"
        by (simp add: approval_states_Cons)
      also have "insert (wss_id s) S \<union> wss_id ` set ss = S \<union> wss_id ` set (s # ss)" by simp
      finally have step: "validate_states S T A (s # ss) = Inr r \<longleftrightarrow>
          r = (S \<union> wss_id ` set (s # ss), A \<union> approval_states (s # ss)) \<and> wf_states ss \<and>
          wss_id ` set ss \<inter> insert (wss_id s) S = {} \<and>
          wst_id ` set (concat (map wss_steps ss)) \<inter> T' = {}" .
      have ids: "wss_id ` set ss \<inter> insert (wss_id s) S = {} \<longleftrightarrow>
          wss_id s \<notin> wss_id ` set ss \<and> wss_id ` set (s # ss) \<inter> S = {}"
        using False by (simp add: Int_insert_right)
      have steps: "wst_id ` set (concat (map wss_steps ss)) \<inter> T' = {} \<longleftrightarrow>
          wst_id ` set (wss_steps s) \<inter> wst_id ` set (concat (map wss_steps ss)) = {} \<and>
          wst_id ` set (concat (map wss_steps (s # ss))) \<inter> T = {}"
        using T' by (simp add: image_Un Int_Un_distrib Int_Un_distrib2 Int_commute conj_commute)
      show ?thesis
        unfolding step ids steps wf_states_Cons using False T'(2,3) by argo
    qed
  qed
qed (auto simp: wf_states_def approval_states_def)

lemma validate_transitions_Inr:
  "validate_transitions S A ts = Inr () \<longleftrightarrow>
     (\<forall>t\<in>set ts. wt_from t \<in> S \<and> wt_to t \<in> S \<and>
        (\<forall>event. wt_event t = Some event \<longrightarrow> \<not> has_mermaid_delimiter event) \<and>
        \<not> (wt_from t \<in> A \<and> wt_to t \<in> A))"
  by (induction S A ts rule: validate_transitions.induct) (auto split: option.splits)

lemma validate_workflow_iff: "validate_workflow w = Inr () \<longleftrightarrow> wf_workflow w"
proof (cases "validate_states {} {} {} (wm_states w)")
  case (Inl e)
  then have "\<not> (\<exists>r. validate_states {} {} {} (wm_states w) = Inr r)" by simp
  then have "\<not> wf_states (wm_states w)" by (simp add: validate_states_Inr)
  with Inl show ?thesis by (simp add: validate_workflow_def wf_workflow_def)
next
  case (Inr r)
  then have r: "r = (wss_id ` set (wm_states w), approval_states (wm_states w))"
    "wf_states (wm_states w)" by (simp_all add: validate_states_Inr)
  show ?thesis
    using Inr r by (cases "wm_initial_state w")
      (auto simp: validate_workflow_def wf_workflow_def validate_transitions_Inr)
qed

section \<open>The rendering determines the transitions\<close>

lemma append_sep_eq:
  "c \<notin> set a \<Longrightarrow> c \<notin> set a' \<Longrightarrow> a @ c # b = a' @ c # b' \<longleftrightarrow> a = a' \<and> b = b'"
proof (induction a arbitrary: a')
  case Nil
  then show ?case by (cases a') auto
next
  case (Cons x a)
  then show ?case by (cases a') auto
qed

lemma hex_upper_inj: "m < 16 \<Longrightarrow> n < 16 \<Longrightarrow> hex_upper ! m = hex_upper ! n \<longleftrightarrow> m = n"
  by (rule nth_eq_iff_index_eq) (simp_all add: hex_upper_def)

lemma of_char_div_16: "(of_char c :: nat) div 16 < 16"
proof -
  have "(of_char c :: nat) < 256"
    by (metis of_char_mod_256 mod_less_divisor zero_less_numeral)
  then show ?thesis by (simp only: less_mult_imp_div_less)
qed

lemma of_char_parts:
  "(of_char c :: nat) div 16 = of_char d div 16 \<Longrightarrow> (of_char c :: nat) mod 16 = of_char d mod 16 \<Longrightarrow> c = d"
  by (metis div_mult_mod_eq of_char_eq_iff)

lemma underscore_not_alphanumeric: "\<not> is_ascii_alphanumeric (CHR ''_'')"
  by (simp add: is_ascii_alphanumeric_def)

lemma mermaid_byte_inj: "mermaid_byte c @ xs = mermaid_byte d @ ys \<Longrightarrow> c = d \<and> xs = ys"
  using underscore_not_alphanumeric of_char_parts [of c d]
  by (auto simp: mermaid_byte_def hex_upper_inj of_char_div_16 split: if_splits)

lemma mermaid_byte_nonempty: "mermaid_byte c \<noteq> []"
  by (simp add: mermaid_byte_def)

lemma concat_mermaid_byte_inj:
  "concat (map mermaid_byte a) = concat (map mermaid_byte b) \<Longrightarrow> a = b"
proof (induction a arbitrary: b)
  case Nil
  then show ?case by (cases b) (simp_all add: mermaid_byte_nonempty)
next
  case (Cons c a)
  then obtain d b' where b: "b = d # b'" by (cases b) (simp_all add: mermaid_byte_nonempty)
  with Cons.prems have "c = d \<and> concat (map mermaid_byte a) = concat (map mermaid_byte b')"
    by (intro mermaid_byte_inj) simp
  with Cons.IH b show ?case by blast
qed

lemma mermaid_id_inj: "mermaid_id a = mermaid_id b \<longleftrightarrow> a = b"
  by (auto simp: mermaid_id_def dest: concat_mermaid_byte_inj)

lemma hex_upper_alphanumeric: "n < 16 \<Longrightarrow> is_ascii_alphanumeric (hex_upper ! n)"
proof -
  have "\<forall>n\<in>set [0..<16]. is_ascii_alphanumeric (hex_upper ! n)" by code_simp
  then show "n < 16 \<Longrightarrow> ?thesis" by simp
qed

text \<open>Only letters, digits and the underscore occur in a rendered id.\<close>

lemma mermaid_id_chars:
  "c \<in> set (mermaid_id i) \<Longrightarrow> is_ascii_alphanumeric c \<or> c = CHR ''_''"
proof -
  assume c: "c \<in> set (mermaid_id i)"
  have "\<forall>c\<in>set (mermaid_byte d). is_ascii_alphanumeric c \<or> c = CHR ''_''" for d
    by (simp add: mermaid_byte_def hex_upper_alphanumeric of_char_div_16)
  moreover have "\<forall>c\<in>set ''state_''. is_ascii_alphanumeric c \<or> c = CHR ''_''"
    by (simp add: is_ascii_alphanumeric_def)
  ultimately show ?thesis using c unfolding mermaid_id_def by auto
qed

lemma mermaid_id_clean:
  "CHR '' '' \<notin> set (mermaid_id i)" "CHR ''|'' \<notin> set (mermaid_id i)"
  "CHR 0x0A \<notin> set (mermaid_id i)"
  using mermaid_id_chars [of "CHR '' ''" i] mermaid_id_chars [of "CHR ''|''" i]
    mermaid_id_chars [of "CHR 0x0A" i]
  by (auto simp: is_ascii_alphanumeric_def)

definition edge :: "workflow_transition \<Rightarrow> string \<times> string \<times> string" where
  "edge t = (wt_from t, (case wt_event t of Some event \<Rightarrow> event | None \<Rightarrow> ''transition''), wt_to t)"

lemma mermaid_line_edge:
  "edge t = (a, label, b) \<Longrightarrow>
     mermaid_line t = ''    '' @ mermaid_id a @ CHR '' '' # ''-->|'' @ label @ CHR ''|'' # '' '' @
       mermaid_id b @ CHR 0x0A # []"
  by (auto simp: edge_def mermaid_line_def)

lemma mermaid_line_split:
  assumes "CHR ''|'' \<notin> set (fst (snd (edge t)))" "CHR ''|'' \<notin> set (fst (snd (edge u)))"
    and eq: "mermaid_line t @ xs = mermaid_line u @ ys"
  shows "edge t = edge u \<and> xs = ys"
proof -
  obtain a l b where t: "edge t = (a, l, b)" by (cases "edge t")
  obtain a' l' b' where u: "edge u = (a', l', b')" by (cases "edge u")
  have "mermaid_id a @ CHR '' '' # (''-->|'' @ l @ CHR ''|'' # '' '' @ mermaid_id b @ CHR 0x0A # xs) =
      mermaid_id a' @ CHR '' '' # (''-->|'' @ l' @ CHR ''|'' # '' '' @ mermaid_id b' @ CHR 0x0A # ys)"
    using eq by (simp add: mermaid_line_edge [OF t] mermaid_line_edge [OF u])
  then have 1: "mermaid_id a = mermaid_id a'"
    and r1: "l @ CHR ''|'' # ('' '' @ mermaid_id b @ CHR 0x0A # xs) =
      l' @ CHR ''|'' # ('' '' @ mermaid_id b' @ CHR 0x0A # ys)"
    by (simp_all add: append_sep_eq mermaid_id_clean)
  from r1 have 2: "l = l'"
    and r2: "mermaid_id b @ CHR 0x0A # xs = mermaid_id b' @ CHR 0x0A # ys"
    using assms(1,2) t u by (simp_all add: append_sep_eq)
  from r2 have "mermaid_id b = mermaid_id b'" "xs = ys"
    by (simp_all add: append_sep_eq mermaid_id_clean)
  with 1 2 show ?thesis by (simp add: t u mermaid_id_inj)
qed

lemma mermaid_line_nonempty: "mermaid_line t \<noteq> []"
  by (simp add: mermaid_line_def)

lemma mermaid_lines_inj:
  assumes "\<forall>t\<in>set ts \<union> set us. CHR ''|'' \<notin> set (fst (snd (edge t)))"
    and "concat (map mermaid_line ts) = concat (map mermaid_line us)"
  shows "map edge ts = map edge us"
  using assms
proof (induction ts arbitrary: us)
  case Nil
  then show ?case by (cases us) (simp_all add: mermaid_line_nonempty)
next
  case (Cons t ts)
  then obtain u us' where us: "us = u # us'" by (cases us) (simp_all add: mermaid_line_nonempty)
  have "edge t = edge u \<and> concat (map mermaid_line ts) = concat (map mermaid_line us')"
    by (rule mermaid_line_split) (use Cons.prems us in simp_all)
  with Cons us show ?case by simp
qed

lemma wf_edge_clean:
  "wf_workflow w \<Longrightarrow> t \<in> set (wm_transitions w) \<Longrightarrow> CHR ''|'' \<notin> set (fst (snd (edge t)))"
  by (auto simp: wf_workflow_def edge_def has_mermaid_delimiter_def list_ex_iff split: option.splits)

lemma to_mermaid_inj:
  assumes "wf_workflow v" "wf_workflow w" "to_mermaid v = to_mermaid w"
  shows "map edge (wm_transitions v) = map edge (wm_transitions w)"
  by (rule mermaid_lines_inj) (use assms wf_edge_clean in \<open>auto simp: to_mermaid_def\<close>)

text \<open>In a valid workflow the tier lookup finds the declared step, wherever it is.\<close>

lemma reasoning_tier_declared:
  assumes "wf_workflow w" "st \<in> set (all_steps w)"
  shows "reasoning_tier_for_step w (wst_id st) = wst_reasoning_tier st"
proof -
  have inj: "inj_on wst_id (set (all_steps w))"
    using assms(1) by (simp add: wf_workflow_def wf_states_def all_steps_def distinct_map)
  have "find (\<lambda>x. wst_id x = wst_id st) (all_steps w) = Some st"
  proof (cases "find (\<lambda>x. wst_id x = wst_id st) (all_steps w)")
    case None
    then show ?thesis using assms(2) by (auto simp: find_None_iff)
  next
    case (Some x)
    then have "x \<in> set (all_steps w)" "wst_id x = wst_id st" by (auto simp: find_Some_iff)
    with Some assms(2) inj show ?thesis by (auto dest: inj_onD)
  qed
  then show ?thesis by (simp add: reasoning_tier_for_step_def all_steps_def)
qed

section \<open>Properties\<close>

text \<open>
  Validation of a workflow manifest accepts exactly the well-formed ones: non-empty
  distinct state ids, non-empty step ids distinct across all states, an approval action on
  every approval state, a declared initial state as soon as there is a machine, and
  transitions between declared states that carry no delimiter and do not lead from one
  approval state to another.
\<close>

theorem validate_workflow_exact: "validate_workflow w = Inr () \<longleftrightarrow> wf_workflow w"
  by (rule validate_workflow_iff)

text \<open>
  The Mermaid rendering of a valid workflow is faithful: two valid manifests with the same
  rendering have the same transitions in the same order, with the same labels.
\<close>

theorem to_mermaid_faithful:
  assumes "validate_workflow v = Inr ()" "validate_workflow w = Inr ()" "to_mermaid v = to_mermaid w"
  shows "map edge (wm_transitions v) = map edge (wm_transitions w)"
  by (rule to_mermaid_inj) (use assms in \<open>simp_all add: validate_workflow_iff\<close>)

text \<open>
  In a valid workflow the tier lookup by step id returns the tier the step declares, in
  whichever state the step stands; an unknown id gets the standard tier.
\<close>

theorem reasoning_tier_lookup:
  assumes "validate_workflow w = Inr ()"
  shows "(st \<in> set (all_steps w) \<longrightarrow> reasoning_tier_for_step w (wst_id st) = wst_reasoning_tier st) \<and>
    (i \<notin> wst_id ` set (all_steps w) \<longrightarrow> reasoning_tier_for_step w i = Standard)"
proof -
  have "find (\<lambda>st. wst_id st = i) (all_steps w) = None" if "i \<notin> wst_id ` set (all_steps w)"
    using that by (auto simp: find_None_iff)
  then show ?thesis
    using assms reasoning_tier_declared
    by (auto simp: validate_workflow_iff reasoning_tier_for_step_def all_steps_def)
qed

definition ex_workflow :: workflow_manifest where
  "ex_workflow =
     \<lparr>wm_id = ''w'', wm_schema_version = 1, wm_version = 1, wm_lifecycle_state = Active,
      wm_purpose = ''p'', wm_required_agent = ''a'', wm_required_capability_pack = ''c'',
      wm_steps = [], wm_candidate_allowed_actions = [ActionId ''openspine.status.read''],
      wm_approval_required = [], wm_denied_actions = [ActionId ''email.send''],
      wm_initial_state = Some ''received'',
      wm_states =
        [\<lparr>wss_id = ''received'',
          wss_steps = [\<lparr>wst_id = ''gather'', wst_kind = Deterministic, wst_reasoning_tier = Low\<rparr>],
          wss_approval = NoApproval, wss_approval_action = None, wss_escalation = None\<rparr>,
         \<lparr>wss_id = ''send'',
          wss_steps = [\<lparr>wst_id = ''compose'', wst_kind = Agentic, wst_reasoning_tier = High\<rparr>],
          wss_approval = Required, wss_approval_action = Some (ActionId ''telegram.reply''),
          wss_escalation = None\<rparr>],
      wm_transitions = [\<lparr>wt_from = ''received'', wt_to = ''send'', wt_event = Some ''ready''\<rparr>]\<rparr>"

lemma ex_workflow_valid: "validate_workflow ex_workflow = Inr ()"
  by code_simp

theorem to_mermaid_faithful_witness:
  "map edge (wm_transitions ex_workflow) = map edge (wm_transitions (ex_workflow\<lparr>wm_purpose := ''q''\<rparr>))"
  by (rule to_mermaid_faithful [OF ex_workflow_valid])
    (code_simp, simp add: to_mermaid_def)

theorem reasoning_tier_lookup_witness:
  "reasoning_tier_for_step ex_workflow ''unknown'' = Standard"
proof -
  have "''unknown'' \<notin> wst_id ` set (all_steps ex_workflow)" by (simp add: all_steps_def ex_workflow_def)
  with reasoning_tier_lookup [OF ex_workflow_valid] show ?thesis by blast
qed

end
