(* ===== verification/Composition.thy ===== *)
theory Composition
  imports Grant_Chain Artifacts Workflow_Manifest
begin

text \<open>
  Authority composition (\<open>src/crates/openspine-authority/src/compose.rs\<close>) and the projection of
  a grant onto tool descriptors (\<open>project_catalog.rs\<close>).

  The fresh grant id and the 32 random bytes of the task token are arguments. The addition
  of the runtime limit to the issue time panics past the largest timestamp, so the result is
  a sum with \<open>panic\<close> on the left. \<open>composed\<close> is the declarative content of a granted
  authority, \<open>compose_authority_Granted\<close> says that a grant carries exactly that.
\<close>

section \<open>Formatting\<close>

fun dec_str :: "nat \<Rightarrow> string" where
  "dec_str n =
     (if n < 10 then [char_of (48 + n)] else dec_str (n div 10) @ [char_of (48 + n mod 10)])"

declare dec_str.simps [simp del]

fun lifecycle_debug :: "lifecycle \<Rightarrow> string" where
  "lifecycle_debug Proposed = ''Proposed''"
| "lifecycle_debug Validated = ''Validated''"
| "lifecycle_debug ReviewRequired = ''ReviewRequired''"
| "lifecycle_debug Approved = ''Approved''"
| "lifecycle_debug Active = ''Active''"
| "lifecycle_debug Quarantined = ''Quarantined''"
| "lifecycle_debug Retired = ''Retired''"

fun classification_debug :: "data_classification \<Rightarrow> string" where
  "classification_debug Private = ''Private''"
| "classification_debug Internal = ''Internal''"
| "classification_debug Public = ''Public''"
| "classification_debug Unknown_classification = ''Unknown''"

section \<open>The merge\<close>

record authority_input =
  in_event :: event_envelope
  in_identity :: identity_resolution
  in_route :: route
  in_global_policy :: policy
  in_agent :: agent_manifest
  in_workflow :: workflow_manifest
  in_pack :: capability_pack
  in_session :: session_policy
  in_principal_id :: ulid
  in_purpose :: string

datatype authority_outcome =
    Granted task_grant
  | Denied string
  | UnknownActionId action_id string
  | Ambiguous string

fun classification_rank :: "data_classification \<Rightarrow> u8" where
  "classification_rank Public = 0"
| "classification_rank Internal = 1"
| "classification_rank Private = 2"
| "classification_rank Unknown_classification = 3"

definition narrow :: "action_id set \<Rightarrow> action_id list \<Rightarrow> action_id set" where
  "narrow candidate policy_allow =
     (if policy_allow = [] then candidate else Set.filter (\<lambda>a. a \<in> set policy_allow) candidate)"

definition mint_task_token :: "bytes \<Rightarrow> string" where
  "mint_task_token random = hex_encode random"

definition candidate_sources :: "authority_input \<Rightarrow> (action_id list \<times> string) list" where
  "candidate_sources i =
     [(ag_designed_tools (in_agent i), ''agent.designed_tools''),
      (ag_approval_required_tools (in_agent i), ''agent.approval_required_tools''),
      (ag_denied_tools (in_agent i), ''agent.denied_tools''),
      (wm_candidate_allowed_actions (in_workflow i), ''workflow.candidate_allowed_actions''),
      (wm_approval_required (in_workflow i), ''workflow.approval_required''),
      (wm_denied_actions (in_workflow i), ''workflow.denied_actions''),
      (cp_candidate_allowed_actions (in_pack i), ''pack.candidate_allowed_actions''),
      (cp_approval_required (in_pack i), ''pack.approval_required''),
      (cp_denied_actions (in_pack i), ''pack.denied_actions''),
      (po_candidate_allowed_actions (in_global_policy i), ''global_policy.candidate_allowed_actions''),
      (po_approval_required (in_global_policy i), ''global_policy.approval_required''),
      (po_denied_actions (in_global_policy i), ''global_policy.denied_actions''),
      (sp_candidate_allowed_actions (in_session i), ''session.candidate_allowed_actions''),
      (sp_approval_required (in_session i), ''session.approval_required''),
      (sp_denied_actions (in_session i), ''session.denied_actions'')]"

fun first_unknown :: "action_catalog \<Rightarrow> (action_id list \<times> string) list \<Rightarrow> (action_id \<times> string) option" where
  "first_unknown catalog [] = None"
| "first_unknown catalog ((ids, label) # rest) =
     (case find (\<lambda>cand. \<not> catalog_contains catalog cand) ids of
        Some cand \<Rightarrow> Some (cand, label)
      | None \<Rightarrow> first_unknown catalog rest)"

definition unknown_candidate :: "authority_input \<Rightarrow> action_catalog \<Rightarrow> (action_id \<times> string) option" where
  "unknown_candidate i catalog = first_unknown catalog (candidate_sources i)"

fun first_inactive :: "(string \<times> lifecycle) list \<Rightarrow> string option" where
  "first_inactive [] = None"
| "first_inactive ((kind, l) # rest) =
     (if l \<noteq> Active
      then Some (kind @ '' is not active (lifecycle_state='' @ lifecycle_debug l @ '')'')
      else first_inactive rest)"

definition gathered_allow :: "authority_input \<Rightarrow> action_id set" where
  "gathered_allow i =
     narrow (narrow (set (ag_designed_tools (in_agent i)) \<union>
                     set (wm_candidate_allowed_actions (in_workflow i)) \<union>
                     set (cp_candidate_allowed_actions (in_pack i)))
               (po_candidate_allowed_actions (in_global_policy i)))
       (sp_candidate_allowed_actions (in_session i))"

definition gathered_deny :: "authority_input \<Rightarrow> action_id set" where
  "gathered_deny i =
     set (ag_denied_tools (in_agent i)) \<union> set (wm_denied_actions (in_workflow i)) \<union>
     set (cp_denied_actions (in_pack i)) \<union> set (po_denied_actions (in_global_policy i)) \<union>
     set (sp_denied_actions (in_session i))"

definition gathered_approval :: "authority_input \<Rightarrow> action_id set" where
  "gathered_approval i =
     set (ag_approval_required_tools (in_agent i)) \<union> set (wm_approval_required (in_workflow i)) \<union>
     set (cp_approval_required (in_pack i)) \<union> set (po_approval_required (in_global_policy i)) \<union>
     set (sp_approval_required (in_session i))"

definition runtime_limit :: "authority_input \<Rightarrow> u64" where
  "runtime_limit i =
     (case co_max_runtime_seconds (cp_constraints (in_pack i)) of
        Some pack_limit \<Rightarrow> min pack_limit (al_max_runtime_seconds (ag_limits (in_agent i)))
      | None \<Rightarrow> al_max_runtime_seconds (ag_limits (in_agent i)))"

definition authority_sources :: "authority_input \<Rightarrow> string list" where
  "authority_sources i =
     [''global_policy:v'' @ dec_str (unat (po_version (in_global_policy i))),
      ''route:'' @ ro_id (in_route i) @ '':v'' @ dec_str (unat (ro_version (in_route i))),
      ''agent:'' @ ag_id (in_agent i) @ '':v'' @ dec_str (unat (ag_version (in_agent i))),
      ''workflow:'' @ wm_id (in_workflow i) @ '':v'' @ dec_str (unat (wm_version (in_workflow i))),
      ''capability_pack:'' @ cp_id (in_pack i) @ '':v'' @ dec_str (unat (cp_version (in_pack i)))]"

text \<open>Step 4 of the merge: the reason to deny, when the event is too sensitive for the pack.\<close>

definition classification_denial :: "authority_input \<Rightarrow> string option" where
  "classification_denial i =
     (case co_data_classification_max (cp_constraints (in_pack i)) of
        Some mx \<Rightarrow>
          if classification_rank (ev_data_classification (in_event i)) > classification_rank mx
          then Some (''event data classification '' @
                 classification_debug (ev_data_classification (in_event i)) @
                 '' exceeds pack maximum '' @ classification_debug mx)
          else None
      | None \<Rightarrow> None)"

text \<open>Steps 7 and 8: a deny beats everything, approval-required beats a plain allow.\<close>

definition merged_approval :: "authority_input \<Rightarrow> action_id set" where
  "merged_approval i = Set.filter (\<lambda>a. a \<notin> gathered_deny i) (gathered_approval i)"

definition merged_allow :: "authority_input \<Rightarrow> action_id set" where
  "merged_allow i =
     Set.filter (\<lambda>a. a \<notin> gathered_deny i \<and> a \<notin> merged_approval i) (gathered_allow i)"

definition composed_grant ::
  "authority_input \<Rightarrow> timestamp \<Rightarrow> timestamp \<Rightarrow> ulid \<Rightarrow> bytes \<Rightarrow> task_grant" where
  "composed_grant i issued_at expires_at fresh random =
     \<lparr>tg_id = fresh, tg_schema_version = 1, tg_lifecycle_state = Active,
      tg_user = PrincipalId (in_principal_id i), tg_purpose = in_purpose i,
      tg_issued_by = ''kernel'', tg_issued_at = issued_at, tg_expires_at = expires_at,
      tg_event_id = ev_id (in_event i), tg_route_id = ro_id (in_route i),
      tg_agent_id = ag_id (in_agent i), tg_workflow_id = wm_id (in_workflow i),
      tg_capability_pack_id = cp_id (in_pack i), tg_authority_sources = authority_sources i,
      tg_selection_tokens = [], tg_allowed_actions = sorted_list_of_set (merged_allow i),
      tg_approval_required_actions = sorted_list_of_set (merged_approval i),
      tg_denied_actions = sorted_list_of_set (gathered_deny i),
      tg_allowed_egress_classes = cp_allowed_egress_classes (in_pack i),
      tg_output_channels = remdups_adj (sort (oc_allowed (ag_output_channels (in_agent i)))),
      tg_limits = \<lparr>gl_max_model_calls = mp_max_model_calls_per_task (ag_model_policy (in_agent i)),
        gl_max_artifacts = al_max_artifacts (ag_limits (in_agent i)),
        gl_max_runtime_seconds = runtime_limit i\<rparr>,
      tg_task_token = mint_task_token random, tg_root_grant_id = nil_ulid,
      tg_parent_grant_id = None, tg_mode = Live, tg_chain = [], tg_caveat_mac = [],
      tg_thread_id = None, tg_persona_id = None\<rparr>"

definition compose_authority ::
  "ext \<Rightarrow> authority_input \<Rightarrow> action_catalog \<Rightarrow> timestamp \<Rightarrow> ulid \<Rightarrow> bytes \<Rightarrow>
     panic + authority_outcome" where
  "compose_authority X i catalog now fresh random =
     (case first_inactive
         [(''route'', ro_lifecycle_state (in_route i)), (''agent'', ag_lifecycle_state (in_agent i)),
          (''workflow'', wm_lifecycle_state (in_workflow i)),
          (''capability_pack'', cp_lifecycle_state (in_pack i)),
          (''global_policy'', po_lifecycle_state (in_global_policy i))] of
        Some reason \<Rightarrow> Inr (Denied reason)
      | None \<Rightarrow>
      if ro_effect (in_route i) = Deny_route
      then Inr (Denied (''route '' @ ro_id (in_route i) @ '' is a deny route''))
      else if rw_verified_source (ro_when (in_route i)) = Some True \<and>
        \<not> (ev_verified_source (in_event i) \<and> ir_source_verified (in_identity i))
      then Inr (Denied ''route requires a verified source, but the event/identity is not verified'')
      else (case unknown_candidate i catalog of
        Some (unknown_id, label) \<Rightarrow> Inr (UnknownActionId unknown_id label)
      | None \<Rightarrow>
      (case classification_denial i of
        Some reason \<Rightarrow> Inr (Denied reason)
      | None \<Rightarrow>
      (case ts_add_secs X now (runtime_limit i) of
        Inl p \<Rightarrow> Inl p
      | Inr expires_at \<Rightarrow> Inr (Granted (composed_grant i now expires_at fresh random))))))"

section \<open>Projection onto tools\<close>

datatype catalog_entry_status = Callable | RequiresOwnerApproval

record catalog_entry =
  ce_action_id :: action_id
  ce_descriptor :: tool_descriptor
  ce_status :: catalog_entry_status

fun project_list ::
  "action_id list \<Rightarrow> catalog_entry_status \<Rightarrow> action_catalog \<Rightarrow> catalog_entry list \<Rightarrow> catalog_entry list" where
  "project_list [] status catalog entries = entries"
| "project_list (a # ids) status catalog entries =
     (case tool_descriptor_for catalog a of
        Some descriptor \<Rightarrow>
          project_list ids status catalog
            (entries @ [\<lparr>ce_action_id = a, ce_descriptor = descriptor, ce_status = status\<rparr>])
      | None \<Rightarrow> project_list ids status catalog entries)"

definition project_catalog :: "task_grant \<Rightarrow> action_catalog \<Rightarrow> catalog_entry list" where
  "project_catalog g catalog =
     project_list (tg_approval_required_actions g) RequiresOwnerApproval catalog
       (project_list (tg_allowed_actions g) Callable catalog [])"

section \<open>What is granted\<close>

definition composable :: "authority_input \<Rightarrow> action_catalog \<Rightarrow> bool" where
  "composable i catalog \<longleftrightarrow>
     ro_lifecycle_state (in_route i) = Active \<and> ag_lifecycle_state (in_agent i) = Active \<and>
     wm_lifecycle_state (in_workflow i) = Active \<and> cp_lifecycle_state (in_pack i) = Active \<and>
     po_lifecycle_state (in_global_policy i) = Active \<and>
     ro_effect (in_route i) = Allow_route \<and>
     (rw_verified_source (ro_when (in_route i)) = Some True \<longrightarrow>
        ev_verified_source (in_event i) \<and> ir_source_verified (in_identity i)) \<and>
     (\<forall>(ids, label)\<in>set (candidate_sources i). \<forall>a\<in>set ids. catalog_contains catalog a) \<and>
     (\<forall>mx. co_data_classification_max (cp_constraints (in_pack i)) = Some mx \<longrightarrow>
        classification_rank (ev_data_classification (in_event i)) \<le> classification_rank mx)"

lemma first_inactive_None [simp]:
  "first_inactive rows = None \<longleftrightarrow> (\<forall>(kind, l)\<in>set rows. l = Active)"
  by (induction rows rule: first_inactive.induct) auto

lemma first_unknown_None [simp]:
  "first_unknown catalog rows = None \<longleftrightarrow> (\<forall>(ids, label)\<in>set rows. \<forall>a\<in>set ids. catalog_contains catalog a)"
proof (induction catalog rows rule: first_unknown.induct)
  case (2 catalog ids label rest)
  show ?case
  proof (cases "find (\<lambda>cand. \<not> catalog_contains catalog cand) ids")
    case None
    then have "\<forall>a\<in>set ids. catalog_contains catalog a" by (simp add: find_None_iff)
    with None 2 [OF None] show ?thesis by simp
  next
    case (Some x)
    then have "x \<in> set ids" "\<not> catalog_contains catalog x" by (auto simp: find_Some_iff)
    with Some show ?thesis by auto
  qed
qed simp

lemma first_unknown_Some:
  "first_unknown catalog rows = Some (a, label) \<Longrightarrow>
     \<not> catalog_contains catalog a \<and> (\<exists>ids. (ids, label) \<in> set rows \<and> a \<in> set ids)"
  by (induction catalog rows rule: first_unknown.induct)
    (auto simp: find_Some_iff split: option.splits)

lemma classification_denial_None:
  "classification_denial i = None \<longleftrightarrow>
     (\<forall>mx. co_data_classification_max (cp_constraints (in_pack i)) = Some mx \<longrightarrow>
        classification_rank (ev_data_classification (in_event i)) \<le> classification_rank mx)"
  by (auto simp: classification_denial_def not_less split: option.splits)

lemma compose_authority_composable:
  assumes "composable i catalog"
  shows "compose_authority X i catalog now fresh random =
    (case ts_add_secs X now (runtime_limit i) of
       Inl p \<Rightarrow> Inl p
     | Inr expires_at \<Rightarrow> Inr (Granted (composed_grant i now expires_at fresh random)))"
proof -
  have "unknown_candidate i catalog = None"
    using assms by (simp add: unknown_candidate_def composable_def)
  moreover have "classification_denial i = None"
    using assms by (simp add: classification_denial_None composable_def)
  ultimately show ?thesis
    using assms by (auto simp: compose_authority_def composable_def)
qed

lemma compose_authority_Granted:
  "compose_authority X i catalog now fresh random = Inr (Granted g) \<longleftrightarrow>
     composable i catalog \<and>
     (\<exists>expires_at. ts_add_secs X now (runtime_limit i) = Inr expires_at \<and>
        g = composed_grant i now expires_at fresh random)"
proof (cases "composable i catalog")
  case True
  then show ?thesis
    by (auto simp: compose_authority_composable split: sum.splits)
next
  case False
  have "compose_authority X i catalog now fresh random \<noteq> Inr (Granted g)"
  proof
    assume *: "compose_authority X i catalog now fresh random = Inr (Granted g)"
    then have "unknown_candidate i catalog = None" "classification_denial i = None"
      "ro_effect (in_route i) = Allow_route"
      by (auto simp: compose_authority_def split: option.splits if_splits
          intro: route_effect.exhaust)
    with * False show False
      by (auto simp: compose_authority_def composable_def unknown_candidate_def
          classification_denial_None split: option.splits if_splits)
  qed
  with False show ?thesis by blast
qed

lemma finite_gathered [simp]:
  "finite (gathered_allow i)" "finite (gathered_deny i)" "finite (gathered_approval i)"
  by (simp_all add: gathered_allow_def gathered_deny_def gathered_approval_def narrow_def)

lemma finite_merged [simp]: "finite (merged_allow i)" "finite (merged_approval i)"
  by (simp_all add: merged_allow_def merged_approval_def)

lemma merged_iff:
  "a \<in> merged_approval i \<longleftrightarrow> a \<in> gathered_approval i \<and> a \<notin> gathered_deny i"
  "a \<in> merged_allow i \<longleftrightarrow>
     a \<in> gathered_allow i \<and> a \<notin> gathered_deny i \<and> a \<notin> gathered_approval i"
  by (auto simp: merged_approval_def merged_allow_def)

lemma composed_grant_lists [simp]:
  "set (tg_allowed_actions (composed_grant i now t fresh random)) = merged_allow i"
  "set (tg_approval_required_actions (composed_grant i now t fresh random)) = merged_approval i"
  "set (tg_denied_actions (composed_grant i now t fresh random)) = gathered_deny i"
  by (simp_all add: composed_grant_def)

lemma composed_grant_fields [simp]:
  "tg_id (composed_grant i now t fresh random) = fresh"
  "tg_root_grant_id (composed_grant i now t fresh random) = nil_ulid"
  "tg_expires_at (composed_grant i now t fresh random) = t"
  "tg_mode (composed_grant i now t fresh random) = Live"
  "tg_chain (composed_grant i now t fresh random) = []"
  "tg_selection_tokens (composed_grant i now t fresh random) = []"
  "tg_user (composed_grant i now t fresh random) = PrincipalId (in_principal_id i)"
  by (simp_all add: composed_grant_def)

lemma gathered_in_catalog:
  assumes "composable i catalog" "a \<in> gathered_allow i \<union> gathered_approval i \<union> gathered_deny i"
  shows "catalog_contains catalog a"
proof -
  have "\<exists>(ids, label)\<in>set (candidate_sources i). a \<in> set ids"
    using assms(2)
    by (auto simp: candidate_sources_def gathered_allow_def gathered_approval_def gathered_deny_def
        narrow_def split: if_splits)
  with assms(1) show ?thesis by (auto simp: composable_def)
qed

lemma gathered_allow_bounded:
  "a \<in> gathered_allow i \<Longrightarrow>
     (a \<in> set (ag_designed_tools (in_agent i)) \<or> a \<in> set (wm_candidate_allowed_actions (in_workflow i)) \<or>
      a \<in> set (cp_candidate_allowed_actions (in_pack i))) \<and>
     (po_candidate_allowed_actions (in_global_policy i) \<noteq> [] \<longrightarrow>
        a \<in> set (po_candidate_allowed_actions (in_global_policy i))) \<and>
     (sp_candidate_allowed_actions (in_session i) \<noteq> [] \<longrightarrow>
        a \<in> set (sp_candidate_allowed_actions (in_session i)))"
  by (auto simp: gathered_allow_def narrow_def split: if_splits)

text \<open>The projection emits exactly the listed actions that have a descriptor.\<close>

lemma project_list_eq:
  "project_list ids status catalog entries =
     entries @ concat (map (\<lambda>a. case tool_descriptor_for catalog a of
         Some d \<Rightarrow> [\<lparr>ce_action_id = a, ce_descriptor = d, ce_status = status\<rparr>] | None \<Rightarrow> []) ids)"
  by (induction ids status catalog entries rule: project_list.induct) (auto split: option.splits)

lemma project_catalog_iff:
  "e \<in> set (project_catalog g catalog) \<longleftrightarrow>
     tool_descriptor_for catalog (ce_action_id e) = Some (ce_descriptor e) \<and>
     ce_action_id e \<in> set (case ce_status e of Callable \<Rightarrow> tg_allowed_actions g
       | RequiresOwnerApproval \<Rightarrow> tg_approval_required_actions g)"
  by (cases e, cases "ce_status e")
    (auto simp: project_catalog_def project_list_eq split: option.splits)

section \<open>Properties\<close>

text \<open>
  C32. Composition grants exactly when it may. It returns a grant if and only if every artifact
  is active, the route allows, a required verification is present, every named action is
  catalogued, the event's classification is within the pack's maximum and the expiry is
  representable; the grant expires exactly the effective runtime limit after its issue.
\<close>

theorem compose_grants_exactly:
  "(\<exists>g. compose_authority X i catalog now fresh random = Inr (Granted g)) \<longleftrightarrow>
     composable i catalog \<and> now + 1000000000 * int (unat (runtime_limit i)) \<le> ts_max X"
  by (auto simp: compose_authority_Granted ts_add_secs_def Let_def)

text \<open>
  The three lists of a composed grant. Denied actions are those any source denies; approval
  is required for those some source requires it for and none denies; allowed are those some
  source offers, both policies let through, and no source denies or puts under approval. The
  lists are strictly sorted, pairwise disjoint and within the catalog.
\<close>

theorem composed_lists:
  assumes "compose_authority X i catalog now fresh random = Inr (Granted g)"
  shows "set (tg_denied_actions g) = gathered_deny i \<and>
    set (tg_approval_required_actions g) = gathered_approval i - gathered_deny i \<and>
    set (tg_allowed_actions g) = gathered_allow i - gathered_approval i - gathered_deny i \<and>
    (\<forall>l\<in>{tg_denied_actions g, tg_approval_required_actions g, tg_allowed_actions g}.
       sorted_wrt (<) l \<and> (\<forall>a\<in>set l. catalog_contains catalog a))"
proof -
  have c: "composable i catalog"
    and g: "\<exists>e. g = composed_grant i now e fresh random"
    using assms by (auto simp: compose_authority_Granted)
  have sets: "set (tg_denied_actions g) = gathered_deny i"
    "set (tg_approval_required_actions g) = gathered_approval i - gathered_deny i"
    "set (tg_allowed_actions g) = gathered_allow i - gathered_approval i - gathered_deny i"
    using g by (auto simp: merged_iff)
  have "sorted_wrt (<) l" if "l \<in> {tg_denied_actions g, tg_approval_required_actions g,
      tg_allowed_actions g}" for l
    using that g by (auto simp: composed_grant_def)
  with sets gathered_in_catalog [OF c] show ?thesis by auto
qed

text \<open>
  The tool projection shows exactly the actions of the two granting lists that carry a
  descriptor, each with the status of its list; for a composed grant it shows no action that
  any source denies.
\<close>

theorem projection_exact:
  "(e \<in> set (project_catalog g catalog) \<longleftrightarrow>
      tool_descriptor_for catalog (ce_action_id e) = Some (ce_descriptor e) \<and>
      ce_action_id e \<in> set (case ce_status e of Callable \<Rightarrow> tg_allowed_actions g
        | RequiresOwnerApproval \<Rightarrow> tg_approval_required_actions g)) \<and>
   (compose_authority X i cat' now fresh random = Inr (Granted g) \<longrightarrow>
      e \<in> set (project_catalog g catalog) \<longrightarrow> ce_action_id e \<notin> gathered_deny i)"
  by (cases "ce_status e")
    (auto simp: project_catalog_iff compose_authority_Granted merged_iff)

subsection \<open>Instances\<close>

definition ex_agent :: agent_manifest where
  "ex_agent =
     \<lparr>ag_id = ''a'', ag_schema_version = 1, ag_version = 1, ag_lifecycle_state = Active,
      ag_purpose = ''p'', ag_persistence = Persistent, ag_persona = ''x'',
      ag_model_policy = \<lparr>mp_allowed_providers = [Local], mp_private_context_requires_gateway = True,
        mp_max_model_calls_per_task = 8\<rparr>,
      ag_memory_scope = \<lparr>ms_allowed_classes = [], ms_allowed_scopes = [], ms_denied_classes = []\<rparr>,
      ag_designed_tools = [ex_read, ex_send], ag_approval_required_tools = [ex_enable],
      ag_denied_tools = [],
      ag_limits = \<lparr>al_max_runtime_seconds = 120, al_max_artifacts = 20, al_max_tokens = 12000\<rparr>,
      ag_output_channels = \<lparr>oc_allowed = [''telegram.owner.reply'']\<rparr>\<rparr>"

definition ex_constraints :: constraints where
  "ex_constraints = \<lparr>co_data_classification_max = Some Private, co_external_visibility_max = None,
     co_external_communication_is_instruction = None, co_recovery_required = None,
     co_max_runtime_seconds = Some 60\<rparr>"

definition ex_input :: authority_input where
  "ex_input =
     \<lparr>in_event = ex_event, in_identity = ex_identity, in_route = ex_route ''r'' 1,
      in_global_policy = \<lparr>po_id = ''g'', po_schema_version = 1, po_version = 1,
        po_lifecycle_state = Active, po_candidate_allowed_actions = [], po_approval_required = [],
        po_denied_actions = [ex_send], po_constraints = ex_constraints\<rparr>,
      in_agent = ex_agent, in_workflow = ex_workflow,
      in_pack = \<lparr>cp_id = ''c'', cp_schema_version = 1, cp_version = 1, cp_lifecycle_state = Active,
        cp_applies_to = \<lparr>at_event_type = None, at_connector = None, at_account_role = None,
          at_relationship = None, at_channel_trust = None, at_verified_source = None,
          at_lane = None\<rparr>,
        cp_candidate_allowed_actions = [], cp_approval_required = [], cp_denied_actions = [],
        cp_allowed_egress_classes = [], cp_constraints = ex_constraints\<rparr>,
      in_session = \<lparr>sp_schema_version = 1, sp_candidate_allowed_actions = [],
        sp_approval_required = [], sp_denied_actions = [], sp_constraints = ex_constraints\<rparr>,
      in_principal_id = 3, in_purpose = ''p''\<rparr>"

definition ex_universe :: action_catalog where
  "ex_universe = with_egress_declarations
     [(ex_read, \<lparr>ed_output_channels = None, ed_egress_class = None\<rparr>),
      (ex_enable, \<lparr>ed_output_channels = None, ed_egress_class = None\<rparr>),
      (ex_send, \<lparr>ed_output_channels = None, ed_egress_class = None\<rparr>)]
     (catalog_new [ex_read, ex_enable, ex_send])"

lemmas ex_input_defs =
  ex_input_def ex_event_def ex_identity_def ex_route_def ex_when_def ex_agent_def
  ex_workflow_def ex_constraints_def

lemma ex_composable: "composable ex_input ex_universe"
  by (auto simp: composable_def ex_input_defs candidate_sources_def ex_universe_def catalog_new_def
      with_egress_declarations_def catalog_contains_def ex_read_def ex_send_def)

lemma ex_runtime: "runtime_limit ex_input = 60"
  by (simp add: runtime_limit_def ex_input_defs)

lemma ex_composed:
  "compose_authority ex_ext ex_input ex_universe 0 7 [] =
     Inr (Granted (composed_grant ex_input 0 60000000000 7 []))"
  by (simp add: compose_authority_composable [OF ex_composable] ts_add_secs_def ex_runtime ex_ext_def)

theorem composed_lists_witness:
  "set (tg_denied_actions (composed_grant ex_input 0 60000000000 7 [])) = gathered_deny ex_input"
  using composed_lists [OF ex_composed] by blast

definition ex_entry :: catalog_entry where
  "ex_entry = \<lparr>ce_action_id = ex_read,
     ce_descriptor = \<lparr>td_name = ''n'', td_description = ''d'', td_parameters_schema = JNull,
       td_approval_required = False, td_selection_token_required = False\<rparr>,
     ce_status = Callable\<rparr>"

theorem projection_exact_witness:
  "ce_action_id ex_entry \<notin> gathered_deny ex_input"
proof -
  let ?cat = "with_tool_descriptors [(ex_read, ce_descriptor ex_entry)] ex_universe"
  have "gathered_allow ex_input = {ex_read, ex_send}" "ex_read \<notin> gathered_approval ex_input"
    "ex_read \<notin> gathered_deny ex_input"
    by (auto simp: gathered_allow_def gathered_approval_def gathered_deny_def narrow_def
        ex_input_defs ex_read_def ex_send_def ex_enable_def)
  then have "ex_read \<in> merged_allow ex_input" by (simp add: merged_iff)
  then have "ex_entry \<in> set (project_catalog (composed_grant ex_input 0 60000000000 7 []) ?cat)"
    unfolding project_catalog_iff
    by (simp add: ex_entry_def tool_descriptor_for_def with_tool_descriptors_def hashmap_collect_def)
  then show ?thesis using projection_exact ex_composed by blast
qed

end
