(* ===== verification/Equivalence.thy ===== *)
theory Equivalence
  imports Composition "HOL-Library.Product_Lexorder"
begin

text \<open>
  Authority-equivalence classes (\<open>src/crates/openspine-authority/src/equivalence.rs\<close>).

  A \<open>BTreeMap\<close> is its entries in key order; \<open>btree_push\<close> is
  \<open>entry(k).or_insert_with(Vec::new).push(v)\<close>. \<open>AuthorityClassId\<close> implements \<open>Ord\<close> by a chain
  of \<open>then_with\<close>; \<open>class_cmp\<close> is that chain and the order of the type is read from it.
\<close>

section \<open>Class identities\<close>

datatype ordering = Less | Equal | Greater

definition cmp_of :: "'a::linorder \<Rightarrow> 'a \<Rightarrow> ordering" where
  "cmp_of x y = (if x < y then Less else if x = y then Equal else Greater)"

fun then_with :: "ordering \<Rightarrow> ordering \<Rightarrow> ordering" where
  "then_with Equal b = b"
| "then_with a b = a"

datatype authority_class_id = AuthorityClassId
  (ci_allowed_actions: "action_id list")
  (ci_approval_required_actions: "action_id list")
  (ci_denied_actions: "action_id list")
  (ci_output_channels: "string list")
  (ci_limits: grant_limits)

definition class_cmp :: "authority_class_id \<Rightarrow> authority_class_id \<Rightarrow> ordering" where
  "class_cmp a b =
     then_with (then_with (then_with (then_with (then_with (then_with
       (cmp_of (ci_allowed_actions a) (ci_allowed_actions b))
       (cmp_of (ci_approval_required_actions a) (ci_approval_required_actions b)))
       (cmp_of (ci_denied_actions a) (ci_denied_actions b)))
       (cmp_of (ci_output_channels a) (ci_output_channels b)))
       (cmp_of (gl_max_model_calls (ci_limits a)) (gl_max_model_calls (ci_limits b))))
       (cmp_of (gl_max_artifacts (ci_limits a)) (gl_max_artifacts (ci_limits b))))
       (cmp_of (gl_max_runtime_seconds (ci_limits a)) (gl_max_runtime_seconds (ci_limits b)))"

text \<open>The chain of comparisons is the lexicographic order of the tuple of fields.\<close>

definition class_key where
  "class_key c = (ci_allowed_actions c, ci_approval_required_actions c, ci_denied_actions c,
     ci_output_channels c, gl_max_model_calls (ci_limits c), gl_max_artifacts (ci_limits c),
     gl_max_runtime_seconds (ci_limits c))"

lemma then_with_assoc: "then_with (then_with a b) c = then_with a (then_with b c)"
  by (cases a) auto

lemma cmp_of_Pair: "cmp_of (a, b) (c, d) = then_with (cmp_of a c) (cmp_of b d)"
  by (auto simp: cmp_of_def less_prod_def)

lemma class_cmp_key: "class_cmp a b = cmp_of (class_key a) (class_key b)"
  by (simp add: class_cmp_def class_key_def cmp_of_Pair then_with_assoc)

lemma class_key_inj: "class_key a = class_key b \<longleftrightarrow> a = b"
  by (cases a; cases b) (auto simp: class_key_def intro: grant_limits.equality)

lemma cmp_of_iff:
  "cmp_of x y = Less \<longleftrightarrow> x < y" "cmp_of x y = Greater \<longleftrightarrow> y < x" "cmp_of x y = Equal \<longleftrightarrow> x = y"
  by (auto simp: cmp_of_def)

instantiation authority_class_id :: linorder
begin

definition less_authority_class_id :: "authority_class_id \<Rightarrow> authority_class_id \<Rightarrow> bool" where
  "less_authority_class_id a b \<longleftrightarrow> class_cmp a b = Less"

definition less_eq_authority_class_id :: "authority_class_id \<Rightarrow> authority_class_id \<Rightarrow> bool" where
  "less_eq_authority_class_id a b \<longleftrightarrow> class_cmp a b \<noteq> Greater"

instance
  by standard
    (auto simp: less_authority_class_id_def less_eq_authority_class_id_def class_cmp_key cmp_of_iff
      not_less class_key_inj [symmetric])

end

definition canonical_list :: "'a::linorder list \<Rightarrow> 'a list" where
  "canonical_list xs = remdups_adj (sort xs)"

definition from_grant :: "task_grant \<Rightarrow> authority_class_id" where
  "from_grant g = AuthorityClassId (canonical_list (tg_allowed_actions g))
     (canonical_list (tg_approval_required_actions g)) (canonical_list (tg_denied_actions g))
     (canonical_list (tg_output_channels g)) (tg_limits g)"

section \<open>Candidates and classes\<close>

record 'v authority_candidate =
  ca_id :: string
  ca_grant :: task_grant
  ca_value :: 'v
  ca_class_id :: authority_class_id

type_synonym 'v classes = "(authority_class_id \<times> 'v authority_candidate list) list"

datatype equivalence_error = DuplicateCandidateId string | CompositionDenied string

definition from_composed_grant :: "string \<Rightarrow> task_grant \<Rightarrow> 'v \<Rightarrow> 'v authority_candidate" where
  "from_composed_grant i g v = \<lparr>ca_id = i, ca_grant = g, ca_value = v, ca_class_id = from_grant g\<rparr>"

fun btree_push :: "'k::linorder \<Rightarrow> 'v \<Rightarrow> ('k \<times> 'v list) list \<Rightarrow> ('k \<times> 'v list) list" where
  "btree_push k v [] = [(k, [v])]"
| "btree_push k v ((k', vs) # m) =
     (if k < k' then (k, [v]) # (k', vs) # m
      else if k = k' then (k', vs @ [v]) # m
      else (k', vs) # btree_push k v m)"

fun adjacent_duplicate :: "'v authority_candidate list \<Rightarrow> string option" where
  "adjacent_duplicate (a # b # cs) =
     (if ca_id a = ca_id b then Some (ca_id a) else adjacent_duplicate (b # cs))"
| "adjacent_duplicate _ = None"

definition from_candidates :: "'v authority_candidate list \<Rightarrow> equivalence_error + 'v classes" where
  "from_candidates cands =
     (let sorted_cands = sort_key ca_id cands in
      case adjacent_duplicate sorted_cands of
        Some i \<Rightarrow> Inl (DuplicateCandidateId i)
      | None \<Rightarrow> Inr (foldl (\<lambda>m c. btree_push (ca_class_id c) c m) [] sorted_cands))"

text \<open>Each input brings the fresh id and the random bytes its composition draws.\<close>

fun compose_candidates ::
  "ext \<Rightarrow> action_catalog \<Rightarrow> timestamp \<Rightarrow> (string \<times> authority_input \<times> 'v \<times> ulid \<times> bytes) list \<Rightarrow>
     panic + (equivalence_error + 'v authority_candidate list)" where
  "compose_candidates X catalog now [] = Inr (Inr [])"
| "compose_candidates X catalog now ((i, inp, v, fresh, random) # rest) =
     (case compose_authority X inp catalog now fresh random of
        Inl p \<Rightarrow> Inl p
      | Inr (Granted g) \<Rightarrow>
          (case compose_candidates X catalog now rest of
             Inl p \<Rightarrow> Inl p
           | Inr (Inl e) \<Rightarrow> Inr (Inl e)
           | Inr (Inr cs) \<Rightarrow> Inr (Inr (from_composed_grant i g v # cs)))
      | Inr _ \<Rightarrow> Inr (Inl (CompositionDenied i)))"

definition compose_all ::
  "ext \<Rightarrow> action_catalog \<Rightarrow> timestamp \<Rightarrow> (string \<times> authority_input \<times> 'v \<times> ulid \<times> bytes) list \<Rightarrow>
     panic + (equivalence_error + 'v classes)" where
  "compose_all X catalog now inputs =
     (case compose_candidates X catalog now inputs of
        Inl p \<Rightarrow> Inl p
      | Inr (Inl e) \<Rightarrow> Inr (Inl e)
      | Inr (Inr cs) \<Rightarrow> Inr (from_candidates cs))"

datatype 'v class_resolution =
    NoMatch
  | Selected authority_class_id "'v authority_candidate list"
  | Escalate "authority_class_id list"

definition resolve_classes :: "'v classes \<Rightarrow> authority_class_id list \<Rightarrow> 'v class_resolution" where
  "resolve_classes classes matching =
     (let known = canonical_list (filter (\<lambda>i. map_of classes i \<noteq> None) matching) in
      case known of
        [] \<Rightarrow> NoMatch
      | [i] \<Rightarrow> (case map_of classes i of None \<Rightarrow> NoMatch | Some members \<Rightarrow> Selected i members)
      | _ \<Rightarrow> Escalate known)"

definition select_within_class ::
  "authority_class_id \<Rightarrow> 'v authority_candidate list \<Rightarrow>
     (authority_class_id \<Rightarrow> 'v authority_candidate list \<Rightarrow> nat option) \<Rightarrow>
     (authority_class_id \<times> 'v authority_candidate) option" where
  "select_within_class i members chooser =
     (case chooser i members of
        None \<Rightarrow> None
      | Some index \<Rightarrow> if index < length members then Some (i, members ! index) else None)"

section \<open>Grouping\<close>

text \<open>What the grouping loop relies on: pushing under a key appends to that key only.\<close>

locale grouping =
  fixes empty_map :: 'm
    and push :: "'k \<Rightarrow> 'c \<Rightarrow> 'm \<Rightarrow> 'm"
    and members :: "'m \<Rightarrow> 'k \<Rightarrow> 'c list"
    and ok :: "'m \<Rightarrow> bool"
  assumes ok_empty: "ok empty_map"
    and ok_push: "ok m \<Longrightarrow> ok (push k c m)"
    and members_empty: "members empty_map k = []"
    and members_push:
      "ok m \<Longrightarrow> members (push k c m) k' = (if k = k' then members m k' @ [c] else members m k')"
begin

definition group_by :: "('c \<Rightarrow> 'k) \<Rightarrow> 'c list \<Rightarrow> 'm" where
  "group_by f cs = foldl (\<lambda>m c. push (f c) c m) empty_map cs"

lemma ok_foldl: "ok m \<Longrightarrow> ok (foldl (\<lambda>m c. push (f c) c m) m cs)"
  by (induction cs arbitrary: m) (simp_all add: ok_push)

lemma members_foldl:
  "ok m \<Longrightarrow> members (foldl (\<lambda>m c. push (f c) c m) m cs) k =
     members m k @ filter (\<lambda>c. f c = k) cs"
  by (induction cs arbitrary: m) (simp_all add: ok_push members_push)

lemma ok_group: "ok (group_by f cs)"
  by (simp add: group_by_def ok_foldl ok_empty)

lemma members_group: "members (group_by f cs) k = filter (\<lambda>c. f c = k) cs"
  by (simp add: group_by_def members_foldl ok_empty members_empty)

end

definition btree_members :: "('k \<times> 'v list) list \<Rightarrow> 'k \<Rightarrow> 'v list" where
  "btree_members m k = (case map_of m k of None \<Rightarrow> [] | Some vs \<Rightarrow> vs)"

definition btree_ok :: "('k::linorder \<times> 'v list) list \<Rightarrow> bool" where
  "btree_ok m \<longleftrightarrow> sorted_wrt (<) (map fst m) \<and> [] \<notin> snd ` set m"

lemma fst_btree_push: "fst ` set (btree_push k v m) = insert k (fst ` set m)"
  by (induction k v m rule: btree_push.induct) auto

lemma btree_ok_push: "btree_ok m \<Longrightarrow> btree_ok (btree_push k v m)"
proof (induction k v m rule: btree_push.induct)
  case (2 k v k' vs m)
  have tail: "btree_ok m" "\<forall>x\<in>fst ` set m. k' < x" "vs \<noteq> []"
    using 2(2) by (auto simp: btree_ok_def)
  consider "k < k'" | "k = k'" | "k' < k" by fastforce
  then show ?case
  proof cases
    case 1
    with 2(2) tail show ?thesis by (auto simp: btree_ok_def intro: less_trans)
  next
    case 2
    then show ?thesis using tail \<open>btree_ok ((k', vs) # m)\<close> by (auto simp: btree_ok_def)
  next
    case 3
    then have "btree_ok (btree_push k v m)" using 2 tail by auto
    moreover have "\<forall>x\<in>fst ` set (btree_push k v m). k' < x"
      using 3 tail by (simp add: fst_btree_push)
    ultimately show ?thesis using 3 tail by (auto simp: btree_ok_def)
  qed
qed (simp add: btree_ok_def)

lemma map_of_btree_push:
  "sorted_wrt (<) (map fst m) \<Longrightarrow>
     map_of (btree_push k v m) k' =
       (if k' = k then Some (btree_members m k @ [v]) else map_of m k')"
proof (induction k v m rule: btree_push.induct)
  case (2 k v k1 vs m)
  consider "k < k1" | "k = k1" | "k1 < k" by fastforce
  then show ?case
  proof cases
    case 1
    with 2(2) have "k \<notin> fst ` set ((k1, vs) # m)" by auto
    then have "map_of ((k1, vs) # m) k = None" by (simp only: map_of_eq_None_iff) simp
    with 1 show ?thesis by (simp add: btree_members_def)
  next
    case 3
    then show ?thesis using 2 by (auto simp: btree_members_def)
  qed (auto simp: btree_members_def)
qed (simp add: btree_members_def)

interpretation btree: grouping "[]" btree_push btree_members btree_ok
proof unfold_locales
  show "btree_ok []" by (simp add: btree_ok_def)
  show "btree_ok m \<Longrightarrow> btree_ok (btree_push k c m)" for m k c by (rule btree_ok_push)
  show "btree_members [] k = []" for k by (simp add: btree_members_def)
  show "btree_ok m \<Longrightarrow> btree_members (btree_push k c m) k' =
      (if k = k' then btree_members m k' @ [c] else btree_members m k')" for m k c k'
    by (simp add: btree_ok_def btree_members_def [of "btree_push k c m"] map_of_btree_push
        btree_members_def [of m k'])
qed

lemma btree_member_iff:
  assumes "btree_ok m"
  shows "map_of m k = Some vs \<longleftrightarrow> vs = btree_members m k \<and> vs \<noteq> []"
proof -
  have "[] \<notin> snd ` set m" using assms by (simp add: btree_ok_def)
  then have "map_of m k \<noteq> Some []" by (metis image_eqI map_of_SomeD snd_conv)
  then show ?thesis by (auto simp: btree_members_def split: option.splits)
qed

section \<open>Classes\<close>

lemma adjacent_duplicate_Some:
  "adjacent_duplicate cs = Some i \<Longrightarrow> 2 \<le> length (filter (\<lambda>c. ca_id c = i) cs)"
  by (induction cs rule: adjacent_duplicate.induct) (auto split: if_splits)

lemma adjacent_duplicate_None:
  "sorted (map ca_id cs) \<Longrightarrow> adjacent_duplicate cs = None \<longleftrightarrow> distinct (map ca_id cs)"
proof (induction cs rule: adjacent_duplicate.induct)
  case (1 a b cs)
  then show ?case by (cases "ca_id a = ca_id b") fastforce+
qed auto

lemma from_candidates_Inr:
  "from_candidates cands = Inr classes \<longleftrightarrow>
     distinct (map ca_id cands) \<and> classes = btree.group_by ca_class_id (sort_key ca_id cands)"
proof -
  have "adjacent_duplicate (sort_key ca_id cands) = None \<longleftrightarrow> distinct (map ca_id (sort_key ca_id cands))"
    by (rule adjacent_duplicate_None) simp
  also have "\<dots> \<longleftrightarrow> distinct (map ca_id cands)"
    by (metis mset_eq_imp_distinct_iff mset_map mset_sort)
  finally show ?thesis
    by (auto simp: from_candidates_def Let_def btree.group_by_def split: option.splits)
qed

lemma from_candidates_Inl:
  assumes "from_candidates cands = Inl e"
  shows "\<exists>i. e = DuplicateCandidateId i \<and> 2 \<le> length (filter (\<lambda>c. ca_id c = i) cands)"
proof -
  from assms obtain i where "adjacent_duplicate (sort_key ca_id cands) = Some i"
    "e = DuplicateCandidateId i"
    by (auto simp: from_candidates_def Let_def split: option.splits)
  with adjacent_duplicate_Some [of "sort_key ca_id cands" i] show ?thesis
    by (simp add: filter_sort)
qed

text \<open>The members of a class are the candidates whose projection is its key, in id order.\<close>

lemma class_members:
  assumes "from_candidates cands = Inr classes"
  shows "map_of classes k = Some ms \<longleftrightarrow>
    ms = filter (\<lambda>c. ca_class_id c = k) (sort_key ca_id cands) \<and> ms \<noteq> []"
  using assms btree_member_iff [OF btree.ok_group] by (auto simp: from_candidates_Inr btree.members_group)

lemma from_candidates_perm:
  assumes "mset cands = mset cands'" "distinct (map ca_id cands)"
  shows "from_candidates cands = from_candidates cands'"
  using sort_key_unique [OF assms] by (simp add: from_candidates_def)

lemma resolve_classes_Selected:
  "resolve_classes classes matching = Selected i ms \<Longrightarrow>
     map_of classes i = Some ms \<and> set (filter (\<lambda>i. map_of classes i \<noteq> None) matching) = {i}"
proof -
  let ?F = "filter (\<lambda>i. map_of classes i \<noteq> None) matching"
  assume "resolve_classes classes matching = Selected i ms"
  then have "canonical_list ?F = [i]" "map_of classes i = Some ms"
    by (auto simp: resolve_classes_def Let_def split: list.splits option.splits)
  moreover have "set (canonical_list ?F) = set ?F" by (simp only: canonical_list_def remdups_adj_set set_sort)
  ultimately show ?thesis by simp
qed

lemma select_within_class_member:
  "select_within_class i ms chooser = Some (j, c) \<Longrightarrow> j = i \<and> c \<in> set ms"
  by (auto simp: select_within_class_def split: option.splits if_splits)

text \<open>Every composed candidate carries the projection of its own composed grant.\<close>

lemma compose_candidates_sound:
  assumes "compose_candidates X catalog now inputs = Inr (Inr cs)" "c \<in> set cs"
  shows "ca_class_id c = from_grant (ca_grant c) \<and>
    (\<exists>inp v fresh random. (ca_id c, inp, v, fresh, random) \<in> set inputs \<and>
       compose_authority X inp catalog now fresh random = Inr (Granted (ca_grant c)))"
  using assms
proof (induction X catalog now inputs arbitrary: cs rule: compose_candidates.induct)
  case (2 X catalog now i inp v fresh random rest)
  from 2(2) obtain g cs' where g: "compose_authority X inp catalog now fresh random = Inr (Granted g)"
    and rest: "compose_candidates X catalog now rest = Inr (Inr cs')"
    and cs: "cs = from_composed_grant i g v # cs'"
    by (auto split: sum.splits authority_outcome.splits)
  show ?case
  proof (cases "c = from_composed_grant i g v")
    case True
    then have "ca_class_id c = from_grant (ca_grant c)" "ca_id c = i" "ca_grant c = g"
      by (simp_all add: from_composed_grant_def)
    with g show ?thesis by auto
  next
    case False
    then have "c \<in> set cs'" using 2(3) cs by simp
    from 2(1) [OF g refl rest this] show ?thesis by auto
  qed
qed simp

lemma compose_all_sound:
  assumes "compose_all X catalog now inputs = Inr (Inr classes)"
  obtains cs where "from_candidates cs = Inr classes"
    "compose_candidates X catalog now inputs = Inr (Inr cs)"
  using assms by (auto simp: compose_all_def split: sum.splits)

section \<open>Properties\<close>

text \<open>
  The classes partition the candidates: keys are strictly increasing, every class is the
  non-empty list, in id order, of the candidates that project onto its key, and every candidate
  is in a class.
\<close>

theorem classes_partition:
  assumes "from_candidates cands = Inr classes"
  shows "sorted_wrt (<) (map fst classes) \<and>
    (\<forall>(k, ms)\<in>set classes. ms \<noteq> [] \<and> ms = filter (\<lambda>c. ca_class_id c = k) (sort_key ca_id cands)) \<and>
    \<Union> (set ` snd ` set classes) = set cands"
proof -
  have ok: "btree_ok classes" using assms btree.ok_group by (auto simp: from_candidates_Inr)
  then have sorted: "sorted_wrt (<) (map fst classes)" by (simp add: btree_ok_def)
  then have dist: "distinct (map fst classes)" by (simp add: strict_sorted_iff)
  have mem: "(k, ms) \<in> set classes \<longleftrightarrow>
      ms = filter (\<lambda>c. ca_class_id c = k) (sort_key ca_id cands) \<and> ms \<noteq> []" for k ms
    using class_members [OF assms, of k ms] dist by (simp add: map_of_eq_Some_iff)
  have "c \<in> set cands \<longleftrightarrow> (\<exists>(k, ms)\<in>set classes. c \<in> set ms)" for c
  proof
    assume "c \<in> set cands"
    let ?ms = "filter (\<lambda>d. ca_class_id d = ca_class_id c) (sort_key ca_id cands)"
    have "c \<in> set ?ms" using \<open>c \<in> set cands\<close> by simp
    moreover from this have "?ms \<noteq> []" by (metis empty_iff list.set(1))
    then have "(ca_class_id c, ?ms) \<in> set classes" using mem by blast
    ultimately show "\<exists>(k, ms)\<in>set classes. c \<in> set ms" by blast
  next
    assume "\<exists>(k, ms)\<in>set classes. c \<in> set ms"
    then show "c \<in> set cands" using mem by auto
  qed
  then have "\<Union> (set ` snd ` set classes) = set cands" by force
  then show ?thesis using sorted mem by blast
qed

text \<open>
  Semantic selection never crosses authority. Whatever the chooser answers, a member
  selected from composed classes has as its class the only known class among the requested
  ones, and that class is the projection of a grant the kernel composed for it.
\<close>

theorem selection_stays_in_class:
  assumes "compose_all X catalog now inputs = Inr (Inr classes)"
    and "resolve_classes classes matching = Selected i ms"
    and "select_within_class i ms chooser = Some (j, c)"
  shows "j = i \<and> from_grant (ca_grant c) = i \<and>
    set (filter (\<lambda>k. map_of classes k \<noteq> None) matching) = {i} \<and>
    (\<exists>inp v fresh random. (ca_id c, inp, v, fresh, random) \<in> set inputs \<and>
       compose_authority X inp catalog now fresh random = Inr (Granted (ca_grant c)))"
proof -
  obtain cs where cs: "from_candidates cs = Inr classes"
    "compose_candidates X catalog now inputs = Inr (Inr cs)"
    using compose_all_sound [OF assms(1)] .
  have sel: "j = i" "c \<in> set ms" using select_within_class_member [OF assms(3)] by auto
  have res: "map_of classes i = Some ms"
    "set (filter (\<lambda>k. map_of classes k \<noteq> None) matching) = {i}"
    using resolve_classes_Selected [OF assms(2)] by auto
  have "ca_class_id c = i" "c \<in> set cs"
    using res(1) sel(2) class_members [OF cs(1)] by auto
  with compose_candidates_sound [OF cs(2)] sel res show ?thesis by metis
qed

text \<open>
  The class collection does not depend on the order in which the candidates arrive.
\<close>

theorem classes_order_irrelevant:
  assumes "from_candidates cands = Inr classes" "mset cands' = mset cands"
  shows "from_candidates cands' = Inr classes"
proof -
  have "distinct (map ca_id cands)" using assms(1) by (simp add: from_candidates_Inr)
  with from_candidates_perm [of cands cands'] assms show ?thesis by simp
qed

subsection \<open>Instances\<close>

definition ex_candidate :: "string \<Rightarrow> nat authority_candidate" where
  "ex_candidate i = from_composed_grant i (composed_grant ex_input 0 60000000000 7 []) 0"

definition ex_classes :: "nat classes" where
  "ex_classes =
     [(from_grant (composed_grant ex_input 0 60000000000 7 []), [ex_candidate ''a'', ex_candidate ''b''])]"

lemma ex_from_candidates:
  "from_candidates [ex_candidate ''b'', ex_candidate ''a''] = Inr ex_classes"
  by (simp add: from_candidates_def ex_candidate_def from_composed_grant_def ex_classes_def)

lemma ex_compose_all:
  "compose_all ex_ext ex_universe 0 [(''b'', ex_input, 0, 7, []), (''a'', ex_input, 0, 7, [])] =
     Inr (Inr ex_classes)"
  using ex_from_candidates by (simp add: compose_all_def ex_composed ex_candidate_def)

theorem classes_partition_witness: "sorted_wrt (<) (map fst ex_classes)"
  using classes_partition [OF ex_from_candidates] by blast

theorem classes_order_irrelevant_witness:
  "from_candidates [ex_candidate ''a'', ex_candidate ''b''] = Inr ex_classes"
  by (rule classes_order_irrelevant [OF ex_from_candidates]) (simp add: add_mset_commute)

theorem selection_stays_in_class_witness:
  "from_grant (ca_grant (ex_candidate ''b'')) = from_grant (composed_grant ex_input 0 60000000000 7 [])"
proof -
  let ?k = "from_grant (composed_grant ex_input 0 60000000000 7 [])"
  let ?ms = "[ex_candidate ''a'', ex_candidate ''b'']"
  have "resolve_classes ex_classes [?k] = Selected ?k ?ms"
    by (simp add: resolve_classes_def canonical_list_def ex_classes_def)
  moreover have "select_within_class ?k ?ms (\<lambda>_ _. Some 1) = Some (?k, ex_candidate ''b'')"
    by (simp add: select_within_class_def)
  ultimately show ?thesis using selection_stays_in_class [OF ex_compose_all] by blast
qed

end
