(* ===== verification/Routing.thy ===== *)
theory Routing
  imports Artifacts
begin

text \<open>
  Route resolution (\<open>src/crates/openspine-authority/src/route.rs\<close>) and persona binding
  (\<open>persona_binding.rs\<close>).

  \<open>prevails\<close> is the declarative order on matching routes: a higher explicit priority, then a
  higher specificity. \<open>resolve_route_Success_iff\<close> says that a route is chosen exactly when it
  is the only maximum by id; \<open>resolve_route_set\<close> that the order of the registry is irrelevant.
\<close>

section \<open>Matching and resolution\<close>

definition low_authority_triage :: artifact_id where
  "low_authority_triage = ''low_authority_triage''"

definition route_matches ::
  "event_envelope \<Rightarrow> identity_resolution \<Rightarrow> relationship_kind option \<Rightarrow> route \<Rightarrow> bool" where
  "route_matches event identity relationship r =
     (let w = ro_when r in
      if (case rw_source w of Some s \<Rightarrow> ev_source event \<noteq> s | None \<Rightarrow> False) then False
      else if (case rw_event_type w of Some t \<Rightarrow> ev_event_type event \<noteq> t | None \<Rightarrow> False) then False
      else if (case rw_verified_source w of Some v \<Rightarrow> ev_verified_source event \<noteq> v | None \<Rightarrow> False)
      then False
      else if (case rw_lane w of Some l \<Rightarrow> ev_lane event \<noteq> l | None \<Rightarrow> False) then False
      else if (case rw_connector w of Some c \<Rightarrow> ev_connector event \<noteq> Some c | None \<Rightarrow> False) then False
      else if (case rw_account_role w of Some a \<Rightarrow> ev_account_role event \<noteq> Some a | None \<Rightarrow> False)
      then False
      else if (case rw_channel_account w of
                 Some wanted \<Rightarrow> ev_channel_account event \<noteq> wanted | None \<Rightarrow> False) then False
      else (case rw_actor w of
          None \<Rightarrow> True
        | Some actor \<Rightarrow>
            if (case raw_relationship actor of
                  Some wanted \<Rightarrow> relationship \<noteq> Some wanted | None \<Rightarrow> False) then False
            else if (case raw_channel_trust actor of
                  Some wanted \<Rightarrow> ir_channel_trust identity \<noteq> wanted | None \<Rightarrow> False) then False
            else if (case raw_identity_confidence_min actor of
                  Some mn \<Rightarrow> f64_less (ir_confidence identity) mn | None \<Rightarrow> False) then False
            else True))"

definition candidates ::
  "event_envelope \<Rightarrow> identity_resolution \<Rightarrow> relationship_kind option \<Rightarrow> route list \<Rightarrow> route list" where
  "candidates event identity relationship routes =
     filter (route_matches event identity relationship)
       (filter (\<lambda>r. ro_lifecycle_state r = Active) routes)"

definition by_priority :: "route list \<Rightarrow> route list" where
  "by_priority cands =
     (case iter_max (List.map_filter ro_priority cands) of
        Some p \<Rightarrow> filter (\<lambda>r. ro_priority r = Some p) cands
      | None \<Rightarrow> cands)"

definition winners :: "route list \<Rightarrow> route list" where
  "winners cands =
     (let bp = by_priority cands;
          max_specificity =
            (case iter_max (map (\<lambda>r. specificity (ro_when r)) bp) of Some m \<Rightarrow> m | None \<Rightarrow> 0)
      in dedup_key ro_id
           (sort_key ro_id (filter (\<lambda>r. specificity (ro_when r) = max_specificity) bp)))"

definition resolve_route ::
  "event_envelope \<Rightarrow> identity_resolution \<Rightarrow> relationship_kind option \<Rightarrow> route list \<Rightarrow>
     route_resolution" where
  "resolve_route event identity relationship routes =
     (let cands = candidates event identity relationship routes in
      if cands = [] then Denied_route ''no active route matched the event''
      else (case find (\<lambda>r. ro_effect r = Deny_route) cands of
          Some deny \<Rightarrow> Denied_route (''route '' @ ro_id deny @ '' explicitly denies this event'')
        | None \<Rightarrow>
            (case winners cands of
               [only] \<Rightarrow> Success (ro_id only)
             | ws \<Rightarrow> Ambiguous_route low_authority_triage
                 ''multiple_matching_routes_no_deterministic_winner'' (map ro_id ws))))"

definition resolve_persona ::
  "string \<Rightarrow> relationship_kind option \<Rightarrow> route \<Rightarrow> (string \<rightharpoonup> persona_element) \<Rightarrow> string option" where
  "resolve_persona event_channel_account relationship r personas =
     (if (case rw_channel_account (ro_when r) of
            Some bound \<Rightarrow> bound \<noteq> event_channel_account | None \<Rightarrow> False) then None
      else if (case Option.bind (rw_actor (ro_when r)) raw_relationship of
            Some bound \<Rightarrow> Some bound \<noteq> relationship | None \<Rightarrow> False) then None
      else (case ro_persona r of
          None \<Rightarrow> None
        | Some persona_id \<Rightarrow>
            (case personas persona_id of
               None \<Rightarrow> None
             | Some persona \<Rightarrow>
                 if pe_lifecycle_state persona \<noteq> Active then None else Some persona_id)))"

section \<open>The order on matching routes\<close>

text \<open>
  The rank of a route: its priority, a missing one below every explicit one, then its
  specificity.
\<close>

definition rank_prio :: "route \<Rightarrow> nat" where
  "rank_prio r = (case ro_priority r of None \<Rightarrow> 0 | Some p \<Rightarrow> Suc (unat p))"

definition prevails :: "route \<Rightarrow> route \<Rightarrow> bool" where
  "prevails r s \<longleftrightarrow>
     rank_prio s < rank_prio r \<or>
     rank_prio s = rank_prio r \<and> specificity (ro_when s) \<le> specificity (ro_when r)"

definition top_routes :: "route set \<Rightarrow> route set" where
  "top_routes R = {r \<in> R. \<forall>s\<in>R. prevails r s}"

lemma rank_prio_eq: "rank_prio r = rank_prio s \<longleftrightarrow> ro_priority r = ro_priority s"
  by (auto simp: rank_prio_def unsigned_word_eqI split: option.splits)

lemma map_filter_prio: "set (List.map_filter ro_priority cs) = {p. \<exists>r\<in>set cs. ro_priority r = Some p}"
  by (force simp: List.map_filter_def)

lemma set_by_priority:
  "set (by_priority cs) = {r \<in> set cs. \<forall>s\<in>set cs. rank_prio s \<le> rank_prio r}"
proof (cases "iter_max (List.map_filter ro_priority cs)")
  case None
  then have "{p. \<exists>r\<in>set cs. ro_priority r = Some p} = {}"
    unfolding map_filter_prio [symmetric] by simp
  then have "\<forall>r\<in>set cs. ro_priority r = None"
    by (metis (mono_tags, lifting) empty_iff mem_Collect_eq not_None_eq)
  with None show ?thesis by (auto simp: by_priority_def rank_prio_def)
next
  case (Some p)
  then obtain r0 where r0: "r0 \<in> set cs" "ro_priority r0 = Some p"
    and mx: "\<And>r q. r \<in> set cs \<Longrightarrow> ro_priority r = Some q \<Longrightarrow> q \<le> p"
    using map_filter_prio [of cs] by (auto simp: iter_max_Some)
  have le: "rank_prio s \<le> Suc (unat p)" if "s \<in> set cs" for s
    using mx [OF that] by (auto simp: rank_prio_def word_le_nat_alt split: option.splits)
  have r0_rank: "rank_prio r0 = Suc (unat p)" using r0 by (simp add: rank_prio_def)
  have "ro_priority r = Some p \<longleftrightarrow> (\<forall>s\<in>set cs. rank_prio s \<le> rank_prio r)" if "r \<in> set cs" for r
  proof
    assume "ro_priority r = Some p"
    then have "rank_prio r = Suc (unat p)" by (simp add: rank_prio_def)
    with le show "\<forall>s\<in>set cs. rank_prio s \<le> rank_prio r" by simp
  next
    assume "\<forall>s\<in>set cs. rank_prio s \<le> rank_prio r"
    then have "rank_prio r = rank_prio r0" using r0 le [OF that] r0_rank by force
    with r0 show "ro_priority r = Some p" by (simp add: rank_prio_eq)
  qed
  with Some show ?thesis by (auto simp: by_priority_def)
qed

lemma by_priority_nonempty: "cs \<noteq> [] \<Longrightarrow> by_priority cs \<noteq> []"
proof -
  assume "cs \<noteq> []"
  then have "finite (rank_prio ` set cs)" "rank_prio ` set cs \<noteq> {}" by auto
  from Max_in [OF this] obtain r where "r \<in> set cs" "rank_prio r = Max (rank_prio ` set cs)"
    by auto
  then have "r \<in> set (by_priority cs)" by (auto simp: set_by_priority)
  then show ?thesis by auto
qed

lemma ids_winners:
  "map ro_id (winners cs) = sorted_list_of_set (ro_id ` top_routes (set cs))"
proof (cases "cs = []")
  case True
  then show ?thesis by (simp add: winners_def by_priority_def top_routes_def List.map_filter_def)
next
  case False
  then have "by_priority cs \<noteq> []" by (rule by_priority_nonempty)
  then have "iter_max (map (\<lambda>r. specificity (ro_when r)) (by_priority cs)) \<noteq> None" by simp
  then obtain m where m: "iter_max (map (\<lambda>r. specificity (ro_when r)) (by_priority cs)) = Some m"
    by blast
  let ?W = "filter (\<lambda>r. specificity (ro_when r) = m) (by_priority cs)"
  have W: "set ?W = top_routes (set cs)"
  proof -
    have "r \<in> set ?W \<longleftrightarrow> r \<in> top_routes (set cs)" for r
    proof (cases "r \<in> set (by_priority cs)")
      case True
      then have tops: "s \<in> set (by_priority cs) \<longleftrightarrow> s \<in> set cs \<and> rank_prio s = rank_prio r" for s
        by (fastforce simp: set_by_priority)
      have "specificity (ro_when r) = m \<longleftrightarrow>
          (\<forall>s\<in>set (by_priority cs). specificity (ro_when s) \<le> specificity (ro_when r))"
        using m True unfolding iter_max_Some by fastforce
      with True tops show ?thesis
        by (auto simp: top_routes_def prevails_def set_by_priority less_le)
    next
      case False
      then show ?thesis
        by (fastforce simp: top_routes_def prevails_def set_by_priority)
    qed
    then show ?thesis by blast
  qed
  have "map ro_id (winners cs) = remdups_adj (map ro_id (sort_key ro_id ?W))"
    by (simp add: winners_def Let_def m map_dedup_key)
  also have "map ro_id (sort_key ro_id ?W) = sort (map ro_id ?W)"
    by (rule map_sort_key)
  finally show ?thesis by (simp only: remdups_adj_sort set_map W)
qed

section \<open>What resolution returns\<close>

lemma set_candidates:
  "set (candidates event identity rel routes) =
     {r \<in> set routes. ro_lifecycle_state r = Active \<and> route_matches event identity rel r}"
  by (auto simp: candidates_def)

abbreviation live_routes ::
  "event_envelope \<Rightarrow> identity_resolution \<Rightarrow> relationship_kind option \<Rightarrow> route list \<Rightarrow> route set" where
  "live_routes event identity rel routes \<equiv>
     {r \<in> set routes. ro_lifecycle_state r = Active \<and> route_matches event identity rel r}"

text \<open>The result as a function of the set of live routes, except for the wording of a denial.\<close>

definition route_spec :: "route set \<Rightarrow> route_resolution option" where
  "route_spec R =
     (if R = {} \<or> (\<exists>r\<in>R. ro_effect r = Deny_route) then None
      else (case sorted_list_of_set (ro_id ` top_routes R) of
          [only] \<Rightarrow> Some (Success only)
        | is \<Rightarrow> Some (Ambiguous_route low_authority_triage
            ''multiple_matching_routes_no_deterministic_winner'' is)))"

lemma resolve_route_spec:
  "(case resolve_route event identity rel routes of Denied_route _ \<Rightarrow> None | res \<Rightarrow> Some res) =
     route_spec (live_routes event identity rel routes)"
proof -
  let ?c = "candidates event identity rel routes"
  have set: "live_routes event identity rel routes = set ?c" by (simp add: set_candidates)
  show ?thesis
  proof (cases "?c = [] \<or> (\<exists>r\<in>set ?c. ro_effect r = Deny_route)")
    case True
    then show ?thesis
      unfolding set by (auto simp: resolve_route_def route_spec_def Let_def find_None_iff
          split: option.splits)
  next
    case False
    then have no: "find (\<lambda>r. ro_effect r = Deny_route) ?c = None" "?c \<noteq> []"
      by (auto simp: find_None_iff)
    have ids: "sorted_list_of_set (ro_id ` top_routes (set ?c)) = map ro_id (winners ?c)"
      by (rule ids_winners [symmetric])
    show ?thesis
      unfolding set route_spec_def ids using no False
      by (cases "winners ?c" rule: remdups_adj.cases) (auto simp: resolve_route_def Let_def)
  qed
qed

lemma sorted_list_of_set_single:
  "finite A \<Longrightarrow> sorted_list_of_set A = [x] \<longleftrightarrow> A = {x}"
  by (auto dest: arg_cong [where f = set])

lemma finite_top: "finite R \<Longrightarrow> finite (ro_id ` top_routes R)"
  by (simp add: top_routes_def)

lemma route_spec_Success:
  "finite R \<Longrightarrow> route_spec R = Some (Success i) \<longleftrightarrow>
     (\<forall>r\<in>R. ro_effect r = Allow_route) \<and> ro_id ` top_routes R = {i}"
proof -
  assume fin: "finite R"
  have eff: "(\<forall>r\<in>R. ro_effect r = Allow_route) \<longleftrightarrow> \<not> (\<exists>r\<in>R. ro_effect r = Deny_route)"
    by (metis route_effect.distinct(1) route_effect.exhaust)
  have empty: "top_routes {} = {}" by (simp add: top_routes_def)
  have "route_spec R = Some (Success i) \<longleftrightarrow>
      \<not> (R = {} \<or> (\<exists>r\<in>R. ro_effect r = Deny_route)) \<and>
      sorted_list_of_set (ro_id ` top_routes R) = [i]"
    by (auto simp: route_spec_def split: list.splits)
  then show ?thesis
    unfolding eff sorted_list_of_set_single [OF finite_top [OF fin]] using empty by auto
qed

lemma resolve_route_Success_iff:
  "resolve_route event identity rel routes = Success i \<longleftrightarrow>
     (\<forall>r\<in>live_routes event identity rel routes. ro_effect r = Allow_route) \<and>
     ro_id ` top_routes (live_routes event identity rel routes) = {i}"
proof -
  have "resolve_route event identity rel routes = Success i \<longleftrightarrow>
      (case resolve_route event identity rel routes of Denied_route _ \<Rightarrow> None | res \<Rightarrow> Some res) =
        Some (Success i)"
    by (auto split: route_resolution.splits)
  also have "\<dots> \<longleftrightarrow> route_spec (live_routes event identity rel routes) = Some (Success i)"
    by (simp only: resolve_route_spec)
  also have "\<dots> \<longleftrightarrow> (\<forall>r\<in>live_routes event identity rel routes. ro_effect r = Allow_route) \<and>
      ro_id ` top_routes (live_routes event identity rel routes) = {i}"
    by (rule route_spec_Success) simp
  finally show ?thesis .
qed

lemma resolve_route_Denied_iff:
  "(\<exists>why. resolve_route event identity rel routes = Denied_route why) \<longleftrightarrow>
     live_routes event identity rel routes = {} \<or>
     (\<exists>r\<in>live_routes event identity rel routes. ro_effect r = Deny_route)"
proof -
  have "(\<exists>why. resolve_route event identity rel routes = Denied_route why) \<longleftrightarrow>
      (case resolve_route event identity rel routes of Denied_route _ \<Rightarrow> None | res \<Rightarrow> Some res) = None"
    by (auto split: route_resolution.splits)
  also have "\<dots> \<longleftrightarrow> route_spec (live_routes event identity rel routes) = None"
    by (simp only: resolve_route_spec)
  also have "\<dots> \<longleftrightarrow> live_routes event identity rel routes = {} \<or>
      (\<exists>r\<in>live_routes event identity rel routes. ro_effect r = Deny_route)"
    by (auto simp: route_spec_def split: list.splits)
  finally show ?thesis .
qed

lemma resolve_route_set:
  assumes "set routes = set routes'"
  shows "(case resolve_route event identity rel routes of Denied_route _ \<Rightarrow> None | res \<Rightarrow> Some res) =
    (case resolve_route event identity rel routes' of Denied_route _ \<Rightarrow> None | res \<Rightarrow> Some res)"
  unfolding resolve_route_spec assms ..

text \<open>A persona is bound only in the context its route names, and only while it is active.\<close>

lemma resolve_persona_Some:
  "resolve_persona account rel r personas = Some p \<longleftrightarrow>
     ro_persona r = Some p \<and>
     (\<exists>pe. personas p = Some pe \<and> pe_lifecycle_state pe = Active) \<and>
     (\<forall>a. rw_channel_account (ro_when r) = Some a \<longrightarrow> a = account) \<and>
     (\<forall>act k. rw_actor (ro_when r) = Some act \<longrightarrow> raw_relationship act = Some k \<longrightarrow> rel = Some k)"
  by (auto simp: resolve_persona_def bind_eq_Some_conv split: option.splits if_splits)

lemma guard_conv: "(if c then False else x) \<longleftrightarrow> \<not> c \<and> x" by simp

lemma route_matches_parts:
  assumes "route_matches event identity rel r"
  shows "\<not> (case rw_channel_account (ro_when r) of Some wanted \<Rightarrow> ev_channel_account event \<noteq> wanted | None \<Rightarrow> False)"
    and "\<not> (case rw_verified_source (ro_when r) of Some v \<Rightarrow> ev_verified_source event \<noteq> v | None \<Rightarrow> False)"
    and "case rw_actor (ro_when r) of None \<Rightarrow> True | Some actor \<Rightarrow>
      \<not> (case raw_relationship actor of Some wanted \<Rightarrow> rel \<noteq> Some wanted | None \<Rightarrow> False)"
proof -
  note m = assms [unfolded route_matches_def Let_def guard_conv]
  show "\<not> (case rw_channel_account (ro_when r) of Some wanted \<Rightarrow> ev_channel_account event \<noteq> wanted | None \<Rightarrow> False)"
    "\<not> (case rw_verified_source (ro_when r) of Some v \<Rightarrow> ev_verified_source event \<noteq> v | None \<Rightarrow> False)"
    using m by - (elim conjE, assumption)+
  show "case rw_actor (ro_when r) of None \<Rightarrow> True | Some actor \<Rightarrow>
      \<not> (case raw_relationship actor of Some wanted \<Rightarrow> rel \<noteq> Some wanted | None \<Rightarrow> False)"
    using m by (elim conjE, cases "rw_actor (ro_when r)") (simp_all only: option.case)
qed

lemma route_matches_context:
  assumes "route_matches event identity rel r"
  shows "rw_channel_account (ro_when r) = Some a \<Longrightarrow> a = ev_channel_account event"
    and "rw_actor (ro_when r) = Some act \<Longrightarrow> raw_relationship act = Some k \<Longrightarrow> rel = Some k"
  using route_matches_parts(1,3) [OF assms] by simp_all

section \<open>Properties\<close>

text \<open>
  C37. Route resolution succeeds with a route id exactly when no live matching route denies and
  the routes that prevail over all live matching ones, by explicit priority and then
  specificity, have that one id.
\<close>

theorem route_winner_exact:
  "resolve_route event identity rel routes = Success i \<longleftrightarrow>
     (\<forall>r\<in>live_routes event identity rel routes. ro_effect r = Allow_route) \<and>
     ro_id ` top_routes (live_routes event identity rel routes) = {i}"
  by (rule resolve_route_Success_iff)

text \<open>
  Deny wins and absence denies: resolution is a denial exactly when no active route matches
  or some active matching route is a deny route, whatever its priority and specificity.
\<close>

theorem route_denied_exact:
  "(\<exists>why. resolve_route event identity rel routes = Denied_route why) \<longleftrightarrow>
     live_routes event identity rel routes = {} \<or>
     (\<exists>r\<in>live_routes event identity rel routes. ro_effect r = Deny_route)"
  by (rule resolve_route_Denied_iff)

text \<open>
  Resolution does not depend on the order or the repetition of the registered routes: two
  registries with the same set of routes give the same success or the same tie, or are both
  denials.
\<close>

theorem route_order_irrelevant:
  assumes "set routes = set routes'"
  shows "(case resolve_route event identity rel routes of Denied_route _ \<Rightarrow> None | res \<Rightarrow> Some res) =
    (case resolve_route event identity rel routes' of Denied_route _ \<Rightarrow> None | res \<Rightarrow> Some res)"
  by (rule resolve_route_set [OF assms])

text \<open>
  Persona binding follows the matched route: for a route that matches the event, the
  persona is the route's own as long as it is registered and active, and otherwise none; the
  context check at the binding boundary never refuses what matching accepted.
\<close>

theorem persona_of_matched_route:
  assumes "route_matches event identity rel r"
  shows "resolve_persona (ev_channel_account event) rel r personas =
    (case ro_persona r of
       None \<Rightarrow> None
     | Some p \<Rightarrow>
         if \<exists>pe. personas p = Some pe \<and> pe_lifecycle_state pe = Active then Some p else None)"
proof -
  have "\<not> (case rw_channel_account (ro_when r) of
      Some bound \<Rightarrow> bound \<noteq> ev_channel_account event | None \<Rightarrow> False)"
    using route_matches_context(1) [OF assms] by (simp split: option.split)
  moreover have "\<not> (case Option.bind (rw_actor (ro_when r)) raw_relationship of
      Some bound \<Rightarrow> Some bound \<noteq> rel | None \<Rightarrow> False)"
    using route_matches_context(2) [OF assms] by (auto simp: bind_eq_Some_conv split: option.split)
  ultimately show ?thesis by (auto simp: resolve_persona_def split: option.split)
qed

text \<open>
  A minimum confidence that is not a number is no minimum: a route whose only condition is
  a NaN threshold matches every event and every identity, also one with no confidence at all.
\<close>

theorem nan_threshold_matches:
  "route_matches event identity rel
     (r\<lparr>ro_when :=
        \<lparr>rw_source = None, rw_event_type = None, rw_verified_source = None, rw_lane = None,
         rw_connector = None, rw_account_role = None, rw_channel_account = None,
         rw_actor = Some \<lparr>raw_relationship = None, raw_channel_trust = None,
           raw_identity_confidence_min = Some NaN\<rparr>\<rparr>\<rparr>)"
proof -
  have "\<not> f64_less c NaN" for c by (cases c) simp_all
  then show ?thesis by (simp add: route_matches_def)
qed

theorem route_winner_exact_witness:
  "ro_id ` top_routes (live_routes ex_event ex_identity None [ex_route ''a'' 1, ex_route ''b'' 2]) =
     {''b''}"
proof -
  have "resolve_route ex_event ex_identity None [ex_route ''a'' 1, ex_route ''b'' 2] = Success ''b''"
    by code_simp
  then show ?thesis unfolding route_winner_exact by blast
qed

theorem route_denied_exact_witness:
  "\<exists>why. resolve_route ex_event ex_identity None [] = Denied_route why"
  unfolding route_denied_exact by simp

theorem route_order_irrelevant_witness:
  "(case resolve_route ex_event ex_identity None [ex_route ''a'' 1, ex_route ''b'' 2] of
      Denied_route _ \<Rightarrow> None | res \<Rightarrow> Some res) =
   (case resolve_route ex_event ex_identity None [ex_route ''b'' 2, ex_route ''a'' 1] of
      Denied_route _ \<Rightarrow> None | res \<Rightarrow> Some res)"
  by (rule route_order_irrelevant) auto

theorem persona_of_matched_route_witness:
  "resolve_persona ''123'' None (ex_route ''a'' 1) (\<lambda>_. None) = None"
proof -
  have "route_matches ex_event ex_identity None (ex_route ''a'' 1)" by code_simp
  from persona_of_matched_route [OF this, of "\<lambda>_. None"] show ?thesis
    by (simp add: ex_event_def ex_route_def)
qed

end
