(* ===== verification/Disclosure.thy ===== *)
theory Disclosure
  imports Grant_Chain "HOL-Library.Product_Lexorder" "HOL-Library.Sublist"
begin

text \<open>
  Relationship-scoped disclosure policy
  (\<open>src/crates/openspine-schemas/src/disclosure_policy.rs\<close>).

  An outbound query carries the provenance of the briefcase items it was assembled from. The
  check has two stages: every policy-covered class needs an active policy for the relationship,
  and every covered item must originate from the recipient, from the system, or from an origin
  the grant authorizes. The text itself is only redacted, never judged. The declarative
  \<open>disclosable\<close> says what may leave; \<open>check_egress_Allow_iff\<close> is the refinement.
\<close>

section \<open>Classes and provenance\<close>

datatype disclosure_class =
  Public_disclosure | Internal_disclosure | Private_disclosure | Sensitive_disclosure

fun disclosure_rank :: "disclosure_class \<Rightarrow> nat" where
  "disclosure_rank Public_disclosure = 0"
| "disclosure_rank Internal_disclosure = 1"
| "disclosure_rank Private_disclosure = 2"
| "disclosure_rank Sensitive_disclosure = 3"

lemma disclosure_rank_inj: "disclosure_rank a = disclosure_rank b \<longleftrightarrow> a = b"
  by (cases a; cases b) auto

text \<open>\<open>DisclosureClass\<close> derives \<open>Ord\<close>: the order of declaration.\<close>

instantiation disclosure_class :: linorder
begin

definition less_eq_disclosure_class :: "disclosure_class \<Rightarrow> disclosure_class \<Rightarrow> bool" where
  "less_eq_disclosure_class a b \<longleftrightarrow> disclosure_rank a \<le> disclosure_rank b"

definition less_disclosure_class :: "disclosure_class \<Rightarrow> disclosure_class \<Rightarrow> bool" where
  "less_disclosure_class a b \<longleftrightarrow> disclosure_rank a < disclosure_rank b"

instance
  by standard (auto simp: less_eq_disclosure_class_def less_disclosure_class_def disclosure_rank_inj)

end

definition requires_policy :: "disclosure_class \<Rightarrow> bool" where
  "requires_policy c \<longleftrightarrow> c \<noteq> Public_disclosure"

fun disclosure_of_classification :: "data_classification \<Rightarrow> disclosure_class" where
  "disclosure_of_classification Public = Public_disclosure"
| "disclosure_of_classification Internal = Internal_disclosure"
| "disclosure_of_classification Private = Private_disclosure"
| "disclosure_of_classification Unknown_classification = Sensitive_disclosure"

record classified_item =
  ci_item_ref :: artifact_ref
  ci_disclosure_class :: disclosure_class
  ci_origin :: "provenance_origin option"

record disclosure_provenance =
  dp_items :: "classified_item list"

text \<open>A \<open>BTreeSet\<close>, iterated in increasing order.\<close>

definition provenance_classes :: "disclosure_provenance \<Rightarrow> disclosure_class list" where
  "provenance_classes p = sorted_list_of_set (set (map ci_disclosure_class (dp_items p)))"

definition contains_private_context :: "disclosure_provenance \<Rightarrow> bool" where
  "contains_private_context p \<longleftrightarrow>
     list_ex (\<lambda>it. requires_policy (ci_disclosure_class it)) (dp_items p)"

section \<open>Policies\<close>

record disclosure_policy_key =
  dk_relationship :: relationship_kind
  dk_disclosure_class :: disclosure_class

record disclosure_carve_out =
  dc_egress_class :: egress_class
  dc_query_shape :: digest

record disclosure_policy =
  dy_id :: artifact_id
  dy_schema_version :: u32
  dy_version :: u32
  dy_lifecycle_state :: lifecycle
  dy_key :: disclosure_policy_key
  dy_allowed_egress_classes :: "egress_class list"
  dy_standing_rule_bindings :: "egress_class \<rightharpoonup> artifact_id"
  dy_carve_outs :: "disclosure_carve_out list"

definition policy_covers ::
  "ext \<Rightarrow> disclosure_policy \<Rightarrow> relationship_kind \<Rightarrow> disclosure_class \<Rightarrow> egress_class \<Rightarrow> string \<Rightarrow> bool" where
  "policy_covers X p relationship class egress generalized_query \<longleftrightarrow>
     dy_lifecycle_state p = Active \<and>
     dk_relationship (dy_key p) = relationship \<and>
     dk_disclosure_class (dy_key p) = class \<and>
     (egress \<in> set (dy_allowed_egress_classes p) \<or>
      list_ex (\<lambda>carve_out. dc_egress_class carve_out = egress \<and>
          dc_query_shape carve_out = digest_of_bytes X (str_bytes generalized_query))
        (dy_carve_outs p))"

section \<open>Prepared queries\<close>

fun relationship_debug :: "relationship_kind \<Rightarrow> string" where
  "relationship_debug Spouse = ''Spouse''"
| "relationship_debug Colleague = ''Colleague''"
| "relationship_debug Client = ''Client''"
| "relationship_debug Vendor = ''Vendor''"
| "relationship_debug Owner = ''Owner''"
| "relationship_debug Family = ''Family''"
| "relationship_debug Unknown_relationship = ''Unknown''"

fun egress_debug :: "egress_class \<Rightarrow> string" where
  "egress_debug Search = ''Search''"
| "egress_debug ForumBrowse = ''ForumBrowse''"
| "egress_debug WebFormPost = ''WebFormPost''"
| "egress_debug DirectMessage = ''DirectMessage''"

record prepared_query =
  pq_id :: artifact_id
  pq_grant_id :: ulid
  pq_action_id :: action_id
  pq_relationship :: relationship_kind
  pq_egress_class :: egress_class
  pq_provenance :: disclosure_provenance
  pq_generalized_query :: string
  pq_digest :: digest
  pq_created_at :: timestamp

record prepared_query_ref =
  pr_id :: artifact_id
  pr_digest :: digest

text \<open>\<open>grant|action|relationship|egress|generalized\_query\<close>, the text every binding digest is over.\<close>

definition binding_text ::
  "ext \<Rightarrow> ulid \<Rightarrow> action_id \<Rightarrow> relationship_kind \<Rightarrow> egress_class \<Rightarrow> string \<Rightarrow> string" where
  "binding_text X grant_id action relationship egress query =
     ulid_text X grant_id @ ''|'' @ as_str action @ ''|'' @ relationship_debug relationship @ ''|'' @
     egress_debug egress @ ''|'' @ query"

definition binding_digest :: "ext \<Rightarrow> prepared_query \<Rightarrow> digest" where
  "binding_digest X p = digest_of_bytes X (str_bytes
     (binding_text X (pq_grant_id p) (pq_action_id p) (pq_relationship p) (pq_egress_class p)
        (pq_generalized_query p)))"

definition binding_matches ::
  "prepared_query \<Rightarrow> action_id \<Rightarrow> relationship_kind \<Rightarrow> egress_class \<Rightarrow> ulid \<Rightarrow>
     disclosure_provenance \<Rightarrow> bool" where
  "binding_matches p action relationship egress_class grant_id provenance \<longleftrightarrow>
     pq_action_id p = action \<and> pq_relationship p = relationship \<and>
     pq_egress_class p = egress_class \<and> pq_grant_id p = grant_id \<and>
     pq_provenance p = provenance"

section \<open>Outbound queries\<close>

datatype recipient_identity =
    OwnerRecipient principal_id
  | CounterpartyRecipient identity_ref
  | UnresolvedRecipient

record outbound_query =
  oq_generalized_query :: string
  oq_egress_class :: egress_class
  oq_provenance :: disclosure_provenance
  oq_recipient :: recipient_identity

text \<open>
  \<open>str::replace\<close> for a non-empty pattern: every leftmost non-overlapping occurrence. (An empty
  pattern is filtered out before the call.)
\<close>

fun str_replace :: "string \<Rightarrow> string \<Rightarrow> string \<Rightarrow> string" where
  "str_replace pat to [] = []"
| "str_replace pat to (c # cs) =
     (if prefix pat (c # cs) then to @ str_replace pat to (drop (length pat - 1) cs)
      else c # str_replace pat to cs)"

definition redacted :: string where
  "redacted = ''[redacted]''"

text \<open>Longer terms first, equal lengths in text order.\<close>

definition redaction_order :: "string set \<Rightarrow> string list" where
  "redaction_order terms =
     sort_key (\<lambda>t. (- int (length t), t)) (filter (\<lambda>t. t \<noteq> []) (sorted_list_of_set terms))"

definition generalize_query :: "string \<Rightarrow> string set \<Rightarrow> string" where
  "generalize_query raw_query sensitive_terms =
     foldl (\<lambda>query t. str_replace t redacted query) raw_query (redaction_order sensitive_terms)"

definition from_private_context ::
  "string \<Rightarrow> string set \<Rightarrow> egress_class \<Rightarrow> disclosure_provenance \<Rightarrow> recipient_identity \<Rightarrow>
     outbound_query" where
  "from_private_context raw_query sensitive_terms egress_class provenance recipient =
     \<lparr>oq_generalized_query = generalize_query raw_query sensitive_terms,
      oq_egress_class = egress_class, oq_provenance = provenance, oq_recipient = recipient\<rparr>"

definition is_effect :: "outbound_query \<Rightarrow> bool" where
  "is_effect q = contains_private_context (oq_provenance q)"

section \<open>The disclosure gate\<close>

record owner_question =
  ow_key :: disclosure_policy_key
  ow_egress_class :: egress_class
  ow_question :: string

datatype disclosure_gate_decision =
    Allow_disclosure outbound_query
  | Block owner_question
  | CrossIdentityBlock "provenance_origin option" recipient_identity disclosure_class egress_class

fun origin_reaches_recipient :: "provenance_origin \<Rightarrow> recipient_identity \<Rightarrow> bool" where
  "origin_reaches_recipient SystemOrigin _ = True"
| "origin_reaches_recipient (OwnerOrigin who) r =
     (case r of OwnerRecipient to \<Rightarrow> who = to | _ \<Rightarrow> False)"
| "origin_reaches_recipient (CounterpartyOrigin who) r =
     (case r of CounterpartyRecipient to \<Rightarrow> who = to | _ \<Rightarrow> False)"

definition item_reaches :: "classified_item \<Rightarrow> recipient_identity \<Rightarrow> provenance_origin list \<Rightarrow> bool" where
  "item_reaches it recipient authorized_origins =
     (case ci_origin it of
        Some orig \<Rightarrow> origin_reaches_recipient orig recipient \<or> orig \<in> set authorized_origins
      | None \<Rightarrow> False)"

definition check_egress ::
  "ext \<Rightarrow> relationship_kind \<Rightarrow> outbound_query \<Rightarrow> disclosure_policy list \<Rightarrow> provenance_origin list \<Rightarrow>
     disclosure_gate_decision" where
  "check_egress X relationship query policies authorized_origins =
     (case find (\<lambda>class. requires_policy class \<and>
              \<not> list_ex (\<lambda>policy. policy_covers X policy relationship class (oq_egress_class query)
                    (oq_generalized_query query)) policies)
            (provenance_classes (oq_provenance query)) of
        Some class \<Rightarrow> Block
          \<lparr>ow_key = \<lparr>dk_relationship = relationship, dk_disclosure_class = class\<rparr>,
           ow_egress_class = oq_egress_class query,
           ow_question = ''Can I share this kind of information with this relationship through this channel?''\<rparr>
      | None \<Rightarrow>
          (case find (\<lambda>it. requires_policy (ci_disclosure_class it) \<and>
                   \<not> item_reaches it (oq_recipient query) authorized_origins)
                 (dp_items (oq_provenance query)) of
             Some it \<Rightarrow> CrossIdentityBlock (ci_origin it) (oq_recipient query)
                 (ci_disclosure_class it) (oq_egress_class query)
           | None \<Rightarrow> Allow_disclosure query))"

section \<open>What may leave\<close>

definition class_covered ::
  "ext \<Rightarrow> relationship_kind \<Rightarrow> outbound_query \<Rightarrow> disclosure_policy list \<Rightarrow> disclosure_class \<Rightarrow> bool" where
  "class_covered X relationship query policies class \<longleftrightarrow>
     (\<exists>policy\<in>set policies. policy_covers X policy relationship class (oq_egress_class query)
        (oq_generalized_query query))"

definition disclosable ::
  "ext \<Rightarrow> relationship_kind \<Rightarrow> outbound_query \<Rightarrow> disclosure_policy list \<Rightarrow> provenance_origin list \<Rightarrow>
     classified_item \<Rightarrow> bool" where
  "disclosable X relationship query policies authorized it \<longleftrightarrow>
     ci_disclosure_class it = Public_disclosure \<or>
     class_covered X relationship query policies (ci_disclosure_class it) \<and>
     (\<exists>orig. ci_origin it = Some orig \<and>
        (orig = SystemOrigin \<or> orig \<in> set authorized \<or>
         (\<exists>p. orig = OwnerOrigin p \<and> oq_recipient query = OwnerRecipient p) \<or>
         (\<exists>i. orig = CounterpartyOrigin i \<and> oq_recipient query = CounterpartyRecipient i)))"

lemma set_provenance_classes [simp]:
  "set (provenance_classes p) = ci_disclosure_class ` set (dp_items p)"
  by (simp add: provenance_classes_def)

lemma origin_reaches_iff:
  "origin_reaches_recipient orig r \<longleftrightarrow> orig = SystemOrigin \<or>
     (\<exists>p. orig = OwnerOrigin p \<and> r = OwnerRecipient p) \<or>
     (\<exists>i. orig = CounterpartyOrigin i \<and> r = CounterpartyRecipient i)"
  by (cases orig; cases r) auto

lemma disclosable_iff:
  "disclosable X relationship query policies authorized it \<longleftrightarrow>
     (requires_policy (ci_disclosure_class it) \<longrightarrow>
       class_covered X relationship query policies (ci_disclosure_class it) \<and>
       item_reaches it (oq_recipient query) authorized)"
  by (cases "ci_origin it")
    (auto simp: disclosable_def requires_policy_def item_reaches_def origin_reaches_iff)

lemma check_egress_Allow_iff:
  "check_egress X relationship query policies authorized = Allow_disclosure q \<longleftrightarrow>
     q = query \<and>
     (\<forall>it\<in>set (dp_items (oq_provenance query)).
        disclosable X relationship query policies authorized it)"
  by (auto simp: check_egress_def disclosable_iff find_None_iff class_covered_def list_ex_iff
      split: option.splits dest!: find_SomeD)

text \<open>A query is put to the owner exactly for its least uncovered class.\<close>

lemma find_sorted_least:
  fixes xs :: "'a::linorder list"
  assumes "sorted xs" "find P xs = Some x"
  shows "x \<in> set xs \<and> P x \<and> (\<forall>y\<in>set xs. P y \<longrightarrow> x \<le> y)"
  using assms by (induction xs) (auto split: if_splits)

lemma sorted_provenance_classes [simp]: "sorted (provenance_classes p)"
  by (simp add: provenance_classes_def)

lemma check_egress_Block:
  assumes "check_egress X relationship query policies authorized = Block question"
  shows "ow_egress_class question = oq_egress_class query"
    and "dk_relationship (ow_key question) = relationship"
    and "\<exists>it\<in>set (dp_items (oq_provenance query)).
           ci_disclosure_class it = dk_disclosure_class (ow_key question)"
    and "\<not> class_covered X relationship query policies (dk_disclosure_class (ow_key question))"
    and "\<And>it. it \<in> set (dp_items (oq_provenance query)) \<Longrightarrow>
           requires_policy (ci_disclosure_class it) \<Longrightarrow>
           \<not> class_covered X relationship query policies (ci_disclosure_class it) \<Longrightarrow>
           dk_disclosure_class (ow_key question) \<le> ci_disclosure_class it"
proof -
  let ?bad = "\<lambda>class. requires_policy class \<and>
    \<not> list_ex (\<lambda>policy. policy_covers X policy relationship class (oq_egress_class query)
          (oq_generalized_query query)) policies"
  obtain cls where f: "find ?bad (provenance_classes (oq_provenance query)) = Some cls"
    and q: "question = \<lparr>ow_key = \<lparr>dk_relationship = relationship, dk_disclosure_class = cls\<rparr>,
           ow_egress_class = oq_egress_class query,
           ow_question = ''Can I share this kind of information with this relationship through this channel?''\<rparr>"
    using assms unfolding check_egress_def by (auto split: option.splits)
  note least = find_sorted_least [OF sorted_provenance_classes f]
  show "ow_egress_class question = oq_egress_class query"
    "dk_relationship (ow_key question) = relationship"
    by (simp_all add: q)
  show "\<exists>it\<in>set (dp_items (oq_provenance query)).
      ci_disclosure_class it = dk_disclosure_class (ow_key question)"
    using least by (auto simp: q)
  show "\<not> class_covered X relationship query policies (dk_disclosure_class (ow_key question))"
    using least by (simp add: q class_covered_def list_ex_iff)
  show "dk_disclosure_class (ow_key question) \<le> ci_disclosure_class it"
    if "it \<in> set (dp_items (oq_provenance query))" "requires_policy (ci_disclosure_class it)"
      "\<not> class_covered X relationship query policies (ci_disclosure_class it)" for it
    using least that by (auto simp: q class_covered_def list_ex_iff)
qed

section \<open>Redaction\<close>

text \<open>
  A term without brackets cannot straddle a placeholder, so every occurrence in the redacted
  text lies inside the placeholder word or stems from the text that was redacted.
\<close>

definition plain_term :: "string \<Rightarrow> bool" where
  "plain_term t \<longleftrightarrow> t \<noteq> [] \<and> CHR ''['' \<notin> set t \<and> CHR '']'' \<notin> set t \<and> \<not> sublist t ''redacted''"

lemma sublist_separated:
  assumes "sublist t (a @ x # b)" "x \<notin> set t"
  shows "sublist t a \<or> sublist t b"
proof -
  have "sublist t a \<or> sublist t (x # b) \<or> (\<exists>u v. t = u @ v \<and> suffix u a \<and> prefix v (x # b))"
    using assms(1) by (simp only: sublist_append)
  then show ?thesis
  proof (elim disjE exE conjE)
    assume "sublist t (x # b)"
    then show ?thesis
      using assms(2) by (auto simp: sublist_Cons_right prefix_Cons)
  next
    fix u v assume "t = u @ v" "suffix u a" "prefix v (x # b)"
    then show ?thesis
      using assms(2) by (auto simp: prefix_Cons)
  qed simp
qed

lemma sublist_redacted_append:
  assumes "sublist t (redacted @ s)" "plain_term t"
  shows "sublist t s"
proof -
  have eq: "redacted @ s = [] @ CHR ''['' # (''redacted'' @ CHR '']'' # s)"
    by (simp add: redacted_def)
  have "sublist t (''redacted'' @ CHR '']'' # s)"
    using sublist_separated [of t "[]"] assms unfolding eq plain_term_def by auto
  then show ?thesis
    using sublist_separated [of t "''redacted''"] assms(2) by (auto simp: plain_term_def)
qed

lemma prefix_str_replace:
  assumes "CHR ''['' \<notin> set t" "prefix t (str_replace pat redacted s)"
  shows "prefix t s"
  using assms
proof (induction pat redacted s arbitrary: t rule: str_replace.induct)
  case (2 pat c cs)
  then show ?case
    by (cases t) (auto simp: redacted_def split: if_splits)
qed simp

lemma prefix_replaced:
  assumes "pat \<noteq> []" "CHR ''['' \<notin> set pat"
  shows "\<not> prefix pat (str_replace pat redacted s)"
proof
  assume p: "prefix pat (str_replace pat redacted s)"
  then have "prefix pat s" using assms(2) by (rule prefix_str_replace [rotated])
  then obtain c cs where "s = c # cs" using assms(1) by (cases s) auto
  then have "str_replace pat redacted s = redacted @ str_replace pat redacted (drop (length pat - 1) cs)"
    using \<open>prefix pat s\<close> by simp
  then have "prefix pat (redacted @ str_replace pat redacted (drop (length pat - 1) cs))"
    using p by simp
  then show False
    using assms by (cases pat) (auto simp: redacted_def)
qed

lemma sublist_str_replace:
  assumes "plain_term t" "sublist t (str_replace pat redacted s)"
  shows "sublist t s"
  using assms(2)
proof (induction pat redacted s rule: str_replace.induct)
  case (2 pat c cs)
  show ?case
  proof (cases "prefix pat (c # cs)")
    case True
    then have "sublist t (str_replace pat redacted (drop (length pat - 1) cs))"
      using 2 assms(1) by (auto intro: sublist_redacted_append)
    then have "sublist t (drop (length pat - 1) cs)" using 2 True by blast
    then show ?thesis
      by (meson sublist_Cons_right sublist_drop sublist_order.order_trans)
  next
    case False
    then have "prefix t (c # str_replace pat redacted cs) \<or> sublist t (str_replace pat redacted cs)"
      using "2.prems" by (simp add: sublist_Cons_right)
    moreover have "prefix t (c # cs)" if "prefix t (c # str_replace pat redacted cs)"
      using prefix_str_replace [of t pat "c # cs"] that False assms(1)
      by (simp add: plain_term_def)
    ultimately show ?thesis
      using 2(2) False by (auto simp: sublist_Cons_right)
  qed
qed (use assms(1) in \<open>simp add: plain_term_def\<close>)

lemma not_sublist_replaced:
  assumes "plain_term pat"
  shows "\<not> sublist pat (str_replace pat redacted s)"
  using assms
proof (induction pat redacted s rule: str_replace.induct)
  case (2 pat c cs)
  note p = \<open>plain_term pat\<close>
  show ?case
  proof (cases "prefix pat (c # cs)")
    case True
    then show ?thesis using 2 sublist_redacted_append [OF _ p] by auto
  next
    case False
    have "\<not> prefix pat (str_replace pat redacted (c # cs))"
      using p by (intro prefix_replaced) (auto simp: plain_term_def)
    then show ?thesis using 2(2) False p by (auto simp: sublist_Cons_right)
  qed
qed (simp add: plain_term_def)

lemma sublist_foldl_replace:
  assumes "plain_term t" "sublist t (foldl (\<lambda>query t. str_replace t redacted query) s ts)"
  shows "sublist t s \<and> t \<notin> set ts"
  using assms(2)
proof (induction ts arbitrary: s)
  case (Cons u ts)
  then have "sublist t (str_replace u redacted s)" "t \<notin> set ts" by auto
  then show ?case
    using assms(1) not_sublist_replaced [of t s] sublist_str_replace [of t u s] by auto
qed simp

lemma set_redaction_order:
  "finite terms \<Longrightarrow> set (redaction_order terms) = terms - {[]}"
  by (auto simp: redaction_order_def)

section \<open>Properties\<close>

text \<open>
  C36. The disclosure check decides exactly what may leave. A query passes, unchanged, iff every
  item is public, or is covered by an active policy for the relationship, class and channel and
  originates from the system, the recipient or an authorized origin. The owner is asked about the
  least class without a policy, and a cross-identity block names an item that is covered but
  whose origin is unknown or neither authorized nor the recipient's.
\<close>

theorem disclosure_check_exact:
  "(case check_egress X relationship query policies authorized of
      Allow_disclosure q \<Rightarrow> q = query \<and>
        (\<forall>it\<in>set (dp_items (oq_provenance query)).
           disclosable X relationship query policies authorized it)
    | Block question \<Rightarrow>
        dk_relationship (ow_key question) = relationship \<and>
        (let class = dk_disclosure_class (ow_key question) in
           class \<in> ci_disclosure_class ` set (dp_items (oq_provenance query)) \<and>
           class \<noteq> Public_disclosure \<and> \<not> class_covered X relationship query policies class \<and>
           (\<forall>it\<in>set (dp_items (oq_provenance query)). ci_disclosure_class it < class \<longrightarrow>
              ci_disclosure_class it = Public_disclosure \<or>
              class_covered X relationship query policies (ci_disclosure_class it)))
    | CrossIdentityBlock orig recipient class egress \<Rightarrow>
        recipient = oq_recipient query \<and> egress = oq_egress_class query \<and>
        class_covered X relationship query policies class \<and>
        (\<exists>it\<in>set (dp_items (oq_provenance query)).
           ci_origin it = orig \<and> ci_disclosure_class it = class \<and>
           \<not> disclosable X relationship query policies authorized it))"
proof (cases "check_egress X relationship query policies authorized")
  case (Allow_disclosure q)
  then show ?thesis using check_egress_Allow_iff [of X relationship query policies authorized q] by simp
next
  case (Block question)
  note b = check_egress_Block [OF Block]
  have "dk_disclosure_class (ow_key question) \<noteq> Public_disclosure"
    using Block unfolding check_egress_def
    by (auto simp: requires_policy_def split: option.splits dest: find_SomeD)
  moreover have "dk_disclosure_class (ow_key question) \<in>
      ci_disclosure_class ` set (dp_items (oq_provenance query))"
    using b(3) by force
  ultimately show ?thesis
    using b(2,4,5) unfolding Block Let_def requires_policy_def by (auto dest: leD)
next
  case (CrossIdentityBlock orig recipient cls egress)
  let ?bad = "\<lambda>class. requires_policy class \<and>
    \<not> list_ex (\<lambda>policy. policy_covers X policy relationship class (oq_egress_class query)
          (oq_generalized_query query)) policies"
  let ?stray = "\<lambda>it. requires_policy (ci_disclosure_class it) \<and>
    \<not> item_reaches it (oq_recipient query) authorized"
  obtain it where none: "find ?bad (provenance_classes (oq_provenance query)) = None"
    and some: "find ?stray (dp_items (oq_provenance query)) = Some it"
    and eqs: "orig = ci_origin it" "recipient = oq_recipient query" "cls = ci_disclosure_class it"
      "egress = oq_egress_class query"
    using CrossIdentityBlock unfolding check_egress_def by (simp split: option.splits)
  have it: "it \<in> set (dp_items (oq_provenance query))" "?stray it"
    using find_SomeD [OF some] by auto
  then have "class_covered X relationship query policies (ci_disclosure_class it)"
    using none by (auto simp: find_None_iff class_covered_def list_ex_iff)
  then show ?thesis
    using it unfolding CrossIdentityBlock eqs by (auto simp: disclosable_iff)
qed

definition ex_item :: "provenance_origin option \<Rightarrow> classified_item" where
  "ex_item orig =
     \<lparr>ci_item_ref = \<lparr>ar_digest = Digest [], ar_schema_version = 1\<rparr>,
      ci_disclosure_class = Private_disclosure, ci_origin = orig\<rparr>"

definition ex_query :: "provenance_origin option \<Rightarrow> outbound_query" where
  "ex_query orig =
     \<lparr>oq_generalized_query = [], oq_egress_class = Search, oq_provenance = \<lparr>dp_items = [ex_item orig]\<rparr>,
      oq_recipient = CounterpartyRecipient (IdentityRef 5)\<rparr>"

definition ex_disclosure_policy :: disclosure_policy where
  "ex_disclosure_policy =
     \<lparr>dy_id = ''p'', dy_schema_version = 1, dy_version = 1, dy_lifecycle_state = Active,
      dy_key = \<lparr>dk_relationship = Client, dk_disclosure_class = Private_disclosure\<rparr>,
      dy_allowed_egress_classes = [Search], dy_standing_rule_bindings = Map.empty, dy_carve_outs = []\<rparr>"

lemmas ex_disclosure_defs =
  check_egress_def provenance_classes_def requires_policy_def policy_covers_def item_reaches_def
  ex_item_def ex_query_def ex_disclosure_policy_def

theorem disclosure_check_exact_witness:
  "check_egress ex_ext Client (ex_query (Some (OwnerOrigin (PrincipalId 1)))) [ex_disclosure_policy] [] =
     CrossIdentityBlock (Some (OwnerOrigin (PrincipalId 1))) (CounterpartyRecipient (IdentityRef 5))
       Private_disclosure Search \<and>
   \<not> disclosable ex_ext Client (ex_query (Some (OwnerOrigin (PrincipalId 1)))) [ex_disclosure_policy] []
       (ex_item (Some (OwnerOrigin (PrincipalId 1))))"
proof -
  let ?q = "ex_query (Some (OwnerOrigin (PrincipalId 1)))"
  have run: "check_egress ex_ext Client ?q [ex_disclosure_policy] [] =
     CrossIdentityBlock (Some (OwnerOrigin (PrincipalId 1))) (CounterpartyRecipient (IdentityRef 5))
       Private_disclosure Search"
    by (simp add: ex_disclosure_defs)
  then show ?thesis
    using disclosure_check_exact [where X = ex_ext and relationship = Client and query = ?q and
        policies = "[ex_disclosure_policy]" and authorized = "[]"]
    by (simp add: ex_query_def)
qed

text \<open>
  Redaction is complete. After generalization no sensitive term is left in the text, for
  every term that is free of brackets and not a part of the placeholder word: no replacement
  reveals or recreates one, whatever the overlaps between the terms.
\<close>

theorem redaction_complete:
  assumes "finite terms" "t \<in> terms" "plain_term t"
  shows "\<not> sublist t (generalize_query raw terms)"
proof
  assume "sublist t (generalize_query raw terms)"
  then have "t \<notin> set (redaction_order terms)"
    using sublist_foldl_replace [OF assms(3)] unfolding generalize_query_def by blast
  then show False
    using assms by (simp add: set_redaction_order plain_term_def)
qed

theorem redaction_complete_witness:
  "generalize_query ''call anna maria now'' {''anna'', ''anna maria''} = ''call [redacted] now'' \<and>
   \<not> sublist ''anna'' (generalize_query ''call anna maria now'' {''anna'', ''anna maria''})"
proof -
  have "plain_term ''anna''" by code_simp
  moreover have "generalize_query ''call anna maria now'' {''anna'', ''anna maria''} =
      ''call [redacted] now''"
    by code_simp
  ultimately show ?thesis
    using redaction_complete [of "{''anna'', ''anna maria''}" "''anna''" "''call anna maria now''"]
    by blast
qed

end
