(* ===== verification/Briefcase.thy ===== *)
theory Briefcase
  imports Disclosure Artifacts
begin

text \<open>
  The kernel-owned briefcase (\<open>src/crates/openspine-schemas/src/briefcase.rs\<close>, \<open>briefcase/ops.rs\<close>,
  \<open>briefcase/topup.rs\<close>, \<open>src/crates/openspine-kernel/src/briefcase.rs\<close>) and the preparation of
  outbound queries from it (\<open>src/crates/openspine-kernel/src/disclosure/preparation.rs\<close>).

  A task's context is packed once from the grant, the relevant learned sources and the
  counterparty, and afterwards changes only by worker top-ups the kernel decides. The relation
  \<open>packed\<close> holds of every briefcase reachable that way; its invariant says what a worker can see,
  how much, and whose data it is.
\<close>

section \<open>Vocabulary\<close>

datatype relationship_tier = Stranger | Known | Intimate | Owner_tier

fun tier_of_relationship :: "relationship_kind \<Rightarrow> relationship_tier" where
  "tier_of_relationship Owner = Owner_tier"
| "tier_of_relationship Spouse = Intimate"
| "tier_of_relationship Family = Intimate"
| "tier_of_relationship Colleague = Known"
| "tier_of_relationship Client = Known"
| "tier_of_relationship Vendor = Known"
| "tier_of_relationship Unknown_relationship = Stranger"

datatype visibility_class = KernelBound | WorkerScratch | ReturnedOutput

datatype section_kind = Grant_section | Preference | Skill | CounterpartySlice

text \<open>\<open>SectionKind\<close> derives \<open>Ord\<close>: the order of declaration.\<close>

fun section_rank :: "section_kind \<Rightarrow> nat" where
  "section_rank Grant_section = 0"
| "section_rank Preference = 1"
| "section_rank Skill = 2"
| "section_rank CounterpartySlice = 3"

lemma section_rank_inj: "section_rank a = section_rank b \<longleftrightarrow> a = b"
  by (cases a; cases b) auto

instantiation section_kind :: linorder
begin

definition less_eq_section_kind :: "section_kind \<Rightarrow> section_kind \<Rightarrow> bool" where
  "less_eq_section_kind a b \<longleftrightarrow> section_rank a \<le> section_rank b"

definition less_section_kind :: "section_kind \<Rightarrow> section_kind \<Rightarrow> bool" where
  "less_section_kind a b \<longleftrightarrow> section_rank a < section_rank b"

instance
  by standard (auto simp: less_eq_section_kind_def less_section_kind_def section_rank_inj)

end

datatype counterparty_ref =
    Bound_counterparty ulid relationship_kind
  | Unresolved_counterparty string string

fun counterparty_tier :: "counterparty_ref \<Rightarrow> relationship_tier" where
  "counterparty_tier (Bound_counterparty _ relationship) = tier_of_relationship relationship"
| "counterparty_tier (Unresolved_counterparty _ _) = Stranger"

record task_shape =
  ts_route_id :: artifact_id
  ts_workflow_id :: artifact_id
  ts_counterparty :: counterparty_ref

record source_slice =
  ss_key :: string
  ss_payload :: json
  ss_minimum_depth :: u8

record learned_source =
  ls_key :: string
  ls_kind :: section_kind
  ls_payload :: json
  ls_applicable_tiers :: "relationship_tier list"
  ls_applicable_workflows :: "artifact_id list"

definition is_relevant :: "learned_source \<Rightarrow> artifact_id \<Rightarrow> relationship_tier \<Rightarrow> bool" where
  "is_relevant s workflow_id tier \<longleftrightarrow>
     (ls_applicable_tiers s = [] \<or> tier \<in> set (ls_applicable_tiers s)) \<and>
     (ls_applicable_workflows s = [] \<or> list_ex (\<lambda>w. w = workflow_id) (ls_applicable_workflows s))"

section \<open>Selecting and packing\<close>

text \<open>
  The relevant preferences and skills in the order of key and kind; the rank of a source in that
  order, capped at \<open>u8::MAX\<close>, is the depth it needs.
\<close>

definition ranked_sources ::
  "learned_source list \<Rightarrow> artifact_id \<Rightarrow> relationship_tier \<Rightarrow> (section_kind \<times> source_slice) list" where
  "ranked_sources pool workflow_id tier =
     (let all = sort_key (\<lambda>(kind, s). (ss_key s, kind))
            (map (\<lambda>s. (ls_kind s,
                 \<lparr>ss_key = ls_key s, ss_payload = ls_payload s, ss_minimum_depth = 1\<rparr>))
              (filter (\<lambda>s. is_relevant s workflow_id tier)
                (filter (\<lambda>s. ls_kind s = Preference \<or> ls_kind s = Skill) pool)))
      in map (\<lambda>(rank, kind, s). (kind, s\<lparr>ss_minimum_depth := of_nat (min (rank + 1) 255)\<rparr>))
           (enumerate 0 all))"

definition select_relevant_sources ::
  "learned_source list \<Rightarrow> artifact_id \<Rightarrow> relationship_tier \<Rightarrow> source_slice list \<times> source_slice list" where
  "select_relevant_sources pool workflow_id tier =
     (let all = ranked_sources pool workflow_id tier
      in (map snd (filter (\<lambda>(kind, _). kind = Preference) all),
          map snd (filter (\<lambda>(kind, _). kind = Skill) all)))"

record pack_sources =
  pk_grant_view :: json
  pk_preferences :: "source_slice list"
  pk_skills :: "source_slice list"
  pk_counterparty_slice :: json
  pk_owner :: principal_id

definition slice_json :: "source_slice \<Rightarrow> json" where
  "slice_json s = JObject
     [(''key'', JString (ss_key s)), (''payload'', ss_payload s),
      (''minimum_depth'', JNumber (PosInt (ucast (ss_minimum_depth s))))]"

definition snapshot_id :: "ext \<Rightarrow> pack_sources \<Rightarrow> digest" where
  "snapshot_id X p = digest_of X (JObject
     [(''grant_view'', pk_grant_view p),
      (''preferences'', JArray (map slice_json (pk_preferences p))),
      (''skills'', JArray (map slice_json (pk_skills p))),
      (''counterparty_slice'', pk_counterparty_slice p),
      (''owner'', JString (ulid_text X (principal_ulid (pk_owner p))))])"

record briefcase_section =
  bs_key :: string
  bs_kind :: section_kind
  bs_visibility :: visibility_class
  bs_depth :: u8
  bs_disclosure_class :: "disclosure_class option"
  bs_origin :: "provenance_origin option"
  bs_payload :: json

record top_up_request =
  tq_request_id :: ulid
  tq_section_key :: string
  tq_kind :: section_kind
  tq_requested_depth :: u8
  tq_justification :: string

datatype top_up_outcome = Allowed | Denied_top_up string

record top_up_decision =
  td_request :: top_up_request
  td_outcome :: top_up_outcome
  td_source_digest :: "digest option"

record briefcase =
  bc_schema_version :: u32
  bc_task_shape :: task_shape
  bc_source_snapshot_id :: digest
  bc_depth :: u8
  bc_tier :: relationship_tier
  bc_class :: task_class
  bc_sections :: "briefcase_section list"
  bc_top_up_log :: "top_up_decision list"

fun tier_weight :: "relationship_tier \<Rightarrow> u8" where
  "tier_weight Stranger = 1"
| "tier_weight Known = 2"
| "tier_weight Intimate = 3"
| "tier_weight Owner_tier = 4"

fun class_weight :: "task_class \<Rightarrow> u8" where
  "class_weight Conversation = 1"
| "class_weight DraftApproval = 2"
| "class_weight Effectful = 2"

definition depth :: "relationship_tier \<Rightarrow> task_class \<Rightarrow> u8" where
  "depth tier class = tier_weight tier * class_weight class"

text \<open>
  \<open>str::to\_lowercase\<close>: the leading ASCII characters are mapped one by one; the rest, in the
  context of the whole text, by the Unicode tables.
\<close>

definition is_ascii :: "char \<Rightarrow> bool" where
  "is_ascii c \<longleftrightarrow> (of_char c :: nat) < 128"

definition to_ascii_lowercase :: "char \<Rightarrow> char" where
  "to_ascii_lowercase c =
     (let n = of_char c :: nat in if 65 \<le> n \<and> n \<le> 90 then char_of (n + 32) else c)"

definition to_lowercase :: "ext \<Rightarrow> string \<Rightarrow> string" where
  "to_lowercase X s =
     map to_ascii_lowercase (takeWhile is_ascii s) @
     (let rest = dropWhile is_ascii s in if rest = [] then [] else unicode_lower X s rest)"

fun section_kind_debug :: "section_kind \<Rightarrow> string" where
  "section_kind_debug Grant_section = ''Grant''"
| "section_kind_debug Preference = ''Preference''"
| "section_kind_debug Skill = ''Skill''"
| "section_kind_debug CounterpartySlice = ''CounterpartySlice''"

definition section_key :: "ext \<Rightarrow> section_kind \<Rightarrow> string \<Rightarrow> string" where
  "section_key X kind key = to_lowercase X (section_kind_debug kind @ '':'' @ key)"

definition counterparty_origin :: "counterparty_ref \<Rightarrow> provenance_origin option" where
  "counterparty_origin c = (case c of
     Bound_counterparty identity_id _ \<Rightarrow> Some (CounterpartyOrigin (IdentityRef identity_id))
   | Unresolved_counterparty _ _ \<Rightarrow> None)"

definition pack :: "ext \<Rightarrow> task_shape \<Rightarrow> pack_sources \<Rightarrow> relationship_tier \<Rightarrow> task_class \<Rightarrow> briefcase" where
  "pack X shape sources tier class =
     (let owner_origin = OwnerOrigin (pk_owner sources);
          depth_val = depth tier class;
          grant_section =
            \<lparr>bs_key = ''grant'', bs_kind = Grant_section, bs_visibility = KernelBound,
             bs_depth = depth_val, bs_disclosure_class = Some Private_disclosure,
             bs_origin = Some owner_origin, bs_payload = pk_grant_view sources\<rparr>;
          eligible = sort_key (\<lambda>(kind, s). (ss_key s, kind))
            (map (\<lambda>s. (Preference, s)) (pk_preferences sources) @
             map (\<lambda>s. (Skill, s)) (pk_skills sources));
          packed_sections = map (\<lambda>(kind, s).
            \<lparr>bs_key = section_key X kind (ss_key s), bs_kind = kind, bs_visibility = WorkerScratch,
             bs_depth = depth_val, bs_disclosure_class = Some Private_disclosure,
             bs_origin = Some owner_origin, bs_payload = ss_payload s\<rparr>)
            (take (unat depth_val) eligible);
          slice_section =
            \<lparr>bs_key = ''counterparty_slice'', bs_kind = CounterpartySlice,
             bs_visibility = WorkerScratch, bs_depth = depth_val,
             bs_disclosure_class = Some Internal_disclosure,
             bs_origin = counterparty_origin (ts_counterparty shape),
             bs_payload = pk_counterparty_slice sources\<rparr>
      in \<lparr>bc_schema_version = 1, bc_task_shape = shape,
          bc_source_snapshot_id = snapshot_id X sources, bc_depth = depth_val, bc_tier = tier,
          bc_class = class,
          bc_sections = sort_key bs_key ([grant_section] @ packed_sections @ [slice_section]),
          bc_top_up_log = []\<rparr>)"

datatype briefcase_error =
    SectionNotFound string
  | VisibilityViolation string visibility_class
  | TopUpNotAllowed string
  | TopUpReplay ulid
  | TopUpSourceMismatch
  | TopUpDepthExceeded

section \<open>Views and exports\<close>

record worker_visibility =
  wv_worker_id :: ulid
  wv_allowed :: "visibility_class set"

definition worker_default :: "ulid \<Rightarrow> worker_visibility" where
  "worker_default worker_id = \<lparr>wv_worker_id = worker_id, wv_allowed = {WorkerScratch}\<rparr>"

record briefcase_view =
  vw_worker_id :: ulid
  vw_sections :: "briefcase_section list"

definition view_for :: "briefcase \<Rightarrow> worker_visibility \<Rightarrow> briefcase_view" where
  "view_for b visibility =
     \<lparr>vw_worker_id = wv_worker_id visibility,
      vw_sections = filter (\<lambda>s. bs_visibility s \<in> wv_allowed visibility)
        (filter (\<lambda>s. bs_visibility s \<noteq> KernelBound) (bc_sections b))\<rparr>"

fun export_loop ::
  "briefcase_section list \<Rightarrow> (string \<rightharpoonup> json) \<Rightarrow> string list \<Rightarrow> briefcase_error + (string \<rightharpoonup> json)" where
  "export_loop sections out [] = Inr out"
| "export_loop sections out (key # keys) =
     (case find (\<lambda>s. bs_key s = key) sections of
        None \<Rightarrow> Inl (SectionNotFound key)
      | Some s \<Rightarrow>
          if bs_visibility s \<noteq> ReturnedOutput then Inl (VisibilityViolation key (bs_visibility s))
          else export_loop sections (out(key \<mapsto> bs_payload s)) keys)"

definition export_returned_output ::
  "briefcase \<Rightarrow> string list \<Rightarrow> briefcase_error + (string \<rightharpoonup> json)" where
  "export_returned_output b keys = export_loop (bc_sections b) Map.empty keys"

section \<open>Top-ups\<close>

record top_up_policy =
  tp_max_depth :: "relationship_tier \<times> task_class \<times> section_kind \<rightharpoonup> u8"
  tp_max_total_sections :: "relationship_tier \<times> task_class \<rightharpoonup> u8"

definition top_up_policy_new :: "((relationship_tier \<times> task_class \<times> section_kind) \<times> u8) list \<Rightarrow> top_up_policy" where
  "top_up_policy_new rules =
     \<lparr>tp_max_depth = hashmap_collect rules, tp_max_total_sections = Map.empty\<rparr>"

definition with_max_total_sections ::
  "top_up_policy \<Rightarrow> ((relationship_tier \<times> task_class) \<times> u8) list \<Rightarrow> top_up_policy" where
  "with_max_total_sections p rules = p\<lparr>tp_max_total_sections := hashmap_collect rules\<rparr>"

fun tier_debug :: "relationship_tier \<Rightarrow> string" where
  "tier_debug Stranger = ''Stranger''"
| "tier_debug Known = ''Known''"
| "tier_debug Intimate = ''Intimate''"
| "tier_debug Owner_tier = ''Owner''"

fun task_class_debug :: "task_class \<Rightarrow> string" where
  "task_class_debug Conversation = ''Conversation''"
| "task_class_debug DraftApproval = ''DraftApproval''"
| "task_class_debug Effectful = ''Effectful''"

definition is_content :: "briefcase_section \<Rightarrow> bool" where
  "is_content s \<longleftrightarrow> bs_kind s = Preference \<or> bs_kind s = Skill"

definition content_count :: "briefcase \<Rightarrow> nat" where
  "content_count b = length (filter is_content (bc_sections b))"

definition section_ceiling :: "top_up_policy \<Rightarrow> briefcase \<Rightarrow> u8" where
  "section_ceiling policy b =
     (case tp_max_total_sections policy (bc_tier b, bc_class b) of
        Some n \<Rightarrow> n | None \<Rightarrow> bc_depth b)"

definition over_budget :: "ext \<Rightarrow> briefcase \<Rightarrow> top_up_request \<Rightarrow> top_up_policy \<Rightarrow> bool" where
  "over_budget X b request policy \<longleftrightarrow>
     \<not> list_ex (\<lambda>s. bs_key s = section_key X (tq_kind request) (tq_section_key request))
        (bc_sections b) \<and>
     unat (section_ceiling policy b) \<le> content_count b"

definition evaluate_top_up :: "ext \<Rightarrow> briefcase \<Rightarrow> top_up_request \<Rightarrow> top_up_policy \<Rightarrow> top_up_decision" where
  "evaluate_top_up X b request policy =
     (let axes = tier_debug (bc_tier b) @ ''/'' @ task_class_debug (bc_class b) @ ''/'' @
            section_kind_debug (tq_kind request);
          outcome =
            (case tp_max_depth policy (bc_tier b, bc_class b, tq_kind request) of
               Some max_depth \<Rightarrow>
                 if tq_requested_depth request \<le> max_depth
                 then (if over_budget X b request policy
                       then Denied_top_up (''top-up would exceed aggregate depth budget of '' @
                              decimal (unat (section_ceiling policy b)))
                       else Allowed)
                 else Denied_top_up (''requested depth '' @
                        decimal (unat (tq_requested_depth request)) @ '' exceeds policy max '' @
                        decimal (unat max_depth) @ '' for '' @ axes)
             | None \<Rightarrow> Denied_top_up (''no top-up policy for '' @ axes))
      in \<lparr>td_request = request, td_outcome = outcome, td_source_digest = None\<rparr>)"

definition record_top_up_decision :: "briefcase \<Rightarrow> top_up_decision \<Rightarrow> briefcase" where
  "record_top_up_decision b d = b\<lparr>bc_top_up_log := bc_top_up_log b @ [d]\<rparr>"

definition owner_origin :: "briefcase \<Rightarrow> provenance_origin option" where
  "owner_origin b =
     (case Option.bind (find (\<lambda>s. bs_kind s = Grant_section) (bc_sections b)) bs_origin of
        Some (OwnerOrigin p) \<Rightarrow> Some (OwnerOrigin p)
      | _ \<Rightarrow> None)"

text \<open>\<open>iter\_mut().find\<close> and overwrite; without a match, push and sort.\<close>

fun replace_first :: "('a \<Rightarrow> bool) \<Rightarrow> 'a \<Rightarrow> 'a list \<Rightarrow> 'a list" where
  "replace_first P y [] = []"
| "replace_first P y (x # xs) = (if P x then y # xs else x # replace_first P y xs)"

definition upsert_section :: "briefcase_section \<Rightarrow> briefcase_section list \<Rightarrow> briefcase_section list" where
  "upsert_section s sections =
     (if list_ex (\<lambda>x. bs_key x = bs_key s) sections
      then replace_first (\<lambda>x. bs_key x = bs_key s) s sections
      else sort_key bs_key (sections @ [s]))"

definition topped_up_section :: "ext \<Rightarrow> briefcase \<Rightarrow> top_up_request \<Rightarrow> json \<Rightarrow> briefcase_section" where
  "topped_up_section X b request payload =
     \<lparr>bs_key = section_key X (tq_kind request) (tq_section_key request), bs_kind = tq_kind request,
      bs_visibility = WorkerScratch, bs_depth = tq_requested_depth request,
      bs_disclosure_class = Some Sensitive_disclosure,
      bs_origin = (case tq_kind request of
          CounterpartySlice \<Rightarrow> counterparty_origin (ts_counterparty (bc_task_shape b))
        | _ \<Rightarrow> owner_origin b),
      bs_payload = payload\<rparr>"

definition briefcase_apply_top_up ::
  "ext \<Rightarrow> briefcase \<Rightarrow> top_up_decision \<Rightarrow> source_slice \<Rightarrow> top_up_policy \<Rightarrow> briefcase_error + briefcase" where
  "briefcase_apply_top_up X b decision source policy =
     (let request = td_request decision in
      if td_outcome decision \<noteq> Allowed then Inl (TopUpNotAllowed (tq_section_key request))
      else if list_ex (\<lambda>prior. tq_request_id (td_request prior) = tq_request_id request)
                (bc_top_up_log b)
      then Inl (TopUpReplay (tq_request_id request))
      else if ss_key source \<noteq> tq_section_key request then Inl TopUpSourceMismatch
      else if td_source_digest decision \<noteq> Some (digest_of X (ss_payload source))
      then Inl TopUpSourceMismatch
      else if tq_requested_depth request < ss_minimum_depth source then Inl TopUpDepthExceeded
      else if over_budget X b request policy then Inl TopUpDepthExceeded
      else Inr (record_top_up_decision
             (b\<lparr>bc_sections :=
                upsert_section (topped_up_section X b request (ss_payload source)) (bc_sections b)\<rparr>)
             decision))"

definition for_persistence :: "ext \<Rightarrow> top_up_request \<Rightarrow> top_up_request" where
  "for_persistence X r =
     r\<lparr>tq_section_key := ''key:'' @ digest_str (digest_of X (JString (tq_section_key r))),
       tq_justification := digest_str (digest_of X (JString (tq_justification r)))\<rparr>"

section \<open>The kernel's operations\<close>

definition grant_view :: "ext \<Rightarrow> task_grant \<Rightarrow> json" where
  "grant_view X g = JObject
     [(''schema_version'', JNumber (PosInt (ucast (tg_schema_version g)))),
      (''user'', JString (ulid_text X (principal_ulid (tg_user g)))),
      (''purpose'', JString (tg_purpose g)),
      (''issued_by'', JString (tg_issued_by g)),
      (''route_id'', JString (tg_route_id g)),
      (''agent_id'', JString (tg_agent_id g)),
      (''workflow_id'', JString (tg_workflow_id g)),
      (''capability_pack_id'', JString (tg_capability_pack_id g)),
      (''persona_id'', (case tg_persona_id g of None \<Rightarrow> JNull | Some p \<Rightarrow> JString p)),
      (''authority_sources'', jstrings (tg_authority_sources g)),
      (''allowed_actions'', jstrings (map as_str (tg_allowed_actions g))),
      (''approval_required_actions'', jstrings (map as_str (tg_approval_required_actions g))),
      (''denied_actions'', jstrings (map as_str (tg_denied_actions g))),
      (''allowed_egress_classes'', jstrings (map egress_as_str (tg_allowed_egress_classes g))),
      (''output_channels'', jstrings (tg_output_channels g)),
      (''limits'', JObject
         [(''max_model_calls'', JNumber (PosInt (ucast (gl_max_model_calls (tg_limits g))))),
          (''max_artifacts'', JNumber (PosInt (ucast (gl_max_artifacts (tg_limits g))))),
          (''max_runtime_seconds'', JNumber (PosInt (gl_max_runtime_seconds (tg_limits g))))]),
      (''mode'', JString (case tg_mode g of Live \<Rightarrow> ''live'' | Shadow \<Rightarrow> ''shadow''))]"

definition pack_for_task ::
  "ext \<Rightarrow> task_grant \<Rightarrow> counterparty_ref \<Rightarrow> json \<Rightarrow> task_class \<Rightarrow> learned_source list \<Rightarrow> briefcase" where
  "pack_for_task X g counterparty counterparty_slice class learned =
     (let tier = counterparty_tier counterparty;
          selected = select_relevant_sources learned (tg_workflow_id g) tier
      in pack X
           \<lparr>ts_route_id = tg_route_id g, ts_workflow_id = tg_workflow_id g,
            ts_counterparty = counterparty\<rparr>
           \<lparr>pk_grant_view = grant_view X g, pk_preferences = fst selected, pk_skills = snd selected,
            pk_counterparty_slice = counterparty_slice, pk_owner = tg_user g\<rparr>
           tier class)"

text \<open>
  The kernel's \<open>apply\_top\_up\<close>: an error leaves the briefcase as it was, since the surrounding
  transaction is rolled back; every decision that is returned is recorded with its key and
  justification replaced by digests.
\<close>

definition kernel_apply_top_up ::
  "ext \<Rightarrow> briefcase \<Rightarrow> top_up_request \<Rightarrow> top_up_policy \<Rightarrow> learned_source list \<Rightarrow>
     briefcase_error + (top_up_decision \<times> briefcase)" where
  "kernel_apply_top_up X b request policy learned =
     (if list_ex (\<lambda>prior. tq_request_id (td_request prior) = tq_request_id request) (bc_top_up_log b)
      then Inl (TopUpReplay (tq_request_id request))
      else
        let decision = evaluate_top_up X b request policy;
            persisted = (\<lambda>d. d\<lparr>td_request := for_persistence X request\<rparr>)
        in if td_outcome decision = Allowed then
             let selected = select_relevant_sources learned (ts_workflow_id (bc_task_shape b)) (bc_tier b);
                 candidates = (case tq_kind request of
                     Preference \<Rightarrow> fst selected | Skill \<Rightarrow> snd selected | _ \<Rightarrow> [])
             in (case find (\<lambda>s. ss_key s = tq_section_key request) candidates of
                   None \<Rightarrow>
                     let denied = decision\<lparr>td_outcome :=
                            Denied_top_up ''source is not relevant to this task shape''\<rparr>
                     in Inr (denied, record_top_up_decision b (persisted denied))
                 | Some source \<Rightarrow>
                     let bound = decision\<lparr>td_source_digest := Some (digest_of X (ss_payload source))\<rparr>
                     in (case briefcase_apply_top_up X b bound source policy of
                           Inl e \<Rightarrow> Inl e
                         | Inr b' \<Rightarrow> Inr (bound, b'\<lparr>bc_top_up_log :=
                             butlast (bc_top_up_log b') @ [persisted (last (bc_top_up_log b'))]\<rparr>)))
           else Inr (decision, record_top_up_decision b (persisted decision)))"

section \<open>Preparing outbound queries\<close>

primrec nested_strings :: "json \<Rightarrow> string set" where
  "nested_strings JNull = {}"
| "nested_strings (JBool b) = {}"
| "nested_strings (JNumber n) = {}"
| "nested_strings (JString s) = (if s = [] then {} else {s})"
| "nested_strings (JArray vs) = \<Union> (set (map nested_strings vs))"
| "nested_strings (JObject kvs) = \<Union> (snd ` set (map (map_prod id nested_strings) kvs))"

definition sensitive_terms_from_sections :: "briefcase_section list \<Rightarrow> string set" where
  "sensitive_terms_from_sections sections =
     \<Union> (set (map (\<lambda>s. nested_strings (bs_payload s))
       (filter (\<lambda>s. bs_disclosure_class s = Some Private_disclosure \<or>
                     bs_disclosure_class s = Some Sensitive_disclosure) sections)))"

datatype provenance_error = UnclassifiedSection string

fun provenance_loop ::
  "ext \<Rightarrow> classified_item list \<Rightarrow> briefcase_section list \<Rightarrow> provenance_error + disclosure_provenance" where
  "provenance_loop X items [] = Inr \<lparr>dp_items = items\<rparr>"
| "provenance_loop X items (s # sections) =
     (if bs_visibility s = KernelBound then provenance_loop X items sections
      else (case bs_disclosure_class s of
          None \<Rightarrow> Inl (UnclassifiedSection (bs_key s))
        | Some class \<Rightarrow>
            if \<not> requires_policy class then provenance_loop X items sections
            else (case bs_origin s of
                None \<Rightarrow> Inl (UnclassifiedSection (bs_key s))
              | Some orig \<Rightarrow> provenance_loop X
                  (items @ [\<lparr>ci_item_ref = \<lparr>ar_digest = digest_of X (bs_payload s), ar_schema_version = 1\<rparr>,
                             ci_disclosure_class = class, ci_origin = Some orig\<rparr>]) sections)))"

definition provenance_from_sections ::
  "ext \<Rightarrow> briefcase_section list \<Rightarrow> provenance_error + disclosure_provenance" where
  "provenance_from_sections X sections = provenance_loop X [] sections"

definition prepare_disclosure_query ::
  "ext \<Rightarrow> ulid \<Rightarrow> action_id \<Rightarrow> string \<Rightarrow> relationship_kind \<Rightarrow> egress_class \<Rightarrow> briefcase_section list \<Rightarrow>
     ulid \<Rightarrow> timestamp \<Rightarrow> provenance_error + prepared_query" where
  "prepare_disclosure_query X grant_id action raw_query relationship egress sections fresh now =
     (case provenance_from_sections X sections of
        Inl e \<Rightarrow> Inl e
      | Inr provenance \<Rightarrow>
          let generalized_query = generalize_query raw_query (sensitive_terms_from_sections sections)
          in Inr \<lparr>pq_id = ''prepared:'' @ ulid_text X fresh, pq_grant_id = grant_id,
               pq_action_id = action, pq_relationship = relationship, pq_egress_class = egress,
               pq_provenance = provenance, pq_generalized_query = generalized_query,
               pq_digest = digest_of_bytes X (str_bytes
                 (binding_text X grant_id action relationship egress generalized_query)),
               pq_created_at = now\<rparr>)"

end
