(* ===== verification/Briefcase_Invariant.thy ===== *)
theory Briefcase_Invariant
  imports Briefcase
begin

text \<open>
  What every reachable briefcase promises. A briefcase is packed once and then changed only by
  the kernel's top-ups (\<open>packed\<close>); the invariant \<open>briefcase_inv\<close> is shown by rule induction.
\<close>

lemma in_set_enumerateD: "(n, x) \<in> set (enumerate k xs) \<Longrightarrow> x \<in> set xs"
  by (auto simp: in_set_enumerate_eq)

section \<open>Every reachable briefcase\<close>

inductive packed ::
  "ext \<Rightarrow> top_up_policy \<Rightarrow> task_grant \<Rightarrow> counterparty_ref \<Rightarrow> json \<Rightarrow> learned_source list set \<Rightarrow>
     briefcase \<Rightarrow> bool"
  for X policy g cp cslice pools where
  initial: "learned \<in> pools \<Longrightarrow>
    packed X policy g cp cslice pools (pack_for_task X g cp cslice class learned)"
| top_up: "packed X policy g cp cslice pools b \<Longrightarrow> learned \<in> pools \<Longrightarrow>
    kernel_apply_top_up X b request policy learned = Inr (d, b') \<Longrightarrow>
    packed X policy g cp cslice pools b'"

text \<open>A content section: an owner's source relevant to the task, visible to the worker.\<close>

definition content_of ::
  "ext \<Rightarrow> task_grant \<Rightarrow> counterparty_ref \<Rightarrow> learned_source list set \<Rightarrow> briefcase_section \<Rightarrow> bool" where
  "content_of X g cp pools s \<longleftrightarrow>
     is_content s \<and> bs_visibility s = WorkerScratch \<and>
     bs_origin s = Some (OwnerOrigin (tg_user g)) \<and>
     (bs_disclosure_class s = Some Private_disclosure \<or>
      bs_disclosure_class s = Some Sensitive_disclosure) \<and>
     (\<exists>pool\<in>pools. \<exists>ls\<in>set pool.
        ls_kind ls = bs_kind s \<and> is_relevant ls (tg_workflow_id g) (counterparty_tier cp) \<and>
        bs_payload s = ls_payload ls \<and> bs_key s = section_key X (bs_kind s) (ls_key ls))"

definition grant_of :: "ext \<Rightarrow> task_grant \<Rightarrow> briefcase_section \<Rightarrow> bool" where
  "grant_of X g s \<longleftrightarrow>
     bs_kind s = Grant_section \<and> bs_key s = ''grant'' \<and> bs_visibility s = KernelBound \<and>
     bs_origin s = Some (OwnerOrigin (tg_user g)) \<and> bs_payload s = grant_view X g"

definition slice_of :: "counterparty_ref \<Rightarrow> json \<Rightarrow> briefcase_section \<Rightarrow> bool" where
  "slice_of cp cslice s \<longleftrightarrow>
     bs_kind s = CounterpartySlice \<and> bs_key s = ''counterparty_slice'' \<and>
     bs_visibility s = WorkerScratch \<and> bs_disclosure_class s = Some Internal_disclosure \<and>
     bs_origin s = counterparty_origin cp \<and> bs_payload s = cslice"

definition briefcase_inv ::
  "ext \<Rightarrow> top_up_policy \<Rightarrow> task_grant \<Rightarrow> counterparty_ref \<Rightarrow> json \<Rightarrow> learned_source list set \<Rightarrow>
     briefcase \<Rightarrow> bool" where
  "briefcase_inv X policy g cp cslice pools b \<longleftrightarrow>
     ts_counterparty (bc_task_shape b) = cp \<and> ts_workflow_id (bc_task_shape b) = tg_workflow_id g \<and>
     bc_tier b = counterparty_tier cp \<and> sorted (map bs_key (bc_sections b)) \<and>
     (\<forall>s\<in>set (bc_sections b). grant_of X g s \<or> slice_of cp cslice s \<or> content_of X g cp pools s) \<and>
     (\<exists>s\<in>set (bc_sections b). grant_of X g s) \<and>
     content_count b \<le> max (unat (bc_depth b)) (unat (section_ceiling policy b)) \<and>
     distinct (map (tq_request_id \<circ> td_request) (bc_top_up_log b))"

lemma section_key_hd:
  "\<exists>rest. section_key X Preference k = CHR ''p'' # rest"
  "\<exists>rest. section_key X Skill k = CHR ''s'' # rest"
  by (simp_all add: section_key_def to_lowercase_def is_ascii_def to_ascii_lowercase_def Let_def
      char_of_def bit_0)

lemma section_key_kind:
  assumes "section_key X k a = section_key X k' b" "k = Preference \<or> k = Skill"
    "k' = Preference \<or> k' = Skill"
  shows "k = k'"
  using assms section_key_hd [of X a] section_key_hd [of X b] by auto

lemma section_key_reserved:
  assumes "k = Preference \<or> k = Skill"
  shows "section_key X k a \<noteq> ''grant''" "section_key X k a \<noteq> ''counterparty_slice''"
  using assms section_key_hd [of X a] by auto

lemma content_key:
  "content_of X g cp pools s \<Longrightarrow> is_content s \<and> (\<exists>k. bs_key s = section_key X (bs_kind s) k)"
  by (auto simp: content_of_def)

lemma content_key_kind:
  assumes "content_of X g cp pools s \<or> grant_of X g s \<or> slice_of cp cslice s"
    and "bs_key s = section_key X k a" "k = Preference \<or> k = Skill"
  shows "bs_kind s = k" "content_of X g cp pools s"
proof -
  show c: "content_of X g cp pools s"
    using assms section_key_reserved [OF assms(3)] by (auto simp: grant_of_def slice_of_def)
  then obtain b where "bs_key s = section_key X (bs_kind s) b" "is_content s"
    using content_key by blast
  then show "bs_kind s = k"
    using assms(2,3) section_key_kind [of X "bs_kind s" b k a] by (simp add: is_content_def)
qed

lemma ranked_sources_in:
  assumes "(kind, s) \<in> set (ranked_sources pool workflow tier)"
  shows "(kind = Preference \<or> kind = Skill) \<and>
    (\<exists>ls\<in>set pool. ls_kind ls = kind \<and> is_relevant ls workflow tier \<and>
       ss_key s = ls_key ls \<and> ss_payload s = ls_payload ls)"
proof -
  obtain n s' where "(n, kind, s') \<in> set (enumerate 0 (sort_key (\<lambda>(kind, s). (ss_key s, kind))
            (map (\<lambda>s. (ls_kind s,
                 \<lparr>ss_key = ls_key s, ss_payload = ls_payload s, ss_minimum_depth = 1\<rparr>))
              (filter (\<lambda>s. is_relevant s workflow tier)
                (filter (\<lambda>s. ls_kind s = Preference \<or> ls_kind s = Skill) pool)))))"
    and s: "s = s'\<lparr>ss_minimum_depth := of_nat (min (n + 1) 255)\<rparr>"
    using assms unfolding ranked_sources_def Let_def by auto
  then have "(kind, s') \<in> set (map (\<lambda>s. (ls_kind s,
                 \<lparr>ss_key = ls_key s, ss_payload = ls_payload s, ss_minimum_depth = 1\<rparr>))
              (filter (\<lambda>s. is_relevant s workflow tier)
                (filter (\<lambda>s. ls_kind s = Preference \<or> ls_kind s = Skill) pool)))"
    by (auto dest: in_set_enumerateD)
  then show ?thesis using s by auto
qed

lemma selected_in:
  "s \<in> set (fst (select_relevant_sources pool workflow tier)) \<Longrightarrow>
     (Preference, s) \<in> set (ranked_sources pool workflow tier)"
  "s \<in> set (snd (select_relevant_sources pool workflow tier)) \<Longrightarrow>
     (Skill, s) \<in> set (ranked_sources pool workflow tier)"
  by (auto simp: select_relevant_sources_def Let_def)

lemma set_replace_first: "set (replace_first P y xs) \<subseteq> insert y (set xs)"
  by (induction xs) auto

lemma replace_first_keeps: "x \<in> set xs \<Longrightarrow> \<not> P x \<Longrightarrow> x \<in> set (replace_first P y xs)"
  by (induction xs) auto

lemma map_replace_first:
  "(\<And>x. P x \<Longrightarrow> f x = f y) \<Longrightarrow> map f (replace_first P y xs) = map f xs"
  by (induction xs) auto

lemma length_filter_replace_first:
  "(\<And>x. x \<in> set xs \<Longrightarrow> P x \<Longrightarrow> Q x = Q y) \<Longrightarrow>
     length (filter Q (replace_first P y xs)) = length (filter Q xs)"
  by (induction xs) auto

lemma set_upsert_section: "set (upsert_section s xs) \<subseteq> insert s (set xs)"
  by (simp add: upsert_section_def set_replace_first)

lemma sorted_upsert_section:
  "sorted (map bs_key xs) \<Longrightarrow> sorted (map bs_key (upsert_section s xs))"
  by (auto simp: upsert_section_def map_replace_first)

section \<open>The invariant\<close>

lemma set_eligible:
  assumes "(kind, s) \<in> set (take n (sort_key f
      (map (Pair Preference) (fst (select_relevant_sources pool w t)) @
       map (Pair Skill) (snd (select_relevant_sources pool w t)))))"
  shows "(kind, s) \<in> set (ranked_sources pool w t)"
  using in_set_takeD [OF assms] by (auto dest: selected_in)

lemma pack_sections:
  assumes "s \<in> set (bc_sections (pack_for_task X g cp cslice class learned))" "learned \<in> pools"
  shows "grant_of X g s \<or> slice_of cp cslice s \<or> content_of X g cp pools s"
proof -
  consider "grant_of X g s" | "slice_of cp cslice s"
    | kind src where "(kind, src) \<in> set (ranked_sources learned (tg_workflow_id g) (counterparty_tier cp))"
        "bs_key s = section_key X kind (ss_key src)" "bs_kind s = kind"
        "bs_visibility s = WorkerScratch" "bs_disclosure_class s = Some Private_disclosure"
        "bs_origin s = Some (OwnerOrigin (tg_user g))" "bs_payload s = ss_payload src"
    using assms(1) unfolding pack_for_task_def pack_def Let_def
    by (auto simp: grant_of_def slice_of_def simp del: sort_key_simps dest!: set_eligible)
  then show ?thesis
  proof cases
    case 3
    then show ?thesis
      using ranked_sources_in [OF 3(1)] assms(2)
      by (fastforce simp: content_of_def is_content_def)
  qed auto
qed

lemma pack_grant: "\<exists>s\<in>set (bc_sections (pack_for_task X g cp cslice class learned)). grant_of X g s"
  by (simp add: pack_for_task_def pack_def Let_def grant_of_def del: sort_key_simps)

lemma length_filter_sort_key: "length (filter P (sort_key f xs)) = length (filter P xs)"
  by (simp add: filter_sort)

lemma pack_content_count:
  "content_count (pack_for_task X g cp cslice class learned) \<le>
     unat (bc_depth (pack_for_task X g cp cslice class learned))"
  by (simp add: pack_for_task_def pack_def Let_def content_count_def length_filter_sort_key
      is_content_def order_trans [OF length_filter_le] del: sort_key_simps)

lemma pack_inv:
  assumes "learned \<in> pools"
  shows "briefcase_inv X policy g cp cslice pools (pack_for_task X g cp cslice class learned)"
  unfolding briefcase_inv_def
proof (intro conjI ballI)
  let ?b = "pack_for_task X g cp cslice class learned"
  show "content_count ?b \<le> max (unat (bc_depth ?b)) (unat (section_ceiling policy ?b))"
    using pack_content_count by (rule le_max_iff_disj [THEN iffD2, OF disjI1])
  show "\<exists>s\<in>set (bc_sections ?b). grant_of X g s" by (rule pack_grant)
  show "grant_of X g s \<or> slice_of cp cslice s \<or> content_of X g cp pools s"
    if "s \<in> set (bc_sections ?b)" for s
    using that assms by (rule pack_sections)
qed (simp_all add: pack_for_task_def pack_def Let_def del: sort_key_simps)

text \<open>
  The outcomes of a top-up: a replayed request changes nothing; otherwise the decision is
  recorded, and an allowed one adds or refreshes exactly one section.
\<close>

definition logged :: "briefcase \<Rightarrow> ulid \<Rightarrow> bool" where
  "logged b i \<longleftrightarrow> i \<in> (tq_request_id \<circ> td_request) ` set (bc_top_up_log b)"

definition relevant_source ::
  "briefcase \<Rightarrow> top_up_request \<Rightarrow> learned_source list \<Rightarrow> source_slice option" where
  "relevant_source b request learned =
     find (\<lambda>s. ss_key s = tq_section_key request)
       (case tq_kind request of
          Preference \<Rightarrow> fst (select_relevant_sources learned (ts_workflow_id (bc_task_shape b)) (bc_tier b))
        | Skill \<Rightarrow> snd (select_relevant_sources learned (ts_workflow_id (bc_task_shape b)) (bc_tier b))
        | _ \<Rightarrow> [])"

definition within_policy :: "ext \<Rightarrow> briefcase \<Rightarrow> top_up_request \<Rightarrow> top_up_policy \<Rightarrow> bool" where
  "within_policy X b request policy \<longleftrightarrow>
     (\<exists>m. tp_max_depth policy (bc_tier b, bc_class b, tq_kind request) = Some m \<and>
        tq_requested_depth request \<le> m) \<and> \<not> over_budget X b request policy"

lemma evaluate_top_up_Allowed:
  "td_outcome (evaluate_top_up X b request policy) = Allowed \<longleftrightarrow> within_policy X b request policy"
  by (auto simp: evaluate_top_up_def within_policy_def Let_def split: option.splits)

lemma evaluate_top_up_fields [simp]:
  "td_request (evaluate_top_up X b request policy) = request"
  "td_source_digest (evaluate_top_up X b request policy) = None"
  by (simp_all add: evaluate_top_up_def Let_def)

lemma for_persistence_id [simp]: "tq_request_id (for_persistence X r) = tq_request_id r"
  by (simp add: for_persistence_def)

lemma logged_list_ex:
  "list_ex (\<lambda>prior. tq_request_id (td_request prior) = i) (bc_top_up_log b) \<longleftrightarrow> logged b i"
  by (auto simp: list_ex_iff logged_def)

text \<open>The same function without the intermediate decision record.\<close>

lemma kernel_apply_top_up_eq:
  "kernel_apply_top_up X b request policy learned =
     (let d = evaluate_top_up X b request policy;
          add = (\<lambda>e sections. b\<lparr>bc_sections := sections,
              bc_top_up_log := bc_top_up_log b @ [e\<lparr>td_request := for_persistence X request\<rparr>]\<rparr>)
      in if logged b (tq_request_id request) then Inl (TopUpReplay (tq_request_id request))
         else if \<not> within_policy X b request policy then Inr (d, add d (bc_sections b))
         else (case relevant_source b request learned of
             None \<Rightarrow> let denied = d\<lparr>td_outcome := Denied_top_up ''source is not relevant to this task shape''\<rparr>
               in Inr (denied, add denied (bc_sections b))
           | Some source \<Rightarrow>
               if tq_requested_depth request < ss_minimum_depth source then Inl TopUpDepthExceeded
               else let bound = d\<lparr>td_source_digest := Some (digest_of X (ss_payload source))\<rparr>
                 in Inr (bound, add bound (upsert_section
                      (topped_up_section X b request (ss_payload source)) (bc_sections b)))))"
proof (cases "logged b (tq_request_id request) \<or> \<not> within_policy X b request policy")
  case True
  then show ?thesis
    by (auto simp: kernel_apply_top_up_def Let_def logged_list_ex evaluate_top_up_Allowed
        record_top_up_decision_def)
next
  case False
  then have [simp]: "\<not> over_budget X b request policy" "\<not> logged b (tq_request_id request)"
    "td_outcome (evaluate_top_up X b request policy) = Allowed" "within_policy X b request policy"
    by (auto simp: within_policy_def evaluate_top_up_Allowed)
  show ?thesis
  proof (cases "relevant_source b request learned")
    case None
    then show ?thesis
      unfolding kernel_apply_top_up_def relevant_source_def
      by (simp add: Let_def logged_list_ex record_top_up_decision_def)
  next
    case (Some source)
    then have "ss_key source = tq_section_key request"
      unfolding relevant_source_def by (auto dest: find_SomeD)
    then have "briefcase_apply_top_up X b
        (evaluate_top_up X b request policy\<lparr>td_source_digest := Some (digest_of X (ss_payload source))\<rparr>)
        source policy =
      (if tq_requested_depth request < ss_minimum_depth source then Inl TopUpDepthExceeded
       else Inr (record_top_up_decision
         (b\<lparr>bc_sections := upsert_section (topped_up_section X b request (ss_payload source))
              (bc_sections b)\<rparr>)
         (evaluate_top_up X b request policy\<lparr>td_source_digest := Some (digest_of X (ss_payload source))\<rparr>)))"
      by (simp add: briefcase_apply_top_up_def Let_def logged_list_ex)
    then show ?thesis
      using Some unfolding kernel_apply_top_up_def relevant_source_def
      by (simp add: Let_def logged_list_ex record_top_up_decision_def)
  qed
qed

lemma relevant_source_in:
  assumes "relevant_source b request learned = Some source"
  shows "(tq_kind request, source) \<in>
           set (ranked_sources learned (ts_workflow_id (bc_task_shape b)) (bc_tier b))"
    and "ss_key source = tq_section_key request"
    and "tq_kind request = Preference \<or> tq_kind request = Skill"
  using assms unfolding relevant_source_def
  by (auto split: section_kind.splits dest!: find_SomeD dest: selected_in)

lemma owner_origin_inv:
  assumes "briefcase_inv X policy g cp cslice pools b"
  shows "owner_origin b = Some (OwnerOrigin (tg_user g))"
proof -
  obtain s0 where "s0 \<in> set (bc_sections b)" "bs_kind s0 = Grant_section"
    using assms by (auto simp: briefcase_inv_def grant_of_def)
  then obtain s where s: "find (\<lambda>s. bs_kind s = Grant_section) (bc_sections b) = Some s"
    by (cases "find (\<lambda>s. bs_kind s = Grant_section) (bc_sections b)") (auto simp: find_None_iff)
  then have "s \<in> set (bc_sections b)" "bs_kind s = Grant_section" by (auto dest: find_SomeD)
  then have "bs_origin s = Some (OwnerOrigin (tg_user g))"
    using assms unfolding briefcase_inv_def
    by (auto simp: grant_of_def slice_of_def content_of_def is_content_def)
  then show ?thesis by (simp add: owner_origin_def s)
qed

lemma topped_up_content:
  assumes "briefcase_inv X policy g cp cslice pools b" "learned \<in> pools"
    and "relevant_source b request learned = Some source"
  shows "content_of X g cp pools (topped_up_section X b request (ss_payload source))"
proof -
  note k = relevant_source_in [OF assms(3)]
  obtain ls where ls: "ls \<in> set learned" "ls_kind ls = tq_kind request"
    "is_relevant ls (tg_workflow_id g) (counterparty_tier cp)"
    "ss_key source = ls_key ls" "ss_payload source = ls_payload ls"
    using ranked_sources_in [OF k(1)] assms(1) unfolding briefcase_inv_def by auto
  have "bs_key (topped_up_section X b request (ss_payload source)) =
      section_key X (tq_kind request) (ls_key ls)"
    using ls k(2) by (simp add: topped_up_section_def)
  then show ?thesis
    using ls k(3) assms(2) owner_origin_inv [OF assms(1)] unfolding content_of_def is_content_def
    by (auto simp: topped_up_section_def)
qed

lemma upsert_keeps_grant:
  assumes "grant_of X g s" "s \<in> set sections" "content_of X g cp pools new"
  shows "s \<in> set (upsert_section new sections)"
proof -
  have "bs_key s \<noteq> bs_key new"
    using assms(1) section_key_reserved(1) [of "bs_kind new" X] content_key [OF assms(3)]
    unfolding grant_of_def is_content_def by metis
  then show ?thesis
    using assms(2) by (simp add: upsert_section_def replace_first_keeps)
qed

lemma upsert_count:
  assumes ok: "\<And>s. s \<in> set sections \<Longrightarrow> grant_of X g s \<or> slice_of cp cslice s \<or> content_of X g cp pools s"
    and new: "content_of X g cp pools new"
  shows "length (filter is_content (upsert_section new sections)) =
    (if list_ex (\<lambda>x. bs_key x = bs_key new) sections then 0 else 1) + length (filter is_content sections)"
proof -
  obtain k where k: "bs_key new = section_key X (bs_kind new) k" "is_content new"
    using content_key [OF new] by blast
  have "is_content s" if "s \<in> set sections" "bs_key s = bs_key new" for s
  proof -
    have "content_of X g cp pools s"
      using content_key_kind(2) [of X g cp pools s cslice "bs_kind new" k] ok [OF that(1)] that(2) k
      unfolding is_content_def by metis
    then show ?thesis using content_key by blast
  qed
  then show ?thesis
    using k(2) by (auto simp: upsert_section_def length_filter_replace_first length_filter_sort_key)
qed

lemma section_ceiling_cong:
  "bc_tier b' = bc_tier b \<Longrightarrow> bc_class b' = bc_class b \<Longrightarrow> bc_depth b' = bc_depth b \<Longrightarrow>
     section_ceiling policy b' = section_ceiling policy b"
  by (simp add: section_ceiling_def split: option.splits)

text \<open>Recording a decision for a new request, with sections that are still in order.\<close>

lemma inv_record:
  assumes inv: "briefcase_inv X policy g cp cslice pools b"
    and fresh: "\<not> logged b (tq_request_id (td_request e))"
    and sorted: "sorted (map bs_key sections)"
    and ok: "\<And>s. s \<in> set sections \<Longrightarrow> grant_of X g s \<or> slice_of cp cslice s \<or> content_of X g cp pools s"
    and grant: "\<exists>s\<in>set sections. grant_of X g s"
    and count: "length (filter is_content sections) \<le>
      max (unat (bc_depth b)) (unat (section_ceiling policy b))"
  shows "briefcase_inv X policy g cp cslice pools
    (b\<lparr>bc_sections := sections, bc_top_up_log := bc_top_up_log b @ [e]\<rparr>)"
proof -
  have "section_ceiling policy (b\<lparr>bc_sections := sections, bc_top_up_log := bc_top_up_log b @ [e]\<rparr>) =
      section_ceiling policy b"
    by (rule section_ceiling_cong) simp_all
  then show ?thesis
    using assms unfolding briefcase_inv_def logged_def content_count_def by simp
qed

lemma top_up_inv:
  assumes inv: "briefcase_inv X policy g cp cslice pools b" and "learned \<in> pools"
    and run: "kernel_apply_top_up X b request policy learned = Inr (d, b')"
  shows "briefcase_inv X policy g cp cslice pools b'"
proof -
  let ?e = "\<lambda>d. d\<lparr>td_request := for_persistence X request\<rparr>"
  have fresh: "\<not> logged b (tq_request_id request)"
    using run unfolding kernel_apply_top_up_eq Let_def by (auto split: if_splits)
  have keep: "briefcase_inv X policy g cp cslice pools
      (b\<lparr>bc_sections := bc_sections b, bc_top_up_log := bc_top_up_log b @ [?e d]\<rparr>)" for d
    using inv fresh
    by (intro inv_record) (auto simp: briefcase_inv_def content_count_def)
  show ?thesis
  proof (cases "within_policy X b request policy \<and> relevant_source b request learned \<noteq> None")
    case True
    then obtain source where src: "relevant_source b request learned = Some source" by auto
    let ?new = "topped_up_section X b request (ss_payload source)"
    have new: "content_of X g cp pools ?new"
      using topped_up_content [OF inv assms(2) src] .
    have b': "b' = b\<lparr>bc_sections := upsert_section ?new (bc_sections b),
        bc_top_up_log := bc_top_up_log b @ [?e d]\<rparr>"
      using run True fresh src unfolding kernel_apply_top_up_eq Let_def by (auto split: if_splits)
    have ok: "grant_of X g s \<or> slice_of cp cslice s \<or> content_of X g cp pools s"
      if "s \<in> set (bc_sections b)" for s
      using inv that by (auto simp: briefcase_inv_def)
    have "bs_key ?new = section_key X (tq_kind request) (tq_section_key request)"
      by (simp add: topped_up_section_def)
    then have "length (filter is_content (upsert_section ?new (bc_sections b))) \<le>
        max (unat (bc_depth b)) (unat (section_ceiling policy b))"
      using inv True upsert_count [OF ok new]
      by (auto simp: briefcase_inv_def content_count_def within_policy_def over_budget_def)
    moreover have "grant_of X g s \<or> slice_of cp cslice s \<or> content_of X g cp pools s"
      if "s \<in> set (upsert_section ?new (bc_sections b))" for s
      using that set_upsert_section [of ?new] ok new by blast
    ultimately show ?thesis
      unfolding b' using inv fresh upsert_keeps_grant [OF _ _ new]
      by (intro inv_record) (auto simp: briefcase_inv_def sorted_upsert_section)
  next
    case False
    then show ?thesis
      using run fresh keep unfolding kernel_apply_top_up_eq Let_def
      by (auto split: if_splits option.splits)
  qed
qed

lemma packed_inv: "packed X policy g cp cslice pools b \<Longrightarrow> briefcase_inv X policy g cp cslice pools b"
  by (induction rule: packed.induct) (auto intro: pack_inv top_up_inv)

lemma export_loop_Inr:
  assumes "export_loop sections out keys = Inr m" "key \<in> set keys"
  shows "\<exists>s\<in>set sections. bs_key s = key \<and> bs_visibility s = ReturnedOutput"
  using assms
  by (induction sections out keys rule: export_loop.induct)
    (auto split: option.splits if_splits dest: find_SomeD)

section \<open>Determinism of packing\<close>

lemma ranked_sources_mset:
  assumes "mset pool = mset pool'" "distinct (map (\<lambda>s. (ls_key s, ls_kind s)) pool)"
  shows "ranked_sources pool workflow tier = ranked_sources pool' workflow tier"
proof -
  let ?slice = "\<lambda>s. (ls_kind s, \<lparr>ss_key = ls_key s, ss_payload = ls_payload s, ss_minimum_depth = 1\<rparr>)"
  let ?keep = "\<lambda>pool. filter (\<lambda>s. is_relevant s workflow tier)
      (filter (\<lambda>s. ls_kind s = Preference \<or> ls_kind s = Skill) pool)"
  have eq: "(\<lambda>(kind, s). (ss_key s, kind)) \<circ> ?slice = (\<lambda>s. (ls_key s, ls_kind s))"
    by auto
  have "distinct (map (\<lambda>(kind, s). (ss_key s, kind)) (map ?slice (?keep pool)))"
    unfolding map_map eq by (intro distinct_map_filter assms(2))
  moreover have "mset (map ?slice (?keep pool)) = mset (map ?slice (?keep pool'))"
    using assms(1) by simp
  ultimately have "sort_key (\<lambda>(kind, s). (ss_key s, kind)) (map ?slice (?keep pool)) =
      sort_key (\<lambda>(kind, s). (ss_key s, kind)) (map ?slice (?keep pool'))"
    by (rule sort_key_unique [rotated])
  then show ?thesis by (simp only: ranked_sources_def)
qed

section \<open>Properties\<close>

text \<open>A pool of three sources, two of them relevant to a client, and a policy for one more.\<close>

definition ex_source :: "string \<Rightarrow> section_kind \<Rightarrow> relationship_tier list \<Rightarrow> learned_source" where
  "ex_source key kind tiers =
     \<lparr>ls_key = key, ls_kind = kind, ls_payload = JString key, ls_applicable_tiers = tiers,
      ls_applicable_workflows = []\<rparr>"

definition ex_pool :: "learned_source list" where
  "ex_pool = [ex_source ''tone'' Preference [], ex_source ''hours'' Skill [Known],
     ex_source ''nickname'' Preference [Intimate], ex_source ''zone'' Skill []]"

definition ex_policy :: top_up_policy where
  "ex_policy = with_max_total_sections
     (top_up_policy_new [((Known, Conversation, Skill), 4)]) [((Known, Conversation), 3)]"

definition ex_briefcase :: briefcase where
  "ex_briefcase =
     pack_for_task ex_ext ex_grant (Bound_counterparty 5 Client) JNull Conversation ex_pool"

definition ex_top_up :: top_up_request where
  "ex_top_up = \<lparr>tq_request_id = 9, tq_section_key = ''zone'', tq_kind = Skill,
     tq_requested_depth = 4, tq_justification = []\<rparr>"

definition ex_topped_up :: "briefcase_error + (top_up_decision \<times> briefcase)" where
  "ex_topped_up = kernel_apply_top_up ex_ext ex_briefcase ex_top_up ex_policy ex_pool"

lemma ex_topped_up_allowed:
  "case ex_topped_up of Inr (d, b) \<Rightarrow> td_outcome d = Allowed \<and>
       map bs_key (bc_sections b) =
         [''counterparty_slice'', ''grant'', ''preference:tone'', ''skill:hours'', ''skill:zone'']
   | Inl _ \<Rightarrow> False"
  by code_simp

text \<open>
  C35. What a worker can see. In every briefcase that packing and any sequence of top-ups can
  produce, a worker's view shows only the counterparty slice and preferences or skills of the
  owner that are relevant to the task's workflow and relationship tier; the grant never appears,
  whatever visibility the worker was given. The sections stay in key order, and there are never
  more preferences and skills than the packing depth or the policy's ceiling allows.
\<close>

theorem briefcase_confines_worker:
  assumes "packed X policy g cp cslice pools b"
  shows "(\<forall>s\<in>set (vw_sections (view_for b v)). slice_of cp cslice s \<or> content_of X g cp pools s) \<and>
    sorted (map bs_key (bc_sections b)) \<and>
    content_count b \<le> max (unat (bc_depth b)) (unat (section_ceiling policy b)) \<and>
    (export_returned_output b keys = Inr out \<longrightarrow> keys = [])"
proof -
  note inv = packed_inv [OF assms, unfolded briefcase_inv_def]
  have "slice_of cp cslice s \<or> content_of X g cp pools s"
    if "s \<in> set (vw_sections (view_for b v))" for s
    using that inv by (auto simp: view_for_def grant_of_def)
  moreover have "bs_visibility s \<noteq> ReturnedOutput" if "s \<in> set (bc_sections b)" for s
    using that inv by (auto simp: grant_of_def slice_of_def content_of_def)
  moreover have "\<exists>s\<in>set (bc_sections b). bs_visibility s = ReturnedOutput"
    if "export_returned_output b keys = Inr out" "k \<in> set keys" for k
    using export_loop_Inr that unfolding export_returned_output_def by blast
  ultimately show ?thesis
    using inv by (metis list.set_intros(1) list.exhaust)
qed

lemma ex_packed:
  assumes "ex_topped_up = Inr (d, b)"
  shows "packed ex_ext ex_policy ex_grant (Bound_counterparty 5 Client) JNull {ex_pool} b"
  using assms unfolding ex_topped_up_def ex_briefcase_def
  by (intro packed.top_up [OF packed.initial]) auto

lemma ex_topped_up_Inr:
  "\<exists>d b. ex_topped_up = Inr (d, b) \<and> td_outcome d = Allowed \<and> length (bc_sections b) = 5"
proof -
  obtain d b where "ex_topped_up = Inr (d, b)" "td_outcome d = Allowed"
    "map bs_key (bc_sections b) =
       [''counterparty_slice'', ''grant'', ''preference:tone'', ''skill:hours'', ''skill:zone'']"
    using ex_topped_up_allowed by (auto split: sum.splits)
  moreover from this(3) have "length (bc_sections b) = 5"
    by (drule_tac arg_cong [of _ _ length]) simp
  ultimately show ?thesis by blast
qed

theorem briefcase_confines_worker_witness:
  "\<exists>d b. ex_topped_up = Inr (d, b) \<and> length (bc_sections b) = 5 \<and>
     (\<forall>s\<in>set (vw_sections (view_for b (worker_default 1))).
        slice_of (Bound_counterparty 5 Client) JNull s \<or>
        content_of ex_ext ex_grant (Bound_counterparty 5 Client) {ex_pool} s)"
proof -
  obtain d b where run: "ex_topped_up = Inr (d, b)" and "length (bc_sections b) = 5"
    using ex_topped_up_Inr by blast
  then show ?thesis
    using briefcase_confines_worker [OF ex_packed [OF run], of "worker_default 1"] by blast
qed

text \<open>
  A top-up is decided exactly. A request whose id was decided before is refused as a replay;
  otherwise it is granted exactly when the policy covers its kind at the requested depth, the
  section budget has room, and the kernel's own pool holds a relevant source of that key and kind
  within the requested depth. A decision is recorded, so the same request id is never decided
  again, and a denial leaves the sections as they were.
\<close>

theorem top_up_exact:
  "(case kernel_apply_top_up X b request policy learned of
      Inl e \<Rightarrow>
        logged b (tq_request_id request) \<and> e = TopUpReplay (tq_request_id request) \<or>
        \<not> logged b (tq_request_id request) \<and> within_policy X b request policy \<and>
        e = TopUpDepthExceeded \<and>
        (\<exists>src. relevant_source b request learned = Some src \<and>
           tq_requested_depth request < ss_minimum_depth src)
    | Inr (d, b') \<Rightarrow>
        \<not> logged b (tq_request_id request) \<and>
        (td_outcome d = Allowed \<longleftrightarrow> within_policy X b request policy \<and>
           (\<exists>src. relevant_source b request learned = Some src \<and>
              ss_minimum_depth src \<le> tq_requested_depth request)) \<and>
        (td_outcome d \<noteq> Allowed \<longrightarrow> bc_sections b' = bc_sections b) \<and>
        (\<forall>again policy' learned'. tq_request_id again = tq_request_id request \<longrightarrow>
           kernel_apply_top_up X b' again policy' learned' =
             Inl (TopUpReplay (tq_request_id again))))"
proof (cases "kernel_apply_top_up X b request policy learned")
  case (Inl e)
  then show ?thesis
    unfolding kernel_apply_top_up_eq Let_def by (auto split: option.splits if_splits)
next
  case (Inr r)
  obtain d b' where r: "r = (d, b')" by (cases r)
  note run = Inr [unfolded r kernel_apply_top_up_eq Let_def]
  have fresh: "\<not> logged b (tq_request_id request)" using run by (auto split: if_splits)
  have "logged b' (tq_request_id request)"
    using run by (auto simp: logged_def split: if_splits option.splits)
  then have "kernel_apply_top_up X b' again policy' learned' = Inl (TopUpReplay (tq_request_id again))"
    if "tq_request_id again = tq_request_id request" for again policy' learned'
    using that by (simp add: kernel_apply_top_up_eq Let_def)
  moreover have "(td_outcome d = Allowed \<longleftrightarrow> within_policy X b request policy \<and>
      (\<exists>src. relevant_source b request learned = Some src \<and>
         ss_minimum_depth src \<le> tq_requested_depth request)) \<and>
      (td_outcome d \<noteq> Allowed \<longrightarrow> bc_sections b' = bc_sections b)"
    using run evaluate_top_up_Allowed [of X b request policy]
    by (auto simp: not_less split: if_splits option.splits)
  ultimately show ?thesis using fresh unfolding Inr r by simp
qed

theorem top_up_exact_witness:
  "\<exists>d b. ex_topped_up = Inr (d, b) \<and> td_outcome d = Allowed \<and>
     kernel_apply_top_up ex_ext b ex_top_up ex_policy ex_pool = Inl (TopUpReplay 9)"
proof -
  obtain d b where run: "ex_topped_up = Inr (d, b)" and "td_outcome d = Allowed"
    using ex_topped_up_Inr by blast
  moreover have "tq_request_id ex_top_up = 9" by (simp add: ex_top_up_def)
  ultimately show ?thesis
    using top_up_exact [where X = ex_ext and b = ex_briefcase and request = ex_top_up and
        policy = ex_policy and learned = ex_pool]
    unfolding ex_topped_up_def by auto
qed

text \<open>
  Packing is deterministic over the pool: for a pool whose keys are distinct within a kind,
  the briefcase, its snapshot digest included, does not depend on the order of the pool.
\<close>

theorem pack_order_irrelevant:
  assumes "mset learned = mset learned'" "distinct (map (\<lambda>s. (ls_key s, ls_kind s)) learned)"
  shows "pack_for_task X g cp cslice class learned = pack_for_task X g cp cslice class learned'"
  using ranked_sources_mset [OF assms]
  by (simp add: pack_for_task_def select_relevant_sources_def)

theorem pack_order_irrelevant_witness:
  "pack_for_task ex_ext ex_grant (Bound_counterparty 5 Client) JNull Conversation (rev ex_pool) =
     ex_briefcase"
  using pack_order_irrelevant [of "rev ex_pool" ex_pool] unfolding ex_briefcase_def
  by (simp add: ex_pool_def ex_source_def)

end
