(* ===== verification/Reviewed_Scope.thy ===== *)
theory Reviewed_Scope
  imports Briefcase "HOL-Library.Option_ord"
begin

text \<open>
  Resolved action contexts and owner-reviewed scopes
  (\<open>src/crates/openspine-schemas/src/resolved_context.rs\<close>, \<open>reviewed_scope.rs\<close>,
  \<open>reviewed_scope_narrow.rs\<close>).

  The kernel resolves an action into a context with a value for every scope dimension its catalog
  descriptor requires. A reviewed scope seals those values under a digest; later contexts are
  compared with it dimension by dimension. Ordered maps over the dimensions are partial functions
  read in the order of declaration; an ordered set of strings is a set, written out sorted.
\<close>

section \<open>Contexts\<close>

record resolved_action_context_input =
  ri_connector_instance_id :: string
  ri_account_role :: "account_role option"
  ri_account_identity_digest :: "digest option"
  ri_target_refs :: "target_ref list"
  ri_counterparty :: "counterparty_ref option"
  ri_bound_parameters :: "(string \<times> string) list"
  ri_target_digest :: "digest option"
  ri_payload_digest :: "digest option"
  ri_workflow_id :: "string option"
  ri_task_shape_digest :: "digest option"

record resolved_action_context =
  cx_schema_version :: u32
  cx_action_id :: action_id
  cx_descriptor_version :: u32
  cx_delegation_policy_version :: u32
  cx_required_scope_dimensions :: "reviewed_scope_dimension set"
  cx_implementation :: action_implementation_descriptor
  cx_connector_instance_id :: string
  cx_account_role :: "account_role option"
  cx_account_identity_digest :: "digest option"
  cx_target_refs :: "target_ref list"
  cx_counterparty_identity_id :: "ulid option"
  cx_relationship_tier :: "relationship_tier option"
  cx_bound_parameters :: "(string \<times> string) list"
  cx_target_digest :: "digest option"
  cx_payload_digest :: "digest option"
  cx_effect_destination :: data_destination
  cx_egress_class :: "egress_class option"
  cx_disclosure_class :: "disclosure_class option"
  cx_output_channels :: "string set"
  cx_workflow_id :: "string option"
  cx_task_shape_digest :: "digest option"
  cx_compatibility_digest :: digest

datatype resolved_action_context_error =
    InvalidDelegationCatalog delegation_catalog_error
  | MissingCatalogEgressDeclaration action_id
  | MissingScopeDimension reviewed_scope_dimension
  | CounterpartyMustBeBound
  | InvalidTargetReference

text \<open>The dimensions in the order of declaration, which is their \<open>Ord\<close>.\<close>

definition all_dimensions :: "reviewed_scope_dimension list" where
  "all_dimensions =
     [ActionDim, DescriptorDim, ConnectorImplementation, ConnectorInstance, AccountRole,
      AccountIdentity, Target, Counterparty, RelationshipTier, BoundParameters, TargetDigest,
      PayloadDigest, EffectDestination, EgressClassDim, DisclosureClass, OutputChannel, Workflow,
      TaskShape]"

lemma set_all_dimensions [simp]: "d \<in> set all_dimensions"
  by (cases d) (simp_all add: all_dimensions_def)

lemma distinct_all_dimensions [simp]: "distinct all_dimensions"
  by (simp add: all_dimensions_def)

definition dimension_list :: "reviewed_scope_dimension set \<Rightarrow> reviewed_scope_dimension list" where
  "dimension_list ds = filter (\<lambda>d. d \<in> ds) all_dimensions"

lemma set_dimension_list [simp]: "set (dimension_list ds) = ds"
  by (auto simp: dimension_list_def)

fun dimension_name :: "reviewed_scope_dimension \<Rightarrow> string" where
  "dimension_name ActionDim = ''action''"
| "dimension_name DescriptorDim = ''descriptor''"
| "dimension_name ConnectorImplementation = ''connector_implementation''"
| "dimension_name ConnectorInstance = ''connector_instance''"
| "dimension_name AccountRole = ''account_role''"
| "dimension_name AccountIdentity = ''account_identity''"
| "dimension_name Target = ''target''"
| "dimension_name Counterparty = ''counterparty''"
| "dimension_name RelationshipTier = ''relationship_tier''"
| "dimension_name BoundParameters = ''bound_parameters''"
| "dimension_name TargetDigest = ''target_digest''"
| "dimension_name PayloadDigest = ''payload_digest''"
| "dimension_name EffectDestination = ''effect_destination''"
| "dimension_name EgressClassDim = ''egress_class''"
| "dimension_name DisclosureClass = ''disclosure_class''"
| "dimension_name OutputChannel = ''output_channel''"
| "dimension_name Workflow = ''workflow''"
| "dimension_name TaskShape = ''task_shape''"

fun destination_name :: "data_destination \<Rightarrow> string" where
  "destination_name InternalOnly = ''internal_only''"
| "destination_name OwnerDevice_destination = ''owner_device''"
| "destination_name OwnerCloudAccount = ''owner_cloud_account''"
| "destination_name BoundCounterparty = ''bound_counterparty''"
| "destination_name SharedWorkspace = ''shared_workspace''"
| "destination_name Public_destination = ''public''"
| "destination_name ExternalService = ''external_service''"

fun target_kind_rank :: "target_ref_kind \<Rightarrow> nat" where
  "target_kind_rank EmailThread = 0"
| "target_kind_rank Conversation_target = 1"
| "target_kind_rank Project = 2"
| "target_kind_rank Deployment = 3"
| "target_kind_rank SecretSlot = 4"
| "target_kind_rank NoTarget = 5"

definition compatibility_json ::
  "action_descriptor \<Rightarrow> action_implementation_descriptor \<Rightarrow> action_egress_declaration \<Rightarrow> u32 \<Rightarrow> json" where
  "compatibility_json d m e policy_version = JObject
     [(''action_id'', JString (as_str (ad_action_id d))),
      (''descriptor_version'', jnum (ad_descriptor_version d)),
      (''delegation_policy_version'', jnum policy_version),
      (''implementation_id'', JString (implementation_str (ai_implementation_id m))),
      (''implementation_version'', jnum (ai_implementation_version m)),
      (''connector_kind'', JString (ai_connector_kind m)),
      (''executor_id'', JString (ai_executor_id m)),
      (''executor_version'', jnum (ai_executor_version m)),
      (''resolver_id'', JString (ai_resolver_id m)),
      (''resolver_version'', jnum (ai_resolver_version m)),
      (''effect_destination'', JString (destination_name (as_destination (ad_semantics d)))),
      (''required_scope_dimensions'',
         jstrings (map dimension_name (dimension_list (ad_required_scope_dimensions d)))),
      (''egress_class'', jopt (JString \<circ> egress_as_str) (ed_egress_class e)),
      (''output_channels'', jopt jstrings (ed_output_channels e))]"

fun dimension_present :: "resolved_action_context \<Rightarrow> reviewed_scope_dimension \<Rightarrow> bool" where
  "dimension_present c ConnectorInstance = (\<not> str_is_blank (cx_connector_instance_id c))"
| "dimension_present c AccountRole = (cx_account_role c \<noteq> None)"
| "dimension_present c AccountIdentity = (cx_account_identity_digest c \<noteq> None)"
| "dimension_present c Target =
     (cx_target_refs c \<noteq> [] \<and> list_all (\<lambda>t. tr_id t \<noteq> None) (cx_target_refs c))"
| "dimension_present c Counterparty = (cx_counterparty_identity_id c \<noteq> None)"
| "dimension_present c RelationshipTier = (cx_relationship_tier c \<noteq> None)"
| "dimension_present c TargetDigest = (cx_target_digest c \<noteq> None)"
| "dimension_present c PayloadDigest = (cx_payload_digest c \<noteq> None)"
| "dimension_present c EgressClassDim = (cx_egress_class c \<noteq> None)"
| "dimension_present c DisclosureClass = (cx_disclosure_class c \<noteq> None)"
| "dimension_present c OutputChannel = (cx_output_channels c \<noteq> {})"
| "dimension_present c Workflow =
     (case cx_workflow_id c of None \<Rightarrow> False | Some w \<Rightarrow> \<not> str_is_blank w)"
| "dimension_present c TaskShape = (cx_task_shape_digest c \<noteq> None)"
| "dimension_present c _ = True"

definition validate_required_dimensions ::
  "resolved_action_context \<Rightarrow> resolved_action_context_error + unit" where
  "validate_required_dimensions c =
     (case find (\<lambda>d. \<not> dimension_present c d) (dimension_list (cx_required_scope_dimensions c)) of
        Some d \<Rightarrow> Inl (MissingScopeDimension d)
      | None \<Rightarrow> Inr ())"

definition context_of ::
  "ext \<Rightarrow> action_descriptor \<Rightarrow> action_implementation_descriptor \<Rightarrow> action_egress_declaration \<Rightarrow>
     resolved_action_context_input \<Rightarrow> (ulid \<times> relationship_tier) option \<Rightarrow> resolved_action_context" where
  "context_of X d m e inp bound =
     (let policy_version = (case ad_delegation_policy d of
          None \<Rightarrow> 0 | Some p \<Rightarrow> dp_policy_version p)
      in \<lparr>cx_schema_version = 1, cx_action_id = ad_action_id d,
          cx_descriptor_version = ad_descriptor_version d,
          cx_delegation_policy_version = policy_version,
          cx_required_scope_dimensions = ad_required_scope_dimensions d, cx_implementation = m,
          cx_connector_instance_id = ri_connector_instance_id inp,
          cx_account_role = ri_account_role inp,
          cx_account_identity_digest = ri_account_identity_digest inp,
          cx_target_refs = remdups_adj
            (sort_key (\<lambda>t. (target_kind_rank (tr_kind t), tr_id t)) (ri_target_refs inp)),
          cx_counterparty_identity_id = map_option fst bound,
          cx_relationship_tier = map_option snd bound,
          cx_bound_parameters = ri_bound_parameters inp,
          cx_target_digest = ri_target_digest inp, cx_payload_digest = ri_payload_digest inp,
          cx_effect_destination = as_destination (ad_semantics d),
          cx_egress_class = ed_egress_class e, cx_disclosure_class = None,
          cx_output_channels = set (case ed_output_channels e of None \<Rightarrow> [] | Some cs \<Rightarrow> cs),
          cx_workflow_id = ri_workflow_id inp, cx_task_shape_digest = ri_task_shape_digest inp,
          cx_compatibility_digest = digest_of X (compatibility_json d m e policy_version)\<rparr>)"

definition context_try_new ::
  "ext \<Rightarrow> action_catalog \<Rightarrow> action_id \<Rightarrow> action_implementation_id \<Rightarrow> resolved_action_context_input \<Rightarrow>
     resolved_action_context_error + resolved_action_context" where
  "context_try_new X catalog a i inp =
     (case validated_delegation_contract catalog a i of
        Inl err \<Rightarrow> Inl (InvalidDelegationCatalog err)
      | Inr (d, m) \<Rightarrow>
     (case egress_decl_for catalog a of
        None \<Rightarrow> Inl (MissingCatalogEgressDeclaration a)
      | Some e \<Rightarrow>
     (case (case ri_counterparty inp of
              Some (Bound_counterparty identity relationship) \<Rightarrow>
                Inr (Some (identity, tier_of_relationship relationship))
            | Some (Unresolved_counterparty _ _) \<Rightarrow>
                if Counterparty \<in> ad_required_scope_dimensions d \<or>
                   RelationshipTier \<in> ad_required_scope_dimensions d
                then Inl CounterpartyMustBeBound else Inr None
            | None \<Rightarrow> Inr None) of
        Inl err \<Rightarrow> Inl err
      | Inr bound \<Rightarrow>
          if list_ex (\<lambda>t. case tr_id t of None \<Rightarrow> False | Some s \<Rightarrow> str_is_blank s) (ri_target_refs inp)
          then Inl InvalidTargetReference
          else
            let c = context_of X d m e inp bound in
            (case validate_required_dimensions c of Inl err \<Rightarrow> Inl err | Inr _ \<Rightarrow> Inr c))))"

section \<open>Reviewed scopes\<close>

record connector_implementation_scope =
  is_implementation_id :: action_implementation_id
  is_implementation_version :: u32
  is_connector_kind :: string
  is_executor_id :: string
  is_executor_version :: u32
  is_resolver_id :: string
  is_resolver_version :: u32

datatype reviewed_scope_value =
    ActionValue action_id
  | DescriptorVersionValue u32
  | ConnectorImplementationValue connector_implementation_scope
  | ConnectorInstanceValue string
  | AccountRoleValue account_role
  | AccountIdentityValue digest
  | TargetValue "target_ref list"
  | CounterpartyValue ulid
  | RelationshipTierValue relationship_tier
  | BoundParametersValue "(string \<times> string) list"
  | TargetDigestValue digest
  | PayloadDigestValue digest
  | EffectDestinationValue data_destination
  | EgressClassValue egress_class
  | DisclosureClassValue disclosure_class
  | OutputChannelsValue "string set"
  | WorkflowValue string
  | TaskShapeValue digest

type_synonym scope_values = "reviewed_scope_dimension \<rightharpoonup> reviewed_scope_value"

record reviewed_action_scope =
  rs_schema_version :: u32
  rs_scope_version :: u32
  rs_action_id :: action_id
  rs_descriptor_version :: u32
  rs_dimensions :: scope_values
  rs_context_class_digest :: digest

datatype scope_comparison =
  Matches | Mismatch "reviewed_scope_dimension set" | InvalidReviewedScope

fun value_for :: "reviewed_scope_dimension \<Rightarrow> resolved_action_context \<Rightarrow> reviewed_scope_value option" where
  "value_for ActionDim c = Some (ActionValue (cx_action_id c))"
| "value_for DescriptorDim c = Some (DescriptorVersionValue (cx_descriptor_version c))"
| "value_for ConnectorImplementation c = Some (ConnectorImplementationValue
     (let m = cx_implementation c in
      \<lparr>is_implementation_id = ai_implementation_id m,
       is_implementation_version = ai_implementation_version m,
       is_connector_kind = ai_connector_kind m, is_executor_id = ai_executor_id m,
       is_executor_version = ai_executor_version m, is_resolver_id = ai_resolver_id m,
       is_resolver_version = ai_resolver_version m\<rparr>))"
| "value_for ConnectorInstance c = Some (ConnectorInstanceValue (cx_connector_instance_id c))"
| "value_for AccountRole c = map_option AccountRoleValue (cx_account_role c)"
| "value_for AccountIdentity c = map_option AccountIdentityValue (cx_account_identity_digest c)"
| "value_for Target c = Some (TargetValue (cx_target_refs c))"
| "value_for Counterparty c = map_option CounterpartyValue (cx_counterparty_identity_id c)"
| "value_for RelationshipTier c = map_option RelationshipTierValue (cx_relationship_tier c)"
| "value_for BoundParameters c = Some (BoundParametersValue (cx_bound_parameters c))"
| "value_for TargetDigest c = map_option TargetDigestValue (cx_target_digest c)"
| "value_for PayloadDigest c = map_option PayloadDigestValue (cx_payload_digest c)"
| "value_for EffectDestination c = Some (EffectDestinationValue (cx_effect_destination c))"
| "value_for EgressClassDim c = map_option EgressClassValue (cx_egress_class c)"
| "value_for DisclosureClass c = map_option DisclosureClassValue (cx_disclosure_class c)"
| "value_for OutputChannel c = Some (OutputChannelsValue (cx_output_channels c))"
| "value_for Workflow c = map_option WorkflowValue (cx_workflow_id c)"
| "value_for TaskShape c = map_option TaskShapeValue (cx_task_shape_digest c)"

fun account_role_name :: "account_role \<Rightarrow> string" where
  "account_role_name OwnerMailbox = ''owner_mailbox''"
| "account_role_name AgentInbox = ''agent_inbox''"
| "account_role_name SharedWorkspaceMailbox = ''shared_workspace_mailbox''"
| "account_role_name CustomerIntakeInbox = ''customer_intake_inbox''"
| "account_role_name NotificationInbox = ''notification_inbox''"
| "account_role_name OwnerControlAccount = ''owner_control_account''"
| "account_role_name SystemAccount = ''system_account''"

fun target_kind_name :: "target_ref_kind \<Rightarrow> string" where
  "target_kind_name EmailThread = ''email_thread''"
| "target_kind_name Conversation_target = ''conversation''"
| "target_kind_name Project = ''project''"
| "target_kind_name Deployment = ''deployment''"
| "target_kind_name SecretSlot = ''secret_slot''"
| "target_kind_name NoTarget = ''none''"

fun tier_name :: "relationship_tier \<Rightarrow> string" where
  "tier_name Stranger = ''stranger''"
| "tier_name Known = ''known''"
| "tier_name Intimate = ''intimate''"
| "tier_name Owner_tier = ''owner''"

fun disclosure_name :: "disclosure_class \<Rightarrow> string" where
  "disclosure_name Public_disclosure = ''public''"
| "disclosure_name Internal_disclosure = ''internal''"
| "disclosure_name Private_disclosure = ''private''"
| "disclosure_name Sensitive_disclosure = ''sensitive''"

definition target_json :: "target_ref \<Rightarrow> json" where
  "target_json t = JObject
     [(''type'', JString (target_kind_name (tr_kind t))), (''id'', jopt JString (tr_id t))]"

definition tagged :: "string \<Rightarrow> json \<Rightarrow> json" where
  "tagged kind v = JObject [(''kind'', JString kind), (''value'', v)]"

fun scope_value_json :: "ext \<Rightarrow> reviewed_scope_value \<Rightarrow> json" where
  "scope_value_json X (ActionValue a) = tagged ''action'' (JString (as_str a))"
| "scope_value_json X (DescriptorVersionValue v) = tagged ''descriptor_version'' (jnum v)"
| "scope_value_json X (ConnectorImplementationValue m) = tagged ''connector_implementation'' (JObject
     [(''implementation_id'', JString (implementation_str (is_implementation_id m))),
      (''implementation_version'', jnum (is_implementation_version m)),
      (''connector_kind'', JString (is_connector_kind m)),
      (''executor_id'', JString (is_executor_id m)),
      (''executor_version'', jnum (is_executor_version m)),
      (''resolver_id'', JString (is_resolver_id m)),
      (''resolver_version'', jnum (is_resolver_version m))])"
| "scope_value_json X (ConnectorInstanceValue s) = tagged ''connector_instance'' (JString s)"
| "scope_value_json X (AccountRoleValue r) = tagged ''account_role'' (JString (account_role_name r))"
| "scope_value_json X (AccountIdentityValue d) = tagged ''account_identity'' (JString (digest_str d))"
| "scope_value_json X (TargetValue refs) =
     tagged ''target'' (JObject [(''refs'', JArray (map target_json refs))])"
| "scope_value_json X (CounterpartyValue i) = tagged ''counterparty'' (JString (ulid_text X i))"
| "scope_value_json X (RelationshipTierValue t) = tagged ''relationship_tier'' (JString (tier_name t))"
| "scope_value_json X (BoundParametersValue ps) =
     tagged ''bound_parameters'' (JObject (map (map_prod id JString) ps))"
| "scope_value_json X (TargetDigestValue d) = tagged ''target_digest'' (JString (digest_str d))"
| "scope_value_json X (PayloadDigestValue d) = tagged ''payload_digest'' (JString (digest_str d))"
| "scope_value_json X (EffectDestinationValue d) =
     tagged ''effect_destination'' (JString (destination_name d))"
| "scope_value_json X (EgressClassValue e) = tagged ''egress_class'' (JString (egress_as_str e))"
| "scope_value_json X (DisclosureClassValue d) =
     tagged ''disclosure_class'' (JString (disclosure_name d))"
| "scope_value_json X (OutputChannelsValue cs) =
     tagged ''output_channels'' (jstrings (sorted_list_of_set cs))"
| "scope_value_json X (WorkflowValue w) = tagged ''workflow'' (JString w)"
| "scope_value_json X (TaskShapeValue d) = tagged ''task_shape'' (JString (digest_str d))"

definition scope_values_json :: "ext \<Rightarrow> scope_values \<Rightarrow> json" where
  "scope_values_json X values = JObject
     (map (\<lambda>d. (dimension_name d, scope_value_json X (the (values d)))) (dimension_list (dom values)))"

definition calculate_context_class_digest :: "ext \<Rightarrow> reviewed_action_scope \<Rightarrow> digest" where
  "calculate_context_class_digest X s = digest_of X (JObject
     [(''schema_version'', jnum (rs_schema_version s)), (''scope_version'', jnum (rs_scope_version s)),
      (''action_id'', JString (as_str (rs_action_id s))),
      (''descriptor_version'', jnum (rs_descriptor_version s)),
      (''dimensions'', scope_values_json X (rs_dimensions s))])"

definition seal_scope :: "ext \<Rightarrow> reviewed_action_scope \<Rightarrow> reviewed_action_scope" where
  "seal_scope X s = s\<lparr>rs_context_class_digest := calculate_context_class_digest X s\<rparr>"

text \<open>The values of a list of dimensions, or the first dimension without one.\<close>

fun collect_values ::
  "resolved_action_context \<Rightarrow> scope_values \<Rightarrow> reviewed_scope_dimension list \<Rightarrow>
     reviewed_scope_dimension + scope_values" where
  "collect_values c acc [] = Inr acc"
| "collect_values c acc (d # ds) =
     (case value_for d c of None \<Rightarrow> Inl d | Some v \<Rightarrow> collect_values c (acc(d \<mapsto> v)) ds)"

definition scope_derive ::
  "ext \<Rightarrow> resolved_action_context \<Rightarrow> reviewed_scope_dimension + reviewed_action_scope" where
  "scope_derive X c =
     (case collect_values c
        [ActionDim \<mapsto> ActionValue (cx_action_id c),
         DescriptorDim \<mapsto> DescriptorVersionValue (cx_descriptor_version c)]
        (dimension_list (cx_required_scope_dimensions c)) of
        Inl d \<Rightarrow> Inl d
      | Inr values \<Rightarrow> Inr (seal_scope X
          \<lparr>rs_schema_version = 1, rs_scope_version = 1, rs_action_id = cx_action_id c,
           rs_descriptor_version = cx_descriptor_version c, rs_dimensions = values,
           rs_context_class_digest = digest_of X JNull\<rparr>))"

definition scope_binding_is_valid :: "ext \<Rightarrow> reviewed_action_scope \<Rightarrow> bool" where
  "scope_binding_is_valid X s \<longleftrightarrow>
     \<not> (rs_schema_version s = 0 \<or> rs_scope_version s = 0) \<and>
     \<not> (rs_dimensions s ActionDim \<noteq> Some (ActionValue (rs_action_id s)) \<or>
        rs_dimensions s DescriptorDim \<noteq> Some (DescriptorVersionValue (rs_descriptor_version s))) \<and>
     rs_context_class_digest s = calculate_context_class_digest X s"

definition scope_compare ::
  "ext \<Rightarrow> reviewed_action_scope \<Rightarrow> resolved_action_context \<Rightarrow> scope_comparison" where
  "scope_compare X s c =
     (if \<not> scope_binding_is_valid X s then InvalidReviewedScope
      else
        let mismatches =
          (if rs_action_id s \<noteq> cx_action_id c then {ActionDim} else {}) \<union>
          (if rs_descriptor_version s \<noteq> cx_descriptor_version c then {DescriptorDim} else {}) \<union>
          set (filter (\<lambda>d. d \<noteq> ActionDim \<and> d \<noteq> DescriptorDim \<and> value_for d c \<noteq> rs_dimensions s d)
            (dimension_list (dom (rs_dimensions s))))
        in if mismatches = {} then Matches else Mismatch mismatches)"

definition reviewed_scope_values_of :: "resolved_action_context \<Rightarrow> scope_values option" where
  "reviewed_scope_values_of c =
     (case collect_values c Map.empty (dimension_list (cx_required_scope_dimensions c)) of
        Inl _ \<Rightarrow> None | Inr values \<Rightarrow> Some values)"

definition reviewed_scope_digest_of :: "ext \<Rightarrow> scope_values \<Rightarrow> digest" where
  "reviewed_scope_digest_of X values = digest_of X (scope_values_json X values)"

definition context_reviewed_scope_digest :: "ext \<Rightarrow> resolved_action_context \<Rightarrow> digest option" where
  "context_reviewed_scope_digest X c =
     map_option (reviewed_scope_digest_of X) (reviewed_scope_values_of c)"

section \<open>Narrowing\<close>

datatype reviewed_scope_narrow_error =
  DimensionSetChanged | Widened reviewed_scope_dimension | Unchanged

fun narrower_or_equal :: "reviewed_scope_value \<Rightarrow> reviewed_scope_value \<Rightarrow> bool" where
  "narrower_or_equal (TargetValue candidate) (TargetValue original) =
     list_all (\<lambda>v. v \<in> set original) candidate"
| "narrower_or_equal (OutputChannelsValue candidate) (OutputChannelsValue original) =
     (candidate \<subseteq> original)"
| "narrower_or_equal candidate original = (candidate = original)"

definition scope_narrowed ::
  "ext \<Rightarrow> reviewed_action_scope \<Rightarrow> scope_values \<Rightarrow> reviewed_scope_narrow_error + reviewed_action_scope" where
  "scope_narrowed X s values =
     (if dom values \<noteq> dom (rs_dimensions s) then Inl DimensionSetChanged
      else (case find (\<lambda>d. \<not> narrower_or_equal (the (values d)) (the (rs_dimensions s d)))
             (dimension_list (dom (rs_dimensions s))) of
          Some d \<Rightarrow> Inl (Widened d)
        | None \<Rightarrow>
            if \<not> list_ex (\<lambda>d. values d \<noteq> rs_dimensions s d) (dimension_list (dom (rs_dimensions s)))
            then Inl Unchanged
            else Inr (seal_scope X (s\<lparr>rs_scope_version := rs_scope_version s + 1, rs_dimensions := values\<rparr>))))"

definition is_strict_narrowing :: "ext \<Rightarrow> reviewed_action_scope \<Rightarrow> reviewed_action_scope \<Rightarrow> bool" where
  "is_strict_narrowing X s candidate \<longleftrightarrow>
     scope_narrowed X s (rs_dimensions candidate) = Inr candidate"

section \<open>Deriving and comparing\<close>

lemma present_value: "dimension_present c d \<Longrightarrow> \<exists>v. value_for d c = Some v"
  by (cases d) (auto split: option.splits)

lemma collect_values_Inr:
  "collect_values c acc ds = Inr values \<longleftrightarrow>
     (\<forall>d\<in>set ds. value_for d c \<noteq> None) \<and>
     values = (\<lambda>d. if d \<in> set ds then value_for d c else acc d)"
  by (induction ds arbitrary: acc) (auto split: option.splits simp: fun_eq_iff)

lemma collect_values_Inl: "collect_values c acc ds = Inl d \<Longrightarrow> d \<in> set ds \<and> value_for d c = None"
  by (induction ds arbitrary: acc) (auto split: option.splits)

lemma seal_scope_fields [simp]:
  "rs_dimensions (seal_scope X s) = rs_dimensions s" "rs_action_id (seal_scope X s) = rs_action_id s"
  "rs_descriptor_version (seal_scope X s) = rs_descriptor_version s"
  "rs_schema_version (seal_scope X s) = rs_schema_version s"
  "rs_scope_version (seal_scope X s) = rs_scope_version s"
  by (simp_all add: seal_scope_def)

lemma seal_scope_digest [simp]:
  "rs_context_class_digest (seal_scope X s) = calculate_context_class_digest X (seal_scope X s)"
  by (simp add: seal_scope_def calculate_context_class_digest_def)

text \<open>The dimensions a scope derived from \<open>c\<close> binds: the required ones and the declaration keys.\<close>

definition bound_dimensions :: "resolved_action_context \<Rightarrow> reviewed_scope_dimension set" where
  "bound_dimensions c = {ActionDim, DescriptorDim} \<union> cx_required_scope_dimensions c"

lemma scope_derive_Inr:
  "scope_derive X c = Inr s \<longleftrightarrow>
     (\<forall>d\<in>cx_required_scope_dimensions c. value_for d c \<noteq> None) \<and>
     s = seal_scope X
       \<lparr>rs_schema_version = 1, rs_scope_version = 1, rs_action_id = cx_action_id c,
        rs_descriptor_version = cx_descriptor_version c,
        rs_dimensions = (\<lambda>d. if d \<in> bound_dimensions c then value_for d c else None),
        rs_context_class_digest = digest_of X JNull\<rparr>"
proof -
  have "(\<lambda>d. if d \<in> cx_required_scope_dimensions c then value_for d c
        else [ActionDim \<mapsto> ActionValue (cx_action_id c),
              DescriptorDim \<mapsto> DescriptorVersionValue (cx_descriptor_version c)] d) =
      (\<lambda>d. if d \<in> bound_dimensions c then value_for d c else None)"
    by (auto simp: bound_dimensions_def fun_eq_iff)
  then show ?thesis
    unfolding scope_derive_def
    by (auto split: sum.splits simp: collect_values_Inr)
      (metis collect_values_Inl option.distinct(1) set_dimension_list)
qed

lemma derived_valid: "scope_derive X c = Inr s \<Longrightarrow> scope_binding_is_valid X s"
  by (auto simp: scope_derive_Inr scope_binding_is_valid_def bound_dimensions_def)

lemma scope_compare_valid:
  assumes "scope_binding_is_valid X s"
  shows "scope_compare X s c =
    (let diff = {d \<in> dom (rs_dimensions s). value_for d c \<noteq> rs_dimensions s d}
     in if diff = {} then Matches else Mismatch diff)"
proof -
  have "(if rs_action_id s \<noteq> cx_action_id c then {ActionDim} else {}) \<union>
      (if rs_descriptor_version s \<noteq> cx_descriptor_version c then {DescriptorDim} else {}) \<union>
      set (filter (\<lambda>d. d \<noteq> ActionDim \<and> d \<noteq> DescriptorDim \<and> value_for d c \<noteq> rs_dimensions s d)
        (dimension_list (dom (rs_dimensions s)))) =
      {d \<in> dom (rs_dimensions s). value_for d c \<noteq> rs_dimensions s d}"
    using assms by (auto simp: scope_binding_is_valid_def)
  then show ?thesis using assms by (simp add: scope_compare_def Let_def)
qed

lemma context_try_new_present:
  assumes "context_try_new X catalog a i inp = Inr c"
  shows "\<forall>d\<in>cx_required_scope_dimensions c. value_for d c \<noteq> None"
proof -
  have "validate_required_dimensions c = Inr ()"
    using assms unfolding context_try_new_def Let_def
    by (auto split: sum.splits option.splits counterparty_ref.splits if_splits prod.splits)
  then have "\<forall>d\<in>cx_required_scope_dimensions c. dimension_present c d"
    by (auto simp: validate_required_dimensions_def find_None_iff split: option.splits)
  then show ?thesis using present_value by blast
qed

section \<open>Narrowing is a strict order on what is bound\<close>

lemma narrower_or_equal_iff:
  "narrower_or_equal u v \<longleftrightarrow> u = v \<or>
     (\<exists>a b. u = TargetValue a \<and> v = TargetValue b \<and> set a \<subseteq> set b) \<or>
     (\<exists>a b. u = OutputChannelsValue a \<and> v = OutputChannelsValue b \<and> a \<subseteq> b)"
  by (cases "(u, v)" rule: narrower_or_equal.cases) (auto simp: list_all_iff)

lemma narrower_or_equal_trans:
  "narrower_or_equal u v \<Longrightarrow> narrower_or_equal v w \<Longrightarrow> narrower_or_equal u w"
  by (auto simp: narrower_or_equal_iff)

lemma scope_narrowed_Inr:
  "scope_narrowed X s values = Inr s' \<longleftrightarrow>
     dom values = dom (rs_dimensions s) \<and> values \<noteq> rs_dimensions s \<and>
     (\<forall>d\<in>dom (rs_dimensions s). narrower_or_equal (the (values d)) (the (rs_dimensions s d))) \<and>
     s' = seal_scope X (s\<lparr>rs_scope_version := rs_scope_version s + 1, rs_dimensions := values\<rparr>)"
proof -
  have eq: "values = rs_dimensions s \<longleftrightarrow>
      \<not> list_ex (\<lambda>d. values d \<noteq> rs_dimensions s d) (dimension_list (dom (rs_dimensions s)))"
    if "dom values = dom (rs_dimensions s)"
    using that by (auto simp: list_ex_iff fun_eq_iff domIff) (metis domIff)
  show ?thesis
    unfolding scope_narrowed_def
    by (auto simp: eq find_None_iff split: option.splits dest!: find_SomeD)
qed

section \<open>Derived scopes\<close>

lemma derived_compare:
  assumes "context_try_new X catalog a i inp = Inr c"
  shows "\<exists>s. scope_derive X c = Inr s \<and> scope_binding_is_valid X s \<and>
    (\<forall>later. scope_compare X s later =
       (let diff = {d \<in> bound_dimensions c. value_for d later \<noteq> value_for d c}
        in if diff = {} then Matches else Mismatch diff))"
proof -
  obtain s where s: "scope_derive X c = Inr s"
    using context_try_new_present [OF assms] by (simp add: scope_derive_Inr)
  have some: "value_for d c \<noteq> None" if "d \<in> bound_dimensions c" for d
    using that context_try_new_present [OF assms] by (auto simp: bound_dimensions_def)
  have dims: "rs_dimensions s = (\<lambda>d. if d \<in> bound_dimensions c then value_for d c else None)"
    using s by (simp add: scope_derive_Inr)
  then have "dom (rs_dimensions s) = bound_dimensions c"
    using some by (auto simp: dom_def split: if_splits)
  then have "{d \<in> dom (rs_dimensions s). value_for d later \<noteq> rs_dimensions s d} =
      {d \<in> bound_dimensions c. value_for d later \<noteq> value_for d c}" for later
    by (auto simp: dims)
  then show ?thesis
    using s derived_valid [OF s] by (auto simp: scope_compare_valid)
qed

section \<open>Properties\<close>

text \<open>
  Drift is detected exactly. Every context the kernel resolves yields a reviewed scope, and
  that scope accepts a later context iff the two agree on the action, the descriptor version and
  every dimension the action's descriptor requires; otherwise the comparison names exactly the
  dimensions that differ.
\<close>

theorem scope_drift_exact:
  assumes "context_try_new X catalog a i inp = Inr c"
  shows "\<exists>s. scope_derive X c = Inr s \<and> scope_binding_is_valid X s \<and>
    (\<forall>later. scope_compare X s later =
       (let diff = {d \<in> bound_dimensions c. value_for d later \<noteq> value_for d c}
        in if diff = {} then Matches else Mismatch diff))"
  using assms by (rule derived_compare)

definition ex_scoped_catalog :: action_catalog where
  "ex_scoped_catalog = with_egress_declarations
     [(ActionId ''status.read'', \<lparr>ed_output_channels = None, ed_egress_class = None\<rparr>)]
     (with_implementation_descriptors [ex_implementation]
       (with_delegation_descriptors [ex_descriptor\<lparr>ad_required_scope_dimensions := {Workflow, Target}\<rparr>]
         (catalog_new [ActionId ''status.read''])))"

definition ex_context_input :: resolved_action_context_input where
  "ex_context_input =
     \<lparr>ri_connector_instance_id = ''main'', ri_account_role = None, ri_account_identity_digest = None,
      ri_target_refs = [\<lparr>tr_kind = Project, tr_id = Some ''p''\<rparr>], ri_counterparty = None,
      ri_bound_parameters = [], ri_target_digest = None, ri_payload_digest = None,
      ri_workflow_id = Some ''wf'', ri_task_shape_digest = None\<rparr>"

definition ex_resolved :: "resolved_action_context_error + resolved_action_context" where
  "ex_resolved = context_try_new ex_ext ex_scoped_catalog (ActionId ''status.read'')
     (ActionImplementationId ''impl'') ex_context_input"

lemma ex_resolved_Inr:
  "\<exists>c. ex_resolved = Inr c \<and> cx_required_scope_dimensions c = {Workflow, Target} \<and>
     cx_workflow_id c = Some ''wf''"
proof -
  have "case ex_resolved of Inl _ \<Rightarrow> False
      | Inr c \<Rightarrow> cx_required_scope_dimensions c = {Workflow, Target} \<and> cx_workflow_id c = Some ''wf''"
    by code_simp
  then show ?thesis by (auto split: sum.splits)
qed

theorem scope_drift_exact_witness:
  "\<exists>c s. ex_resolved = Inr c \<and> scope_derive ex_ext c = Inr s \<and> scope_compare ex_ext s c = Matches \<and>
     scope_compare ex_ext s (c\<lparr>cx_workflow_id := Some ''other''\<rparr>) = Mismatch {Workflow}"
proof -
  obtain c where c: "ex_resolved = Inr c" "cx_required_scope_dimensions c = {Workflow, Target}"
    "cx_workflow_id c = Some ''wf''"
    using ex_resolved_Inr by blast
  obtain s where s: "scope_derive ex_ext c = Inr s"
    and cmp: "\<And>later. scope_compare ex_ext s later =
       (let diff = {d \<in> bound_dimensions c. value_for d later \<noteq> value_for d c}
        in if diff = {} then Matches else Mismatch diff)"
    using scope_drift_exact [OF c(1) [unfolded ex_resolved_def]] by blast
  have "{d \<in> bound_dimensions c. value_for d (c\<lparr>cx_workflow_id := Some ''other''\<rparr>) \<noteq> value_for d c} =
      {Workflow}"
  proof (rule set_eqI)
    fix d show "d \<in> {d \<in> bound_dimensions c. value_for d (c\<lparr>cx_workflow_id := Some ''other''\<rparr>) \<noteq>
        value_for d c} \<longleftrightarrow> d \<in> {Workflow}"
      by (cases d) (simp_all add: bound_dimensions_def c(2,3))
  qed
  then have "scope_compare ex_ext s (c\<lparr>cx_workflow_id := Some ''other''\<rparr>) = Mismatch {Workflow}"
    by (simp add: cmp)
  moreover have "scope_compare ex_ext s c = Matches" by (simp add: cmp)
  ultimately show ?thesis using c s by blast
qed

end
