(* ===== verification/Standing_Rules.thy ===== *)
theory Standing_Rules
  imports Reviewed_Scope
begin

text \<open>
  Standing rules: the manifest (\<open>src/crates/openspine-schemas/src/standing_rule.rs\<close>) and the
  kernel's runtime tables (\<open>src/crates/openspine-kernel/src/store/standing_rules*.rs\<close>,
  \<open>src/crates/openspine-kernel/src/action_catalog_contracts.rs\<close>).

  A table is the list of its rows in insertion order; a statement is the function it denotes on
  that list. Each store method runs inside one immediate transaction, so it is a function from a
  store to an error, which leaves the store as it was, or to a result and the new store. Integer
  columns and \<open>i64\<close> values are \<open>int\<close>, with the two's-complement wrap-around of a release build
  written out (\<open>i64_wrap\<close>) where the code computes with them. A serialized manifest or surface is
  the value itself. Fresh identifiers are arguments.
\<close>

section \<open>Manifests\<close>

datatype dark_window_default = Allow_default | Deny_default

record dark_window_config =
  dw_timeout_secs :: int
  dw_default :: dark_window_default
  dw_max_pending_exceptions :: u32

record reviewed_scope_binding =
  rb_scope :: reviewed_action_scope
  rb_reviewed_scope_digest :: digest
  rb_compatibility_digest :: digest

definition required_scope_digest_of :: "ext \<Rightarrow> reviewed_action_scope \<Rightarrow> digest" where
  "required_scope_digest_of X s = reviewed_scope_digest_of X
     (\<lambda>d. if d = ActionDim \<or> d = DescriptorDim then None else rs_dimensions s d)"

definition binding_derive_from :: "ext \<Rightarrow> reviewed_action_scope \<Rightarrow> digest \<Rightarrow> reviewed_scope_binding" where
  "binding_derive_from X s compatibility_digest =
     \<lparr>rb_scope = s, rb_reviewed_scope_digest = required_scope_digest_of X s,
      rb_compatibility_digest = compatibility_digest\<rparr>"

definition binding_is_valid :: "ext \<Rightarrow> reviewed_scope_binding \<Rightarrow> bool" where
  "binding_is_valid X b \<longleftrightarrow>
     scope_binding_is_valid X (rb_scope b) \<and>
     rb_reviewed_scope_digest b = required_scope_digest_of X (rb_scope b)"

record standing_rule_manifest =
  sm_id :: artifact_id
  sm_schema_version :: u32
  sm_version :: u32
  sm_lifecycle_state :: lifecycle
  sm_action_id :: action_id
  sm_description :: string
  sm_quota :: budget_window
  sm_rate :: budget_window
  sm_expires_after_secs :: int
  sm_dark_window :: "dark_window_config option"
  sm_reviewed_scope :: "reviewed_scope_binding option"

definition max_pending_exceptions_ceiling :: u32 where
  "max_pending_exceptions_ceiling = 3"

definition dark_window_error :: "dark_window_config \<Rightarrow> string option" where
  "dark_window_error dw =
     (if dw_timeout_secs dw \<le> 0 then Some ''dark_window.timeout_secs must be positive''
      else if dw_max_pending_exceptions dw = 0
      then Some ''dark_window.max_pending_exceptions must be at least 1''
      else if dw_max_pending_exceptions dw > max_pending_exceptions_ceiling
      then Some (''dark_window.max_pending_exceptions must not exceed '' @
        decimal (unat max_pending_exceptions_ceiling))
      else None)"

definition manifest_validate :: "ext \<Rightarrow> standing_rule_manifest \<Rightarrow> string + unit" where
  "manifest_validate X m =
     (if bw_window_secs (sm_quota m) \<le> 0 then Inl ''quota.window_secs must be positive''
      else if bw_window_secs (sm_rate m) \<le> 0 then Inl ''rate.window_secs must be positive''
      else if sm_expires_after_secs m \<le> 0 then Inl ''expires_after_secs must be positive''
      else (case Option.bind (sm_dark_window m) dark_window_error of
          Some e \<Rightarrow> Inl e
        | None \<Rightarrow>
            (case sm_reviewed_scope m of
               Some b \<Rightarrow> if \<not> binding_is_valid X b
                 then Inl ''reviewed_scope digest disagrees with its stored values'' else Inr ()
             | None \<Rightarrow> Inr ())))"

section \<open>Activation guards\<close>

datatype dark_window_allow_eligibility_outcome = Eligible | NotAllowlisted | Misconfigured

definition dark_window_allow_eligibility ::
  "action_id \<Rightarrow> action_id set \<Rightarrow> action_id set \<Rightarrow> dark_window_allow_eligibility_outcome" where
  "dark_window_allow_eligibility a allowlist certified_safe =
     (if \<not> allowlist \<subseteq> certified_safe then Misconfigured
      else if a \<notin> allowlist then NotAllowlisted
      else Eligible)"

definition dark_window_allow_eligible_actions :: "action_id set" where
  "dark_window_allow_eligible_actions = {}"

definition dark_window_allow_eligible :: "action_catalog \<Rightarrow> action_id \<Rightarrow> bool" where
  "dark_window_allow_eligible catalog a \<longleftrightarrow>
     dark_window_allow_eligibility a dark_window_allow_eligible_actions
       (Set.filter (is_approval_narrowing catalog) dark_window_allow_eligible_actions) = Eligible"

definition required_scope_dimensions_for ::
  "action_descriptor list \<Rightarrow> action_id \<Rightarrow> reviewed_scope_dimension set option" where
  "required_scope_dimensions_for descriptors a =
     (case find (\<lambda>d. ad_action_id d = a) descriptors of
        None \<Rightarrow> None
      | Some d \<Rightarrow> if ad_required_scope_dimensions d = {} then None
                   else Some (ad_required_scope_dimensions d))"

definition dark_window_allow_rejection :: "action_catalog \<Rightarrow> standing_rule_manifest \<Rightarrow> string option" where
  "dark_window_allow_rejection catalog m =
     (case sm_dark_window m of
        None \<Rightarrow> None
      | Some dw \<Rightarrow>
          if dw_default dw \<noteq> Allow_default then None
          else if dark_window_allow_eligible catalog (sm_action_id m) then None
          else Some (''standing rule for '' @ as_str (sm_action_id m) @
            '' may not declare a dark-window Allow default: the catalog does not declare this action eligible, and D-146 forbids a silence-admitted Allow for any communication or connector-write effect''))"

fun dimension_debug :: "reviewed_scope_dimension \<Rightarrow> string" where
  "dimension_debug ActionDim = ''Action''"
| "dimension_debug DescriptorDim = ''Descriptor''"
| "dimension_debug ConnectorImplementation = ''ConnectorImplementation''"
| "dimension_debug ConnectorInstance = ''ConnectorInstance''"
| "dimension_debug AccountRole = ''AccountRole''"
| "dimension_debug AccountIdentity = ''AccountIdentity''"
| "dimension_debug Target = ''Target''"
| "dimension_debug Counterparty = ''Counterparty''"
| "dimension_debug RelationshipTier = ''RelationshipTier''"
| "dimension_debug BoundParameters = ''BoundParameters''"
| "dimension_debug TargetDigest = ''TargetDigest''"
| "dimension_debug PayloadDigest = ''PayloadDigest''"
| "dimension_debug EffectDestination = ''EffectDestination''"
| "dimension_debug EgressClassDim = ''EgressClass''"
| "dimension_debug DisclosureClass = ''DisclosureClass''"
| "dimension_debug OutputChannel = ''OutputChannel''"
| "dimension_debug Workflow = ''Workflow''"
| "dimension_debug TaskShape = ''TaskShape''"

fun join :: "string \<Rightarrow> string list \<Rightarrow> string" where
  "join sep [] = []"
| "join sep [x] = x"
| "join sep (x # xs) = x @ sep @ join sep xs"

definition scope_binding_rejection ::
  "action_descriptor list \<Rightarrow> standing_rule_manifest \<Rightarrow> string option" where
  "scope_binding_rejection descriptors m =
     (case required_scope_dimensions_for descriptors (sm_action_id m) of
        None \<Rightarrow> None
      | Some required \<Rightarrow>
          (case sm_reviewed_scope m of
             None \<Rightarrow> Some (''standing rule for '' @ as_str (sm_action_id m) @
               '' must bind a reviewed scope: its descriptor declares '' @
               decimal (length (dimension_list required)) @ '' required dimension(s)'')
           | Some b \<Rightarrow>
               let missing = filter (\<lambda>d. rs_dimensions (rb_scope b) d = None) (dimension_list required)
               in if missing \<noteq> []
                  then Some (''standing rule for '' @ as_str (sm_action_id m) @
                    '' omits required reviewed scope dimension(s): '' @
                    join '', '' (map dimension_debug missing))
                  else None))"

section \<open>The tables\<close>

datatype rule_status = Active_rule | Paused_rule | NeedsReview | Revoked

record rule_row =
  sr_rule_id :: string
  sr_version :: u32
  sr_action_id :: action_id
  sr_manifest :: standing_rule_manifest
  sr_quota :: budget_window
  sr_rate :: budget_window
  sr_expires_after_secs :: int
  sr_dark_window :: "dark_window_config option"
  sr_status :: rule_status
  sr_activated_at :: int
  sr_last_used_at :: "int option"
  sr_revoked_at :: "int option"
  sr_needs_review_since :: "int option"
  sr_reviewed_scope_digest :: "digest option"
  sr_compatibility_digest :: "digest option"

datatype usage_kind = Quota | Rate

datatype usage_status = Reserved | Committed | Waiver

record usage_row =
  us_rule_id :: string
  us_version :: u32
  us_kind :: usage_kind
  us_used_at :: int
  us_status :: usage_status
  us_reservation_id :: string

datatype resolution = Allowed_resolution | Denied_resolution | Stale

datatype dispatch_state = NotDispatched | Claimed | Dispatched

datatype owner_surface_kind = TelegramPrivate_surface | LocalTerminal | WebOrMobile

record owner_surface =
  os_kind :: owner_surface_kind
  os_principal_id :: ulid
  os_thread_binding :: "string option"
  os_surface_id :: "string option"

record pending_row =
  pa_pending_id :: string
  pa_rule_id :: string
  pa_rule_version :: u32
  pa_task_grant_id :: ulid
  pa_action_id :: action_id
  pa_owner_surface :: owner_surface
  pa_payload_ref :: "artifact_ref option"
  pa_default :: dark_window_default
  pa_request_fingerprint :: string
  pa_requested_at :: int
  pa_resolved_at :: "int option"
  pa_resolution :: "resolution option"
  pa_dispatch_state :: dispatch_state
  pa_token_consumed_at :: "int option"
  pa_receipt_digest :: "string option"
  pa_owner_attention_since :: "int option"
  pa_reviewed_scope_digest :: "string option"
  pa_compatibility_digest :: "string option"

record timer_link =
  tl_timer_id :: string
  tl_pending_id :: string
  tl_applied_at :: "int option"

record workflow_timer =
  wt_timer_id :: string
  wt_run_id :: string
  wt_fires_at :: int

record audit_row =
  au_kind :: string
  au_action :: "action_id option"
  au_reason :: "string option"
  au_grant :: "ulid option"

record rule_store =
  st_rules :: "rule_row list"
  st_usage :: "usage_row list"
  st_pending :: "pending_row list"
  st_links :: "timer_link list"
  st_timers :: "workflow_timer list"
  st_briefcases :: "ulid \<rightharpoonup> briefcase"
  st_erased :: "ulid set"
  st_audit :: "audit_row list"

datatype store_error =
    TimestampRange int
  | ProposedArtifactLifecycle string
  | FailureRouting string
  | QueryReturnedNoRows

section \<open>Integers and times\<close>

definition i64_wrap :: "int \<Rightarrow> int" where
  "i64_wrap x = (x + 2 ^ 63) mod 2 ^ 64 - 2 ^ 63"

lemma i64_wrap_id: "- (2 ^ 63) \<le> x \<Longrightarrow> x < 2 ^ 63 \<Longrightarrow> i64_wrap x = x"
  by (simp add: i64_wrap_def)

abbreviation nanos_per_sec :: int where
  "nanos_per_sec \<equiv> 1000000000"

definition timestamp_to_epoch_nanos :: "timestamp \<Rightarrow> store_error + int" where
  "timestamp_to_epoch_nanos t = (if - (2 ^ 63) \<le> t \<and> t < 2 ^ 63 then Inr t else Inl (TimestampRange t))"

definition with_nanos :: "timestamp \<Rightarrow> (int \<Rightarrow> store_error + 'a) \<Rightarrow> store_error + 'a" where
  "with_nanos t f = (case timestamp_to_epoch_nanos t of Inl e \<Rightarrow> Inl e | Inr n \<Rightarrow> f n)"

definition window_start :: "int \<Rightarrow> budget_window \<Rightarrow> int" where
  "window_start now w = i64_wrap (now - i64_wrap (bw_window_secs w * nanos_per_sec))"

definition deadline_nanos :: "rule_row \<Rightarrow> int" where
  "deadline_nanos r =
     (let reference = (case sr_last_used_at r of Some t \<Rightarrow> t | None \<Rightarrow> sr_activated_at r)
      in i64_wrap (reference + i64_wrap (sr_expires_after_secs r * nanos_per_sec)))"

text \<open>SQL integer division truncates towards zero.\<close>

definition sql_div :: "int \<Rightarrow> int \<Rightarrow> int" where
  "sql_div a b = sgn a * sgn b * (\<bar>a\<bar> div \<bar>b\<bar>)"

section \<open>Transactions\<close>

type_synonym 'a tx = "rule_store \<Rightarrow> store_error + ('a \<times> rule_store)"

definition record_audit ::
  "string \<Rightarrow> action_id option \<Rightarrow> string option \<Rightarrow> ulid option \<Rightarrow> rule_store \<Rightarrow> rule_store" where
  "record_audit kind action reason grant st =
     st\<lparr>st_audit := st_audit st @
       [\<lparr>au_kind = kind, au_action = action, au_reason = reason, au_grant = grant\<rparr>]\<rparr>"

definition update_rules :: "(rule_row \<Rightarrow> bool) \<Rightarrow> (rule_row \<Rightarrow> rule_row) \<Rightarrow> rule_store \<Rightarrow> rule_store" where
  "update_rules P f st = st\<lparr>st_rules := map (\<lambda>r. if P r then f r else r) (st_rules st)\<rparr>"

definition update_pending ::
  "(pending_row \<Rightarrow> bool) \<Rightarrow> (pending_row \<Rightarrow> pending_row) \<Rightarrow> rule_store \<Rightarrow> rule_store" where
  "update_pending P f st = st\<lparr>st_pending := map (\<lambda>p. if P p then f p else p) (st_pending st)\<rparr>"

definition count_rules :: "(rule_row \<Rightarrow> bool) \<Rightarrow> rule_store \<Rightarrow> nat" where
  "count_rules P st = length (filter P (st_rules st))"

definition count_pending :: "(pending_row \<Rightarrow> bool) \<Rightarrow> rule_store \<Rightarrow> nat" where
  "count_pending P st = length (filter P (st_pending st))"

text \<open>\<open>format!("\<dots>{n}\<dots>")\<close> of a \<open>u32\<close>.\<close>

abbreviation u32_text :: "u32 \<Rightarrow> string" where
  "u32_text n \<equiv> decimal (unat n)"

end
