(* ===== verification/Rule_Operations.thy ===== *)
theory Rule_Operations
  imports Standing_Rules
begin

text \<open>
  The operations of the standing-rule store
  (\<open>src/crates/openspine-kernel/src/store/standing_rules*.rs\<close>) and the gate consultation
  (\<open>src/crates/openspine-kernel/src/standing_rules_gate.rs\<close>), one definition per method.

  Where the code says \<open>ORDER BY version DESC\<close>, rows of one version come in table order. An SQL
  expression is computed exactly; SQLite leaves the integers for floating point when a product
  passes 64 bits. The one-shot failure switches that only tests arm are off.
\<close>

section \<open>Staleness\<close>

definition stale_hit :: "string \<Rightarrow> u32 option \<Rightarrow> pending_row \<Rightarrow> bool" where
  "stale_hit rule_id version p \<longleftrightarrow>
     pa_rule_id p = rule_id \<and>
     (case version of Some v \<Rightarrow> pa_rule_version p = v | None \<Rightarrow> True) \<and>
     pa_resolved_at p = None"

definition stale_pending_exceptions ::
  "string \<Rightarrow> u32 option \<Rightarrow> int \<Rightarrow> rule_store \<Rightarrow> rule_store" where
  "stale_pending_exceptions rule_id version now st =
     (let changed = count_pending (stale_hit rule_id version) st;
          st' = update_pending (stale_hit rule_id version)
            (\<lambda>p. p\<lparr>pa_resolved_at := Some now, pa_resolution := Some Stale\<rparr>) st
      in if changed > 0
         then record_audit ''standing_rule.pending_exceptions_staled'' None
           (Some (decimal changed @ '' unresolved dark-window exception(s) for rule '' @ rule_id @
             '' marked stale by a lifecycle change; none may fire'')) None st'
         else st')"

text \<open>\<open>status = 'needs_review'\<close> for the active row of a rule.\<close>

definition needs_review :: "string \<Rightarrow> int \<Rightarrow> rule_store \<Rightarrow> rule_store" where
  "needs_review rule_id now =
     update_rules (\<lambda>r. sr_rule_id r = rule_id \<and> sr_status r = Active_rule)
       (\<lambda>r. r\<lparr>sr_status := NeedsReview, sr_needs_review_since := Some now\<rparr>)"

definition lapse :: "rule_row \<Rightarrow> int \<Rightarrow> rule_store \<Rightarrow> rule_store" where
  "lapse r now st =
     needs_review (sr_rule_id r) now
       (stale_pending_exceptions (sr_rule_id r) (Some (sr_version r)) now st)"

section \<open>Activation\<close>

definition activation_rejection ::
  "action_catalog \<Rightarrow> action_descriptor list \<Rightarrow> standing_rule_manifest \<Rightarrow> string option" where
  "activation_rejection catalog descriptors m =
     (case scope_binding_rejection descriptors m of
        Some reason \<Rightarrow> Some reason
      | None \<Rightarrow> dark_window_allow_rejection catalog m)"

definition find_rule :: "rule_store \<Rightarrow> string \<Rightarrow> rule_row option" where
  "find_rule st rule_id = find (\<lambda>r. sr_rule_id r = rule_id) (st_rules st)"

definition rule_of_manifest :: "standing_rule_manifest \<Rightarrow> int \<Rightarrow> rule_row" where
  "rule_of_manifest m now =
     \<lparr>sr_rule_id = sm_id m, sr_version = sm_version m, sr_action_id = sm_action_id m,
      sr_manifest = m, sr_quota = sm_quota m, sr_rate = sm_rate m,
      sr_expires_after_secs = sm_expires_after_secs m, sr_dark_window = sm_dark_window m,
      sr_status = Active_rule, sr_activated_at = now, sr_last_used_at = None,
      sr_revoked_at = None, sr_needs_review_since = None,
      sr_reviewed_scope_digest = map_option rb_reviewed_scope_digest (sm_reviewed_scope m),
      sr_compatibility_digest = map_option rb_compatibility_digest (sm_reviewed_scope m)\<rparr>"

text \<open>
  A new rule revokes the active and paused rules of its action that it overlaps: those with the
  same scope digest, and, when either side has none, all of them.
\<close>

definition overlaps :: "standing_rule_manifest \<Rightarrow> rule_row \<Rightarrow> bool" where
  "overlaps m r \<longleftrightarrow>
     sr_action_id r = sm_action_id m \<and> sr_rule_id r \<noteq> sm_id m \<and>
     sr_status r \<in> {Active_rule, Paused_rule} \<and>
     (sr_reviewed_scope_digest r = None \<or> sm_reviewed_scope m = None \<or>
      sr_reviewed_scope_digest r = map_option rb_reviewed_scope_digest (sm_reviewed_scope m))"

definition upsert_rule :: "rule_row \<Rightarrow> rule_store \<Rightarrow> rule_store" where
  "upsert_rule new st =
     (case find_rule st (sr_rule_id new) of
        None \<Rightarrow> st\<lparr>st_rules := st_rules st @ [new]\<rparr>
      | Some _ \<Rightarrow> update_rules (\<lambda>r. sr_rule_id r = sr_rule_id new \<and> sr_version new > sr_version r)
                   (\<lambda>_. new) st)"

definition activate_standing_rule_in_tx ::
  "ext \<Rightarrow> action_catalog \<Rightarrow> action_descriptor list \<Rightarrow> standing_rule_manifest \<Rightarrow> ulid option \<Rightarrow>
   timestamp \<Rightarrow> unit tx" where
  "activate_standing_rule_in_tx X catalog descriptors m grant now st =
     (case manifest_validate X m of
        Inl reason \<Rightarrow>
          Inl (ProposedArtifactLifecycle (''standing_rule manifest invalid: '' @ reason))
      | Inr _ \<Rightarrow>
          (case activation_rejection catalog descriptors m of
             Some reason \<Rightarrow> Inl (ProposedArtifactLifecycle reason)
           | None \<Rightarrow> with_nanos now (\<lambda>n.
               let current = map_option sr_version (find_rule st (sm_id m));
                   install = (\<lambda>st. upsert_rule (rule_of_manifest m n)
                     (update_rules (overlaps m)
                       (\<lambda>r. r\<lparr>sr_status := Revoked, sr_revoked_at := Some n\<rparr>)
                       (record_audit ''standing_rule.activated'' (Some (sm_action_id m))
                         (Some ''standing rule became an active gate consultation input'') grant st)))
               in (case current of
                     None \<Rightarrow> Inr ((), install st)
                   | Some v \<Rightarrow>
                       if sm_version m < v
                       then Inl (FailureRouting (''standing rule activation version '' @
                         u32_text (sm_version m) @ '' is older than current '' @ u32_text v))
                       else if sm_version m = v then Inr ((), st)
                       else Inr ((), install (stale_pending_exceptions (sm_id m) (Some v) n st))))))"

definition reject_incomplete_scope_binding ::
  "action_catalog \<Rightarrow> action_descriptor list \<Rightarrow> standing_rule_manifest \<Rightarrow> rule_store \<Rightarrow>
   (store_error + unit) \<times> rule_store" where
  "reject_incomplete_scope_binding catalog descriptors m st =
     (case activation_rejection catalog descriptors m of
        None \<Rightarrow> (Inr (), st)
      | Some reason \<Rightarrow>
          (Inl (ProposedArtifactLifecycle reason),
           record_audit ''standing_rule.activation_refused'' (Some (sm_action_id m))
             (Some reason) None st))"

definition activate_standing_rule ::
  "ext \<Rightarrow> action_catalog \<Rightarrow> action_descriptor list \<Rightarrow> standing_rule_manifest \<Rightarrow> ulid option \<Rightarrow>
   timestamp \<Rightarrow> rule_store \<Rightarrow> (store_error + unit) \<times> rule_store" where
  "activate_standing_rule X catalog descriptors m grant now st =
     (case reject_incomplete_scope_binding catalog descriptors m st of
        (Inl e, st') \<Rightarrow> (Inl e, st')
      | (Inr _, st') \<Rightarrow>
          with_immediate_tx (activate_standing_rule_in_tx X catalog descriptors m grant now) st')"

section \<open>Lookup\<close>

definition active_rules :: "rule_store \<Rightarrow> action_id \<Rightarrow> rule_row list" where
  "active_rules st action =
     sort_key (\<lambda>r. - uint (sr_version r))
       (filter (\<lambda>r. sr_action_id r = action \<and> sr_status r = Active_rule) (st_rules st))"

definition first_row :: "'a list \<Rightarrow> 'a option" where
  "first_row rows = (case rows of [] \<Rightarrow> None | r # _ \<Rightarrow> Some r)"

definition active_standing_rule_for_action ::
  "action_id \<Rightarrow> timestamp \<Rightarrow> rule_store \<Rightarrow> (store_error + rule_row option) \<times> rule_store" where
  "active_standing_rule_for_action action now =
     with_immediate_tx (\<lambda>st.
       case first_row (active_rules st action) of
         None \<Rightarrow> Inr (None, st)
       | Some r \<Rightarrow> with_nanos now (\<lambda>n.
           if deadline_nanos r \<le> n then Inr (None, lapse r n st) else Inr (Some r, st)))"

definition is_current :: "rule_store \<Rightarrow> string \<Rightarrow> u32 \<Rightarrow> bool" where
  "is_current st rule_id version \<longleftrightarrow>
     (\<exists>r\<in>set (st_rules st). sr_rule_id r = rule_id \<and> sr_version r = version \<and>
        sr_status r = Active_rule)"

definition paused_standing_rule :: "rule_store \<Rightarrow> string \<Rightarrow> u32 \<Rightarrow> rule_row option" where
  "paused_standing_rule st rule_id version =
     find (\<lambda>r. sr_rule_id r = rule_id \<and> sr_version r = version \<and> sr_status r = Paused_rule)
       (st_rules st)"

definition standing_rule_version_for_action :: "rule_store \<Rightarrow> action_id \<Rightarrow> u32 option" where
  "standing_rule_version_for_action st action =
     map_option sr_version (first_row
       (sort_key (\<lambda>r. - uint (sr_version r)) (filter (\<lambda>r. sr_action_id r = action) (st_rules st))))"

definition standing_rule_latest_version :: "rule_store \<Rightarrow> string \<Rightarrow> u32 option" where
  "standing_rule_latest_version st rule_id =
     iter_max (map sr_version (filter (\<lambda>r. sr_rule_id r = rule_id) (st_rules st)))"

text \<open>Stable per-request identity of a pending exception.\<close>

fun surface_kind_name :: "owner_surface_kind \<Rightarrow> string" where
  "surface_kind_name TelegramPrivate_surface = ''telegram_private''"
| "surface_kind_name LocalTerminal = ''local_terminal''"
| "surface_kind_name WebOrMobile = ''web_or_mobile''"

definition surface_json :: "ext \<Rightarrow> owner_surface \<Rightarrow> json" where
  "surface_json X s = JObject
     [(''kind'', JString (surface_kind_name (os_kind s))),
      (''principal_id'', JString (ulid_text X (os_principal_id s))),
      (''thread_binding'', jopt JString (os_thread_binding s)),
      (''surface_id'', jopt JString (os_surface_id s))]"

definition standing_rule_fingerprint ::
  "ext \<Rightarrow> action_id \<Rightarrow> ulid \<Rightarrow> owner_surface \<Rightarrow> artifact_ref option \<Rightarrow> string" where
  "standing_rule_fingerprint X action grant surface payload =
     digest_str (digest_of_bytes X (str_bytes
       (as_str action @ ''|'' @ ulid_text X grant @ ''|'' @ json_text X (surface_json X surface) @
        ''|'' @ (case payload of None \<Rightarrow> [] | Some r \<Rightarrow> digest_str (ar_digest r)))))"

section \<open>Budgets\<close>

definition counts_against :: "string \<Rightarrow> usage_kind \<Rightarrow> int \<Rightarrow> usage_row \<Rightarrow> bool" where
  "counts_against rule_id kind since u \<longleftrightarrow>
     us_rule_id u = rule_id \<and> us_kind u = kind \<and> us_status u \<in> {Reserved, Committed} \<and>
     us_used_at u \<ge> since"

definition used :: "rule_store \<Rightarrow> string \<Rightarrow> usage_kind \<Rightarrow> int \<Rightarrow> int" where
  "used st rule_id kind since =
     int (length (filter (counts_against rule_id kind since) (st_usage st)))"

definition has_headroom :: "rule_store \<Rightarrow> rule_row \<Rightarrow> int \<Rightarrow> bool" where
  "has_headroom st r now \<longleftrightarrow>
     used st (sr_rule_id r) Quota (window_start now (sr_quota r)) < uint (bw_max (sr_quota r)) \<and>
     used st (sr_rule_id r) Rate (window_start now (sr_rate r)) < uint (bw_max (sr_rate r))"

definition insert_usage :: "string \<Rightarrow> u32 \<Rightarrow> int \<Rightarrow> string \<Rightarrow> rule_store \<Rightarrow> rule_store" where
  "insert_usage rule_id version now reservation st =
     st\<lparr>st_usage := st_usage st @
       [\<lparr>us_rule_id = rule_id, us_version = version, us_kind = Quota, us_used_at = now,
         us_status = Reserved, us_reservation_id = reservation\<rparr>,
        \<lparr>us_rule_id = rule_id, us_version = version, us_kind = Rate, us_used_at = now,
         us_status = Reserved, us_reservation_id = reservation\<rparr>]\<rparr>"

definition reserve_standing_rule_budget ::
  "string \<Rightarrow> timestamp \<Rightarrow> string \<Rightarrow> rule_store \<Rightarrow> (store_error + string option) \<times> rule_store" where
  "reserve_standing_rule_budget rule_id now reservation st =
     (case timestamp_to_epoch_nanos now of
        Inl e \<Rightarrow> (Inl e, st)
      | Inr n \<Rightarrow> with_immediate_tx (\<lambda>st.
          case find (\<lambda>r. sr_rule_id r = rule_id \<and> sr_status r = Active_rule) (st_rules st) of
            None \<Rightarrow> Inr (None, st)
          | Some r \<Rightarrow>
              if \<not> has_headroom st r n then Inr (None, st)
              else Inr (Some reservation, insert_usage rule_id (sr_version r) n reservation st)) st)"

text \<open>The reserved rows of one reservation.\<close>

definition delete_reserved :: "string \<Rightarrow> rule_store \<Rightarrow> rule_store" where
  "delete_reserved reservation st =
     st\<lparr>st_usage := filter (\<lambda>u. \<not> (us_reservation_id u = reservation \<and> us_status u = Reserved))
       (st_usage st)\<rparr>"

definition reserved_for :: "string \<Rightarrow> string \<Rightarrow> u32 \<Rightarrow> usage_row \<Rightarrow> bool" where
  "reserved_for reservation rule_id version u \<longleftrightarrow>
     us_reservation_id u = reservation \<and> us_rule_id u = rule_id \<and> us_version u = version \<and>
     us_status u = Reserved"

definition commit_reserved :: "string \<Rightarrow> string \<Rightarrow> u32 \<Rightarrow> rule_store \<Rightarrow> rule_store" where
  "commit_reserved reservation rule_id version st =
     st\<lparr>st_usage := map (\<lambda>u. if reserved_for reservation rule_id version u
       then u\<lparr>us_status := Committed\<rparr> else u) (st_usage st)\<rparr>"

text \<open>
  \<open>GROUP BY widx HAVING COUNT(*) >= rate_max\<close>: how many calibrated rate windows since activation
  are saturated.
\<close>

definition window_index :: "rule_row \<Rightarrow> usage_row \<Rightarrow> int" where
  "window_index r u =
     sql_div (us_used_at u - sr_activated_at r) (bw_window_secs (sr_rate r) * nanos_per_sec)"

definition saturated_windows :: "rule_store \<Rightarrow> rule_row \<Rightarrow> nat" where
  "saturated_windows st r =
     (let indices = map (window_index r)
        (filter (\<lambda>u. us_rule_id u = sr_rule_id r \<and> us_kind u = Rate \<and>
           us_status u \<in> {Reserved, Committed}) (st_usage st))
      in length (filter (\<lambda>w. int (count_list indices w) \<ge> uint (bw_max (sr_rate r)))
           (remdups indices)))"

definition note_standing_rule_use_in_tx :: "string \<Rightarrow> int \<Rightarrow> bool \<Rightarrow> rule_store \<Rightarrow> rule_store" where
  "note_standing_rule_use_in_tx rule_id now refresh st =
     (let st1 = if refresh
            then update_rules (\<lambda>r. sr_rule_id r = rule_id) (\<lambda>r. r\<lparr>sr_last_used_at := Some now\<rparr>) st
            else st
      in (case find_rule st1 rule_id of
            None \<Rightarrow> st1
          | Some r \<Rightarrow>
              if saturated_windows st1 r \<ge> 3
              then record_audit ''standing_rule.drift_detected'' None
                (Some ''rate window repeatedly saturated; re-confirmation required'') None
                (needs_review rule_id now (stale_pending_exceptions rule_id None now st1))
              else st1))"

definition finalize_reservation_inner ::
  "string \<Rightarrow> u32 \<Rightarrow> string \<Rightarrow> timestamp \<Rightarrow> bool \<Rightarrow> rule_store \<Rightarrow>
   (store_error + bool) \<times> rule_store" where
  "finalize_reservation_inner rule_id version reservation now refresh st =
     (case timestamp_to_epoch_nanos now of
        Inl e \<Rightarrow> (Inl e, st)
      | Inr n \<Rightarrow> with_immediate_tx (\<lambda>st.
          let current = is_current st rule_id version;
              reserved = filter (reserved_for reservation rule_id version) (st_usage st)
          in if \<not> (length reserved = 2 \<and> card (us_kind ` set reserved) = 2) then Inr (False, st)
             else if \<not> current then Inr (False, delete_reserved reservation st)
             else Inr (True, note_standing_rule_use_in_tx rule_id n refresh
               (commit_reserved reservation rule_id version st))) st)"

definition finalize_standing_rule_reservation ::
  "string \<Rightarrow> u32 \<Rightarrow> string \<Rightarrow> timestamp \<Rightarrow> rule_store \<Rightarrow> (store_error + bool) \<times> rule_store" where
  "finalize_standing_rule_reservation rule_id version reservation now =
     finalize_reservation_inner rule_id version reservation now True"

definition finalize_standing_rule_exception_reservation ::
  "string \<Rightarrow> u32 \<Rightarrow> string \<Rightarrow> timestamp \<Rightarrow> rule_store \<Rightarrow> (store_error + bool) \<times> rule_store" where
  "finalize_standing_rule_exception_reservation rule_id version reservation now =
     finalize_reservation_inner rule_id version reservation now False"

definition note_standing_rule_use_with_lapse ::
  "string \<Rightarrow> timestamp \<Rightarrow> bool \<Rightarrow> rule_store \<Rightarrow> (store_error + unit) \<times> rule_store" where
  "note_standing_rule_use_with_lapse rule_id now refresh st =
     (case timestamp_to_epoch_nanos now of
        Inl e \<Rightarrow> (Inl e, st)
      | Inr n \<Rightarrow> (Inr (), note_standing_rule_use_in_tx rule_id n refresh st))"

definition cancel_standing_rule_reservation ::
  "string \<Rightarrow> rule_store \<Rightarrow> (store_error + unit) \<times> rule_store" where
  "cancel_standing_rule_reservation reservation st = (Inr (), delete_reserved reservation st)"

definition standing_rule_remaining ::
  "string \<Rightarrow> timestamp \<Rightarrow> rule_store \<Rightarrow> store_error + (u32 \<times> u32)" where
  "standing_rule_remaining rule_id now st =
     (case find_rule st rule_id of
        None \<Rightarrow> Inl QueryReturnedNoRows
      | Some r \<Rightarrow> with_nanos now (\<lambda>n.
          Inr (word_of_int (max 0 (uint (bw_max (sr_quota r)) -
                 used st rule_id Quota (window_start n (sr_quota r)))),
               word_of_int (max 0 (uint (bw_max (sr_rate r)) -
                 used st rule_id Rate (window_start n (sr_rate r)))))))"

definition consult_and_reserve_standing_rule ::
  "action_id \<Rightarrow> timestamp \<Rightarrow> string \<Rightarrow> rule_store \<Rightarrow>
   (store_error + (rule_row \<times> string option) option) \<times> rule_store" where
  "consult_and_reserve_standing_rule action now reservation st =
     (case timestamp_to_epoch_nanos now of
        Inl e \<Rightarrow> (Inl e, st)
      | Inr n \<Rightarrow> with_immediate_tx (\<lambda>st.
          case first_row (active_rules st action) of
            None \<Rightarrow> Inr (None, st)
          | Some r \<Rightarrow>
              if deadline_nanos r \<le> n then Inr (None, lapse r n st)
              else if has_headroom st r n
              then Inr (Some (r, Some reservation),
                insert_usage (sr_rule_id r) (sr_version r) n reservation st)
              else Inr (Some (r, None), st)) st)"

section \<open>Lifecycle\<close>

definition revoke_standing_rule ::
  "string \<Rightarrow> timestamp \<Rightarrow> rule_store \<Rightarrow> (store_error + bool) \<times> rule_store" where
  "revoke_standing_rule rule_id now st =
     (case timestamp_to_epoch_nanos now of
        Inl e \<Rightarrow> (Inl e, st)
      | Inr n \<Rightarrow>
          let hit = (\<lambda>r. sr_rule_id r = rule_id \<and> sr_status r \<noteq> Revoked);
              changed = count_rules hit st;
              st1 = update_rules hit (\<lambda>r. r\<lparr>sr_status := Revoked, sr_revoked_at := Some n\<rparr>) st
          in (Inr (changed = 1),
              if changed = 1
              then record_audit ''standing_rule.revoked'' None (Some rule_id) None
                (stale_pending_exceptions rule_id None n st1)
              else st1))"

datatype pause_standing_rule_outcome = Paused | AlreadyPaused | Refused

fun status_text :: "rule_status \<Rightarrow> string" where
  "status_text Active_rule = ''active''"
| "status_text Paused_rule = ''paused''"
| "status_text NeedsReview = ''needs_review''"
| "status_text Revoked = ''revoked''"

definition pause_standing_rule ::
  "string \<Rightarrow> timestamp \<Rightarrow> rule_store \<Rightarrow> (store_error + pause_standing_rule_outcome) \<times> rule_store" where
  "pause_standing_rule rule_id now st =
     (case timestamp_to_epoch_nanos now of
        Inl e \<Rightarrow> (Inl e, st)
      | Inr n \<Rightarrow>
          let hit = (\<lambda>r. sr_rule_id r = rule_id \<and> sr_status r = Active_rule);
              st1 = update_rules hit (\<lambda>r. r\<lparr>sr_status := Paused_rule\<rparr>) st
          in if count_rules hit st = 1
             then (Inr Paused, record_audit ''standing_rule.paused'' None (Some rule_id) None
               (stale_pending_exceptions rule_id None n st1))
             else
               let status = map_option sr_status (first_row (sort_key (\<lambda>r. - uint (sr_version r))
                     (filter (\<lambda>r. sr_rule_id r = rule_id) (st_rules st1))))
               in if status = Some Paused_rule then (Inr AlreadyPaused, st1)
                  else (Inr Refused, record_audit ''standing_rule.pause_refused'' None
                    (Some (case status of None \<Rightarrow> ''missing'' | Some s \<Rightarrow> status_text s)) None st1))"

definition resume_standing_rule ::
  "string \<Rightarrow> u32 \<Rightarrow> rule_store \<Rightarrow> (store_error + bool) \<times> rule_store" where
  "resume_standing_rule rule_id version st =
     (let hit = (\<lambda>r. sr_rule_id r = rule_id \<and> sr_version r = version \<and> sr_status r = Paused_rule);
          changed = count_rules hit st;
          st1 = update_rules hit (\<lambda>r. r\<lparr>sr_status := Active_rule\<rparr>) st
      in (Inr (changed = 1),
          if changed = 1
          then record_audit ''standing_rule.resumed'' None (Some rule_id) None st1 else st1))"

text \<open>The start-up sweep over the rules that default to allow without being eligible.\<close>

definition allow_default_rule :: "rule_row \<Rightarrow> bool" where
  "allow_default_rule r \<longleftrightarrow>
     sr_status r = Active_rule \<and> map_option dw_default (sr_dark_window r) = Some Allow_default"

fun sweep_loop :: "action_catalog \<Rightarrow> int \<Rightarrow> rule_row list \<Rightarrow> nat \<Rightarrow> rule_store \<Rightarrow> nat \<times> rule_store" where
  "sweep_loop catalog now [] retired st = (retired, st)"
| "sweep_loop catalog now (r # rs) retired st =
     (if dark_window_allow_eligible catalog (sr_action_id r) then sweep_loop catalog now rs retired st
      else sweep_loop catalog now rs (retired + 1)
        (record_audit ''standing_rule.ineligible_allow_retired'' (Some (sr_action_id r))
          (Some (''rule '' @ sr_rule_id r @ '' carries a dark-window Allow default for '' @
            as_str (sr_action_id r) @ '', which the catalog does not declare eligible; moved to needs_review and its pending exceptions staled''))
          None (lapse r now st)))"

definition sweep_ineligible_dark_window_allow_rules ::
  "action_catalog \<Rightarrow> timestamp \<Rightarrow> rule_store \<Rightarrow> (store_error + nat) \<times> rule_store" where
  "sweep_ineligible_dark_window_allow_rules catalog now st =
     (case timestamp_to_epoch_nanos now of
        Inl e \<Rightarrow> (Inl e, st)
      | Inr n \<Rightarrow>
          (case sweep_loop catalog n (filter allow_default_rule (st_rules st)) 0 st of
             (retired, st') \<Rightarrow> (Inr retired, st')))"

section \<open>Dark-window exceptions\<close>

datatype dark_window_schedule = Scheduled string | AlreadyCovered | SuppressedAtCap

fun is_covered :: "dark_window_schedule \<Rightarrow> bool" where
  "is_covered SuppressedAtCap = False"
| "is_covered _ = True"

definition outstanding :: "string \<Rightarrow> u32 \<Rightarrow> pending_row \<Rightarrow> bool" where
  "outstanding rule_id version p \<longleftrightarrow>
     pa_rule_id p = rule_id \<and> pa_rule_version p = version \<and> pa_resolved_at p = None"

definition outstanding_dark_window_exceptions :: "rule_store \<Rightarrow> string \<Rightarrow> u32 \<Rightarrow> nat" where
  "outstanding_dark_window_exceptions st rule_id version =
     count_pending (outstanding rule_id version) st"

text \<open>What a caller supplies to schedule an exception for one request.\<close>

record pending_schedule_ctx =
  sc_owner_surface :: owner_surface
  sc_grant_id :: ulid
  sc_payload_ref :: "artifact_ref option"
  sc_fingerprint :: string
  sc_reviewed_scope_digest :: "string option"
  sc_compatibility_digest :: "string option"

definition new_pending ::
  "string \<Rightarrow> rule_row \<Rightarrow> dark_window_config \<Rightarrow> pending_schedule_ctx \<Rightarrow> int \<Rightarrow> pending_row" where
  "new_pending pending_id r dw c now =
     \<lparr>pa_pending_id = pending_id, pa_rule_id = sr_rule_id r, pa_rule_version = sr_version r,
      pa_task_grant_id = sc_grant_id c, pa_action_id = sr_action_id r,
      pa_owner_surface = sc_owner_surface c, pa_payload_ref = sc_payload_ref c,
      pa_default = dw_default dw, pa_request_fingerprint = sc_fingerprint c, pa_requested_at = now,
      pa_resolved_at = None, pa_resolution = None, pa_dispatch_state = NotDispatched,
      pa_token_consumed_at = None, pa_receipt_digest = None, pa_owner_attention_since = None,
      pa_reviewed_scope_digest = sc_reviewed_scope_digest c,
      pa_compatibility_digest = sc_compatibility_digest c\<rparr>"

text \<open>The part after the pending row is known: one live timer per open exception.\<close>

definition ensure_timer ::
  "string \<Rightarrow> string \<Rightarrow> string \<Rightarrow> rule_row \<Rightarrow> ulid \<Rightarrow> timestamp \<Rightarrow> dark_window_schedule tx" where
  "ensure_timer timer_id run_id effective r grant fires_at st =
     (if map_option tl_applied_at (find (\<lambda>l. tl_pending_id l = effective) (st_links st)) = Some None
      then Inr (AlreadyCovered, st)
      else if \<not> (\<exists>p\<in>set (st_pending st). pa_pending_id p = effective \<and> pa_resolved_at p = None)
      then Inr (AlreadyCovered, st)
      else with_nanos fires_at (\<lambda>f.
        Inr (Scheduled timer_id,
          record_audit ''workflow.timer_scheduled'' (Some (sr_action_id r))
            (Some ''standing rule dark-window timer scheduled for a specific pending action'')
            (Some grant)
            (st\<lparr>st_timers := st_timers st @
                  [\<lparr>wt_timer_id = timer_id, wt_run_id = run_id, wt_fires_at = f\<rparr>],
                st_links := st_links st @
                  [\<lparr>tl_timer_id = timer_id, tl_pending_id = effective, tl_applied_at = None\<rparr>]\<rparr>))))"

definition schedule_standing_rule_dark_window ::
  "rule_row \<Rightarrow> pending_schedule_ctx \<Rightarrow> timestamp \<Rightarrow> timestamp \<Rightarrow> string \<Rightarrow> string \<Rightarrow> rule_store \<Rightarrow>
   (store_error + dark_window_schedule) \<times> rule_store" where
  "schedule_standing_rule_dark_window r c fires_at now pending_id timer_id st =
     (case sr_dark_window r of
        None \<Rightarrow> (Inl (FailureRouting
          ''schedule_standing_rule_dark_window requires a configured dark_window''), st)
      | Some dw \<Rightarrow>
          with_immediate_tx (\<lambda>st.
            let run_id = ''srdw_'' @ pending_id in
            case find (\<lambda>p. pa_rule_id p = sr_rule_id r \<and> pa_rule_version p = sr_version r \<and>
                   pa_request_fingerprint p = sc_fingerprint c) (st_pending st) of
              Some p \<Rightarrow> ensure_timer timer_id run_id (pa_pending_id p) r (sc_grant_id c) fires_at st
            | None \<Rightarrow>
                if int (outstanding_dark_window_exceptions st (sr_rule_id r) (sr_version r)) \<ge>
                   uint (dw_max_pending_exceptions dw)
                then Inr (SuppressedAtCap,
                  record_audit ''standing_rule.exception_suppressed_at_cap'' (Some (sr_action_id r))
                    (Some (''rule '' @ sr_rule_id r @ '' v'' @ u32_text (sr_version r) @
                      '' already holds its reviewed limit of '' @
                      u32_text (dw_max_pending_exceptions dw) @
                      '' outstanding dark-window exception(s); scheduling refused''))
                    (Some (sc_grant_id c)) st)
                else with_nanos now (\<lambda>n.
                  ensure_timer timer_id run_id pending_id r (sc_grant_id c) fires_at
                    (st\<lparr>st_pending := st_pending st @ [new_pending pending_id r dw c n]\<rparr>))) st)"

text \<open>The caller's view of a pending row.\<close>

record standing_rule_pending_action =
  pn_pending_id :: string
  pn_rule_id :: string
  pn_rule_version :: u32
  pn_task_grant_id :: ulid
  pn_action_id :: action_id
  pn_owner_surface :: owner_surface
  pn_payload_ref :: "artifact_ref option"
  pn_default :: dark_window_default
  pn_request_fingerprint :: string
  pn_dispatch_state :: dispatch_state
  pn_resolved_at :: "int option"
  pn_resolution :: "resolution option"

definition pending_action ::
  "pending_row \<Rightarrow> dispatch_state \<Rightarrow> int option \<Rightarrow> resolution option \<Rightarrow> standing_rule_pending_action" where
  "pending_action p dispatch resolved_at res =
     \<lparr>pn_pending_id = pa_pending_id p, pn_rule_id = pa_rule_id p,
      pn_rule_version = pa_rule_version p, pn_task_grant_id = pa_task_grant_id p,
      pn_action_id = pa_action_id p, pn_owner_surface = pa_owner_surface p,
      pn_payload_ref = pa_payload_ref p, pn_default = pa_default p,
      pn_request_fingerprint = pa_request_fingerprint p, pn_dispatch_state = dispatch,
      pn_resolved_at = resolved_at, pn_resolution = res\<rparr>"

definition find_pending :: "rule_store \<Rightarrow> string \<Rightarrow> pending_row option" where
  "find_pending st pending_id = find (\<lambda>p. pa_pending_id p = pending_id) (st_pending st)"

definition apply_timer :: "string \<Rightarrow> int \<Rightarrow> rule_store \<Rightarrow> rule_store" where
  "apply_timer timer_id now st =
     st\<lparr>st_links := map (\<lambda>l. if tl_timer_id l = timer_id then l\<lparr>tl_applied_at := Some now\<rparr> else l)
       (st_links st)\<rparr>"

fun default_text :: "dark_window_default \<Rightarrow> string" where
  "default_text Allow_default = ''allow''"
| "default_text Deny_default = ''deny''"

fun default_resolution :: "dark_window_default \<Rightarrow> resolution" where
  "default_resolution Allow_default = Allowed_resolution"
| "default_resolution Deny_default = Denied_resolution"

definition claim_standing_rule_dark_window ::
  "string \<Rightarrow> timestamp \<Rightarrow> rule_store \<Rightarrow>
   (store_error + standing_rule_pending_action option) \<times> rule_store" where
  "claim_standing_rule_dark_window timer_id now =
     with_immediate_tx (\<lambda>st.
       case find (\<lambda>l. tl_timer_id l = timer_id) (st_links st) of
         None \<Rightarrow> Inr (None, st)
       | Some l \<Rightarrow>
           if tl_applied_at l \<noteq> None then Inr (None, st)
           else (case find_pending st (tl_pending_id l) of
               None \<Rightarrow> Inr (None, st)
             | Some p \<Rightarrow> with_nanos now (\<lambda>n.
                 case pa_resolved_at p of
                   Some resolved_at \<Rightarrow>
                     let st' = apply_timer timer_id n st
                     in if pa_resolution p = Some Allowed_resolution
                        then Inr (Some (pending_action p (pa_dispatch_state p) (Some resolved_at)
                          (Some Allowed_resolution)), st')
                        else Inr (None, st')
                 | None \<Rightarrow>
                     let res = default_resolution (pa_default p);
                         st1 = update_pending (\<lambda>q. pa_pending_id q = pa_pending_id p)
                           (\<lambda>q. q\<lparr>pa_resolved_at := Some n, pa_resolution := Some res\<rparr>) st;
                         st2 = record_audit ''standing_rule.exception_fired'' None
                           (Some (''rule '' @ pa_rule_id p @ '' dark-window fired; default: '' @
                             default_text (pa_default p))) None st1;
                         st3 = apply_timer timer_id n st2
                     in if res = Allowed_resolution
                        then Inr (Some (pending_action p (pa_dispatch_state p) (Some now) (Some res)),
                          st3)
                        else Inr (None, st3))))"

section \<open>Owner resolution\<close>

definition pending_id_for_fingerprint :: "rule_store \<Rightarrow> string \<Rightarrow> u32 \<Rightarrow> string \<Rightarrow> string option" where
  "pending_id_for_fingerprint st rule_id version fingerprint =
     map_option pa_pending_id (find (\<lambda>p. pa_rule_id p = rule_id \<and> pa_rule_version p = version \<and>
       pa_request_fingerprint p = fingerprint) (st_pending st))"

definition resolve_pending_action ::
  "string \<Rightarrow> bool \<Rightarrow> timestamp \<Rightarrow> rule_store \<Rightarrow> (store_error + bool) \<times> rule_store" where
  "resolve_pending_action pending_id allow now st =
     (case timestamp_to_epoch_nanos now of
        Inl e \<Rightarrow> (Inl e, st)
      | Inr n \<Rightarrow>
          let res = (if allow then Allowed_resolution else Denied_resolution);
              hit = (\<lambda>p. pa_pending_id p = pending_id \<and> pa_resolved_at p = None);
              changed = count_pending hit st;
              st1 = update_pending hit (\<lambda>p. p\<lparr>pa_resolved_at := Some n, pa_resolution := Some res\<rparr>) st
          in (Inr (changed \<ge> 1),
              if changed \<ge> 1
              then record_audit ''standing_rule.pending_resolved'' None
                (Some (''pending '' @ pending_id @ '' resolved by owner: '' @
                  (if allow then ''allowed'' else ''denied''))) None st1
              else st1))"

section \<open>The fired token\<close>

definition counterparty_erased :: "rule_store \<Rightarrow> ulid \<Rightarrow> bool" where
  "counterparty_erased st grant \<longleftrightarrow>
     (case st_briefcases st grant of
        None \<Rightarrow> False
      | Some b \<Rightarrow>
          (case ts_counterparty (bc_task_shape b) of
             Bound_counterparty identity _ \<Rightarrow> identity \<in> st_erased st
           | Unresolved_counterparty _ _ \<Rightarrow> False))"

text \<open>\<open>EXISTS (SELECT 1 FROM standing_rules r \<dots>)\<close>: the exception's rule version is live.\<close>

definition rule_live_for :: "rule_store \<Rightarrow> pending_row \<Rightarrow> int \<Rightarrow> bool" where
  "rule_live_for st p now \<longleftrightarrow>
     (\<exists>r\<in>set (st_rules st).
        sr_rule_id r = pa_rule_id p \<and> sr_version r = pa_rule_version p \<and>
        sr_status r = Active_rule \<and>
        (sr_expires_after_secs r = 0 \<or>
         now - (case sr_last_used_at r of Some t \<Rightarrow> t | None \<Rightarrow> sr_activated_at r)
           < sr_expires_after_secs r * nanos_per_sec))"

definition token_ready ::
  "rule_store \<Rightarrow> string \<Rightarrow> string \<Rightarrow> string option \<Rightarrow> string option \<Rightarrow> int \<Rightarrow> pending_row \<Rightarrow> bool" where
  "token_ready st pending_id fingerprint scope compat_digest now p \<longleftrightarrow>
     pa_pending_id p = pending_id \<and> pa_resolution p = Some Allowed_resolution \<and>
     pa_resolved_at p \<noteq> None \<and> pa_token_consumed_at p = None \<and>
     pa_request_fingerprint p = fingerprint \<and> pa_reviewed_scope_digest p = scope \<and>
     pa_compatibility_digest p = compat_digest \<and> rule_live_for st p now"

definition consume_fired_pending_for_context ::
  "ext \<Rightarrow> string \<Rightarrow> action_id \<Rightarrow> ulid \<Rightarrow> owner_surface \<Rightarrow> artifact_ref option \<Rightarrow> string option \<Rightarrow>
   string option \<Rightarrow> timestamp \<Rightarrow> rule_store \<Rightarrow>
   (store_error + (string \<times> u32 \<times> string) option) \<times> rule_store" where
  "consume_fired_pending_for_context X pending_id action grant surface payload scope compat_digest now st =
     (let fingerprint = standing_rule_fingerprint X action grant surface payload in
      case timestamp_to_epoch_nanos now of
        Inl e \<Rightarrow> (Inl e, st)
      | Inr n \<Rightarrow>
          if counterparty_erased st grant
          then (Inr None, record_audit ''action.scope_context_unresolved'' (Some action)
            (Some ''counterparty was erased before fired-token claim; ordinary owner review required'')
            (Some grant) st)
          else (case find (token_ready st pending_id fingerprint scope compat_digest n) (st_pending st) of
              None \<Rightarrow> (Inr None, st)
            | Some p \<Rightarrow>
                let hit = (\<lambda>q. pa_pending_id q = pending_id \<and> pa_token_consumed_at q = None \<and>
                      pa_resolution q = Some Allowed_resolution \<and> pa_resolved_at q \<noteq> None);
                    st1 = update_pending hit
                      (\<lambda>q. q\<lparr>pa_token_consumed_at := Some n, pa_dispatch_state := Claimed\<rparr>) st
                in if count_pending hit st \<noteq> 1 then (Inr None, st1)
                   else (Inr (Some (pa_rule_id p, pa_rule_version p, pending_id)),
                     record_audit ''standing_rule.dark_window_admitted'' (Some action)
                       (Some (''fired dark-window default admitted for '' @ pa_rule_id p)) (Some grant)
                       (insert_usage (pa_rule_id p) (pa_rule_version p) n pending_id st1))))"

definition consume_standing_rule_fired_pending ::
  "ext \<Rightarrow> string \<Rightarrow> action_id \<Rightarrow> ulid \<Rightarrow> owner_surface \<Rightarrow> artifact_ref option \<Rightarrow> timestamp \<Rightarrow>
   rule_store \<Rightarrow> (store_error + (string \<times> u32 \<times> string) option) \<times> rule_store" where
  "consume_standing_rule_fired_pending X pending_id action grant surface payload =
     consume_fired_pending_for_context X pending_id action grant surface payload None None"

section \<open>Recovery\<close>

definition pending_dark_window_recoverable :: "rule_store \<Rightarrow> standing_rule_pending_action list" where
  "pending_dark_window_recoverable st =
     map (\<lambda>p. pending_action p NotDispatched None (Some Allowed_resolution))
       (filter (\<lambda>p. pa_resolution p = Some Allowed_resolution \<and> pa_dispatch_state p = NotDispatched)
         (st_pending st))"

definition pending_dark_window_claimed_unredriven :: "rule_store \<Rightarrow> standing_rule_pending_action list" where
  "pending_dark_window_claimed_unredriven st =
     map (\<lambda>p. pending_action p Claimed None (Some Allowed_resolution))
       (filter (\<lambda>p. pa_resolution p = Some Allowed_resolution \<and> pa_dispatch_state p = Claimed \<and>
           pa_owner_attention_since p = None) (st_pending st))"

definition surface_dark_window_claimed_for_owner ::
  "string \<Rightarrow> timestamp \<Rightarrow> rule_store \<Rightarrow> (store_error + unit) \<times> rule_store" where
  "surface_dark_window_claimed_for_owner pending_id now st =
     (case timestamp_to_epoch_nanos now of
        Inl e \<Rightarrow> (Inl e, st)
      | Inr n \<Rightarrow>
          let hit = (\<lambda>p. pa_pending_id p = pending_id \<and> pa_owner_attention_since p = None \<and>
                pa_dispatch_state p = Claimed);
              st1 = update_pending hit (\<lambda>p. p\<lparr>pa_owner_attention_since := Some n\<rparr>) st
          in (Inr (),
              if count_pending hit st = 1
              then record_audit ''standing_rule.dark_window_effect_unconfirmed'' None
                (Some (''fired dark-window default claimed but effect unconfirmed; pending '' @
                  pending_id @ '' requires owner attention (never auto-rerun)'')) None st1
              else st1))"

definition mark_fired_effect_attempted ::
  "string \<Rightarrow> string \<Rightarrow> rule_store \<Rightarrow> (store_error + unit) \<times> rule_store" where
  "mark_fired_effect_attempted pending_id receipt =
     with_immediate_tx (\<lambda>st.
       let hit = (\<lambda>p. pa_pending_id p = pending_id \<and> pa_dispatch_state p = Claimed)
       in if count_pending hit st \<noteq> 1
          then Inl (FailureRouting (''fired pending '' @ pending_id @
            '' was not in 'claimed' state; effect attempt not recorded''))
          else Inr ((), record_audit ''standing_rule.dark_window_effect_attempted'' None
            (Some (''fired dark-window effect durably attempted; pending '' @ pending_id)) None
            (update_pending hit
              (\<lambda>p. p\<lparr>pa_dispatch_state := Dispatched, pa_receipt_digest := Some receipt\<rparr>) st)))"

definition refused_marker :: string where
  "refused_marker = ''refused-pre-effect''"

definition terminate_fired_pending_refused ::
  "string \<Rightarrow> string \<Rightarrow> timestamp \<Rightarrow> rule_store \<Rightarrow> (store_error + bool) \<times> rule_store" where
  "terminate_fired_pending_refused pending_id reason now st =
     (case timestamp_to_epoch_nanos now of
        Inl e \<Rightarrow> (Inl e, st)
      | Inr n \<Rightarrow>
          let hit = (\<lambda>p. pa_pending_id p = pending_id \<and>
                pa_resolution p = Some Allowed_resolution \<and> pa_dispatch_state p = NotDispatched);
              changed = count_pending hit st;
              st1 = update_pending hit (\<lambda>p. p\<lparr>pa_resolved_at := Some n,
                pa_resolution := Some Stale, pa_receipt_digest := Some refused_marker\<rparr>) st
          in (Inr (changed = 1),
              if changed = 1
              then record_audit ''standing_rule.fired_pending_refused'' None
                (Some (''fired dark-window default pending '' @ pending_id @
                  '' permanently refused before effect ('' @ reason @
                  ''); marked stale, no effect, no budget consumed'')) None st1
              else st1))"

definition refused_pendings_awaiting_owner_notice :: "rule_store \<Rightarrow> (string \<times> string) list" where
  "refused_pendings_awaiting_owner_notice st =
     map (\<lambda>p. (pa_pending_id p, pa_rule_id p))
       (filter (\<lambda>p. pa_resolution p = Some Stale \<and> pa_dispatch_state p = NotDispatched \<and>
          pa_receipt_digest p = Some refused_marker \<and> pa_owner_attention_since p = None)
         (st_pending st))"

definition mark_refused_pending_owner_notified ::
  "string \<Rightarrow> timestamp \<Rightarrow> rule_store \<Rightarrow> (store_error + unit) \<times> rule_store" where
  "mark_refused_pending_owner_notified pending_id now st =
     (case timestamp_to_epoch_nanos now of
        Inl e \<Rightarrow> (Inl e, st)
      | Inr n \<Rightarrow>
          (Inr (), update_pending (\<lambda>p. pa_pending_id p = pending_id \<and>
             pa_owner_attention_since p = None \<and> pa_receipt_digest p = Some refused_marker)
             (\<lambda>p. p\<lparr>pa_owner_attention_since := Some n\<rparr>) st))"

definition rearm_standing_rule_fired_pending ::
  "string \<Rightarrow> rule_store \<Rightarrow> (store_error + unit) \<times> rule_store" where
  "rearm_standing_rule_fired_pending pending_id st =
     (let hit = (\<lambda>p. pa_pending_id p = pending_id \<and> pa_dispatch_state p = Claimed \<and>
            pa_owner_attention_since p = None);
          st1 = update_pending hit (\<lambda>p. p\<lparr>pa_token_consumed_at := None,
            pa_dispatch_state := NotDispatched, pa_receipt_digest := None,
            pa_owner_attention_since := None\<rparr>) st
      in if count_pending hit st \<noteq> 1
         then (Inl (FailureRouting (''fired pending '' @ pending_id @
           '' was not rearmable before effect'')), st1)
         else (Inr (), st1))"

section \<open>Scoped admission\<close>

definition scoped_rule_matches :: "ext \<Rightarrow> rule_row \<Rightarrow> resolved_action_context \<Rightarrow> bool" where
  "scoped_rule_matches X r c =
     (case (sr_compatibility_digest r, sr_reviewed_scope_digest r) of
        (Some compat_digest, Some scope_digest) \<Rightarrow>
          if compat_digest \<noteq> cx_compatibility_digest c then False
          else (case context_reviewed_scope_digest X c of
              None \<Rightarrow> False
            | Some d \<Rightarrow>
                if scope_digest \<noteq> d then False
                else (case sm_reviewed_scope (sr_manifest r) of
                    None \<Rightarrow> False
                  | Some b \<Rightarrow> binding_is_valid X b \<and> scope_compare X (rb_scope b) c = Matches))
      | _ \<Rightarrow> False)"

definition active_standing_rules_for_action ::
  "action_id \<Rightarrow> timestamp \<Rightarrow> rule_store \<Rightarrow> store_error + rule_row list" where
  "active_standing_rules_for_action action now st =
     with_nanos now (\<lambda>n. Inr (filter (\<lambda>r. \<not> deadline_nanos r \<le> n) (active_rules st action)))"

record scoped_consult_outcome =
  so_matched :: bool
  so_allow :: bool
  so_rule :: "rule_row option"
  so_reservation_id :: "string option"
  so_ambiguous :: bool
  so_quota_remaining :: u32
  so_rate_remaining :: u32

definition scoped_none :: scoped_consult_outcome where
  "scoped_none = \<lparr>so_matched = False, so_allow = False, so_rule = None, so_reservation_id = None,
     so_ambiguous = False, so_quota_remaining = 0, so_rate_remaining = 0\<rparr>"

definition budget_info :: "scoped_consult_outcome \<Rightarrow> (u32 \<times> u32) option" where
  "budget_info o1 =
     (if so_allow o1 then Some (so_quota_remaining o1, so_rate_remaining o1) else None)"

text \<open>The selection loop: lapsed rules are retired on the way, the second match ends it.\<close>

fun select_scoped ::
  "ext \<Rightarrow> resolved_action_context \<Rightarrow> int \<Rightarrow> rule_row list \<Rightarrow> rule_row list \<Rightarrow> rule_store \<Rightarrow>
   rule_row list \<times> rule_store" where
  "select_scoped X c now [] matches st = (matches, st)"
| "select_scoped X c now (r # rs) matches st =
     (if deadline_nanos r \<le> now then select_scoped X c now rs matches (lapse r now st)
      else if \<not> scoped_rule_matches X r c then select_scoped X c now rs matches st
      else if length (matches @ [r]) > 1 then (matches @ [r], st)
      else select_scoped X c now rs (matches @ [r]) st)"

definition reserve_scoped ::
  "rule_row \<Rightarrow> int \<Rightarrow> string \<Rightarrow> rule_store \<Rightarrow> scoped_consult_outcome \<times> rule_store" where
  "reserve_scoped r now reservation st =
     (let quota_used = used st (sr_rule_id r) Quota (window_start now (sr_quota r));
          rate_used = used st (sr_rule_id r) Rate (window_start now (sr_rate r));
          room = has_headroom st r now
      in (\<lparr>so_matched = True, so_allow = room, so_rule = Some r,
           so_reservation_id = (if room then Some reservation else None), so_ambiguous = False,
           so_quota_remaining = (if room
             then word_of_int (max 0 (uint (bw_max (sr_quota r)) - quota_used - 1)) else 0),
           so_rate_remaining = (if room
             then word_of_int (max 0 (uint (bw_max (sr_rate r)) - rate_used - 1)) else 0)\<rparr>,
          if room then insert_usage (sr_rule_id r) (sr_version r) now reservation st else st))"

definition consult_and_reserve_scoped_rule ::
  "ext \<Rightarrow> resolved_action_context \<Rightarrow> timestamp \<Rightarrow> string \<Rightarrow> rule_store \<Rightarrow>
   (store_error + scoped_consult_outcome) \<times> rule_store" where
  "consult_and_reserve_scoped_rule X c now reservation st =
     (case timestamp_to_epoch_nanos now of
        Inl e \<Rightarrow> (Inl e, st)
      | Inr n \<Rightarrow>
          if (case cx_counterparty_identity_id c of None \<Rightarrow> False | Some i \<Rightarrow> i \<in> st_erased st)
          then (Inr scoped_none, record_audit ''action.scope_context_unresolved''
            (Some (cx_action_id c))
            (Some ''counterparty was erased before scoped rule selection; ordinary owner review required'')
            None st)
          else (case select_scoped X c n (active_rules st (cx_action_id c)) [] st of
              ([], st') \<Rightarrow> (Inr scoped_none, st')
            | ([r], st') \<Rightarrow>
                (case reserve_scoped r n reservation st' of (out, st'') \<Rightarrow> (Inr out, st''))
            | (_, st') \<Rightarrow>
                (Inr (scoped_none\<lparr>so_ambiguous := True\<rparr>),
                 record_audit ''standing_rule.ambiguous_scope_overlap'' (Some (cx_action_id c))
                   (Some ''two or more active rules matched one resolved scope; admission refused'')
                   None st')))"

section \<open>The gate consultation\<close>

record standing_rule_gate_outcome =
  go_matched :: bool
  go_allow :: bool
  go_quota_remaining :: u32
  go_rate_remaining :: u32
  go_dark_window_scheduled :: bool
  go_rule :: "rule_row option"
  go_reservation_id :: "string option"

datatype gate_failure = Panics panic | Fails store_error

definition gate_budget_info :: "standing_rule_gate_outcome \<Rightarrow> (u32 \<times> u32) option" where
  "gate_budget_info o1 =
     map_option (\<lambda>_. (go_quota_remaining o1, go_rate_remaining o1)) (go_rule o1)"

definition over_budget_outcome :: "rule_row \<Rightarrow> bool \<Rightarrow> standing_rule_gate_outcome" where
  "over_budget_outcome r scheduled =
     \<lparr>go_matched = True, go_allow = False, go_quota_remaining = 0, go_rate_remaining = 0,
      go_dark_window_scheduled = scheduled, go_rule = Some r, go_reservation_id = None\<rparr>"

definition consult_standing_rule_gate ::
  "ext \<Rightarrow> action_id \<Rightarrow> timestamp \<Rightarrow> pending_schedule_ctx option \<Rightarrow> string \<Rightarrow> string \<Rightarrow> string \<Rightarrow>
   rule_store \<Rightarrow> (gate_failure + standing_rule_gate_outcome) \<times> rule_store" where
  "consult_standing_rule_gate X action now ctx reservation pending_id timer_id st =
     (case consult_and_reserve_standing_rule action now reservation st of
        (Inl e, st1) \<Rightarrow> (Inl (Fails e), st1)
      | (Inr None, st1) \<Rightarrow>
          (Inr \<lparr>go_matched = False, go_allow = False, go_quota_remaining = 0,
             go_rate_remaining = 0, go_dark_window_scheduled = False, go_rule = None,
             go_reservation_id = None\<rparr>, st1)
      | (Inr (Some (r, Some rid)), st1) \<Rightarrow>
          (case standing_rule_remaining (sr_rule_id r) now st1 of
             Inl e \<Rightarrow> (Inl (Fails e), snd (cancel_standing_rule_reservation rid st1))
           | Inr (quota, rate) \<Rightarrow>
               (Inr \<lparr>go_matched = True, go_allow = True, go_quota_remaining = quota,
                  go_rate_remaining = rate, go_dark_window_scheduled = False, go_rule = Some r,
                  go_reservation_id = Some rid\<rparr>, st1))
      | (Inr (Some (r, None)), st1) \<Rightarrow>
          (case (sr_dark_window r, ctx) of
             (Some dw, Some c) \<Rightarrow>
               (case ts_add_secs X now (word_of_int (max 0 (dw_timeout_secs dw))) of
                  Inl p \<Rightarrow> (Inl (Panics p), st1)
                | Inr fires_at \<Rightarrow>
                    (case schedule_standing_rule_dark_window r c fires_at now pending_id timer_id st1 of
                       (Inl e, st2) \<Rightarrow> (Inl (Fails e), st2)
                     | (Inr s, st2) \<Rightarrow> (Inr (over_budget_outcome r (is_covered s)), st2)))
           | _ \<Rightarrow> (Inr (over_budget_outcome r False), st1)))"

end
