(* ===== verification/Rule_Invariant.thy ===== *)
theory Rule_Invariant
  imports Rule_Operations
begin

text \<open>
  What every reachable standing-rule store satisfies. \<open>run\<close> interleaves the transactions of the
  store in any order, with any arguments; a scheduling transaction may use a rule row read from
  any earlier store, since the gate reads and schedules in two transactions. Each transaction is
  shown to make one of five kinds of \<open>change\<close>, and the invariants are proved over these.
\<close>

section \<open>Tame changes\<close>

text \<open>
  A tame change keeps every rule's reviewed terms, adds no charge, adds no pending exception and
  reopens none.
\<close>

definition terms_of :: "rule_row \<Rightarrow> rule_row" where
  "terms_of r = r\<lparr>sr_status := Active_rule, sr_last_used_at := None, sr_revoked_at := None,
     sr_needs_review_since := None\<rparr>"

type_synonym charge = "string \<times> u32 \<times> usage_kind \<times> int \<times> string"

definition charge_of :: "usage_row \<Rightarrow> charge" where
  "charge_of u = (us_rule_id u, us_version u, us_kind u, us_used_at u, us_reservation_id u)"

definition live_charges :: "usage_row list \<Rightarrow> charge multiset" where
  "live_charges us = mset (map charge_of (filter (\<lambda>u. us_status u \<in> {Reserved, Committed}) us))"

abbreviation charges :: "rule_store \<Rightarrow> charge multiset" where
  "charges st \<equiv> live_charges (st_usage st)"

definition pending_ids :: "rule_store \<Rightarrow> string set" where
  "pending_ids st = pa_pending_id ` set (st_pending st)"

definition still_pending :: "pending_row \<Rightarrow> pending_row \<Rightarrow> bool" where
  "still_pending p q \<longleftrightarrow>
     pa_pending_id q = pa_pending_id p \<and> pa_rule_id q = pa_rule_id p \<and>
     pa_rule_version q = pa_rule_version p \<and>
     pa_request_fingerprint q = pa_request_fingerprint p \<and>
     (pa_resolved_at q = None \<longrightarrow> pa_resolved_at p = None)"

definition tame :: "rule_store \<Rightarrow> rule_store \<Rightarrow> bool" where
  "tame st st' \<longleftrightarrow>
     map terms_of (st_rules st') = map terms_of (st_rules st) \<and>
     charges st' \<subseteq># charges st \<and>
     list_all2 still_pending (st_pending st) (st_pending st')"

named_theorems tame_intros \<open>the primitive updates that are tame\<close>

lemma still_pending_refl [simp]: "still_pending p p"
  by (simp add: still_pending_def)

lemma tame_refl [simp, intro]: "tame st st"
  by (simp add: tame_def list_all2_refl)

lemma tame_trans [trans]: "tame s t \<Longrightarrow> tame t u \<Longrightarrow> tame s u"
  unfolding tame_def
  by (auto intro: subset_mset.order_trans list_all2_trans [rotated]
      simp: still_pending_def elim: list_all2_trans [rotated])

lemma tame_append_audit [simp, tame_intros]: "tame st (record_audit k a r g st)"
  by (simp add: tame_def record_audit_def list_all2_refl)

lemma tame_update_rules [tame_intros]:
  assumes "\<And>r. terms_of (f r) = terms_of r"
  shows "tame st (update_rules P f st)"
  using assms by (simp add: tame_def update_rules_def list_all2_refl)

lemma tame_update_pending [tame_intros]:
  assumes "\<And>p. P p \<Longrightarrow> still_pending p (f p)"
  shows "tame st (update_pending P f st)"
  using assms by (auto simp: tame_def update_pending_def list_all2_map2 intro!: list_all2_refl)

lemma tame_apply_timer [simp, tame_intros]: "tame st (apply_timer i n st)"
  by (simp add: tame_def apply_timer_def list_all2_refl)

lemma live_charges_simps [simp]:
  "live_charges [] = {#}"
  "live_charges (u # us) = (if us_status u \<in> {Reserved, Committed}
     then add_mset (charge_of u) (live_charges us) else live_charges us)"
  "live_charges (us @ vs) = live_charges us + live_charges vs"
  by (simp_all add: live_charges_def)

lemma subset_add_mset: "A \<subseteq># B \<Longrightarrow> A \<subseteq># add_mset x B"
  by (metis add_mset_add_single mset_subset_eq_add_left subset_mset.order_trans)

lemma live_charges_filter: "live_charges (filter P us) \<subseteq># live_charges us"
  by (induction us) (auto simp: subset_add_mset)

lemma live_charges_commit:
  "live_charges (map (\<lambda>u. if reserved_for c i v u then u\<lparr>us_status := Committed\<rparr> else u) us)
     = live_charges us"
  by (induction us) (auto simp: reserved_for_def charge_of_def)

lemma tame_delete_reserved [simp, tame_intros]: "tame st (delete_reserved reservation st)"
  by (simp add: tame_def delete_reserved_def live_charges_filter list_all2_refl)

lemma tame_commit_reserved [simp, tame_intros]: "tame st (commit_reserved reservation i v st)"
  by (simp add: tame_def commit_reserved_def live_charges_commit list_all2_refl)

lemma terms_of_updates [simp]:
  "terms_of (r\<lparr>sr_status := s\<rparr>) = terms_of r"
  "terms_of (r\<lparr>sr_last_used_at := t\<rparr>) = terms_of r"
  "terms_of (r\<lparr>sr_status := s, sr_revoked_at := t\<rparr>) = terms_of r"
  "terms_of (r\<lparr>sr_status := s, sr_needs_review_since := t\<rparr>) = terms_of r"
  by (simp_all add: terms_of_def)

lemma terms_of_sel [simp]:
  "sr_rule_id (terms_of r) = sr_rule_id r" "sr_version (terms_of r) = sr_version r"
  "sr_quota (terms_of r) = sr_quota r" "sr_rate (terms_of r) = sr_rate r"
  "sr_dark_window (terms_of r) = sr_dark_window r"
  by (simp_all add: terms_of_def)

lemma terms_ofD:
  assumes "terms_of r = terms_of s"
  shows "sr_rule_id r = sr_rule_id s" "sr_version r = sr_version s" "sr_quota r = sr_quota s"
    "sr_rate r = sr_rate s" "sr_dark_window r = sr_dark_window s"
  using terms_of_sel assms by metis+

lemma tame_needs_review [simp, tame_intros]: "tame st (needs_review i n st)"
  unfolding needs_review_def by (rule tame_update_rules) simp

lemma tame_stale [simp, tame_intros]: "tame st (stale_pending_exceptions i v n st)"
proof -
  have "tame st (update_pending (stale_hit i v)
      (\<lambda>p. p\<lparr>pa_resolved_at := Some n, pa_resolution := Some Stale\<rparr>) st)"
    by (rule tame_update_pending) (simp add: still_pending_def)
  then show ?thesis
    by (auto simp: stale_pending_exceptions_def Let_def intro: tame_trans tame_append_audit)
qed

lemma tame_lapse [simp, tame_intros]: "tame st (lapse r n st)"
  unfolding lapse_def by (rule tame_trans [OF tame_stale tame_needs_review])

lemma tame_note_use [simp, tame_intros]: "tame st (note_standing_rule_use_in_tx i n refresh st)"
proof -
  have upd: "tame st (update_rules P (\<lambda>r. r\<lparr>sr_last_used_at := Some n\<rparr>) st)" for P st
    by (rule tame_update_rules) simp
  have drift: "tame st (record_audit k a w g (needs_review i n (stale_pending_exceptions i None n st)))"
    for k a w g st
    by (meson tame_append_audit tame_needs_review tame_stale tame_trans)
  show ?thesis
    by (auto simp: note_standing_rule_use_in_tx_def Let_def upd drift split: option.split
        intro: tame_trans [OF upd drift])
qed

lemma tame_update_status [simp]:
  "tame st (update_rules P (\<lambda>r. r\<lparr>sr_status := s\<rparr>) st)"
  "tame st (update_rules P (\<lambda>r. r\<lparr>sr_status := s, sr_revoked_at := t\<rparr>) st)"
  by (simp_all add: tame_update_rules)

text \<open>The same updates at the end of a tame change.\<close>

lemma tame_after [simp]:
  assumes "tame s t"
  shows "tame s (record_audit k a w g t)" "tame s (apply_timer i n t)"
    "tame s (delete_reserved c t)" "tame s (commit_reserved c i v t)" "tame s (needs_review i n t)"
    "tame s (stale_pending_exceptions i u n t)" "tame s (lapse r n t)"
    "tame s (note_standing_rule_use_in_tx i n refresh t)"
    "tame s (update_rules P (\<lambda>r. r\<lparr>sr_status := x\<rparr>) t)"
    "tame s (update_rules P (\<lambda>r. r\<lparr>sr_status := x, sr_revoked_at := y\<rparr>) t)"
  by (rule tame_trans [OF assms], simp)+

section \<open>Transactions in any order\<close>

text \<open>
  One transaction. Clocks are not before 1970; the id of a new pending exception is fresh, as a
  ULID is. The briefcases and the erasure markers belong to other components and may change at
  any time.
\<close>

inductive rule_step ::
  "ext \<Rightarrow> action_catalog \<Rightarrow> action_descriptor list \<Rightarrow> rule_row set \<Rightarrow> rule_store \<Rightarrow> rule_store \<Rightarrow> bool"
  for X catalog descriptors seen where
  activate: "0 \<le> now \<Longrightarrow>
    rule_step X catalog descriptors seen st
      (snd (activate_standing_rule X catalog descriptors m grant now st))"
| lookup: "rule_step X catalog descriptors seen st (snd (active_standing_rule_for_action a now st))"
| reserve: "0 \<le> now \<Longrightarrow>
    rule_step X catalog descriptors seen st (snd (reserve_standing_rule_budget i now c st))"
| finalize: "rule_step X catalog descriptors seen st
    (snd (finalize_reservation_inner i v c now refresh st))"
| note_use: "rule_step X catalog descriptors seen st
    (snd (note_standing_rule_use_with_lapse i now refresh st))"
| cancel: "rule_step X catalog descriptors seen st (snd (cancel_standing_rule_reservation c st))"
| consult: "0 \<le> now \<Longrightarrow>
    rule_step X catalog descriptors seen st (snd (consult_and_reserve_standing_rule a now c st))"
| consult_scoped: "0 \<le> now \<Longrightarrow>
    rule_step X catalog descriptors seen st (snd (consult_and_reserve_scoped_rule X cx now c st))"
| revoke: "rule_step X catalog descriptors seen st (snd (revoke_standing_rule i now st))"
| pause: "rule_step X catalog descriptors seen st (snd (pause_standing_rule i now st))"
| resume: "rule_step X catalog descriptors seen st (snd (resume_standing_rule i v st))"
| sweep: "rule_step X catalog descriptors seen st
    (snd (sweep_ineligible_dark_window_allow_rules catalog now st))"
| schedule: "r \<in> seen \<Longrightarrow> pending_id \<notin> pending_ids st \<Longrightarrow>
    rule_step X catalog descriptors seen st
      (snd (schedule_standing_rule_dark_window r ctx fires_at now pending_id timer_id st))"
| claim: "rule_step X catalog descriptors seen st (snd (claim_standing_rule_dark_window t now st))"
| resolve: "rule_step X catalog descriptors seen st (snd (resolve_pending_action p allow now st))"
| consume: "rule_step X catalog descriptors seen st
    (snd (consume_fired_pending_for_context X p a g s payload scope compat_digest now st))"
| surface: "rule_step X catalog descriptors seen st
    (snd (surface_dark_window_claimed_for_owner p now st))"
| attempted: "rule_step X catalog descriptors seen st (snd (mark_fired_effect_attempted p receipt st))"
| terminate: "rule_step X catalog descriptors seen st
    (snd (terminate_fired_pending_refused p reason now st))"
| notified: "rule_step X catalog descriptors seen st
    (snd (mark_refused_pending_owner_notified p now st))"
| rearm: "rule_step X catalog descriptors seen st (snd (rearm_standing_rule_fired_pending p st))"
| environment: "rule_step X catalog descriptors seen st (st\<lparr>st_briefcases := b, st_erased := e\<rparr>)"

definition empty_store :: rule_store where
  "empty_store = \<lparr>st_rules = [], st_usage = [], st_pending = [], st_links = [], st_timers = [],
     st_briefcases = Map.empty, st_erased = {}, st_audit = []\<rparr>"

text \<open>A store reached from the empty one, with every rule row that was ever in it.\<close>

inductive run ::
  "ext \<Rightarrow> action_catalog \<Rightarrow> action_descriptor list \<Rightarrow> rule_store \<Rightarrow> rule_row set \<Rightarrow> bool"
  for X catalog descriptors where
  start: "run X catalog descriptors empty_store {}"
| step: "run X catalog descriptors st seen \<Longrightarrow> rule_step X catalog descriptors seen st st' \<Longrightarrow>
    run X catalog descriptors st' (seen \<union> set (st_rules st'))"

section \<open>The five kinds of change\<close>

inductive change :: "ext \<Rightarrow> rule_row set \<Rightarrow> rule_store \<Rightarrow> rule_store \<Rightarrow> bool" for X seen where
  quiet: "tame st st' \<Longrightarrow> change X seen st st'"
| reserves: "tame st st1 \<Longrightarrow> terms_of r \<in> terms_of ` set (st_rules st1) \<Longrightarrow> has_headroom st1 r n \<Longrightarrow> 0 \<le> n \<Longrightarrow> n < 2 ^ 63 \<Longrightarrow>
    change X seen st (insert_usage (sr_rule_id r) (sr_version r) n c st1)"
| admits: "tame st st1 \<Longrightarrow> p \<in> set (st_pending st1) \<Longrightarrow> r \<in> set (st_rules st1) \<Longrightarrow>
    sr_rule_id r = pa_rule_id p \<Longrightarrow> sr_version r = pa_rule_version p \<Longrightarrow>
    tame (insert_usage (pa_rule_id p) (pa_rule_version p) n (pa_pending_id p) st1) st' \<Longrightarrow>
    change X seen st st'"
| opens: "r \<in> seen \<Longrightarrow> sr_dark_window r = Some dw \<Longrightarrow> pending_id \<notin> pending_ids st \<Longrightarrow>
    \<not> (\<exists>p\<in>set (st_pending st). pa_rule_id p = sr_rule_id r \<and> pa_rule_version p = sr_version r \<and>
        pa_request_fingerprint p = sc_fingerprint ctx) \<Longrightarrow>
    int (outstanding_dark_window_exceptions st (sr_rule_id r) (sr_version r))
      < uint (dw_max_pending_exceptions dw) \<Longrightarrow>
    tame (st\<lparr>st_pending := st_pending st @ [new_pending pending_id r dw ctx n]\<rparr>) st' \<Longrightarrow>
    change X seen st st'"
| installs: "tame st st1 \<Longrightarrow> manifest_validate X m = Inr () \<Longrightarrow>
    (\<And>r. r \<in> set (st_rules st1) \<Longrightarrow> sr_rule_id r = sm_id m \<Longrightarrow> sr_version r < sm_version m) \<Longrightarrow>
    change X seen st (upsert_rule (rule_of_manifest m n) st1)"

lemmas nanos_defs = with_nanos_def timestamp_to_epoch_nanos_def

lemma change_lookup: "change X seen st (snd (active_standing_rule_for_action a now st))"
  by (rule quiet)
    (simp add: active_standing_rule_for_action_def with_immediate_tx_def nanos_defs split: option.split)

lemma reserves_snd:
  assumes "r \<in> set (st_rules st)" "has_headroom st r n" "0 \<le> n" "n < 2 ^ 63"
  shows "change X seen st (insert_usage (sr_rule_id r) (sr_version r) n c st)"
  using assms by (intro reserves [OF tame_refl]) simp_all

lemma active_rules_subset: "set (active_rules st a) \<subseteq> set (st_rules st)"
  by (auto simp: active_rules_def)

lemma active_rules_in: "first_row (active_rules st a) = Some r \<Longrightarrow> r \<in> set (st_rules st)"
  using active_rules_subset [of st a] by (auto simp: first_row_def split: list.splits)

lemma change_reserve:
  assumes "0 \<le> now"
  shows "change X seen st (snd (reserve_standing_rule_budget i now c st))"
proof (cases "\<exists>r. find (\<lambda>r. sr_rule_id r = i \<and> sr_status r = Active_rule) (st_rules st) = Some r \<and>
    has_headroom st r now \<and> now < 2 ^ 63")
  case True
  then obtain r where r: "find (\<lambda>r. sr_rule_id r = i \<and> sr_status r = Active_rule) (st_rules st) = Some r"
    "has_headroom st r now" "now < 2 ^ 63" by blast
  have "r \<in> set (st_rules st)" "sr_rule_id r = i" using find_SomeD [OF r(1)] by simp_all
  moreover have "snd (reserve_standing_rule_budget i now c st) = insert_usage i (sr_version r) now c st"
    using assms r
    by (simp add: reserve_standing_rule_budget_def with_immediate_tx_def timestamp_to_epoch_nanos_def)
  ultimately show ?thesis using reserves_snd r assms by metis
next
  case False
  then have "snd (reserve_standing_rule_budget i now c st) = st"
    by (auto simp: reserve_standing_rule_budget_def with_immediate_tx_def timestamp_to_epoch_nanos_def
        split: option.split)
  then show ?thesis by (simp add: quiet)
qed

lemma change_consult:
  assumes "0 \<le> now"
  shows "change X seen st (snd (consult_and_reserve_standing_rule a now c st))"
proof (cases "first_row (active_rules st a)")
  case (Some r)
  have r: "r \<in> set (st_rules st)" by (rule active_rules_in [OF Some])
  show ?thesis
    using assms r reserves_snd [of r st now X seen c]
    by (auto simp: consult_and_reserve_standing_rule_def with_immediate_tx_def
        timestamp_to_epoch_nanos_def Some intro: quiet)
qed (auto simp: consult_and_reserve_standing_rule_def with_immediate_tx_def
    timestamp_to_epoch_nanos_def intro: quiet)

lemma change_finalize: "change X seen st (snd (finalize_reservation_inner i v c now refresh st))"
  by (rule quiet)
    (simp add: finalize_reservation_inner_def with_immediate_tx_def timestamp_to_epoch_nanos_def Let_def)

lemma change_note_use: "change X seen st (snd (note_standing_rule_use_with_lapse i now refresh st))"
  by (rule quiet) (simp add: note_standing_rule_use_with_lapse_def timestamp_to_epoch_nanos_def)

lemma change_cancel: "change X seen st (snd (cancel_standing_rule_reservation c st))"
  by (rule quiet) (simp add: cancel_standing_rule_reservation_def)

lemma select_scoped_tame: "tame s st \<Longrightarrow> tame s (snd (select_scoped X c n rs ms st))"
  by (induction X c n rs ms st rule: select_scoped.induct) simp_all

lemma tame_terms: "tame st st' \<Longrightarrow> terms_of ` set (st_rules st') = terms_of ` set (st_rules st)"
  by (metis list.set_map tame_def)

lemma tame_row:
  assumes "tame st st'" "r \<in> set (st_rules st)"
  obtains s where "s \<in> set (st_rules st')" "sr_rule_id s = sr_rule_id r" "sr_version s = sr_version r"
proof -
  have "terms_of r \<in> terms_of ` set (st_rules st')" using tame_terms [OF assms(1)] assms(2) by blast
  then obtain s where "s \<in> set (st_rules st')" "terms_of r = terms_of s" by blast
  then show thesis using that terms_ofD [of r s] by metis
qed

lemma tame_ids: "tame st st' \<Longrightarrow> map sr_rule_id (st_rules st') = map sr_rule_id (st_rules st)"
  unfolding tame_def by (metis (no_types, lifting) list.map_comp map_eq_conv comp_apply terms_of_sel(1))

lemma select_scoped_from:
  "set (fst (select_scoped X c n rs ms st)) \<subseteq> set rs \<union> set ms"
  by (induction X c n rs ms st rule: select_scoped.induct) auto

lemma change_consult_scoped:
  assumes "0 \<le> now"
  shows "change X seen st (snd (consult_and_reserve_scoped_rule Y cx now c st))"
proof -
  obtain ms st1 where sel: "select_scoped Y cx now (active_rules st (cx_action_id cx)) [] st = (ms, st1)"
    by fastforce
  have t: "tame st st1" using select_scoped_tame [OF tame_refl, of st Y cx] by (metis sel snd_conv)
  have "set ms \<subseteq> set (st_rules st)"
    using select_scoped_from [of Y cx now "active_rules st (cx_action_id cx)" "[]" st]
      active_rules_subset [of st "cx_action_id cx"]
    by (auto simp: sel)
  then have "terms_of ` set ms \<subseteq> terms_of ` set (st_rules st1)"
    using tame_terms [OF t] by blast
  then show ?thesis
    using assms t
    by (auto simp: consult_and_reserve_scoped_rule_def timestamp_to_epoch_nanos_def sel reserve_scoped_def
        Let_def intro: quiet reserves split: list.split)
qed

lemma change_revoke: "change X seen st (snd (revoke_standing_rule i now st))"
  by (rule quiet) (simp add: revoke_standing_rule_def timestamp_to_epoch_nanos_def Let_def)

lemma change_pause: "change X seen st (snd (pause_standing_rule i now st))"
  by (rule quiet) (simp add: pause_standing_rule_def timestamp_to_epoch_nanos_def Let_def)

lemma change_resume: "change X seen st (snd (resume_standing_rule i v st))"
  by (rule quiet) (simp add: resume_standing_rule_def Let_def)

lemma sweep_loop_tame: "tame s st \<Longrightarrow> tame s (snd (sweep_loop catalog n rs k st))"
  by (induction catalog n rs k st rule: sweep_loop.induct) simp_all

lemma change_sweep: "change X seen st (snd (sweep_ineligible_dark_window_allow_rules catalog now st))"
proof (rule quiet)
  show "tame st (snd (sweep_ineligible_dark_window_allow_rules catalog now st))"
    using sweep_loop_tame [OF tame_refl, of st catalog now "filter allow_default_rule (st_rules st)" 0]
    by (auto simp: sweep_ineligible_dark_window_allow_rules_def timestamp_to_epoch_nanos_def
        split: prod.split)
qed

lemma tame_pending_after:
  assumes "\<And>p. P p \<Longrightarrow> still_pending p (f p)" "tame s t"
  shows "tame s (update_pending P f t)"
  by (rule tame_trans [OF assms(2) tame_update_pending [OF assms(1)]])

lemmas pending_change = tame_pending_after still_pending_def timestamp_to_epoch_nanos_def Let_def

lemma change_claim: "change X seen st (snd (claim_standing_rule_dark_window t now st))"
  by (rule quiet)
    (simp add: claim_standing_rule_dark_window_def with_immediate_tx_def with_nanos_def pending_change
      split: option.split)

lemma change_resolve: "change X seen st (snd (resolve_pending_action p allow now st))"
  by (rule quiet) (simp add: resolve_pending_action_def pending_change)

lemma change_surface: "change X seen st (snd (surface_dark_window_claimed_for_owner p now st))"
  by (rule quiet) (simp add: surface_dark_window_claimed_for_owner_def pending_change)

lemma change_attempted: "change X seen st (snd (mark_fired_effect_attempted p receipt st))"
  by (rule quiet) (simp add: mark_fired_effect_attempted_def with_immediate_tx_def pending_change)

lemma change_terminate: "change X seen st (snd (terminate_fired_pending_refused p reason now st))"
  by (rule quiet) (simp add: terminate_fired_pending_refused_def pending_change)

lemma change_notified: "change X seen st (snd (mark_refused_pending_owner_notified p now st))"
  by (rule quiet) (simp add: mark_refused_pending_owner_notified_def pending_change)

lemma change_rearm: "change X seen st (snd (rearm_standing_rule_fired_pending p st))"
  by (rule quiet) (simp add: rearm_standing_rule_fired_pending_def pending_change)

lemma change_environment: "change X seen st (st\<lparr>st_briefcases := b, st_erased := e\<rparr>)"
  by (rule quiet) (simp add: tame_def list_all2_refl)

lemma tame_timer_rows [simp]: "tame s t \<Longrightarrow> tame s (t\<lparr>st_timers := a, st_links := b\<rparr>)"
  by (simp add: tame_def)

lemma ensure_timer_tame: "ensure_timer t k i r g f st = Inr (x, st') \<Longrightarrow> tame st st'"
  by (auto simp: ensure_timer_def nanos_defs split: if_splits)

lemma change_ensure_timer:
  assumes "ensure_timer t k i r g f st1 = y"
    and "\<And>st'. tame st1 st' \<Longrightarrow> change X seen st st'" "change X seen st st"
  shows "change X seen st (snd (case y of Inl e \<Rightarrow> (Inl e, st) | Inr (a, st') \<Rightarrow> (Inr a, st')))"
  using assms by (auto split: sum.split dest: ensure_timer_tame)

lemma change_schedule:
  assumes "r \<in> seen" "pending_id \<notin> pending_ids st"
  shows "change X seen st (snd (schedule_standing_rule_dark_window r c f now pending_id t st))"
proof (cases "sr_dark_window r")
  case None
  then show ?thesis by (simp add: schedule_standing_rule_dark_window_def quiet)
next
  case (Some dw)
  let ?same = "\<lambda>p. pa_rule_id p = sr_rule_id r \<and> pa_rule_version p = sr_version r \<and>
    pa_request_fingerprint p = sc_fingerprint c"
  let ?full = "uint (dw_max_pending_exceptions dw)
    \<le> int (outstanding_dark_window_exceptions st (sr_rule_id r) (sr_version r))"
  have q: "change X seen st st'" if "tame st st'" for st' using that by (rule quiet)
  show ?thesis
  proof (cases "find ?same (st_pending st)")
    case None
    then have new: "\<not> (\<exists>p\<in>set (st_pending st). ?same p)" by (auto simp: find_None_iff)
    show ?thesis
    proof (cases "?full \<or> \<not> (- (2 ^ 63) \<le> now \<and> now < 2 ^ 63)")
      case True
      then show ?thesis
        using None Some
        by (auto simp: schedule_standing_rule_dark_window_def with_immediate_tx_def nanos_defs Let_def
            simp del: tame_append_audit intro!: q tame_append_audit)
    next
      case False
      have "change X seen st st'"
        if "tame (st\<lparr>st_pending := st_pending st @ [new_pending pending_id r dw c now]\<rparr>) st'" for st'
        using False by (intro opens [OF assms(1) Some assms(2) new _ that]) simp
      from change_ensure_timer [OF refl this] show ?thesis
        using None Some False
        by (simp add: schedule_standing_rule_dark_window_def with_immediate_tx_def nanos_defs Let_def q)
    qed
  next
    case (Some p)
    show ?thesis
      using \<open>sr_dark_window r = Some dw\<close> Some change_ensure_timer [OF refl q]
      by (simp add: schedule_standing_rule_dark_window_def with_immediate_tx_def Let_def q)
  qed
qed

lemma change_consume:
  "change X seen st (snd (consume_fired_pending_for_context Y i a g s payload scope cd now st))"
proof -
  define ready where
    "ready = token_ready st i (standing_rule_fingerprint Y a g s payload) scope cd now"
  define hit :: "pending_row \<Rightarrow> bool" where "hit = (\<lambda>q. pa_pending_id q = i \<and> pa_token_consumed_at q = None \<and>
    pa_resolution q = Some Allowed_resolution \<and> pa_resolved_at q \<noteq> None)"
  define flip :: "pending_row \<Rightarrow> pending_row" where "flip = (\<lambda>q. q\<lparr>pa_token_consumed_at := Some now, pa_dispatch_state := Claimed\<rparr>)"
  define st1 where "st1 = update_pending hit flip st"
  have t: "tame st st1"
    unfolding st1_def by (rule tame_update_pending) (simp add: flip_def still_pending_def)
  have admitted: "change X seen st (record_audit k b w h (insert_usage (pa_rule_id p) (pa_rule_version p) now i st1))"
    if find: "find ready (st_pending st) = Some p" for p k b w h
  proof -
    have p: "p \<in> set (st_pending st)" "ready p" using find_SomeD [OF find] by simp_all
    then obtain r where r: "r \<in> set (st_rules st)" "sr_rule_id r = pa_rule_id p"
        "sr_version r = pa_rule_version p"
      by (auto simp: ready_def token_ready_def rule_live_for_def)
    define q where "q = (if hit p then flip p else p)"
    have q: "pa_rule_id q = pa_rule_id p" "pa_rule_version q = pa_rule_version p" "pa_pending_id q = i"
      using p(2) by (simp_all add: q_def flip_def ready_def token_ready_def)
    have "q \<in> set (st_pending st1)" "r \<in> set (st_rules st1)"
      using p(1) r(1) by (auto simp: st1_def update_pending_def q_def)
    from admits [OF t this, unfolded q] r show ?thesis by (metis tame_append_audit)
  qed
  have "snd (consume_fired_pending_for_context Y i a g s payload scope cd now st) =
     (if - (2 ^ 63) \<le> now \<and> now < 2 ^ 63 \<and> \<not> counterparty_erased st g
      then (case find ready (st_pending st) of None \<Rightarrow> st | Some p \<Rightarrow>
        if count_pending hit st \<noteq> 1 then st1
        else record_audit ''standing_rule.dark_window_admitted'' (Some a)
          (Some (''fired dark-window default admitted for '' @ pa_rule_id p)) (Some g)
          (insert_usage (pa_rule_id p) (pa_rule_version p) now i st1))
      else if counterparty_erased st g \<and> - (2 ^ 63) \<le> now \<and> now < 2 ^ 63
      then record_audit ''action.scope_context_unresolved'' (Some a)
        (Some ''counterparty was erased before fired-token claim; ordinary owner review required'')
        (Some g) st else st)"
    by (simp add: consume_fired_pending_for_context_def timestamp_to_epoch_nanos_def Let_def
        ready_def hit_def flip_def st1_def split: option.split)
  then show ?thesis using t admitted by (auto simp: quiet split: option.split)
qed

lemma find_rule_unique:
  assumes "distinct (map sr_rule_id (st_rules st))" "r \<in> set (st_rules st)"
  shows "find_rule st (sr_rule_id r) = Some r"
proof -
  obtain s where s: "find_rule st (sr_rule_id r) = Some s"
    using assms(2) by (cases "find_rule st (sr_rule_id r)") (auto simp: find_rule_def find_None_iff)
  then have "s \<in> set (st_rules st)" "sr_rule_id s = sr_rule_id r"
    unfolding find_rule_def by (auto dest: find_SomeD)
  then show ?thesis using s assms by (metis distinct_map inj_on_eq_iff)
qed

lemma change_activate:
  assumes dist: "distinct (map sr_rule_id (st_rules st))"
  shows "change X seen st (snd (activate_standing_rule X catalog descriptors m g now st))"
proof -
  define prepare where "prepare n st = update_rules (overlaps m)
      (\<lambda>r. r\<lparr>sr_status := Revoked, sr_revoked_at := Some n\<rparr>)
      (record_audit ''standing_rule.activated'' (Some (sm_action_id m))
        (Some ''standing rule became an active gate consultation input'') g st)" for n st
  have installed: "change X seen st (upsert_rule (rule_of_manifest m n) (prepare n st1))"
    if t: "tame st st1" and "manifest_validate X m = Inr ()"
      and old: "case find_rule st (sm_id m) of None \<Rightarrow> True | Some r \<Rightarrow> sr_version r < sm_version m" for n st1
  proof (rule installs)
    show t1: "tame st (prepare n st1)" using t by (simp add: prepare_def)
    show "sr_version r < sm_version m" if r: "r \<in> set (st_rules (prepare n st1))" "sr_rule_id r = sm_id m" for r
    proof -
      obtain s where s: "s \<in> set (st_rules st)" "terms_of s = terms_of r"
        using tame_terms [OF t1] r(1) by (metis image_iff)
      then have "sr_rule_id s = sm_id m" "sr_version s = sr_version r"
        using r(2) terms_ofD [OF s(2)] by simp_all
      with old find_rule_unique [OF dist s(1)] show ?thesis by simp
    qed
  qed (fact that(2))
  show ?thesis
  proof (cases "activation_rejection catalog descriptors m = None \<and> manifest_validate X m = Inr () \<and>
      - (2 ^ 63) \<le> now \<and> now < 2 ^ 63")
    case True
    then show ?thesis
      using installed [of st now] installed [of "stale_pending_exceptions (sm_id m) v now st" now for v]
      by (auto simp: activate_standing_rule_def reject_incomplete_scope_binding_def with_immediate_tx_def
          activate_standing_rule_in_tx_def nanos_defs Let_def prepare_def quiet split: option.splits)
  next
    case False
    then have "snd (activate_standing_rule X catalog descriptors m g now st) = st \<or>
      (\<exists>k a w h. snd (activate_standing_rule X catalog descriptors m g now st) = record_audit k a w h st)"
      by (auto simp: activate_standing_rule_def reject_incomplete_scope_binding_def with_immediate_tx_def
          activate_standing_rule_in_tx_def nanos_defs split: option.splits sum.splits)
    then show ?thesis by (auto simp: quiet)
  qed
qed

lemmas change_lemmas =
  change_activate change_lookup change_reserve change_finalize change_note_use change_cancel
  change_consult change_consult_scoped change_revoke change_pause change_resume change_sweep
  change_schedule change_claim change_resolve change_consume change_surface change_attempted
  change_terminate change_notified change_rearm change_environment

lemma rule_step_change:
  assumes "rule_step X catalog descriptors seen st st'" "distinct (map sr_rule_id (st_rules st))"
  shows "change X seen st st'"
  using assms by (cases rule: rule_step.cases) (auto simp only: intro: change_lemmas)

section \<open>Rules keep their terms\<close>

text \<open>
  Over the terms \<open>T\<close> of the stored rows and the terms \<open>S\<close> of all rows ever seen: rule ids are
  unique; what was seen is still there or was followed by a higher version; an id and a version
  determine the terms; and every reviewed exception limit is between one and the ceiling.
\<close>

definition row_terms :: "rule_store \<Rightarrow> rule_row list" where
  "row_terms st = map terms_of (st_rules st)"

definition limit_ok :: "rule_row \<Rightarrow> bool" where
  "limit_ok r \<longleftrightarrow> (case sr_dark_window r of None \<Rightarrow> True | Some dw \<Rightarrow>
     0 < dw_max_pending_exceptions dw \<and> dw_max_pending_exceptions dw \<le> max_pending_exceptions_ceiling)"

definition terms_inv :: "rule_row list \<Rightarrow> rule_row set \<Rightarrow> bool" where
  "terms_inv T S \<longleftrightarrow>
     distinct (map sr_rule_id T) \<and> set T \<subseteq> S \<and> (\<forall>s\<in>S. limit_ok s) \<and>
     (\<forall>s\<in>S. \<exists>t\<in>set T. sr_rule_id t = sr_rule_id s \<and> (sr_version s < sr_version t \<or> t = s)) \<and>
     (\<forall>r\<in>S. \<forall>s\<in>S. sr_rule_id r = sr_rule_id s \<and> sr_version r = sr_version s \<longrightarrow> r = s)"

definition rules_inv :: "rule_store \<Rightarrow> rule_row set \<Rightarrow> bool" where
  "rules_inv st seen \<longleftrightarrow> terms_inv (row_terms st) (terms_of ` seen)"

text \<open>What a change does to the rows, up to their terms.\<close>

lemma change_rows:
  assumes "change X seen st st'"
  obtains "row_terms st' = row_terms st"
  | m n where "manifest_validate X m = Inr ()" "sm_id m \<notin> sr_rule_id ` set (st_rules st)"
      "row_terms st' = row_terms st @ [terms_of (rule_of_manifest m n)]"
  | m n where "manifest_validate X m = Inr ()" "sm_id m \<in> sr_rule_id ` set (st_rules st)"
      "\<And>r. r \<in> set (st_rules st) \<Longrightarrow> sr_rule_id r = sm_id m \<Longrightarrow> sr_version r < sm_version m"
      "row_terms st' = map (\<lambda>t. if sr_rule_id t = sm_id m then terms_of (rule_of_manifest m n) else t)
         (row_terms st)"
  using assms
proof (cases rule: change.cases)
  case (installs st1 m n)
  have rows: "row_terms st1 = row_terms st" using installs(2) by (simp add: row_terms_def tame_def)
  have id: "sr_rule_id (rule_of_manifest m n) = sm_id m" "sr_version (rule_of_manifest m n) = sm_version m"
    by (simp_all add: rule_of_manifest_def)
  have old: "sr_version r < sm_version m" if "r \<in> set (st_rules st)" "sr_rule_id r = sm_id m" for r
    by (rule tame_row [OF installs(2) that(1)]) (use installs(4) that(2) in metis)
  show ?thesis
  proof (cases "find_rule st1 (sm_id m)")
    case None
    then have "sm_id m \<notin> sr_rule_id ` set (st_rules st1)" by (auto simp: find_rule_def find_None_iff)
    then have "sm_id m \<notin> sr_rule_id ` set (st_rules st)"
      using tame_ids [OF installs(2)] by (metis list.set_map)
    then show ?thesis
      using that(2) [of m n] None installs(1,3) id rows by (simp add: upsert_rule_def row_terms_def)
  next
    case (Some r0)
    have "row_terms st' = map (\<lambda>t. if sr_rule_id t = sm_id m then terms_of (rule_of_manifest m n) else t)
         (row_terms st1)"
      using Some installs(1,4) id by (auto simp: upsert_rule_def row_terms_def update_rules_def)
    moreover have "sm_id m \<in> sr_rule_id ` set (st_rules st)"
      using find_SomeD [OF Some [unfolded find_rule_def]] tame_ids [OF installs(2)]
      by (metis (no_types, lifting) image_eqI list.set_map)
    ultimately show ?thesis using that(3) [of m n] installs(3) old rows by simp
  qed
qed (simp_all add: row_terms_def tame_def insert_usage_def)

lemma limit_ok_manifest: "manifest_validate X m = Inr () \<Longrightarrow> limit_ok (terms_of (rule_of_manifest m n))"
  by (auto simp: manifest_validate_def limit_ok_def rule_of_manifest_def dark_window_error_def
      word_gt_0 not_less split: if_splits option.splits)

lemma terms_inv_version:
  assumes "terms_inv T S" "s \<in> S" "t \<in> set T" "sr_rule_id t = sr_rule_id s"
  shows "sr_version s \<le> sr_version t"
proof -
  obtain u where u: "u \<in> set T" "sr_rule_id u = sr_rule_id s" "sr_version s < sr_version u \<or> u = s"
    using assms(1,2) unfolding terms_inv_def by metis
  have "u = t" using assms u(1,2) unfolding terms_inv_def by (metis distinct_map inj_onD)
  then show ?thesis using u(3) by (auto intro: less_imp_le)
qed

lemma terms_invD:
  assumes "terms_inv T S"
  shows "distinct (map sr_rule_id T)" "set T \<subseteq> S" "s \<in> S \<Longrightarrow> limit_ok s"
    "s \<in> S \<Longrightarrow> \<exists>t\<in>set T. sr_rule_id t = sr_rule_id s \<and> (sr_version s < sr_version t \<or> t = s)"
    "r \<in> S \<Longrightarrow> s \<in> S \<Longrightarrow> sr_rule_id r = sr_rule_id s \<Longrightarrow> sr_version r = sr_version s \<Longrightarrow> r = s"
  using assms unfolding terms_inv_def by blast+

lemma terms_inv_extend:
  assumes inv: "terms_inv T S" and dist: "distinct (map sr_rule_id T')" and a: "limit_ok a"
    and sub: "a \<in> set T'" "set T' \<subseteq> insert a S"
    and kept: "\<And>t. t \<in> set T \<Longrightarrow> \<exists>u\<in>set T'. sr_rule_id u = sr_rule_id t \<and> (sr_version t < sr_version u \<or> u = t)"
    and new: "\<And>s. s \<in> S \<Longrightarrow> sr_rule_id s = sr_rule_id a \<Longrightarrow> sr_version s < sr_version a"
  shows "terms_inv T' (S \<union> set T')"
proof -
  have S': "S \<union> set T' = insert a S" using sub by blast
  have "\<exists>u\<in>set T'. sr_rule_id u = sr_rule_id s \<and> (sr_version s < sr_version u \<or> u = s)"
    if s: "s \<in> S" for s
  proof -
    obtain t where t: "t \<in> set T" "sr_rule_id t = sr_rule_id s" "sr_version s < sr_version t \<or> t = s"
      using terms_invD(4) [OF inv s] by blast
    obtain u where "u \<in> set T'" "sr_rule_id u = sr_rule_id t" "sr_version t < sr_version u \<or> u = t"
      using kept [OF t(1)] by blast
    then show ?thesis using t by (metis order.strict_trans)
  qed
  moreover have "r = s" if "r \<in> insert a S" "s \<in> insert a S" "sr_rule_id r = sr_rule_id s"
    "sr_version r = sr_version s" for r s
    using that new terms_invD(5) [OF inv] by (metis insertE order.strict_implies_not_eq)
  ultimately show ?thesis
    unfolding S' terms_inv_def using dist a sub terms_invD(3) [OF inv] by blast
qed

lemma terms_inv_append:
  assumes inv: "terms_inv T S" and a: "sr_rule_id a \<notin> sr_rule_id ` set T" "limit_ok a"
  shows "terms_inv (T @ [a]) (S \<union> set (T @ [a]))"
proof (rule terms_inv_extend [OF inv _ a(2)])
  show "sr_version s < sr_version a" if s: "s \<in> S" "sr_rule_id s = sr_rule_id a" for s
  proof -
    obtain t where "t \<in> set T" "sr_rule_id t = sr_rule_id s" using terms_invD(4) [OF inv s(1)] by blast
    then have False using a(1) s(2) by (metis imageI)
    then show ?thesis ..
  qed
qed (use terms_invD(1,2) [OF inv] a(1) in auto)

lemma terms_inv_replace:
  assumes inv: "terms_inv T S"
    and a: "\<And>t. t \<in> set T \<Longrightarrow> sr_rule_id t = sr_rule_id a \<Longrightarrow> sr_version t < sr_version a" "limit_ok a"
    and some: "sr_rule_id a \<in> sr_rule_id ` set T"
  shows "terms_inv (map (\<lambda>t. if sr_rule_id t = sr_rule_id a then a else t) T)
    (S \<union> set (map (\<lambda>t. if sr_rule_id t = sr_rule_id a then a else t) T))"
    (is "terms_inv ?T' (S \<union> set ?T')")
proof -
  have ids: "map sr_rule_id ?T' = map sr_rule_id T" by simp
  have new: "sr_version s < sr_version a" if s: "s \<in> S" "sr_rule_id s = sr_rule_id a" for s
  proof -
    obtain t where t: "t \<in> set T" "sr_rule_id t = sr_rule_id s"
      using terms_invD(4) [OF inv s(1)] by blast
    have "sr_version s \<le> sr_version t" by (rule terms_inv_version [OF inv s(1) t])
    also have "\<dots> < sr_version a" using a(1) t s(2) by simp
    finally show ?thesis .
  qed
  show ?thesis
  proof (rule terms_inv_extend [OF inv _ a(2)])
    show "distinct (map sr_rule_id ?T')" using ids terms_invD(1) [OF inv] by metis
    show "a \<in> set ?T'" using some by force
    show "set ?T' \<subseteq> insert a S" using terms_invD(2) [OF inv] by auto
    show "\<exists>u\<in>set ?T'. sr_rule_id u = sr_rule_id t \<and> (sr_version t < sr_version u \<or> u = t)"
      if "t \<in> set T" for t
    proof (cases "sr_rule_id t = sr_rule_id a")
      case True
      then show ?thesis using a(1) [OF that True] that by force
    next
      case False
      then show ?thesis using that by force
    qed
  qed (fact new)
qed

lemma rules_inv_change:
  assumes "change X seen st st'" "rules_inv st seen"
  shows "rules_inv st' (seen \<union> set (st_rules st'))"
proof -
  let ?S = "terms_of ` seen"
  have inv: "terms_inv (row_terms st) ?S" using assms(2) by (simp add: rules_inv_def)
  have S': "terms_of ` (seen \<union> set (st_rules st')) = ?S \<union> set (row_terms st')"
    by (auto simp: row_terms_def)
  have ids: "sr_rule_id ` set (row_terms st) = sr_rule_id ` set (st_rules st)"
    by (simp add: row_terms_def image_image)
  have man: "sr_rule_id (terms_of (rule_of_manifest m n)) = sm_id m"
    "sr_version (terms_of (rule_of_manifest m n)) = sm_version m" for m n
    by (simp_all add: rule_of_manifest_def)
  from assms(1) have "terms_inv (row_terms st') (?S \<union> set (row_terms st'))"
  proof (cases rule: change_rows)
    case 1
    then show ?thesis using inv terms_invD(2) [OF inv] by (simp add: Un_absorb2)
  next
    case (2 m n)
    show ?thesis
      unfolding 2(3) by (rule terms_inv_append [OF inv]) (use 2 ids man limit_ok_manifest in simp_all)
  next
    case (3 m n)
    have "sr_version t < sm_version m" if t: "t \<in> set (row_terms st)" "sr_rule_id t = sm_id m" for t
      using t 3(3) by (auto simp: row_terms_def)
    with terms_inv_replace [OF inv, of "terms_of (rule_of_manifest m n)"] show ?thesis
      unfolding 3(4) using 3(1,2) ids man limit_ok_manifest by simp
  qed
  then show ?thesis by (simp add: rules_inv_def S')
qed

lemma rules_inv_distinct: "rules_inv st seen \<Longrightarrow> distinct (map sr_rule_id (st_rules st))"
  using terms_invD(1) by (fastforce simp: rules_inv_def row_terms_def comp_def)

lemma rules_inv_same_terms:
  assumes "rules_inv st seen" "r \<in> seen" "s \<in> seen" "sr_rule_id r = sr_rule_id s"
    "sr_version r = sr_version s"
  shows "terms_of r = terms_of s"
  using terms_invD(5) [of "row_terms st" "terms_of ` seen" "terms_of r" "terms_of s"] assms
  by (simp add: rules_inv_def)

lemma run_rules_inv: "run X catalog descriptors st seen \<Longrightarrow> rules_inv st seen"
proof (induction rule: run.induct)
  case start
  show ?case by (simp add: rules_inv_def terms_inv_def row_terms_def empty_store_def)
next
  case (step st seen st')
  then show ?case by (metis rule_step_change rules_inv_change rules_inv_distinct)
qed

lemma run_change:
  assumes "run X catalog descriptors st seen" "rule_step X catalog descriptors seen st st'"
  shows "change X seen st st'"
  using assms run_rules_inv rules_inv_distinct rule_step_change by metis

section \<open>Exceptions stay within their reviewed limit\<close>

definition request_key :: "pending_row \<Rightarrow> string \<times> u32 \<times> string" where
  "request_key p = (pa_rule_id p, pa_rule_version p, pa_request_fingerprint p)"

definition within_cap :: "rule_store \<Rightarrow> rule_row \<Rightarrow> bool" where
  "within_cap st s \<longleftrightarrow> (\<forall>dw. sr_dark_window s = Some dw \<longrightarrow>
     int (outstanding_dark_window_exceptions st (sr_rule_id s) (sr_version s))
       \<le> uint (dw_max_pending_exceptions dw))"

definition pending_inv :: "rule_store \<Rightarrow> rule_row set \<Rightarrow> bool" where
  "pending_inv st seen \<longleftrightarrow>
     distinct (map pa_pending_id (st_pending st)) \<and> distinct (map request_key (st_pending st)) \<and>
     (\<forall>p\<in>set (st_pending st). \<exists>s\<in>seen. sr_rule_id s = pa_rule_id p \<and> sr_version s = pa_rule_version p) \<and>
     (\<forall>s\<in>seen. within_cap st s)"

lemma still_pending_maps:
  assumes "list_all2 still_pending ps qs"
  shows "map pa_pending_id qs = map pa_pending_id ps" "map request_key qs = map request_key ps"
    "length (filter (outstanding i v) qs) \<le> length (filter (outstanding i v) ps)"
  using assms
  by (induction rule: list_all2_induct) (auto simp: still_pending_def request_key_def outstanding_def)

lemma pending_inv_later:
  assumes "pending_inv st seen" "list_all2 still_pending (st_pending st) (st_pending st')"
  shows "pending_inv st' seen"
proof -
  note maps = still_pending_maps [OF assms(2)]
  have "\<exists>p\<in>set (st_pending st). request_key p = request_key q" if "q \<in> set (st_pending st')" for q
    using maps(2) that by (metis (no_types, lifting) image_iff list.set_map)
  then have "\<exists>s\<in>seen. sr_rule_id s = pa_rule_id q \<and> sr_version s = pa_rule_version q"
    if "q \<in> set (st_pending st')" for q
    using assms(1) that unfolding pending_inv_def by (fastforce simp: request_key_def)
  moreover have "within_cap st' s" if "s \<in> seen" for s
    using assms(1) that maps(3) [of "sr_rule_id s" "sr_version s"]
    by (fastforce simp: pending_inv_def within_cap_def outstanding_dark_window_exceptions_def
        count_pending_def)
  ultimately show ?thesis using assms(1) maps by (simp add: pending_inv_def)
qed

lemma pending_inv_open:
  assumes inv: "pending_inv st seen" and rules: "rules_inv st seen"
    and r: "r \<in> seen" "sr_dark_window r = Some dw" and i: "i \<notin> pending_ids st"
    and new: "\<not> (\<exists>p\<in>set (st_pending st). pa_rule_id p = sr_rule_id r \<and>
        pa_rule_version p = sr_version r \<and> pa_request_fingerprint p = sc_fingerprint c)"
    and room: "int (outstanding_dark_window_exceptions st (sr_rule_id r) (sr_version r))
        < uint (dw_max_pending_exceptions dw)"
  shows "pending_inv (st\<lparr>st_pending := st_pending st @ [new_pending i r dw c n]\<rparr>) seen"
    (is "pending_inv ?st seen")
proof -
  have "within_cap ?st s" if s: "s \<in> seen" for s
  proof (cases "sr_rule_id s = sr_rule_id r \<and> sr_version s = sr_version r")
    case True
    then have "sr_dark_window s = Some dw"
      using rules_inv_same_terms [OF rules s r(1)] terms_ofD(5) r(2) by metis
    then show ?thesis
      using room True
      by (simp add: within_cap_def outstanding_dark_window_exceptions_def count_pending_def
          outstanding_def new_pending_def)
  next
    case False
    then show ?thesis
      using inv s
      by (auto simp: pending_inv_def within_cap_def outstanding_dark_window_exceptions_def
          count_pending_def outstanding_def new_pending_def)
  qed
  moreover have "request_key (new_pending i r dw c n) \<notin> request_key ` set (st_pending st)"
    using new by (auto simp: request_key_def new_pending_def)
  moreover have "pa_pending_id (new_pending i r dw c n) \<notin> pa_pending_id ` set (st_pending st)"
    using i by (simp add: pending_ids_def new_pending_def)
  ultimately show ?thesis
    using inv r(1) by (auto simp: pending_inv_def new_pending_def)
qed

lemma pending_inv_seen:
  assumes inv: "pending_inv st seen" and rules: "rules_inv st' (seen \<union> new)"
  shows "pending_inv st (seen \<union> new)"
proof -
  have "within_cap st s" if s: "s \<in> seen \<union> new" for s
  proof (cases "\<exists>p\<in>set (st_pending st). outstanding (sr_rule_id s) (sr_version s) p")
    case True
    then obtain s0 where s0: "s0 \<in> seen" "sr_rule_id s0 = sr_rule_id s" "sr_version s0 = sr_version s"
      using inv by (auto simp: pending_inv_def outstanding_def)
    then have "sr_dark_window s0 = sr_dark_window s"
      using rules_inv_same_terms [OF rules _ s] terms_ofD(5) by (metis UnI1)
    moreover have "within_cap st s0" using inv s0(1) by (simp add: pending_inv_def)
    ultimately show ?thesis using s0(2,3) by (metis within_cap_def)
  next
    case False
    then have "filter (outstanding (sr_rule_id s) (sr_version s)) (st_pending st) = []"
      by (auto simp: filter_empty_conv)
    then show ?thesis
      by (simp add: within_cap_def outstanding_dark_window_exceptions_def count_pending_def)
  qed
  then show ?thesis using inv by (auto simp: pending_inv_def)
qed

lemma change_pending:
  assumes "change X seen st st'"
  obtains (later) "list_all2 still_pending (st_pending st) (st_pending st')"
  | (opened) r dw i c n where
      "r \<in> seen" "sr_dark_window r = Some dw" "i \<notin> pending_ids st"
      "\<not> (\<exists>p\<in>set (st_pending st). pa_rule_id p = sr_rule_id r \<and> pa_rule_version p = sr_version r \<and>
          pa_request_fingerprint p = sc_fingerprint c)"
      "int (outstanding_dark_window_exceptions st (sr_rule_id r) (sr_version r))
        < uint (dw_max_pending_exceptions dw)"
      "list_all2 still_pending (st_pending st @ [new_pending i r dw c n]) (st_pending st')"
  using assms
proof (cases rule: change.cases)
  case (opens r dw i c n)
  show ?thesis by (rule opened [OF opens(1-5), of n]) (use opens(6) in \<open>simp add: tame_def\<close>)
next
  case (admits st1 p r n)
  then have "tame st (st'\<lparr>st_usage := st_usage st1\<rparr>)"
    using tame_trans [of st st1 "st'\<lparr>st_usage := st_usage st1\<rparr>"] by (simp add: tame_def insert_usage_def)
  then show ?thesis by (intro later) (simp add: tame_def)
next
  case (installs st1 m n)
  then show ?thesis
    by (intro later) (auto simp: tame_def upsert_rule_def update_rules_def split: option.split)
qed (auto intro: later simp: tame_def insert_usage_def)

lemma run_pending_inv: "run X catalog descriptors st seen \<Longrightarrow> pending_inv st seen"
proof (induction rule: run.induct)
  case start
  show ?case by (simp add: pending_inv_def empty_store_def)
next
  case (step st seen st')
  note rules = run_rules_inv [OF step.hyps(1)]
  have "pending_inv st' seen"
    using run_change [OF step.hyps]
  proof (cases rule: change_pending)
    case later
    then show ?thesis by (rule pending_inv_later [OF step.IH])
  next
    case (opened r dw i c n)
    show ?thesis
      by (rule pending_inv_later [OF pending_inv_open [OF step.IH rules opened(1-5)]])
        (use opened(6) in simp)
  qed
  then show ?case
    by (rule pending_inv_seen) (rule run_rules_inv [OF run.step [OF step.hyps]])
qed

end
