(* ===== verification/Rule_Budget.thy ===== *)
theory Rule_Budget
  imports Rule_Invariant
begin

text \<open>
  Budgets of standing rules. A sliding-window limiter is a locale: whatever adds a use must find
  fewer than the maximum of uses since one window before it. The standing-rule store interprets
  it, so every run keeps every rule version within its quota and its rate.
\<close>

section \<open>Sliding windows\<close>

lemma filter_mset_weaken:
  assumes "\<And>x. P x \<Longrightarrow> Q x"
  shows "filter_mset P M \<subseteq># filter_mset Q M"
  using assms by (induction M) (auto simp: subset_add_mset)

text \<open>No interval of width \<open>w\<close> holds more than \<open>m\<close> of the instants in \<open>M\<close>.\<close>

definition window_bounded :: "nat \<Rightarrow> int \<Rightarrow> int multiset \<Rightarrow> bool" where
  "window_bounded m w M \<longleftrightarrow> (\<forall>a. size {#t \<in># M. a \<le> t \<and> t \<le> a + w#} \<le> m)"

lemma window_bounded_subset:
  assumes "window_bounded m w M" "N \<subseteq># M"
  shows "window_bounded m w N"
  unfolding window_bounded_def
proof
  fix a
  have "size {#t \<in># N. a \<le> t \<and> t \<le> a + w#} \<le> size {#t \<in># M. a \<le> t \<and> t \<le> a + w#}"
    by (intro size_mset_mono multiset_filter_mono assms(2))
  then show "size {#t \<in># N. a \<le> t \<and> t \<le> a + w#} \<le> m" using assms(1) by (metis order_trans window_bounded_def)
qed

lemma window_bounded_add:
  assumes "window_bounded m w M" "size {#x \<in># M. t - w \<le> x#} < m"
  shows "window_bounded m w (add_mset t M)"
  unfolding window_bounded_def
proof
  fix a
  show "size {#x \<in># add_mset t M. a \<le> x \<and> x \<le> a + w#} \<le> m"
  proof (cases "a \<le> t \<and> t \<le> a + w")
    case True
    then have "\<And>x. a \<le> x \<and> x \<le> a + w \<Longrightarrow> t - w \<le> x" by linarith
    then have "{#x \<in># M. a \<le> x \<and> x \<le> a + w#} \<subseteq># {#x \<in># M. t - w \<le> x#}"
      by (auto intro: filter_mset_weaken)
    then show ?thesis using True assms(2) size_mset_mono by fastforce
  next
    case False
    then show ?thesis using assms(1) by (auto simp: window_bounded_def)
  qed
qed

locale sliding_window =
  fixes step :: "'s \<Rightarrow> 's \<Rightarrow> bool"
    and uses :: "'s \<Rightarrow> 'k \<Rightarrow> int multiset"
    and bound :: "'s \<Rightarrow> 'k \<Rightarrow> (nat \<times> int) option"
  assumes admission: "step s s' \<Longrightarrow> bound s' k = Some (m, w) \<Longrightarrow>
      uses s' k = {#} \<or>
      bound s k = Some (m, w) \<and>
        (\<exists>U t. U \<subseteq># uses s k \<and>
           (uses s' k \<subseteq># U \<or>
            uses s' k \<subseteq># add_mset t U \<and> size {#x \<in># U. t - w \<le> x#} < m))"
begin

definition bounded :: "'s \<Rightarrow> bool" where
  "bounded s \<longleftrightarrow> (\<forall>k m w. bound s k = Some (m, w) \<longrightarrow> window_bounded m w (uses s k))"

lemma bounded_step:
  assumes "step s s'" "bounded s"
  shows "bounded s'"
  unfolding bounded_def
proof (intro allI impI)
  fix k m w
  assume b: "bound s' k = Some (m, w)"
  show "window_bounded m w (uses s' k)"
  proof (cases "uses s' k = {#}")
    case False
    then obtain U t where b': "bound s k = Some (m, w)" and U: "U \<subseteq># uses s k"
      and u: "uses s' k \<subseteq># U \<or> uses s' k \<subseteq># add_mset t U \<and> size {#x \<in># U. t - w \<le> x#} < m"
      using admission [OF assms(1) b] by blast
    have "window_bounded m w (uses s k)" using assms(2) b' unfolding bounded_def by blast
    then have "window_bounded m w U" using U by (rule window_bounded_subset)
    then show ?thesis using u window_bounded_add window_bounded_subset by metis
  qed (simp add: window_bounded_def)
qed

lemma bounded_reachable: "step\<^sup>*\<^sup>* s s' \<Longrightarrow> bounded s \<Longrightarrow> bounded s'"
  by (induction rule: rtranclp_induct) (auto intro: bounded_step)

end

section \<open>Uses of a rule version\<close>

text \<open>
  The uses that count against a rule version are its reserved and committed rows that no pending
  exception admitted.
\<close>

type_synonym budget_key = "string \<times> u32 \<times> usage_kind"

fun charge_time :: "charge \<Rightarrow> int" where
  "charge_time (i, v, k, t, c) = t"

fun charged_to :: "string set \<Rightarrow> budget_key \<Rightarrow> charge \<Rightarrow> bool" where
  "charged_to exceptions key (i, v, k, t, c) \<longleftrightarrow> key = (i, v, k) \<and> c \<notin> exceptions"

definition regular_uses :: "rule_store \<Rightarrow> budget_key \<Rightarrow> int multiset" where
  "regular_uses st key =
     image_mset charge_time (filter_mset (charged_to (pending_ids st) key) (charges st))"

fun window_of :: "usage_kind \<Rightarrow> rule_row \<Rightarrow> budget_window" where
  "window_of Quota r = sr_quota r"
| "window_of Rate r = sr_rate r"

definition width_nanos :: "budget_window \<Rightarrow> int" where
  "width_nanos w = bw_window_secs w * nanos_per_sec"

definition representable :: "budget_window \<Rightarrow> bool" where
  "representable w \<longleftrightarrow> 0 < width_nanos w \<and> width_nanos w < 2 ^ 63"

text \<open>The width the code subtracts: the reviewed one, wrapped to 64 bits.\<close>

definition effective_nanos :: "budget_window \<Rightarrow> int" where
  "effective_nanos w = i64_wrap (width_nanos w)"

lemma effective_nanos_exact: "representable w \<Longrightarrow> effective_nanos w = width_nanos w"
  unfolding effective_nanos_def by (intro i64_wrap_id) (auto simp: representable_def)

fun version_bound :: "rule_row list \<Rightarrow> budget_key \<Rightarrow> (nat \<times> int) option" where
  "version_bound rows (i, v, k) =
     (case find (\<lambda>r. sr_rule_id r = i) rows of
        None \<Rightarrow> None
      | Some r \<Rightarrow>
          if sr_version r = v \<and> 0 \<le> effective_nanos (window_of k r)
          then Some (unat (bw_max (window_of k r)), effective_nanos (window_of k r)) else None)"

lemma regular_uses_mono:
  assumes "charges st' \<subseteq># charges st" "pending_ids st \<subseteq> pending_ids st'"
  shows "regular_uses st' key \<subseteq># regular_uses st key"
proof -
  have "filter_mset (charged_to (pending_ids st') key) (charges st')
      \<subseteq># filter_mset (charged_to (pending_ids st) key) (charges st')"
  proof (rule filter_mset_weaken)
    fix c
    assume "charged_to (pending_ids st') key c"
    then show "charged_to (pending_ids st) key c" using assms(2) by (cases c) auto
  qed
  also have "\<dots> \<subseteq># filter_mset (charged_to (pending_ids st) key) (charges st)"
    by (rule multiset_filter_mono [OF assms(1)])
  finally show ?thesis unfolding regular_uses_def by (rule image_mset_subseteq_mono)
qed

lemma tame_pending_ids: "tame st st' \<Longrightarrow> pending_ids st' = pending_ids st"
  unfolding tame_def pending_ids_def using still_pending_maps(1) by (metis list.set_map)

lemma tame_uses: "tame st st' \<Longrightarrow> regular_uses st' key \<subseteq># regular_uses st key"
  using tame_pending_ids by (intro regular_uses_mono) (auto simp: tame_def)

lemma used_counts_regular:
  "size {#x \<in># regular_uses st (i, v, k). since \<le> x#} \<le> nat (used st i k since)"
proof -
  have "size {#x \<in># image_mset charge_time (filter_mset (charged_to E (i, v, k)) (live_charges us)). since \<le> x#}
      \<le> length (filter (counts_against i k since) us)" for E us
    by (induction us) (auto simp: counts_against_def charge_of_def)
  then show ?thesis by (simp add: regular_uses_def used_def)
qed

lemma window_start_effective:
  assumes "0 \<le> effective_nanos w" "0 \<le> n" "n < 2 ^ 63"
  shows "window_start n w = n - effective_nanos w"
proof -
  have "effective_nanos w < 2 ^ 63" unfolding effective_nanos_def i64_wrap_def by simp
  then have "i64_wrap (n - effective_nanos w) = n - effective_nanos w"
    using assms by (intro i64_wrap_id) auto
  then show ?thesis by (simp add: window_start_def effective_nanos_def width_nanos_def)
qed

lemma window_start_exact:
  assumes "representable w" "0 \<le> n" "n < 2 ^ 63"
  shows "window_start n w = n - width_nanos w"
  using window_start_effective [OF _ assms(2,3)] effective_nanos_exact [OF assms(1)] assms(1)
  by (simp add: representable_def)

section \<open>The store as a sliding-window limiter\<close>

definition usage_inv :: "rule_store \<Rightarrow> rule_row set \<Rightarrow> bool" where
  "usage_inv st seen \<longleftrightarrow>
     (\<forall>c\<in>#charges st. \<exists>s\<in>seen. sr_rule_id s = fst c \<and> sr_version s = fst (snd c))"

lemma insert_usage_charges [simp]:
  "charges (insert_usage i v n c st) =
     add_mset (i, v, Rate, n, c) (add_mset (i, v, Quota, n, c) (charges st))"
  "pending_ids (insert_usage i v n c st) = pending_ids st"
  "row_terms (insert_usage i v n c st) = row_terms st"
  by (simp_all add: insert_usage_def charge_of_def pending_ids_def row_terms_def)

lemma insert_usage_uses:
  "regular_uses (insert_usage i v n c st) key =
     (if c \<notin> pending_ids st \<and> (key = (i, v, Rate) \<or> key = (i, v, Quota))
      then add_mset n (regular_uses st key) else regular_uses st key)"
  by (auto simp: regular_uses_def)

lemma rules_inv_row:
  assumes "rules_inv st seen" "terms_of r \<in> terms_of ` set (st_rules st)"
  obtains s where "s \<in> seen" "sr_rule_id s = sr_rule_id r" "sr_version s = sr_version r"
proof -
  have "terms_of r \<in> terms_of ` seen"
    using assms terms_invD(2) [of "row_terms st" "terms_of ` seen"]
    by (auto simp: rules_inv_def row_terms_def)
  then obtain s where s: "s \<in> seen" "terms_of r = terms_of s" by blast
  show thesis by (rule that [OF s(1)]) (use terms_ofD [OF s(2)] in simp_all)
qed

lemma usage_inv_change:
  assumes "change X seen st st'" "usage_inv st seen" "rules_inv st seen"
  shows "usage_inv st' seen"
proof -
  have sub: "usage_inv t' seen" if "usage_inv t seen" "charges t' \<subseteq># charges t" for t t'
    using that(1) mset_subset_eqD [OF that(2)] unfolding usage_inv_def by blast
  have tame: "usage_inv t' seen" if "usage_inv t seen" "tame t t'" for t t'
    using sub [OF that(1)] that(2) by (simp add: tame_def)
  have ins: "usage_inv (insert_usage (sr_rule_id r) (sr_version r) n c t) seen"
    if u: "usage_inv t seen" and t: "tame st t" and r: "terms_of r \<in> terms_of ` set (st_rules t)" for t n c r
  proof -
    obtain s where "s \<in> seen" "sr_rule_id s = sr_rule_id r" "sr_version s = sr_version r"
      using rules_inv_row [OF assms(3) r [unfolded tame_terms [OF t]]] .
    then show ?thesis using u by (auto simp: usage_inv_def)
  qed
  from assms(1) show ?thesis
  proof (cases rule: change.cases)
    case quiet
    then show ?thesis using tame assms(2) by blast
  next
    case (reserves st1 r n c)
    then show ?thesis using ins tame [OF assms(2)] by blast
  next
    case (admits st1 p r n)
    have "usage_inv (insert_usage (sr_rule_id r) (sr_version r) n (pa_pending_id p) st1) seen"
      using ins [OF tame [OF assms(2) admits(1)] admits(1)] admits(3) by blast
    then show ?thesis using tame admits(4-6) by metis
  next
    case (opens r dw i c n)
    then show ?thesis by (intro sub [OF assms(2)]) (auto simp: tame_def)
  next
    case (installs st1 m n)
    then show ?thesis
      by (intro sub [OF assms(2)]) (auto simp: tame_def upsert_rule_def update_rules_def split: option.split)
  qed
qed

lemma run_usage_inv: "run X catalog descriptors st seen \<Longrightarrow> usage_inv st seen"
proof (induction rule: run.induct)
  case (step st seen st')
  have "usage_inv st' seen"
    by (rule usage_inv_change [OF run_change [OF step.hyps] step.IH run_rules_inv [OF step.hyps(1)]])
  then show ?case by (force simp: usage_inv_def)
qed (simp add: usage_inv_def empty_store_def)

lemma find_distinct:
  "distinct (map f xs) \<Longrightarrow> x \<in> set xs \<Longrightarrow> find (\<lambda>y. f y = f x) xs = Some x"
  by (induction xs) (auto split: if_splits)

text \<open>A reservation under a rule's own headroom obeys the limiter's law.\<close>

lemma reservation_admitted:
  assumes room: "has_headroom st r n" and n: "0 \<le> n" "n < 2 ^ 63"
    and b: "version_bound (row_terms st) key = Some (m, w)"
    and r: "distinct (map sr_rule_id (row_terms st))" "terms_of r \<in> set (row_terms st)"
    and key: "key = (sr_rule_id r, sr_version r, k)"
  shows "size {#x \<in># regular_uses st key. n - w \<le> x#} < m"
proof -
  have f: "find (\<lambda>y. sr_rule_id y = sr_rule_id r) (row_terms st) = Some (terms_of r)"
    using find_distinct [OF r] by simp
  have win: "window_of k (terms_of r) = window_of k r" by (cases k) simp_all
  have rep: "0 \<le> effective_nanos (window_of k r)" and mw: "m = unat (bw_max (window_of k r))"
      "w = effective_nanos (window_of k r)"
    using b by (auto simp: key f win split: if_splits)
  have "size {#x \<in># regular_uses st key. n - w \<le> x#} \<le> nat (used st (sr_rule_id r) k (n - w))"
    unfolding key by (rule used_counts_regular)
  moreover have "used st (sr_rule_id r) k (n - w) < uint (bw_max (window_of k r))"
    using room window_start_effective [OF rep n] mw(2) by (cases k) (simp_all add: has_headroom_def)
  ultimately show ?thesis unfolding mw(1) unat_eq_nat_uint used_def by linarith
qed

text \<open>A version that was never installed has no uses, and installing it changes no other bound.\<close>

lemma installed_uses:
  assumes rules: "rules_inv st seen" and usage: "usage_inv st seen"
    and new: "\<And>r. r \<in> set (st_rules st) \<Longrightarrow> sr_rule_id r = sm_id m \<Longrightarrow> sr_version r < sm_version m"
    and key: "fst key = sm_id m" "fst (snd key) = sm_version m"
  shows "regular_uses st key = {#}"
proof -
  have "\<not> charged_to (pending_ids st) key c" if c: "c \<in># charges st" for c
  proof
    assume ch: "charged_to (pending_ids st) key c"
    obtain s where s: "s \<in> seen" "sr_rule_id s = fst c" "sr_version s = fst (snd c)"
      using usage c unfolding usage_inv_def by blast
    have inv: "terms_inv (row_terms st) (terms_of ` seen)" using rules by (simp add: rules_inv_def)
    obtain t where t: "t \<in> set (row_terms st)" "sr_rule_id t = sr_rule_id s"
      using terms_invD(4) [OF inv, of "terms_of s"] s(1) by auto
    have "sr_version s \<le> sr_version t"
      using terms_inv_version [OF inv _ t(1), of "terms_of s"] s(1) t(2) by simp
    moreover obtain r where "r \<in> set (st_rules st)" "t = terms_of r"
      using t(1) by (auto simp: row_terms_def)
    ultimately show False using new [of r] t(2) s ch key by (cases c) auto
  qed
  then show ?thesis by (simp add: regular_uses_def filter_mset_eq_conv)
qed

lemma find_replaced:
  assumes "sr_rule_id a \<noteq> i"
  shows "find (\<lambda>r. sr_rule_id r = i) (T @ [a]) = find (\<lambda>r. sr_rule_id r = i) T"
    "find (\<lambda>r. sr_rule_id r = i) (map (\<lambda>t. if sr_rule_id t = sr_rule_id a then a else t) T)
      = find (\<lambda>r. sr_rule_id r = i) T"
  using assms by (induction T) auto

lemma find_installed:
  "sr_rule_id a \<notin> sr_rule_id ` set T \<Longrightarrow> find (\<lambda>r. sr_rule_id r = sr_rule_id a) (T @ [a]) = Some a"
  "sr_rule_id a \<in> sr_rule_id ` set T \<Longrightarrow> find (\<lambda>r. sr_rule_id r = sr_rule_id a)
     (map (\<lambda>t. if sr_rule_id t = sr_rule_id a then a else t) T) = Some a"
  by (induction T) auto

lemma installed_bound:
  assumes "T' = T @ [a] \<and> sr_rule_id a \<notin> sr_rule_id ` set T \<or>
      T' = map (\<lambda>t. if sr_rule_id t = sr_rule_id a then a else t) T \<and> sr_rule_id a \<in> sr_rule_id ` set T"
    and "version_bound T' key = Some (m, w)"
  shows "fst key = sr_rule_id a \<and> fst (snd key) = sr_version a \<or> version_bound T key = Some (m, w)"
proof -
  obtain i v k where key: "key = (i, v, k)" by (cases key)
  show ?thesis
  proof (cases "i = sr_rule_id a")
    case True
    then have "find (\<lambda>r. sr_rule_id r = i) T' = Some a"
      using assms(1) by (elim disjE conjE) (simp_all only: True find_installed simp_thms)
    then show ?thesis using assms(2) by (auto simp: key True split: if_splits)
  next
    case False
    then have "sr_rule_id a \<noteq> i" by simp
    then have "find (\<lambda>r. sr_rule_id r = i) T' = find (\<lambda>r. sr_rule_id r = i) T"
      using assms(1) by (elim disjE conjE) (simp_all only: find_replaced simp_thms)
    then show ?thesis using assms(2) by (simp add: key)
  qed
qed

lemma tame_row_terms: "tame st st' \<Longrightarrow> row_terms st' = row_terms st"
  by (simp add: tame_def row_terms_def)

lemma budget_admission:
  assumes ch: "change X seen st st'" and rules: "rules_inv st seen" and usage: "usage_inv st seen"
    and b: "version_bound (row_terms st') key = Some (m, w)"
  shows "regular_uses st' key = {#} \<or>
    version_bound (row_terms st) key = Some (m, w) \<and>
      (\<exists>U t. U \<subseteq># regular_uses st key \<and>
         (regular_uses st' key \<subseteq># U \<or>
          regular_uses st' key \<subseteq># add_mset t U \<and> size {#x \<in># U. t - w \<le> x#} < m))"
    (is "_ \<or> ?old \<and> ?law")
  using ch
proof (cases rule: change.cases)
  case quiet
  then show ?thesis using b tame_uses tame_row_terms by (metis subset_mset.order_refl)
next
  case (reserves st1 r n c)
  have terms: "row_terms st1 = row_terms st" by (rule tame_row_terms [OF reserves(2)])
  have sub: "regular_uses st1 key \<subseteq># regular_uses st key" by (rule tame_uses [OF reserves(2)])
  have dist: "distinct (map sr_rule_id (row_terms st1))"
    using terms_invD(1) rules by (simp add: rules_inv_def terms)
  show ?thesis
  proof (cases "regular_uses st' key \<subseteq># regular_uses st1 key")
    case True
    then show ?thesis using b sub terms reserves(1) by auto
  next
    case False
    then obtain k where key: "key = (sr_rule_id r, sr_version r, k)"
      and uses: "regular_uses st' key = add_mset n (regular_uses st1 key)"
      unfolding reserves(1) by (auto simp: insert_usage_uses split: if_splits)
    have "size {#x \<in># regular_uses st1 key. n - w \<le> x#} < m"
      by (rule reservation_admitted [OF reserves(4-6) _ dist _ key])
        (use b reserves(1,3) in \<open>auto simp: row_terms_def insert_usage_def\<close>)
    then show ?thesis using uses sub b terms reserves(1) by auto
  qed
next
  case (admits st1 p r n)
  let ?i = "insert_usage (pa_rule_id p) (pa_rule_version p) n (pa_pending_id p) st1"
  have "pa_pending_id p \<in> pending_ids st1" using admits(2) by (simp add: pending_ids_def)
  then have "regular_uses ?i key = regular_uses st1 key" by (simp add: insert_usage_uses)
  then have "regular_uses st' key \<subseteq># regular_uses st key"
    using tame_uses [OF admits(6), of key] tame_uses [OF admits(1), of key] by auto
  moreover have "row_terms st' = row_terms st"
    using tame_row_terms [OF admits(6)] tame_row_terms [OF admits(1)] by simp
  ultimately show ?thesis using b by auto
next
  case (opens r dw i c n)
  have "regular_uses st' key \<subseteq># regular_uses st key"
    using tame_pending_ids [OF opens(6)] opens(6)
    by (intro regular_uses_mono) (auto simp: tame_def pending_ids_def)
  moreover have "row_terms st' = row_terms st" using tame_row_terms [OF opens(6)] by (simp add: row_terms_def)
  ultimately show ?thesis using b by auto
next
  case (installs st1 m' n)
  have uses: "regular_uses st' key \<subseteq># regular_uses st key"
    using installs(1,2) tame_pending_ids [OF installs(2)]
    by (intro regular_uses_mono)
      (auto simp: tame_def upsert_rule_def update_rules_def pending_ids_def split: option.split)
  have ids: "sr_rule_id ` set (row_terms st) = sr_rule_id ` set (st_rules st)"
    by (simp add: row_terms_def image_image)
  have by_install: ?thesis
    if "row_terms st' = row_terms st @ [terms_of (rule_of_manifest m'' n')] \<and>
          sm_id m'' \<notin> sr_rule_id ` set (row_terms st) \<or>
        row_terms st' = map (\<lambda>t. if sr_rule_id t = sm_id m'' then terms_of (rule_of_manifest m'' n') else t)
          (row_terms st) \<and> sm_id m'' \<in> sr_rule_id ` set (row_terms st)"
      and new: "\<And>r. r \<in> set (st_rules st) \<Longrightarrow> sr_rule_id r = sm_id m'' \<Longrightarrow> sr_version r < sm_version m''"
    for m'' n'
  proof -
    have man: "sr_rule_id (terms_of (rule_of_manifest m'' n')) = sm_id m''"
      "sr_version (terms_of (rule_of_manifest m'' n')) = sm_version m''"
      by (simp_all add: rule_of_manifest_def)
    from installed_bound [OF that(1) [folded man(1)] b]
    have "fst key = sm_id m'' \<and> fst (snd key) = sm_version m'' \<or> ?old" unfolding man .
    then show ?thesis using installed_uses [OF rules usage new, of key] uses by auto
  qed
  from ch show ?thesis
  proof (cases rule: change_rows)
    case 1
    then show ?thesis using b uses by auto
  next
    case (2 m' n)
    show ?thesis by (rule by_install) (use 2 ids in \<open>auto simp: image_iff\<close>)
  next
    case (3 m' n)
    show ?thesis by (rule by_install) (use 3 ids in auto)
  qed
qed

definition budget_step ::
  "ext \<Rightarrow> action_catalog \<Rightarrow> action_descriptor list \<Rightarrow> rule_store \<times> rule_row set \<Rightarrow>
   rule_store \<times> rule_row set \<Rightarrow> bool" where
  "budget_step X catalog descriptors s s' \<longleftrightarrow>
     run X catalog descriptors (fst s) (snd s) \<and>
     rule_step X catalog descriptors (snd s) (fst s) (fst s') \<and>
     snd s' = snd s \<union> set (st_rules (fst s'))"

interpretation budget: sliding_window "budget_step X catalog descriptors"
  "\<lambda>s. regular_uses (fst s)" "\<lambda>s. version_bound (row_terms (fst s))" for X catalog descriptors
proof unfold_locales
  fix s s' key m w
  assume "budget_step X catalog descriptors s s'"
    and b: "version_bound (row_terms (fst s')) key = Some (m, w)"
  then have run: "run X catalog descriptors (fst s) (snd s)"
    and step: "rule_step X catalog descriptors (snd s) (fst s) (fst s')"
    by (simp_all add: budget_step_def)
  show "regular_uses (fst s') key = {#} \<or>
     version_bound (row_terms (fst s)) key = Some (m, w) \<and>
       (\<exists>U t. U \<subseteq># regular_uses (fst s) key \<and>
          (regular_uses (fst s') key \<subseteq># U \<or>
           regular_uses (fst s') key \<subseteq># add_mset t U \<and> size {#x \<in># U. t - w \<le> x#} < m))"
    by (rule budget_admission [OF run_change [OF run step] run_rules_inv [OF run]
          run_usage_inv [OF run] b])
qed

lemma run_budget_steps:
  "run X catalog descriptors st seen \<Longrightarrow>
     (budget_step X catalog descriptors)\<^sup>*\<^sup>* (empty_store, {}) (st, seen)"
proof (induction rule: run.induct)
  case (step st seen st')
  then show ?case by (auto simp: budget_step_def intro: rtranclp.rtrancl_into_rtrancl)
qed simp

lemma version_bound_row:
  assumes "distinct (map sr_rule_id (st_rules st))" "r \<in> set (st_rules st)"
    and "0 \<le> effective_nanos (window_of k r)"
  shows "version_bound (row_terms st) (sr_rule_id r, sr_version r, k) =
    Some (unat (bw_max (window_of k r)), effective_nanos (window_of k r))"
proof -
  have d: "distinct (map sr_rule_id (row_terms st))" using assms(1) by (simp add: row_terms_def comp_def)
  have m: "terms_of r \<in> set (row_terms st)" using assms(2) by (simp add: row_terms_def)
  have "find (\<lambda>y. sr_rule_id y = sr_rule_id r) (row_terms st) = Some (terms_of r)"
    using find_distinct [OF d m] by simp
  moreover have "window_of k (terms_of r) = window_of k r" by (cases k) simp_all
  ultimately show ?thesis using assms(3) by simp
qed

text \<open>
  C7. In every store that any interleaving of transactions reaches, no rule version is
  overspent: for the quota and for the rate, no interval as wide as the window the code computes
  with holds more reserved and committed uses than the reviewed maximum, other than those a fired
  exception admitted. The clock may run backwards between transactions. The computed width is the
  reviewed one for every window below 2^63 nanoseconds, some 292 years; a wider one, which
  validation admits, is wrapped to 64 bits, and where that makes it negative nothing is claimed.
\<close>

theorem budget_never_overspent:
  assumes "run X catalog descriptors st seen" "r \<in> set (st_rules st)"
  shows "(0 \<le> effective_nanos (window_of k r) \<longrightarrow>
      size {#t \<in># regular_uses st (sr_rule_id r, sr_version r, k).
        a \<le> t \<and> t \<le> a + effective_nanos (window_of k r)#} \<le> unat (bw_max (window_of k r))) \<and>
    (0 < width_nanos (window_of k r) \<and> width_nanos (window_of k r) < 2 ^ 63 \<longrightarrow>
      effective_nanos (window_of k r) = width_nanos (window_of k r))"
proof (intro conjI impI)
  assume nonneg: "0 \<le> effective_nanos (window_of k r)"
  have "budget.bounded (empty_store, {})"
    unfolding budget.bounded_def by (simp add: row_terms_def empty_store_def)
  then have "budget.bounded (st, seen)" by (rule budget.bounded_reachable [OF run_budget_steps [OF assms(1)]])
  moreover have "version_bound (row_terms st) (sr_rule_id r, sr_version r, k) =
      Some (unat (bw_max (window_of k r)), effective_nanos (window_of k r))"
    using rules_inv_distinct [OF run_rules_inv [OF assms(1)]] assms(2) nonneg by (rule version_bound_row)
  ultimately show "size {#t \<in># regular_uses st (sr_rule_id r, sr_version r, k).
      a \<le> t \<and> t \<le> a + effective_nanos (window_of k r)#} \<le> unat (bw_max (window_of k r))"
    unfolding budget.bounded_def window_bounded_def by auto
qed (simp add: effective_nanos_exact representable_def)

text \<open>A rule with a quota of one use per window, activated and used once.\<close>

definition ex_rule_manifest :: "int \<Rightarrow> standing_rule_manifest" where
  "ex_rule_manifest secs =
     \<lparr>sm_id = ''rule'', sm_schema_version = 1, sm_version = 1, sm_lifecycle_state = Active,
      sm_action_id = ActionId ''mail.label'', sm_description = ''label mail'',
      sm_quota = \<lparr>bw_max = 1, bw_window_secs = secs\<rparr>,
      sm_rate = \<lparr>bw_max = 5, bw_window_secs = 60\<rparr>, sm_expires_after_secs = 604800,
      sm_dark_window = Some \<lparr>dw_timeout_secs = 1800, dw_default = Deny_default,
        dw_max_pending_exceptions = 2\<rparr>,
      sm_reviewed_scope = None\<rparr>"

definition ex_activated :: "int \<Rightarrow> rule_store" where
  "ex_activated secs =
     snd (activate_standing_rule ex_ext ex_scoped_catalog [] (ex_rule_manifest secs) None 1000 empty_store)"

definition ex_consulted :: "int \<Rightarrow> rule_store" where
  "ex_consulted secs =
     snd (consult_and_reserve_standing_rule (ActionId ''mail.label'') 2000 ''first'' (ex_activated secs))"

lemma ex_activated_run:
  "run ex_ext ex_scoped_catalog [] (ex_activated secs) (set (st_rules (ex_activated secs)))"
  using run.step [OF run.start rule_step.activate] unfolding ex_activated_def by fastforce

lemma ex_consulted_run:
  "run ex_ext ex_scoped_catalog [] (ex_consulted secs)
     (set (st_rules (ex_activated secs)) \<union> set (st_rules (ex_consulted secs)))"
  unfolding ex_consulted_def by (rule run.step [OF ex_activated_run rule_step.consult]) simp

lemma ex_activated_eq:
  assumes "0 < secs"
  shows "ex_activated secs = empty_store
    \<lparr>st_rules := [rule_of_manifest (ex_rule_manifest secs) 1000],
     st_audit := [\<lparr>au_kind = ''standing_rule.activated'', au_action = Some (ActionId ''mail.label''),
       au_reason = Some ''standing rule became an active gate consultation input'', au_grant = None\<rparr>]\<rparr>"
  using assms
  by (simp add: ex_activated_def activate_standing_rule_def reject_incomplete_scope_binding_def
      activation_rejection_def scope_binding_rejection_def required_scope_dimensions_for_def
      dark_window_allow_rejection_def ex_rule_manifest_def with_immediate_tx_def
      activate_standing_rule_in_tx_def manifest_validate_def dark_window_error_def
      max_pending_exceptions_ceiling_def nanos_defs find_rule_def empty_store_def upsert_rule_def
      update_rules_def record_audit_def rule_of_manifest_def)

abbreviation ex_rule :: "int \<Rightarrow> rule_row" where
  "ex_rule secs \<equiv> rule_of_manifest (ex_rule_manifest secs) 1000"

lemma ex_consulted_eq:
  assumes "0 < secs"
  shows "ex_consulted secs = insert_usage ''rule'' 1 2000 ''first'' (ex_activated secs)"
  using assms
  by (simp add: ex_consulted_def ex_activated_eq consult_and_reserve_standing_rule_def
      with_immediate_tx_def timestamp_to_epoch_nanos_def active_rules_def first_row_def
      deadline_nanos_def i64_wrap_def has_headroom_def used_def rule_of_manifest_def
      ex_rule_manifest_def empty_store_def)

theorem budget_never_overspent_witness:
  "run ex_ext ex_scoped_catalog [] (ex_consulted 86400)
     (set (st_rules (ex_activated 86400)) \<union> set (st_rules (ex_consulted 86400))) \<and>
   regular_uses (ex_consulted 86400) (''rule'', 1, Quota) = {#2000#} \<and>
   size {#t \<in># regular_uses (ex_consulted 86400) (''rule'', 1, Quota).
     0 \<le> t \<and> t \<le> 0 + 86400000000000#} \<le> unat (1 :: u32)"
proof -
  have r: "ex_rule 86400 \<in> set (st_rules (ex_consulted 86400))"
    by (simp add: ex_consulted_eq ex_activated_eq insert_usage_def)
  have "regular_uses (ex_consulted 86400) (''rule'', 1, Quota) = {#2000#}"
    by (simp add: ex_consulted_eq ex_activated_eq insert_usage_uses)
      (simp add: regular_uses_def pending_ids_def empty_store_def)
  moreover have "size {#t \<in># regular_uses (ex_consulted 86400) (''rule'', 1, Quota).
     0 \<le> t \<and> t \<le> 0 + 86400000000000#} \<le> unat (1 :: u32)"
    using budget_never_overspent [OF ex_consulted_run r, of Quota 0]
    by (auto simp: rule_of_manifest_def ex_rule_manifest_def width_nanos_def)
  ultimately show ?thesis using ex_consulted_run by blast
qed

section \<open>Windows past the range of nanoseconds\<close>

lemma max_window_start:
  assumes "bw_window_secs w = 2 ^ 63 - 1" "0 \<le> n" "n + nanos_per_sec < 2 ^ 63"
  shows "window_start n w = n + nanos_per_sec"
  using assms by (simp add: window_start_def i64_wrap_def)

text \<open>
  A quota over the largest window, the greatest 64-bit count of seconds, never binds: the subtraction
  wraps to an instant one second ahead, so that however many uses were charged before, the quota
  test passes and only the rate is left. (Manifest validation asks of a window only that it be
  positive; the witness activates such a rule.)
\<close>

theorem widest_quota_never_binds:
  assumes "bw_window_secs (sr_quota r) = 2 ^ 63 - 1" "0 < bw_max (sr_quota r)"
    and "0 \<le> n" "n + nanos_per_sec < 2 ^ 63"
    and "\<forall>u\<in>set (st_usage st). us_used_at u \<le> n"
  shows "has_headroom st r n \<longleftrightarrow>
    used st (sr_rule_id r) Rate (window_start n (sr_rate r)) < uint (bw_max (sr_rate r))"
proof -
  have "filter (counts_against (sr_rule_id r) Quota (n + nanos_per_sec)) (st_usage st) = []"
    using assms(5) by (force simp: counts_against_def filter_empty_conv)
  then have "used st (sr_rule_id r) Quota (window_start n (sr_quota r)) = 0"
    unfolding max_window_start [OF assms(1,3,4)] used_def by simp
  then show ?thesis using assms(2) by (simp add: has_headroom_def word_less_def)
qed

theorem widest_quota_never_binds_witness:
  "manifest_validate ex_ext (ex_rule_manifest 9223372036854775807) = Inr () \<and>
   uint (bw_max (sr_quota (ex_rule 9223372036854775807))) = 1 \<and>
   length (st_usage (ex_consulted 9223372036854775807)) = 2 \<and>
   has_headroom (ex_consulted 9223372036854775807) (ex_rule 9223372036854775807) 3000"
proof -
  have e: "ex_consulted 9223372036854775807 = insert_usage ''rule'' 1 2000 ''first'' (ex_activated 9223372036854775807)"
    "ex_activated 9223372036854775807 = empty_store
    \<lparr>st_rules := [ex_rule 9223372036854775807],
     st_audit := [\<lparr>au_kind = ''standing_rule.activated'', au_action = Some (ActionId ''mail.label''),
       au_reason = Some ''standing rule became an active gate consultation input'', au_grant = None\<rparr>]\<rparr>"
    by (rule ex_consulted_eq ex_activated_eq, simp)+
  have "has_headroom (ex_consulted 9223372036854775807) (ex_rule 9223372036854775807) 3000 \<longleftrightarrow>
      used (ex_consulted 9223372036854775807) ''rule'' Rate (window_start 3000 \<lparr>bw_max = 5, bw_window_secs = 60\<rparr>) < 5"
    using widest_quota_never_binds [of "ex_rule 9223372036854775807" 3000 "ex_consulted 9223372036854775807"]
    by (simp add: e insert_usage_def empty_store_def rule_of_manifest_def ex_rule_manifest_def)
  moreover have "used (ex_consulted 9223372036854775807) ''rule'' Rate
      (window_start 3000 \<lparr>bw_max = 5, bw_window_secs = 60\<rparr>) < 5"
    by (simp add: e insert_usage_def empty_store_def used_def counts_against_def)
  ultimately show ?thesis
    by (simp add: e insert_usage_def empty_store_def rule_of_manifest_def ex_rule_manifest_def
        manifest_validate_def dark_window_error_def max_pending_exceptions_ceiling_def)
qed

section \<open>Exceptions\<close>

text \<open>
  C39. In every reachable store an active or former rule row has at most its reviewed number of
  unresolved exceptions, which is at most three, and a request has at most one exception per
  rule version, resolved or not.
\<close>

theorem exceptions_capped:
  assumes "run X catalog descriptors st seen" "r \<in> seen" "sr_dark_window r = Some dw"
  shows "int (outstanding_dark_window_exceptions st (sr_rule_id r) (sr_version r))
      \<le> uint (dw_max_pending_exceptions dw) \<and>
    dw_max_pending_exceptions dw \<le> 3 \<and>
    distinct (map (\<lambda>p. (pa_rule_id p, pa_rule_version p, pa_request_fingerprint p)) (st_pending st))"
proof -
  have "limit_ok (terms_of r)"
    using run_rules_inv [OF assms(1)] terms_invD(3) assms(2) unfolding rules_inv_def by blast
  then have "dw_max_pending_exceptions dw \<le> 3"
    using assms(3) by (simp add: limit_ok_def max_pending_exceptions_ceiling_def)
  moreover note inv = run_pending_inv [OF assms(1)]
  have "within_cap st r" using inv assms(2) by (simp add: pending_inv_def)
  moreover have "distinct (map request_key (st_pending st))" using inv by (simp add: pending_inv_def)
  then have "distinct (map (\<lambda>p. (pa_rule_id p, pa_rule_version p, pa_request_fingerprint p)) (st_pending st))"
    by (simp add: request_key_def [abs_def])
  ultimately show ?thesis using assms(3) unfolding within_cap_def by blast
qed

lemma ex_rule_sel:
  "sr_rule_id (ex_rule secs) = ''rule''" "sr_version (ex_rule secs) = 1"
  "sr_dark_window (ex_rule secs) = Some \<lparr>dw_timeout_secs = 1800, dw_default = Deny_default,
     dw_max_pending_exceptions = 2\<rparr>"
  by (simp_all add: rule_of_manifest_def ex_rule_manifest_def)

definition ex_surface :: owner_surface where
  "ex_surface = \<lparr>os_kind = LocalTerminal, os_principal_id = 7, os_thread_binding = None,
     os_surface_id = None\<rparr>"

definition ex_ctx :: pending_schedule_ctx where
  "ex_ctx = \<lparr>sc_owner_surface = ex_surface, sc_grant_id = 9, sc_payload_ref = None,
     sc_fingerprint = standing_rule_fingerprint ex_ext (ActionId ''mail.label'') 9 ex_surface None,
     sc_reviewed_scope_digest = None, sc_compatibility_digest = None\<rparr>"

definition ex_scheduled :: rule_store where
  "ex_scheduled = snd (schedule_standing_rule_dark_window (ex_rule 86400) ex_ctx 5000 4000
     ''exception'' ''timer'' (ex_consulted 86400))"

lemma ex_scheduled_run:
  "run ex_ext ex_scoped_catalog [] ex_scheduled
     (set (st_rules (ex_activated 86400)) \<union> set (st_rules (ex_consulted 86400)) \<union>
      set (st_rules ex_scheduled))"
  unfolding ex_scheduled_def
  by (rule run.step [OF ex_consulted_run rule_step.schedule])
    (simp_all add: ex_consulted_eq ex_activated_eq insert_usage_def pending_ids_def empty_store_def)

theorem exceptions_capped_witness:
  "ex_rule 86400 \<in> set (st_rules (ex_activated 86400)) \<and>
   outstanding_dark_window_exceptions ex_scheduled ''rule'' 1 = 1 \<and>
   int (outstanding_dark_window_exceptions ex_scheduled ''rule'' 1) \<le> uint (2 :: u32)"
proof -
  have r: "ex_rule 86400 \<in> set (st_rules (ex_activated 86400))" by (simp add: ex_activated_eq)
  have one: "outstanding_dark_window_exceptions ex_scheduled ''rule'' 1 = 1"
    by (simp add: ex_scheduled_def schedule_standing_rule_dark_window_def rule_of_manifest_def
        ex_rule_manifest_def with_immediate_tx_def ex_consulted_eq ex_activated_eq insert_usage_def
        empty_store_def outstanding_dark_window_exceptions_def count_pending_def ensure_timer_def
        nanos_defs record_audit_def new_pending_def outstanding_def ex_ctx_def)
  have "int (outstanding_dark_window_exceptions ex_scheduled ''rule'' 1) \<le> uint (2 :: u32)"
    using exceptions_capped [OF ex_scheduled_run UnI1 [OF UnI1 [OF r]] ex_rule_sel(3)] by (simp add: ex_rule_sel)
  then show ?thesis using r one by blast
qed

end
