(* ===== verification/Rule_Admission.thy ===== *)
theory Rule_Admission
  imports Rule_Budget
begin

text \<open>
  What a consultation of the standing rules admits, what withdrawing a rule takes back, and what
  a fired exception's one-use token is worth.
\<close>

section \<open>Scoped selection\<close>

definition eligible :: "ext \<Rightarrow> resolved_action_context \<Rightarrow> int \<Rightarrow> rule_row \<Rightarrow> bool" where
  "eligible X c now r \<longleftrightarrow> now < deadline_nanos r \<and> scoped_rule_matches X r c"

definition eligible_rules :: "ext \<Rightarrow> resolved_action_context \<Rightarrow> int \<Rightarrow> rule_store \<Rightarrow> rule_row list" where
  "eligible_rules X c now st = filter (eligible X c now) (active_rules st (cx_action_id c))"

lemma select_scoped_eq:
  "length ms \<le> 1 \<Longrightarrow> fst (select_scoped X c n rs ms st) = take 2 (ms @ filter (eligible X c n) rs)"
proof (induction X c n rs ms st rule: select_scoped.induct)
  case (2 X c now r rs matches st)
  show ?case
  proof (cases "eligible X c now r")
    case True
    then have r: "\<not> deadline_nanos r \<le> now" "scoped_rule_matches X r c" by (auto simp: eligible_def)
    show ?thesis
    proof (cases "matches = []")
      case True
      then show ?thesis using 2(3) [OF r(1)] r \<open>eligible X c now r\<close> by simp
    next
      case False
      then obtain m where "matches = [m]" using 2(4) by (cases matches) auto
      then show ?thesis using r \<open>eligible X c now r\<close> by (simp add: numeral_2_eq_2)
    qed
  next
    case False
    then show ?thesis using 2(1,2,4) by (auto simp: eligible_def)
  qed
qed (simp add: numeral_2_eq_2)

lemma usage_unchanged [simp]:
  "st_usage (record_audit k a w g st) = st_usage st"
  "st_usage (lapse r n st) = st_usage st"
  by (simp_all add: record_audit_def lapse_def needs_review_def update_rules_def
      stale_pending_exceptions_def update_pending_def Let_def)

lemma select_scoped_usage: "st_usage (snd (select_scoped X c n rs ms st)) = st_usage st"
  by (induction X c n rs ms st rule: select_scoped.induct) simp_all

lemma has_headroom_usage: "st_usage st' = st_usage st \<Longrightarrow> has_headroom st' r n = has_headroom st r n"
  by (simp add: has_headroom_def used_def)

lemma list_cases3:
  assumes "xs = [] \<Longrightarrow> P" "\<And>x. xs = [x] \<Longrightarrow> P" "\<And>x y ys. xs = x # y # ys \<Longrightarrow> P"
  shows P
  using assms by (metis neq_Nil_conv)

definition context_erased :: "rule_store \<Rightarrow> resolved_action_context \<Rightarrow> bool" where
  "context_erased st c \<longleftrightarrow> (\<exists>i. cx_counterparty_identity_id c = Some i \<and> i \<in> st_erased st)"

text \<open>
  C33. A scoped consultation admits the action exactly when the bound counterparty is not erased
  and exactly one active, unexpired rule matches the resolved context and has room in both its
  windows. Two or more such rules are reported as ambiguous and admit nothing. The usage table
  gains one quota and one rate unit of the selected version when it admits, and is unchanged
  otherwise.
\<close>

theorem scoped_admission_exact:
  assumes "- (2 ^ 63) \<le> now" "now < 2 ^ 63"
    and "consult_and_reserve_scoped_rule X c now reservation st = (result, st')"
  shows "\<exists>out. result = Inr out \<and>
    (so_allow out \<longleftrightarrow> \<not> context_erased st c \<and>
       (\<exists>r. eligible_rules X c now st = [r] \<and> has_headroom st r now)) \<and>
    (so_ambiguous out \<longleftrightarrow> \<not> context_erased st c \<and> 2 \<le> length (eligible_rules X c now st)) \<and>
    (so_allow out \<longrightarrow> (\<exists>r. eligible_rules X c now st = [r] \<and> so_rule out = Some r \<and>
       so_reservation_id out = Some reservation \<and>
       st_usage st' = st_usage (insert_usage (sr_rule_id r) (sr_version r) now reservation st))) \<and>
    (\<not> so_allow out \<longrightarrow> st_usage st' = st_usage st)"
proof -
  obtain ms st1 where sel: "select_scoped X c now (active_rules st (cx_action_id c)) [] st = (ms, st1)"
    by fastforce
  have ms: "ms = take 2 (eligible_rules X c now st)"
    using select_scoped_eq [of "[]" X c now "active_rules st (cx_action_id c)" st]
    by (simp add: sel eligible_rules_def)
  have u: "st_usage st1 = st_usage st"
    using select_scoped_usage [of X c now "active_rules st (cx_action_id c)" "[]" st] by (simp add: sel)
  have er: "(case cx_counterparty_identity_id c of None \<Rightarrow> False | Some i \<Rightarrow> i \<in> st_erased st)
      \<longleftrightarrow> context_erased st c"
    by (auto simp: context_erased_def split: option.split)
  note eq = assms(3) [unfolded consult_and_reserve_scoped_rule_def timestamp_to_epoch_nanos_def er]
  note simps = assms(1,2) u sel ms
  show ?thesis
  proof (cases "context_erased st c")
    case True
    then have "result = Inr scoped_none" "st_usage st' = st_usage st" using eq simps by auto
    then show ?thesis using True by (simp add: scoped_none_def)
  next
    case False
    show ?thesis
    proof (cases "eligible_rules X c now st" rule: list_cases3)
      case 1
      then have "result = Inr scoped_none" "st_usage st' = st_usage st" using eq simps False by auto
      then show ?thesis using 1 by (simp add: scoped_none_def)
    next
      case (2 r)
      then have "result = Inr (fst (reserve_scoped r now reservation st1))"
        "st' = snd (reserve_scoped r now reservation st1)"
        using eq simps False by (simp_all split: prod.splits)
      then show ?thesis
        using False 2 u has_headroom_usage [OF u, of r now]
        by (simp add: reserve_scoped_def Let_def insert_usage_def)
    next
      case (3 r s rs)
      then have "result = Inr (scoped_none\<lparr>so_ambiguous := True\<rparr>)" "st_usage st' = st_usage st"
        using eq simps False by (auto simp: numeral_2_eq_2)
      then show ?thesis using False 3 by (simp add: scoped_none_def)
    qed
  qed
qed

section \<open>What a reviewed rule matches\<close>

lemma reviewed_values:
  assumes "\<forall>d\<in>cx_required_scope_dimensions c. value_for d c \<noteq> None"
  shows "reviewed_scope_values_of c =
    Some (\<lambda>d. if d \<in> cx_required_scope_dimensions c then value_for d c else None)"
proof -
  have "collect_values c Map.empty (dimension_list (cx_required_scope_dimensions c)) =
      Inr (\<lambda>d. if d \<in> cx_required_scope_dimensions c then value_for d c else None)"
    using assms by (simp add: collect_values_Inr)
  then show ?thesis by (simp add: reviewed_scope_values_of_def)
qed

lemma derived_scope_digest:
  assumes "scope_derive X c = Inr s"
    and "ActionDim \<notin> cx_required_scope_dimensions c" "DescriptorDim \<notin> cx_required_scope_dimensions c"
  shows "context_reviewed_scope_digest X c = Some (required_scope_digest_of X s)"
proof -
  have s: "rs_dimensions s = (\<lambda>d. if d \<in> bound_dimensions c then value_for d c else None)"
    and p: "\<forall>d\<in>cx_required_scope_dimensions c. value_for d c \<noteq> None"
    using assms(1) by (simp_all add: scope_derive_Inr seal_scope_def)
  have "(\<lambda>d. if d = ActionDim \<or> d = DescriptorDim then None else rs_dimensions s d) =
      (\<lambda>d. if d \<in> cx_required_scope_dimensions c then value_for d c else None)"
    using assms(2,3) by (auto simp: s bound_dimensions_def fun_eq_iff)
  then show ?thesis
    by (simp add: context_reviewed_scope_digest_def reviewed_values [OF p] required_scope_digest_of_def)
qed

lemma derived_rule_matches_iff:
  assumes "context_try_new X catalog a i inp = Inr c"
    and "ActionDim \<notin> cx_required_scope_dimensions c" "DescriptorDim \<notin> cx_required_scope_dimensions c"
    and "scope_derive X c = Inr s"
    and "sm_reviewed_scope m = Some (binding_derive_from X s (cx_compatibility_digest c))"
  shows "scoped_rule_matches X (rule_of_manifest m n) later \<longleftrightarrow>
    cx_compatibility_digest later = cx_compatibility_digest c \<and>
    context_reviewed_scope_digest X later = context_reviewed_scope_digest X c \<and>
    (\<forall>d\<in>bound_dimensions c. value_for d later = value_for d c)"
proof -
  obtain s' where s': "scope_derive X c = Inr s'" "scope_binding_is_valid X s'"
    and cmp: "\<forall>later. scope_compare X s' later =
       (let diff = {d \<in> bound_dimensions c. value_for d later \<noteq> value_for d c}
        in if diff = {} then Matches else Mismatch diff)"
    using derived_compare [OF assms(1)] by blast
  have eq: "s' = s" using s'(1) assms(4) by simp
  let ?b = "binding_derive_from X s (cx_compatibility_digest c)"
  have valid: "binding_is_valid X ?b"
    using s'(2) by (simp add: binding_is_valid_def binding_derive_from_def eq)
  have dig: "context_reviewed_scope_digest X c = Some (rb_reviewed_scope_digest ?b)"
    using derived_scope_digest [OF assms(4,2,3)] by (simp add: binding_derive_from_def)
  have match: "scope_compare X (rb_scope ?b) later = Matches \<longleftrightarrow>
      (\<forall>d\<in>bound_dimensions c. value_for d later = value_for d c)"
    using cmp by (auto simp: binding_derive_from_def eq Let_def)
  show ?thesis
    unfolding scoped_rule_matches_def rule_of_manifest_def
    using valid dig match assms(5)
    by (auto simp: binding_derive_from_def split: option.split)
qed

text \<open>
  The rule that a review of a resolved context produces matches a later context exactly when
  the compatibility epoch and the scope digest are those of the review and the two contexts agree
  on the action, the descriptor version and every required dimension. In particular it matches
  the context it was reviewed for. The action and the descriptor version are bound by the epoch
  and are not themselves required dimensions.
\<close>

theorem reviewed_rule_matches_exact:
  assumes "context_try_new X catalog a i inp = Inr c"
    and "ActionDim \<notin> cx_required_scope_dimensions c" "DescriptorDim \<notin> cx_required_scope_dimensions c"
    and "scope_derive X c = Inr s"
    and "sm_reviewed_scope m = Some (binding_derive_from X s (cx_compatibility_digest c))"
  shows "scoped_rule_matches X (rule_of_manifest m n) later \<longleftrightarrow>
    cx_compatibility_digest later = cx_compatibility_digest c \<and>
    context_reviewed_scope_digest X later = context_reviewed_scope_digest X c \<and>
    (\<forall>d\<in>bound_dimensions c. value_for d later = value_for d c)"
  using assms by (rule derived_rule_matches_iff)

text \<open>The context and the rule reviewed for it that the properties are evaluated on.\<close>

definition ex_scoped_manifest :: "reviewed_action_scope \<Rightarrow> digest \<Rightarrow> standing_rule_manifest" where
  "ex_scoped_manifest s d = (ex_rule_manifest 86400)
     \<lparr>sm_action_id := ActionId ''status.read'', sm_reviewed_scope := Some (binding_derive_from ex_ext s d)\<rparr>"

lemma ex_resolved_context:
  obtains c s where "ex_resolved = Inr c" "cx_required_scope_dimensions c = {Workflow, Target}"
    "cx_action_id c = ActionId ''status.read''" "cx_counterparty_identity_id c = None"
    "scope_derive ex_ext c = Inr s"
proof -
  have "case ex_resolved of Inl _ \<Rightarrow> False
      | Inr c \<Rightarrow> cx_required_scope_dimensions c = {Workflow, Target} \<and>
          cx_action_id c = ActionId ''status.read'' \<and> cx_counterparty_identity_id c = None"
    by code_simp
  then obtain c where c: "ex_resolved = Inr c" "cx_required_scope_dimensions c = {Workflow, Target}"
    "cx_action_id c = ActionId ''status.read''" "cx_counterparty_identity_id c = None"
    by (auto split: sum.splits)
  then obtain s where "scope_derive ex_ext c = Inr s"
    using derived_compare [OF c(1) [unfolded ex_resolved_def]] by blast
  then show thesis using that c by blast
qed

theorem reviewed_rule_matches_exact_witness:
  "\<exists>c s. ex_resolved = Inr c \<and> scope_derive ex_ext c = Inr s \<and>
     scoped_rule_matches ex_ext
       (rule_of_manifest (ex_scoped_manifest s (cx_compatibility_digest c)) 1000) c"
proof -
  obtain c s where c: "ex_resolved = Inr c" "cx_required_scope_dimensions c = {Workflow, Target}"
    "scope_derive ex_ext c = Inr s" using ex_resolved_context by blast
  have "scoped_rule_matches ex_ext
      (rule_of_manifest (ex_scoped_manifest s (cx_compatibility_digest c)) 1000) c"
    using reviewed_rule_matches_exact [OF c(1) [unfolded ex_resolved_def] _ _ c(3),
        of "ex_scoped_manifest s (cx_compatibility_digest c)"] c(2)
    by (simp add: ex_scoped_manifest_def)
  then show ?thesis using c by blast
qed

definition ex_scoped_store :: "reviewed_action_scope \<Rightarrow> digest \<Rightarrow> rule_store" where
  "ex_scoped_store s d = empty_store\<lparr>st_rules := [rule_of_manifest (ex_scoped_manifest s d) 1000]\<rparr>"

theorem scoped_admission_exact_witness:
  "\<exists>c s out. ex_resolved = Inr c \<and> scope_derive ex_ext c = Inr s \<and>
     fst (consult_and_reserve_scoped_rule ex_ext c 2000 ''first''
       (ex_scoped_store s (cx_compatibility_digest c))) = Inr out \<and> so_allow out"
proof -
  obtain c s where c: "ex_resolved = Inr c" "cx_required_scope_dimensions c = {Workflow, Target}"
    "cx_action_id c = ActionId ''status.read''" "cx_counterparty_identity_id c = None"
    "scope_derive ex_ext c = Inr s" by (rule ex_resolved_context)
  let ?d = "cx_compatibility_digest c"
  let ?r = "rule_of_manifest (ex_scoped_manifest s ?d) 1000"
  let ?st = "ex_scoped_store s ?d"
  have "scoped_rule_matches ex_ext ?r c"
    using derived_rule_matches_iff [OF c(1) [unfolded ex_resolved_def] _ _ c(5), of "ex_scoped_manifest s ?d"]
    by (simp add: c(2) ex_scoped_manifest_def)
  moreover have "2000 < deadline_nanos ?r"
    by (simp add: deadline_nanos_def i64_wrap_def rule_of_manifest_def ex_scoped_manifest_def
        ex_rule_manifest_def)
  ultimately have "eligible_rules ex_ext c 2000 ?st = [?r]"
    by (simp add: eligible_rules_def eligible_def active_rules_def c(3) ex_scoped_store_def)
      (simp add: rule_of_manifest_def ex_scoped_manifest_def)
  moreover have "has_headroom ?st ?r 2000"
    by (simp add: has_headroom_def used_def ex_scoped_store_def empty_store_def rule_of_manifest_def
        ex_scoped_manifest_def ex_rule_manifest_def)
  moreover have "\<not> context_erased ?st c" by (simp add: context_erased_def c(4))
  ultimately obtain out where
    "fst (consult_and_reserve_scoped_rule ex_ext c 2000 ''first'' ?st) = Inr out" "so_allow out"
    using scoped_admission_exact [of 2000 ex_ext c "''first''" ?st, OF _ _ prod.collapse [symmetric]]
    by auto
  then show ?thesis using c by blast
qed

section \<open>The gate consultation\<close>

lemma used_insert:
  assumes "since \<le> n"
  shows "used (insert_usage i v n c st) i k since = used st i k since + 1"
  using assms by (cases k) (simp_all add: used_def insert_usage_def counts_against_def)

lemma uint_of_int_range: "0 \<le> y \<Longrightarrow> y < 2 ^ 32 \<Longrightarrow> uint (word_of_int y :: u32) = y"
  by (simp add: uint_word_of_int)

lemma remaining_exact:
  assumes "used st i k since < uint (bw_max w)"
  shows "uint (word_of_int (max 0 (uint (bw_max w) - (used st i k since + 1))) :: u32)
    = uint (bw_max w) - used st i k since - 1"
proof -
  let ?y = "max 0 (uint (bw_max w) - (used st i k since + 1))"
  have "0 \<le> used st i k since" by (simp add: used_def)
  then have "?y = uint (bw_max w) - used st i k since - 1" "?y < 2 ^ 32"
    using assms uint_lt2p [of "bw_max w"] by simp_all
  then show ?thesis using uint_of_int_range [of ?y] by simp
qed

lemma consult_reserves:
  assumes "- (2 ^ 63) \<le> now" "now < 2 ^ 63"
  shows "consult_and_reserve_standing_rule a now c st =
    (case first_row (active_rules st a) of
       None \<Rightarrow> (Inr None, st)
     | Some r \<Rightarrow>
         if deadline_nanos r \<le> now then (Inr None, lapse r now st)
         else if has_headroom st r now
         then (Inr (Some (r, Some c)), insert_usage (sr_rule_id r) (sr_version r) now c st)
         else (Inr (Some (r, None)), st))"
  using assms
  by (simp add: consult_and_reserve_standing_rule_def timestamp_to_epoch_nanos_def
      with_immediate_tx_def split: option.split)

text \<open>The headroom the gate reports after it reserved: what is left of both windows.\<close>

lemma remaining_after_reservation:
  assumes "distinct (map sr_rule_id (st_rules st))" "r \<in> set (st_rules st)" "has_headroom st r now"
    and "0 \<le> now" "now < 2 ^ 63" "representable (sr_quota r)" "representable (sr_rate r)"
  shows "\<exists>q s. standing_rule_remaining (sr_rule_id r) now
      (insert_usage (sr_rule_id r) (sr_version r) now c st) = Inr (q, s) \<and>
    uint q = uint (bw_max (sr_quota r)) - used st (sr_rule_id r) Quota (window_start now (sr_quota r)) - 1 \<and>
    uint s = uint (bw_max (sr_rate r)) - used st (sr_rule_id r) Rate (window_start now (sr_rate r)) - 1"
proof -
  have "find_rule (insert_usage (sr_rule_id r) (sr_version r) now c st) (sr_rule_id r) = Some r"
    using find_rule_unique [OF assms(1,2)] by (simp add: find_rule_def insert_usage_def)
  moreover have "window_start now (sr_quota r) \<le> now" "window_start now (sr_rate r) \<le> now"
    using assms(4-7) by (simp_all add: window_start_exact) (simp_all add: representable_def)
  ultimately have "standing_rule_remaining (sr_rule_id r) now
      (insert_usage (sr_rule_id r) (sr_version r) now c st) =
    Inr (word_of_int (max 0 (uint (bw_max (sr_quota r)) -
           (used st (sr_rule_id r) Quota (window_start now (sr_quota r)) + 1))),
         word_of_int (max 0 (uint (bw_max (sr_rate r)) -
           (used st (sr_rule_id r) Rate (window_start now (sr_rate r)) + 1))))"
    using assms(4,5) by (simp add: standing_rule_remaining_def nanos_defs used_insert)
  then show ?thesis
    using assms(3) remaining_exact unfolding has_headroom_def by blast
qed

lemma ensure_timer_usage: "ensure_timer t k i r g f st = Inr (x, st') \<Longrightarrow> st_usage st' = st_usage st"
  by (auto simp: ensure_timer_def nanos_defs split: if_splits)

lemma schedule_usage:
  "st_usage (snd (schedule_standing_rule_dark_window r c f now p t st)) = st_usage st"
  by (auto simp: schedule_standing_rule_dark_window_def with_immediate_tx_def nanos_defs Let_def
      split: option.split sum.split dest: ensure_timer_usage)

lemma gate_admits:
  assumes "first_row (active_rules st a) = Some r" "now < deadline_nanos r" "has_headroom st r now"
    and "- (2 ^ 63) \<le> now" "now < 2 ^ 63"
    and "standing_rule_remaining (sr_rule_id r) now
      (insert_usage (sr_rule_id r) (sr_version r) now c st) = Inr (q, s)"
  shows "consult_standing_rule_gate Y a now ctx c p t st =
    (Inr \<lparr>go_matched = True, go_allow = True, go_quota_remaining = q, go_rate_remaining = s,
       go_dark_window_scheduled = False, go_rule = Some r, go_reservation_id = Some c\<rparr>,
     insert_usage (sr_rule_id r) (sr_version r) now c st)"
  using assms by (simp add: consult_standing_rule_gate_def consult_reserves)

lemma gate_refuses:
  assumes "\<nexists>r. first_row (active_rules st a) = Some r \<and> now < deadline_nanos r \<and> has_headroom st r now"
    and "- (2 ^ 63) \<le> now" "now < 2 ^ 63"
    and "consult_standing_rule_gate Y a now ctx c p t st = (Inr out, st')"
  shows "\<not> go_allow out \<and> go_quota_remaining out = 0 \<and> go_rate_remaining out = 0 \<and>
    st_usage st' = st_usage st"
proof (cases "first_row (active_rules st a)")
  case None
  then show ?thesis using assms(2-4) by (auto simp: consult_standing_rule_gate_def consult_reserves)
next
  case (Some r)
  show ?thesis
  proof (cases "deadline_nanos r \<le> now")
    case True
    then show ?thesis using Some assms(2-4) by (auto simp: consult_standing_rule_gate_def consult_reserves)
  next
    case False
    then have "\<not> has_headroom st r now" using assms(1) Some by force
    then have "consult_standing_rule_gate Y a now ctx c p t st =
        (case (sr_dark_window r, ctx) of
           (Some dw, Some d) \<Rightarrow>
             (case ts_add_secs Y now (word_of_int (max 0 (dw_timeout_secs dw))) of
                Inl e \<Rightarrow> (Inl (Panics e), st)
              | Inr f \<Rightarrow> (case schedule_standing_rule_dark_window r d f now p t st of
                   (Inl e, st2) \<Rightarrow> (Inl (Fails e), st2)
                 | (Inr x, st2) \<Rightarrow> (Inr (over_budget_outcome r (is_covered x)), st2)))
         | _ \<Rightarrow> (Inr (over_budget_outcome r False), st))"
      using Some False assms(2,3) by (simp add: consult_standing_rule_gate_def consult_reserves)
    then obtain b where "out = over_budget_outcome r b" "st_usage st' = st_usage st"
      using assms(4) schedule_usage
      by (auto split: option.splits sum.splits prod.splits) (metis snd_conv)
    then show ?thesis by (simp add: over_budget_outcome_def)
  qed
qed

text \<open>
  The gate consultation admits an action exactly when the highest-version active rule for it
  is unexpired and has room in both windows. It then charges that version one quota and one rate
  unit and reports exactly what is left of each. Without an admission it reports no headroom.
\<close>

theorem gate_admission_exact:
  assumes "run X catalog descriptors st seen" "0 \<le> now" "now < 2 ^ 63"
    and "\<forall>r\<in>set (st_rules st). representable (sr_quota r) \<and> representable (sr_rate r)"
    and "consult_standing_rule_gate Y a now ctx c pending_id timer_id st = (result, st')"
  shows "((\<exists>out. result = Inr out \<and> go_allow out) \<longleftrightarrow>
      (\<exists>r. first_row (active_rules st a) = Some r \<and> now < deadline_nanos r \<and> has_headroom st r now)) \<and>
    (\<forall>out. result = Inr out \<longrightarrow>
      (if go_allow out
       then (\<exists>r. go_rule out = Some r \<and> first_row (active_rules st a) = Some r \<and>
         go_reservation_id out = Some c \<and>
         st' = insert_usage (sr_rule_id r) (sr_version r) now c st \<and>
         uint (go_quota_remaining out) = uint (bw_max (sr_quota r)) -
           used st (sr_rule_id r) Quota (window_start now (sr_quota r)) - 1 \<and>
         uint (go_rate_remaining out) = uint (bw_max (sr_rate r)) -
           used st (sr_rule_id r) Rate (window_start now (sr_rate r)) - 1)
       else go_quota_remaining out = 0 \<and> go_rate_remaining out = 0 \<and> st_usage st' = st_usage st))"
proof (cases "\<exists>r. first_row (active_rules st a) = Some r \<and> now < deadline_nanos r \<and> has_headroom st r now")
  case True
  then obtain r where r: "first_row (active_rules st a) = Some r" "now < deadline_nanos r"
    "has_headroom st r now" by blast
  have mem: "r \<in> set (st_rules st)" by (rule active_rules_in [OF r(1)])
  have d: "distinct (map sr_rule_id (st_rules st))"
    by (rule rules_inv_distinct [OF run_rules_inv [OF assms(1)]])
  have rep: "representable (sr_quota r)" "representable (sr_rate r)" using assms(4) mem by simp_all
  from remaining_after_reservation [OF d mem r(3) assms(2,3) rep, of c] obtain q s where qs:
    "standing_rule_remaining (sr_rule_id r) now (insert_usage (sr_rule_id r) (sr_version r) now c st)
       = Inr (q, s)"
    "uint q = uint (bw_max (sr_quota r)) - used st (sr_rule_id r) Quota (window_start now (sr_quota r)) - 1"
    "uint s = uint (bw_max (sr_rate r)) - used st (sr_rule_id r) Rate (window_start now (sr_rate r)) - 1"
    by (elim exE conjE)
  from gate_admits [OF r _ assms(3) qs(1), of Y ctx pending_id timer_id] assms(2,5)
  have eq: "result = Inr \<lparr>go_matched = True, go_allow = True, go_quota_remaining = q,
      go_rate_remaining = s, go_dark_window_scheduled = False, go_rule = Some r,
      go_reservation_id = Some c\<rparr>" "st' = insert_usage (sr_rule_id r) (sr_version r) now c st"
    by simp_all
  show ?thesis using True r(1) qs(2,3) by (simp add: eq)
next
  case False
  then have "\<not> go_allow out \<and> go_quota_remaining out = 0 \<and> go_rate_remaining out = 0 \<and>
      st_usage st' = st_usage st" if "result = Inr out" for out
    using gate_refuses [OF False _ assms(3)] assms(2,5) that by simp
  then have none: "go_allow out \<Longrightarrow> result \<noteq> Inr out"
    "result = Inr out \<Longrightarrow> go_quota_remaining out = 0 \<and> go_rate_remaining out = 0 \<and> st_usage st' = st_usage st"
    for out by blast+
  show ?thesis
  proof (intro conjI allI impI)
    show "(\<exists>out. result = Inr out \<and> go_allow out) \<longleftrightarrow>
      (\<exists>r. first_row (active_rules st a) = Some r \<and> now < deadline_nanos r \<and> has_headroom st r now)"
      using False none(1) by blast
  qed (use none in auto)
qed

theorem gate_admission_exact_witness:
  "\<exists>out. fst (consult_standing_rule_gate ex_ext (ActionId ''mail.label'') 2000 None ''first'' ''p'' ''t''
      (ex_activated 86400)) = Inr out \<and> go_allow out \<and>
    uint (go_quota_remaining out) = 0 \<and> uint (go_rate_remaining out) = 4"
proof -
  have row: "first_row (active_rules (ex_activated 86400) (ActionId ''mail.label'')) = Some (ex_rule 86400)"
    by (simp add: ex_activated_eq first_row_def active_rules_def rule_of_manifest_def ex_rule_manifest_def)
  have rep: "\<forall>r\<in>set (st_rules (ex_activated 86400)). representable (sr_quota r) \<and> representable (sr_rate r)"
    by (simp add: ex_activated_eq representable_def width_nanos_def rule_of_manifest_def ex_rule_manifest_def)
  have dl: "2000 < deadline_nanos (ex_rule 86400)"
    by (simp add: deadline_nanos_def i64_wrap_def rule_of_manifest_def ex_rule_manifest_def)
  have used: "used (ex_activated 86400) i k t = 0" for i k t
    by (simp add: used_def ex_activated_eq empty_store_def)
  have terms: "sr_quota (ex_rule 86400) = \<lparr>bw_max = 1, bw_window_secs = 86400\<rparr>"
    "sr_rate (ex_rule 86400) = \<lparr>bw_max = 5, bw_window_secs = 60\<rparr>"
    by (simp_all add: rule_of_manifest_def ex_rule_manifest_def)
  have room: "has_headroom (ex_activated 86400) (ex_rule 86400) 2000"
    by (simp add: has_headroom_def used terms)
  obtain result st' where eq: "consult_standing_rule_gate ex_ext (ActionId ''mail.label'') 2000 None
      ''first'' ''p'' ''t'' (ex_activated 86400) = (result, st')" by fastforce
  have b: "(0::int) \<le> 2000" "(2000::int) < 2 ^ 63" by simp_all
  note exact = gate_admission_exact [OF ex_activated_run b rep eq]
  then obtain out where out: "result = Inr out" "go_allow out" using row dl room by blast
  with exact row have "uint (go_quota_remaining out) = 0 \<and> uint (go_rate_remaining out) = 4"
    by (auto simp: used terms)
  then show ?thesis using out by (simp add: eq)
qed

section \<open>Withdrawing a rule\<close>

definition withdrawn :: "rule_store \<Rightarrow> string \<Rightarrow> bool" where
  "withdrawn st rule_id \<longleftrightarrow>
     (\<forall>r\<in>set (st_rules st). sr_rule_id r = rule_id \<longrightarrow> sr_status r \<noteq> Active_rule) \<and>
     (\<forall>p\<in>set (st_pending st). pa_rule_id p = rule_id \<longrightarrow> pa_resolved_at p \<noteq> None)"

lemma audit_fields [simp]:
  "st_rules (record_audit k a w g st) = st_rules st" "st_pending (record_audit k a w g st) = st_pending st"
  "st_links (record_audit k a w g st) = st_links st"
  by (simp_all add: record_audit_def)

definition stale_row :: "string \<Rightarrow> u32 option \<Rightarrow> int \<Rightarrow> pending_row \<Rightarrow> pending_row" where
  "stale_row i v n p =
     (if stale_hit i v p then p\<lparr>pa_resolved_at := Some n, pa_resolution := Some Stale\<rparr> else p)"

lemma stale_fields [simp]:
  "st_pending (stale_pending_exceptions i v n st) = map (stale_row i v n) (st_pending st)"
  "st_rules (stale_pending_exceptions i v n st) = st_rules st"
  "st_links (stale_pending_exceptions i v n st) = st_links st"
  by (simp_all add: stale_pending_exceptions_def Let_def update_pending_def stale_row_def)

lemma update_rules_fields [simp]:
  "st_pending (update_rules P f st) = st_pending st" "st_links (update_rules P f st) = st_links st"
  "st_rules (update_rules P f st) = map (\<lambda>r. if P r then f r else r) (st_rules st)"
  by (simp_all add: update_rules_def)

lemma stale_row_resolved: "pa_rule_id p = i \<Longrightarrow> pa_resolved_at (stale_row i None n p) \<noteq> None"
  by (simp add: stale_row_def stale_hit_def)

lemma stale_row_rule [simp]: "pa_rule_id (stale_row i v n p) = pa_rule_id p"
  by (simp add: stale_row_def)

lemma withdrawn_after:
  assumes "\<And>r. P r \<Longrightarrow> sr_status (f r) \<noteq> Active_rule" "\<And>r. P r \<Longrightarrow> sr_rule_id (f r) = sr_rule_id r"
    and "\<And>r. sr_rule_id r = i \<Longrightarrow> sr_status r = Active_rule \<Longrightarrow> P r"
  shows "withdrawn (record_audit k a w g (stale_pending_exceptions i None n (update_rules P f st))) i"
proof -
  have "sr_status r \<noteq> Active_rule"
    if r: "r \<in> (\<lambda>r. if P r then f r else r) ` set (st_rules st)" "sr_rule_id r = i" for r
  proof -
    obtain s where "s \<in> set (st_rules st)" "r = (if P s then f s else s)" using r(1) by blast
    then show ?thesis using assms r(2) by (cases "P s") metis+
  qed
  moreover have "pa_resolved_at p \<noteq> None"
    if p: "p \<in> stale_row i None n ` set (st_pending st)" "pa_rule_id p = i" for p
  proof -
    obtain q where "p = stale_row i None n q" using p(1) by blast
    then show ?thesis using stale_row_resolved [of q i n] p(2) by simp
  qed
  ultimately show ?thesis by (simp add: withdrawn_def)
qed

lemma revoke_withdraws:
  assumes "revoke_standing_rule i now st = (Inr True, st')"
  shows "withdrawn st' i"
proof -
  have "st' = record_audit ''standing_rule.revoked'' None (Some i) None
      (stale_pending_exceptions i None now
        (update_rules (\<lambda>r. sr_rule_id r = i \<and> sr_status r \<noteq> Revoked)
          (\<lambda>r. r\<lparr>sr_status := Revoked, sr_revoked_at := Some now\<rparr>) st))"
    using assms by (simp add: revoke_standing_rule_def timestamp_to_epoch_nanos_def Let_def split: if_splits)
  then show ?thesis by (simp only:) (rule withdrawn_after; simp)
qed

lemma pause_Paused:
  assumes "pause_standing_rule i now st = (Inr Paused, st')"
  shows "st' = record_audit ''standing_rule.paused'' None (Some i) None
      (stale_pending_exceptions i None now
        (update_rules (\<lambda>r. sr_rule_id r = i \<and> sr_status r = Active_rule)
          (\<lambda>r. r\<lparr>sr_status := Paused_rule\<rparr>) st))"
proof -
  have paused: "(if c then (Inr Paused, x) else if d then (Inr AlreadyPaused, y) else (Inr Refused, z)) =
      (Inr Paused :: store_error + pause_standing_rule_outcome, st') \<longleftrightarrow> c \<and> st' = x" for c d x y z
    by auto
  show ?thesis
  proof (cases "timestamp_to_epoch_nanos now")
    case (Inl e)
    then show ?thesis using assms by (simp add: pause_standing_rule_def)
  next
    case (Inr n)
    then have n: "n = now" by (simp add: timestamp_to_epoch_nanos_def split: if_splits)
    show ?thesis
      using assms unfolding pause_standing_rule_def Let_def Inr sum.case paused n by (rule conjunct2)
  qed
qed

lemma pause_withdraws:
  assumes "pause_standing_rule i now st = (Inr Paused, st')"
  shows "withdrawn st' i"
  unfolding pause_Paused [OF assms] by (rule withdrawn_after; simp)

lemma pending_action_sel [simp]:
  "pn_pending_id (pending_action p d t r) = pa_pending_id p"
  "pn_rule_id (pending_action p d t r) = pa_rule_id p"
  by (simp_all add: pending_action_def)

lemma claim_Some:
  assumes "claim_standing_rule_dark_window t now st = (Inr (Some x), st')"
  obtains p where "p \<in> set (st_pending st)" "pa_pending_id p = pn_pending_id x"
    "pa_rule_id p = pn_rule_id x"
    "pa_resolved_at p = None \<or> pa_resolved_at p \<noteq> None \<and> pa_resolution p = Some Allowed_resolution"
proof -
  note def = claim_standing_rule_dark_window_def with_immediate_tx_def
  obtain l where l: "find (\<lambda>l. tl_timer_id l = t) (st_links st) = Some l"
    using assms by (cases "find (\<lambda>l. tl_timer_id l = t) (st_links st)") (simp_all add: def)
  have open_link: "tl_applied_at l = None" using assms l by (simp add: def split: if_splits)
  obtain p where p: "find_pending st (tl_pending_id l) = Some p"
    using assms l open_link by (cases "find_pending st (tl_pending_id l)") (simp_all add: def)
  have x: "pn_pending_id x = pa_pending_id p" "pn_rule_id x = pa_rule_id p"
    and d: "pa_resolved_at p = None \<or> pa_resolved_at p \<noteq> None \<and> pa_resolution p = Some Allowed_resolution"
    using assms l open_link p
    by (simp_all add: def nanos_defs Let_def split: if_splits option.splits) auto
  have "p \<in> set (st_pending st)" using p unfolding find_pending_def by (blast dest: find_SomeD)
  then show thesis using that x d by simp
qed

abbreviation spend_hit :: "string \<Rightarrow> pending_row \<Rightarrow> bool" where
  "spend_hit i q \<equiv> pa_pending_id q = i \<and> pa_token_consumed_at q = None \<and>
     pa_resolution q = Some Allowed_resolution \<and> pa_resolved_at q \<noteq> None"

lemma consume_Some:
  assumes "consume_fired_pending_for_context X i a g s payload scope cd now st = (Inr (Some out), st')"
  obtains p where "p \<in> set (st_pending st)"
    "token_ready st i (standing_rule_fingerprint X a g s payload) scope cd now p"
    "\<not> counterparty_erased st g" "out = (pa_rule_id p, pa_rule_version p, i)"
    "st' = record_audit ''standing_rule.dark_window_admitted'' (Some a)
       (Some (''fired dark-window default admitted for '' @ pa_rule_id p)) (Some g)
       (insert_usage (pa_rule_id p) (pa_rule_version p) now i
         (update_pending (spend_hit i)
           (\<lambda>q. q\<lparr>pa_token_consumed_at := Some now, pa_dispatch_state := Claimed\<rparr>) st))"
proof -
  have rng: "timestamp_to_epoch_nanos now = Inr now" and er: "\<not> counterparty_erased st g"
    using assms
    by (simp_all add: consume_fired_pending_for_context_def timestamp_to_epoch_nanos_def Let_def
        split: if_splits)
  show thesis
  proof (cases "find (token_ready st i (standing_rule_fingerprint X a g s payload) scope cd now) (st_pending st)")
    case None
    then show thesis using assms rng er by (simp add: consume_fired_pending_for_context_def Let_def)
  next
    case (Some p)
    have "p \<in> set (st_pending st)"
      "token_ready st i (standing_rule_fingerprint X a g s payload) scope cd now p"
      using find_SomeD [OF Some] by simp_all
    then show thesis
      using that [OF _ _ er] assms rng er Some
      by (simp add: consume_fired_pending_for_context_def Let_def split: if_splits)
  qed
qed

text \<open>
  C34. Once the owner has revoked or paused a rule, no consultation selects it, no version of it is
  current, no exception of it can be spent, and a firing timer hands out one of its exceptions
  only if that exception had been decided before.
\<close>

theorem withdrawn_rule_powerless:
  assumes "revoke_standing_rule i now st = (Inr True, st') \<or> pause_standing_rule i now st = (Inr Paused, st')"
  shows "(\<forall>a. \<forall>r\<in>set (active_rules st' a). sr_rule_id r \<noteq> i) \<and> (\<forall>v. \<not> is_current st' i v) \<and>
    (\<forall>X p a g s payload scope cd later v c.
       fst (consume_fired_pending_for_context X p a g s payload scope cd later st') \<noteq> Inr (Some (i, v, c))) \<and>
    (\<forall>t later x. fst (claim_standing_rule_dark_window t later st') = Inr (Some x) \<and> pn_rule_id x = i \<longrightarrow>
       (\<exists>p\<in>set (st_pending st'). pa_pending_id p = pn_pending_id x \<and> pa_rule_id p = i \<and>
          pa_resolution p = Some Allowed_resolution))"
proof -
  have w: "withdrawn st' i" using assms revoke_withdraws pause_withdraws by blast
  have inactive: "sr_status r \<noteq> Active_rule" if "r \<in> set (st_rules st')" "sr_rule_id r = i" for r
    using w that by (simp add: withdrawn_def)
  have resolved: "pa_resolved_at p \<noteq> None" if "p \<in> set (st_pending st')" "pa_rule_id p = i" for p
    using w that by (simp add: withdrawn_def)
  have consume: "fst (consume_fired_pending_for_context X p a g s payload scope cd later st')
      \<noteq> Inr (Some (i, v, c))" for X p a g s payload scope cd later v c
  proof
    assume "fst (consume_fired_pending_for_context X p a g s payload scope cd later st') = Inr (Some (i, v, c))"
    then have "consume_fired_pending_for_context X p a g s payload scope cd later st' =
        (Inr (Some (i, v, c)), snd (consume_fired_pending_for_context X p a g s payload scope cd later st'))"
      by (metis prod.collapse)
    then show False
    proof (rule consume_Some)
      fix q
      assume "token_ready st' p (standing_rule_fingerprint X a g s payload) scope cd later q"
        "(i, v, c) = (pa_rule_id q, pa_rule_version q, p)"
      then have "rule_live_for st' q later" "pa_rule_id q = i" by (simp_all add: token_ready_def)
      then show False using inactive unfolding rule_live_for_def by metis
    qed
  qed
  have claim: "\<exists>p\<in>set (st_pending st'). pa_pending_id p = pn_pending_id x \<and> pa_rule_id p = i \<and>
          pa_resolution p = Some Allowed_resolution"
    if "fst (claim_standing_rule_dark_window t later st') = Inr (Some x)" "pn_rule_id x = i" for t later x
  proof -
    have "claim_standing_rule_dark_window t later st' =
        (Inr (Some x), snd (claim_standing_rule_dark_window t later st'))"
      using that(1) by (metis prod.collapse)
    then show ?thesis by (rule claim_Some) (use resolved that(2) in metis)
  qed
  have "sr_rule_id r \<noteq> i" if "r \<in> set (active_rules st' a)" for r a
    using that inactive [of r] by (simp add: active_rules_def) blast
  moreover have "\<not> is_current st' i v" for v using inactive unfolding is_current_def by metis
  ultimately show ?thesis using consume claim by blast
qed

theorem withdrawn_rule_powerless_witness:
  "\<exists>st'. revoke_standing_rule ''rule'' 6000 ex_scheduled = (Inr True, st') \<and>
     (\<forall>t later x. fst (claim_standing_rule_dark_window t later st') = Inr (Some x) \<and>
        pn_rule_id x = ''rule'' \<longrightarrow>
       (\<exists>p\<in>set (st_pending st'). pa_pending_id p = pn_pending_id x \<and> pa_rule_id p = ''rule'' \<and>
          pa_resolution p = Some Allowed_resolution))"
proof -
  have "st_rules ex_scheduled = [ex_rule 86400]"
    by (simp add: ex_scheduled_def schedule_standing_rule_dark_window_def ex_rule_sel
        with_immediate_tx_def ex_consulted_eq ex_activated_eq insert_usage_def empty_store_def
        outstanding_dark_window_exceptions_def count_pending_def ensure_timer_def nanos_defs
        new_pending_def ex_ctx_def)
  then have "fst (revoke_standing_rule ''rule'' 6000 ex_scheduled) = Inr True"
    by (simp add: revoke_standing_rule_def timestamp_to_epoch_nanos_def Let_def count_rules_def
        rule_of_manifest_def ex_rule_manifest_def)
  then obtain st' where st': "revoke_standing_rule ''rule'' 6000 ex_scheduled = (Inr True, st')"
    by (metis prod.collapse)
  show ?thesis using withdrawn_rule_powerless [OF disjI1 [OF st']] st' by blast
qed

section \<open>A decided exception\<close>

text \<open>An exception opened over budget and then allowed by the owner.\<close>

definition ex_exception :: pending_row where
  "ex_exception = (new_pending ''exception'' (ex_rule 86400) \<lparr>dw_timeout_secs = 1800,
     dw_default = Deny_default, dw_max_pending_exceptions = 2\<rparr> ex_ctx 4000)
     \<lparr>pa_resolved_at := Some 6000, pa_resolution := Some Allowed_resolution\<rparr>"

definition ex_allowed :: rule_store where
  "ex_allowed = snd (resolve_pending_action ''exception'' True 6000 ex_scheduled)"

lemma ex_allowed_run:
  "run ex_ext ex_scoped_catalog [] ex_allowed
     (set (st_rules (ex_activated 86400)) \<union> set (st_rules (ex_consulted 86400)) \<union>
      set (st_rules ex_scheduled) \<union> set (st_rules ex_allowed))"
  unfolding ex_allowed_def by (rule run.step [OF ex_scheduled_run rule_step.resolve])

lemma ex_scheduled_rows:
  "st_rules ex_scheduled = [ex_rule 86400]" "st_briefcases ex_scheduled = Map.empty"
  "st_pending ex_scheduled = [new_pending ''exception'' (ex_rule 86400) \<lparr>dw_timeout_secs = 1800,
     dw_default = Deny_default, dw_max_pending_exceptions = 2\<rparr> ex_ctx 4000]"
  by (simp_all add: ex_scheduled_def schedule_standing_rule_dark_window_def ex_rule_sel
      with_immediate_tx_def ex_consulted_eq ex_activated_eq insert_usage_def empty_store_def
      outstanding_dark_window_exceptions_def count_pending_def ensure_timer_def nanos_defs
      new_pending_def record_audit_def)

lemma ex_allowed_rows:
  "st_rules ex_allowed = [ex_rule 86400]" "st_briefcases ex_allowed = Map.empty"
  "st_pending ex_allowed = [ex_exception]"
  by (simp_all add: ex_allowed_def resolve_pending_action_def timestamp_to_epoch_nanos_def Let_def
      update_pending_def record_audit_def ex_scheduled_rows ex_exception_def)
    (simp add: new_pending_def)

lemma ex_exception_ready:
  assumes "st_rules st = [ex_rule 86400]"
  shows "token_ready st ''exception''
    (standing_rule_fingerprint ex_ext (ActionId ''mail.label'') 9 ex_surface None) None None 7000 ex_exception"
  using assms
  by (simp add: token_ready_def rule_live_for_def ex_exception_def new_pending_def ex_ctx_def ex_rule_sel)
    (simp add: rule_of_manifest_def ex_rule_manifest_def)

section \<open>A pause does not recall a decided exception\<close>

text \<open>
  A pause followed by a resume leaves an exception that had been decided in favour, and not
  yet spent, exactly as spendable as before. Staling on pause reaches only undecided exceptions.
\<close>

theorem decided_exception_survives_pause:
  assumes "pause_standing_rule i now st = (Inr Paused, st1)"
    and "resume_standing_rule i (pa_rule_version p) st1 = (Inr True, st2)"
    and "p \<in> set (st_pending st)" "pa_rule_id p = i"
    and "token_ready st pending_id fingerprint scope cd later p"
  shows "p \<in> set (st_pending st2) \<and> token_ready st2 pending_id fingerprint scope cd later p"
proof -
  let ?pause = "\<lambda>r. if sr_rule_id r = i \<and> sr_status r = Active_rule then r\<lparr>sr_status := Paused_rule\<rparr> else r"
  let ?resume = "\<lambda>r. if sr_rule_id r = i \<and> sr_version r = pa_rule_version p \<and> sr_status r = Paused_rule
    then r\<lparr>sr_status := Active_rule\<rparr> else r"
  have st1: "st_rules st1 = map ?pause (st_rules st)"
    "st_pending st1 = map (stale_row i None now) (st_pending st)"
    unfolding pause_Paused [OF assms(1)] by simp_all
  have st2: "st_rules st2 = map ?resume (st_rules st1)" "st_pending st2 = st_pending st1"
    using assms(2) by (auto simp: resume_standing_rule_def Let_def split: if_splits)
  have "stale_row i None now p = p"
    using assms(5) by (simp add: stale_row_def stale_hit_def token_ready_def)
  then have mem: "p \<in> set (st_pending st2)" unfolding st2 st1 using assms(3) by (metis image_eqI list.set_map)
  have live: "rule_live_for st p later" using assms(5) by (simp add: token_ready_def)
  then obtain r where r: "r \<in> set (st_rules st)" "sr_rule_id r = pa_rule_id p"
    "sr_version r = pa_rule_version p" "sr_status r = Active_rule"
    "sr_expires_after_secs r = 0 \<or>
         later - (case sr_last_used_at r of Some t \<Rightarrow> t | None \<Rightarrow> sr_activated_at r)
           < sr_expires_after_secs r * nanos_per_sec"
    unfolding rule_live_for_def by blast
  have restored: "?resume (?pause r) = r" using r assms(4) by simp
  have "?resume (?pause r) \<in> set (st_rules st2)" unfolding st2 st1 set_map using r(1) by (intro imageI)
  then have "r \<in> set (st_rules st2)" unfolding restored .
  then have "rule_live_for st2 p later" unfolding rule_live_for_def using r(2-5) by blast
  then show ?thesis using mem assms(5) by (simp add: token_ready_def)
qed

theorem decided_exception_survives_pause_witness:
  "\<exists>st1 st2. pause_standing_rule ''rule'' 6500 ex_allowed = (Inr Paused, st1) \<and>
     resume_standing_rule ''rule'' 1 st1 = (Inr True, st2) \<and>
     token_ready st2 ''exception''
       (standing_rule_fingerprint ex_ext (ActionId ''mail.label'') 9 ex_surface None) None None 7000 ex_exception"
proof -
  have act: "sr_status (ex_rule 86400) = Active_rule" by (simp add: rule_of_manifest_def)
  obtain st1 where st1: "pause_standing_rule ''rule'' 6500 ex_allowed = (Inr Paused, st1)"
    "st_rules st1 = [(ex_rule 86400)\<lparr>sr_status := Paused_rule\<rparr>]"
    by (simp add: pause_standing_rule_def timestamp_to_epoch_nanos_def Let_def count_rules_def
        ex_allowed_rows ex_rule_sel act)
  obtain st2 where st2: "resume_standing_rule ''rule'' 1 st1 = (Inr True, st2)"
    by (simp add: resume_standing_rule_def Let_def count_rules_def st1(2) ex_rule_sel)
  have v: "pa_rule_version ex_exception = 1" "pa_rule_id ex_exception = ''rule''"
    by (simp_all add: ex_exception_def new_pending_def ex_rule_sel)
  show ?thesis
    using decided_exception_survives_pause [OF st1(1), of ex_exception, OF st2 [folded v(1)] _ v(2)
        ex_exception_ready [OF ex_allowed_rows(1)]] st1(1) st2
    by (simp add: ex_allowed_rows)
qed

end
