(* ===== verification/Fired_Tokens.thy ===== *)
theory Fired_Tokens
  imports Rule_Admission
begin

text \<open>
  The one-use token of a fired exception over the whole life of the store: spent once, and given
  back only by a re-arming, which the kernel performs when the effect was never attempted
  (\<open>src/crates/openspine-kernel/src/store/standing_rules_fired_token.rs\<close> and
  \<open>standing_rules_recovery.rs\<close>).
\<close>

section \<open>What a transaction does to the tokens\<close>

type_synonym token_mark = "string \<times> int option \<times> dispatch_state"

definition mark_of :: "pending_row \<Rightarrow> token_mark" where
  "mark_of p = (pa_pending_id p, pa_token_consumed_at p, pa_dispatch_state p)"

definition marks :: "rule_store \<Rightarrow> token_mark list" where
  "marks st = map mark_of (st_pending st)"

lemma marks_update [simp]:
  assumes "\<And>p. mark_of (f p) = mark_of p"
  shows "marks (update_pending P f st) = marks st"
  using assms by (simp add: marks_def update_pending_def)

lemma marks_other [simp]:
  "marks (record_audit k a w g st) = marks st" "marks (update_rules Q h st) = marks st"
  "marks (apply_timer t n st) = marks st" "marks (delete_reserved c st) = marks st"
  "marks (commit_reserved c i v st) = marks st" "marks (insert_usage i v n c st) = marks st"
  "marks (st\<lparr>st_timers := x, st_links := y\<rparr>) = marks st"
  "marks (st\<lparr>st_briefcases := b, st_erased := e\<rparr>) = marks st"
  by (simp_all add: marks_def record_audit_def update_rules_def apply_timer_def delete_reserved_def
      commit_reserved_def insert_usage_def)

lemma marks_stale [simp]: "marks (stale_pending_exceptions i v n st) = marks st"
  by (simp add: stale_pending_exceptions_def Let_def mark_of_def)

lemma marks_rules [simp]:
  "marks (needs_review i n st) = marks st" "marks (lapse r n st) = marks st"
  "marks (note_standing_rule_use_in_tx i n refresh st) = marks st"
  by (simp_all add: needs_review_def lapse_def note_standing_rule_use_in_tx_def Let_def split: option.split)

lemma marks_upsert [simp]: "marks (upsert_rule r st) = marks st"
  by (simp add: upsert_rule_def marks_def update_rules_def split: option.split)

lemma marks_select [simp]: "marks (snd (select_scoped X c n rs ms st)) = marks st"
  by (induction X c n rs ms st rule: select_scoped.induct) simp_all

lemma marks_sweep_loop [simp]: "marks (snd (sweep_loop catalog n rs k st)) = marks st"
  by (induction catalog n rs k st rule: sweep_loop.induct) simp_all

lemma marks_timer: "ensure_timer t k i r g f st = Inr (x, st') \<Longrightarrow> marks st' = marks st"
  by (auto simp: ensure_timer_def nanos_defs split: if_splits)

lemma marks_activate [simp]: "marks (snd (activate_standing_rule X catalog descriptors m g now st)) = marks st"
  by (simp add: activate_standing_rule_def reject_incomplete_scope_binding_def with_immediate_tx_def
      activate_standing_rule_in_tx_def nanos_defs Let_def split: option.split sum.split)

lemma marks_consult_scoped [simp]: "marks (snd (consult_and_reserve_scoped_rule X cx now c st)) = marks st"
proof -
  obtain ms st1 where sel: "select_scoped X cx now (active_rules st (cx_action_id cx)) [] st = (ms, st1)"
    by fastforce
  have "marks st1 = marks st" using marks_select by (metis sel snd_conv)
  then show ?thesis
    by (simp add: consult_and_reserve_scoped_rule_def timestamp_to_epoch_nanos_def sel reserve_scoped_def
        Let_def split: list.split)
qed

lemma marks_reserving [simp]:
  "marks (snd (active_standing_rule_for_action a now st)) = marks st"
  "marks (snd (reserve_standing_rule_budget i now c st)) = marks st"
  "marks (snd (finalize_reservation_inner i v c now refresh st)) = marks st"
  "marks (snd (note_standing_rule_use_with_lapse i now refresh st)) = marks st"
  "marks (snd (cancel_standing_rule_reservation c st)) = marks st"
  "marks (snd (consult_and_reserve_standing_rule a now c st)) = marks st"
  by (simp_all add: active_standing_rule_for_action_def reserve_standing_rule_budget_def
      finalize_reservation_inner_def note_standing_rule_use_with_lapse_def cancel_standing_rule_reservation_def
      consult_and_reserve_standing_rule_def with_immediate_tx_def nanos_defs Let_def split: option.split)

lemma marks_lifecycle [simp]:
  "marks (snd (revoke_standing_rule i now st)) = marks st"
  "marks (snd (pause_standing_rule i now st)) = marks st"
  "marks (snd (resume_standing_rule i v st)) = marks st"
  "marks (snd (sweep_ineligible_dark_window_allow_rules catalog now st)) = marks st"
  by (simp_all add: revoke_standing_rule_def pause_standing_rule_def resume_standing_rule_def
      sweep_ineligible_dark_window_allow_rules_def timestamp_to_epoch_nanos_def Let_def
      split: prod.split) (metis marks_sweep_loop snd_conv)

lemma marks_deciding [simp]:
  "marks (snd (claim_standing_rule_dark_window t now st)) = marks st"
  "marks (snd (resolve_pending_action i allow now st)) = marks st"
  "marks (snd (surface_dark_window_claimed_for_owner i now st)) = marks st"
  "marks (snd (terminate_fired_pending_refused i reason now st)) = marks st"
  "marks (snd (mark_refused_pending_owner_notified i now st)) = marks st"
  by (simp_all add: claim_standing_rule_dark_window_def resolve_pending_action_def
      surface_dark_window_claimed_for_owner_def terminate_fired_pending_refused_def
      mark_refused_pending_owner_notified_def with_immediate_tx_def nanos_defs Let_def mark_of_def
      split: option.split)

text \<open>A mark that is not re-armed stays, is spent, or has its effect recorded.\<close>

definition moves :: "token_mark \<Rightarrow> token_mark \<Rightarrow> bool" where
  "moves m m' \<longleftrightarrow> m' = m \<or> (\<exists>i n d. m = (i, None, d) \<and> m' = (i, Some n, Claimed)) \<or>
     (\<exists>i t. m = (i, t, Claimed) \<and> m' = (i, t, Dispatched))"

definition rearms :: "string \<Rightarrow> token_mark \<Rightarrow> token_mark \<Rightarrow> bool" where
  "rearms i m m' \<longleftrightarrow> m' = m \<or> (\<exists>t. m = (i, t, Claimed) \<and> m' = (i, None, NotDispatched))"

definition marks_grow :: "(token_mark \<Rightarrow> token_mark \<Rightarrow> bool) \<Rightarrow> rule_store \<Rightarrow> rule_store \<Rightarrow> bool" where
  "marks_grow R st st' \<longleftrightarrow> (\<exists>ms ns. marks st' = ms @ ns \<and> list_all2 R (marks st) ms \<and>
     (\<forall>m\<in>set ns. \<exists>i. m = (i, None, NotDispatched) \<and> i \<notin> pending_ids st))"

lemma moves_refl [simp]: "moves m m" "rearms i m m"
  by (simp_all add: moves_def rearms_def)

lemma marks_same: "marks st' = marks st \<Longrightarrow> marks_grow moves st st'"
  unfolding marks_grow_def by (rule exI [of _ "marks st"], rule exI [of _ "[]"]) (simp add: list_all2_refl)

lemma marks_updated:
  assumes "marks st' = marks (update_pending P f st)" "\<And>p. P p \<Longrightarrow> R (mark_of p) (mark_of (f p))" "\<And>m. R m m"
  shows "marks_grow R st st'"
proof -
  have "list_all2 R (marks st) (marks st')"
    unfolding assms(1) using assms(2,3)
    by (simp add: marks_def update_pending_def list_all2_map1 list_all2_map2 list_all2_same)
  then show ?thesis unfolding marks_grow_def by (intro exI [of _ "marks st'"] exI [of _ "[]"]) simp
qed

lemma marks_consume: "marks_grow moves st (snd (consume_fired_pending_for_context Y i a g s payload scope cd now st))"
proof -
  let ?st1 = "update_pending (spend_hit i) (\<lambda>q. q\<lparr>pa_token_consumed_at := Some now, pa_dispatch_state := Claimed\<rparr>) st"
  have "marks (snd (consume_fired_pending_for_context Y i a g s payload scope cd now st)) \<in> {marks st, marks ?st1}"
    by (auto simp: consume_fired_pending_for_context_def timestamp_to_epoch_nanos_def Let_def split: option.split)
  then show ?thesis
    by (auto intro: marks_same marks_updated [where P = "spend_hit i"] simp: mark_of_def moves_def)
qed

lemma marks_attempted: "marks_grow moves st (snd (mark_fired_effect_attempted i receipt st))"
proof -
  let ?st1 = "update_pending (\<lambda>p. pa_pending_id p = i \<and> pa_dispatch_state p = Claimed)
    (\<lambda>p. p\<lparr>pa_dispatch_state := Dispatched, pa_receipt_digest := Some receipt\<rparr>) st"
  have "marks (snd (mark_fired_effect_attempted i receipt st)) \<in> {marks st, marks ?st1}"
    by (auto simp: mark_fired_effect_attempted_def with_immediate_tx_def Let_def)
  then show ?thesis
    by (auto intro: marks_same marks_updated [where f = "\<lambda>p. p\<lparr>pa_dispatch_state := Dispatched, pa_receipt_digest := Some receipt\<rparr>"]
        simp: mark_of_def moves_def)
qed

lemma marks_rearm: "marks_grow (rearms i) st (snd (rearm_standing_rule_fired_pending i st))"
  by (rule marks_updated [where P = "\<lambda>p. pa_pending_id p = i \<and> pa_dispatch_state p = Claimed \<and> pa_owner_attention_since p = None"
        and f = "\<lambda>p. p\<lparr>pa_token_consumed_at := None, pa_dispatch_state := NotDispatched, pa_receipt_digest := None,
          pa_owner_attention_since := None\<rparr>"])
    (auto simp: rearm_standing_rule_fired_pending_def Let_def mark_of_def rearms_def)

lemma marks_schedule:
  assumes "pending_id \<notin> pending_ids st"
  shows "marks_grow moves st (snd (schedule_standing_rule_dark_window r c f now pending_id t st))"
proof -
  let ?st' = "snd (schedule_standing_rule_dark_window r c f now pending_id t st)"
  have "marks ?st' = marks st \<or> marks ?st' = marks st @ [(pending_id, None, NotDispatched)]"
    by (auto simp: schedule_standing_rule_dark_window_def with_immediate_tx_def nanos_defs Let_def
        split: option.split sum.split dest!: marks_timer)
      (simp_all add: marks_def mark_of_def new_pending_def)
  then show ?thesis
  proof
    assume "marks ?st' = marks st @ [(pending_id, None, NotDispatched)]"
    then show ?thesis
      unfolding marks_grow_def using assms
      by (intro exI [of _ "marks st"] exI [of _ "[(pending_id, None, NotDispatched)]"]) (simp add: list_all2_refl)
  qed (rule marks_same)
qed

lemma rule_step_marks:
  assumes "rule_step X catalog descriptors seen st st'"
  shows "marks_grow moves st st' \<or> (\<exists>i. st' = snd (rearm_standing_rule_fired_pending i st))"
  using assms
  by (cases rule: rule_step.cases)
    (auto intro: marks_same marks_consume marks_attempted marks_schedule)

section \<open>Spent tokens and recorded effects\<close>

definition all_marks :: "(int option \<Rightarrow> dispatch_state \<Rightarrow> bool) \<Rightarrow> string \<Rightarrow> rule_store \<Rightarrow> bool" where
  "all_marks Q i st \<longleftrightarrow> i \<in> pending_ids st \<and> (\<forall>t d. (i, t, d) \<in> set (marks st) \<longrightarrow> Q t d)"

abbreviation token_spent :: "string \<Rightarrow> rule_store \<Rightarrow> bool" where
  "token_spent \<equiv> all_marks (\<lambda>t d. t \<noteq> None)"

abbreviation effect_recorded :: "string \<Rightarrow> rule_store \<Rightarrow> bool" where
  "effect_recorded \<equiv> all_marks (\<lambda>t d. t \<noteq> None \<and> d = Dispatched)"

lemma pending_ids_marks: "pending_ids st = fst ` set (marks st)"
  by (simp add: pending_ids_def marks_def mark_of_def image_image)

lemma list_all2_source: "list_all2 R xs ys \<Longrightarrow> y \<in> set ys \<Longrightarrow> \<exists>x\<in>set xs. R x y"
  by (induction rule: list_all2_induct) auto

lemma all_marks_grow:
  assumes "marks_grow R st st'" "all_marks Q i st"
    and "\<And>t d m'. R (i, t, d) m' \<Longrightarrow> Q t d \<Longrightarrow> \<exists>t' d'. m' = (i, t', d') \<and> Q t' d'"
    and "\<And>m m'. R m m' \<Longrightarrow> fst m' = fst m"
  shows "all_marks Q i st'"
proof -
  obtain ms ns where g: "marks st' = ms @ ns" "list_all2 R (marks st) ms"
    "\<forall>m\<in>set ns. \<exists>j. m = (j, None, NotDispatched) \<and> j \<notin> pending_ids st"
    using assms(1) unfolding marks_grow_def by blast
  have "map fst ms = map fst (marks st)"
    using g(2) by (induction rule: list_all2_induct) (simp_all add: assms(4))
  then have "fst ` set ms = pending_ids st" unfolding pending_ids_marks by (metis list.set_map)
  then have i: "i \<in> fst ` set ms" "\<forall>m\<in>set ns. fst m \<noteq> i" using assms(2) g(3) by (auto simp: all_marks_def)
  have "Q t d" if mem: "(i, t, d) \<in> set ms" for t d
  proof -
    obtain m where m: "m \<in> set (marks st)" "R m (i, t, d)"
      using list_all2_source [OF g(2) mem] by blast
    obtain t' d' where "m = (i, t', d')" using assms(4) [OF m(2)] by (metis fst_conv prod.collapse)
    then show ?thesis using m assms(2,3) unfolding all_marks_def by blast
  qed
  with i show ?thesis by (auto simp: all_marks_def pending_ids_marks g(1) image_Un)
qed

lemma spent_step:
  assumes "rule_step X catalog descriptors seen st st'" "token_spent i st"
    and "st' = snd (rearm_standing_rule_fired_pending i st) \<Longrightarrow> st' = st"
  shows "token_spent i st'"
  using rule_step_marks [OF assms(1)]
proof
  assume "marks_grow moves st st'"
  then show ?thesis by (rule all_marks_grow [OF _ assms(2)]) (auto simp: moves_def)
next
  assume "\<exists>j. st' = snd (rearm_standing_rule_fired_pending j st)"
  then obtain j where j: "st' = snd (rearm_standing_rule_fired_pending j st)" by blast
  show ?thesis
  proof (cases "j = i")
    case False
    show ?thesis by (rule all_marks_grow [OF marks_rearm [of j st, folded j] assms(2)]) (use False in \<open>auto simp: rearms_def\<close>)
  qed (use assms(2,3) j in simp)
qed

lemma recorded_step:
  assumes "rule_step X catalog descriptors seen st st'" "effect_recorded i st"
  shows "effect_recorded i st'"
  using rule_step_marks [OF assms(1)]
proof
  assume "marks_grow moves st st'"
  then show ?thesis by (rule all_marks_grow [OF _ assms(2)]) (auto simp: moves_def)
next
  assume "\<exists>j. st' = snd (rearm_standing_rule_fired_pending j st)"
  then obtain j where j: "st' = snd (rearm_standing_rule_fired_pending j st)" by blast
  show ?thesis by (rule all_marks_grow [OF marks_rearm [of j st, folded j] assms(2)]) (auto simp: rearms_def)
qed

lemma spent_powerless:
  assumes "token_spent i st"
  shows "fst (consume_fired_pending_for_context X i a g s payload scope cd now st) \<noteq> Inr (Some out)"
proof
  assume "fst (consume_fired_pending_for_context X i a g s payload scope cd now st) = Inr (Some out)"
  then have "consume_fired_pending_for_context X i a g s payload scope cd now st =
      (Inr (Some out), snd (consume_fired_pending_for_context X i a g s payload scope cd now st))"
    by (metis prod.collapse)
  then show False
  proof (rule consume_Some)
    fix p
    assume p: "p \<in> set (st_pending st)" "token_ready st i (standing_rule_fingerprint X a g s payload) scope cd now p"
    then have "(i, None, pa_dispatch_state p) \<in> set (marks st)"
      by (force simp: marks_def mark_of_def token_ready_def)
    with assms show False unfolding all_marks_def by blast
  qed
qed

text \<open>A token that is claimed or dispatched has been spent.\<close>

definition claims_spent :: "rule_store \<Rightarrow> bool" where
  "claims_spent st \<longleftrightarrow> (\<forall>i t d. (i, t, d) \<in> set (marks st) \<longrightarrow> d \<noteq> NotDispatched \<longrightarrow> t \<noteq> None)"

lemma claims_grow:
  assumes "marks_grow R st st'" "claims_spent st"
    and "\<And>i t d i' t' d'. R (i, t, d) (i', t', d') \<Longrightarrow> (d \<noteq> NotDispatched \<longrightarrow> t \<noteq> None) \<Longrightarrow> d' \<noteq> NotDispatched \<longrightarrow> t' \<noteq> None"
  shows "claims_spent st'"
proof -
  obtain ms ns where g: "marks st' = ms @ ns" "list_all2 R (marks st) ms"
    "\<forall>m\<in>set ns. \<exists>j. m = (j, None, NotDispatched) \<and> j \<notin> pending_ids st"
    using assms(1) unfolding marks_grow_def by blast
  have "d \<noteq> NotDispatched \<longrightarrow> t \<noteq> None" if mem: "(i, t, d) \<in> set ms" for i t d
  proof -
    obtain m where m: "m \<in> set (marks st)" "R m (i, t, d)"
      using list_all2_source [OF g(2) mem] by blast
    obtain j u e where "m = (j, u, e)" by (cases m)
    then show ?thesis using assms(3) [of j u e i t d] m assms(2) unfolding claims_spent_def by blast
  qed
  then show ?thesis using g(1,3) unfolding claims_spent_def by auto
qed

lemma run_claims_spent: "run X catalog descriptors st seen \<Longrightarrow> claims_spent st"
proof (induction rule: run.induct)
  case start
  show ?case by (simp add: claims_spent_def marks_def empty_store_def)
next
  case (step st seen st')
  from rule_step_marks [OF step.hyps(2)] show ?case
  proof
    assume "marks_grow moves st st'"
    then show ?thesis by (rule claims_grow [OF _ step.IH]) (auto simp: moves_def)
  next
    assume "\<exists>i. st' = snd (rearm_standing_rule_fired_pending i st)"
    then obtain j where j: "st' = snd (rearm_standing_rule_fired_pending j st)" by blast
    show ?thesis by (rule claims_grow [OF marks_rearm [of j st, folded j] step.IH]) (auto simp: rearms_def)
  qed
qed

text \<open>Spending a token, and recording its effect.\<close>

lemma distinct_map_eq: "distinct (map f xs) \<Longrightarrow> x \<in> set xs \<Longrightarrow> y \<in> set xs \<Longrightarrow> f x = f y \<Longrightarrow> x = y"
  by (metis distinct_map inj_onD)

lemma updated_ids:
  assumes "\<And>q. pa_pending_id (f q) = pa_pending_id q"
  shows "fst ` set (marks (update_pending P f st)) = pending_ids st"
  using assms unfolding pending_ids_def marks_def update_pending_def
  by (auto simp: image_image mark_of_def intro!: image_cong)

lemma updated_mark:
  assumes "distinct (map pa_pending_id (st_pending st))" "p \<in> set (st_pending st)" "P p" "pa_pending_id p = i"
    and "\<And>q. pa_pending_id (f q) = pa_pending_id q" "(i, t, s) \<in> set (marks (update_pending P f st))"
  shows "(i, t, s) = mark_of (f p)"
proof -
  obtain r where r: "r \<in> set (st_pending st)" "(i, t, s) = mark_of (if P r then f r else r)"
    using assms(6) by (auto simp: marks_def update_pending_def)
  have "pa_pending_id r = i" using r(2) assms(5) [of r] by (cases "P r") (simp_all add: mark_of_def)
  then have "r = p" using distinct_map_eq [OF assms(1) r(1) assms(2)] assms(4) by simp
  with r(2) assms(3) show ?thesis by simp
qed

lemma spending_marks:
  assumes "run Z catalog descriptors st seen" "p \<in> set (st_pending st)" "spend_hit i p"
    and "marks st' = marks (update_pending (spend_hit i)
      (\<lambda>q. q\<lparr>pa_token_consumed_at := Some n, pa_dispatch_state := Claimed\<rparr>) st)"
  shows "token_spent i st'"
proof -
  have d: "distinct (map pa_pending_id (st_pending st))"
    using run_pending_inv [OF assms(1)] by (simp add: pending_inv_def)
  have "t \<noteq> None" if mem: "(i, t, s) \<in> set (marks st')" for t s
  proof -
    have "(i, t, s) = mark_of (p\<lparr>pa_token_consumed_at := Some n, pa_dispatch_state := Claimed\<rparr>)"
      by (rule updated_mark [OF d assms(2,3) _ _ mem [unfolded assms(4)]]) (use assms(3) in simp_all)
    then show ?thesis by (simp add: mark_of_def)
  qed
  moreover have "pending_ids st' = pending_ids st"
    unfolding pending_ids_marks [of st'] assms(4) by (rule updated_ids) simp
  then have "i \<in> pending_ids st'" using assms(2,3) by (auto simp: pending_ids_def)
  ultimately show ?thesis unfolding all_marks_def by blast
qed

lemma attempt_recorded:
  assumes "run X catalog descriptors st seen" "mark_fired_effect_attempted i receipt st = (Inr (), st')"
  shows "effect_recorded i st'"
proof -
  let ?hit = "\<lambda>p. pa_pending_id p = i \<and> pa_dispatch_state p = Claimed"
  let ?st1 = "update_pending ?hit (\<lambda>p. p\<lparr>pa_dispatch_state := Dispatched, pa_receipt_digest := Some receipt\<rparr>) st"
  have one: "count_pending ?hit st = 1" and m: "marks st' = marks ?st1"
    using assms(2) by (auto simp: mark_fired_effect_attempted_def with_immediate_tx_def Let_def split: if_splits)
  have "filter ?hit (st_pending st) \<noteq> []" using one by (auto simp: count_pending_def)
  then obtain p where p: "p \<in> set (st_pending st)" "?hit p" by (auto simp: filter_empty_conv)
  have d: "distinct (map pa_pending_id (st_pending st))"
    using run_pending_inv [OF assms(1)] by (simp add: pending_inv_def)
  have "mark_of p \<in> set (marks st)" using p(1) by (simp add: marks_def)
  then have tok: "pa_token_consumed_at p \<noteq> None"
    using run_claims_spent [OF assms(1)] p(2) by (force simp: claims_spent_def mark_of_def)
  have "t \<noteq> None \<and> s = Dispatched" if mem: "(i, t, s) \<in> set (marks st')" for t s
  proof -
    have "(i, t, s) = mark_of (p\<lparr>pa_dispatch_state := Dispatched, pa_receipt_digest := Some receipt\<rparr>)"
      by (rule updated_mark [OF d p _ _ mem [unfolded m]]) (use p(2) in simp_all)
    then show ?thesis using tok by (simp add: mark_of_def)
  qed
  moreover have "pending_ids st' = pending_ids st"
    unfolding pending_ids_marks [of st'] m by (rule updated_ids) simp
  then have "i \<in> pending_ids st'" using p by (auto simp: pending_ids_def)
  ultimately show ?thesis unfolding all_marks_def by blast
qed

lemma recorded_inert:
  assumes "effect_recorded i st"
  shows "token_spent i st" "rearm_standing_rule_fired_pending i st =
      (Inl (FailureRouting (''fired pending '' @ i @ '' was not rearmable before effect'')), st)"
    "fst (mark_fired_effect_attempted i receipt st) \<noteq> Inr ()"
proof -
  show "token_spent i st" using assms unfolding all_marks_def by blast
  have none: "pa_dispatch_state p \<noteq> Claimed" if "p \<in> set (st_pending st)" "pa_pending_id p = i" for p
  proof -
    have "(i, pa_token_consumed_at p, pa_dispatch_state p) \<in> set (marks st)"
      using that by (force simp: marks_def mark_of_def)
    then have "pa_dispatch_state p = Dispatched" using assms unfolding all_marks_def by blast
    then show ?thesis by simp
  qed
  then have e: "count_pending (\<lambda>p. pa_pending_id p = i \<and> pa_dispatch_state p = Claimed \<and> Q p) st = 0"
    "update_pending (\<lambda>p. pa_pending_id p = i \<and> pa_dispatch_state p = Claimed \<and> Q p) f st = st" for Q f
    by (auto simp: count_pending_def filter_empty_conv update_pending_def intro!: rule_store.equality map_idI)
  then show "rearm_standing_rule_fired_pending i st =
      (Inl (FailureRouting (''fired pending '' @ i @ '' was not rearmable before effect'')), st)"
    by (simp add: rearm_standing_rule_fired_pending_def Let_def)
  show "fst (mark_fired_effect_attempted i receipt st) \<noteq> Inr ()"
    using e(1) [of "\<lambda>p. True"] by (simp add: mark_fired_effect_attempted_def with_immediate_tx_def)
qed

text \<open>Transactions none of which re-arms the exception \<open>i\<close>.\<close>

definition unrearmed_step ::
  "ext \<Rightarrow> action_catalog \<Rightarrow> action_descriptor list \<Rightarrow> string \<Rightarrow> rule_store \<times> rule_row set \<Rightarrow> rule_store \<times> rule_row set \<Rightarrow> bool" where
  "unrearmed_step X catalog descriptors i s s' \<longleftrightarrow> budget_step X catalog descriptors s s' \<and>
     (fst s' = snd (rearm_standing_rule_fired_pending i (fst s)) \<longrightarrow> fst s' = fst s)"

lemma spent_steps:
  "(unrearmed_step X catalog descriptors i)\<^sup>*\<^sup>* s s' \<Longrightarrow> token_spent i (fst s) \<Longrightarrow> token_spent i (fst s')"
  by (induction rule: rtranclp_induct)
    (auto simp: unrearmed_step_def budget_step_def simp del: not_None_eq intro: spent_step)

lemma recorded_steps:
  "(budget_step X catalog descriptors)\<^sup>*\<^sup>* s s' \<Longrightarrow> effect_recorded i (fst s) \<Longrightarrow> effect_recorded i (fst s')"
  by (induction rule: rtranclp_induct) (auto simp: budget_step_def simp del: not_None_eq intro: recorded_step)

section \<open>Properties\<close>

text \<open>
  C30. A fired exception's token is worth one admission: it is spent only for the request,
  reviewed scope and epoch it was opened for, after the exception was decided in favour, under a
  rule version that is still live and with a counterparty that is not erased. Spending it charges
  that version one quota and one rate unit under the exception's id. After any further
  transactions, other than a re-arming of this exception, no attempt to spend it again succeeds,
  whatever its arguments.
\<close>

theorem fired_token_spent_once:
  assumes "run Z catalog descriptors st seen"
    and "consume_fired_pending_for_context X i a g s payload scope cd now st = (Inr (Some (r, v, c)), st')"
  shows "(\<exists>p\<in>set (st_pending st). pa_pending_id p = i \<and> pa_rule_id p = r \<and> pa_rule_version p = v \<and>
      pa_resolution p = Some Allowed_resolution \<and> pa_token_consumed_at p = None \<and>
      pa_request_fingerprint p = standing_rule_fingerprint X a g s payload \<and>
      pa_reviewed_scope_digest p = scope \<and> pa_compatibility_digest p = cd \<and> rule_live_for st p now) \<and>
    \<not> counterparty_erased st g \<and> c = i \<and>
    charges st' = add_mset (r, v, Rate, now, i) (add_mset (r, v, Quota, now, i) (charges st)) \<and>
    (\<forall>seen' st2 seen2. (unrearmed_step Z catalog descriptors i)\<^sup>*\<^sup>* (st', seen') (st2, seen2) \<longrightarrow>
      (\<forall>Y b h u w scope' cd' later out.
         fst (consume_fired_pending_for_context Y i b h u w scope' cd' later st2) \<noteq> Inr (Some out)))"
  using assms(2)
proof (rule consume_Some)
  fix p
  let ?st1 = "update_pending (spend_hit i)
    (\<lambda>q. q\<lparr>pa_token_consumed_at := Some now, pa_dispatch_state := Claimed\<rparr>) st"
  assume p: "p \<in> set (st_pending st)"
    and ready: "token_ready st i (standing_rule_fingerprint X a g s payload) scope cd now p"
    and er: "\<not> counterparty_erased st g" and out: "(r, v, c) = (pa_rule_id p, pa_rule_version p, i)"
    and st': "st' = record_audit ''standing_rule.dark_window_admitted'' (Some a)
       (Some (''fired dark-window default admitted for '' @ pa_rule_id p)) (Some g)
       (insert_usage (pa_rule_id p) (pa_rule_version p) now i ?st1)"
  have "token_spent i st'"
    by (rule spending_marks [OF assms(1) p]) (use ready in \<open>simp_all add: st' token_ready_def\<close>)
  then have "fst (consume_fired_pending_for_context Y i b h u w scope' cd' later st2) \<noteq> Inr (Some out)"
    if "(unrearmed_step Z catalog descriptors i)\<^sup>*\<^sup>* (st', seen') (st2, seen2)"
    for seen' st2 seen2 Y b h u w scope' cd' later out
    using spent_steps [OF that] by (intro spent_powerless) simp
  moreover have "charges st' = add_mset (r, v, Rate, now, i) (add_mset (r, v, Quota, now, i) (charges st))"
    using out by (simp add: st') (simp add: update_pending_def)
  moreover have "\<exists>p\<in>set (st_pending st). pa_pending_id p = i \<and> pa_rule_id p = r \<and> pa_rule_version p = v \<and>
      pa_resolution p = Some Allowed_resolution \<and> pa_token_consumed_at p = None \<and>
      pa_request_fingerprint p = standing_rule_fingerprint X a g s payload \<and>
      pa_reviewed_scope_digest p = scope \<and> pa_compatibility_digest p = cd \<and> rule_live_for st p now"
    using p ready out by (intro bexI [OF _ p]) (simp add: token_ready_def)
  ultimately show ?thesis using er out by blast
qed

text \<open>
  C40. An attempted effect is final. Once the store has recorded that the effect of a fired
  exception was attempted, then after any further transactions, re-armings included, its token
  cannot be spent, the exception cannot be re-armed, and no second attempt can be recorded.
\<close>

theorem attempted_effect_final:
  assumes "run X catalog descriptors st seen" "mark_fired_effect_attempted i receipt st = (Inr (), st')"
    and "(budget_step X catalog descriptors)\<^sup>*\<^sup>* (st', seen') (st2, seen2)"
  shows "fst (consume_fired_pending_for_context Y i a g s payload scope cd now st2) \<noteq> Inr (Some out) \<and>
    rearm_standing_rule_fired_pending i st2 =
      (Inl (FailureRouting (''fired pending '' @ i @ '' was not rearmable before effect'')), st2) \<and>
    fst (mark_fired_effect_attempted i receipt' st2) \<noteq> Inr ()"
proof -
  have "effect_recorded i st2" using recorded_steps [OF assms(3)] attempt_recorded [OF assms(1,2)] by simp
  from recorded_inert [OF this] spent_powerless show ?thesis by blast
qed

section \<open>Witnesses\<close>

text \<open>The exception spent, and then surfaced to the owner as unconfirmed.\<close>

definition ex_spent :: rule_store where
  "ex_spent = snd (consume_fired_pending_for_context ex_ext ''exception'' (ActionId ''mail.label'') 9 ex_surface
     None None None 7000 ex_allowed)"

lemma ex_spent_eq:
  "consume_fired_pending_for_context ex_ext ''exception'' (ActionId ''mail.label'') 9 ex_surface None None None 7000
     ex_allowed = (Inr (Some (''rule'', 1, ''exception'')), ex_spent)"
  "st_pending ex_spent = [ex_exception\<lparr>pa_token_consumed_at := Some 7000, pa_dispatch_state := Claimed\<rparr>]"
proof -
  have hit: "spend_hit ''exception'' ex_exception" by (simp add: ex_exception_def new_pending_def)
  have id: "pa_rule_id ex_exception = ''rule''" "pa_rule_version ex_exception = 1"
    by (simp_all add: ex_exception_def new_pending_def ex_rule_sel)
  note spend = consume_fired_pending_for_context_def timestamp_to_epoch_nanos_def Let_def counterparty_erased_def
    count_pending_def ex_allowed_rows id
  show "consume_fired_pending_for_context ex_ext ''exception'' (ActionId ''mail.label'') 9 ex_surface None None None
      7000 ex_allowed = (Inr (Some (''rule'', 1, ''exception'')), ex_spent)"
    unfolding ex_spent_def using hit ex_exception_ready [OF ex_allowed_rows(1)] by (simp add: spend)
  show "st_pending ex_spent = [ex_exception\<lparr>pa_token_consumed_at := Some 7000, pa_dispatch_state := Claimed\<rparr>]"
    unfolding ex_spent_def using hit ex_exception_ready [OF ex_allowed_rows(1)]
    by (simp add: spend update_pending_def record_audit_def insert_usage_def)
qed

lemma ex_spent_run: "\<exists>seen. run ex_ext ex_scoped_catalog [] ex_spent seen"
  unfolding ex_spent_def by (blast intro: run.step [OF ex_allowed_run rule_step.consume])

theorem fired_token_spent_once_witness:
  "\<exists>st2. surface_dark_window_claimed_for_owner ''exception'' 8000 ex_spent = (Inr (), st2) \<and>
     map pa_owner_attention_since (st_pending st2) = [Some 8000] \<and>
     fst (consume_fired_pending_for_context ex_ext ''exception'' (ActionId ''mail.label'') 9 ex_surface
       None None None 9000 st2) \<noteq> Inr (Some (''rule'', 1, ''exception''))"
proof -
  let ?st2 = "snd (surface_dark_window_claimed_for_owner ''exception'' 8000 ex_spent)"
  have s: "pa_owner_attention_since ex_exception = None" "pa_pending_id ex_exception = ''exception''"
    by (simp_all add: ex_exception_def new_pending_def)
  have rows: "fst (surface_dark_window_claimed_for_owner ''exception'' 8000 ex_spent) = Inr ()"
    "map pa_owner_attention_since (st_pending ?st2) = [Some 8000]" "st_audit ?st2 \<noteq> st_audit ex_spent"
    by (simp_all add: surface_dark_window_claimed_for_owner_def timestamp_to_epoch_nanos_def Let_def
        count_pending_def update_pending_def record_audit_def ex_spent_eq(2) s)
  have a: "st_audit (snd (rearm_standing_rule_fired_pending ''exception'' ex_spent)) = st_audit ex_spent"
    by (simp add: rearm_standing_rule_fired_pending_def Let_def update_pending_def)
  obtain seen where "run ex_ext ex_scoped_catalog [] ex_spent seen" using ex_spent_run by blast
  then have "unrearmed_step ex_ext ex_scoped_catalog [] ''exception'' (ex_spent, seen)
      (?st2, seen \<union> set (st_rules ?st2))"
    using rule_step.surface rows(3) a unfolding unrearmed_step_def budget_step_def by (metis fst_conv snd_conv)
  then have "(unrearmed_step ex_ext ex_scoped_catalog [] ''exception'')\<^sup>*\<^sup>* (ex_spent, seen)
      (?st2, seen \<union> set (st_rules ?st2))" by (rule r_into_rtranclp)
  with fired_token_spent_once [OF ex_allowed_run ex_spent_eq(1)]
  have "fst (consume_fired_pending_for_context ex_ext ''exception'' (ActionId ''mail.label'') 9 ex_surface
       None None None 9000 ?st2) \<noteq> Inr (Some (''rule'', 1, ''exception''))" by blast
  with rows(1,2) show ?thesis by (metis prod.collapse)
qed

theorem attempted_effect_final_witness:
  "\<exists>st3. mark_fired_effect_attempted ''exception'' ''receipt'' ex_spent = (Inr (), st3) \<and>
     fst (rearm_standing_rule_fired_pending ''exception'' ex_spent) = Inr () \<and>
     (let st4 = snd (pause_standing_rule ''rule'' 8000 st3) in
      snd (rearm_standing_rule_fired_pending ''exception'' st4) = st4 \<and>
      fst (consume_fired_pending_for_context ex_ext ''exception'' (ActionId ''mail.label'') 9 ex_surface
        None None None 9000 st4) \<noteq> Inr (Some (''rule'', 1, ''exception'')))"
proof -
  let ?st3 = "snd (mark_fired_effect_attempted ''exception'' ''receipt'' ex_spent)"
  let ?st4 = "snd (pause_standing_rule ''rule'' 8000 ?st3)"
  have s: "pa_owner_attention_since ex_exception = None" "pa_pending_id ex_exception = ''exception''"
    by (simp_all add: ex_exception_def new_pending_def)
  have m: "mark_fired_effect_attempted ''exception'' ''receipt'' ex_spent = (Inr (), ?st3)"
    by (simp add: mark_fired_effect_attempted_def with_immediate_tx_def Let_def count_pending_def ex_spent_eq(2) s)
  have r: "fst (rearm_standing_rule_fired_pending ''exception'' ex_spent) = Inr ()"
    by (simp add: rearm_standing_rule_fired_pending_def Let_def count_pending_def ex_spent_eq(2) s)
  obtain seen where run: "run ex_ext ex_scoped_catalog [] ex_spent seen" using ex_spent_run by blast
  then have "run ex_ext ex_scoped_catalog [] ?st3 (seen \<union> set (st_rules ?st3))"
    by (rule run.step) (rule rule_step.attempted)
  then have "budget_step ex_ext ex_scoped_catalog [] (?st3, seen \<union> set (st_rules ?st3))
      (?st4, seen \<union> set (st_rules ?st3) \<union> set (st_rules ?st4))"
    unfolding budget_step_def using rule_step.pause by simp
  from attempted_effect_final [OF run m r_into_rtranclp [where r = "budget_step ex_ext ex_scoped_catalog []", OF this]]
  have "snd (rearm_standing_rule_fired_pending ''exception'' ?st4) = ?st4 \<and>
      fst (consume_fired_pending_for_context ex_ext ''exception'' (ActionId ''mail.label'') 9 ex_surface
        None None None 9000 ?st4) \<noteq> Inr (Some (''rule'', 1, ''exception''))" by (metis snd_conv)
  with m r show ?thesis unfolding Let_def by blast
qed

end
