(* ===== verification/Audit_Ledger.thy ===== *)
theory Audit_Ledger
  imports Gate
begin

text \<open>
  The audit ledger: a hash-chained, append-only table that is also the kernel's event bus
  (\<open>src/crates/openspine-schemas/src/audit.rs\<close>, \<open>event_bus.rs\<close>,
  \<open>src/crates/openspine-kernel/src/store/audit_append.rs\<close>, \<open>audit_support.rs\<close>,
  \<open>event_bus.rs\<close> and \<open>event_bus_scan.rs\<close>).

  A row keeps the text columns the hash runs over. The column \<open>event_json\<close>, a redundant cache,
  is kept as the event that serde decodes from it (\<open>None\<close> when it does not decode), and the
  column \<open>ts\<close> as the timestamp it parses to. \<open>json_parse\<close> is \<open>serde_json::from_str\<close> into a
  \<open>Value\<close>; \<open>wf_serde\<close> states its round trip on the values the ledger writes.
\<close>

section \<open>Events\<close>

datatype audit_kind = AuditKind (kind_str: string)

datatype audit_kind_error = EmptyKind

definition audit_kind_new :: "string \<Rightarrow> audit_kind_error + audit_kind" where
  "audit_kind_new s = (if s = [] then Inl EmptyKind else Inr (AuditKind s))"

definition default_aggregate_id :: string where
  "default_aggregate_id = ''system''"

record audit_event =
  ae_id :: ulid
  ae_schema_version :: u32
  ae_ts :: timestamp
  ae_kind :: audit_kind
  ae_action :: "action_id option"
  ae_decision :: "gate_decision option"
  ae_reason :: "string option"
  ae_task_grant_id :: "ulid option"
  ae_target_refs :: "artifact_ref list"
  ae_payload_refs :: "artifact_ref list"
  ae_aggregate_id :: string
  ae_aggregate_seq :: u64
  ae_payload_json :: "string option"
  ae_actor :: "principal_id option"
  ae_prev_hash :: digest
  ae_hash :: digest

section \<open>The JSON of an event\<close>

fun denial_name :: "denial_reason \<Rightarrow> string" where
  "denial_name NotGranted = ''not_granted''"
| "denial_name ExplicitDeny = ''explicit_deny''"
| "denial_name GrantExpired = ''grant_expired''"
| "denial_name ApprovalMissing = ''approval_missing''"
| "denial_name ApprovalDigestMismatch = ''approval_digest_mismatch''"
| "denial_name ApprovalExpired = ''approval_expired''"
| "denial_name SelectionTokenInvalid = ''selection_token_invalid''"
| "denial_name KernelOriginNotTrusted = ''kernel_origin_not_trusted''"
| "denial_name ChannelBindingViolation = ''channel_binding_violation''"
| "denial_name LimitExceeded = ''limit_exceeded''"
| "denial_name UnknownAction = ''unknown_action''"
| "denial_name CaveatWidening = ''caveat_widening''"
| "denial_name EgressClassNotGranted = ''egress_class_not_granted''"
| "denial_name OutputChannelNotGranted = ''output_channel_not_granted''"

fun decision_json :: "gate_decision \<Rightarrow> json" where
  "decision_json Allow = JObject [(''outcome'', JString ''allow'')]"
| "decision_json (Deny r) =
     JObject [(''outcome'', JString ''deny''), (''reason'', JString (denial_name r))]"
| "decision_json (ApprovalRequired ty) =
     JObject [(''outcome'', JString ''approval_required''), (''approval_type'', JString ty)]"
| "decision_json EffectSuppressed = JObject [(''outcome'', JString ''effect_suppressed'')]"

definition artifact_ref_json :: "artifact_ref \<Rightarrow> json" where
  "artifact_ref_json r = JObject
     [(''digest'', JString (digest_str (ar_digest r))), (''schema_version'', jnum (ar_schema_version r))]"

text \<open>The metadata object of a row, which the hash runs over.\<close>

definition meta_fields :: "ext \<Rightarrow> audit_event \<Rightarrow> (string \<times> json) list" where
  "meta_fields X e =
     [(''id'', JString (ulid_text X (ae_id e))), (''ts'', JString (ts_text X (ae_ts e))),
      (''kind'', JString (kind_str (ae_kind e))),
      (''action'', jopt (\<lambda>a. JString (as_str a)) (ae_action e)),
      (''decision'', jopt decision_json (ae_decision e)), (''reason'', jopt JString (ae_reason e)),
      (''task_grant_id'', jopt (\<lambda>u. JString (ulid_text X u)) (ae_task_grant_id e)),
      (''target_refs'', JArray (map artifact_ref_json (ae_target_refs e))),
      (''payload_refs'', JArray (map artifact_ref_json (ae_payload_refs e))),
      (''aggregate_id'', JString (ae_aggregate_id e)),
      (''aggregate_seq'', JNumber (PosInt (ae_aggregate_seq e))),
      (''payload_json'', jopt JString (ae_payload_json e)),
      (''actor'', jopt (\<lambda>a. JString (ulid_text X (principal_ulid a))) (ae_actor e))]"

definition event_value :: "ext \<Rightarrow> audit_event \<Rightarrow> json" where
  "event_value X e = JObject (meta_fields X e @
     [(''schema_version'', jnum (ae_schema_version e)),
      (''prev_hash'', JString (digest_str (ae_prev_hash e))),
      (''hash'', JString (digest_str (ae_hash e)))])"

text \<open>\<open>Value::get\<close>, \<open>as_str\<close>, \<open>as_u64\<close> and \<open>as_i64\<close>.\<close>

fun json_get :: "string \<Rightarrow> json \<Rightarrow> json option" where
  "json_get k (JObject kvs) = map_of kvs k"
| "json_get k _ = None"

fun json_as_str :: "json \<Rightarrow> string option" where
  "json_as_str (JString s) = Some s"
| "json_as_str _ = None"

fun json_as_u64 :: "json \<Rightarrow> u64 option" where
  "json_as_u64 (JNumber (PosInt n)) = Some n"
| "json_as_u64 _ = None"

fun json_as_i64 :: "json \<Rightarrow> int option" where
  "json_as_i64 (JNumber (PosInt n)) = (if uint n < 2 ^ 63 then Some (uint n) else None)"
| "json_as_i64 (JNumber (NegInt n)) = Some (- uint n)"
| "json_as_i64 _ = None"

definition meta_text :: "json \<Rightarrow> string \<Rightarrow> string \<Rightarrow> string" where
  "meta_text meta field dflt =
     (case Option.bind (json_get field meta) json_as_str of Some s \<Rightarrow> s | None \<Rightarrow> dflt)"

definition meta_seq :: "json \<Rightarrow> int" where
  "meta_seq meta =
     (case Option.bind (json_get ''aggregate_seq'' meta) json_as_i64 of Some n \<Rightarrow> n | None \<Rightarrow> 0)"

section \<open>The tables\<close>

record ledger_row =
  lr_seq :: int
  lr_id :: string
  lr_ts :: "timestamp option"
  lr_kind :: string
  lr_prev_hash :: string
  lr_hash :: string
  lr_meta_json :: string
  lr_event :: "audit_event option"
  lr_aggregate_id :: string
  lr_aggregate_seq :: int

record event_filter =
  ef_schema_version :: u32
  ef_kinds :: "audit_kind list option"
  ef_aggregate_id :: "string option"

record consumer_checkpoint =
  cc_schema_version :: u32
  cc_last_acked_global_seq :: u64

record persisted_consumer_state =
  ps_schema_version :: u32
  ps_checkpoint :: consumer_checkpoint
  ps_filter :: event_filter

record checkpoint_row =
  ck_last_acked_global_seq :: int
  ck_state :: "persisted_consumer_state option"

record registry_row =
  rg_run_id :: string
  rg_step_id :: string
  rg_pending_seq :: int
  rg_receipt_seq :: "int option"
  rg_completed_seq :: "int option"

record timer_row =
  tm_timer_id :: string
  tm_run_id :: string
  tm_fires_at :: int
  tm_fired :: bool
  tm_fired_event_id :: "string option"

record ledger =
  lg_rows :: "ledger_row list"
  lg_registry :: "registry_row list"
  lg_timers :: "timer_row list"
  lg_checkpoints :: "string \<rightharpoonup> checkpoint_row"

datatype ledger_error =
    BadDigest string
  | BadAuditKind
  | NumericRange
  | ConstraintViolation
  | NoRows
  | SerdeError
  | BadLedgerMeta int string
  | LedgerCorrupted
  | CheckpointFilterMismatch string
  | CheckpointRegression string
  | InconsistentLineage string
  | TimestampRange int
  | WorkflowTimerUnknown string

definition genesis_digest :: digest where
  "genesis_digest = Digest (digest_prefix @ replicate 64 (CHR ''0''))"

text \<open>\<open>ORDER BY seq\<close>.\<close>

definition by_seq :: "ledger \<Rightarrow> ledger_row list" where
  "by_seq L = sort_key lr_seq (lg_rows L)"

section \<open>Appending\<close>

record audit_input =
  an_kind :: string
  an_action :: "action_id option"
  an_decision :: "gate_decision option"
  an_reason :: "string option"
  an_task_grant_id :: "ulid option"
  an_target_refs :: "artifact_ref list"
  an_payload_refs :: "artifact_ref list"
  an_aggregate_override :: "string option"
  an_payload_json :: "string option"
  an_actor :: "principal_id option"

definition last_hash :: "ledger \<Rightarrow> ledger_error + digest" where
  "last_hash L =
     (if lg_rows L = [] then Inr genesis_digest
      else let h = lr_hash (last (by_seq L))
           in case digest_parse h of Inl _ \<Rightarrow> Inl (BadDigest h) | Inr d \<Rightarrow> Inr d)"

definition next_aggregate_seq :: "ledger \<Rightarrow> string \<Rightarrow> ledger_error + u64" where
  "next_aggregate_seq L aggregate =
     (let seqs = map lr_aggregate_seq (filter (\<lambda>r. lr_aggregate_id r = aggregate) (lg_rows L));
          current = (if seqs = [] then 0 else Max (set seqs))
      in if current < 0 then Inl NumericRange else Inr (word_of_int (current + 1)))"

definition aggregate_of :: "ext \<Rightarrow> audit_input \<Rightarrow> string" where
  "aggregate_of X a = (case an_aggregate_override a of
       Some g \<Rightarrow> g
     | None \<Rightarrow> (case an_task_grant_id a of
           None \<Rightarrow> default_aggregate_id
         | Some gid \<Rightarrow> ''task_grant:'' @ ulid_text X gid))"

definition next_seq :: "ledger \<Rightarrow> int" where
  "next_seq L = (if lg_rows L = [] then 1 else Max (lr_seq ` set (lg_rows L)) + 1)"

definition chained_hash :: "ext \<Rightarrow> string \<Rightarrow> string \<Rightarrow> bytes" where
  "chained_hash X prev meta = sha256 X (str_bytes prev @ str_bytes meta)"

definition meta_text_of :: "ext \<Rightarrow> audit_event \<Rightarrow> string" where
  "meta_text_of X e = canonical_json X (JObject (meta_fields X e))"

definition sealed_event :: "ext \<Rightarrow> audit_event \<Rightarrow> audit_event" where
  "sealed_event X e = e\<lparr>ae_hash := digest_from_hash
     (chained_hash X (digest_str (ae_prev_hash e)) (meta_text_of X e))\<rparr>"

definition row_of :: "ext \<Rightarrow> int \<Rightarrow> audit_event \<Rightarrow> ledger_row" where
  "row_of X seq e = \<lparr>lr_seq = seq, lr_id = ulid_text X (ae_id e), lr_ts = Some (ae_ts e),
     lr_kind = kind_str (ae_kind e), lr_prev_hash = digest_str (ae_prev_hash e),
     lr_hash = digest_str (ae_hash e), lr_meta_json = meta_text_of X e, lr_event = Some e,
     lr_aggregate_id = ae_aggregate_id e, lr_aggregate_seq = uint (ae_aggregate_seq e)\<rparr>"

definition insert_row :: "ledger_row \<Rightarrow> ledger \<Rightarrow> ledger_error + ledger" where
  "insert_row r L =
     (if list_ex (\<lambda>q. lr_id q = lr_id r) (lg_rows L) \<or>
         list_ex (\<lambda>q. 0 < lr_aggregate_seq r \<and> lr_aggregate_id q = lr_aggregate_id r \<and>
            lr_aggregate_seq q = lr_aggregate_seq r) (lg_rows L)
      then Inl ConstraintViolation else Inr (L\<lparr>lg_rows := lg_rows L @ [r]\<rparr>))"

definition append_audit_conn_with_actor ::
  "ext \<Rightarrow> audit_input \<Rightarrow> ulid \<Rightarrow> timestamp \<Rightarrow> ledger \<Rightarrow> ledger_error + (audit_event \<times> ledger)" where
  "append_audit_conn_with_actor X a fresh now L =
     (case last_hash L of
        Inl e \<Rightarrow> Inl e
      | Inr prev \<Rightarrow>
     (case audit_kind_new (an_kind a) of
        Inl _ \<Rightarrow> Inl BadAuditKind
      | Inr kind \<Rightarrow>
     (case next_aggregate_seq L (aggregate_of X a) of
        Inl e \<Rightarrow> Inl e
      | Inr seq \<Rightarrow>
          if \<not> uint seq < 2 ^ 63 then Inl NumericRange
          else
            let event = sealed_event X
              \<lparr>ae_id = fresh, ae_schema_version = 1, ae_ts = now, ae_kind = kind,
               ae_action = an_action a, ae_decision = an_decision a, ae_reason = an_reason a,
               ae_task_grant_id = an_task_grant_id a, ae_target_refs = an_target_refs a,
               ae_payload_refs = an_payload_refs a, ae_aggregate_id = aggregate_of X a,
               ae_aggregate_seq = seq, ae_payload_json = an_payload_json a, ae_actor = an_actor a,
               ae_prev_hash = prev, ae_hash = prev\<rparr>
            in case insert_row (row_of X (next_seq L) event) L of
                 Inl e \<Rightarrow> Inl e | Inr L' \<Rightarrow> Inr (event, L'))))"

definition append_audit ::
  "ext \<Rightarrow> audit_input \<Rightarrow> ulid \<Rightarrow> timestamp \<Rightarrow> ledger \<Rightarrow> (ledger_error + audit_event) \<times> ledger" where
  "append_audit X a fresh now = with_immediate_tx (append_audit_conn_with_actor X a fresh now)"

text \<open>The arguments of \<open>append_audit_conn\<close> that most callers leave out.\<close>

definition plain_input :: "string \<Rightarrow> string option \<Rightarrow> ulid option \<Rightarrow> artifact_ref list \<Rightarrow> audit_input" where
  "plain_input kind reason grant payload_refs =
     \<lparr>an_kind = kind, an_action = None, an_decision = None, an_reason = reason,
      an_task_grant_id = grant, an_target_refs = [], an_payload_refs = payload_refs,
      an_aggregate_override = None, an_payload_json = None, an_actor = None\<rparr>"

section \<open>Verification and replay\<close>

text \<open>The walk of \<open>verify_audit_chain\<close>: \<open>false\<close> at the first break.\<close>

fun verify_rows :: "ext \<Rightarrow> string \<Rightarrow> ledger_row list \<Rightarrow> bool" where
  "verify_rows X expected [] = True"
| "verify_rows X expected (r # rs) =
     (if lr_prev_hash r \<noteq> expected then False
      else if \<not> digest_matches_hash (lr_hash r) (chained_hash X (lr_prev_hash r) (lr_meta_json r))
      then False
      else (case json_parse X (lr_meta_json r) of
          None \<Rightarrow> False
        | Some meta \<Rightarrow>
            if meta_text meta ''aggregate_id'' ''system'' \<noteq> lr_aggregate_id r \<or>
               meta_seq meta \<noteq> lr_aggregate_seq r
            then False
            else verify_rows X (lr_hash r) rs))"

definition verify_audit_chain :: "ext \<Rightarrow> ledger \<Rightarrow> bool" where
  "verify_audit_chain X L = verify_rows X (digest_str genesis_digest) (by_seq L)"

record ledger_entry =
  le_global_seq :: u64
  le_event :: audit_event

definition checked_fields :: "string list" where
  "checked_fields = [''id'', ''ts'', ''kind'', ''action'', ''decision'', ''reason'',
     ''task_grant_id'', ''target_refs'', ''payload_refs'', ''aggregate_id'', ''aggregate_seq'',
     ''payload_json'', ''actor'']"

definition normalized :: "json \<Rightarrow> string \<Rightarrow> json" where
  "normalized meta field =
     (case json_get field meta of
        Some v \<Rightarrow> v
      | None \<Rightarrow> if field = ''aggregate_id'' then JString ''system''
          else if field = ''aggregate_seq'' then JNumber (PosInt 0) else JNull)"

text \<open>Two \<open>Value\<close>s are equal when their objects have the same entries in any order.\<close>

definition field_matches :: "ext \<Rightarrow> json \<Rightarrow> audit_event \<Rightarrow> string \<Rightarrow> bool" where
  "field_matches X meta e field \<longleftrightarrow>
     map_option canonical (json_get field (event_value X e)) = Some (canonical (normalized meta field))"

definition validated_entry :: "ext \<Rightarrow> ledger_row \<Rightarrow> ledger_error + ledger_entry" where
  "validated_entry X r =
     (case json_parse X (lr_meta_json r) of
        None \<Rightarrow> Inl SerdeError
      | Some meta \<Rightarrow>
          if meta_text meta ''id'' [] \<noteq> lr_id r \<or> meta_text meta ''kind'' [] \<noteq> lr_kind r \<or>
             meta_text meta ''aggregate_id'' ''system'' \<noteq> lr_aggregate_id r \<or>
             (case Option.bind (json_get ''aggregate_seq'' meta) json_as_u64 of
                Some n \<Rightarrow> n | None \<Rightarrow> 0) \<noteq> word_of_int (lr_aggregate_seq r)
          then Inl (BadLedgerMeta (lr_seq r) ''metadata'')
          else (case lr_event r of
              None \<Rightarrow> Inl SerdeError
            | Some e \<Rightarrow>
                if ae_schema_version e \<noteq> 1 \<or> ulid_text X (ae_id e) \<noteq> lr_id r \<or>
                   kind_str (ae_kind e) \<noteq> lr_kind r \<or> ae_aggregate_id e \<noteq> lr_aggregate_id r \<or>
                   ae_aggregate_seq e \<noteq> word_of_int (lr_aggregate_seq r) \<or>
                   digest_str (ae_prev_hash e) \<noteq> lr_prev_hash r \<or>
                   digest_str (ae_hash e) \<noteq> lr_hash r \<or> lr_ts r \<noteq> Some (ae_ts e)
                then Inl (BadLedgerMeta (lr_seq r) ''event_json'')
                else (case find (\<lambda>f. \<not> field_matches X meta e f) checked_fields of
                    Some f \<Rightarrow> Inl (BadLedgerMeta (lr_seq r) f)
                  | None \<Rightarrow> Inr \<lparr>le_global_seq = word_of_int (lr_seq r), le_event = e\<rparr>)))"

definition filter_all :: event_filter where
  "filter_all = \<lparr>ef_schema_version = 1, ef_kinds = None, ef_aggregate_id = None\<rparr>"

definition filter_kinds :: "audit_kind list \<Rightarrow> event_filter" where
  "filter_kinds ks = \<lparr>ef_schema_version = 1, ef_kinds = Some ks, ef_aggregate_id = None\<rparr>"

definition filter_aggregate :: "string \<Rightarrow> event_filter" where
  "filter_aggregate a = \<lparr>ef_schema_version = 1, ef_kinds = None, ef_aggregate_id = Some a\<rparr>"

definition filter_matches :: "event_filter \<Rightarrow> audit_kind \<Rightarrow> string \<Rightarrow> bool" where
  "filter_matches f kind aggregate =
     (case ef_kinds f of
        Some ks \<Rightarrow> if \<not> list_ex (\<lambda>k. k = kind) ks then False
          else (case ef_aggregate_id f of Some want \<Rightarrow> want = aggregate | None \<Rightarrow> True)
      | None \<Rightarrow> (case ef_aggregate_id f of Some want \<Rightarrow> want = aggregate | None \<Rightarrow> True))"

text \<open>The scan validates every row before it filters, and stops at the first bad one.\<close>

fun visit_rows :: "ext \<Rightarrow> event_filter \<Rightarrow> ledger_row list \<Rightarrow> ledger_error + ledger_entry list" where
  "visit_rows X f [] = Inr []"
| "visit_rows X f (r # rs) =
     (case validated_entry X r of
        Inl e \<Rightarrow> Inl e
      | Inr en \<Rightarrow>
          (case visit_rows X f rs of
             Inl e \<Rightarrow> Inl e
           | Inr ens \<Rightarrow>
               Inr (if filter_matches f (ae_kind (le_event en)) (ae_aggregate_id (le_event en))
                    then en # ens else ens)))"

definition replay_audit_conn ::
  "ext \<Rightarrow> event_filter \<Rightarrow> int \<Rightarrow> ledger \<Rightarrow> ledger_error + ledger_entry list" where
  "replay_audit_conn X f after L = visit_rows X f (filter (\<lambda>r. after < lr_seq r) (by_seq L))"

definition replay_audit ::
  "ext \<Rightarrow> event_filter \<Rightarrow> u64 \<Rightarrow> ledger \<Rightarrow> ledger_error + ledger_entry list" where
  "replay_audit X f after L =
     (if \<not> uint after < 2 ^ 63 then Inl NumericRange else replay_audit_conn X f (uint after) L)"

definition validated_audit_event_by_id ::
  "ext \<Rightarrow> ulid \<Rightarrow> ledger \<Rightarrow> ledger_error + audit_event option" where
  "validated_audit_event_by_id X i L =
     (case replay_audit X filter_all 0 L of
        Inl e \<Rightarrow> Inl e
      | Inr ens \<Rightarrow> Inr (map_option le_event (find (\<lambda>en. ae_id (le_event en) = i) ens)))"

definition count_audit_conn :: "ext \<Rightarrow> event_filter \<Rightarrow> int \<Rightarrow> ledger \<Rightarrow> ledger_error + int" where
  "count_audit_conn X f after L =
     (case replay_audit_conn X f after L of
        Inl e \<Rightarrow> Inl e
      | Inr ens \<Rightarrow> if int (length ens) < 2 ^ 63 then Inr (int (length ens)) else Inl NumericRange)"

definition audit_checkpoint_matches_conn ::
  "ext \<Rightarrow> event_filter \<Rightarrow> int \<Rightarrow> ledger \<Rightarrow> ledger_error + bool" where
  "audit_checkpoint_matches_conn X f seq L =
     (if seq \<le> 0 then Inr False
      else (case find (\<lambda>r. lr_seq r = seq) (lg_rows L) of
          None \<Rightarrow> Inr False
        | Some r \<Rightarrow> (case validated_entry X r of
              Inl e \<Rightarrow> Inl e
            | Inr en \<Rightarrow> Inr (filter_matches f (ae_kind (le_event en)) (ae_aggregate_id (le_event en))))))"

definition verify_and_replay_aggregate ::
  "ext \<Rightarrow> string \<Rightarrow> ledger \<Rightarrow> ledger_error + audit_event list" where
  "verify_and_replay_aggregate X aggregate L =
     (if \<not> verify_rows X (digest_str genesis_digest) (by_seq L) then Inl LedgerCorrupted
      else (case replay_audit_conn X (filter_aggregate aggregate) 0 L of
          Inl e \<Rightarrow> Inl e
        | Inr ens \<Rightarrow> Inr (map le_event ens)))"

section \<open>Workflow steps\<close>

definition workflow_input :: "string \<Rightarrow> string \<Rightarrow> string \<Rightarrow> audit_input" where
  "workflow_input run_id kind payload =
     \<lparr>an_kind = kind, an_action = None, an_decision = None, an_reason = None,
      an_task_grant_id = None, an_target_refs = [], an_payload_refs = [],
      an_aggregate_override = Some (''workflow_run:'' @ run_id), an_payload_json = Some payload,
      an_actor = None\<rparr>"

definition append_workflow_step ::
  "ext \<Rightarrow> string \<Rightarrow> string \<Rightarrow> string \<Rightarrow> ulid \<Rightarrow> timestamp \<Rightarrow> ledger \<Rightarrow>
     (ledger_error + audit_event) \<times> ledger" where
  "append_workflow_step X run_id kind payload fresh now =
     with_immediate_tx (append_audit_conn_with_actor X (workflow_input run_id kind payload) fresh now)"

definition find_step :: "ledger \<Rightarrow> string \<Rightarrow> string \<Rightarrow> registry_row option" where
  "find_step L run_id step_id =
     find (\<lambda>g. rg_run_id g = run_id \<and> rg_step_id g = step_id) (lg_registry L)"

definition update_step ::
  "string \<Rightarrow> string \<Rightarrow> (registry_row \<Rightarrow> registry_row) \<Rightarrow> ledger \<Rightarrow> ledger" where
  "update_step run_id step_id f L = L\<lparr>lg_registry := map
     (\<lambda>g. if rg_run_id g = run_id \<and> rg_step_id g = step_id then f g else g) (lg_registry L)\<rparr>"

text \<open>The event recorded under a sequence number of a run.\<close>

definition recorded_event :: "ledger \<Rightarrow> string \<Rightarrow> int \<Rightarrow> ledger_error + audit_event" where
  "recorded_event L run_id seq =
     (case find (\<lambda>r. lr_aggregate_id r = ''workflow_run:'' @ run_id \<and> lr_aggregate_seq r = seq)
        (lg_rows L) of
        None \<Rightarrow> Inl NoRows
      | Some r \<Rightarrow> (case lr_event r of None \<Rightarrow> Inl SerdeError | Some e \<Rightarrow> Inr e))"

definition append_workflow_step_if_absent ::
  "ext \<Rightarrow> string \<Rightarrow> string \<Rightarrow> string \<Rightarrow> string \<Rightarrow> ulid \<Rightarrow> timestamp \<Rightarrow> ledger \<Rightarrow>
     (ledger_error + (audit_event \<times> bool)) \<times> ledger" where
  "append_workflow_step_if_absent X run_id kind payload step_id fresh now =
     with_immediate_tx (\<lambda>L. case find_step L run_id step_id of
         Some g \<Rightarrow> (case recorded_event L run_id (rg_pending_seq g) of
             Inl e \<Rightarrow> Inl e | Inr ev \<Rightarrow> Inr ((ev, False), L))
       | None \<Rightarrow>
           let L1 = L\<lparr>lg_registry := lg_registry L @
             [\<lparr>rg_run_id = run_id, rg_step_id = step_id, rg_pending_seq = -1,
               rg_receipt_seq = None, rg_completed_seq = None\<rparr>]\<rparr>
           in (case append_audit_conn_with_actor X (workflow_input run_id kind payload) fresh now L1 of
                 Inl e \<Rightarrow> Inl e
               | Inr (ev, L2) \<Rightarrow> Inr ((ev, True),
                   update_step run_id step_id (\<lambda>g. if rg_pending_seq g = -1
                     then g\<lparr>rg_pending_seq := uint (ae_aggregate_seq ev)\<rparr> else g) L2)))"

definition append_workflow_receipt ::
  "ext \<Rightarrow> string \<Rightarrow> string \<Rightarrow> string \<Rightarrow> string \<Rightarrow> ulid \<Rightarrow> timestamp \<Rightarrow> ledger \<Rightarrow>
     (ledger_error + (audit_event \<times> bool)) \<times> ledger" where
  "append_workflow_receipt X run_id kind payload step_id fresh now =
     with_immediate_tx (\<lambda>L. case find_step L run_id step_id of
         None \<Rightarrow> Inl NoRows
       | Some g \<Rightarrow> (case rg_receipt_seq g of
           Some seq \<Rightarrow> (case recorded_event L run_id seq of
             Inl e \<Rightarrow> Inl e | Inr ev \<Rightarrow> Inr ((ev, False), L))
         | None \<Rightarrow>
             let L1 = update_step run_id step_id (\<lambda>g. g\<lparr>rg_receipt_seq := Some (-1)\<rparr>) L
             in (case append_audit_conn_with_actor X (workflow_input run_id kind payload) fresh now L1 of
                   Inl e \<Rightarrow> Inl e
                 | Inr (ev, L2) \<Rightarrow> Inr ((ev, True),
                     update_step run_id step_id (\<lambda>g. if rg_receipt_seq g = Some (-1)
                       then g\<lparr>rg_receipt_seq := Some (uint (ae_aggregate_seq ev))\<rparr> else g) L2))))"

definition append_workflow_completion ::
  "ext \<Rightarrow> string \<Rightarrow> string \<Rightarrow> string \<Rightarrow> string \<Rightarrow> ulid \<Rightarrow> timestamp \<Rightarrow> ledger \<Rightarrow>
     (ledger_error + (audit_event \<times> bool)) \<times> ledger" where
  "append_workflow_completion X run_id kind payload step_id fresh now =
     with_immediate_tx (\<lambda>L. case find_step L run_id step_id of
         None \<Rightarrow> Inl NoRows
       | Some g \<Rightarrow> (case rg_completed_seq g of
           Some seq \<Rightarrow> (case recorded_event L run_id seq of
             Inl e \<Rightarrow> Inl e | Inr ev \<Rightarrow> Inr ((ev, False), L))
         | None \<Rightarrow>
             let L1 = update_step run_id step_id (\<lambda>g. g\<lparr>rg_completed_seq := Some (-1)\<rparr>) L
             in (case append_audit_conn_with_actor X (workflow_input run_id kind payload) fresh now L1 of
                   Inl e \<Rightarrow> Inl e
                 | Inr (ev, L2) \<Rightarrow> Inr ((ev, True),
                     update_step run_id step_id (\<lambda>g. if rg_completed_seq g = Some (-1)
                       then g\<lparr>rg_completed_seq := Some (uint (ae_aggregate_seq ev))\<rparr> else g) L2))))"

section \<open>Timers\<close>

definition epoch_nanos :: "timestamp \<Rightarrow> ledger_error + int" where
  "epoch_nanos t = (if - (2 ^ 63) \<le> t \<and> t < 2 ^ 63 then Inr t else Inl (TimestampRange t))"

definition pending_record_matches :: "audit_event \<Rightarrow> json \<Rightarrow> string \<Rightarrow> string \<Rightarrow> string \<Rightarrow> bool" where
  "pending_record_matches ev payload kind step_id input_digest \<longleftrightarrow>
     kind_str (ae_kind ev) = kind \<and>
     Option.bind (json_get ''phase'' payload) json_as_str = Some ''Pending'' \<and>
     Option.bind (json_get ''step_id'' payload) json_as_str = Some step_id \<and>
     Option.bind (json_get ''input_digest'' payload) json_as_str = Some input_digest"

definition timer_spec_json :: "ext \<Rightarrow> string \<Rightarrow> timestamp \<Rightarrow> json" where
  "timer_spec_json X timer_id fires_at =
     JObject [(''timer_id'', JString timer_id), (''fires_at'', JString (ts_text X fires_at))]"

definition timer_completion_json :: "ext \<Rightarrow> string \<Rightarrow> string \<Rightarrow> string \<Rightarrow> timestamp \<Rightarrow> json" where
  "timer_completion_json X step_id input_digest timer_id fires_at = JObject
     [(''phase'', JString ''Completed''), (''step_id'', JString step_id),
      (''input_digest'', JString input_digest),
      (''outcome'', JObject [(''Ok'', timer_spec_json X timer_id fires_at)])]"

definition insert_timer :: "timer_row \<Rightarrow> ledger \<Rightarrow> ledger_error + ledger" where
  "insert_timer t L =
     (if list_ex (\<lambda>q. tm_timer_id q = tm_timer_id t) (lg_timers L) then Inl ConstraintViolation
      else Inr (L\<lparr>lg_timers := lg_timers L @ [t]\<rparr>))"

text \<open>\<open>schedule_workflow_timer_step\<close>: completes the step and registers the timer in one transaction.\<close>

definition schedule_workflow_timer_step ::
  "ext \<Rightarrow> string \<Rightarrow> string \<Rightarrow> u64 \<Rightarrow> string \<Rightarrow> string \<Rightarrow> timestamp \<Rightarrow> ulid \<Rightarrow> ulid \<Rightarrow> timestamp \<Rightarrow> ledger \<Rightarrow>
     (ledger_error + (audit_event \<times> bool)) \<times> ledger" where
  "schedule_workflow_timer_step X run_id step_id pending_seq kind input_digest fires_at timer fresh now =
     with_immediate_tx (\<lambda>L. case find_step L run_id step_id of
         None \<Rightarrow> Inl NoRows
       | Some g \<Rightarrow>
           if \<not> uint pending_seq < 2 ^ 63 then Inl NumericRange
           else if rg_pending_seq g \<noteq> uint pending_seq then Inl (InconsistentLineage step_id)
           else (case recorded_event L run_id (rg_pending_seq g) of
               Inl e \<Rightarrow> Inl e
             | Inr pending \<Rightarrow>
           (case ae_payload_json pending of
               None \<Rightarrow> Inl (InconsistentLineage step_id)
             | Some raw \<Rightarrow>
           (case json_parse X raw of
               None \<Rightarrow> Inl SerdeError
             | Some payload \<Rightarrow>
           if \<not> pending_record_matches pending payload kind step_id input_digest
           then Inl (InconsistentLineage step_id)
           else (case rg_completed_seq g of
               Some seq \<Rightarrow> (case recorded_event L run_id seq of
                   Inl e \<Rightarrow> Inl e | Inr ev \<Rightarrow> Inr ((ev, False), L))
             | None \<Rightarrow>
                 let L1 = update_step run_id step_id (\<lambda>g. g\<lparr>rg_completed_seq := Some (-1)\<rparr>) L;
                     timer_id = ulid_text X timer;
                     text = canonical_json X (timer_completion_json X step_id input_digest timer_id fires_at)
                 in (case append_audit_conn_with_actor X (workflow_input run_id kind text) fresh now L1 of
                       Inl e \<Rightarrow> Inl e
                     | Inr (ev, L2) \<Rightarrow>
                     (case epoch_nanos fires_at of
                       Inl e \<Rightarrow> Inl e
                     | Inr n \<Rightarrow>
                     (case insert_timer \<lparr>tm_timer_id = timer_id, tm_run_id = run_id, tm_fires_at = n,
                             tm_fired = False, tm_fired_event_id = None\<rparr> L2 of
                       Inl e \<Rightarrow> Inl e
                     | Inr L3 \<Rightarrow> Inr ((ev, True),
                         update_step run_id step_id (\<lambda>g. if rg_completed_seq g = Some (-1)
                           then g\<lparr>rg_completed_seq := Some (uint (ae_aggregate_seq ev))\<rparr> else g) L3)))))))))"

definition find_timer :: "ledger \<Rightarrow> string \<Rightarrow> timer_row option" where
  "find_timer L timer_id = find (\<lambda>t. tm_timer_id t = timer_id) (lg_timers L)"

definition update_timer :: "string \<Rightarrow> (timer_row \<Rightarrow> timer_row) \<Rightarrow> ledger \<Rightarrow> ledger" where
  "update_timer timer_id f L =
     L\<lparr>lg_timers := map (\<lambda>t. if tm_timer_id t = timer_id then f t else t) (lg_timers L)\<rparr>"

definition timer_input :: "ext \<Rightarrow> timer_row \<Rightarrow> audit_input" where
  "timer_input X t =
     \<lparr>an_kind = ''workflow.timer_fired'', an_action = None, an_decision = None, an_reason = None,
      an_task_grant_id = None, an_target_refs = [], an_payload_refs = [],
      an_aggregate_override = Some (''workflow_run:'' @ tm_run_id t @ '':timer:'' @ tm_timer_id t),
      an_payload_json = Some (canonical_json X (timer_spec_json X (tm_timer_id t) (tm_fires_at t))),
      an_actor = None\<rparr>"

definition stored_event :: "ledger \<Rightarrow> string \<Rightarrow> ledger_error + audit_event" where
  "stored_event L event_id =
     (case find (\<lambda>r. lr_id r = event_id) (lg_rows L) of
        None \<Rightarrow> Inl NoRows
      | Some r \<Rightarrow> (case lr_event r of None \<Rightarrow> Inl SerdeError | Some e \<Rightarrow> Inr e))"

text \<open>The compare-and-swap of \<open>fire_workflow_timer\<close>: a timer is claimed while pending and due.\<close>

definition claimable :: "timer_row \<Rightarrow> int \<Rightarrow> bool" where
  "claimable t n \<longleftrightarrow> \<not> tm_fired t \<and> tm_fires_at t \<le> n"

definition fire_workflow_timer ::
  "ext \<Rightarrow> string \<Rightarrow> timestamp \<Rightarrow> ulid \<Rightarrow> timestamp \<Rightarrow> ledger \<Rightarrow> (ledger_error + audit_event) \<times> ledger" where
  "fire_workflow_timer X timer_id time fresh now =
     with_immediate_tx (\<lambda>L. case epoch_nanos time of
         Inl e \<Rightarrow> Inl e
       | Inr n \<Rightarrow>
           (case find_timer L timer_id of
              None \<Rightarrow> Inl (WorkflowTimerUnknown timer_id)
            | Some t \<Rightarrow>
                if claimable t n
                then let L1 = update_timer timer_id
                         (\<lambda>t. t\<lparr>tm_fired := True, tm_fired_event_id := Some []\<rparr>) L
                     in (case append_audit_conn_with_actor X (timer_input X t) fresh now L1 of
                           Inl e \<Rightarrow> Inl e
                         | Inr (ev, L2) \<Rightarrow> Inr (ev, update_timer timer_id
                             (\<lambda>t. t\<lparr>tm_fired_event_id := Some (ulid_text X (ae_id ev))\<rparr>) L2))
                else (case tm_fired_event_id t of
                    None \<Rightarrow> Inl (WorkflowTimerUnknown timer_id)
                  | Some fired \<Rightarrow>
                      if fired = [] then Inl (WorkflowTimerUnknown timer_id)
                      else (case stored_event L fired of
                          Inl e \<Rightarrow> Inl e
                        | Inr ev \<Rightarrow> Inr (ev, update_timer timer_id
                            (\<lambda>t. t\<lparr>tm_fired_event_id := Some (ulid_text X (ae_id ev))\<rparr>) L)))))"

definition workflow_timer_fired :: "ledger \<Rightarrow> string \<Rightarrow> bool" where
  "workflow_timer_fired L timer_id \<longleftrightarrow>
     (case find_timer L timer_id of None \<Rightarrow> False | Some t \<Rightarrow> tm_fired t)"

definition due_timers :: "timestamp \<Rightarrow> ledger \<Rightarrow> ledger_error + (string \<times> string) list" where
  "due_timers time L =
     (case epoch_nanos time of
        Inl e \<Rightarrow> Inl e
      | Inr n \<Rightarrow> Inr (map (\<lambda>t. (tm_timer_id t, tm_run_id t))
          (sort_key tm_fires_at (filter (\<lambda>t. claimable t n) (lg_timers L)))))"

text \<open>The loop of \<open>fire_due_timers\<close>; each fire draws a fresh id and reads the clock.\<close>

fun fire_loop ::
  "ext \<Rightarrow> timestamp \<Rightarrow> (nat \<Rightarrow> ulid \<times> timestamp) \<Rightarrow> string list \<Rightarrow> audit_event list \<Rightarrow> ledger \<Rightarrow>
     (ledger_error + audit_event list) \<times> ledger" where
  "fire_loop X time draw [] fired L = (Inr fired, L)"
| "fire_loop X time draw (i # ids) fired L =
     (case fire_workflow_timer X i time (fst (draw (length fired))) (snd (draw (length fired))) L of
        (Inl e, L') \<Rightarrow> (Inl e, L')
      | (Inr ev, L') \<Rightarrow> fire_loop X time draw ids (fired @ [ev]) L')"

definition fire_due_timers ::
  "ext \<Rightarrow> timestamp \<Rightarrow> (nat \<Rightarrow> ulid \<times> timestamp) \<Rightarrow> ledger \<Rightarrow>
     (ledger_error + audit_event list) \<times> ledger" where
  "fire_due_timers X time draw L =
     (case due_timers time L of
        Inl e \<Rightarrow> (Inl e, L)
      | Inr due \<Rightarrow> fire_loop X time draw (map fst due) [] L)"

definition next_timer_deadline :: "ledger \<Rightarrow> timestamp option" where
  "next_timer_deadline L =
     (let pending = map tm_fires_at (filter (\<lambda>t. \<not> tm_fired t) (lg_timers L))
      in if pending = [] then None else Some (Min (set pending)))"

end
