(* ===== verification/Ledger_Integrity.thy ===== *)
theory Ledger_Integrity
  imports Audit_Ledger "HOL-Library.Sublist"
begin

text \<open>
  The ledgers the kernel can write: the JSON round trip of their metadata, the rows of
  well-linked events, the relation \<open>ledger_step\<close> of all writing operations, and the invariant
  that every reachable ledger is a gap-free, hash-linked list of events which only grows.
\<close>

section \<open>The JSON round trip\<close>

text \<open>Values without floating-point and negative numbers, the only ones in ledger metadata.\<close>

primrec plain_json :: "json \<Rightarrow> bool" where
  "plain_json JNull = True"
| "plain_json (JBool b) = True"
| "plain_json (JNumber n) = (case n of PosInt _ \<Rightarrow> True | _ \<Rightarrow> False)"
| "plain_json (JString s) = True"
| "plain_json (JArray xs) = list_all id (map plain_json xs)"
| "plain_json (JObject kvs) = list_all snd (map (map_prod id plain_json) kvs)"

definition wf_serde :: "ext \<Rightarrow> bool" where
  "wf_serde X \<longleftrightarrow> (\<forall>v. wf_json v \<and> plain_json v \<longrightarrow> json_parse X (json_text X v) = Some (canonical v))"

lemma wf_canonical: "wf_json v \<Longrightarrow> wf_json (canonical v)"
proof (induction v)
  case (JObject kvs)
  have "mset (map fst (sort_key fst (map (map_prod id canonical) kvs))) = mset (map fst kvs)"
    by (simp only: mset_map mset_sort) (metis mset_map map_fst_map_prod_id)
  then have "distinct (map fst (sort_key fst (map (map_prod id canonical) kvs)))"
    using JObject.prems by (metis list_all_wf_object mset_eq_imp_distinct_iff)
  moreover have "\<forall>(k, v)\<in>set (sort_key fst (map (map_prod id canonical) kvs)). wf_json v"
    using JObject by (fastforce simp: list_all_iff prod_set_defs)
  ultimately show ?case by (simp only: canonical.simps sort_entries_eq list_all_wf_object)
qed (auto simp: list_all_iff)

lemma plain_canonical: "plain_json v \<Longrightarrow> plain_json (canonical v)"
proof (induction v)
  case (JObject kvs)
  then show ?case by (fastforce simp: list_all_iff prod_set_defs)
qed (auto simp: list_all_iff)

lemma parse_canonical:
  "wf_serde X \<Longrightarrow> wf_json v \<Longrightarrow> plain_json v \<Longrightarrow> json_parse X (canonical_json X v) = Some (canonical v)"
  by (simp add: wf_serde_def canonical_json_def wf_canonical plain_canonical canonical_idem)

lemma json_get_canonical:
  assumes "distinct (map fst kvs)"
  shows "json_get k (canonical (JObject kvs)) = map_option canonical (map_of kvs k)"
proof -
  let ?m = "map (map_prod id canonical) kvs"
  have d: "distinct (map fst ?m)" using assms by simp
  have "mset (map fst (sort_key fst ?m)) = mset (map fst ?m)" by (simp only: mset_map mset_sort)
  with d have "distinct (map fst (sort_key fst ?m))" by (metis mset_eq_imp_distinct_iff)
  with d have "map_of (sort_key fst ?m) = map_of ?m"
    by (subst map_of_inject_set) simp_all
  moreover have "map_of ?m = map_option canonical \<circ> map_of kvs"
    by (simp add: map_prod_def id_def map_of_map [symmetric] case_prod_unfold)
  ultimately show ?thesis by (simp add: sort_entries_eq)
qed

lemma meta_keys: "map fst (meta_fields X e) = checked_fields"
  by (simp add: meta_fields_def checked_fields_def)

lemma distinct_checked_fields: "distinct checked_fields"
  by (simp add: checked_fields_def)

lemma plain_decision: "plain_json (decision_json d)" "wf_json (decision_json d)"
  by (cases d; simp)+

lemma plain_artifact_ref: "plain_json (artifact_ref_json r)" "wf_json (artifact_ref_json r)"
  by (simp_all add: artifact_ref_json_def jnum_def)

lemma plain_jopt: "(\<And>x. P (f x)) \<Longrightarrow> P JNull \<Longrightarrow> P (jopt f v)"
  by (simp add: jopt_def split: option.split)

lemma meta_plain: "plain_json (JObject (meta_fields X e))"
  by (simp add: meta_fields_def list_all_iff plain_artifact_ref plain_decision plain_jopt)

lemma meta_wf: "wf_json (JObject (meta_fields X e))"
proof -
  have "\<forall>(k, v)\<in>set (meta_fields X e). wf_json v"
    by (simp add: meta_fields_def list_all_iff plain_artifact_ref plain_decision plain_jopt)
  then show ?thesis
    using distinct_checked_fields meta_keys by (metis list_all_wf_object)
qed

definition meta_of :: "ext \<Rightarrow> audit_event \<Rightarrow> json" where
  "meta_of X e = canonical (JObject (meta_fields X e))"

lemma meta_parse: "wf_serde X \<Longrightarrow> json_parse X (meta_text_of X e) = Some (meta_of X e)"
  using parse_canonical [OF _ meta_wf meta_plain] by (simp add: meta_text_of_def meta_of_def)

lemma meta_get: "json_get k (meta_of X e) = map_option canonical (map_of (meta_fields X e) k)"
  unfolding meta_of_def by (rule json_get_canonical) (simp add: meta_keys distinct_checked_fields)

lemma meta_values:
  "meta_text (meta_of X e) ''id'' d = ulid_text X (ae_id e)"
  "meta_text (meta_of X e) ''kind'' d = kind_str (ae_kind e)"
  "meta_text (meta_of X e) ''aggregate_id'' d = ae_aggregate_id e"
  "json_get ''aggregate_seq'' (meta_of X e) = Some (JNumber (PosInt (ae_aggregate_seq e)))"
  by (simp_all add: meta_text_def meta_get meta_fields_def)

lemma meta_seq_of: "uint (ae_aggregate_seq e) < 2 ^ 63 \<Longrightarrow> meta_seq (meta_of X e) = uint (ae_aggregate_seq e)"
  by (simp add: meta_seq_def meta_values)

lemma meta_field_matches: "f \<in> set checked_fields \<Longrightarrow> field_matches X (meta_of X e) e f"
proof -
  assume "f \<in> set checked_fields"
  then have "f \<in> fst ` set (meta_fields X e)" by (metis meta_keys list.set_map)
  then obtain v where v: "map_of (meta_fields X e) f = Some v"
    by (metis domIff dom_map_of_conv_image_fst option.exhaust)
  then have "json_get f (event_value X e) = Some v"
    by (simp add: event_value_def map_add_def)
  with v show ?thesis by (simp add: field_matches_def normalized_def meta_get canonical_idem)
qed

section \<open>Rows written by the kernel\<close>

definition rows_of :: "ext \<Rightarrow> audit_event list \<Rightarrow> ledger_row list" where
  "rows_of X es = map (\<lambda>(i, e). row_of X (int i) e) (enumerate 1 es)"

fun linked :: "ext \<Rightarrow> digest \<Rightarrow> audit_event list \<Rightarrow> bool" where
  "linked X p [] = True"
| "linked X p (e # es) \<longleftrightarrow> ae_prev_hash e = p \<and> sealed_event X e = e \<and> linked X (ae_hash e) es"

definition head_of :: "digest \<Rightarrow> audit_event list \<Rightarrow> digest" where
  "head_of p es = (if es = [] then p else ae_hash (last es))"

definition in_aggregate :: "string \<Rightarrow> audit_event list \<Rightarrow> audit_event list" where
  "in_aggregate a es = filter (\<lambda>e. ae_aggregate_id e = a) es"

definition gap_free :: "audit_event list \<Rightarrow> bool" where
  "gap_free es \<longleftrightarrow> (\<forall>a. map (uint \<circ> ae_aggregate_seq) (in_aggregate a es) =
     map int [1..<Suc (length (in_aggregate a es))])"

definition events_ok :: "ext \<Rightarrow> audit_event list \<Rightarrow> bool" where
  "events_ok X es \<longleftrightarrow> linked X genesis_digest es \<and> gap_free es \<and>
     (\<forall>e\<in>set es. ae_schema_version e = 1 \<and> uint (ae_aggregate_seq e) < 2 ^ 63)"

lemma rows_of_snoc: "rows_of X (es @ [e]) = rows_of X es @ [row_of X (int (length es) + 1) e]"
  by (simp add: rows_of_def enumerate_append_eq add.commute)

lemma linked_snoc:
  "linked X p (es @ [e]) \<longleftrightarrow> linked X p es \<and> ae_prev_hash e = head_of p es \<and> sealed_event X e = e"
  by (induction es arbitrary: p) (auto simp: head_of_def)

lemma lr_seq_rows_of: "map lr_seq (rows_of X es) = map int [1..<Suc (length es)]"
  by (induction es rule: rev_induct) (simp_all add: rows_of_def enumerate_append_eq row_of_def)

lemma sort_rows_of: "sort_key lr_seq (rows_of X es) = rows_of X es"
  by (rule sort_key_id_if_sorted) (simp add: lr_seq_rows_of sorted_map del: upt_Suc)

lemma lr_event_rows_of: "map (the \<circ> lr_event) (rows_of X es) = es"
  by (induction es rule: rev_induct) (simp_all add: rows_of_def enumerate_append_eq row_of_def)

lemma set_rows_of: "r \<in> set (rows_of X es) \<Longrightarrow> \<exists>i. \<exists>e\<in>set es. r = row_of X i e"
  by (induction es rule: rev_induct) (simp add: rows_of_def, auto simp: rows_of_snoc)

lemma sealed_hash:
  assumes "wf_ext X" "sealed_event X e = e"
  shows "digest_matches_hash (digest_str (ae_hash e))
    (chained_hash X (digest_str (ae_prev_hash e)) (meta_text_of X e))"
    "digest_is_valid (digest_str (ae_hash e))"
proof -
  have h: "ae_hash e = digest_from_hash (chained_hash X (digest_str (ae_prev_hash e)) (meta_text_of X e))"
    using assms(2) by (metis sealed_event_def audit_event.select_convs(16) audit_event.surjective
        audit_event.update_convs(16))
  have l: "length (chained_hash X (digest_str (ae_prev_hash e)) (meta_text_of X e)) = 32"
    using assms(1) by (simp add: chained_hash_def)
  show "digest_matches_hash (digest_str (ae_hash e))
      (chained_hash X (digest_str (ae_prev_hash e)) (meta_text_of X e))"
    using h l by (simp add: digest_matches_hash_iff)
  show "digest_is_valid (digest_str (ae_hash e))"
    using digest_is_valid_from_hash [OF l] h by simp
qed

lemma row_of_sel [simp]:
  "lr_seq (row_of X i e) = i" "lr_id (row_of X i e) = ulid_text X (ae_id e)"
  "lr_ts (row_of X i e) = Some (ae_ts e)" "lr_kind (row_of X i e) = kind_str (ae_kind e)"
  "lr_prev_hash (row_of X i e) = digest_str (ae_prev_hash e)"
  "lr_hash (row_of X i e) = digest_str (ae_hash e)" "lr_meta_json (row_of X i e) = meta_text_of X e"
  "lr_event (row_of X i e) = Some e" "lr_aggregate_id (row_of X i e) = ae_aggregate_id e"
  "lr_aggregate_seq (row_of X i e) = uint (ae_aggregate_seq e)"
  by (simp_all add: row_of_def)

text \<open>Rows of well-linked events verify and validate.\<close>

lemma verify_rows_linked:
  assumes "wf_ext X" "wf_serde X"
    and "\<forall>e\<in>set es. uint (ae_aggregate_seq e) < 2 ^ 63"
  shows "linked X p es \<Longrightarrow>
    verify_rows X (digest_str p) (map (\<lambda>(i, e). row_of X (int i) e) (enumerate n es))"
  using assms(3)
  by (induction es arbitrary: p n)
    (simp_all add: meta_parse [OF assms(2)] meta_values meta_seq_of sealed_hash [OF assms(1)])

lemma validated_row_of:
  assumes "wf_serde X" "ae_schema_version e = 1"
  shows "validated_entry X (row_of X i e) = Inr \<lparr>le_global_seq = word_of_int i, le_event = e\<rparr>"
proof -
  have "find (\<lambda>f. \<not> field_matches X (meta_of X e) e f) checked_fields = None"
    by (simp add: find_None_iff meta_field_matches)
  then show ?thesis
    using assms by (simp add: validated_entry_def meta_parse meta_values)
qed

definition entries_of :: "audit_event list \<Rightarrow> ledger_entry list" where
  "entries_of es = map (\<lambda>(i, e). \<lparr>le_global_seq = word_of_int (int i), le_event = e\<rparr>) (enumerate 1 es)"

definition entry_matches :: "event_filter \<Rightarrow> ledger_entry \<Rightarrow> bool" where
  "entry_matches f en \<longleftrightarrow> filter_matches f (ae_kind (le_event en)) (ae_aggregate_id (le_event en))"

lemma visit_rows_of:
  assumes "wf_serde X" "\<forall>(i, e)\<in>set ies. ae_schema_version e = 1"
  shows "visit_rows X f (map (\<lambda>(i, e). row_of X (int i) e) ies) =
    Inr (filter (entry_matches f)
      (map (\<lambda>(i, e). \<lparr>le_global_seq = word_of_int (int i), le_event = e\<rparr>) ies))"
  using assms(2)
  by (induction ies) (auto simp: validated_row_of [OF assms(1)] entry_matches_def)

section \<open>Reachable ledgers\<close>

definition empty_ledger :: ledger where
  "empty_ledger = \<lparr>lg_rows = [], lg_registry = [], lg_timers = [], lg_checkpoints = Map.empty\<rparr>"

inductive ledger_step :: "ext \<Rightarrow> ledger \<Rightarrow> ledger \<Rightarrow> bool" for X where
  step_append: "ledger_step X L (snd (append_audit X a fresh now L))"
| step_workflow: "ledger_step X L (snd (append_workflow_step X run_id kind payload fresh now L))"
| step_pending:
    "ledger_step X L (snd (append_workflow_step_if_absent X run_id kind payload step_id fresh now L))"
| step_receipt:
    "ledger_step X L (snd (append_workflow_receipt X run_id kind payload step_id fresh now L))"
| step_completion:
    "ledger_step X L (snd (append_workflow_completion X run_id kind payload step_id fresh now L))"
| step_schedule: "ledger_step X L (snd (schedule_workflow_timer_step X run_id step_id pending_seq kind
    input_digest fires_at timer fresh now L))"
| step_fire: "ledger_step X L (snd (fire_workflow_timer X timer_id time fresh now L))"
| step_checkpoints: "ledger_step X L (L\<lparr>lg_checkpoints := c\<rparr>)"

definition ledger_run :: "ext \<Rightarrow> ledger \<Rightarrow> bool" where
  "ledger_run X L \<longleftrightarrow> (ledger_step X)\<^sup>*\<^sup>* empty_ledger L"

definition ledger_events :: "ledger \<Rightarrow> audit_event list" where
  "ledger_events L = map (the \<circ> lr_event) (lg_rows L)"

definition rows_inv :: "ext \<Rightarrow> ledger \<Rightarrow> bool" where
  "rows_inv X L \<longleftrightarrow> lg_rows L = rows_of X (ledger_events L) \<and> events_ok X (ledger_events L)"

lemma rows_invI: "lg_rows L = rows_of X es \<Longrightarrow> events_ok X es \<Longrightarrow> rows_inv X L"
  by (simp add: rows_inv_def ledger_events_def lr_event_rows_of)

lemma by_seq_inv: "rows_inv X L \<Longrightarrow> by_seq L = lg_rows L"
  by (metis by_seq_def rows_inv_def sort_rows_of)

lemma Max_from_1: "Max (set (map int [1..<Suc n])) = int n" if "n \<noteq> 0" for n
proof -
  have "set (map int [1..<Suc n]) = int ` {1..n}" by (simp add: atLeastLessThanSuc_atLeastAtMost del: upt_Suc)
  moreover have "Max (int ` {1..n}) = int n"
    by (rule Max_eqI) (use that in auto)
  ultimately show ?thesis by simp
qed

lemma next_seq_inv: "rows_inv X L \<Longrightarrow> next_seq L = int (length (lg_rows L)) + 1"
proof -
  assume i: "rows_inv X L"
  have "lr_seq ` set (lg_rows L) = set (map int [1..<Suc (length (ledger_events L))])"
    using i lr_seq_rows_of [of X "ledger_events L"] by (metis list.set_map rows_inv_def)
  moreover have "length (ledger_events L) = length (lg_rows L)" by (simp add: ledger_events_def)
  ultimately show ?thesis
    using Max_from_1 [of "length (lg_rows L)"] by (simp add: next_seq_def)
qed

lemma next_aggregate_seq_inv:
  assumes "rows_inv X L"
  shows "next_aggregate_seq L a = Inr (word_of_int (int (length (in_aggregate a (ledger_events L))) + 1))"
proof -
  let ?es = "ledger_events L"
  have "map lr_aggregate_seq (filter (\<lambda>r. lr_aggregate_id r = a) (rows_of X es)) =
      map (uint \<circ> ae_aggregate_seq) (in_aggregate a es)" for es
    by (induction es rule: rev_induct) (simp add: rows_of_def in_aggregate_def, simp add: rows_of_snoc in_aggregate_def)
  then have "map lr_aggregate_seq (filter (\<lambda>r. lr_aggregate_id r = a) (lg_rows L)) =
      map int [1..<Suc (length (in_aggregate a ?es))]" (is "?seqs = map int [1..<Suc ?n]")
    using assms by (metis rows_inv_def events_ok_def gap_free_def)
  moreover have "Max (set (map int [1..<Suc ?n])) = int ?n" if "?n \<noteq> 0"
    by (rule Max_from_1 [OF that])
  ultimately show ?thesis
    by (cases "?n = 0") (simp_all add: next_aggregate_seq_def Let_def del: upt_Suc set_map)
qed

lemma aggregate_count_bound:
  assumes "events_ok X es"
  shows "int (length (in_aggregate a es)) < 2 ^ 63"
proof (cases "in_aggregate a es = []")
  case False
  let ?n = "length (in_aggregate a es)"
  have "?n \<in> set [1..<Suc ?n]" using False by (simp add: Suc_le_eq)
  then have "int ?n \<in> set (map int [1..<Suc ?n])" by (metis list.set_map imageI)
  then have "int ?n \<in> set (map (uint \<circ> ae_aggregate_seq) (in_aggregate a es))"
    using assms by (metis events_ok_def gap_free_def)
  then obtain e where "e \<in> set es" "int ?n = uint (ae_aggregate_seq e)"
    by (auto simp: in_aggregate_def)
  with assms show ?thesis by (metis events_ok_def)
qed simp

lemma uint_u64: "0 \<le> k \<Longrightarrow> k < 2 ^ 64 \<Longrightarrow> uint (word_of_int k :: u64) = k"
  by (simp add: uint_word_of_int_eq take_bit_int_eq_self)

lemma valid_genesis: "digest_is_valid (digest_str genesis_digest)"
  by (simp add: genesis_digest_def digest_is_valid_def list_all_iff is_lower_hex_def)

lemma linked_last_valid:
  assumes "wf_ext X" "linked X p es" "es \<noteq> []"
  shows "digest_is_valid (digest_str (ae_hash (last es)))"
  using assms(2,3)
proof (induction es arbitrary: p)
  case (Cons e es)
  then show ?case using sealed_hash(2) [OF assms(1), of e] by (cases "es = []") auto
qed simp

lemma last_hash_inv:
  assumes "wf_ext X" "rows_inv X L"
  shows "last_hash L = Inr (head_of genesis_digest (ledger_events L))"
proof (cases "ledger_events L" rule: rev_cases)
  case Nil
  then show ?thesis by (simp add: last_hash_def head_of_def ledger_events_def)
next
  case (snoc es e)
  then have rows: "lg_rows L = rows_of X es @ [row_of X (int (length es) + 1) e]"
    using assms(2) by (simp add: rows_inv_def rows_of_snoc)
  have "digest_is_valid (digest_str (ae_hash e))"
    using linked_last_valid [OF assms(1), of genesis_digest "ledger_events L"] assms(2) snoc
    by (simp add: rows_inv_def events_ok_def)
  then show ?thesis
    using rows snoc by (simp add: last_hash_def by_seq_inv [OF assms(2)] digest_parse_def head_of_def)
qed

lemma gap_free_snoc:
  assumes "gap_free es" "uint (ae_aggregate_seq e) = int (length (in_aggregate (ae_aggregate_id e) es)) + 1"
  shows "gap_free (es @ [e])"
  using assms by (simp add: gap_free_def in_aggregate_def)

lemma append_inv:
  assumes "wf_ext X" "rows_inv X L" "append_audit_conn_with_actor X a fresh now L = Inr (e, L')"
  shows "L' = L\<lparr>lg_rows := lg_rows L @ [row_of X (int (length (lg_rows L)) + 1) e]\<rparr>"
    "rows_inv X L'" "ledger_events L' = ledger_events L @ [e]"
    "ae_aggregate_id e = aggregate_of X a" "ae_payload_json e = an_payload_json a"
    "uint (ae_aggregate_seq e) = int (length (in_aggregate (aggregate_of X a) (ledger_events L))) + 1"
proof -
  let ?es = "ledger_events L" and ?n = "int (length (in_aggregate (aggregate_of X a) (ledger_events L)))"
  have ok: "events_ok X ?es" using assms(2) by (simp add: rows_inv_def)
  have n: "?n < 2 ^ 63" by (rule aggregate_count_bound [OF ok])
  then have u: "uint (word_of_int (?n + 1) :: u64) = ?n + 1"
    by (intro uint_u64) simp_all
  show L': "L' = L\<lparr>lg_rows := lg_rows L @ [row_of X (int (length (lg_rows L)) + 1) e]\<rparr>"
    and agg: "ae_aggregate_id e = aggregate_of X a" and "ae_payload_json e = an_payload_json a"
    and seq: "uint (ae_aggregate_seq e) = ?n + 1"
    using assms(3) u
    by (auto simp: append_audit_conn_with_actor_def last_hash_inv [OF assms(1,2)]
        next_aggregate_seq_inv [OF assms(2)] next_seq_inv [OF assms(2)] insert_row_def Let_def
        sealed_event_def split: sum.splits if_splits)
  have e: "ae_prev_hash e = head_of genesis_digest ?es" "sealed_event X e = e"
    "ae_schema_version e = 1" "uint (ae_aggregate_seq e) < 2 ^ 63"
    using assms(3)
    by (auto simp: append_audit_conn_with_actor_def last_hash_inv [OF assms(1,2)] insert_row_def
        Let_def sealed_event_def meta_text_of_def meta_fields_def split: sum.splits if_splits)
  show ev: "ledger_events L' = ?es @ [e]" by (simp add: L' ledger_events_def)
  have "events_ok X (?es @ [e])"
    using ok e seq agg by (auto simp: events_ok_def linked_snoc gap_free_snoc)
  moreover have "lg_rows L' = rows_of X (?es @ [e])"
    using assms(2) by (simp add: L' rows_of_snoc rows_inv_def ledger_events_def)
  ultimately show "rows_inv X L'" by (metis rows_invI)
qed

section \<open>The step registry\<close>

type_synonym step_key = "string \<times> string"

definition step_map :: "ledger \<Rightarrow> step_key \<rightharpoonup> registry_row" where
  "step_map L k = find_step L (fst k) (snd k)"

definition recorded :: "audit_event list \<Rightarrow> string \<Rightarrow> int \<Rightarrow> bool" where
  "recorded es run_id n \<longleftrightarrow> (\<exists>e\<in>set es. ae_aggregate_id e = ''workflow_run:'' @ run_id \<and>
     uint (ae_aggregate_seq e) = n)"

definition seqs_of :: "registry_row \<Rightarrow> int set" where
  "seqs_of g = insert (rg_pending_seq g) (set_option (rg_receipt_seq g) \<union> set_option (rg_completed_seq g))"

definition registry_inv :: "ledger \<Rightarrow> bool" where
  "registry_inv L \<longleftrightarrow> (\<forall>k g. step_map L k = Some g \<longrightarrow>
     (\<forall>n\<in>seqs_of g. recorded (ledger_events L) (fst k) n))"

definition later_row :: "registry_row \<Rightarrow> registry_row \<Rightarrow> bool" where
  "later_row g g' \<longleftrightarrow> rg_pending_seq g' = rg_pending_seq g \<and>
     (rg_receipt_seq g \<noteq> None \<longrightarrow> rg_receipt_seq g' = rg_receipt_seq g) \<and>
     (rg_completed_seq g \<noteq> None \<longrightarrow> rg_completed_seq g' = rg_completed_seq g)"

definition ledger_inv :: "ext \<Rightarrow> ledger \<Rightarrow> bool" where
  "ledger_inv X L \<longleftrightarrow> rows_inv X L \<and> registry_inv L"

text \<open>The ledger only grows: events are appended, and what a step has recorded stays.\<close>

definition extends :: "ledger \<Rightarrow> ledger \<Rightarrow> bool" where
  "extends L L' \<longleftrightarrow> prefix (ledger_events L) (ledger_events L') \<and>
     (\<forall>k g. step_map L k = Some g \<longrightarrow> (\<exists>g'. step_map L' k = Some g' \<and> later_row g g'))"

lemma later_row_refl [simp]: "later_row g g"
  by (simp add: later_row_def)

lemma later_row_trans: "later_row a b \<Longrightarrow> later_row b c \<Longrightarrow> later_row a c"
  by (simp add: later_row_def)

lemma extends_refl [simp]: "extends L L"
  by (simp add: extends_def)

lemma extends_trans: "extends A B \<Longrightarrow> extends B C \<Longrightarrow> extends A C"
  unfolding extends_def by (meson later_row_trans prefix_order.trans)

lemma recorded_mono: "recorded es r n \<Longrightarrow> prefix es es' \<Longrightarrow> recorded es' r n"
  by (auto simp: recorded_def prefix_def)

lemma find_map_same:
  assumes "\<And>x. P (f x) = P x"
  shows "find P (map f xs) = map_option f (find P xs)"
  by (induction xs) (simp_all add: assms)

lemma find_hit: "find P xs = Some x \<Longrightarrow> x \<in> set xs" "find P xs = Some x \<Longrightarrow> P x"
  by (auto simp: find_Some_iff)

lemma find_exists: "x \<in> set xs \<Longrightarrow> P x \<Longrightarrow> \<exists>y. find P xs = Some y"
  by (induction xs) auto

lemma find_append: "find P (xs @ ys) = (case find P xs of None \<Rightarrow> find P ys | Some x \<Rightarrow> Some x)"
  by (induction xs) simp_all

lemma step_map_update:
  assumes "\<And>g. rg_run_id (f g) = rg_run_id g" "\<And>g. rg_step_id (f g) = rg_step_id g"
  shows "step_map (update_step r s f L) k =
    map_option (\<lambda>g. if k = (r, s) then f g else g) (step_map L k)"
proof -
  have "find_step (update_step r s f L) r' s' = map_option
      (\<lambda>g. if rg_run_id g = r \<and> rg_step_id g = s then f g else g) (find_step L r' s')" for r' s'
    unfolding find_step_def update_step_def by (simp add: find_map_same assms)
  moreover have "rg_run_id g = r' \<and> rg_step_id g = s'" if "find_step L r' s' = Some g" for g r' s'
    using that by (auto simp: find_step_def find_Some_iff)
  ultimately show ?thesis
    by (cases k; cases "step_map L k") (auto simp: step_map_def)
qed

lemma step_map_cong: "lg_registry L' = lg_registry L \<Longrightarrow> step_map L' = step_map L"
  by (simp add: step_map_def find_step_def fun_eq_iff)

lemma append_registry:
  "append_audit_conn_with_actor X a fresh now (L\<lparr>lg_registry := g\<rparr>) =
     map_sum id (map_prod id (lg_registry_update (\<lambda>_. g))) (append_audit_conn_with_actor X a fresh now L)"
  by (simp add: append_audit_conn_with_actor_def last_hash_def by_seq_def next_aggregate_seq_def
      next_seq_def insert_row_def Let_def split: sum.split)

lemma seq_unique:
  assumes "gap_free es" "e \<in> set es" "e' \<in> set es" "ae_aggregate_id e = ae_aggregate_id e'"
    "uint (ae_aggregate_seq e) = uint (ae_aggregate_seq e')"
  shows "e = e'"
proof -
  let ?as = "in_aggregate (ae_aggregate_id e) es"
  have "distinct (map (uint \<circ> ae_aggregate_seq) ?as)"
    using assms(1) by (simp add: gap_free_def distinct_map del: upt_Suc)
  then have "inj_on (uint \<circ> ae_aggregate_seq) (set ?as)" by (simp only: distinct_map)
  moreover have "e \<in> set ?as" "e' \<in> set ?as" using assms by (simp_all add: in_aggregate_def)
  ultimately show ?thesis using assms(5) by (simp add: inj_on_def)
qed

lemma row_event:
  assumes "rows_inv X L" "q \<in> set (lg_rows L)"
  shows "\<exists>i. \<exists>e\<in>set (ledger_events L). q = row_of X i e"
  using assms(2) set_rows_of [of q X "ledger_events L"] assms(1) by (simp only: rows_inv_def)

lemma event_row:
  assumes "rows_inv X L" "e \<in> set (ledger_events L)"
  shows "\<exists>i. row_of X i e \<in> set (lg_rows L)"
proof -
  obtain q where q: "q \<in> set (lg_rows L)" "the (lr_event q) = e"
    using assms(2) by (auto simp: ledger_events_def)
  then show ?thesis using row_event [OF assms(1) q(1)] by auto
qed

lemma recorded_event_inv:
  assumes "rows_inv X L" "e \<in> set (ledger_events L)" "ae_aggregate_id e = ''workflow_run:'' @ r"
    "uint (ae_aggregate_seq e) = n"
  shows "recorded_event L r n = Inr e"
proof -
  let ?P = "\<lambda>q. lr_aggregate_id q = ''workflow_run:'' @ r \<and> lr_aggregate_seq q = n"
  have ok: "gap_free (ledger_events L)" using assms(1) by (simp add: rows_inv_def events_ok_def)
  obtain i where q: "row_of X i e \<in> set (lg_rows L)" using event_row [OF assms(1,2)] by blast
  have P: "?P (row_of X i e)" using assms(3,4) by simp
  obtain q' where q': "find ?P (lg_rows L) = Some q'"
    using find_exists [of "row_of X i e" "lg_rows L" ?P, OF q P] by (elim exE)
  have m: "q' \<in> set (lg_rows L)" "?P q'"
    using find_hit [of ?P "lg_rows L" q', OF q'] by simp_all
  obtain j e' where e': "e' \<in> set (ledger_events L)" "q' = row_of X j e'"
    using row_event [OF assms(1) m(1)] by blast
  have "e' = e"
  proof (rule seq_unique [OF ok e'(1) assms(2)])
    show "ae_aggregate_id e' = ae_aggregate_id e" using m(2) assms(3) by (simp add: e'(2))
    show "uint (ae_aggregate_seq e') = uint (ae_aggregate_seq e)" using m(2) assms(4) by (simp add: e'(2))
  qed
  then show ?thesis unfolding recorded_event_def q' e'(2) by simp
qed

lemma registry_event:
  assumes "ledger_inv X L" "step_map L (r, s) = Some g" "n \<in> seqs_of g"
  shows "\<exists>e\<in>set (ledger_events L). ae_aggregate_id e = ''workflow_run:'' @ r \<and>
    uint (ae_aggregate_seq e) = n \<and> recorded_event L r n = Inr e"
proof -
  have "recorded (ledger_events L) r n" "rows_inv X L"
    using assms by (simp_all add: ledger_inv_def registry_inv_def)
  then show ?thesis unfolding recorded_def by (blast intro: recorded_event_inv)
qed

lemma aggregate_of_workflow [simp]: "aggregate_of X (workflow_input r k p) = ''workflow_run:'' @ r"
  by (simp add: aggregate_of_def workflow_input_def)

text \<open>One workflow write: an event of the run, and one registry row that points to it.\<close>

lemma ledger_events_cong: "lg_rows L' = lg_rows L \<Longrightarrow> ledger_events L' = ledger_events L"
  by (simp add: ledger_events_def)

lemma rows_inv_cong: "lg_rows L' = lg_rows L \<Longrightarrow> rows_inv X L' = rows_inv X L"
  by (simp add: rows_inv_def ledger_events_def)

lemma workflow_write:
  assumes "wf_ext X" "ledger_inv X L"
    and ap: "append_audit_conn_with_actor X (workflow_input r kind payload) fresh now L = Inr (ev, L2)"
    and rows: "lg_rows L' = lg_rows L2"
    and reg: "step_map L' = (step_map L)((r, s) \<mapsto> g')"
    and seqs: "\<forall>n\<in>seqs_of g'. n = uint (ae_aggregate_seq ev) \<or>
      (\<exists>g. step_map L (r, s) = Some g \<and> n \<in> seqs_of g)"
    and later: "\<forall>g. step_map L (r, s) = Some g \<longrightarrow> later_row g g'"
  shows "ledger_inv X L'" "extends L L'"
proof -
  have "rows_inv X L" using assms(2) by (simp add: ledger_inv_def)
  note a = append_inv [OF assms(1) this ap]
  have ev: "ledger_events L' = ledger_events L @ [ev]"
    using a(3) ledger_events_cong [OF rows] by simp
  have rec: "recorded (ledger_events L') r' n" if "recorded (ledger_events L) r' n" for r' n
    using that by (auto simp: recorded_def ev)
  have new: "recorded (ledger_events L') r (uint (ae_aggregate_seq ev))"
    using a(4) by (simp add: recorded_def ev)
  have "registry_inv L'"
    unfolding registry_inv_def
  proof (intro allI impI ballI)
    fix k g n assume g: "step_map L' k = Some g" and n: "n \<in> seqs_of g"
    have old: "recorded (ledger_events L) (fst k) n" if "step_map L k = Some h" "n \<in> seqs_of h" for h
      using that assms(2) unfolding ledger_inv_def registry_inv_def by blast
    show "recorded (ledger_events L') (fst k) n"
    proof (cases "k = (r, s)")
      case True
      then have "g = g'" using g reg by simp
      then consider "n = uint (ae_aggregate_seq ev)" | h where "step_map L (r, s) = Some h" "n \<in> seqs_of h"
        using seqs n by blast
      then show ?thesis by cases (use True new old rec in auto)
    next
      case False
      then show ?thesis using g n reg old rec by simp
    qed
  qed
  moreover have "rows_inv X L'" using a(2) rows_inv_cong [OF rows] by simp
  ultimately show "ledger_inv X L'" by (simp add: ledger_inv_def)
  show "extends L L'"
    unfolding extends_def reg using later by (simp add: ev prefix_def)
qed

lemma append_step:
  assumes "wf_ext X" "ledger_inv X L"
    "append_audit_conn_with_actor X a fresh now L = Inr (ev, L')"
  shows "ledger_inv X L'" "extends L L'"
proof -
  have "rows_inv X L" using assms(2) by (simp add: ledger_inv_def)
  note a = append_inv [OF assms(1) this assms(3)]
  have sm: "step_map L' = step_map L" by (rule step_map_cong) (simp add: a(1))
  have "registry_inv L'"
    using assms(2) recorded_mono [of "ledger_events L" _ _ "ledger_events L'"]
    by (auto simp: ledger_inv_def registry_inv_def sm a(3))
  with a(2) show "ledger_inv X L'" by (simp add: ledger_inv_def)
  show "extends L L'" by (simp add: extends_def sm a(3))
qed

lemma with_immediate_tx_cases:
  assumes "P st" "\<And>a st'. f st = Inr (a, st') \<Longrightarrow> P st'"
  shows "P (snd (with_immediate_tx f st))"
  using assms by (auto simp: with_immediate_tx_def split: sum.split)

lemma append_with_registry:
  assumes "append_audit_conn_with_actor X a fresh now L1 = Inr (ev, L2)" "lg_rows L1 = lg_rows L"
  shows "\<exists>L3. append_audit_conn_with_actor X a fresh now L = Inr (ev, L3) \<and> lg_rows L2 = lg_rows L3 \<and>
    lg_registry L2 = lg_registry L1 \<and> lg_timers L2 = lg_timers L1"
proof -
  let ?M = "L\<lparr>lg_registry := lg_registry L1, lg_timers := lg_timers L1, lg_checkpoints := lg_checkpoints L1\<rparr>"
  have "?M = L1" using assms(2) by (cases L, cases L1) simp
  then have ap: "append_audit_conn_with_actor X a fresh now ?M = Inr (ev, L2)" using assms(1) by simp
  have "append_audit_conn_with_actor X a fresh now ?M = map_sum id
      (map_prod id (\<lambda>L3. L3\<lparr>lg_registry := lg_registry L1, lg_timers := lg_timers L1,
        lg_checkpoints := lg_checkpoints L1\<rparr>))
      (append_audit_conn_with_actor X a fresh now L)"
    by (simp add: append_audit_conn_with_actor_def last_hash_def by_seq_def next_aggregate_seq_def
        next_seq_def insert_row_def Let_def split: sum.split)
  then show ?thesis
    using ap by (cases "append_audit_conn_with_actor X a fresh now L") auto
qed

lemma step_map_snoc:
  "step_map (L\<lparr>lg_registry := lg_registry L @ [g]\<rparr>) k =
     (case step_map L k of Some h \<Rightarrow> Some h
      | None \<Rightarrow> if k = (rg_run_id g, rg_step_id g) then Some g else None)"
  by (cases k) (simp add: step_map_def find_step_def find_append split: option.split)

text \<open>The three recording operations as one write, or a reading of what is recorded.\<close>

lemma pending_write:
  assumes "append_workflow_step_if_absent X r kind payload s fresh now L = (Inr (ev, b), L')"
  obtains (found) g where "step_map L (r, s) = Some g" "L' = L" "b = False"
      "recorded_event L r (rg_pending_seq g) = Inr ev"
  | (written) L3 where "step_map L (r, s) = None" "b = True"
      "append_audit_conn_with_actor X (workflow_input r kind payload) fresh now L = Inr (ev, L3)"
      "lg_rows L' = lg_rows L3"
      "step_map L' = (step_map L)((r, s) \<mapsto> \<lparr>rg_run_id = r, rg_step_id = s,
         rg_pending_seq = uint (ae_aggregate_seq ev), rg_receipt_seq = None, rg_completed_seq = None\<rparr>)"
proof (cases "step_map L (r, s)")
  case None
  let ?g = "\<lparr>rg_run_id = r, rg_step_id = s, rg_pending_seq = -1, rg_receipt_seq = None,
    rg_completed_seq = None\<rparr>"
  let ?L1 = "L\<lparr>lg_registry := lg_registry L @ [?g]\<rparr>"
  let ?f = "\<lambda>g. if rg_pending_seq g = -1 then g\<lparr>rg_pending_seq := uint (ae_aggregate_seq ev)\<rparr> else g"
  from None assms obtain L2 where
    ap: "append_audit_conn_with_actor X (workflow_input r kind payload) fresh now ?L1 = Inr (ev, L2)"
    and b: "b = True" and L': "L' = update_step r s ?f L2"
    by (auto simp: append_workflow_step_if_absent_def with_immediate_tx_def step_map_def Let_def
        split: sum.splits)
  obtain L3 where L3: "append_audit_conn_with_actor X (workflow_input r kind payload) fresh now L = Inr (ev, L3)"
    "lg_rows L2 = lg_rows L3" "lg_registry L2 = lg_registry ?L1"
    using append_with_registry [OF ap, of L] by auto
  have "step_map L' k = map_option (\<lambda>g. if k = (r, s) then ?f g else g) (step_map ?L1 k)" for k
    unfolding L' using step_map_update [of ?f r s L2 k] step_map_cong [OF L3(3)] by simp
  then have "step_map L' = (step_map L)((r, s) \<mapsto> ?f ?g)"
    using None by (auto simp: fun_eq_iff step_map_snoc split: option.split)
  then show thesis
    by (intro written [OF None b L3(1)]) (simp_all add: L' update_step_def L3(2))
next
  case (Some g)
  with assms show thesis
    by (intro found [of g])
      (auto simp: append_workflow_step_if_absent_def with_immediate_tx_def step_map_def split: sum.splits)
qed

lemma claim_write:
  assumes ap: "append_audit_conn_with_actor X a fresh now (update_step r s (put (Some (-1))) L) = Inr (ev, L2)"
    and L': "L' = update_step r s (\<lambda>g. if get g = Some (-1) then put (Some n) g else g) L2"
    and g: "step_map L (r, s) = Some g"
    and laws: "\<And>v h. get (put v h) = v" "\<And>v w h. put v (put w h) = put v h"
      "\<And>v h. rg_run_id (put v h) = rg_run_id h" "\<And>v h. rg_step_id (put v h) = rg_step_id h"
  shows "\<exists>L3. append_audit_conn_with_actor X a fresh now L = Inr (ev, L3) \<and> lg_rows L' = lg_rows L3 \<and>
    step_map L' = (step_map L)((r, s) \<mapsto> put (Some n) g)"
proof -
  let ?L1 = "update_step r s (put (Some (-1))) L"
    and ?f = "\<lambda>g. if get g = Some (-1) then put (Some n) g else g"
  obtain L3 where L3: "append_audit_conn_with_actor X a fresh now L = Inr (ev, L3)"
    "lg_rows L2 = lg_rows L3" "lg_registry L2 = lg_registry ?L1"
    using append_with_registry [OF ap, of L] by (auto simp: update_step_def)
  have "step_map L' k = map_option (\<lambda>g. if k = (r, s) then ?f g else g) (step_map ?L1 k)" for k
    unfolding L' using step_map_update [of ?f r s L2 k] step_map_cong [OF L3(3)] laws by simp
  moreover have "step_map ?L1 k = map_option (\<lambda>g. if k = (r, s) then put (Some (-1)) g else g) (step_map L k)" for k
    by (rule step_map_update) (simp_all add: laws)
  ultimately have "step_map L' = (step_map L)((r, s) \<mapsto> put (Some n) g)"
    using g by (auto simp: fun_eq_iff laws option.map_comp comp_def option.map_ident)
  moreover have "lg_rows L' = lg_rows L3" by (simp add: L' update_step_def L3(2))
  ultimately show ?thesis using L3(1) by blast
qed

lemma receipt_write:
  assumes "append_workflow_receipt X r kind payload s fresh now L = (Inr (ev, b), L')"
  obtains (found) g n where "step_map L (r, s) = Some g" "rg_receipt_seq g = Some n" "L' = L"
      "b = False" "recorded_event L r n = Inr ev"
  | (written) L3 g where "step_map L (r, s) = Some g" "rg_receipt_seq g = None" "b = True"
      "append_audit_conn_with_actor X (workflow_input r kind payload) fresh now L = Inr (ev, L3)"
      "lg_rows L' = lg_rows L3"
      "step_map L' = (step_map L)((r, s) \<mapsto> g\<lparr>rg_receipt_seq := Some (uint (ae_aggregate_seq ev))\<rparr>)"
proof -
  obtain g where g: "step_map L (r, s) = Some g"
    using assms by (auto simp: append_workflow_receipt_def with_immediate_tx_def step_map_def
        split: sum.splits option.splits)
  show thesis
  proof (cases "rg_receipt_seq g")
    case None
    obtain L2 where ap: "append_audit_conn_with_actor X (workflow_input r kind payload) fresh now
        (update_step r s (\<lambda>g. g\<lparr>rg_receipt_seq := Some (-1)\<rparr>) L) = Inr (ev, L2)" and b: "b = True"
      and L': "L' = update_step r s (\<lambda>g. if rg_receipt_seq g = Some (-1)
        then g\<lparr>rg_receipt_seq := Some (uint (ae_aggregate_seq ev))\<rparr> else g) L2"
      using assms g None
      by (auto simp: append_workflow_receipt_def with_immediate_tx_def step_map_def Let_def split: sum.splits)
    show ?thesis
      using claim_write [where get = rg_receipt_seq and put = "\<lambda>v g. g\<lparr>rg_receipt_seq := v\<rparr>", OF ap L' g]
      by (auto intro: written [OF g None b])
  next
    case (Some n)
    show ?thesis
      by (rule found [OF g Some]) (use assms g Some in \<open>auto simp: append_workflow_receipt_def
        with_immediate_tx_def step_map_def split: sum.splits\<close>)
  qed
qed

lemma completion_write:
  assumes "append_workflow_completion X r kind payload s fresh now L = (Inr (ev, b), L')"
  obtains (found) g n where "step_map L (r, s) = Some g" "rg_completed_seq g = Some n" "L' = L"
      "b = False" "recorded_event L r n = Inr ev"
  | (written) L3 g where "step_map L (r, s) = Some g" "rg_completed_seq g = None" "b = True"
      "append_audit_conn_with_actor X (workflow_input r kind payload) fresh now L = Inr (ev, L3)"
      "lg_rows L' = lg_rows L3"
      "step_map L' = (step_map L)((r, s) \<mapsto> g\<lparr>rg_completed_seq := Some (uint (ae_aggregate_seq ev))\<rparr>)"
proof -
  obtain g where g: "step_map L (r, s) = Some g"
    using assms by (auto simp: append_workflow_completion_def with_immediate_tx_def step_map_def
        split: sum.splits option.splits)
  show thesis
  proof (cases "rg_completed_seq g")
    case None
    obtain L2 where ap: "append_audit_conn_with_actor X (workflow_input r kind payload) fresh now
        (update_step r s (\<lambda>g. g\<lparr>rg_completed_seq := Some (-1)\<rparr>) L) = Inr (ev, L2)" and b: "b = True"
      and L': "L' = update_step r s (\<lambda>g. if rg_completed_seq g = Some (-1)
        then g\<lparr>rg_completed_seq := Some (uint (ae_aggregate_seq ev))\<rparr> else g) L2"
      using assms g None
      by (auto simp: append_workflow_completion_def with_immediate_tx_def step_map_def Let_def split: sum.splits)
    show ?thesis
      using claim_write [where get = rg_completed_seq and put = "\<lambda>v g. g\<lparr>rg_completed_seq := v\<rparr>", OF ap L' g]
      by (auto intro: written [OF g None b])
  next
    case (Some n)
    show ?thesis
      by (rule found [OF g Some]) (use assms g Some in \<open>auto simp: append_workflow_completion_def
        with_immediate_tx_def step_map_def split: sum.splits\<close>)
  qed
qed

lemma insert_timer_Inr:
  assumes "insert_timer t L = Inr L'"
  shows "L' = L\<lparr>lg_timers := lg_timers L @ [t]\<rparr>" "\<forall>q\<in>set (lg_timers L). tm_timer_id q \<noteq> tm_timer_id t"
  using assms by (auto simp: insert_timer_def list_ex_iff split: if_splits)

lemma schedule_write:
  assumes "schedule_workflow_timer_step X r s pending kind digest fires_at timer fresh now L = (Inr (ev, b), L')"
  obtains (found) g n where "step_map L (r, s) = Some g" "rg_completed_seq g = Some n" "L' = L"
      "b = False" "recorded_event L r n = Inr ev"
  | (written) L3 g where "step_map L (r, s) = Some g" "rg_completed_seq g = None" "b = True"
      "append_audit_conn_with_actor X (workflow_input r kind (canonical_json X
         (timer_completion_json X s digest (ulid_text X timer) fires_at))) fresh now L = Inr (ev, L3)"
      "lg_rows L' = lg_rows L3"
      "step_map L' = (step_map L)((r, s) \<mapsto> g\<lparr>rg_completed_seq := Some (uint (ae_aggregate_seq ev))\<rparr>)"
      "lg_timers L' = lg_timers L @ [\<lparr>tm_timer_id = ulid_text X timer, tm_run_id = r,
         tm_fires_at = fires_at, tm_fired = False, tm_fired_event_id = None\<rparr>]"
      "\<forall>q\<in>set (lg_timers L). tm_timer_id q \<noteq> ulid_text X timer"
proof -
  obtain g where g: "step_map L (r, s) = Some g"
    using assms by (auto simp: schedule_workflow_timer_step_def with_immediate_tx_def step_map_def
        split: sum.splits option.splits)
  show thesis
  proof (cases "rg_completed_seq g")
    case None
    let ?a = "workflow_input r kind (canonical_json X
      (timer_completion_json X s digest (ulid_text X timer) fires_at))"
    let ?t = "\<lparr>tm_timer_id = ulid_text X timer, tm_run_id = r, tm_fires_at = fires_at,
      tm_fired = False, tm_fired_event_id = None\<rparr>"
    let ?f = "\<lambda>g. if rg_completed_seq g = Some (-1)
      then g\<lparr>rg_completed_seq := Some (uint (ae_aggregate_seq ev))\<rparr> else g"
    obtain L2 L4 where ap: "append_audit_conn_with_actor X ?a fresh now
        (update_step r s (\<lambda>g. g\<lparr>rg_completed_seq := Some (-1)\<rparr>) L) = Inr (ev, L2)" and b: "b = True"
      and t: "insert_timer ?t L2 = Inr L4" and L': "L' = update_step r s ?f L4"
      using assms g None
      by (auto simp: schedule_workflow_timer_step_def with_immediate_tx_def step_map_def Let_def
          epoch_nanos_def split: sum.splits option.splits if_splits)
    let ?M = "update_step r s ?f L2"
    obtain L3 where L3: "append_audit_conn_with_actor X ?a fresh now L = Inr (ev, L3)"
      "lg_rows ?M = lg_rows L3"
      "step_map ?M = (step_map L)((r, s) \<mapsto> g\<lparr>rg_completed_seq := Some (uint (ae_aggregate_seq ev))\<rparr>)"
      using claim_write [where get = rg_completed_seq and put = "\<lambda>v g. g\<lparr>rg_completed_seq := v\<rparr>", OF ap refl g]
      by auto
    have tm: "lg_timers L2 = lg_timers L"
      using append_with_registry [OF ap, of L] by (auto simp: update_step_def)
    have m: "lg_rows L' = lg_rows ?M" "lg_registry L' = lg_registry ?M" "lg_timers L' = lg_timers L @ [?t]"
      using insert_timer_Inr(1) [OF t] tm by (simp_all add: L' update_step_def)
    show ?thesis
      by (rule written [OF g None b L3(1)])
        (use m L3 step_map_cong [OF m(2)] insert_timer_Inr(2) [OF t] tm in simp_all)
  next
    case (Some n)
    show ?thesis
      by (rule found [OF g Some]) (use assms g Some in \<open>auto simp: schedule_workflow_timer_step_def
        with_immediate_tx_def step_map_def split: sum.splits option.splits if_splits\<close>)
  qed
qed

text \<open>Firing: the terminal event of a claimed timer, or a reading of the one that was written.\<close>

lemma fire_write:
  assumes "fire_workflow_timer X i time fresh now L = (Inr ev, L')"
  obtains (found) t fired where "find_timer L i = Some t" "\<not> claimable t time"
      "tm_fired_event_id t = Some fired" "fired \<noteq> []" "stored_event L fired = Inr ev"
      "L' = update_timer i (\<lambda>t. t\<lparr>tm_fired_event_id := Some (ulid_text X (ae_id ev))\<rparr>) L"
  | (written) t L3 where "find_timer L i = Some t" "claimable t time"
      "append_audit_conn_with_actor X (timer_input X t) fresh now L = Inr (ev, L3)"
      "lg_rows L' = lg_rows L3" "lg_registry L' = lg_registry L"
      "lg_timers L' = lg_timers (update_timer i
         (\<lambda>t. t\<lparr>tm_fired := True, tm_fired_event_id := Some (ulid_text X (ae_id ev))\<rparr>) L)"
proof -
  obtain t where t: "find_timer L i = Some t" and n: "epoch_nanos time = Inr time"
    using assms by (auto simp: fire_workflow_timer_def with_immediate_tx_def epoch_nanos_def
        split: option.splits if_splits)
  show thesis
  proof (cases "claimable t time")
    case True
    obtain L2 where ap: "append_audit_conn_with_actor X (timer_input X t) fresh now
        (update_timer i (\<lambda>t. t\<lparr>tm_fired := True, tm_fired_event_id := Some []\<rparr>) L) = Inr (ev, L2)"
      and L': "L' = update_timer i (\<lambda>t. t\<lparr>tm_fired_event_id := Some (ulid_text X (ae_id ev))\<rparr>) L2"
      using assms t n True
      by (auto simp: fire_workflow_timer_def with_immediate_tx_def Let_def split: sum.splits)
    obtain L3 where L3: "append_audit_conn_with_actor X (timer_input X t) fresh now L = Inr (ev, L3)"
      "lg_rows L2 = lg_rows L3" "lg_registry L2 = lg_registry L"
      "lg_timers L2 = lg_timers (update_timer i (\<lambda>t. t\<lparr>tm_fired := True, tm_fired_event_id := Some []\<rparr>) L)"
      using append_with_registry [OF ap, of L] by (auto simp: update_timer_def)
    show ?thesis
      by (rule written [OF t True L3(1)]) (use L3 in \<open>simp_all add: L' update_timer_def cong: if_cong\<close>)
  next
    case False
    show ?thesis
      using assms t n False
      by (auto simp: fire_workflow_timer_def with_immediate_tx_def split: sum.splits option.splits if_splits
          intro: found)
  qed
qed

section \<open>The invariant of reachable ledgers\<close>

lemma seqs_of_updates:
  "seqs_of (g\<lparr>rg_receipt_seq := Some n\<rparr>) \<subseteq> insert n (seqs_of g)"
  "seqs_of (g\<lparr>rg_completed_seq := Some n\<rparr>) \<subseteq> insert n (seqs_of g)"
  by (auto simp: seqs_of_def)

definition grows :: "ext \<Rightarrow> ledger \<Rightarrow> ledger \<Rightarrow> bool" where
  "grows X L L' \<longleftrightarrow> ledger_inv X L' \<and> extends L L'"

lemma grows_refl: "ledger_inv X L \<Longrightarrow> grows X L L"
  by (simp add: grows_def)

lemma grows_tx:
  assumes "ledger_inv X L" "op = with_immediate_tx f" "\<And>a L'. op L = (Inr a, L') \<Longrightarrow> grows X L L'"
  shows "grows X L (snd (op L))"
  using assms by (cases "f L") (auto simp: with_immediate_tx_def grows_refl)

lemma grows_op:
  assumes "ledger_inv X L" "op = with_immediate_tx f"
    "\<And>ev b L'. op L = (Inr (ev, b), L') \<Longrightarrow> grows X L L'"
  shows "grows X L (snd (op L))"
  by (rule grows_tx [OF assms(1,2)]) (use assms(3) in auto)

lemma grows_pending:
  assumes "wf_ext X" "ledger_inv X L"
  shows "grows X L (snd (append_workflow_step_if_absent X r kind payload s fresh now L))"
proof (rule grows_op [OF assms(2) append_workflow_step_if_absent_def])
  fix ev b L' assume "append_workflow_step_if_absent X r kind payload s fresh now L = (Inr (ev, b), L')"
  then show "grows X L L'"
  proof (cases rule: pending_write)
    case (written L3)
    from workflow_write [OF assms written(3-5)] written(1) show ?thesis
      by (simp add: grows_def seqs_of_def)
  qed (simp add: grows_refl assms)
qed

lemma grows_receipt:
  assumes "wf_ext X" "ledger_inv X L"
  shows "grows X L (snd (append_workflow_receipt X r kind payload s fresh now L))"
proof (rule grows_op [OF assms(2) append_workflow_receipt_def])
  fix ev b L' assume "append_workflow_receipt X r kind payload s fresh now L = (Inr (ev, b), L')"
  then show "grows X L L'"
  proof (cases rule: receipt_write)
    case (written L3 g)
    from workflow_write [OF assms written(4-6)] written(1,2) seqs_of_updates(1) show ?thesis
      by (force simp: grows_def later_row_def)
  qed (simp add: grows_refl assms)
qed

lemma grows_completion:
  assumes "wf_ext X" "ledger_inv X L"
  shows "grows X L (snd (append_workflow_completion X r kind payload s fresh now L))"
proof (rule grows_op [OF assms(2) append_workflow_completion_def])
  fix ev b L' assume "append_workflow_completion X r kind payload s fresh now L = (Inr (ev, b), L')"
  then show "grows X L L'"
  proof (cases rule: completion_write)
    case (written L3 g)
    from workflow_write [OF assms written(4-6)] written(1,2) seqs_of_updates(2) show ?thesis
      by (force simp: grows_def later_row_def)
  qed (simp add: grows_refl assms)
qed

lemma grows_append:
  assumes "wf_ext X" "ledger_inv X L"
  shows "grows X L (snd (with_immediate_tx (append_audit_conn_with_actor X a fresh now) L))"
  by (rule with_immediate_tx_cases [where P = "grows X L"])
    (auto simp: grows_def assms(2) intro: append_step [OF assms])

lemma grows_schedule:
  assumes "wf_ext X" "ledger_inv X L"
  shows "grows X L (snd (schedule_workflow_timer_step X r s pending kind digest fires_at timer fresh now L))"
proof (rule grows_op [OF assms(2) schedule_workflow_timer_step_def])
  fix ev b L'
  assume "schedule_workflow_timer_step X r s pending kind digest fires_at timer fresh now L = (Inr (ev, b), L')"
  then show "grows X L L'"
  proof (cases rule: schedule_write)
    case (written L3 g)
    from workflow_write [OF assms written(4-6)] written(1,2) seqs_of_updates(2) show ?thesis
      by (force simp: grows_def later_row_def)
  qed (simp add: grows_refl assms)
qed

lemma grows_cong:
  assumes "grows X L M" "lg_rows L' = lg_rows M" "lg_registry L' = lg_registry M"
  shows "grows X L L'"
  using assms(1) unfolding grows_def ledger_inv_def registry_inv_def extends_def
    rows_inv_cong [OF assms(2)] ledger_events_cong [OF assms(2)] step_map_cong [OF assms(3)] .

lemma grows_fire:
  assumes "wf_ext X" "ledger_inv X L"
  shows "grows X L (snd (fire_workflow_timer X i time fresh now L))"
proof (rule grows_tx [OF assms(2) fire_workflow_timer_def])
  fix ev L' assume "fire_workflow_timer X i time fresh now L = (Inr ev, L')"
  then show "grows X L L'"
  proof (cases rule: fire_write)
    case (found t fired)
    show ?thesis
      by (rule grows_cong [OF grows_refl [OF assms(2)]]) (simp_all add: found update_timer_def)
  next
    case (written t L3)
    have "rows_inv X L" using assms(2) by (simp add: ledger_inv_def)
    then have r: "lg_registry L3 = lg_registry L" using append_inv(1) [OF assms(1) _ written(3)] by simp
    have "grows X L L3" using append_step [OF assms written(3)] by (simp add: grows_def)
    then show ?thesis by (rule grows_cong) (simp_all add: written(4,5) r)
  qed
qed

lemma ledger_step_grows:
  assumes "wf_ext X" "ledger_step X L L'" "ledger_inv X L"
  shows "grows X L L'"
  using assms(2)
proof cases
  case (step_checkpoints c)
  then show ?thesis by (intro grows_cong [OF grows_refl [OF assms(3)]]) simp_all
next
  case step_append
  then show ?thesis using grows_append [OF assms(1,3)] by (simp add: append_audit_def)
next
  case step_workflow
  then show ?thesis using grows_append [OF assms(1,3)] by (simp add: append_workflow_step_def)
qed (simp_all only: grows_pending [OF assms(1,3)] grows_receipt [OF assms(1,3)]
    grows_completion [OF assms(1,3)] grows_schedule [OF assms(1,3)] grows_fire [OF assms(1,3)])

lemma ledger_steps_grow:
  assumes "wf_ext X" "(ledger_step X)\<^sup>*\<^sup>* L L'" "ledger_inv X L"
  shows "grows X L L'"
  using assms(2)
proof (induction rule: rtranclp_induct)
  case (step M N)
  then show ?case using ledger_step_grows [OF assms(1)] unfolding grows_def by (blast intro: extends_trans)
qed (simp add: grows_def assms(3))

lemma ledger_run_inv: "wf_ext X \<Longrightarrow> ledger_run X L \<Longrightarrow> ledger_inv X L"
proof -
  assume a: "wf_ext X" "ledger_run X L"
  have "ledger_inv X empty_ledger"
    by (simp add: ledger_inv_def rows_inv_def registry_inv_def empty_ledger_def ledger_events_def
        rows_of_def events_ok_def gap_free_def in_aggregate_def step_map_def find_step_def)
  from ledger_steps_grow [OF a(1) a(2) [unfolded ledger_run_def] this] show ?thesis
    by (simp add: grows_def)
qed

lemma ledger_run_rows:
  assumes "wf_ext X" "ledger_run X L"
  shows "rows_inv X L" "events_ok X (ledger_events L)" "by_seq L = rows_of X (ledger_events L)"
proof -
  show r: "rows_inv X L" using ledger_run_inv [OF assms] by (simp add: ledger_inv_def)
  then show "events_ok X (ledger_events L)" by (simp add: rows_inv_def)
  from r have "lg_rows L = rows_of X (ledger_events L)" by (simp only: rows_inv_def)
  then show "by_seq L = rows_of X (ledger_events L)" using by_seq_inv [OF r] by (rule subst)
qed

lemma run_verifies:
  assumes "wf_ext X" "wf_serde X" "ledger_run X L"
  shows "verify_rows X (digest_str genesis_digest) (by_seq L)"
proof -
  have ok: "events_ok X (ledger_events L)" by (rule ledger_run_rows(2) [OF assms(1,3)])
  then show ?thesis
    unfolding ledger_run_rows(3) [OF assms(1,3)] rows_of_def
    by (intro verify_rows_linked [OF assms(1,2)]) (simp_all add: events_ok_def)
qed

lemma rows_after:
  "filter (\<lambda>r. after < lr_seq r) (rows_of X es) =
     map (\<lambda>(i, e). row_of X (int i) e) (filter (\<lambda>(i, e). after < int i) (enumerate 1 es))"
  by (simp add: rows_of_def filter_map comp_def case_prod_unfold)

lemma run_replay:
  assumes "wf_ext X" "wf_serde X" "ledger_run X L"
  shows "replay_audit_conn X f after L = Inr (filter (entry_matches f)
    (map (\<lambda>(i, e). \<lparr>le_global_seq = word_of_int (int i), le_event = e\<rparr>)
      (filter (\<lambda>(i, e). after < int i) (enumerate 1 (ledger_events L)))))"
proof -
  have "\<forall>e\<in>set (ledger_events L). ae_schema_version e = 1"
    using ledger_run_rows(2) [OF assms(1,3)] by (simp add: events_ok_def)
  then have "\<forall>(i, e)\<in>set (filter (\<lambda>(i, e). after < int i) (enumerate 1 (ledger_events L))).
      ae_schema_version e = 1"
    by (auto simp: in_set_enumerate_eq)
  then show ?thesis
    unfolding replay_audit_conn_def ledger_run_rows(3) [OF assms(1,3)] rows_after
    by (rule visit_rows_of [OF assms(2)])
qed

lemma filter_enumerate_snd: "map snd (filter (\<lambda>(i, e). P e) (enumerate n es)) = filter P es"
  by (induction es arbitrary: n) auto

lemma filter_enumerate_all: "m < int n \<Longrightarrow> filter (\<lambda>(i, e). m < int i) (enumerate n es) = enumerate n es"
  by (induction es arbitrary: n) auto

lemma run_replay_aggregate:
  assumes "wf_ext X" "wf_serde X" "ledger_run X L"
  shows "verify_and_replay_aggregate X a L = Inr (in_aggregate a (ledger_events L))"
proof -
  have m: "entry_matches (filter_aggregate a) en \<longleftrightarrow> ae_aggregate_id (le_event en) = a" for en
    by (auto simp: entry_matches_def filter_aggregate_def filter_matches_def)
  have "map le_event (filter (entry_matches (filter_aggregate a))
      (map (\<lambda>(i, e). \<lparr>le_global_seq = word_of_int (int i), le_event = e\<rparr>) (enumerate 1 (ledger_events L)))) =
      map snd (filter (\<lambda>(i, e). ae_aggregate_id e = a) (enumerate 1 (ledger_events L)))"
    by (simp add: filter_map comp_def case_prod_unfold m)
  moreover have "filter (\<lambda>(i, e). 0 < int i) (enumerate 1 (ledger_events L)) = enumerate 1 (ledger_events L)"
    by (rule filter_enumerate_all) simp
  note run_replay [OF assms, of "filter_aggregate a" 0, unfolded this]
  ultimately show ?thesis
    using run_verifies [OF assms]
    by (simp add: verify_and_replay_aggregate_def filter_enumerate_snd in_aggregate_def)
qed

lemma append_fields:
  assumes "append_audit_conn_with_actor X a fresh now L = Inr (e, L')"
  shows "ae_id e = fresh" "ae_ts e = now" "kind_str (ae_kind e) = an_kind a"
    "ae_action e = an_action a" "ae_decision e = an_decision a" "ae_reason e = an_reason a"
    "ae_task_grant_id e = an_task_grant_id a" "ae_target_refs e = an_target_refs a"
    "ae_payload_refs e = an_payload_refs a" "ae_actor e = an_actor a"
  using assms
  by (auto simp: append_audit_conn_with_actor_def Let_def sealed_event_def audit_kind_new_def
      split: sum.splits if_splits)

lemma append_refused:
  assumes "wf_ext X" "rows_inv X L" "append_audit_conn_with_actor X a fresh now L = Inl err"
  shows "an_kind a = [] \<or> ulid_text X fresh \<in> lr_id ` set (lg_rows L) \<or>
    2 ^ 63 \<le> int (length (in_aggregate (aggregate_of X a) (ledger_events L))) + 1"
proof (rule ccontr)
  let ?n = "int (length (in_aggregate (aggregate_of X a) (ledger_events L)))"
  assume "\<not> ?thesis"
  then have k: "an_kind a \<noteq> []" and id: "ulid_text X fresh \<notin> lr_id ` set (lg_rows L)" and n: "?n + 1 < 2 ^ 63"
    by simp_all
  have id': "\<forall>q\<in>set (lg_rows L). lr_id q \<noteq> ulid_text X fresh" using id by force
  have u: "uint (word_of_int (?n + 1) :: u64) = ?n + 1" using n by (intro uint_u64) simp_all
  have fresh_seq: "lr_aggregate_seq q \<noteq> ?n + 1"
    if q: "q \<in> set (lg_rows L)" "lr_aggregate_id q = aggregate_of X a" for q
  proof -
    obtain i e where e: "e \<in> set (ledger_events L)" "q = row_of X i e"
      using row_event [OF assms(2) q(1)] by blast
    then have "e \<in> set (in_aggregate (aggregate_of X a) (ledger_events L))"
      using q(2) by (simp add: in_aggregate_def)
    then have "uint (ae_aggregate_seq e) \<in> set (map int [1..<Suc (nat ?n)])"
      using assms(2) by (metis (no_types, lifting) comp_apply events_ok_def gap_free_def image_eqI
          list.set_map nat_int rows_inv_def)
    then show ?thesis using e(2) by auto
  qed
  have "insert_row (row_of X (next_seq L) ev) L \<noteq> Inl err"
    if "ae_id ev = fresh" "ae_aggregate_id ev = aggregate_of X a" "uint (ae_aggregate_seq ev) = ?n + 1" for ev err
    using id' fresh_seq that by (auto simp: insert_row_def list_ex_iff)
  then show False
    using assms(3) k n u
    by (auto simp: append_audit_conn_with_actor_def last_hash_inv [OF assms(1,2)] audit_kind_new_def
        next_aggregate_seq_inv [OF assms(2)] Let_def sealed_event_def split: sum.splits)
qed

text \<open>An append with a fresh identifier and room in the counters is accepted.\<close>

lemma append_roomy:
  assumes "wf_ext X" "rows_inv X L" "an_kind a \<noteq> []" "ulid_text X fresh \<notin> lr_id ` set (lg_rows L)"
    "int (length (ledger_events L)) + 1 < 2 ^ 63"
  obtains e L' where "append_audit_conn_with_actor X a fresh now L = Inr (e, L')" "rows_inv X L'"
    "ledger_events L' = ledger_events L @ [e]" "lr_id ` set (lg_rows L') = insert (ulid_text X fresh) (lr_id ` set (lg_rows L))"
proof (cases "append_audit_conn_with_actor X a fresh now L")
  case (Inl err)
  have "length (in_aggregate g (ledger_events L)) \<le> length (ledger_events L)" for g
    by (simp add: in_aggregate_def)
  from this[of "aggregate_of X a"] append_refused[OF assms(1,2) Inl] assms(3-5) show thesis by simp
next
  case (Inr p)
  obtain e L' where p: "append_audit_conn_with_actor X a fresh now L = Inr (e, L')" using Inr by (cases p) auto
  note i = append_inv[OF assms(1,2) p]
  have "lr_id (row_of X n e) = ulid_text X fresh" for n using append_fields(1)[OF p] by (simp add: row_of_def)
  with i show thesis by (intro that[OF p]) simp_all
qed

end
