(* ===== verification/Ledger_Evidence.thy ===== *)
theory Ledger_Evidence
  imports Ledger_Integrity "HOL-Library.Countable"
begin

text \<open>
  What the audit ledger guarantees: ledgers written by the kernel verify and replay, a verified
  ledger is bound to its head hash, and a workflow step is recorded once.
\<close>

section \<open>What a workflow step has recorded\<close>

lemma recorded_event_Inr:
  assumes "rows_inv X L" "recorded_event L r n = Inr ev"
  shows "ev \<in> set (ledger_events L)" "ae_aggregate_id ev = ''workflow_run:'' @ r" "uint (ae_aggregate_seq ev) = n"
proof -
  let ?P = "\<lambda>q. lr_aggregate_id q = ''workflow_run:'' @ r \<and> lr_aggregate_seq q = n"
  obtain q where q: "find ?P (lg_rows L) = Some q" "lr_event q = Some ev"
    using assms(2) by (auto simp: recorded_event_def split: option.splits)
  have m: "q \<in> set (lg_rows L)" "?P q" using find_hit [of ?P "lg_rows L" q, OF q(1)] by simp_all
  obtain i e where "e \<in> set (ledger_events L)" "q = row_of X i e"
    using row_event [OF assms(1) m(1)] by blast
  then show "ev \<in> set (ledger_events L)" "ae_aggregate_id ev = ''workflow_run:'' @ r"
    "uint (ae_aggregate_seq ev) = n"
    using m(2) q(2) by simp_all
qed

lemma recorded_later:
  assumes "ledger_inv X L" "step_map L (r, s) = Some g" "n \<in> seqs_of g" "recorded_event L r n = Inr ev"
    "grows X L L'"
  shows "\<exists>g'. step_map L' (r, s) = Some g' \<and> later_row g g' \<and> recorded_event L' r n = Inr ev"
proof -
  have r: "rows_inv X L" "rows_inv X L'" "extends L L'"
    using assms(1,5) by (simp_all add: ledger_inv_def grows_def)
  note e = recorded_event_Inr [OF r(1) assms(4)]
  have "ev \<in> set (ledger_events L')" using e(1) r(3) by (auto simp: extends_def prefix_def)
  then have "recorded_event L' r n = Inr ev" by (rule recorded_event_inv [OF r(2) _ e(2,3)])
  then show ?thesis using r(3) assms(2) by (auto simp: extends_def)
qed

lemma written_event:
  assumes "wf_ext X" "ledger_inv X L" "ledger_inv X L'" "lg_rows L' = lg_rows L3"
    "append_audit_conn_with_actor X (workflow_input r kind payload) fresh now L = Inr (ev, L3)"
  shows "recorded_event L' r (uint (ae_aggregate_seq ev)) = Inr ev"
proof -
  have "rows_inv X L" "rows_inv X L'" using assms(2,3) by (simp_all add: ledger_inv_def)
  note a = append_inv [OF assms(1) this(1) assms(5)]
  have "ev \<in> set (ledger_events L')" using a(3) ledger_events_cong [OF assms(4)] by simp
  then show ?thesis
    by (rule recorded_event_inv [OF \<open>rows_inv X L'\<close>]) (simp_all add: a(4))
qed

lemma pending_recorded:
  assumes "wf_ext X" "ledger_inv X L"
    "append_workflow_step_if_absent X r kind payload s fresh now L = (Inr (ev, b), L')"
  shows "\<exists>g. ledger_inv X L' \<and> step_map L' (r, s) = Some g \<and> recorded_event L' r (rg_pending_seq g) = Inr ev"
proof -
  have i: "ledger_inv X L'"
    using grows_pending [OF assms(1,2), of r kind payload s fresh now] by (simp add: assms(3) grows_def)
  from assms(3) show ?thesis
  proof (cases rule: pending_write)
    case (written L3)
    then show ?thesis using i written_event [OF assms(1,2) i written(4,3)] by simp
  qed (use i in auto)
qed

lemma receipt_recorded:
  assumes "wf_ext X" "ledger_inv X L"
    "append_workflow_receipt X r kind payload s fresh now L = (Inr (ev, b), L')"
  shows "\<exists>g n. ledger_inv X L' \<and> step_map L' (r, s) = Some g \<and> rg_receipt_seq g = Some n \<and>
    recorded_event L' r n = Inr ev"
proof -
  have i: "ledger_inv X L'"
    using grows_receipt [OF assms(1,2), of r kind payload s fresh now] by (simp add: assms(3) grows_def)
  from assms(3) show ?thesis
  proof (cases rule: receipt_write)
    case (written L3 g)
    then show ?thesis using i written_event [OF assms(1,2) i written(5,4)] by simp
  qed (use i in auto)
qed

lemma completion_recorded:
  assumes "wf_ext X" "ledger_inv X L"
    "append_workflow_completion X r kind payload s fresh now L = (Inr (ev, b), L')"
  shows "\<exists>g n. ledger_inv X L' \<and> step_map L' (r, s) = Some g \<and> rg_completed_seq g = Some n \<and>
    recorded_event L' r n = Inr ev"
proof -
  have i: "ledger_inv X L'"
    using grows_completion [OF assms(1,2), of r kind payload s fresh now] by (simp add: assms(3) grows_def)
  from assms(3) show ?thesis
  proof (cases rule: completion_write)
    case (written L3 g)
    then show ?thesis using i written_event [OF assms(1,2) i written(5,4)] by simp
  qed (use i in auto)
qed

section \<open>What the head hash binds\<close>

definition head_hash :: "string \<Rightarrow> ledger_row list \<Rightarrow> string" where
  "head_hash p rs = (if rs = [] then p else lr_hash (last rs))"

definition row_ok :: "ext \<Rightarrow> string \<Rightarrow> ledger_row \<Rightarrow> bool" where
  "row_ok X p r \<longleftrightarrow> verify_rows X p [r]"

lemma verify_rows_Cons: "verify_rows X p (r # rs) \<longleftrightarrow> row_ok X p r \<and> verify_rows X (lr_hash r) rs"
  by (auto simp: row_ok_def split: option.splits)

lemma verify_rows_snoc:
  "verify_rows X p (rs @ [r]) \<longleftrightarrow> verify_rows X p rs \<and> row_ok X (head_hash p rs) r"
  by (induction rs arbitrary: p)
    (simp add: row_ok_def head_hash_def, simp add: verify_rows_Cons head_hash_def del: verify_rows.simps(2))

definition hash_input :: "ledger_row \<Rightarrow> bytes" where
  "hash_input r = str_bytes (lr_prev_hash r) @ str_bytes (lr_meta_json r)"

definition content :: "ledger_row \<Rightarrow> string \<times> string \<times> string \<times> string \<times> int" where
  "content r = (lr_prev_hash r, lr_hash r, lr_meta_json r, lr_aggregate_id r, lr_aggregate_seq r)"

definition sha256_collision :: "ext \<Rightarrow> bytes set \<Rightarrow> bool" where
  "sha256_collision X M \<longleftrightarrow> (\<exists>a\<in>M. \<exists>b\<in>M. a \<noteq> b \<and> sha256 X a = sha256 X b)"

definition genesis_preimage :: "ext \<Rightarrow> bytes set \<Rightarrow> bool" where
  "genesis_preimage X M \<longleftrightarrow> (\<exists>a\<in>M. digest_from_hash (sha256 X a) = genesis_digest)"

lemma row_okD:
  assumes "wf_ext X" "row_ok X p r"
  shows "lr_prev_hash r = p" "Digest (lr_hash r) = digest_from_hash (sha256 X (hash_input r))"
    "\<exists>meta. json_parse X (lr_meta_json r) = Some meta \<and>
       lr_aggregate_id r = meta_text meta ''aggregate_id'' ''system'' \<and>
       lr_aggregate_seq r = meta_seq meta"
  using assms(2) digest_matches_hash_iff [of "sha256 X (hash_input r)" "lr_hash r"] assms(1)
  by (simp_all add: row_ok_def hash_input_def chained_hash_def split: if_splits option.splits)

lemma length_digest_from_hash: "length h = 32 \<Longrightarrow> length (digest_str (digest_from_hash h)) = 71"
  by (simp add: digest_from_hash_def)

lemma inj_of_char_u8: "inj (of_char :: char \<Rightarrow> u8)"
  by (simp add: inj_def of_char_u8_eq_iff)

lemma head_hash_length:
  assumes "wf_ext X" "verify_rows X p rs" "length p = 71"
  shows "length (head_hash p rs) = 71"
proof (cases rs rule: rev_cases)
  case (snoc qs r)
  with assms have "Digest (lr_hash r) = digest_from_hash (sha256 X (hash_input r))"
    using row_okD(2) verify_rows_snoc by blast
  then show ?thesis
    using snoc length_digest_from_hash [of "sha256 X (hash_input r)"] assms(1)
    by (simp add: head_hash_def) (metis digest.sel)
qed (simp add: head_hash_def assms)

lemma same_hash_same_row:
  assumes "wf_ext X" "row_ok X p r" "row_ok X q r'" "lr_hash r = lr_hash r'"
    "length p = length q" "hash_input r \<in> M" "hash_input r' \<in> M" "\<not> sha256_collision X M"
  shows "content r = content r'" "p = q"
proof -
  have "digest_from_hash (sha256 X (hash_input r)) = digest_from_hash (sha256 X (hash_input r'))"
    using row_okD(2) [OF assms(1)] assms(2-4) by metis
  then have "sha256 X (hash_input r) = sha256 X (hash_input r')"
    by (auto simp: digest_from_hash_def dest: hex_encode_inj)
  then have "hash_input r = hash_input r'" using assms(6-8) by (auto simp: sha256_collision_def)
  moreover have prev: "lr_prev_hash r = p" "lr_prev_hash r' = q" using row_okD(1) assms(1-3) by blast+
  ultimately have eq: "lr_prev_hash r = lr_prev_hash r'" "lr_meta_json r = lr_meta_json r'"
    using assms(5) by (auto simp: hash_input_def str_bytes_def dest!: map_injective [OF _ inj_of_char_u8])
  then show "p = q" using prev by simp
  show "content r = content r'"
    using eq assms(4) row_okD(3) [OF assms(1,2)] row_okD(3) [OF assms(1,3)]
    by (auto simp: content_def)
qed

lemma verified_rows_bound:
  assumes "wf_ext X" "length p = 71" "\<not> sha256_collision X M" "\<not> (\<exists>a\<in>M. digest_str (digest_from_hash (sha256 X a)) = p)"
  shows "verify_rows X p rs \<Longrightarrow> verify_rows X p rs' \<Longrightarrow> head_hash p rs = head_hash p rs' \<Longrightarrow>
    hash_input ` set rs \<union> hash_input ` set rs' \<subseteq> M \<Longrightarrow> map content rs = map content rs'"
proof (induction rs arbitrary: rs' rule: rev_induct)
  case Nil
  show ?case
  proof (cases rs' rule: rev_cases)
    case (snoc qs r)
    with Nil have "Digest p = digest_from_hash (sha256 X (hash_input r))" "hash_input r \<in> M"
      using row_okD(2) [OF assms(1)] by (auto simp: verify_rows_snoc head_hash_def)
    with assms(4) show ?thesis by (metis digest.sel)
  qed simp
next
  case (snoc r rs)
  have r: "row_ok X (head_hash p rs) r" "verify_rows X p rs" using snoc.prems(1) by (simp_all add: verify_rows_snoc)
  show ?case
  proof (cases rs' rule: rev_cases)
    case Nil
    have "Digest (lr_hash r) = digest_from_hash (sha256 X (hash_input r))" "hash_input r \<in> M"
      using row_okD(2) [OF assms(1) r(1)] snoc.prems(4) by auto
    moreover have "lr_hash r = p" using snoc.prems(3) Nil by (simp add: head_hash_def)
    ultimately show ?thesis using assms(4) by (metis digest.sel)
  next
    case (snoc qs q)
    have q: "row_ok X (head_hash p qs) q" "verify_rows X p qs"
      using snoc.prems(2) snoc by (simp_all add: verify_rows_snoc)
    have l: "length (head_hash p rs) = length (head_hash p qs)"
      using head_hash_length [OF assms(1) _ assms(2)] r(2) q(2) by metis
    have h: "lr_hash r = lr_hash q" using snoc.prems(3) snoc by (simp add: head_hash_def)
    have M: "hash_input r \<in> M" "hash_input q \<in> M" using snoc.prems(4) snoc by auto
    note s = same_hash_same_row [OF assms(1) r(1) q(1) h l M assms(3)]
    have "map content rs = map content qs"
      by (rule snoc.IH [OF r(2) q(2) s(2)]) (use snoc.prems(4) snoc in auto)
    then show ?thesis using s(1) snoc by simp
  qed
qed

text \<open>A validated event is determined, as JSON, by the columns the chain binds.\<close>

lemma map_of_keys: "distinct (map fst m) \<Longrightarrow> map (\<lambda>k. (k, the (map_of m k))) (map fst m) = m"
  unfolding map_map by (rule map_idI) (auto simp: map_of_is_SomeI)

lemma same_fields:
  assumes "\<forall>f\<in>set checked_fields. map_option canonical (map_of (meta_fields X e) f) =
      map_option canonical (map_of (meta_fields X e') f)"
  shows "map (map_prod id canonical) (meta_fields X e) = map (map_prod id canonical) (meta_fields X e')"
proof -
  have m: "meta_fields X d = map (\<lambda>k. (k, the (map_of (meta_fields X d) k))) checked_fields" for d
    using map_of_keys [of "meta_fields X d"] by (simp add: meta_keys distinct_checked_fields)
  have "canonical (the (map_of (meta_fields X e) k)) = canonical (the (map_of (meta_fields X e') k))"
    if k: "k \<in> set checked_fields" for k
  proof -
    have "k \<in> fst ` set (meta_fields X d)" for d using k by (metis meta_keys list.set_map)
    then obtain v v' where "map_of (meta_fields X e) k = Some v" "map_of (meta_fields X e') k = Some v'"
      by (metis domIff dom_map_of_conv_image_fst option.exhaust)
    then show ?thesis using assms k by auto
  qed
  then show ?thesis by (subst (1 2) m) simp
qed

lemma validated_Inr:
  assumes "validated_entry X r = Inr en"
  shows "\<exists>meta. json_parse X (lr_meta_json r) = Some meta \<and>
    (\<forall>f\<in>set checked_fields. field_matches X meta (le_event en) f) \<and> ae_schema_version (le_event en) = 1 \<and>
    digest_str (ae_prev_hash (le_event en)) = lr_prev_hash r \<and> digest_str (ae_hash (le_event en)) = lr_hash r"
  using assms by (auto simp: validated_entry_def find_None_iff split: option.splits if_splits)

lemma checked_event_value:
  "f \<in> set checked_fields \<Longrightarrow> json_get f (event_value X e) = map_of (meta_fields X e) f"
  by (auto simp: event_value_def map_add_def checked_fields_def split: option.split)

lemma validated_bound:
  assumes "validated_entry X r = Inr en" "validated_entry X r' = Inr en'" "content r = content r'"
  shows "canonical (event_value X (le_event en)) = canonical (event_value X (le_event en'))"
proof -
  let ?e = "le_event en" and ?e' = "le_event en'"
  obtain meta where m: "json_parse X (lr_meta_json r) = Some meta"
    "\<forall>f\<in>set checked_fields. field_matches X meta ?e f" "ae_schema_version ?e = 1"
    "digest_str (ae_prev_hash ?e) = lr_prev_hash r" "digest_str (ae_hash ?e) = lr_hash r"
    using validated_Inr [OF assms(1)] by blast
  obtain meta' where m': "json_parse X (lr_meta_json r') = Some meta'"
    "\<forall>f\<in>set checked_fields. field_matches X meta' ?e' f" "ae_schema_version ?e' = 1"
    "digest_str (ae_prev_hash ?e') = lr_prev_hash r'" "digest_str (ae_hash ?e') = lr_hash r'"
    using validated_Inr [OF assms(2)] by blast
  have c: "meta' = meta" "lr_prev_hash r' = lr_prev_hash r" "lr_hash r' = lr_hash r"
    using assms(3) m(1) m'(1) by (simp_all add: content_def)
  have "map (map_prod id canonical) (meta_fields X ?e) = map (map_prod id canonical) (meta_fields X ?e')"
    by (rule same_fields) (use m(2) m'(2) in \<open>fastforce simp: field_matches_def checked_event_value c\<close>)
  then show ?thesis
    unfolding event_value_def by (simp add: m(3-5) m'(3-5) c)
qed

lemma visit_all:
  assumes "visit_rows X filter_all rs = Inr ens"
  shows "list_all2 (\<lambda>r en. validated_entry X r = Inr en) rs ens"
  using assms
  by (induction rs arbitrary: ens)
    (auto simp: filter_all_def filter_matches_def split: sum.splits)

lemma replay_bound:
  assumes "list_all2 (\<lambda>r en. validated_entry X r = Inr en) rs ens"
    "list_all2 (\<lambda>r en. validated_entry X r = Inr en) rs' ens'" "map content rs = map content rs'"
  shows "map (\<lambda>en. canonical (event_value X (le_event en))) ens =
    map (\<lambda>en. canonical (event_value X (le_event en))) ens'"
  using assms
proof (induction arbitrary: rs' ens' rule: list_all2_induct)
  case (Cons r rs en ens)
  obtain r' qs where rs': "rs' = r' # qs" using Cons.prems(2) by (cases rs') auto
  then obtain en' fs where ens': "ens' = en' # fs" using Cons.prems(1) by (cases ens') auto
  have v: "validated_entry X r' = Inr en'" "list_all2 (\<lambda>r en. validated_entry X r = Inr en) qs fs"
    "content r = content r'" "map content rs = map content qs"
    using Cons.prems by (simp_all add: rs' ens')
  from validated_bound [OF Cons.hyps(1) v(1,3)] Cons.IH [OF v(2,4)] show ?case by (simp add: ens')
qed simp

text \<open>A replay from a position reads the tail of the rows from there.\<close>

lemma sorted_filter_drop: "sorted (map f xs) \<Longrightarrow> \<exists>k. filter (\<lambda>x. a < f x) xs = drop k xs" for f :: "'x \<Rightarrow> int"
proof (induction xs)
  case (Cons x xs)
  show ?case
  proof (cases "a < f x")
    case True
    with Cons.prems have "\<forall>y\<in>set (x # xs). a < f y" by auto
    then have "filter (\<lambda>x. a < f x) (x # xs) = drop 0 (x # xs)" by (metis drop0 filter_True)
    then show ?thesis by blast
  next
    case False
    with Cons obtain k where "filter (\<lambda>x. a < f x) (x # xs) = drop (Suc k) (x # xs)" by auto
    then show ?thesis by blast
  qed
qed simp

definition replayed :: "ext \<Rightarrow> ledger_entry list \<Rightarrow> json list" where
  "replayed X ens = map (\<lambda>en. canonical (event_value X (le_event en))) ens"

lemma replay_tail:
  assumes "replay_audit X filter_all 0 L = Inr ens"
  obtains k where "list_all2 (\<lambda>r en. validated_entry X r = Inr en) (drop k (by_seq L)) ens"
    "(\<forall>r\<in>set (lg_rows L). 0 < lr_seq r) \<Longrightarrow> k = 0"
proof -
  obtain k where "filter (\<lambda>r. 0 < lr_seq r) (by_seq L) = drop k (by_seq L)"
    using sorted_filter_drop [of lr_seq "by_seq L" 0] by (auto simp: by_seq_def)
  then obtain j where j: "filter (\<lambda>r. 0 < lr_seq r) (by_seq L) = drop j (by_seq L)"
    "(\<forall>r\<in>set (lg_rows L). 0 < lr_seq r) \<Longrightarrow> j = 0"
    by (cases "\<forall>r\<in>set (lg_rows L). 0 < lr_seq r") (auto simp: by_seq_def intro: filter_True)
  have "list_all2 (\<lambda>r en. validated_entry X r = Inr en) (drop j (by_seq L)) ens"
    by (rule visit_all) (use assms in \<open>simp add: replay_audit_def replay_audit_conn_def j(1)\<close>)
  with j(2) that show thesis by blast
qed

lemma replay_bound_tails:
  assumes "list_all2 (\<lambda>r en. validated_entry X r = Inr en) (drop k rs) ens"
    "list_all2 (\<lambda>r en. validated_entry X r = Inr en) (drop k' rs') ens'" "map content rs = map content rs'" "k \<le> k'"
  shows "suffix (replayed X ens') (replayed X ens)"
proof -
  have "list_all2 (\<lambda>r en. validated_entry X r = Inr en) (drop k' rs) (drop (k' - k) ens)"
    using list_all2_dropI [OF assms(1), of "k' - k"] assms(4) by simp
  moreover have "map content (drop k' rs) = map content (drop k' rs')" using assms(3) by (simp flip: drop_map)
  ultimately have "replayed X (drop (k' - k) ens) = replayed X ens'"
    using replay_bound [OF _ assms(2)] by (simp add: replayed_def)
  then show ?thesis by (metis drop_map replayed_def suffix_drop)
qed

section \<open>Properties\<close>

text \<open>
  C9. Every ledger the kernel can write, by any interleaving of its appends, verifies from the
  genesis digest; replaying one aggregate returns exactly its events in order, and their
  sequence numbers are 1, 2, 3 and so on without a gap.
\<close>

theorem ledger_chain_intact:
  assumes "wf_ext X" "wf_serde X" "ledger_run X L"
  shows "verify_audit_chain X L \<and>
    (\<forall>a. verify_and_replay_aggregate X a L = Inr (in_aggregate a (ledger_events L)) \<and>
       map (uint \<circ> ae_aggregate_seq) (in_aggregate a (ledger_events L)) =
         map int [1..<Suc (length (in_aggregate a (ledger_events L)))])"
  using run_verifies [OF assms] run_replay_aggregate [OF assms] ledger_run_rows(2) [OF assms(1,3)]
  by (simp add: verify_audit_chain_def events_ok_def gap_free_def del: upt_Suc)

text \<open>
  C10. An append is refused only for an empty kind, an identifier that is already in the ledger
  or an exhausted sequence, and then leaves the ledger as it was; otherwise the event is recorded
  at the end, with the given content and the next number of its aggregate, and nothing before it
  changes.
\<close>

theorem audit_append_total:
  assumes "wf_ext X" "ledger_run X L"
  shows "case append_audit X a fresh now L of
      (Inl err, L') \<Rightarrow> L' = L \<and> (an_kind a = [] \<or> ulid_text X fresh \<in> lr_id ` set (lg_rows L) \<or>
        2 ^ 63 \<le> int (length (in_aggregate (aggregate_of X a) (ledger_events L))) + 1)
    | (Inr e, L') \<Rightarrow> ledger_events L' = ledger_events L @ [e] \<and>
        prefix (lg_rows L) (lg_rows L') \<and> lg_registry L' = lg_registry L \<and>
        lg_checkpoints L' = lg_checkpoints L \<and>
        ae_id e = fresh \<and> ae_ts e = now \<and> kind_str (ae_kind e) = an_kind a \<and>
        ae_action e = an_action a \<and> ae_decision e = an_decision a \<and> ae_reason e = an_reason a \<and>
        ae_task_grant_id e = an_task_grant_id a \<and> ae_target_refs e = an_target_refs a \<and>
        ae_payload_refs e = an_payload_refs a \<and> ae_payload_json e = an_payload_json a \<and>
        ae_actor e = an_actor a \<and> ae_aggregate_id e = aggregate_of X a \<and>
        uint (ae_aggregate_seq e) = int (length (in_aggregate (aggregate_of X a) (ledger_events L))) + 1"
proof (cases "append_audit_conn_with_actor X a fresh now L")
  case (Inr p)
  obtain e L' where "p = (e, L')" by (cases p)
  with Inr have ap: "append_audit_conn_with_actor X a fresh now L = Inr (e, L')" by simp
  note i = append_inv [OF assms(1) ledger_run_rows(1) [OF assms] ap]
  from append_fields [OF ap] i show ?thesis
    by (simp add: append_audit_def with_immediate_tx_def ap)
next
  case (Inl err)
  from append_refused [OF assms(1) ledger_run_rows(1) [OF assms] Inl] Inl show ?thesis
    by (simp add: append_audit_def with_immediate_tx_def)
qed

text \<open>
  C8. The head hash binds the whole history. Two ledgers that verify and end in the same hash have
  row by row the same hashes, metadata, aggregates and aggregate sequences, and what they replay,
  when both replay without an error, differs at most in how many of the oldest events are left
  out: field by field the events of one are a tail of those of the other, and the same when no row
  is numbered below one. The exceptions are that among the messages hashed in them there are two
  with the same SHA-256 or one that hashes to the genesis digest.
\<close>

theorem ledger_tamper_evident:
  assumes "wf_ext X" "verify_audit_chain X L" "verify_audit_chain X L'"
    and "head_hash (digest_str genesis_digest) (by_seq L) = head_hash (digest_str genesis_digest) (by_seq L')"
    and "replay_audit X filter_all 0 L = Inr ens" "replay_audit X filter_all 0 L' = Inr ens'"
  shows "(map content (by_seq L) = map content (by_seq L') \<and>
      (suffix (replayed X ens) (replayed X ens') \<or> suffix (replayed X ens') (replayed X ens)) \<and>
      ((\<forall>r\<in>set (lg_rows L) \<union> set (lg_rows L'). 0 < lr_seq r) \<longrightarrow> replayed X ens = replayed X ens')) \<or>
    sha256_collision X (hash_input ` (set (lg_rows L) \<union> set (lg_rows L'))) \<or>
    genesis_preimage X (hash_input ` (set (lg_rows L) \<union> set (lg_rows L')))"
proof -
  let ?M = "hash_input ` (set (lg_rows L) \<union> set (lg_rows L'))"
  obtain k where k: "list_all2 (\<lambda>r en. validated_entry X r = Inr en) (drop k (by_seq L)) ens"
    "(\<forall>r\<in>set (lg_rows L). 0 < lr_seq r) \<Longrightarrow> k = 0" using replay_tail [OF assms(5)] by blast
  obtain k' where k': "list_all2 (\<lambda>r en. validated_entry X r = Inr en) (drop k' (by_seq L')) ens'"
    "(\<forall>r\<in>set (lg_rows L'). 0 < lr_seq r) \<Longrightarrow> k' = 0" using replay_tail [OF assms(6)] by blast
  have same: "map content (by_seq L) = map content (by_seq L')"
    if "\<not> sha256_collision X ?M" "\<not> genesis_preimage X ?M"
  proof (rule verified_rows_bound [OF assms(1) _ that(1)])
    show "length (digest_str genesis_digest) = 71" by (simp add: genesis_digest_def)
    show "\<not> (\<exists>a\<in>?M. digest_str (digest_from_hash (sha256 X a)) = digest_str genesis_digest)"
      using that(2) by (metis genesis_preimage_def digest.expand)
    show "verify_rows X (digest_str genesis_digest) (by_seq L)"
      "verify_rows X (digest_str genesis_digest) (by_seq L')"
      using assms(2,3) by (simp_all add: verify_audit_chain_def)
    show "hash_input ` set (by_seq L) \<union> hash_input ` set (by_seq L') \<subseteq> ?M"
      by (simp add: by_seq_def image_Un)
  qed (rule assms(4))
  note tails = replay_bound_tails [OF k(1) k'(1)] replay_bound_tails [OF k'(1) k(1)]
  have "(suffix (replayed X ens) (replayed X ens') \<or> suffix (replayed X ens') (replayed X ens)) \<and>
      ((\<forall>r\<in>set (lg_rows L) \<union> set (lg_rows L'). 0 < lr_seq r) \<longrightarrow> replayed X ens = replayed X ens')"
    if e: "map content (by_seq L) = map content (by_seq L')"
    using tails(1) [OF e] tails(2) [OF e [symmetric]] k(2) k'(2)
    by (metis UnCI linorder_le_cases order.refl suffix_order.antisym)
  with same show ?thesis by blast
qed

text \<open>
  A workflow step is recorded once. When a pending record, a receipt or a completion has been
  written for a step of a run, every later attempt to write one, with any content, returns the
  first event and changes nothing, whatever happened to the ledger in between.
\<close>

theorem workflow_step_recorded_once:
  assumes "wf_ext X" "ledger_run X L" "(ledger_step X)\<^sup>*\<^sup>* L' L''"
  shows "(append_workflow_step_if_absent X r kind payload s fresh now L = (Inr (ev, b), L') \<longrightarrow>
      append_workflow_step_if_absent X r kind' payload' s fresh' now' L'' = (Inr (ev, False), L'')) \<and>
    (append_workflow_receipt X r kind payload s fresh now L = (Inr (ev, b), L') \<longrightarrow>
      append_workflow_receipt X r kind' payload' s fresh' now' L'' = (Inr (ev, False), L'')) \<and>
    (append_workflow_completion X r kind payload s fresh now L = (Inr (ev, b), L') \<longrightarrow>
      append_workflow_completion X r kind' payload' s fresh' now' L'' = (Inr (ev, False), L''))"
proof -
  have inv: "ledger_inv X L" by (rule ledger_run_inv [OF assms(1,2)])
  have later: "\<exists>g'. step_map L'' (r, s) = Some g' \<and> later_row g g' \<and> recorded_event L'' r n = Inr ev"
    if "ledger_inv X L'" "step_map L' (r, s) = Some g" "n \<in> seqs_of g" "recorded_event L' r n = Inr ev" for g n
    using recorded_later [OF that ledger_steps_grow [OF assms(1,3) that(1)]] by blast
  show ?thesis
  proof (intro conjI impI)
    assume op: "append_workflow_step_if_absent X r kind payload s fresh now L = (Inr (ev, b), L')"
    obtain g where "ledger_inv X L'" "step_map L' (r, s) = Some g" "recorded_event L' r (rg_pending_seq g) = Inr ev"
      using pending_recorded [OF assms(1) inv op] by blast
    with later [of g "rg_pending_seq g"] show
      "append_workflow_step_if_absent X r kind' payload' s fresh' now' L'' = (Inr (ev, False), L'')"
      by (auto simp: append_workflow_step_if_absent_def with_immediate_tx_def step_map_def seqs_of_def later_row_def)
  next
    assume op: "append_workflow_receipt X r kind payload s fresh now L = (Inr (ev, b), L')"
    obtain g n where "ledger_inv X L'" "step_map L' (r, s) = Some g" "rg_receipt_seq g = Some n"
      "recorded_event L' r n = Inr ev"
      using receipt_recorded [OF assms(1) inv op] by blast
    with later [of g n] show
      "append_workflow_receipt X r kind' payload' s fresh' now' L'' = (Inr (ev, False), L'')"
      by (auto simp: append_workflow_receipt_def with_immediate_tx_def step_map_def seqs_of_def later_row_def)
  next
    assume op: "append_workflow_completion X r kind payload s fresh now L = (Inr (ev, b), L')"
    obtain g n where "ledger_inv X L'" "step_map L' (r, s) = Some g" "rg_completed_seq g = Some n"
      "recorded_event L' r n = Inr ev"
      using completion_recorded [OF assms(1) inv op] by blast
    with later [of g n] show
      "append_workflow_completion X r kind' payload' s fresh' now' L'' = (Inr (ev, False), L'')"
      by (auto simp: append_workflow_completion_def with_immediate_tx_def step_map_def seqs_of_def later_row_def)
  qed
qed

section \<open>Witnesses\<close>

text \<open>A serializer and a parser with the round trip the code relies on.\<close>

instance f64 :: countable by countable_datatype
instance json_number :: countable by countable_datatype
instance json :: countable by countable_datatype

definition ex_serde_ext :: ext where
  "ex_serde_ext = ex_ext\<lparr>json_text := (\<lambda>v. replicate (to_nat v) (CHR ''x'')),
     json_parse := (\<lambda>s. Some (canonical (from_nat (length s)))),
     ulid_text := (\<lambda>u. replicate (Suc (unat u)) (CHR ''u''))\<rparr>"

lemma wf_ex_serde: "wf_ext ex_serde_ext" "wf_serde ex_serde_ext"
  by (simp_all add: ex_serde_ext_def ex_ext_def wf_ext_def wf_serde_def canonical_json_def)

lemma ex_ids: "ulid_text ex_serde_ext 2 \<noteq> ulid_text ex_serde_ext 1"
proof
  assume "ulid_text ex_serde_ext 2 = ulid_text ex_serde_ext 1"
  from arg_cong [OF this, of length] show False by (simp add: ex_serde_ext_def)
qed

definition ex_audit_input :: audit_input where
  "ex_audit_input = \<lparr>an_kind = ''action.gated'', an_action = Some (ActionId ''mail.send''),
     an_decision = Some (Deny ExplicitDeny), an_reason = None, an_task_grant_id = Some 7,
     an_target_refs = [], an_payload_refs = [], an_aggregate_override = None, an_payload_json = None,
     an_actor = Some (PrincipalId 3)\<rparr>"

definition ex_first :: ledger where
  "ex_first = snd (append_audit ex_serde_ext ex_audit_input 1 100 empty_ledger)"

definition ex_ledger :: ledger where
  "ex_ledger = snd (append_workflow_step ex_serde_ext ''run'' ''workflow.note'' ''{}'' 2 90 ex_first)"

lemma ex_first_run: "ledger_run ex_serde_ext ex_first"
  unfolding ledger_run_def ex_first_def by (intro r_into_rtranclp step_append)

lemma ex_ledger_run: "ledger_run ex_serde_ext ex_ledger"
  using ex_first_run unfolding ledger_run_def ex_ledger_def
  by (rule rtranclp.rtrancl_into_rtrancl) (rule step_workflow)

lemma append_accepted:
  assumes "wf_ext X" "ledger_run X L" "an_kind a \<noteq> []" "ulid_text X fresh \<notin> lr_id ` set (lg_rows L)"
    "int (length (ledger_events L)) + 1 < 2 ^ 63"
  shows "\<exists>e L'. append_audit_conn_with_actor X a fresh now L = Inr (e, L') \<and>
    lg_rows L' = lg_rows L @ [row_of X (int (length (lg_rows L)) + 1) e] \<and> ae_id e = fresh"
proof (cases "append_audit_conn_with_actor X a fresh now L")
  case (Inl err)
  have "length (in_aggregate (aggregate_of X a) (ledger_events L)) \<le> length (ledger_events L)"
    by (simp add: in_aggregate_def)
  then show ?thesis
    using append_refused [OF assms(1) ledger_run_rows(1) [OF assms(1,2)] Inl] assms(3-5) by linarith
next
  case (Inr p)
  then show ?thesis
    using append_inv(1) [OF assms(1) ledger_run_rows(1) [OF assms(1,2)]] append_fields(1)
    by (cases p) fastforce
qed

lemma ex_first_rows: "\<exists>e. lg_rows ex_first = [row_of ex_serde_ext 1 e] \<and> ae_id e = 1"
proof -
  have "ledger_run ex_serde_ext empty_ledger" by (simp add: ledger_run_def)
  from append_accepted [OF wf_ex_serde(1) this, of ex_audit_input 1 100] show ?thesis
    by (auto simp: ex_first_def append_audit_def with_immediate_tx_def empty_ledger_def
        ledger_events_def ex_audit_input_def)
qed

lemma ex_ledger_rows:
  "\<exists>e f. lg_rows ex_ledger = [row_of ex_serde_ext 1 e, row_of ex_serde_ext 2 f]"
proof -
  obtain e where e: "lg_rows ex_first = [row_of ex_serde_ext 1 e]" "ae_id e = 1" using ex_first_rows by blast
  have "ulid_text ex_serde_ext 2 \<notin> lr_id ` set (lg_rows ex_first)"
    using ex_ids by (simp add: e)
  then obtain f L' where "append_audit_conn_with_actor ex_serde_ext
      (workflow_input ''run'' ''workflow.note'' ''{}'') 2 90 ex_first = Inr (f, L')"
    "lg_rows L' = lg_rows ex_first @ [row_of ex_serde_ext (int (length (lg_rows ex_first)) + 1) f]"
    using append_accepted [OF wf_ex_serde(1) ex_first_run, of "workflow_input ''run'' ''workflow.note'' ''{}''" 2 90]
    by (auto simp: workflow_input_def ledger_events_def e)
  then show ?thesis by (auto simp: ex_ledger_def append_workflow_step_def with_immediate_tx_def e)
qed

theorem ledger_chain_intact_witness:
  "length (ledger_events ex_ledger) = 2 \<and> verify_audit_chain ex_serde_ext ex_ledger \<and>
   verify_and_replay_aggregate ex_serde_ext ''workflow_run:run'' ex_ledger =
     Inr (in_aggregate ''workflow_run:run'' (ledger_events ex_ledger))"
  using ledger_chain_intact [OF wf_ex_serde ex_ledger_run] ex_ledger_rows
  by (auto simp: ledger_events_def)

theorem audit_append_total_witness:
  "\<exists>e L'. append_audit ex_serde_ext ex_audit_input 2 50 ex_first = (Inr e, L') \<and>
     ledger_events L' = ledger_events ex_first @ [e] \<and> ae_decision e = Some (Deny ExplicitDeny) \<and>
     uint (ae_aggregate_seq e) = int (length (in_aggregate
       (aggregate_of ex_serde_ext ex_audit_input) (ledger_events ex_first))) + 1"
proof -
  obtain e where e: "lg_rows ex_first = [row_of ex_serde_ext 1 e]" "ae_id e = 1" using ex_first_rows by blast
  have n: "\<not> 2 ^ 63 \<le> int (length (in_aggregate a (ledger_events ex_first))) + 1" for a
    by (simp add: ledger_events_def e in_aggregate_def)
  have "ulid_text ex_serde_ext 2 \<notin> lr_id ` set (lg_rows ex_first)"
    using ex_ids by (simp add: e)
  moreover have "an_kind ex_audit_input \<noteq> []" "an_decision ex_audit_input = Some (Deny ExplicitDeny)"
    by (simp_all add: ex_audit_input_def)
  ultimately show ?thesis
    using audit_append_total [OF wf_ex_serde(1) ex_first_run, of ex_audit_input 2 50] n
    by (auto split: prod.splits sum.splits)
qed

text \<open>The same ledger with its rows renumbered from zero: it still verifies, and replays one event less.\<close>

definition ex_renumbered :: ledger where
  "ex_renumbered = ex_ledger\<lparr>lg_rows := map (\<lambda>r. r\<lparr>lr_seq := lr_seq r - 1\<rparr>) (lg_rows ex_ledger)\<rparr>"

lemma renumbered:
  "verify_rows X p (map (\<lambda>r. r\<lparr>lr_seq := f r\<rparr>) rs) = verify_rows X p rs"
  "head_hash p (map (\<lambda>r. r\<lparr>lr_seq := f r\<rparr>) rs) = head_hash p rs"
  by (induction rs arbitrary: p) (simp_all add: head_hash_def last_map split: option.split)

lemma renumbered_entry:
  "validated_entry X r = Inr en \<Longrightarrow> validated_entry X (r\<lparr>lr_seq := n\<rparr>) = Inr (en\<lparr>le_global_seq := word_of_int n\<rparr>)"
  unfolding validated_entry_def by (auto split: option.splits if_splits)

theorem ledger_tamper_evident_witness:
  "\<exists>ens ens'. replay_audit ex_serde_ext filter_all 0 ex_ledger = Inr ens \<and> length ens = 2 \<and>
     verify_audit_chain ex_serde_ext ex_renumbered \<and>
     replay_audit ex_serde_ext filter_all 0 ex_renumbered = Inr ens' \<and> length ens' = 1 \<and>
     (map content (by_seq ex_ledger) = map content (by_seq ex_renumbered) \<and>
        (suffix (replayed ex_serde_ext ens) (replayed ex_serde_ext ens') \<or>
         suffix (replayed ex_serde_ext ens') (replayed ex_serde_ext ens)) \<or>
      sha256_collision ex_serde_ext (hash_input ` (set (lg_rows ex_ledger) \<union> set (lg_rows ex_renumbered))) \<or>
      genesis_preimage ex_serde_ext (hash_input ` (set (lg_rows ex_ledger) \<union> set (lg_rows ex_renumbered))))"
proof -
  let ?X = ex_serde_ext
  obtain e f where rows: "lg_rows ex_ledger = [row_of ?X 1 e, row_of ?X 2 f]" using ex_ledger_rows by blast
  then have order: "by_seq ex_ledger = [row_of ?X 1 e, row_of ?X 2 f]"
    "by_seq ex_renumbered = map (\<lambda>r. r\<lparr>lr_seq := lr_seq r - 1\<rparr>) [row_of ?X 1 e, row_of ?X 2 f]"
    by (simp_all add: by_seq_def ex_renumbered_def)
  have v: "verify_audit_chain ?X ex_ledger"
    using run_verifies [OF wf_ex_serde ex_ledger_run] by (simp add: verify_audit_chain_def)
  have v': "verify_audit_chain ?X ex_renumbered"
    using v unfolding verify_audit_chain_def order by (simp only: renumbered(1))
  obtain ens where r: "replay_audit ?X filter_all 0 ex_ledger = Inr ens"
    using run_replay [OF wf_ex_serde ex_ledger_run] by (simp add: replay_audit_def)
  then have "visit_rows ?X filter_all [row_of ?X 1 e, row_of ?X 2 f] = Inr ens"
    by (simp add: replay_audit_def replay_audit_conn_def order del: visit_rows.simps)
  then have all: "list_all2 (\<lambda>r en. validated_entry ?X r = Inr en) [row_of ?X 1 e, row_of ?X 2 f] ens" by (rule visit_all)
  then obtain en en' where ens: "ens = [en, en']" "validated_entry ?X (row_of ?X 2 f) = Inr en'"
    by (auto simp: list_all2_Cons1)
  have r': "replay_audit ?X filter_all 0 ex_renumbered = Inr [en'\<lparr>le_global_seq := 1\<rparr>]"
    using renumbered_entry [OF ens(2), of 1]
    by (simp add: replay_audit_def replay_audit_conn_def order filter_matches_def filter_all_def)
  have h: "head_hash p (by_seq ex_ledger) = head_hash p (by_seq ex_renumbered)" for p
    unfolding order by (simp only: renumbered(2))
  from ledger_tamper_evident [OF wf_ex_serde(1) v v' h r r'] r r' v' ens(1) show ?thesis by auto
qed

definition ex_step :: ledger where
  "ex_step = snd (append_workflow_step_if_absent ex_serde_ext ''run'' ''step'' ''{}'' ''one'' 1 100 empty_ledger)"

theorem workflow_step_recorded_once_witness:
  "\<exists>ev. append_workflow_step_if_absent ex_serde_ext ''run'' ''step'' ''{}'' ''one'' 1 100 empty_ledger =
       (Inr (ev, True), ex_step) \<and>
     append_workflow_step_if_absent ex_serde_ext ''run'' ''step'' ''other'' ''one'' 5 200 ex_step =
       (Inr (ev, False), ex_step)"
proof -
  let ?X = ex_serde_ext and ?a = "workflow_input ''run'' ''step'' ''{}''"
  let ?g = "\<lparr>rg_run_id = ''run'', rg_step_id = ''one'', rg_pending_seq = -1, rg_receipt_seq = None,
    rg_completed_seq = None\<rparr>"
  have r: "ledger_run ?X empty_ledger" by (simp add: ledger_run_def)
  obtain ev L' where "append_audit_conn_with_actor ?X ?a 1 100 empty_ledger = Inr (ev, L')"
    using append_accepted [OF wf_ex_serde(1) r, of ?a 1 100]
    by (auto simp: workflow_input_def empty_ledger_def ledger_events_def)
  then have "append_audit_conn_with_actor ?X ?a 1 100 (empty_ledger\<lparr>lg_registry := [?g]\<rparr>) =
      Inr (ev, L'\<lparr>lg_registry := [?g]\<rparr>)" by (simp add: append_registry)
  then have op: "append_workflow_step_if_absent ?X ''run'' ''step'' ''{}'' ''one'' 1 100 empty_ledger =
      (Inr (ev, True), ex_step)"
    by (simp add: ex_step_def append_workflow_step_if_absent_def with_immediate_tx_def find_step_def
        empty_ledger_def)
  with workflow_step_recorded_once [OF wf_ex_serde(1) r rtranclp.rtrancl_refl, of "''run''" "''step''"
      "''{}''" "''one''" 1 100 ev True ex_step "''step''" "''other''" 5 200]
  show ?thesis by blast
qed

end
