(* ===== verification/Ledger_Log.thy ===== *)
theory Ledger_Log
  imports Ledger_Evidence
begin

text \<open>
  The contract of an append-only log with unique identifiers, as its readers rely on it, and its
  interpretation on the reachable audit ledgers.
\<close>

section \<open>The contract\<close>

locale append_only_log =
  fixes good :: "'l \<Rightarrow> bool" and events :: "'l \<Rightarrow> 'e list" and key :: "'e \<Rightarrow> 'k"
    and grow :: "'l \<Rightarrow> 'l \<Rightarrow> bool"
  assumes grow_good: "good L \<Longrightarrow> grow L L' \<Longrightarrow> good L'"
    and grow_prefix: "good L \<Longrightarrow> grow L L' \<Longrightarrow> prefix (events L) (events L')"
    and key_unique: "good L \<Longrightarrow> distinct (map key (events L))"
begin

lemma steps_grow: "grow\<^sup>*\<^sup>* L L' \<Longrightarrow> good L \<Longrightarrow> good L' \<and> prefix (events L) (events L')"
  by (induction rule: rtranclp_induct) (auto dest: grow_good grow_prefix prefix_order.trans)

lemma take_stable:
  assumes "good L" "grow\<^sup>*\<^sup>* L L'" "n \<le> length (events L)"
  shows "take n (events L') = take n (events L)" "n \<le> length (events L')"
  using steps_grow [OF assms(2,1)] assms(3) by (auto simp: prefix_def)

lemma earlier_key:
  assumes "good L" "n < length (events L)"
  shows "key (events L ! n) \<notin> key ` set (take n (events L))"
proof
  assume "key (events L ! n) \<in> key ` set (take n (events L))"
  then obtain i where i: "i < n" "key (events L ! n) = key (events L ! i)"
    using assms(2) by (auto simp: in_set_conv_nth)
  with key_unique [OF assms(1)] assms(2) show False
    using nth_eq_iff_index_eq [of "map key (events L)" n i] by simp
qed

lemma key_determines:
  assumes "good L" "e \<in> set (events L)" "e' \<in> set (events L)" "key e = key e'"
  shows "e = e'"
  using key_unique [OF assms(1)] assms(2-) by (simp add: distinct_map inj_on_def)

end

section \<open>The audit ledger\<close>

text \<open>A step of the kernel leaves the rows as they are or appends one event.\<close>

definition row_step :: "ext \<Rightarrow> ledger \<Rightarrow> ledger \<Rightarrow> bool" where
  "row_step X L M \<longleftrightarrow> lg_rows M = lg_rows L \<or> (\<exists>a fresh now e L3.
     append_audit_conn_with_actor X a fresh now L = Inr (e, L3) \<and> lg_rows M = lg_rows L3)"

lemma row_stepI:
  "lg_rows M = lg_rows L \<Longrightarrow> row_step X L M"
  "append_audit_conn_with_actor X a fresh now L = Inr (e, L3) \<Longrightarrow> lg_rows M = lg_rows L3 \<Longrightarrow> row_step X L M"
  unfolding row_step_def by blast+

lemma row_step_tx:
  assumes "op = with_immediate_tx f" "\<And>r M. op L = (Inr r, M) \<Longrightarrow> row_step X L M"
  shows "row_step X L (snd (op L))"
  using assms by (cases "f L") (auto simp: with_immediate_tx_def row_stepI(1))

lemma row_step_append:
  "row_step X L (snd (with_immediate_tx (append_audit_conn_with_actor X a fresh now) L))"
  by (rule row_step_tx [OF refl]) (auto simp: with_immediate_tx_def split: sum.splits intro: row_stepI(2))

lemma ledger_step_rows: "ledger_step X L L' \<Longrightarrow> row_step X L L'"
proof (induction rule: ledger_step.induct)
  case (step_pending L r kind payload s fresh now)
  show ?case
    by (rule row_step_tx [OF append_workflow_step_if_absent_def])
      (auto elim!: pending_write intro: row_stepI)
next
  case (step_receipt L r kind payload s fresh now)
  show ?case
    by (rule row_step_tx [OF append_workflow_receipt_def]) (auto elim!: receipt_write intro: row_stepI)
next
  case (step_completion L r kind payload s fresh now)
  show ?case
    by (rule row_step_tx [OF append_workflow_completion_def])
      (auto elim!: completion_write intro: row_stepI)
next
  case (step_schedule L r s pending kind digest fires_at timer fresh now)
  show ?case
    by (rule row_step_tx [OF schedule_workflow_timer_step_def])
      (auto elim!: schedule_write intro: row_stepI)
next
  case (step_fire L i time fresh now)
  show ?case
    by (rule row_step_tx [OF fire_workflow_timer_def])
      (auto elim!: fire_write simp: update_timer_def intro: row_stepI)
qed (simp_all add: append_audit_def append_workflow_step_def row_step_append row_stepI(1))

lemma append_fresh_id:
  assumes "append_audit_conn_with_actor X a fresh now L = Inr (e, L')"
  shows "\<exists>i. lg_rows L' = lg_rows L @ [row_of X i e]" "ulid_text X (ae_id e) \<notin> lr_id ` set (lg_rows L)"
  using assms
  by (auto simp: append_audit_conn_with_actor_def Let_def insert_row_def list_ex_iff row_of_def
      split: sum.splits if_splits)

lemma run_distinct_row_ids:
  assumes "wf_ext X" "ledger_run X L"
  shows "distinct (map lr_id (lg_rows L))"
  using assms(2) unfolding ledger_run_def
proof (induction rule: rtranclp_induct)
  case base
  then show ?case by (simp add: empty_ledger_def)
next
  case (step M N)
  from ledger_step_rows [OF step(2)] step(3) show ?case
    using append_fresh_id by (fastforce simp: row_step_def)
qed

lemma run_distinct_ids:
  assumes "wf_ext X" "ledger_run X L"
  shows "distinct (map ae_id (ledger_events L))"
proof -
  have "map lr_id (lg_rows L) = map (ulid_text X) (map ae_id (ledger_events L))"
  proof -
    have "map lr_id (rows_of X es) = map (ulid_text X) (map ae_id es)" for es
      by (induction es rule: rev_induct) (simp_all add: rows_of_snoc, simp add: rows_of_def)
    then show ?thesis using ledger_run_rows(1) [OF assms] by (metis rows_inv_def)
  qed
  with run_distinct_row_ids [OF assms] show ?thesis by (metis distinct_map)
qed

lemma run_step: "ledger_run X L \<Longrightarrow> ledger_step X L L' \<Longrightarrow> ledger_run X L'"
  by (simp add: ledger_run_def rtranclp.rtrancl_into_rtrancl)

lemma run_steps: "ledger_run X L \<Longrightarrow> (ledger_step X)\<^sup>*\<^sup>* L L' \<Longrightarrow> ledger_run X L'"
  by (simp add: ledger_run_def)

interpretation audit_log: append_only_log "\<lambda>L. wf_ext X \<and> ledger_run X L" ledger_events ae_id "ledger_step X"
  for X
proof
  fix L L'
  assume L: "wf_ext X \<and> ledger_run X L" and s: "ledger_step X L L'"
  then show "wf_ext X \<and> ledger_run X L'" using run_step by blast
  show "prefix (ledger_events L) (ledger_events L')"
    using ledger_step_grows [OF _ s] L ledger_run_inv by (auto simp: grows_def extends_def)
next
  fix L assume "wf_ext X \<and> ledger_run X L"
  then show "distinct (map ae_id (ledger_events L))" using run_distinct_ids by blast
qed

section \<open>Writes that succeed\<close>

text \<open>A step that has no record yet is recorded as pending.\<close>

lemma pending_accepted:
  assumes "wf_ext X" "ledger_run X L" "step_map L (r, s) = None" "kind \<noteq> []"
    and "ulid_text X fresh \<notin> lr_id ` set (lg_rows L)" "int (length (ledger_events L)) + 1 < 2 ^ 63"
  shows "\<exists>ev L'. append_workflow_step_if_absent X r kind payload s fresh now L = (Inr (ev, True), L') \<and>
    ledger_events L' = ledger_events L @ [ev] \<and> ae_id ev = fresh \<and> kind_str (ae_kind ev) = kind \<and>
    ae_payload_json ev = Some payload \<and>
    uint (ae_aggregate_seq ev) = int (length (in_aggregate (''workflow_run:'' @ r) (ledger_events L))) + 1 \<and>
    step_map L' = (step_map L)((r, s) \<mapsto> \<lparr>rg_run_id = r, rg_step_id = s,
      rg_pending_seq = uint (ae_aggregate_seq ev), rg_receipt_seq = None, rg_completed_seq = None\<rparr>)"
proof -
  let ?a = "workflow_input r kind payload"
  let ?L1 = "L\<lparr>lg_registry := lg_registry L @ [\<lparr>rg_run_id = r, rg_step_id = s, rg_pending_seq = -1,
    rg_receipt_seq = None, rg_completed_seq = None\<rparr>]\<rparr>"
  have rows: "rows_inv X L" by (rule ledger_run_rows(1) [OF assms(1,2)])
  obtain ev L3 where L3: "append_audit_conn_with_actor X ?a fresh now L = Inr (ev, L3)"
    using append_accepted [OF assms(1,2) _ assms(5,6), of ?a now] assms(4) by (auto simp: workflow_input_def)
  then obtain L2 where "append_audit_conn_with_actor X ?a fresh now ?L1 = Inr (ev, L2)"
    using append_with_registry [OF L3, of ?L1] by auto
  then obtain L' where op: "append_workflow_step_if_absent X r kind payload s fresh now L = (Inr (ev, True), L')"
    using assms(3) by (simp add: append_workflow_step_if_absent_def with_immediate_tx_def step_map_def)
  from op show ?thesis
  proof (cases rule: pending_write)
    case (written L4)
    note i = append_inv [OF assms(1) rows written(3)]
    have "ledger_events L' = ledger_events L @ [ev]" using i(3) ledger_events_cong [OF written(4)] by simp
    then show ?thesis
      using op i(5,6) append_fields(1,3) [OF written(3)] written(5) by (simp add: workflow_input_def aggregate_of_def)
  qed (use assms(3) in simp)
qed

text \<open>A step that is pending and not completed is completed.\<close>

lemma completion_accepted:
  assumes "wf_ext X" "ledger_run X L" "step_map L (r, s) = Some g" "rg_completed_seq g = None" "kind \<noteq> []"
    and "ulid_text X fresh \<notin> lr_id ` set (lg_rows L)" "int (length (ledger_events L)) + 1 < 2 ^ 63"
  shows "\<exists>ev L'. append_workflow_completion X r kind payload s fresh now L = (Inr (ev, True), L') \<and>
    ledger_events L' = ledger_events L @ [ev] \<and> ae_id ev = fresh"
proof -
  let ?a = "workflow_input r kind payload"
  let ?L1 = "update_step r s (\<lambda>g. g\<lparr>rg_completed_seq := Some (-1)\<rparr>) L"
  have rows: "rows_inv X L" by (rule ledger_run_rows(1) [OF assms(1,2)])
  obtain ev L3 where L3: "append_audit_conn_with_actor X ?a fresh now L = Inr (ev, L3)"
    using append_accepted [OF assms(1,2) _ assms(6,7), of ?a now] assms(5) by (auto simp: workflow_input_def)
  then obtain L2 where "append_audit_conn_with_actor X ?a fresh now ?L1 = Inr (ev, L2)"
    using append_with_registry [OF L3, of ?L1] by (auto simp: update_step_def)
  then obtain L' where op: "append_workflow_completion X r kind payload s fresh now L = (Inr (ev, True), L')"
    using assms(3,4) by (simp add: append_workflow_completion_def with_immediate_tx_def step_map_def)
  from op show ?thesis
  proof (cases rule: completion_write)
    case (written L4 g')
    have "ledger_events L' = ledger_events L @ [ev]"
      using append_inv(3) [OF assms(1) rows written(4)] ledger_events_cong [OF written(5)] by simp
    then show ?thesis using op append_fields(1) [OF written(4)] by simp
  qed simp
qed

end
