(* ===== verification/Event_Bus.thy ===== *)
theory Event_Bus
  imports Ledger_Log
begin

text \<open>
  The event bus over the audit ledger: durable consumer checkpoints and the idempotent consumer
  (\<open>src/crates/openspine-kernel/src/store/event_bus.rs\<close>), with the proof that delivery is at least
  once: over any interleaving of ledger writes, deliveries, handler failures, restarts and crashes
  every matching event is accepted in order, and repeated only after a crash between its handler
  and the write of the checkpoint.

  The handler is a parameter: a function of its state and the event, which fails with a message
  or succeeds, and may change its state either way. A delivery takes its batch of entries once,
  when it starts; other writers run before or after it, not between two handler calls. An error of
  the database itself, on a read or a write, is a crash.
\<close>

section \<open>Checkpoints\<close>

definition checkpoint_default :: consumer_checkpoint where
  "checkpoint_default = \<lparr>cc_schema_version = 1, cc_last_acked_global_seq = 0\<rparr>"

definition load_consumer_checkpoint ::
  "string \<Rightarrow> ledger \<Rightarrow> ledger_error + persisted_consumer_state option" where
  "load_consumer_checkpoint consumer_id L =
     (case lg_checkpoints L consumer_id of
        None \<Rightarrow> Inr None
      | Some row \<Rightarrow> (case ck_state row of None \<Rightarrow> Inl SerdeError | Some st \<Rightarrow> Inr (Some st)))"

definition write_checkpoint :: "string \<Rightarrow> persisted_consumer_state \<Rightarrow> ledger \<Rightarrow> ledger" where
  "write_checkpoint consumer_id st L = L\<lparr>lg_checkpoints := (lg_checkpoints L)(consumer_id \<mapsto>
     \<lparr>ck_last_acked_global_seq = uint (cc_last_acked_global_seq (ps_checkpoint st)),
      ck_state = Some st\<rparr>)\<rparr>"

definition save_consumer_checkpoint ::
  "string \<Rightarrow> persisted_consumer_state \<Rightarrow> ledger \<Rightarrow> (ledger_error + unit) \<times> ledger" where
  "save_consumer_checkpoint consumer_id st L =
     (let seq = cc_last_acked_global_seq (ps_checkpoint st) in
      if \<not> uint seq < 2 ^ 63 then (Inl NumericRange, L)
      else (case lg_checkpoints L consumer_id of
          None \<Rightarrow> (Inr (), write_checkpoint consumer_id st L)
        | Some row \<Rightarrow> (case ck_state row of
              None \<Rightarrow> (Inl SerdeError, L)
            | Some old \<Rightarrow>
                if ps_filter old \<noteq> ps_filter st then (Inl (CheckpointFilterMismatch consumer_id), L)
                else if seq < word_of_int (ck_last_acked_global_seq row)
                then (Inl (CheckpointRegression consumer_id), L)
                else if \<not> ck_last_acked_global_seq row \<le> uint seq
                then (Inl (CheckpointRegression consumer_id), L)
                else (Inr (), write_checkpoint consumer_id st L))))"

definition bind_consumer_conn ::
  "string \<Rightarrow> event_filter \<Rightarrow> ledger \<Rightarrow> ledger_error + (unit \<times> ledger)" where
  "bind_consumer_conn consumer_id f L =
     (if lg_checkpoints L consumer_id \<noteq> None then Inl (CheckpointRegression consumer_id)
      else Inr ((), write_checkpoint consumer_id
        \<lparr>ps_schema_version = 1, ps_checkpoint = checkpoint_default, ps_filter = f\<rparr> L))"

section \<open>The idempotent consumer\<close>

datatype consumer_error =
    Consumer_store ledger_error
  | Handler_failed u64 string
  | FilterMismatch string

record idempotent_consumer =
  ic_consumer_id :: string
  ic_filter :: event_filter
  ic_checkpoint :: consumer_checkpoint
  ic_seen_event_ids :: "ulid set"
  ic_persist :: bool

definition consumer_new :: "string \<Rightarrow> event_filter \<Rightarrow> idempotent_consumer" where
  "consumer_new consumer_id f = \<lparr>ic_consumer_id = consumer_id, ic_filter = f,
     ic_checkpoint = checkpoint_default, ic_seen_event_ids = {}, ic_persist = False\<rparr>"

definition with_persisted_checkpoint ::
  "string \<Rightarrow> event_filter \<Rightarrow> ledger \<Rightarrow> consumer_error + idempotent_consumer" where
  "with_persisted_checkpoint consumer_id f L =
     (case load_consumer_checkpoint consumer_id L of
        Inl e \<Rightarrow> Inl (Consumer_store e)
      | Inr (Some st) \<Rightarrow>
          if ps_filter st \<noteq> f then Inl (FilterMismatch consumer_id)
          else Inr \<lparr>ic_consumer_id = consumer_id, ic_filter = f, ic_checkpoint = ps_checkpoint st,
            ic_seen_event_ids = {}, ic_persist = True\<rparr>
      | Inr None \<Rightarrow> Inr \<lparr>ic_consumer_id = consumer_id, ic_filter = f,
            ic_checkpoint = checkpoint_default, ic_seen_event_ids = {}, ic_persist = True\<rparr>)"

definition persist_state :: "idempotent_consumer \<Rightarrow> ledger \<Rightarrow> (ledger_error + unit) \<times> ledger" where
  "persist_state c = save_consumer_checkpoint (ic_consumer_id c)
     \<lparr>ps_schema_version = 1, ps_checkpoint = ic_checkpoint c, ps_filter = ic_filter c\<rparr>"

definition advance :: "u64 \<Rightarrow> idempotent_consumer \<Rightarrow> idempotent_consumer" where
  "advance seq c = c\<lparr>ic_checkpoint := (ic_checkpoint c)\<lparr>cc_last_acked_global_seq := seq\<rparr>\<rparr>"

type_synonym 's handler = "'s \<Rightarrow> audit_event \<Rightarrow> (string + unit) \<times> 's"

type_synonym 's delivery = "(consumer_error + unit) \<times> idempotent_consumer \<times> 's \<times> ledger"

text \<open>The loop of \<open>replay\<close>: a seen event is skipped, a failing handler stops the batch.\<close>

fun replay_loop ::
  "'s handler \<Rightarrow> ledger_entry list \<Rightarrow> idempotent_consumer \<Rightarrow> 's \<Rightarrow> ledger \<Rightarrow> 's delivery" where
  "replay_loop h [] c s L = (Inr (), c, s, L)"
| "replay_loop h (en # ens) c s L =
     (if ae_id (le_event en) \<in> ic_seen_event_ids c
      then let c' = advance (le_global_seq en) c in
        (if ic_persist c'
         then (case persist_state c' L of
             (Inl e, L') \<Rightarrow> (Inl (Consumer_store e), c', s, L')
           | (Inr _, L') \<Rightarrow> replay_loop h ens c' s L')
         else replay_loop h ens c' s L)
      else (case h s (le_event en) of
          (Inl message, s') \<Rightarrow> (Inl (Handler_failed (le_global_seq en) message), c, s', L)
        | (Inr _, s') \<Rightarrow>
            let c' = advance (le_global_seq en)
              (c\<lparr>ic_seen_event_ids := insert (ae_id (le_event en)) (ic_seen_event_ids c)\<rparr>) in
            (if ic_persist c'
             then (case persist_state c' L of
                 (Inl e, L') \<Rightarrow> (Inl (Consumer_store e), c', s', L')
               | (Inr _, L') \<Rightarrow> replay_loop h ens c' s' L')
             else replay_loop h ens c' s' L)))"

definition consumer_replay ::
  "ext \<Rightarrow> 's handler \<Rightarrow> idempotent_consumer \<Rightarrow> 's \<Rightarrow> ledger \<Rightarrow> 's delivery" where
  "consumer_replay X h c s L =
     (case replay_audit X (ic_filter c) (cc_last_acked_global_seq (ic_checkpoint c)) L of
        Inl e \<Rightarrow> (Inl (Consumer_store e), c, s, L)
      | Inr entries \<Rightarrow> replay_loop h entries c s L)"

section \<open>Deliveries over a growing ledger\<close>

text \<open>A handler together with the log of the events it has accepted.\<close>

fun bus_logged :: "'s handler \<Rightarrow> ('s \<times> audit_event list) handler" where
  "bus_logged h (s, hist) e = (case h s e of
     (Inl message, s') \<Rightarrow> (Inl message, (s', hist)) | (Inr u, s') \<Rightarrow> (Inr u, (s', hist @ [e])))"

definition handler_fails :: "'s handler \<Rightarrow> string \<Rightarrow> bool" where
  "handler_fails h message \<longleftrightarrow> (\<exists>s e. fst (h s e) = Inl message)"

text \<open>
  The number counts the crashes: a process that dies between a handler call and the write of the
  checkpoint, whether the handler had accepted the event or not. One that dies before a handler
  call, after any part of a batch, is \<open>bus_cut\<close>.
\<close>

inductive bus_run ::
  "ext \<Rightarrow> string \<Rightarrow> event_filter \<Rightarrow> ledger \<Rightarrow> idempotent_consumer \<Rightarrow> 's \<Rightarrow> audit_event list \<Rightarrow> nat \<Rightarrow> bool"
  for X consumer_id f where
  bus_start: "ledger_run X L \<Longrightarrow> lg_checkpoints L consumer_id = None \<Longrightarrow>
    with_persisted_checkpoint consumer_id f L = Inr c \<Longrightarrow> bus_run X consumer_id f L c s [] 0"
| bus_write: "bus_run X consumer_id f L c s hist n \<Longrightarrow> ledger_step X L L' \<Longrightarrow>
    lg_checkpoints L' consumer_id = lg_checkpoints L consumer_id \<Longrightarrow> bus_run X consumer_id f L' c s hist n"
| bus_deliver: "bus_run X consumer_id f L c s hist n \<Longrightarrow>
    consumer_replay X (bus_logged h) c (s, hist) L = (r, c', (s', hist'), L') \<Longrightarrow>
    bus_run X consumer_id f L' c' s' hist' n"
| bus_cut: "bus_run X consumer_id f L c s hist n \<Longrightarrow>
    replay_audit X (ic_filter c) (cc_last_acked_global_seq (ic_checkpoint c)) L = Inr (pre @ rest) \<Longrightarrow>
    replay_loop (bus_logged h) pre c (s, hist) L = (Inr (), c1, (s1, hist1), L1) \<Longrightarrow>
    with_persisted_checkpoint consumer_id f L1 = Inr c' \<Longrightarrow> bus_run X consumer_id f L1 c' s' hist1 n"
| bus_crash: "bus_run X consumer_id f L c s hist n \<Longrightarrow>
    replay_audit X (ic_filter c) (cc_last_acked_global_seq (ic_checkpoint c)) L = Inr (pre @ en # rest) \<Longrightarrow>
    replay_loop (bus_logged h) pre c (s, hist) L = (Inr (), c1, (s1, hist1), L1) \<Longrightarrow>
    bus_logged h (s1, hist1) (le_event en) = (res, (s2, hist2)) \<Longrightarrow>
    with_persisted_checkpoint consumer_id f L1 = Inr c' \<Longrightarrow> bus_run X consumer_id f L1 c' s' hist2 (Suc n)"
| bus_restart: "bus_run X consumer_id f L c s hist n \<Longrightarrow>
    with_persisted_checkpoint consumer_id f L = Inr c' \<Longrightarrow> bus_run X consumer_id f L c' s' hist n"

definition matching :: "event_filter \<Rightarrow> audit_event list \<Rightarrow> audit_event list" where
  "matching f = filter (\<lambda>e. filter_matches f (ae_kind e) (ae_aggregate_id e))"

definition acked :: "idempotent_consumer \<Rightarrow> nat" where
  "acked c = unat (cc_last_acked_global_seq (ic_checkpoint c))"

definition saved :: "string \<Rightarrow> event_filter \<Rightarrow> ledger \<Rightarrow> idempotent_consumer \<Rightarrow> bool" where
  "saved consumer_id f L c \<longleftrightarrow> (case lg_checkpoints L consumer_id of
     None \<Rightarrow> ic_checkpoint c = checkpoint_default
   | Some row \<Rightarrow> ck_last_acked_global_seq row = uint (cc_last_acked_global_seq (ic_checkpoint c)) \<and>
       ck_state row = Some \<lparr>ps_schema_version = 1, ps_checkpoint = ic_checkpoint c, ps_filter = f\<rparr>)"

text \<open>
  The events handled, against the matching ones at or before the checkpoint and those after it:
  each in order, the next one possibly already, with at most \<open>n\<close> repetitions.
\<close>

definition handled :: "audit_event list \<Rightarrow> audit_event list \<Rightarrow> nat \<Rightarrow> audit_event list \<Rightarrow> bool" where
  "handled older newer n hist \<longleftrightarrow> (\<exists>xs. remdups_adj hist = older @ xs \<and> prefix xs newer \<and> length xs \<le> 1 \<and>
     length hist + length xs \<le> length (remdups_adj hist) + n)"

definition bus_inv ::
  "ext \<Rightarrow> string \<Rightarrow> event_filter \<Rightarrow> ledger \<Rightarrow> idempotent_consumer \<Rightarrow> audit_event list \<Rightarrow> nat \<Rightarrow> bool" where
  "bus_inv X consumer_id f L c hist n \<longleftrightarrow> ledger_run X L \<and> saved consumer_id f L c \<and>
     ic_consumer_id c = consumer_id \<and> ic_filter c = f \<and> ic_persist c \<and>
     acked c \<le> length (ledger_events L) \<and>
     handled (matching f (take (acked c) (ledger_events L))) (matching f (drop (acked c) (ledger_events L))) n hist \<and>
     ic_seen_event_ids c \<subseteq> ae_id ` set (take (acked c) (ledger_events L))"

lemma remdups_adj_snoc:
  "remdups_adj (xs @ [x]) = (if xs \<noteq> [] \<and> last xs = x then remdups_adj xs else remdups_adj xs @ [x])"
  by (induction xs rule: remdups_adj.induct) auto

lemma remdups_adj_full: "length (remdups_adj xs) = length xs \<Longrightarrow> remdups_adj xs = xs"
proof (induction xs rule: remdups_adj.induct)
  case (3 x y xs)
  have "length (remdups_adj (x # xs)) < length (x # y # xs)" using remdups_adj_length [of "x # xs"] by simp
  with 3 show ?case by (auto split: if_splits)
qed simp_all

lemma handled_Nil [simp]: "handled [] newer 0 []"
  by (simp add: handled_def)

lemma handled_cases:
  assumes "handled older (e # newer) n hist" "e \<notin> set older"
  obtains (pending) "remdups_adj hist = older" "remdups_adj (hist @ [e]) = older @ [e]" "length hist \<le> length older + n"
  | (again) "remdups_adj hist = older @ [e]" "remdups_adj (hist @ [e]) = older @ [e]" "length hist \<le> length older + n"
proof -
  obtain xs where xs: "remdups_adj hist = older @ xs" "prefix xs (e # newer)" "length xs \<le> 1"
    "length hist + length xs \<le> length (remdups_adj hist) + n"
    using assms(1) by (auto simp: handled_def)
  have l: "hist \<noteq> [] \<Longrightarrow> last hist = last (older @ xs)" using xs(1) by (metis last_remdups_adj)
  show thesis
  proof (cases xs)
    case Nil
    with l xs(1) assms(2) have "\<not> (hist \<noteq> [] \<and> last hist = e)"
      by (metis append_Nil2 last_in_set remdups_adj_Nil_iff)
    with xs Nil show thesis by (intro pending) (simp_all add: remdups_adj_snoc)
  next
    case (Cons x ys)
    then have "xs = [e]" using xs(2,3) by simp
    moreover from this xs(1) have "hist \<noteq> []" by auto
    ultimately show thesis using xs(1,4) l by (intro again) (simp_all add: remdups_adj_snoc)
  qed
qed

lemma handled_steps:
  assumes "handled older (e # newer) n hist" "e \<notin> set older"
  shows "handled (older @ [e]) newer n (hist @ [e])" "handled older (e # newer) (Suc n) (hist @ [e])"
  using assms(1,2)
  by (cases rule: handled_cases; simp add: handled_def; intro exI [of _ "[e]"] exI [of _ "[]"]; simp)+

lemma handled_more: "handled older newer n hist \<Longrightarrow> n \<le> m \<Longrightarrow> handled older (newer @ zs) m hist"
  unfolding handled_def by (meson add_left_mono le_trans prefix_prefix)

lemma handled_all:
  assumes "handled older [] n hist"
  shows "remdups_adj hist = older" "length hist \<le> length older + n"
  using assms by (auto simp: handled_def)

lemma handled_exact:
  assumes "handled older newer 0 hist"
  shows "hist = older"
proof -
  obtain xs where xs: "remdups_adj hist = older @ xs" "length hist + length xs \<le> length (remdups_adj hist)"
    using assms by (auto simp: handled_def)
  then have "length xs = 0" "length (remdups_adj hist) = length hist"
    using remdups_adj_length [of hist] by linarith+
  with xs(1) remdups_adj_full [of hist] show ?thesis by simp
qed

definition batch :: "event_filter \<Rightarrow> nat \<Rightarrow> audit_event list \<Rightarrow> ledger_entry list" where
  "batch f n es = filter (entry_matches f)
     (map (\<lambda>(i, e). \<lparr>le_global_seq = word_of_int (int i), le_event = e\<rparr>) (enumerate (Suc n) es))"

lemma batch_simps:
  "batch f n [] = []"
  "batch f n (e # es) = (if filter_matches f (ae_kind e) (ae_aggregate_id e)
     then \<lparr>le_global_seq = word_of_int (int (Suc n)), le_event = e\<rparr> # batch f (Suc n) es
     else batch f (Suc n) es)"
  by (simp_all add: batch_def entry_matches_def)

lemma enumerate_after:
  "filter (\<lambda>(i, e). n < i) (enumerate 1 es) = enumerate (Suc n) (drop n es)"
proof (cases "n \<le> length es")
  case True
  have "filter (\<lambda>(i, e). n < i) (enumerate 1 (take n es)) = []"
    by (auto simp: filter_empty_conv in_set_enumerate_eq)
  moreover have "filter (\<lambda>(i, e). n < i) (enumerate (Suc n) (drop n es)) = enumerate (Suc n) (drop n es)"
    by (auto simp: filter_id_conv in_set_enumerate_eq)
  moreover have "enumerate 1 es = enumerate 1 (take n es) @ enumerate (Suc n) (drop n es)"
    using enumerate_append_eq [of 1 "take n es" "drop n es"] True by simp
  ultimately show ?thesis by simp
qed (auto simp: filter_empty_conv in_set_enumerate_eq)

lemma run_replay_batch:
  assumes "wf_ext X" "wf_serde X" "ledger_run X L"
  shows "replay_audit_conn X f (int n) L = Inr (batch f n (drop n (ledger_events L)))"
  using run_replay [OF assms, of f "int n"]
  by (simp only: of_nat_less_iff enumerate_after batch_def)

lemma persist_ok:
  assumes "saved consumer_id f L c" "ic_consumer_id c = consumer_id" "ic_filter c = f"
    and "uint (cc_last_acked_global_seq (ic_checkpoint c)) \<le> uint seq" "uint seq < 2 ^ 63"
    and c': "c' = advance seq d" "ic_consumer_id d = ic_consumer_id c" "ic_filter d = ic_filter c"
      "ic_checkpoint d = ic_checkpoint c"
  shows "persist_state c' L = (Inr (), write_checkpoint consumer_id
    \<lparr>ps_schema_version = 1, ps_checkpoint = ic_checkpoint c', ps_filter = f\<rparr> L)"
proof -
  let ?st = "\<lparr>ps_schema_version = 1, ps_checkpoint = ic_checkpoint c', ps_filter = f\<rparr>"
  have e: "persist_state c' = save_consumer_checkpoint consumer_id ?st"
    using assms by (simp add: persist_state_def advance_def)
  have "cc_last_acked_global_seq (ic_checkpoint c') = seq" using c' by (simp add: advance_def)
  then show ?thesis
    unfolding e using assms(1,4,5)
    by (auto simp: save_consumer_checkpoint_def saved_def word_less_def split: option.splits)
qed

lemma write_checkpoint_simps [simp]:
  "lg_rows (write_checkpoint i st L) = lg_rows L"
  "ledger_events (write_checkpoint i st L) = ledger_events L"
  "ledger_run X L \<Longrightarrow> ledger_run X (write_checkpoint i st L)"
  unfolding write_checkpoint_def
  by (simp_all add: ledger_events_def run_step [OF _ step_checkpoints])

lemma saved_write:
  "saved i f (write_checkpoint i \<lparr>ps_schema_version = 1, ps_checkpoint = ic_checkpoint c, ps_filter = f\<rparr> L) c"
  by (simp add: saved_def write_checkpoint_def)

lemma seen_before:
  assumes "bus_inv X i f L c hist N" "acked c \<le> n"
  shows "ic_seen_event_ids c \<subseteq> ae_id ` set (take n (ledger_events L))"
  using assms(1) set_take_subset_set_take [OF assms(2), of "ledger_events L"]
  unfolding bus_inv_def by (meson image_mono subset_trans)

lemma matching_append: "matching f (xs @ ys) = matching f xs @ matching f ys"
  by (simp add: matching_def)

lemma matching_split:
  assumes "k < length es"
  shows "matching f (take (Suc k) es) = matching f (take k es) @ matching f [es ! k]"
    "matching f (drop k es) = matching f [es ! k] @ matching f (drop (Suc k) es)"
  unfolding matching_append [symmetric] using assms
  by (simp_all add: take_Suc_conv_app_nth Cons_nth_drop_Suc)

lemma matching_rest:
  assumes "matching f (take n es) = matching f (take m es)"
  shows "matching f (drop n es) = matching f (drop m es)"
proof -
  have "matching f (take n es) @ matching f (drop n es) = matching f (take m es) @ matching f (drop m es)"
    by (simp flip: matching_append)
  with assms show ?thesis by simp
qed

lemma batch_Nil: "batch f n es = [] \<longleftrightarrow> matching f es = []"
  by (induction es arbitrary: n) (auto simp: batch_simps matching_def)

lemma batch_Cons: "batch f n es = en # ens \<Longrightarrow> \<exists>ys. matching f es = le_event en # ys"
  by (induction es arbitrary: n) (auto simp: batch_simps matching_def split: if_splits)

text \<open>One event accepted: the consumer advances to it and the checkpoint is saved.\<close>

lemma accept_inv:
  assumes "wf_ext X" "bus_inv X i f L c hist N" "acked c \<le> n" "n < length (ledger_events L)"
    and "length (ledger_events L) < 2 ^ 63" "matching f (take n (ledger_events L)) = matching f (take (acked c) (ledger_events L))"
    and "filter_matches f (ae_kind (ledger_events L ! n)) (ae_aggregate_id (ledger_events L ! n))"
    and c': "c' = advance (word_of_int (int (Suc n)))
      (c\<lparr>ic_seen_event_ids := insert (ae_id (ledger_events L ! n)) (ic_seen_event_ids c)\<rparr>)"
  shows "\<exists>L'. persist_state c' L = (Inr (), L') \<and> ledger_events L' = ledger_events L \<and>
    bus_inv X i f L' c' (hist @ [ledger_events L ! n]) N \<and> acked c' = Suc n"
proof -
  let ?es = "ledger_events L"
  let ?L' = "write_checkpoint i \<lparr>ps_schema_version = 1, ps_checkpoint = ic_checkpoint c', ps_filter = f\<rparr> L"
  define w :: u64 where "w = word_of_int (int (Suc n))"
  have u: "uint w = int (Suc n)" unfolding w_def using assms(4,5) by (intro uint_u64) simp_all
  note c' = c' [folded w_def]
  have "int (acked c) \<le> int (Suc n)" using assms(3) by simp
  then have "uint (cc_last_acked_global_seq (ic_checkpoint c)) \<le> uint w" "uint w < 2 ^ 63"
    using assms(4,5) u by (simp_all add: acked_def)
  then have p: "persist_state c' L = (Inr (), ?L')"
    using assms(2) by (intro persist_ok [where c = c, OF _ _ _ _ _ c']) (simp_all add: bus_inv_def)
  have "int (acked c') = int (Suc n)" unfolding u [symmetric] by (simp add: acked_def c' advance_def)
  then have a: "acked c' = Suc n" by simp
  have t: "take (Suc n) ?es = take n ?es @ [?es ! n]" by (rule take_Suc_conv_app_nth [OF assms(4)])
  have "ic_seen_event_ids c' \<subseteq> ae_id ` set (take (Suc n) ?es)"
    using seen_before [OF assms(2,3)] unfolding t by (auto simp: c' advance_def)
  moreover have "?es ! n \<notin> set (matching f (take n ?es))"
  proof
    assume "?es ! n \<in> set (matching f (take n ?es))"
    then have "ae_id (?es ! n) \<in> ae_id ` set (take n ?es)" by (auto simp: matching_def)
    then show False using audit_log.earlier_key [of X L n] assms(1,2,4) by (simp add: bus_inv_def)
  qed
  then have "handled (matching f (take (Suc n) ?es)) (matching f (drop (Suc n) ?es)) N (hist @ [?es ! n])"
    using assms(2,7) handled_steps(1) matching_split [OF assms(4), of f]
    unfolding bus_inv_def assms(6) [symmetric] matching_rest [OF assms(6), symmetric]
    by (simp add: matching_def)
  moreover have "ic_consumer_id c' = i" "ic_filter c' = f" "ic_persist c'"
    using assms(2) by (simp_all add: bus_inv_def c' advance_def)
  ultimately have "bus_inv X i f ?L' c' (hist @ [?es ! n]) N"
    using assms(2,4) a saved_write [of i f c' L] by (simp add: bus_inv_def)
  with p a show ?thesis by auto
qed

text \<open>Part of a batch delivered: what is left of it starts with the next matching event.\<close>

lemma loop_delivers:
  assumes "wf_ext X" "bus_inv X i f L c hist N" "acked c \<le> n" "drop n (ledger_events L) = ds"
    and "length (ledger_events L) < 2 ^ 63" "matching f (take n (ledger_events L)) = matching f (take (acked c) (ledger_events L))"
    and "batch f n ds = pre @ rest"
    and "replay_loop (bus_logged h) pre c (s, hist) L = (r, c', (s', hist'), L')"
  shows "bus_inv X i f L' c' hist' N \<and> ledger_events L' = ledger_events L \<and>
    (r = Inr () \<and> (\<exists>m. batch f m (drop m (ledger_events L)) = rest \<and>
       matching f (take m (ledger_events L)) = matching f (take (acked c') (ledger_events L))) \<or>
     (\<exists>seq m. r = Inl (Handler_failed seq m) \<and> handler_fails h m))"
  using assms(2-)
proof (induction ds arbitrary: n c hist s L pre)
  case Nil
  then show ?case by (auto simp: batch_simps intro!: exI [of _ n])
next
  case (Cons e ds)
  let ?es = "ledger_events L"
  have n: "n < length ?es" using Cons.prems(3) by (metis drop_all linorder_not_less list.distinct(1))
  then have e: "?es ! n = e" and ds: "drop (Suc n) ?es = ds"
    using Cons.prems(3) by (simp_all add: Cons_nth_drop_Suc [symmetric])
  show ?case
  proof (cases "filter_matches f (ae_kind e) (ae_aggregate_id e)")
    case False
    then have "matching f (take (Suc n) ?es) = matching f (take (acked c) ?es)"
      using matching_split(1) [OF n, of f] Cons.prems(5) by (simp add: e matching_def)
    then show ?thesis
      using Cons.prems False by (intro Cons.IH [of L c hist "Suc n" pre s]) (simp_all add: ds batch_simps)
  next
    case True
    let ?c = "advance (word_of_int (int (Suc n)))
      (c\<lparr>ic_seen_event_ids := insert (ae_id e) (ic_seen_event_ids c)\<rparr>)"
    have run: "ledger_run X L" using Cons.prems(1) by (simp add: bus_inv_def)
    have new: "ae_id e \<notin> ic_seen_event_ids c"
      using audit_log.earlier_key [of X L n] seen_before [OF Cons.prems(1,2)] assms(1) run n e by auto
    show ?thesis
    proof (cases pre)
      case Nil
      then show ?thesis using Cons.prems by (auto intro!: exI [of _ n])
    next
      case (Cons en pre')
      with Cons.prems(6) True have en: "en = \<lparr>le_global_seq = word_of_int (int (Suc n)), le_event = e\<rparr>"
        "batch f (Suc n) ds = pre' @ rest" by (simp_all add: batch_simps)
      show ?thesis
      proof (cases "h s e")
        case (Pair res s1)
        show ?thesis
        proof (cases res)
          case (Inl m)
          then have "handler_fails h m" using Pair unfolding handler_fails_def by (metis fst_conv)
          with Inl show ?thesis
            using Cons.prems new Pair by (auto simp: \<open>pre = en # pre'\<close> en)
        next
          case (Inr u)
          obtain L1 where L1: "persist_state ?c L = (Inr (), L1)" "ledger_events L1 = ?es"
            "bus_inv X i f L1 ?c (hist @ [e]) N" "acked ?c = Suc n"
            using accept_inv [OF assms(1) Cons.prems(1,2) n Cons.prems(4,5)] True by (auto simp: e)
          have "ic_persist ?c" using L1(3) by (simp add: bus_inv_def)
          then have "replay_loop (bus_logged h) pre' ?c (s1, hist @ [e]) L1 = (r, c', (s', hist'), L')"
            using Cons.prems(7) new Pair Inr L1(1) by (simp add: \<open>pre = en # pre'\<close> en Let_def)
          from Cons.IH [OF L1(3) _ _ _ _ _ this, of "Suc n"] show ?thesis
            using L1 Cons.prems(4) en(2) by (simp add: ds)
        qed
      qed
    qed
  qed
qed

lemma replay_entries:
  assumes "wf_ext X" "wf_serde X" "bus_inv X i f L c hist n" "length (ledger_events L) < 2 ^ 63"
  shows "replay_audit X (ic_filter c) (cc_last_acked_global_seq (ic_checkpoint c)) L =
    Inr (batch f (acked c) (drop (acked c) (ledger_events L)))"
proof -
  have b: "ledger_run X L" "ic_filter c = f" "acked c \<le> length (ledger_events L)"
    using assms(3) by (simp_all add: bus_inv_def)
  have u: "uint (cc_last_acked_global_seq (ic_checkpoint c)) = int (acked c)" by (simp add: acked_def)
  then show ?thesis
    using assms(4) b run_replay_batch [OF assms(1,2) b(1)] by (simp add: replay_audit_def)
qed

lemma replay_delivers:
  assumes "wf_ext X" "wf_serde X" "bus_inv X i f L c hist n" "length (ledger_events L) < 2 ^ 63"
    and "consumer_replay X (bus_logged h) c (s, hist) L = (r, c', (s', hist'), L')"
  shows "bus_inv X i f L' c' hist' n \<and> ledger_events L' = ledger_events L \<and>
    (r = Inr () \<and> matching f (take (acked c') (ledger_events L)) = matching f (ledger_events L) \<or>
     (\<exists>seq m. r = Inl (Handler_failed seq m) \<and> handler_fails h m))"
proof -
  let ?es = "ledger_events L"
  have "replay_loop (bus_logged h) (batch f (acked c) (drop (acked c) ?es)) c (s, hist) L = (r, c', (s', hist'), L')"
    using assms(5) replay_entries [OF assms(1-4)] by (simp add: consumer_replay_def)
  note d = loop_delivers [OF assms(1,3) order.refl refl assms(4) refl _ this, of "[]"]
  have "matching f (take k ?es) = matching f ?es" if "batch f m (drop m ?es) = []"
    "matching f (take m ?es) = matching f (take k ?es)" for m k
    using that matching_append [of f "take m ?es" "drop m ?es"] by (simp add: batch_Nil)
  with d show ?thesis by auto
qed

text \<open>A batch cut short by a crash, before or after the handler of its next event was called.\<close>

lemma cut_inv:
  assumes "wf_ext X" "wf_serde X" "bus_inv X i f L c hist n" "length (ledger_events L) < 2 ^ 63"
    and "replay_audit X (ic_filter c) (cc_last_acked_global_seq (ic_checkpoint c)) L = Inr (pre @ rest)"
    and "replay_loop (bus_logged h) pre c (s, hist) L = (Inr (), c1, (s1, hist1), L1)"
  shows "bus_inv X i f L1 c1 hist1 n"
    "rest = en # rest' \<Longrightarrow> bus_logged h (s1, hist1) (le_event en) = (res, (s2, hist2)) \<Longrightarrow>
      bus_inv X i f L1 c1 hist2 (Suc n)"
proof -
  let ?es = "ledger_events L"
  have "batch f (acked c) (drop (acked c) ?es) = pre @ rest"
    using assms(5) replay_entries [OF assms(1-4)] by simp
  from loop_delivers [OF assms(1,3) order.refl refl assms(4) refl this assms(6)]
  obtain m where d: "bus_inv X i f L1 c1 hist1 n" "ledger_events L1 = ?es" "batch f m (drop m ?es) = rest"
    "matching f (take m ?es) = matching f (take (acked c1) ?es)" by auto
  show "bus_inv X i f L1 c1 hist1 n" by (rule d(1))
  assume rest: "rest = en # rest'" and op: "bus_logged h (s1, hist1) (le_event en) = (res, (s2, hist2))"
  obtain ys where ys: "matching f (drop (acked c1) ?es) = le_event en # ys"
    using batch_Cons [OF d(3) [unfolded rest]] matching_rest [OF d(4)] by auto
  let ?A = "matching f (take (acked c1) ?es)"
  have "distinct (?A @ matching f (drop (acked c1) ?es))"
    using run_distinct_ids [OF assms(1), of L] assms(3)
    by (simp add: bus_inv_def matching_def distinct_map flip: filter_append)
  then have new: "le_event en \<notin> set ?A" by (auto simp: ys)
  have h: "handled ?A (le_event en # ys) n hist1" using d(1,2) ys by (simp add: bus_inv_def)
  have "hist2 = hist1 \<or> hist2 = hist1 @ [le_event en]"
    using op by (auto split: prod.splits sum.splits)
  then have "handled ?A (le_event en # ys) (Suc n) hist2"
    using handled_steps(2) [OF h new] handled_more [OF h, of "Suc n" "[]"] by auto
  then show "bus_inv X i f L1 c1 hist2 (Suc n)" using d(1,2) ys by (simp add: bus_inv_def)
qed

lemma restart_inv:
  assumes "bus_inv X i f L c hist n" "with_persisted_checkpoint i f L = Inr c'"
  shows "bus_inv X i f L c' hist n"
  using assms
  by (auto simp: bus_inv_def with_persisted_checkpoint_def load_consumer_checkpoint_def saved_def
      acked_def split: option.splits if_splits)

lemma write_inv:
  assumes "wf_ext X" "bus_inv X i f L c hist n" "ledger_step X L L'"
    "lg_checkpoints L' i = lg_checkpoints L i"
  shows "bus_inv X i f L' c hist n"
proof -
  have L: "ledger_run X L" "acked c \<le> length (ledger_events L)" using assms(2) by (simp_all add: bus_inv_def)
  have "(ledger_step X)\<^sup>*\<^sup>* L L'" using assms(3) by (rule r_into_rtranclp)
  note log = audit_log.steps_grow [of X L L', OF this] audit_log.take_stable [of X L L' "acked c", OF _ this]
  then have t: "take (acked c) (ledger_events L') = take (acked c) (ledger_events L)"
    "acked c \<le> length (ledger_events L')" "prefix (ledger_events L) (ledger_events L')"
    using assms(1) L by simp_all
  then obtain zs where "ledger_events L' = ledger_events L @ zs" by (auto simp: prefix_def)
  then have "matching f (drop (acked c) (ledger_events L')) = matching f (drop (acked c) (ledger_events L)) @ matching f zs"
    using L(2) by (simp add: matching_append)
  with assms L t handled_more [OF _ order.refl] show ?thesis
    by (simp add: bus_inv_def saved_def run_step [OF L(1) assms(3)])
qed

text \<open>
  A delivery never shortens the ledger, so the bound on its length at the end of a run holds
  throughout it.
\<close>

lemma replay_loop_rows: "lg_rows (snd (snd (snd (replay_loop h ens c s L)))) = lg_rows L"
proof (induction h ens c s L rule: replay_loop.induct)
  case (2 h en ens c s L)
  have "lg_rows (snd (save_consumer_checkpoint i st L)) = lg_rows L" for i st L
    by (simp add: save_consumer_checkpoint_def write_checkpoint_def Let_def split: option.split)
  then have p: "lg_rows L' = lg_rows L" if "persist_state c' L = (e, L')" for c' e L'
    using that unfolding persist_state_def by (metis snd_conv)
  from 2 p show ?case by (auto simp: Let_def split: prod.splits sum.splits)
qed simp

lemma replay_rows: "consumer_replay X h c s L = (r, c', s', L') \<Longrightarrow> lg_rows L' = lg_rows L"
  by (auto simp: consumer_replay_def split: sum.splits dest: arg_cong [where f = "\<lambda>d. lg_rows (snd (snd (snd d)))"]
      simp: replay_loop_rows)

lemma bus_run_inv:
  assumes "bus_run X i f L c s hist n" "wf_ext X" "wf_serde X" "length (lg_rows L) < 2 ^ 63"
  shows "bus_inv X i f L c hist n"
  using assms(1,4)
proof (induction rule: bus_run.induct)
  case (bus_start L c)
  then show ?case
    by (auto simp: bus_inv_def with_persisted_checkpoint_def load_consumer_checkpoint_def saved_def
        acked_def checkpoint_default_def matching_def)
next
  case (bus_write L c s hist n L')
  have "length (lg_rows L) \<le> length (lg_rows L')"
    using ledger_step_rows [OF bus_write(2)] append_fresh_id(1) by (fastforce simp: row_step_def)
  with bus_write write_inv [OF assms(2)] show ?case by auto
next
  case (bus_deliver L c s hist n h r c' s' hist' L')
  have "lg_rows L' = lg_rows L" by (rule replay_rows [OF bus_deliver(2)])
  with bus_deliver replay_delivers [OF assms(2,3) _ _ bus_deliver(2)] show ?case
    by (simp add: ledger_events_def)
next
  case (bus_cut L c s hist n pre rest h c1 s1 hist1 L1 c' s')
  have r: "lg_rows L1 = lg_rows L" using replay_loop_rows [of "bus_logged h" pre c "(s, hist)" L] by (simp add: bus_cut(3))
  have "bus_inv X i f L1 c1 hist1 n"
    by (rule cut_inv(1) [OF assms(2,3) bus_cut.IH _ bus_cut(2,3)])
      (use bus_cut.prems r in \<open>simp_all add: ledger_events_def\<close>)
  then show ?case using bus_cut(4) by (rule restart_inv)
next
  case (bus_crash L c s hist n pre en rest h c1 s1 hist1 L1 res s2 hist2 c' s')
  have r: "lg_rows L1 = lg_rows L" using replay_loop_rows [of "bus_logged h" pre c "(s, hist)" L] by (simp add: bus_crash(3))
  have "bus_inv X i f L1 c1 hist2 (Suc n)"
    by (rule cut_inv(2) [OF assms(2,3) bus_crash.IH _ bus_crash(2,3) refl bus_crash(4)])
      (use bus_crash.prems r in \<open>simp_all add: ledger_events_def\<close>)
  then show ?case using bus_crash(5) by (rule restart_inv)
next
  case (bus_restart L c s hist n c' s')
  then show ?case using restart_inv by blast
qed

text \<open>A consumer that has acknowledged everything has nothing left to do.\<close>

lemma idle_replay:
  assumes "wf_ext X" "wf_serde X" "bus_inv X i f L c hist n"
    and "matching f (take (acked c) (ledger_events L)) = matching f (ledger_events L)"
    and "length (ledger_events L) < 2 ^ 63"
  shows "consumer_replay X h c s L = (Inr (), c, s, L)"
proof -
  have "batch f (acked c) (drop (acked c) (ledger_events L)) = []"
    using assms(4) matching_append [of f "take (acked c) (ledger_events L)" "drop (acked c) (ledger_events L)"]
    by (simp add: batch_Nil)
  then show ?thesis
    using replay_entries [OF assms(1-3,5)] by (simp add: consumer_replay_def)
qed

section \<open>Properties\<close>

text \<open>
  C17. Delivery is at least once and in order, with a repetition only after a crash. Over any
  interleaving of ledger writes, deliveries, handler failures, restarts, and crashes between a
  handler call and the write of the checkpoint, the events the handlers have accepted are, without
  immediate repetitions, the distinct matching events up to the checkpoint, and at most the next
  one; there are no more repetitions than crashes, so that without a crash each was accepted
  exactly once. The next delivery fails only when the handler does; otherwise all matching
  events of the ledger have been accepted, and delivering again calls no handler and changes nothing.
\<close>

theorem consumer_at_least_once:
  assumes "wf_ext X" "wf_serde X" "bus_run X i f L c s hist crashes" "length (lg_rows L) < 2 ^ 63"
  shows "(\<exists>ahead. remdups_adj hist = matching f (take (acked c) (ledger_events L)) @ ahead \<and> length ahead \<le> 1 \<and>
      prefix ahead (matching f (drop (acked c) (ledger_events L)))) \<and>
    distinct (map ae_id (remdups_adj hist)) \<and> length hist \<le> length (remdups_adj hist) + crashes \<and>
    (crashes = 0 \<longrightarrow> hist = matching f (take (acked c) (ledger_events L))) \<and>
    (\<forall>h r c' s' hist' L'. consumer_replay X (bus_logged h) c (s, hist) L = (r, c', (s', hist'), L') \<longrightarrow>
       lg_rows L' = lg_rows L \<and> (case r of
         Inl err \<Rightarrow> \<exists>seq m. err = Handler_failed seq m \<and> handler_fails h m
       | Inr _ \<Rightarrow> remdups_adj hist' = matching f (ledger_events L) \<and>
           length hist' \<le> length (matching f (ledger_events L)) + crashes \<and>
           (\<forall>h' t. consumer_replay X (h' :: 't handler) c' t L' = (Inr (), c', t, L'))))"
proof -
  let ?es = "ledger_events L"
  have inv: "bus_inv X i f L c hist crashes" by (rule bus_run_inv [OF assms(3,1,2,4)])
  have len: "length ?es < 2 ^ 63" using assms(4) by (simp add: ledger_events_def)
  have h: "handled (matching f (take (acked c) ?es)) (matching f (drop (acked c) ?es)) crashes hist"
    using inv by (simp add: bus_inv_def)
  then obtain ahead where ahead: "remdups_adj hist = matching f (take (acked c) ?es) @ ahead" "length ahead \<le> 1"
    "prefix ahead (matching f (drop (acked c) ?es))" "length hist + length ahead \<le> length (remdups_adj hist) + crashes"
    by (auto simp: handled_def)
  have "prefix (remdups_adj hist) (matching f ?es)"
    using ahead(1,3) matching_append [of f "take (acked c) ?es" "drop (acked c) ?es"] by simp
  moreover have "distinct (map ae_id (matching f ?es))"
    using run_distinct_ids [OF assms(1), of L] inv by (auto simp: bus_inv_def matching_def distinct_map inj_on_def)
  ultimately have d: "distinct (map ae_id (remdups_adj hist))" by (auto simp: prefix_def)
  have delivery: "lg_rows L' = lg_rows L \<and> (case r of
         Inl err \<Rightarrow> \<exists>seq m. err = Handler_failed seq m \<and> handler_fails h m
       | Inr _ \<Rightarrow> remdups_adj hist' = matching f ?es \<and> length hist' \<le> length (matching f ?es) + crashes \<and>
           (\<forall>h' t. consumer_replay X (h' :: 't handler) c' t L' = (Inr (), c', t, L')))"
    if op: "consumer_replay X (bus_logged h) c (s, hist) L = (r, c', (s', hist'), L')" for h r c' s' hist' L'
  proof -
    have inv': "bus_inv X i f L' c' hist' crashes" "ledger_events L' = ?es"
      and r: "r = Inr () \<and> matching f (take (acked c') ?es) = matching f ?es \<or>
        (\<exists>seq m. r = Inl (Handler_failed seq m) \<and> handler_fails h m)"
      using replay_delivers [OF assms(1,2) inv len op] by blast+
    have "remdups_adj hist' = matching f ?es \<and> length hist' \<le> length (matching f ?es) + crashes \<and>
      (\<forall>h' t. consumer_replay X (h' :: 't handler) c' t L' = (Inr (), c', t, L'))"
      if all: "matching f (take (acked c') ?es) = matching f ?es"
    proof -
      have "matching f (drop (acked c') ?es) = []"
        using matching_append [of f "take (acked c') ?es" "drop (acked c') ?es"] all by simp
      then have "handled (matching f ?es) [] crashes hist'" using inv' all by (simp add: bus_inv_def)
      from handled_all [OF this] all len inv' show ?thesis
        by (auto intro!: idle_replay [OF assms(1,2) inv'(1)])
    qed
    with r replay_rows [OF op] show ?thesis by (cases r) auto
  qed
  show ?thesis
    using ahead d delivery handled_exact h by (intro conjI) (blast, blast, simp, blast, blast)
qed

section \<open>Witness\<close>

definition ex_consumer :: idempotent_consumer where
  "ex_consumer = (consumer_new ''board'' filter_all)\<lparr>ic_persist := True\<rparr>"

lemma ex_checkpoint: "lg_checkpoints ex_ledger ''board'' = None"
proof -
  have c: "lg_checkpoints (snd (with_immediate_tx (append_audit_conn_with_actor X a fresh now) L)) =
      lg_checkpoints L" for X a fresh now L
    by (auto simp: with_immediate_tx_def append_audit_conn_with_actor_def insert_row_def Let_def
        split: sum.splits if_splits)
  show ?thesis
    by (simp add: ex_ledger_def ex_first_def c empty_ledger_def append_audit_def append_workflow_step_def)
qed

lemma ex_consumer_new: "with_persisted_checkpoint ''board'' filter_all ex_ledger = Inr ex_consumer"
  by (simp add: with_persisted_checkpoint_def load_consumer_checkpoint_def ex_checkpoint ex_consumer_def consumer_new_def)

lemma ex_bus_run: "bus_run ex_serde_ext ''board'' filter_all ex_ledger ex_consumer s [] 0"
  by (rule bus_start [OF ex_ledger_run ex_checkpoint ex_consumer_new])

text \<open>The process dies after the first event was accepted and before that was recorded.\<close>

lemma ex_crashed:
  obtains e f where "ledger_events ex_ledger = [e, f]"
    "bus_run ex_serde_ext ''board'' filter_all ex_ledger ex_consumer () [e] 1"
proof -
  obtain e f where es: "ledger_events ex_ledger = [e, f]" using ex_ledger_rows by (auto simp: ledger_events_def)
  let ?h = "\<lambda>(s::unit) (e::audit_event). (Inr () :: string + unit, s)"
  have all: "batch filter_all n [e, f] = \<lparr>le_global_seq = word_of_int (int (Suc n)), le_event = e\<rparr> #
      [\<lparr>le_global_seq = word_of_int (int (Suc (Suc n))), le_event = f\<rparr>]" for n
    by (simp add: batch_simps filter_matches_def filter_all_def)
  have a: "acked ex_consumer = 0"
    by (simp add: acked_def ex_consumer_def consumer_new_def checkpoint_default_def)
  have "length (lg_rows ex_ledger) < 2 ^ 63" using arg_cong [OF es, of length] by (simp add: ledger_events_def)
  note inv = bus_run_inv [OF ex_bus_run [of "()"] wf_ex_serde this]
  have "replay_audit ex_serde_ext (ic_filter ex_consumer) (cc_last_acked_global_seq (ic_checkpoint ex_consumer)) ex_ledger =
      Inr ([] @ hd (batch filter_all 0 [e, f]) # tl (batch filter_all 0 [e, f]))"
    using replay_entries [OF wf_ex_serde inv] es a by (simp add: all)
  from bus_crash [OF ex_bus_run this, where h = ?h and s = "()" and s' = "()", OF replay_loop.simps(1) _ ex_consumer_new]
  have "bus_run ex_serde_ext ''board'' filter_all ex_ledger ex_consumer () [e] 1" by (simp add: all)
  with es show thesis by (rule that)
qed

theorem consumer_at_least_once_witness:
  "\<exists>e f c' hist' L'. ledger_events ex_ledger = [e, f] \<and>
     bus_run ex_serde_ext ''board'' filter_all ex_ledger ex_consumer () [e] 1 \<and>
     consumer_replay ex_serde_ext (bus_logged (\<lambda>s e. (Inr (), s))) ex_consumer ((), [e]) ex_ledger =
       (Inr (), c', ((), hist'), L') \<and> remdups_adj hist' = [e, f] \<and> length hist' \<le> 3"
proof -
  let ?h = "\<lambda>(s::unit) (e::audit_event). (Inr () :: string + unit, s)"
  obtain e f where run: "ledger_events ex_ledger = [e, f]"
    "bus_run ex_serde_ext ''board'' filter_all ex_ledger ex_consumer () [e] 1" by (rule ex_crashed)
  obtain r c' s' hist' L' where op:
    "consumer_replay ex_serde_ext (bus_logged ?h) ex_consumer ((), [e]) ex_ledger = (r, c', (s', hist'), L')"
    by (metis prod.collapse)
  have all: "matching filter_all es = es" for es
    by (simp add: matching_def filter_matches_def filter_all_def)
  have "length (lg_rows ex_ledger) < 2 ^ 63" using arg_cong [OF run(1), of length] by (simp add: ledger_events_def)
  note t = consumer_at_least_once [OF wf_ex_serde run(2) this,
    THEN conjunct2, THEN conjunct2, THEN conjunct2, THEN conjunct2, rule_format, OF op]
  have "case r of Inl err \<Rightarrow> \<exists>seq m. err = Handler_failed seq m \<and> handler_fails ?h m
      | Inr _ \<Rightarrow> remdups_adj hist' = matching filter_all (ledger_events ex_ledger) \<and>
          length hist' \<le> length (matching filter_all (ledger_events ex_ledger)) + 1"
    using conjunct2 [OF t] by (cases r) (simp_all only: sum.case, blast)
  then have "r = Inr ()" "remdups_adj hist' = [e, f]" "length hist' \<le> 3"
    by (auto simp: all run(1) handler_fails_def split: sum.splits)
  with op run show ?thesis by auto
qed

end
