(* ===== verification/Timer_Firing.thy ===== *)
theory Timer_Firing
  imports Ledger_Log
begin

text \<open>
  Workflow timers over reachable ledgers: a timer fires at most once, never before its deadline,
  and the driver leaves no due timer behind
  (\<open>src/crates/openspine-kernel/src/store/workflow_timers.rs\<close>; the operations are in
  \<open>Audit_Ledger\<close>).
\<close>

section \<open>The timer table\<close>

definition timer_ok :: "ext \<Rightarrow> audit_event list \<Rightarrow> timer_row \<Rightarrow> bool" where
  "timer_ok X es t \<longleftrightarrow> (if tm_fired t
     then \<exists>e\<in>set es. tm_fired_event_id t = Some (ulid_text X (ae_id e))
     else tm_fired_event_id t = None)"

definition timers_inv :: "ext \<Rightarrow> ledger \<Rightarrow> bool" where
  "timers_inv X L \<longleftrightarrow> distinct (map tm_timer_id (lg_timers L)) \<and>
     (\<forall>t\<in>set (lg_timers L). timer_ok X (ledger_events L) t)"

lemma timer_ok_mono: "timer_ok X es t \<Longrightarrow> set es \<subseteq> set es' \<Longrightarrow> timer_ok X es' t"
  by (auto simp: timer_ok_def split: if_splits)

lemma append_timers:
  "append_audit_conn_with_actor X a fresh now L = Inr (e, L') \<Longrightarrow> lg_timers L' = lg_timers L"
  by (auto simp: append_audit_conn_with_actor_def Let_def insert_row_def split: sum.splits if_splits)

lemma other_steps_timers:
  "lg_timers (snd (append_audit X a fresh now L)) = lg_timers L"
  "lg_timers (snd (append_workflow_step X r kind payload fresh now L)) = lg_timers L"
  "lg_timers (snd (append_workflow_step_if_absent X r kind payload s fresh now L)) = lg_timers L"
  "lg_timers (snd (append_workflow_receipt X r kind payload s fresh now L)) = lg_timers L"
  "lg_timers (snd (append_workflow_completion X r kind payload s fresh now L)) = lg_timers L"
  by (auto simp: append_audit_def append_workflow_step_def append_workflow_step_if_absent_def
      append_workflow_receipt_def append_workflow_completion_def with_immediate_tx_def Let_def
      update_step_def dest!: append_timers split: sum.splits option.splits)

text \<open>A table read by its key.\<close>

lemma find_timer_in:
  "find_timer L i = Some t \<Longrightarrow> t \<in> set (lg_timers L) \<and> tm_timer_id t = i"
  using find_hit [of "\<lambda>t. tm_timer_id t = i" "lg_timers L" t] by (simp add: find_timer_def)

lemma find_timer_unique:
  assumes "timers_inv X L" "t \<in> set (lg_timers L)"
  shows "find_timer L (tm_timer_id t) = Some t"
proof -
  obtain t' where t': "find_timer L (tm_timer_id t) = Some t'"
    using find_exists [OF assms(2), of "\<lambda>q. tm_timer_id q = tm_timer_id t"] by (auto simp: find_timer_def)
  from find_timer_in [OF this] assms have "t' = t" by (auto simp: timers_inv_def distinct_map inj_on_def)
  with t' show ?thesis by simp
qed

lemma set_update_timer:
  assumes "timers_inv X L" "find_timer L i = Some t"
  shows "set (lg_timers (update_timer i f L)) = insert (f t) {q \<in> set (lg_timers L). tm_timer_id q \<noteq> i}"
proof -
  have "q = t" if "q \<in> set (lg_timers L)" "tm_timer_id q = i" for q
    using find_timer_unique [OF assms(1) that(1)] assms(2) that(2) by simp
  then show ?thesis using find_timer_in [OF assms(2)] by (auto simp: update_timer_def)
qed

lemma update_timer_id:
  assumes "timers_inv X L" "find_timer L i = Some t" "f t = t"
  shows "update_timer i f L = L"
proof -
  have "f q = q" if "q \<in> set (lg_timers L)" "tm_timer_id q = i" for q
    using find_timer_unique [OF assms(1) that(1)] assms(2,3) that(2) by simp
  then show ?thesis unfolding update_timer_def by (simp add: map_idI)
qed

section \<open>The event a fired timer names\<close>

lemma stored_event_Inr:
  assumes "rows_inv X L" "stored_event L fired = Inr ev"
  shows "ev \<in> set (ledger_events L)" "ulid_text X (ae_id ev) = fired"
proof -
  obtain r where f: "find (\<lambda>r. lr_id r = fired) (lg_rows L) = Some r" "lr_event r = Some ev"
    using assms(2) by (auto simp: stored_event_def split: option.splits)
  obtain i e where e: "e \<in> set (ledger_events L)" "r = row_of X i e"
    using row_event [OF assms(1) find_hit(1) [OF f(1)]] by blast
  with f find_hit(2) [OF f(1)] show "ev \<in> set (ledger_events L)" "ulid_text X (ae_id ev) = fired"
    by simp_all
qed

lemma stored_event_found:
  assumes "rows_inv X L" "distinct (map lr_id (lg_rows L))" "e \<in> set (ledger_events L)"
  shows "stored_event L (ulid_text X (ae_id e)) = Inr e"
proof -
  obtain i where r: "row_of X i e \<in> set (lg_rows L)" using event_row [OF assms(1,3)] by blast
  then obtain q where q: "find (\<lambda>r. lr_id r = ulid_text X (ae_id e)) (lg_rows L) = Some q"
    using find_exists [OF r, of "\<lambda>r. lr_id r = ulid_text X (ae_id e)"] by auto
  have "q = row_of X i e"
    using find_hit [OF q] r assms(2) by (simp add: distinct_map inj_on_def)
  with q show ?thesis by (simp add: stored_event_def)
qed

section \<open>The timer table of reachable ledgers\<close>

definition fired_kept :: "ledger \<Rightarrow> ledger \<Rightarrow> bool" where
  "fired_kept L L' \<longleftrightarrow> (\<forall>t\<in>set (lg_timers L). tm_fired t \<longrightarrow> t \<in> set (lg_timers L'))"

lemma fired_kept_trans: "fired_kept A B \<Longrightarrow> fired_kept B C \<Longrightarrow> fired_kept A C"
  by (simp add: fired_kept_def)

lemma fire_found_same:
  assumes "rows_inv X L" "timers_inv X L" "find_timer L i = Some t" "tm_fired_event_id t = Some fired"
    and "stored_event L fired = Inr ev"
  shows "update_timer i (\<lambda>t. t\<lparr>tm_fired_event_id := Some (ulid_text X (ae_id ev))\<rparr>) L = L"
  by (rule update_timer_id [OF assms(2,3)]) (simp add: stored_event_Inr(2) [OF assms(1,5)] assms(4) flip: assms(4))

lemma fire_timers:
  assumes "wf_ext X" "rows_inv X L" "timers_inv X L" "fire_workflow_timer X i time fresh now L = (Inr ev, L')"
  shows "timers_inv X L' \<and> fired_kept L L' \<and> (\<exists>t. find_timer L' i = Some t \<and> tm_fired t \<and>
    tm_fired_event_id t = Some (ulid_text X (ae_id ev))) \<and> ev \<in> set (ledger_events L')"
  using assms(4)
proof (cases rule: fire_write)
  case (found t fired)
  have L': "L' = L" using fire_found_same [OF assms(2,3) found(1,3,5)] found(6) by simp
  have "timer_ok X (ledger_events L) t"
    using assms(3) find_timer_in [OF found(1)] by (simp add: timers_inv_def)
  then have "tm_fired t" using found(3) by (simp add: timer_ok_def split: if_splits)
  then show ?thesis
    using assms(3) found(1,3) stored_event_Inr [OF assms(2) found(5)] by (simp add: L' fired_kept_def)
next
  case (written t L3)
  let ?f = "\<lambda>t. t\<lparr>tm_fired := True, tm_fired_event_id := Some (ulid_text X (ae_id ev))\<rparr>"
  have ev: "ledger_events L' = ledger_events L @ [ev]"
    using append_inv(3) [OF assms(1,2) written(3)] ledger_events_cong [OF written(4)] by simp
  have s: "set (lg_timers L') = insert (?f t) {q \<in> set (lg_timers L). tm_timer_id q \<noteq> i}"
    unfolding written(6) by (rule set_update_timer [OF assms(3) written(1)])
  have "map tm_timer_id (lg_timers L') = map tm_timer_id (lg_timers L)"
    unfolding written(6) by (simp add: update_timer_def)
  then have "distinct (map tm_timer_id (lg_timers L'))" using assms(3) by (simp add: timers_inv_def)
  moreover have "\<forall>q\<in>set (lg_timers L'). timer_ok X (ledger_events L') q"
    using assms(3) timer_ok_mono [where es = "ledger_events L" and es' = "ledger_events L'"]
    unfolding s by (auto simp: timers_inv_def ev) (simp add: timer_ok_def)
  ultimately have inv: "timers_inv X L'" by (simp add: timers_inv_def)
  have "?f t \<in> set (lg_timers L')" "tm_timer_id (?f t) = i"
    using s find_timer_in [OF written(1)] by simp_all
  then have "find_timer L' i = Some (?f t)" using find_timer_unique [OF inv] by metis
  moreover have "fired_kept L L'"
    unfolding fired_kept_def s using written(1,2) find_timer_unique [OF assms(3)]
    by (auto simp: claimable_def)
  ultimately show ?thesis using inv ev by simp
qed

lemma step_timers:
  assumes "wf_ext X" "ledger_run X L" "timers_inv X L" "ledger_step X L L'"
  shows "timers_inv X L' \<and> fired_kept L L'"
proof -
  have rows: "rows_inv X L" by (rule ledger_run_rows(1) [OF assms(1,2)])
  have grow: "set (ledger_events L) \<subseteq> set (ledger_events L')"
    using audit_log.grow_prefix [of X L L'] assms by (auto dest: set_mono_prefix)
  have same: ?thesis if "lg_timers L' = lg_timers L"
    using assms(3) that timer_ok_mono [OF _ grow] by (simp add: timers_inv_def fired_kept_def)
  show ?thesis
    using assms(4)
  proof cases
    case (step_schedule r s pending kind digest fires_at timer fresh now)
    show ?thesis
    proof (cases "schedule_workflow_timer_step X r s pending kind digest fires_at timer fresh now L")
      case (Pair res M)
      then have M: "M = L'" using step_schedule by simp
      show ?thesis
      proof (cases res)
        case (Inl err)
        then show ?thesis
          using Pair M by (intro same)
            (auto simp: schedule_workflow_timer_step_def with_immediate_tx_def split: sum.splits)
      next
        case (Inr p)
        obtain ev b where "p = (ev, b)" by (cases p)
        with Pair Inr M have "schedule_workflow_timer_step X r s pending kind digest fires_at timer fresh now L =
          (Inr (ev, b), L')" by simp
        then show ?thesis
        proof (cases rule: schedule_write)
          case (written L3 g)
          then show ?thesis
            using assms(3) timer_ok_mono [OF _ grow]
            by (auto simp: timers_inv_def fired_kept_def timer_ok_def)
        qed (simp add: assms(3) fired_kept_def)
      qed
    qed
  next
    case (step_fire i time fresh now)
    show ?thesis
    proof (cases "fire_workflow_timer X i time fresh now L")
      case (Pair res M)
      then have M: "M = L'" using step_fire by simp
      show ?thesis
      proof (cases res)
        case (Inl err)
        then show ?thesis
          using Pair M by (intro same) (auto simp: fire_workflow_timer_def with_immediate_tx_def split: sum.splits)
      next
        case (Inr ev)
        then show ?thesis using fire_timers [OF assms(1) rows assms(3)] Pair M by blast
      qed
    qed
  qed (rule same, simp add: other_steps_timers)+
qed

lemma steps_timers:
  assumes "wf_ext X" "(ledger_step X)\<^sup>*\<^sup>* L L'" "ledger_run X L" "timers_inv X L"
  shows "timers_inv X L' \<and> fired_kept L L'"
  using assms(2)
proof (induction rule: rtranclp_induct)
  case base
  then show ?case using assms(4) by (simp add: fired_kept_def)
next
  case (step M N)
  have "ledger_run X M" using run_steps [OF assms(3) step(1)] .
  from step_timers [OF assms(1) this _ step(2)] step(3) show ?case using fired_kept_trans by blast
qed

lemma run_timers: "wf_ext X \<Longrightarrow> ledger_run X L \<Longrightarrow> timers_inv X L"
  using steps_timers [of X empty_ledger L]
  by (simp add: ledger_run_def timers_inv_def empty_ledger_def)

section \<open>Firing what is due\<close>

lemma fire_accepted:
  assumes "wf_ext X" "ledger_run X L" "find_timer L i = Some t" "claimable t time"
    and "- (2 ^ 63) \<le> time" "time < 2 ^ 63" "ulid_text X fresh \<notin> lr_id ` set (lg_rows L)"
    and "int (length (ledger_events L)) + 1 < 2 ^ 63"
  shows "\<exists>ev L'. fire_workflow_timer X i time fresh now L = (Inr ev, L') \<and> ae_id ev = fresh \<and>
    ledger_events L' = ledger_events L @ [ev] \<and> lg_rows L' = lg_rows L @ [row_of X (int (length (lg_rows L)) + 1) ev] \<and>
    set (lg_timers L') = insert (t\<lparr>tm_fired := True, tm_fired_event_id := Some (ulid_text X fresh)\<rparr>)
      {q \<in> set (lg_timers L). tm_timer_id q \<noteq> i}"
proof -
  let ?f = "\<lambda>t. t\<lparr>tm_fired := True, tm_fired_event_id := Some []\<rparr>"
  have rows: "rows_inv X L" by (rule ledger_run_rows(1) [OF assms(1,2)])
  obtain ev L3 where L3: "append_audit_conn_with_actor X (timer_input X t) fresh now L = Inr (ev, L3)"
    "lg_rows L3 = lg_rows L @ [row_of X (int (length (lg_rows L)) + 1) ev]" "ae_id ev = fresh"
    using append_accepted [OF assms(1,2) _ assms(7,8), of "timer_input X t" now] by (auto simp: timer_input_def)
  obtain L2 where L2: "append_audit_conn_with_actor X (timer_input X t) fresh now (update_timer i ?f L) = Inr (ev, L2)"
    "lg_rows L2 = lg_rows L3"
    using append_with_registry [OF L3(1), of "update_timer i ?f L"] by (auto simp: update_timer_def)
  then have t2: "lg_timers L2 = lg_timers (update_timer i ?f L)" using append_timers by blast
  let ?L' = "update_timer i (\<lambda>t. t\<lparr>tm_fired_event_id := Some (ulid_text X (ae_id ev))\<rparr>) L2"
  have op: "fire_workflow_timer X i time fresh now L = (Inr ev, ?L')"
    using assms(3-6) L2(1) by (simp add: fire_workflow_timer_def with_immediate_tx_def epoch_nanos_def)
  have r: "lg_rows ?L' = lg_rows L3" using L2(2) by (simp add: update_timer_def)
  have "lg_timers ?L' = lg_timers (update_timer i
      (\<lambda>t. t\<lparr>tm_fired := True, tm_fired_event_id := Some (ulid_text X fresh)\<rparr>) L)"
    using t2 L3(3) by (simp add: update_timer_def)
  then have "set (lg_timers ?L') = insert (t\<lparr>tm_fired := True, tm_fired_event_id := Some (ulid_text X fresh)\<rparr>)
      {q \<in> set (lg_timers L). tm_timer_id q \<noteq> i}"
    using set_update_timer [OF run_timers [OF assms(1,2)] assms(3)] by simp
  moreover have "ledger_events ?L' = ledger_events L @ [ev]"
    using append_inv(3) [OF assms(1) rows L3(1)] ledger_events_cong [OF r] by simp
  ultimately show ?thesis using op r L3(2,3) by (intro exI conjI) simp_all
qed

definition due_ids :: "int \<Rightarrow> ledger \<Rightarrow> string set" where
  "due_ids time L = tm_timer_id ` {t \<in> set (lg_timers L). claimable t time}"

lemma due_idD:
  assumes "timers_inv X L" "i \<in> due_ids time L"
  obtains t where "find_timer L i = Some t" "claimable t time"
  using assms(2) find_timer_unique [OF assms(1)] by (auto simp: due_ids_def)

text \<open>Identifiers the loop draws: fresh for the ledger and different from each other.\<close>

definition fresh_draws :: "ext \<Rightarrow> (nat \<Rightarrow> ulid \<times> timestamp) \<Rightarrow> nat set \<Rightarrow> ledger \<Rightarrow> bool" where
  "fresh_draws X draw K L \<longleftrightarrow> inj_on (\<lambda>k. ulid_text X (fst (draw k))) K \<and>
     (\<forall>k\<in>K. ulid_text X (fst (draw k)) \<notin> lr_id ` set (lg_rows L))"

lemma fresh_draws_Suc:
  assumes "fresh_draws X draw {a..<a + Suc m} L" "lg_rows L' = lg_rows L @ [row_of X k e]" "ae_id e = fst (draw a)"
  shows "fresh_draws X draw {Suc a..<Suc a + m} L'"
proof -
  have "{a..<a + Suc m} = insert a {Suc a..<Suc a + m}" by auto
  then show ?thesis using assms unfolding fresh_draws_def inj_on_def by (auto simp: image_iff)
qed

lemma fire_loop_fires:
  assumes "wf_ext X" "- (2 ^ 63) \<le> time" "time < 2 ^ 63"
  shows "ledger_run X L \<Longrightarrow> distinct ids \<Longrightarrow> set ids = due_ids time L \<Longrightarrow>
    fresh_draws X draw {length acc..<length acc + length ids} L \<Longrightarrow>
    int (length (ledger_events L) + length ids) < 2 ^ 63 - 1 \<Longrightarrow>
    \<exists>evs L'. fire_loop X time draw ids acc L = (Inr (acc @ evs), L') \<and> length evs = length ids \<and>
      ledger_events L' = ledger_events L @ evs \<and> due_ids time L' = {} \<and> ledger_run X L'"
proof (induction ids arbitrary: acc L)
  case Nil
  then show ?case by simp
next
  case (Cons i ids)
  let ?d = "draw (length acc)"
  have inv: "timers_inv X L" by (rule run_timers [OF assms(1) Cons.prems(1)])
  obtain t where t: "find_timer L i = Some t" "claimable t time"
    using due_idD [OF inv, of i time] Cons.prems(3) by auto
  have fresh: "ulid_text X (fst ?d) \<notin> lr_id ` set (lg_rows L)"
    using Cons.prems(4) unfolding fresh_draws_def by simp
  obtain ev L1 where L1: "fire_workflow_timer X i time (fst ?d) (snd ?d) L = (Inr ev, L1)" "ae_id ev = fst ?d"
    "ledger_events L1 = ledger_events L @ [ev]"
    "lg_rows L1 = lg_rows L @ [row_of X (int (length (lg_rows L)) + 1) ev]"
    "set (lg_timers L1) = insert (t\<lparr>tm_fired := True, tm_fired_event_id := Some (ulid_text X (fst ?d))\<rparr>)
      {q \<in> set (lg_timers L). tm_timer_id q \<noteq> i}"
    using fire_accepted [OF assms(1) Cons.prems(1) t assms(2,3) fresh, of "snd ?d"] Cons.prems(5) by auto
  have run: "ledger_run X L1" using run_step [OF Cons.prems(1) step_fire] L1(1) by (metis snd_conv)
  have "due_ids time L1 = due_ids time L - {i}"
    unfolding due_ids_def L1(5) by (auto simp: claimable_def)
  then have ids: "set ids = due_ids time L1" using Cons.prems(2,3) by auto
  have draws: "fresh_draws X draw {length (acc @ [ev])..<length (acc @ [ev]) + length ids} L1"
    using fresh_draws_Suc [of X draw "length acc" "length ids" L L1, OF _ L1(4,2)] Cons.prems(4) by simp
  obtain evs L2 where "fire_loop X time draw ids (acc @ [ev]) L1 = (Inr ((acc @ [ev]) @ evs), L2)"
    "length evs = length ids" "ledger_events L2 = ledger_events L1 @ evs" "due_ids time L2 = {}" "ledger_run X L2"
    using Cons.IH [OF run _ ids draws] Cons.prems(2,5) L1(3) by auto
  then show ?case using L1(1,3) by (intro exI [of _ "ev # evs"] exI [of _ L2]) simp
qed

lemma due_timers_of:
  assumes "wf_ext X" "ledger_run X L" "due_timers time L = Inr due"
  shows "distinct (map fst due)" "set (map fst due) = due_ids time L"
    "length due = length (filter (\<lambda>t. claimable t time) (lg_timers L))"
proof -
  have due: "map fst due = map tm_timer_id (sort_key tm_fires_at (filter (\<lambda>t. claimable t time) (lg_timers L)))"
    and l: "length due = length (filter (\<lambda>t. claimable t time) (lg_timers L))"
    using assms(3) by (auto simp: due_timers_def epoch_nanos_def split: if_splits)
  have "distinct (map tm_timer_id (filter (\<lambda>t. claimable t time) (lg_timers L)))"
    using run_timers [OF assms(1,2)] by (simp add: timers_inv_def distinct_map_filter)
  then show "distinct (map fst due)" unfolding due by (auto simp: distinct_map)
  show "set (map fst due) = due_ids time L" unfolding due due_ids_def by simp
  show "length due = length (filter (\<lambda>t. claimable t time) (lg_timers L))" by (rule l)
qed

section \<open>Properties\<close>

text \<open>
  C18. A timer fires at most once and never early. When firing a timer returns an event, the timer
  had been fired before or its deadline has passed, and every later firing, at any time and
  whatever happened to the ledger in between, returns the same event and changes nothing.
\<close>

theorem timer_fires_once:
  assumes "wf_ext X" "\<forall>u. ulid_text X u \<noteq> []" "ledger_run X L"
    and "fire_workflow_timer X i time fresh now L = (Inr ev, L')" "(ledger_step X)\<^sup>*\<^sup>* L' L''"
    and "- (2 ^ 63) \<le> time'" "time' < 2 ^ 63"
  shows "(\<exists>t. find_timer L i = Some t \<and> (tm_fired t \<or> tm_fires_at t \<le> time)) \<and>
    fire_workflow_timer X i time' fresh' now' L'' = (Inr ev, L'')"
proof
  have rows: "rows_inv X L" and inv: "timers_inv X L"
    by (rule ledger_run_rows(1) [OF assms(1,3)], rule run_timers [OF assms(1,3)])
  from assms(4) show "\<exists>t. find_timer L i = Some t \<and> (tm_fired t \<or> tm_fires_at t \<le> time)"
  proof (cases rule: fire_write)
    case (found t fired)
    have "timer_ok X (ledger_events L) t" using inv find_timer_in [OF found(1)] by (simp add: timers_inv_def)
    with found(1,3) show ?thesis by (auto simp: timer_ok_def split: if_splits)
  qed (auto simp: claimable_def)
  obtain t where t: "find_timer L' i = Some t" "tm_fired t" "tm_fired_event_id t = Some (ulid_text X (ae_id ev))"
    and ev: "ev \<in> set (ledger_events L')" and inv': "timers_inv X L'"
    using fire_timers [OF assms(1) rows inv assms(4)] by blast
  have run': "ledger_run X L'" using run_step [OF assms(3) step_fire] assms(4) by (metis snd_conv)
  have run'': "ledger_run X L''" by (rule run_steps [OF run' assms(5)])
  note later = steps_timers [OF assms(1,5) run' inv']
  have "t \<in> set (lg_timers L'')" using later find_timer_in [OF t(1)] t(2) by (simp add: fired_kept_def)
  then have t'': "find_timer L'' i = Some t"
    using find_timer_unique [of X L'' t] later find_timer_in [OF t(1)] by simp
  have "ev \<in> set (ledger_events L'')"
    using audit_log.steps_grow [OF assms(5)] assms(1) run' ev set_mono_prefix by blast
  then have s: "stored_event L'' (ulid_text X (ae_id ev)) = Inr ev"
    by (rule stored_event_found [OF ledger_run_rows(1) [OF assms(1) run''] run_distinct_row_ids [OF assms(1) run'']])
  note fire_found_same [OF ledger_run_rows(1) [OF assms(1) run''] _ t'' t(3) s]
  with later t'' t(2,3) s assms(2,6,7) show "fire_workflow_timer X i time' fresh' now' L'' = (Inr ev, L'')"
    by (simp add: fire_workflow_timer_def with_immediate_tx_def epoch_nanos_def claimable_def)
qed

text \<open>
  C19. The driver leaves nothing due. With fresh identifiers and room in the ledger, firing the due
  timers returns one event for each timer that is due, appends exactly these events,
  and afterwards no timer is due and the next deadline lies in the future.
\<close>

theorem due_timers_drained:
  assumes "wf_ext X" "ledger_run X L" "- (2 ^ 63) \<le> time" "time < 2 ^ 63"
    and "n = length (filter (\<lambda>t. claimable t time) (lg_timers L))" "fresh_draws X draw {..<n} L"
    and "int (length (lg_rows L) + n) < 2 ^ 63 - 1"
  shows "\<exists>evs L'. fire_due_timers X time draw L = (Inr evs, L') \<and> length evs = n \<and>
    ledger_events L' = ledger_events L @ evs \<and> due_timers time L' = Inr [] \<and>
    (\<forall>d. next_timer_deadline L' = Some d \<longrightarrow> time < d)"
proof -
  obtain due where due: "due_timers time L = Inr due" using assms(3,4) by (simp add: due_timers_def epoch_nanos_def)
  note d = due_timers_of [OF assms(1,2) due]
  have "fresh_draws X draw {length ([] :: audit_event list)..<length ([] :: audit_event list) + length (map fst due)} L"
    using assms(5,6) d(3) by (simp add: lessThan_atLeast0)
  from fire_loop_fires [OF assms(1,3,4,2) d(1,2) this] d(3) assms(5,7)
  obtain evs L' where f: "fire_loop X time draw (map fst due) [] L = (Inr evs, L')" "length evs = n"
    "ledger_events L' = ledger_events L @ evs" "due_ids time L' = {}" "ledger_run X L'"
    by (auto simp: ledger_events_def)
  have none: "\<not> claimable t time" if "t \<in> set (lg_timers L')" for t
    using f(4) that by (auto simp: due_ids_def)
  then have "due_timers time L' = Inr []"
    using assms(3,4) by (simp add: due_timers_def epoch_nanos_def filter_False)
  moreover have "time < d" if d: "next_timer_deadline L' = Some d" for d
  proof -
    let ?p = "map tm_fires_at (filter (\<lambda>t. \<not> tm_fired t) (lg_timers L'))"
    have "?p \<noteq> []" "d = Min (set ?p)" using d by (auto simp: next_timer_deadline_def Let_def split: if_splits)
    then have "d \<in> set ?p" using Min_in [of "set ?p"] by (metis List.finite_set set_empty)
    then show ?thesis using none by (force simp: claimable_def)
  qed
  ultimately show ?thesis using f due by (intro exI conjI allI impI) (simp_all add: fire_due_timers_def)
qed

section \<open>Witnesses\<close>

text \<open>Scheduling succeeds for a recorded pending step with a well-formed payload.\<close>

lemma schedule_accepted:
  assumes "wf_ext X" "wf_serde X" "ledger_run X L" "step_map L (r, s) = Some g" "rg_completed_seq g = None"
    and "rg_pending_seq g = uint p" "uint p < 2 ^ 63" "recorded_event L r (uint p) = Inr pending"
    and "ae_payload_json pending = Some (canonical_json X v)" "wf_json v" "plain_json v"
    and "pending_record_matches pending (canonical v) kind s digest" "kind \<noteq> []"
    and "- (2 ^ 63) \<le> fires_at" "fires_at < 2 ^ 63" "\<forall>q\<in>set (lg_timers L). tm_timer_id q \<noteq> ulid_text X timer"
    and "ulid_text X fresh \<notin> lr_id ` set (lg_rows L)" "int (length (ledger_events L)) + 1 < 2 ^ 63"
  shows "\<exists>ev L'. schedule_workflow_timer_step X r s p kind digest fires_at timer fresh now L = (Inr (ev, True), L') \<and>
    ledger_events L' = ledger_events L @ [ev] \<and> ae_id ev = fresh \<and>
    ae_payload_json ev = Some (canonical_json X (timer_completion_json X s digest (ulid_text X timer) fires_at)) \<and>
    lg_timers L' = lg_timers L @ [\<lparr>tm_timer_id = ulid_text X timer, tm_run_id = r,
      tm_fires_at = fires_at, tm_fired = False, tm_fired_event_id = None\<rparr>]"
proof -
  let ?a = "workflow_input r kind (canonical_json X (timer_completion_json X s digest (ulid_text X timer) fires_at))"
  let ?L1 = "update_step r s (\<lambda>g. g\<lparr>rg_completed_seq := Some (-1)\<rparr>) L"
  have rows: "rows_inv X L" by (rule ledger_run_rows(1) [OF assms(1,3)])
  obtain ev L3 where L3: "append_audit_conn_with_actor X ?a fresh now L = Inr (ev, L3)" "ae_id ev = fresh"
    using append_accepted [OF assms(1,3) _ assms(17,18), of ?a now] assms(13) by (auto simp: workflow_input_def)
  obtain L2 where L2: "append_audit_conn_with_actor X ?a fresh now ?L1 = Inr (ev, L2)" "lg_rows L2 = lg_rows L3"
    "lg_timers L2 = lg_timers L"
    using append_with_registry [OF L3(1), of ?L1] append_timers by (fastforce simp: update_step_def)
  have parse: "json_parse X (canonical_json X v) = Some (canonical v)" by (rule parse_canonical [OF assms(2,10,11)])
  have "ledger_events L2 = ledger_events L @ [ev]"
    using append_inv(3) [OF assms(1) rows L3(1)] ledger_events_cong [OF L2(2)] by simp
  moreover have "ae_payload_json ev = an_payload_json ?a" by (rule append_inv(5) [OF assms(1) rows L3(1)])
  moreover have "\<not> list_ex (\<lambda>q. tm_timer_id q = ulid_text X timer) (lg_timers L)"
    using assms(16) by (auto simp: list_ex_iff)
  ultimately show ?thesis
    using assms(4-9,12,14,15) L2 L3(2) parse
    by (auto simp: schedule_workflow_timer_step_def with_immediate_tx_def step_map_def Let_def epoch_nanos_def
        insert_timer_def update_step_def ledger_events_def workflow_input_def)
qed

definition ex_pending_json :: json where
  "ex_pending_json = JObject [(''input_digest'', JString ''d''), (''phase'', JString ''Pending''),
     (''step_id'', JString ''one'')]"

definition ex_pending :: ledger where
  "ex_pending = snd (append_workflow_step_if_absent ex_serde_ext ''run'' ''workflow.timer_scheduled''
     (canonical_json ex_serde_ext ex_pending_json) ''one'' 1 100 empty_ledger)"

definition ex_timer :: ledger where
  "ex_timer = snd (schedule_workflow_timer_step ex_serde_ext ''run'' ''one'' 1 ''workflow.timer_scheduled''
     ''d'' 500 9 2 110 ex_pending)"

lemma ex_text: "ulid_text ex_serde_ext u = replicate (Suc (unat u)) (CHR ''u'')"
  by (simp add: ex_serde_ext_def)

lemma ex_text_eq: "ulid_text ex_serde_ext u = ulid_text ex_serde_ext v \<longleftrightarrow> u = v"
  by (simp add: ex_text replicate_eq_replicate word_unat_eq_iff del: replicate_Suc)

lemma ex_timer_ready:
  "ledger_run ex_serde_ext ex_timer"
  "lg_timers ex_timer = [\<lparr>tm_timer_id = ulid_text ex_serde_ext 9, tm_run_id = ''run'', tm_fires_at = 500,
     tm_fired = False, tm_fired_event_id = None\<rparr>]"
  "map ae_id (ledger_events ex_timer) = [1, 2]"
proof -
  let ?X = ex_serde_ext and ?k = "''workflow.timer_scheduled''"
  have r0: "ledger_run ?X empty_ledger" by (simp add: ledger_run_def)
  have e: "lg_rows empty_ledger = []" "ledger_events empty_ledger = []" "step_map empty_ledger k = None"
    "lg_timers empty_ledger = []" for k
    by (simp_all add: empty_ledger_def ledger_events_def step_map_def find_step_def)
  obtain ev where ev: "append_workflow_step_if_absent ?X ''run'' ?k (canonical_json ?X ex_pending_json) ''one'' 1 100
      empty_ledger = (Inr (ev, True), ex_pending)"
    "ledger_events ex_pending = [ev]" "ae_id ev = 1" "kind_str (ae_kind ev) = ?k"
    "ae_payload_json ev = Some (canonical_json ?X ex_pending_json)" "uint (ae_aggregate_seq ev) = 1"
    "step_map ex_pending (''run'', ''one'') = Some \<lparr>rg_run_id = ''run'', rg_step_id = ''one'', rg_pending_seq = 1,
      rg_receipt_seq = None, rg_completed_seq = None\<rparr>"
    using pending_accepted [OF wf_ex_serde(1) r0, of "''run''" "''one''" ?k 1 "canonical_json ?X ex_pending_json" 100]
    by (auto simp: e ex_pending_def in_aggregate_def)
  have r1: "ledger_run ?X ex_pending" unfolding ex_pending_def by (rule run_step [OF r0 step_pending])
  obtain g where "step_map ex_pending (''run'', ''one'') = Some g" "recorded_event ex_pending ''run'' (rg_pending_seq g) = Inr ev"
    using pending_recorded [OF wf_ex_serde(1) ledger_run_inv [OF wf_ex_serde(1) r0] ev(1)] by blast
  then have rec: "recorded_event ex_pending ''run'' (uint (1 :: u64)) = Inr ev" using ev(7) by auto
  have j: "wf_json ex_pending_json" "plain_json ex_pending_json" "canonical ex_pending_json = ex_pending_json"
    by (simp_all add: ex_pending_json_def sort_entries_def)
  have rows: "lg_rows ex_pending = rows_of ?X [ev]"
    using ledger_run_rows(1) [OF wf_ex_serde(1) r1] ev(2) by (simp add: rows_inv_def)
  have t1: "lg_timers ex_pending = []" unfolding ex_pending_def by (simp add: other_steps_timers e)
  have m: "pending_record_matches ev (canonical ex_pending_json) ?k ''one'' ''d''"
    unfolding j(3) by (simp add: pending_record_matches_def ev(4) ex_pending_json_def)
  obtain ev2 where s: "schedule_workflow_timer_step ?X ''run'' ''one'' 1 ?k ''d'' 500 9 2 110 ex_pending = (Inr (ev2, True), ex_timer)"
    "ledger_events ex_timer = [ev, ev2]" "ae_id ev2 = 2" "lg_timers ex_timer = [\<lparr>tm_timer_id = ulid_text ?X 9,
      tm_run_id = ''run'', tm_fires_at = 500, tm_fired = False, tm_fired_event_id = None\<rparr>]"
    using schedule_accepted [OF wf_ex_serde r1 ev(7) _ _ _ rec ev(5) j(1,2) m, of 500 9 2 110]
    by (auto simp: t1 rows ev(2,3) rows_of_def ex_ids ex_timer_def)
  show "ledger_run ?X ex_timer" unfolding ex_timer_def by (rule run_step [OF r1 step_schedule])
  show "lg_timers ex_timer = [\<lparr>tm_timer_id = ulid_text ?X 9, tm_run_id = ''run'', tm_fires_at = 500,
     tm_fired = False, tm_fired_event_id = None\<rparr>]" by (rule s(4))
  show "map ae_id (ledger_events ex_timer) = [1, 2]" using s(2,3) ev(3) by simp
qed

lemma ex_timer_rows: "map lr_id (lg_rows ex_timer) = map (ulid_text ex_serde_ext) [1, 2]"
proof -
  have "map lr_id (rows_of X es) = map (ulid_text X) (map ae_id es)" for X es
    by (induction es rule: rev_induct) (simp_all add: rows_of_snoc, simp add: rows_of_def)
  then show ?thesis
    using ledger_run_rows(1) [OF wf_ex_serde(1) ex_timer_ready(1)] ex_timer_ready(3) by (metis rows_inv_def)
qed

theorem due_timers_drained_witness:
  "\<exists>ev L'. fire_due_timers ex_serde_ext 600 (\<lambda>k. (3, 600)) ex_timer = (Inr [ev], L') \<and>
     ledger_events L' = ledger_events ex_timer @ [ev] \<and> due_timers 600 L' = Inr []"
proof -
  have n: "length (filter (\<lambda>t. claimable t 600) (lg_timers ex_timer)) = 1"
    by (simp add: ex_timer_ready(2) claimable_def)
  have ids: "lr_id ` set (lg_rows ex_timer) = set (map (ulid_text ex_serde_ext) [1, 2])"
    by (simp only: ex_timer_rows [symmetric] set_map)
  have l: "length (lg_rows ex_timer) = 2" using arg_cong [OF ex_timer_rows, of length] by simp
  have "fresh_draws ex_serde_ext (\<lambda>k. (3, 600)) {..<1} ex_timer"
    unfolding fresh_draws_def ids by (simp add: ex_text_eq inj_on_def)
  from due_timers_drained [OF wf_ex_serde(1) ex_timer_ready(1), of 600 1, OF _ _ n [symmetric] this]
  show ?thesis by (fastforce simp: l length_Suc_conv)
qed

theorem timer_fires_once_witness:
  "\<exists>ev L'. fire_workflow_timer ex_serde_ext (ulid_text ex_serde_ext 9) 600 3 610 ex_timer = (Inr ev, L') \<and>
     fire_workflow_timer ex_serde_ext (ulid_text ex_serde_ext 9) 400 4 620 L' = (Inr ev, L')"
proof -
  have ids: "lr_id ` set (lg_rows ex_timer) = set (map (ulid_text ex_serde_ext) [1, 2])"
    by (simp only: ex_timer_rows [symmetric] set_map)
  have "ulid_text ex_serde_ext 3 \<notin> lr_id ` set (lg_rows ex_timer)" unfolding ids by (simp add: ex_text_eq)
  moreover have "length (ledger_events ex_timer) = 2" using arg_cong [OF ex_timer_ready(3), of length] by simp
  ultimately obtain ev L' where op:
    "fire_workflow_timer ex_serde_ext (ulid_text ex_serde_ext 9) 600 3 610 ex_timer = (Inr ev, L')"
    using fire_accepted [OF wf_ex_serde(1) ex_timer_ready(1), of "ulid_text ex_serde_ext 9" _ 600 3 610]
    by (auto simp: find_timer_def ex_timer_ready(2) claimable_def)
  have "\<forall>u. ulid_text ex_serde_ext u \<noteq> []" by (simp add: ex_text)
  from timer_fires_once [OF wf_ex_serde(1) this ex_timer_ready(1) op rtranclp.rtrancl_refl, of 400 4 620] op
  show ?thesis by auto
qed

end
