(* ===== verification/Workflow_Engine.thy ===== *)
theory Workflow_Engine
  imports Ledger_Log Workflow_Manifest
begin

text \<open>
  The durable workflow engine (\<open>src/crates/openspine-kernel/src/workflow.rs\<close>): the step records in
  the ledger, the rehydration of a run, and the operations that begin, receipt and complete a
  step.

  An operation takes the context and the ledger and returns its result with both as it leaves
  them, on every error path too. The type of a step's payload is a parameter: \<open>to_value\<close> and
  \<open>from_value\<close> are its serde implementations, instantiated for each adapter. The text forms of
  identifiers and instants are read back by a \<open>text_parsers\<close> value. A step record is decoded from
  an object; the array form that serde also accepts for a tagged enum is not, since no writer
  produces it. The steps that run an action through the gate or keep their outcome in the
  artifact store are not modelled.
\<close>

section \<open>Records\<close>

record text_parsers =
  ulid_parse :: "string \<Rightarrow> ulid option"
  ts_parse :: "string \<Rightarrow> timestamp option"

datatype workflow_error =
    WfStore ledger_error
  | WfSerialization
  | WfDivergence u64 string string
  | WfStep string
  | WfInvalidRunId string
  | WfLedgerCorrupted
  | WfMalformedRecord u64

datatype outcome = OutcomeOk json | OutcomeErr string

datatype step_record =
    PendingRec string string
  | ReceiptRec string string artifact_ref
  | CompletedRec string string outcome

record step_entry =
  se_step_id :: string
  se_kind :: string
  se_input_digest :: string
  se_pending_seq :: u64
  se_receipt :: "artifact_ref option"
  se_completed :: "outcome option"

record step_handle =
  sh_step_id :: string
  sh_pending_seq :: u64

datatype 'a step_state =
    Replayed step_handle "string + 'a"
  | Fresh step_handle string
  | Resuming step_handle string

record workflow_ctx =
  cx_run_id :: string
  cx_definition_id :: string
  cx_definition_version :: string
  cx_steps :: "step_entry list"
  cx_cursor :: nat

type_synonym 'a engine = "(workflow_error + 'a) \<times> workflow_ctx \<times> ledger"

section \<open>The JSON of a record\<close>

text \<open>Structs are written in declaration order; a \<open>Value\<close> inside them has its keys sorted.\<close>

fun outcome_json :: "outcome \<Rightarrow> json" where
  "outcome_json (OutcomeOk v) = JObject [(''Ok'', v)]"
| "outcome_json (OutcomeErr m) = JObject [(''Err'', JString m)]"

fun record_json :: "step_record \<Rightarrow> json" where
  "record_json (PendingRec s d) = JObject
     [(''phase'', JString ''Pending''), (''step_id'', JString s), (''input_digest'', JString d)]"
| "record_json (ReceiptRec s d a) = JObject
     [(''phase'', JString ''Receipt''), (''step_id'', JString s), (''input_digest'', JString d),
      (''artifact_ref'', artifact_ref_json a)]"
| "record_json (CompletedRec s d out) = JObject
     [(''phase'', JString ''Completed''), (''step_id'', JString s), (''input_digest'', JString d),
      (''outcome'', outcome_json out)]"

definition json_str :: "string \<Rightarrow> json \<Rightarrow> string option" where
  "json_str k v = Option.bind (json_get k v) json_as_str"

definition digest_of_value :: "json \<Rightarrow> digest option" where
  "digest_of_value v = (case json_as_str v of
     None \<Rightarrow> None | Some s \<Rightarrow> (case digest_parse s of Inl _ \<Rightarrow> None | Inr d \<Rightarrow> Some d))"

definition json_as_u32 :: "json \<Rightarrow> u32 option" where
  "json_as_u32 v = (case json_as_u64 v of
     None \<Rightarrow> None | Some n \<Rightarrow> if uint n < 2 ^ 32 then Some (ucast n) else None)"

text \<open>\<open>ArtifactRef\<close> refuses unknown fields.\<close>

fun artifact_ref_of :: "json \<Rightarrow> artifact_ref option" where
  "artifact_ref_of (JObject kvs) =
     (if \<not> list_all (\<lambda>k. k = ''digest'' \<or> k = ''schema_version'') (map fst kvs) then None
      else (case (Option.bind (map_of kvs ''digest'') digest_of_value,
                  Option.bind (map_of kvs ''schema_version'') json_as_u32) of
          (Some d, Some n) \<Rightarrow> Some \<lparr>ar_digest = d, ar_schema_version = n\<rparr>
        | _ \<Rightarrow> None))"
| "artifact_ref_of _ = None"

fun outcome_of :: "json \<Rightarrow> outcome option" where
  "outcome_of (JObject [(k, v)]) =
     (if k = ''Ok'' then Some (OutcomeOk v)
      else if k = ''Err'' then map_option OutcomeErr (json_as_str v) else None)"
| "outcome_of _ = None"

definition step_record_of :: "json \<Rightarrow> step_record option" where
  "step_record_of v =
     (case (json_str ''step_id'' v, json_str ''input_digest'' v) of
        (Some s, Some d) \<Rightarrow>
          (case json_str ''phase'' v of
             Some p \<Rightarrow>
               if p = ''Pending'' then Some (PendingRec s d)
               else if p = ''Receipt''
               then map_option (ReceiptRec s d) (Option.bind (json_get ''artifact_ref'' v) artifact_ref_of)
               else if p = ''Completed''
               then map_option (CompletedRec s d) (Option.bind (json_get ''outcome'' v) outcome_of)
               else None
           | None \<Rightarrow> None)
      | _ \<Rightarrow> None)"

definition record_text :: "ext \<Rightarrow> step_record \<Rightarrow> string" where
  "record_text X r = json_text X (record_json r)"

definition decode_record :: "ext \<Rightarrow> audit_event \<Rightarrow> workflow_error + step_record" where
  "decode_record X e =
     (case ae_payload_json e of
        None \<Rightarrow> Inl (WfMalformedRecord (ae_aggregate_seq e))
      | Some payload \<Rightarrow>
          (case Option.bind (json_parse X payload) step_record_of of
             None \<Rightarrow> Inl (WfMalformedRecord (ae_aggregate_seq e))
           | Some r \<Rightarrow> Inr r))"

definition digest_inputs :: "ext \<Rightarrow> json \<Rightarrow> string" where
  "digest_inputs X v = digest_str (digest_of_bytes X (str_bytes (canonical_json X v)))"

section \<open>Rehydration\<close>

definition find_entry :: "string \<Rightarrow> step_entry list \<Rightarrow> step_entry option" where
  "find_entry s es = find (\<lambda>e. se_step_id e = s) es"

definition set_entry :: "string \<Rightarrow> (step_entry \<Rightarrow> step_entry) \<Rightarrow> step_entry list \<Rightarrow> step_entry list" where
  "set_entry s f es = map (\<lambda>e. if se_step_id e = s then f e else e) es"

text \<open>One iteration of \<open>pair_steps\<close> on the map of entries and the set of completed ids.\<close>

definition pair_step ::
  "ext \<Rightarrow> audit_event \<Rightarrow> step_entry list \<times> string set \<Rightarrow> workflow_error + step_entry list \<times> string set" where
  "pair_step X event acc =
     (let (pending, completed_ids) = acc; kind = kind_str (ae_kind event);
          malformed = Inl (WfMalformedRecord (ae_aggregate_seq event)) in
      case decode_record X event of
        Inl e \<Rightarrow> Inl e
      | Inr (PendingRec s d) \<Rightarrow>
          if find_entry s pending \<noteq> None \<or> s \<in> completed_ids then malformed
          else Inr (pending @ [\<lparr>se_step_id = s, se_kind = kind, se_input_digest = d,
            se_pending_seq = ae_aggregate_seq event, se_receipt = None, se_completed = None\<rparr>],
            completed_ids)
      | Inr (ReceiptRec s d a) \<Rightarrow>
          (case find_entry s pending of
             None \<Rightarrow> malformed
           | Some entry \<Rightarrow>
               if se_kind entry \<noteq> kind \<or> se_input_digest entry \<noteq> d \<or> se_receipt entry \<noteq> None \<or>
                  se_completed entry \<noteq> None
               then malformed
               else Inr (set_entry s (\<lambda>e. e\<lparr>se_receipt := Some a\<rparr>) pending, completed_ids))
      | Inr (CompletedRec s d out) \<Rightarrow>
          (case find_entry s pending of
             None \<Rightarrow> malformed
           | Some entry \<Rightarrow>
               if se_kind entry \<noteq> kind \<or> se_input_digest entry \<noteq> d \<or> se_completed entry \<noteq> None
               then malformed
               else Inr (set_entry s (\<lambda>e. e\<lparr>se_completed := Some out\<rparr>) pending, insert s completed_ids)))"

fun pair_rows ::
  "ext \<Rightarrow> audit_event list \<Rightarrow> step_entry list \<times> string set \<Rightarrow> workflow_error + step_entry list \<times> string set" where
  "pair_rows X [] acc = Inr acc"
| "pair_rows X (e # es) acc = (case pair_step X e acc of Inl err \<Rightarrow> Inl err | Inr acc' \<Rightarrow> pair_rows X es acc')"

definition pair_steps :: "ext \<Rightarrow> audit_event list \<Rightarrow> workflow_error + step_entry list" where
  "pair_steps X rows = (case pair_rows X rows ([], {}) of
     Inl e \<Rightarrow> Inl e | Inr (pending, _) \<Rightarrow> Inr (sort_key se_pending_seq pending))"

text \<open>The rows of a run are numbered 1, 2, 3 and so on.\<close>

fun check_sequence :: "nat \<Rightarrow> audit_event list \<Rightarrow> workflow_error option" where
  "check_sequence i [] = None"
| "check_sequence i (e # es) =
     (let expected = word_of_nat i + 1 in
      if ae_aggregate_seq e \<noteq> expected then Some (WfMalformedRecord expected)
      else check_sequence (Suc i) es)"

definition new_with_definition ::
  "ext \<Rightarrow> string \<Rightarrow> string \<Rightarrow> string \<Rightarrow> ledger \<Rightarrow> workflow_error + workflow_ctx" where
  "new_with_definition X run_id definition_id definition_version L =
     (if CHR '':'' \<in> set run_id \<or> CHR '':'' \<in> set definition_id \<or> CHR '':'' \<in> set definition_version
      then Inl (WfInvalidRunId run_id)
      else (case verify_and_replay_aggregate X (''workflow_run:'' @ run_id) L of
          Inl LedgerCorrupted \<Rightarrow> Inl WfLedgerCorrupted
        | Inl err \<Rightarrow> Inl (WfStore err)
        | Inr rows \<Rightarrow>
            (case check_sequence 0 rows of
               Some err \<Rightarrow> Inl err
             | None \<Rightarrow>
                 (case pair_steps X rows of
                    Inl err \<Rightarrow> Inl err
                  | Inr steps \<Rightarrow> Inr \<lparr>cx_run_id = run_id, cx_definition_id = definition_id,
                      cx_definition_version = definition_version, cx_steps = steps, cx_cursor = 0\<rparr>))))"

definition ctx_new :: "ext \<Rightarrow> string \<Rightarrow> ledger \<Rightarrow> workflow_error + workflow_ctx" where
  "ctx_new X run_id = new_with_definition X run_id ''workflow'' ''v1''"

definition resume_after_completed_steps :: "workflow_ctx \<Rightarrow> workflow_ctx" where
  "resume_after_completed_steps c =
     c\<lparr>cx_cursor := length (takeWhile (\<lambda>e. se_completed e \<noteq> None) (cx_steps c))\<rparr>"

section \<open>Beginning a step\<close>

definition step_id_at :: "workflow_ctx \<Rightarrow> string" where
  "step_id_at c = cx_definition_id c @ '':'' @ cx_definition_version c @ '':'' @ decimal (cx_cursor c)"

definition advance_cursor :: "workflow_ctx \<Rightarrow> workflow_ctx" where
  "advance_cursor c = c\<lparr>cx_cursor := cx_cursor c + 1\<rparr>"

definition handle_of :: "step_entry \<Rightarrow> step_handle" where
  "handle_of e = \<lparr>sh_step_id = se_step_id e, sh_pending_seq = se_pending_seq e\<rparr>"

definition resume_entry :: "(json \<Rightarrow> 'a option) \<Rightarrow> string \<Rightarrow> step_entry \<Rightarrow> workflow_error + 'a step_state" where
  "resume_entry from_value run_id e =
     (case se_completed e of
        Some (OutcomeOk v) \<Rightarrow> (case from_value v of
            None \<Rightarrow> Inl (WfMalformedRecord (se_pending_seq e))
          | Some x \<Rightarrow> Inr (Replayed (handle_of e) (Inr x)))
      | Some (OutcomeErr m) \<Rightarrow> Inr (Replayed (handle_of e) (Inl m))
      | None \<Rightarrow> Inr (Resuming (handle_of e) (run_id @ '':'' @ se_step_id e)))"

definition begin_step_raw ::
  "ext \<Rightarrow> (json \<Rightarrow> 'a option) \<Rightarrow> string \<Rightarrow> json \<Rightarrow> ulid \<Rightarrow> timestamp \<Rightarrow> workflow_ctx \<Rightarrow> ledger \<Rightarrow>
     'a step_state engine" where
  "begin_step_raw X from_value kind inputs fresh now c L =
     (let input_digest = digest_inputs X inputs; step_id = step_id_at c in
      case find_entry step_id (cx_steps c) of
        Some entry \<Rightarrow>
          if se_kind entry \<noteq> kind
          then (Inl (WfDivergence (se_pending_seq entry) (se_kind entry) kind), c, L)
          else if se_input_digest entry \<noteq> input_digest
          then (Inl (WfDivergence (se_pending_seq entry) (se_input_digest entry) input_digest), c, L)
          else (resume_entry from_value (cx_run_id c) entry, advance_cursor c, L)
      | None \<Rightarrow>
          if cx_cursor c < length (cx_steps c)
          then (let at_cursor = cx_steps c ! cx_cursor c in
            (Inl (WfDivergence (se_pending_seq at_cursor) (se_step_id at_cursor) step_id), c, L))
          else
            (case append_workflow_step_if_absent X (cx_run_id c) kind
                (record_text X (PendingRec step_id input_digest)) step_id fresh now L of
               (Inl err, L') \<Rightarrow> (Inl (WfStore err), c, L')
             | (Inr (event, inserted), L') \<Rightarrow>
                 let pending_seq = ae_aggregate_seq event in
                 (case decode_record X event of
                    Inl err \<Rightarrow> (Inl err, c, L')
                  | Inr (PendingRec persisted_id persisted_digest) \<Rightarrow>
                      if \<not> (persisted_id = step_id \<and> kind_str (ae_kind event) = kind)
                      then (Inl (WfDivergence pending_seq step_id (kind_str (ae_kind event))), c, L')
                      else if persisted_digest \<noteq> input_digest
                      then (Inl (WfDivergence pending_seq persisted_digest input_digest), c, L')
                      else
                        let entry = \<lparr>se_step_id = step_id, se_kind = kind,
                              se_input_digest = persisted_digest, se_pending_seq = pending_seq,
                              se_receipt = None, se_completed = None\<rparr>;
                            c' = advance_cursor (c\<lparr>cx_steps := cx_steps c @ [entry]\<rparr>);
                            key = cx_run_id c @ '':'' @ step_id
                        in (Inr (if inserted then Fresh (handle_of entry) key
                                 else Resuming (handle_of entry) key), c', L')
                  | Inr _ \<Rightarrow>
                      (Inl (WfDivergence pending_seq step_id (kind_str (ae_kind event))), c, L'))))"

text \<open>The step kinds reserved for typed adapters.\<close>

definition LEGACY_APPROVAL_STEP_KIND :: string where
  "LEGACY_APPROVAL_STEP_KIND = ''workflow.approval_legacy''"

definition APPROVAL_STEP_KIND :: string where
  "APPROVAL_STEP_KIND = ''workflow.approval''"

definition TRANSITION_STEP_KIND :: string where
  "TRANSITION_STEP_KIND = ''workflow.transition''"

definition ENTRY_BINDING_STEP_KIND :: string where
  "ENTRY_BINDING_STEP_KIND = ''workflow.entry_binding''"

definition DEFINITION_STEP_KIND :: string where
  "DEFINITION_STEP_KIND = ''workflow.definition''"

definition is_reserved_kind :: "string \<Rightarrow> bool" where
  "is_reserved_kind kind \<longleftrightarrow> kind \<in> {LEGACY_APPROVAL_STEP_KIND, APPROVAL_STEP_KIND,
     TRANSITION_STEP_KIND, ENTRY_BINDING_STEP_KIND, DEFINITION_STEP_KIND}"

definition begin_step ::
  "ext \<Rightarrow> (json \<Rightarrow> 'a option) \<Rightarrow> string \<Rightarrow> json \<Rightarrow> ulid \<Rightarrow> timestamp \<Rightarrow> workflow_ctx \<Rightarrow> ledger \<Rightarrow>
     'a step_state engine" where
  "begin_step X from_value kind inputs fresh now c L =
     (if is_reserved_kind kind
      then (Inl (WfStep (''the workflow kind '' @ kind @ '' is reserved for a typed adapter'')), c, L)
      else begin_step_raw X from_value kind inputs fresh now c L)"

section \<open>Receipts and completions\<close>

definition entry_of_handle :: "workflow_ctx \<Rightarrow> step_handle \<Rightarrow> workflow_error + step_entry" where
  "entry_of_handle c h =
     (case find (\<lambda>e. se_step_id e = sh_step_id h \<and> se_pending_seq e = sh_pending_seq h) (cx_steps c) of
        None \<Rightarrow> Inl (WfStep ''unknown workflow step handle'')
      | Some e \<Rightarrow> Inr e)"

text \<open>The update of the entry at the index a handle was resolved to, the first that matches.\<close>

fun update_first :: "('a \<Rightarrow> bool) \<Rightarrow> ('a \<Rightarrow> 'a) \<Rightarrow> 'a list \<Rightarrow> 'a list" where
  "update_first P f [] = []"
| "update_first P f (x # xs) = (if P x then f x # xs else x # update_first P f xs)"

definition set_handle_entry :: "step_handle \<Rightarrow> (step_entry \<Rightarrow> step_entry) \<Rightarrow> workflow_ctx \<Rightarrow> workflow_ctx" where
  "set_handle_entry h f c = c\<lparr>cx_steps := update_first
     (\<lambda>e. se_step_id e = sh_step_id h \<and> se_pending_seq e = sh_pending_seq h) f (cx_steps c)\<rparr>"

text \<open>The record an append returned, which may be one written by another context.\<close>

definition canonical_record :: "ext \<Rightarrow> u64 \<Rightarrow> audit_event \<Rightarrow> workflow_error + step_record" where
  "canonical_record X pending_seq event =
     (case Option.bind (Option.bind (ae_payload_json event) (json_parse X)) step_record_of of
        None \<Rightarrow> Inl (WfMalformedRecord pending_seq)
      | Some r \<Rightarrow> Inr r)"

definition record_receipt ::
  "ext \<Rightarrow> step_handle \<Rightarrow> artifact_ref \<Rightarrow> ulid \<Rightarrow> timestamp \<Rightarrow> workflow_ctx \<Rightarrow> ledger \<Rightarrow> unit engine" where
  "record_receipt X h artifact fresh now c L =
     (case entry_of_handle c h of
        Inl err \<Rightarrow> (Inl err, c, L)
      | Inr entry \<Rightarrow>
          if se_completed entry \<noteq> None \<or> se_receipt entry \<noteq> None
          then (Inl (WfDivergence (se_pending_seq entry) ''pending step without receipt''
            ''receipt already recorded or step completed''), c, L)
          else
            (case append_workflow_receipt X (cx_run_id c) (se_kind entry)
                (record_text X (ReceiptRec (sh_step_id h) (se_input_digest entry) artifact))
                (sh_step_id h) fresh now L of
               (Inl err, L') \<Rightarrow> (Inl (WfStore err), c, L')
             | (Inr (event, _), L') \<Rightarrow>
                 (case canonical_record X (se_pending_seq entry) event of
                    Inl err \<Rightarrow> (Inl err, c, L')
                  | Inr r \<Rightarrow>
                      if r = ReceiptRec (sh_step_id h) (se_input_digest entry) artifact
                      then (Inr (), set_handle_entry h (\<lambda>e. e\<lparr>se_receipt := Some artifact\<rparr>) c, L')
                      else (Inl (WfDivergence (se_pending_seq entry) ''matching workflow receipt''
                        ''conflicting workflow receipt''), c, L'))))"

fun outcome_value :: "('a \<Rightarrow> json) \<Rightarrow> string + 'a \<Rightarrow> outcome" where
  "outcome_value to_value (Inl m) = OutcomeErr m"
| "outcome_value to_value (Inr x) = OutcomeOk (canonical (to_value x))"

definition complete_step ::
  "ext \<Rightarrow> ('a \<Rightarrow> json) \<Rightarrow> step_handle \<Rightarrow> string + 'a \<Rightarrow> ulid \<Rightarrow> timestamp \<Rightarrow> workflow_ctx \<Rightarrow> ledger \<Rightarrow>
     unit engine" where
  "complete_step X to_value h result fresh now c L =
     (case entry_of_handle c h of
        Inl err \<Rightarrow> (Inl err, c, L)
      | Inr entry \<Rightarrow>
          if se_completed entry \<noteq> None then (Inl (WfStep ''workflow step already completed''), c, L)
          else
            let out = outcome_value to_value result in
            if (case se_receipt entry of
                  None \<Rightarrow> False
                | Some receipt \<Rightarrow> out \<noteq> OutcomeOk (canonical (artifact_ref_json receipt)))
            then (Inl (WfMalformedRecord (se_pending_seq entry)), c, L)
            else
              (case append_workflow_completion X (cx_run_id c) (se_kind entry)
                  (record_text X (CompletedRec (sh_step_id h) (se_input_digest entry) out))
                  (sh_step_id h) fresh now L of
                 (Inl err, L') \<Rightarrow> (Inl (WfStore err), c, L')
               | (Inr (event, _), L') \<Rightarrow>
                   (case canonical_record X (se_pending_seq entry) event of
                      Inl err \<Rightarrow> (Inl err, c, L')
                    | Inr r \<Rightarrow>
                        if r = CompletedRec (sh_step_id h) (se_input_digest entry) out
                        then (Inr (), set_handle_entry h (\<lambda>e. e\<lparr>se_completed := Some out\<rparr>) c, L')
                        else (Inl (WfDivergence (se_pending_seq entry) ''matching workflow completion''
                          ''conflicting workflow completion''), c, L'))))"

section \<open>Recorded reads and timers\<close>

text \<open>A read that is safe to redo: replayed when it has an outcome, otherwise taken and recorded.\<close>

definition recorded_read ::
  "ext \<Rightarrow> ('a \<Rightarrow> json) \<Rightarrow> (json \<Rightarrow> 'a option) \<Rightarrow> string \<Rightarrow> 'a \<Rightarrow> ulid \<Rightarrow> ulid \<Rightarrow> timestamp \<Rightarrow> timestamp \<Rightarrow>
     workflow_ctx \<Rightarrow> ledger \<Rightarrow> 'a engine" where
  "recorded_read X to_value from_value kind reading fresh1 fresh2 now1 now2 c L =
     (case begin_step X from_value kind JNull fresh1 now1 c L of
        (Inl err, c1, L1) \<Rightarrow> (Inl err, c1, L1)
      | (Inr (Replayed h (Inr x)), c1, L1) \<Rightarrow> (Inr x, c1, L1)
      | (Inr (Replayed h (Inl m)), c1, L1) \<Rightarrow> (Inl (WfStep m), c1, L1)
      | (Inr (Fresh h _), c1, L1) \<Rightarrow>
          (case complete_step X to_value h (Inr reading) fresh2 now2 c1 L1 of
             (Inl err, c2, L2) \<Rightarrow> (Inl err, c2, L2) | (Inr _, c2, L2) \<Rightarrow> (Inr reading, c2, L2))
      | (Inr (Resuming h _), c1, L1) \<Rightarrow>
          (case complete_step X to_value h (Inr reading) fresh2 now2 c1 L1 of
             (Inl err, c2, L2) \<Rightarrow> (Inl err, c2, L2) | (Inr _, c2, L2) \<Rightarrow> (Inr reading, c2, L2)))"

definition timestamp_value :: "ext \<Rightarrow> timestamp \<Rightarrow> json" where
  "timestamp_value X t = JString (ts_text X t)"

definition timestamp_of :: "text_parsers \<Rightarrow> json \<Rightarrow> timestamp option" where
  "timestamp_of P v = Option.bind (json_as_str v) (ts_parse P)"

definition u64_value :: "u64 \<Rightarrow> json" where
  "u64_value n = JNumber (PosInt n)"

definition ctx_now ::
  "ext \<Rightarrow> text_parsers \<Rightarrow> timestamp \<Rightarrow> ulid \<Rightarrow> ulid \<Rightarrow> timestamp \<Rightarrow> timestamp \<Rightarrow> workflow_ctx \<Rightarrow> ledger \<Rightarrow>
     timestamp engine" where
  "ctx_now X P = recorded_read X (timestamp_value X) (timestamp_of P) ''workflow.time_read''"

definition random_u64 ::
  "ext \<Rightarrow> u64 \<Rightarrow> ulid \<Rightarrow> ulid \<Rightarrow> timestamp \<Rightarrow> timestamp \<Rightarrow> workflow_ctx \<Rightarrow> ledger \<Rightarrow> u64 engine" where
  "random_u64 X = recorded_read X u64_value json_as_u64 ''workflow.random_read''"

record timer_spec =
  tsp_timer_id :: string
  tsp_fires_at :: timestamp

record timer_handle =
  th_run_id :: string
  th_timer_id :: string
  th_fires_at :: timestamp

definition timer_spec_value :: "ext \<Rightarrow> timer_spec \<Rightarrow> json" where
  "timer_spec_value X t = JObject
     [(''timer_id'', JString (tsp_timer_id t)), (''fires_at'', JString (ts_text X (tsp_fires_at t)))]"

definition timer_spec_of :: "text_parsers \<Rightarrow> json \<Rightarrow> timer_spec option" where
  "timer_spec_of P v = (case (json_str ''timer_id'' v, Option.bind (json_get ''fires_at'' v) (timestamp_of P)) of
     (Some i, Some t) \<Rightarrow> Some \<lparr>tsp_timer_id = i, tsp_fires_at = t\<rparr> | _ \<Rightarrow> None)"

definition handle_of_spec :: "workflow_ctx \<Rightarrow> timer_spec \<Rightarrow> timer_handle" where
  "handle_of_spec c t =
     \<lparr>th_run_id = cx_run_id c, th_timer_id = tsp_timer_id t, th_fires_at = tsp_fires_at t\<rparr>"

definition register_timer ::
  "ext \<Rightarrow> text_parsers \<Rightarrow> step_handle \<Rightarrow> timestamp \<Rightarrow> ulid \<Rightarrow> ulid \<Rightarrow> timestamp \<Rightarrow> workflow_ctx \<Rightarrow> ledger \<Rightarrow>
     timer_handle engine" where
  "register_timer X P h fires_at timer fresh now c L =
     (case entry_of_handle c h of
        Inl err \<Rightarrow> (Inl err, c, L)
      | Inr entry \<Rightarrow>
          (case schedule_workflow_timer_step X (cx_run_id c) (sh_step_id h) (sh_pending_seq h)
              ''workflow.timer_scheduled'' (se_input_digest entry) fires_at timer fresh now L of
             (Inl err, L') \<Rightarrow> (Inl (WfStore err), c, L')
           | (Inr (event, _), L') \<Rightarrow>
               (case decode_record X event of
                  Inl err \<Rightarrow> (Inl err, c, L')
                | Inr (CompletedRec s d (OutcomeOk v)) \<Rightarrow>
                    if s = sh_step_id h \<and> d = se_input_digest entry
                    then (case timer_spec_of P v of
                        None \<Rightarrow> (Inl WfSerialization, c, L')
                      | Some spec \<Rightarrow> (Inr (handle_of_spec c spec), set_handle_entry h
                          (\<lambda>e. e\<lparr>se_completed := Some (OutcomeOk (canonical (timer_spec_value X spec)))\<rparr>) c, L'))
                    else (Inl (WfDivergence (sh_pending_seq h) ''matching timer completion''
                      ''conflicting timer completion''), c, L')
                | Inr _ \<Rightarrow> (Inl (WfDivergence (sh_pending_seq h) ''matching timer completion''
                      ''conflicting timer completion''), c, L'))))"

definition schedule_timer ::
  "ext \<Rightarrow> text_parsers \<Rightarrow> timestamp \<Rightarrow> ulid \<Rightarrow> ulid \<Rightarrow> ulid \<Rightarrow> timestamp \<Rightarrow> timestamp \<Rightarrow> workflow_ctx \<Rightarrow>
     ledger \<Rightarrow> timer_handle engine" where
  "schedule_timer X P fires_at timer fresh1 fresh2 now1 now2 c L =
     (case begin_step X (timer_spec_of P) ''workflow.timer_scheduled'' (timestamp_value X fires_at)
         fresh1 now1 c L of
        (Inl err, c1, L1) \<Rightarrow> (Inl err, c1, L1)
      | (Inr (Replayed h (Inr spec)), c1, L1) \<Rightarrow> (Inr (handle_of_spec c1 spec), c1, L1)
      | (Inr (Replayed h (Inl m)), c1, L1) \<Rightarrow> (Inl (WfStep m), c1, L1)
      | (Inr (Fresh h _), c1, L1) \<Rightarrow> register_timer X P h fires_at timer fresh2 now2 c1 L1
      | (Inr (Resuming h _), c1, L1) \<Rightarrow> register_timer X P h fires_at timer fresh2 now2 c1 L1)"

definition poll_timer :: "workflow_ctx \<Rightarrow> timer_handle \<Rightarrow> ledger \<Rightarrow> bool" where
  "poll_timer c t L \<longleftrightarrow> th_run_id t = cx_run_id c \<and> workflow_timer_fired L (th_timer_id t)"

end
