(* ===== verification/Workflow_Replay.thy ===== *)
theory Workflow_Replay
  imports Workflow_Engine
begin

text \<open>
  Replay is faithful: the context that rehydration builds from the ledger is the one the engine
  had in memory, after any sequence of its operations.
\<close>

section \<open>The round trip of a step record\<close>

definition wf_parsers :: "ext \<Rightarrow> text_parsers \<Rightarrow> bool" where
  "wf_parsers X P \<longleftrightarrow> (\<forall>u. ulid_parse P (ulid_text X u) = Some u) \<and> (\<forall>t. ts_parse P (ts_text X t) = Some t)"

fun wf_outcome :: "outcome \<Rightarrow> bool" where
  "wf_outcome (OutcomeOk v) \<longleftrightarrow> wf_json v \<and> plain_json v \<and> canonical v = v"
| "wf_outcome (OutcomeErr m) \<longleftrightarrow> True"

fun wf_record :: "step_record \<Rightarrow> bool" where
  "wf_record (PendingRec s d) \<longleftrightarrow> True"
| "wf_record (ReceiptRec s d a) \<longleftrightarrow> digest_is_valid (digest_str (ar_digest a))"
| "wf_record (CompletedRec s d out) \<longleftrightarrow> wf_outcome out"

lemma json_str_canonical:
  "distinct (map fst kvs) \<Longrightarrow>
     json_str k (canonical (JObject kvs)) = Option.bind (map_of kvs k) (\<lambda>v. json_as_str (canonical v))"
  unfolding json_str_def by (subst json_get_canonical) (auto split: option.splits bind_splits)

lemma json_as_str_canonical [simp]: "json_as_str (canonical v) = json_as_str v"
  by (cases v) simp_all

lemma record_json_ok:
  assumes "wf_record r"
  shows "wf_json (record_json r)" "plain_json (record_json r)"
  using assms plain_artifact_ref by (cases r rule: record_json.cases; cases "case r of CompletedRec s d out \<Rightarrow> out | _ \<Rightarrow> OutcomeErr []"; simp)+

lemma json_as_u32_jnum [simp]: "json_as_u32 (jnum n) = Some n"
proof -
  have up: "is_up (ucast :: u32 \<Rightarrow> u64)" by (simp add: is_up_def source_size_def target_size_def word_size)
  have "uint (ucast n :: u64) < 2 ^ 32" using uint_up_ucast [OF up, of n] uint_lt2p [of n] by simp
  then show ?thesis by (simp add: json_as_u32_def jnum_def ucast_up_ucast_id [OF up])
qed

lemma artifact_ref_round_trip:
  assumes "digest_is_valid (digest_str (ar_digest a))"
  shows "artifact_ref_of (canonical (artifact_ref_json a)) = Some a"
proof -
  have "digest_of_value (JString (digest_str (ar_digest a))) = Some (ar_digest a)"
    using assms by (simp add: digest_of_value_def digest_parse_def)
  moreover have "canonical (jnum n) = jnum n" for n by (simp add: jnum_def)
  ultimately show ?thesis by (simp add: artifact_ref_json_def sort_entries_def)
qed

lemma outcome_round_trip: "wf_outcome out \<Longrightarrow> outcome_of (canonical (outcome_json out)) = Some out"
  by (cases out) (simp_all add: sort_entries_def)

lemma record_round_trip:
  assumes "wf_serde X" "wf_record r"
  shows "Option.bind (json_parse X (record_text X r)) step_record_of = Some r"
proof -
  have "json_parse X (record_text X r) = Some (canonical (record_json r))"
    using assms record_json_ok [OF assms(2)] by (simp add: wf_serde_def record_text_def)
  moreover have "step_record_of (canonical (record_json r)) = Some r"
    using assms(2) artifact_ref_round_trip outcome_round_trip
    by (cases r) (simp_all add: step_record_of_def json_str_canonical json_get_canonical del: canonical.simps(6))
  ultimately show ?thesis by simp
qed

lemma decode_written:
  assumes "wf_serde X" "wf_record r" "ae_payload_json e = Some (record_text X r)"
  shows "decode_record X e = Inr r" "canonical_record X seq e = Inr r"
  using record_round_trip [OF assms(1,2)] assms(3) by (simp_all add: decode_record_def canonical_record_def)

section \<open>Step identifiers\<close>

lemma decimal_snoc: "decimal n = (if n < 10 then [] else decimal (n div 10)) @ [char_of (48 + n mod 10)]"
  by (subst decimal.simps) simp

lemma decimal_digit: "char_of (48 + m mod 10) = (char_of (48 + n mod 10) :: char) \<longleftrightarrow> m mod 10 = n mod 10" for m n :: nat
proof
  assume "char_of (48 + m mod 10) = (char_of (48 + n mod 10) :: char)"
  then have "of_char (char_of (48 + m mod 10)) = (of_char (char_of (48 + n mod 10)) :: nat)" by simp
  then show "m mod 10 = n mod 10" by (simp add: of_char_of)
qed simp

lemma decimal_inj: "decimal m = decimal n \<Longrightarrow> m = n"
proof (induction m arbitrary: n rule: decimal.induct)
  case (1 m)
  have ne: "decimal k \<noteq> []" for k by (subst decimal_snoc) simp
  have e: "(if m < 10 then [] else decimal (m div 10)) = (if n < 10 then [] else decimal (n div 10))"
    and d: "m mod 10 = n mod 10"
    using "1.prems" decimal_snoc [of m] decimal_snoc [of n] decimal_digit by simp_all
  from e ne have "m < 10 \<longleftrightarrow> n < 10" by (metis (full_types))
  moreover have "m div 10 = n div 10" if "\<not> m < 10" "\<not> n < 10" using "1.IH" [OF that(1)] e that by simp
  ultimately show ?case using d by (cases "m < 10") (simp, metis div_mult_mod_eq)
qed

definition step_id :: "workflow_ctx \<Rightarrow> nat \<Rightarrow> string" where
  "step_id c k = cx_definition_id c @ '':'' @ cx_definition_version c @ '':'' @ decimal k"

lemma step_id_at_cursor: "step_id_at c = step_id c (cx_cursor c)"
  by (simp add: step_id_at_def step_id_def)

lemma step_id_inj: "step_id c j = step_id c k \<longleftrightarrow> j = k"
  using decimal_inj by (auto simp: step_id_def)

section \<open>The invariant of a run\<close>

definition run_events :: "string \<Rightarrow> ledger \<Rightarrow> audit_event list" where
  "run_events run_id L = in_aggregate (''workflow_run:'' @ run_id) (ledger_events L)"

definition done_ids :: "step_entry list \<Rightarrow> string set" where
  "done_ids es = se_step_id ` {e \<in> set es. se_completed e \<noteq> None}"

definition same_progress :: "step_entry \<Rightarrow> registry_row \<Rightarrow> bool" where
  "same_progress e g \<longleftrightarrow> rg_pending_seq g = uint (se_pending_seq e) \<and>
     (rg_receipt_seq g = None \<longleftrightarrow> se_receipt e = None) \<and> (rg_completed_seq g = None \<longleftrightarrow> se_completed e = None)"

definition registered :: "string \<Rightarrow> step_entry list \<Rightarrow> ledger \<Rightarrow> bool" where
  "registered run_id es L \<longleftrightarrow> (\<forall>s. rel_option same_progress (find_entry s es) (step_map L (run_id, s)))"

definition ordered :: "nat \<Rightarrow> step_entry list \<Rightarrow> bool" where
  "ordered n es \<longleftrightarrow> sorted_wrt (<) (map se_pending_seq es) \<and> (\<forall>q\<in>set (map se_pending_seq es). uint q \<le> int n)"

definition engine_inv :: "ext \<Rightarrow> workflow_ctx \<Rightarrow> ledger \<Rightarrow> bool" where
  "engine_inv X c L \<longleftrightarrow> ledger_run X L \<and>
     pair_rows X (run_events (cx_run_id c) L) ([], {}) = Inr (cx_steps c, done_ids (cx_steps c)) \<and>
     map se_step_id (cx_steps c) = map (step_id c) [0..<length (cx_steps c)] \<and>
     cx_cursor c \<le> length (cx_steps c) \<and> registered (cx_run_id c) (cx_steps c) L \<and>
     ordered (length (run_events (cx_run_id c) L)) (cx_steps c)"

lemma pair_rows_snoc:
  "pair_rows X (es @ [e]) acc = (case pair_rows X es acc of Inl err \<Rightarrow> Inl err | Inr acc' \<Rightarrow> pair_step X e acc')"
  by (induction es arbitrary: acc) (auto split: sum.splits)

lemma step_id_cong:
  "cx_definition_id c' = cx_definition_id c \<Longrightarrow> cx_definition_version c' = cx_definition_version c \<Longrightarrow>
     step_id c' = step_id c"
  by (simp add: step_id_def fun_eq_iff)

lemma inv_distinct: "engine_inv X c L \<Longrightarrow> distinct (map se_step_id (cx_steps c))"
proof -
  assume "engine_inv X c L"
  then have "map se_step_id (cx_steps c) = map (step_id c) [0..<length (cx_steps c)]" by (simp add: engine_inv_def)
  moreover have "inj (step_id c)" by (simp add: inj_def step_id_inj)
  ultimately show ?thesis by (simp add: distinct_map inj_on_def inj_def)
qed

lemma find_entry_mem: "distinct (map se_step_id es) \<Longrightarrow> e \<in> set es \<Longrightarrow> find_entry (se_step_id e) es = Some e"
  unfolding find_entry_def by (induction es) auto

lemma find_entry_Some: "find_entry s es = Some e \<Longrightarrow> e \<in> set es \<and> se_step_id e = s"
  using find_hit [of "\<lambda>e. se_step_id e = s" es e] by (simp add: find_entry_def)

lemma find_entry_None: "find_entry s es = None \<longleftrightarrow> s \<notin> se_step_id ` set es"
  by (auto simp: find_entry_def find_None_iff)

lemma find_entry_set:
  "(\<And>e. se_step_id (f e) = se_step_id e) \<Longrightarrow>
     find_entry t (set_entry s f es) = map_option (\<lambda>e. if t = s then f e else e) (find_entry t es)"
  unfolding find_entry_def set_entry_def by (induction es) auto

lemma set_entry_maps:
  "(\<And>e. g (f e) = g e) \<Longrightarrow> map g (set_entry s f es) = map g es" "length (set_entry s f es) = length es"
  by (simp_all add: set_entry_def)

lemma entry_of_handle_Inr:
  assumes "entry_of_handle c h = Inr e"
  shows "e \<in> set (cx_steps c)" "se_step_id e = sh_step_id h" "se_pending_seq e = sh_pending_seq h"
  using assms find_hit [of "\<lambda>e. se_step_id e = sh_step_id h \<and> se_pending_seq e = sh_pending_seq h" "cx_steps c" e]
  by (simp_all add: entry_of_handle_def split: option.splits)

lemma set_handle_entry_eq:
  assumes "distinct (map se_step_id (cx_steps c))" "entry_of_handle c h = Inr e"
  shows "set_handle_entry h f c = c\<lparr>cx_steps := set_entry (sh_step_id h) f (cx_steps c)\<rparr>"
proof -
  have "update_first (\<lambda>e. se_step_id e = sh_step_id h \<and> se_pending_seq e = sh_pending_seq h) f es =
      set_entry (sh_step_id h) f es"
    if "distinct (map se_step_id es)" "e \<in> set es" "se_step_id e = sh_step_id h" "se_pending_seq e = sh_pending_seq h" for es
    using that
  proof (induction es)
    case (Cons x xs)
    show ?case
    proof (cases "x = e")
      case True
      then have "set_entry (sh_step_id h) f xs = xs"
        using Cons.prems by (auto simp: set_entry_def image_iff intro!: map_idI)
      with True Cons.prems show ?thesis by (simp add: set_entry_def)
    next
      case False
      then have "se_step_id x \<noteq> sh_step_id h" using Cons.prems by force
      with False Cons show ?thesis by (simp add: set_entry_def)
    qed
  qed simp
  from this [OF assms(1) entry_of_handle_Inr [OF assms(2)]] show ?thesis by (simp add: set_handle_entry_def)
qed

text \<open>An event of the run is appended and the steps are updated as its record says.\<close>

lemma inv_append:
  assumes "engine_inv X c L" "ledger_run X L'" "ledger_events L' = ledger_events L @ [ev]"
    and "ae_aggregate_id ev = ''workflow_run:'' @ cx_run_id c"
    and "pair_step X ev (cx_steps c, done_ids (cx_steps c)) = Inr (es, done_ids es)"
    and "map se_step_id es = map (step_id c) [0..<length es]" "k \<le> length es"
    and "registered (cx_run_id c) es L'" "ordered (length (run_events (cx_run_id c) L')) es"
  shows "engine_inv X (c\<lparr>cx_steps := es, cx_cursor := k\<rparr>) L'"
proof -
  have "run_events (cx_run_id c) L' = run_events (cx_run_id c) L @ [ev]"
    using assms(3,4) by (simp add: run_events_def in_aggregate_def)
  then have "pair_rows X (run_events (cx_run_id c) L') ([], {}) = Inr (es, done_ids es)"
    using assms(1,5) by (simp add: pair_rows_snoc engine_inv_def)
  moreover have "step_id (c\<lparr>cx_steps := es, cx_cursor := k\<rparr>) = step_id c" by (rule step_id_cong) simp_all
  ultimately show ?thesis using assms by (simp add: engine_inv_def)
qed

lemma run_events_snoc:
  "ledger_events L' = ledger_events L @ [ev] \<Longrightarrow> ae_aggregate_id ev = ''workflow_run:'' @ r \<Longrightarrow>
     run_events r L' = run_events r L @ [ev]"
  by (simp add: run_events_def in_aggregate_def)

lemma ordered_mono: "ordered m es \<Longrightarrow> m \<le> n \<Longrightarrow> ordered n es"
  by (force simp: ordered_def)

text \<open>The record of a step that is under way: a receipt or a completion.\<close>

lemma inv_update:
  assumes "engine_inv X c L" "ledger_run X L'" "ledger_events L' = ledger_events L @ [ev]"
    and "ae_aggregate_id ev = ''workflow_run:'' @ cx_run_id c"
    and "find_entry s (cx_steps c) = Some e" "same_progress (f e) g"
    and "step_map L' = (step_map L)((cx_run_id c, s) \<mapsto> g)"
    and "pair_step X ev (cx_steps c, done_ids (cx_steps c)) =
      Inr (set_entry s f (cx_steps c), done_ids (set_entry s f (cx_steps c)))"
    and f: "\<And>e. se_step_id (f e) = se_step_id e" "\<And>e. se_pending_seq (f e) = se_pending_seq e"
  shows "engine_inv X (c\<lparr>cx_steps := set_entry s f (cx_steps c)\<rparr>) L'"
proof -
  let ?es = "set_entry s f (cx_steps c)"
  have "registered (cx_run_id c) ?es L'"
    unfolding registered_def
  proof
    fix t
    have "rel_option same_progress (find_entry t (cx_steps c)) (step_map L (cx_run_id c, t))"
      using assms(1) by (simp add: engine_inv_def registered_def)
    then show "rel_option same_progress (find_entry t ?es) (step_map L' (cx_run_id c, t))"
      using assms(5,6) by (simp add: find_entry_set [OF f(1)] assms(7) option.map_ident)
  qed
  moreover have "ordered (length (run_events (cx_run_id c) L')) ?es"
  proof -
    have "ordered n ?es" if "ordered n (cx_steps c)" for n
      using that unfolding ordered_def set_entry_maps(1) [of se_pending_seq f s "cx_steps c", OF f(2)] .
    then show ?thesis
      using assms(1) ordered_mono [of "length (run_events (cx_run_id c) L)"] run_events_snoc [OF assms(3,4)]
      by (simp add: engine_inv_def)
  qed
  ultimately have "engine_inv X (c\<lparr>cx_steps := ?es, cx_cursor := cx_cursor c\<rparr>) L'"
    using assms(1) set_entry_maps(1) [of se_step_id f s "cx_steps c", OF f(1)] set_entry_maps(2)
    by (intro inv_append [OF assms(1-4,8)]) (simp_all add: engine_inv_def)
  then show ?thesis by (cases c) simp
qed

section \<open>The operations keep the invariant\<close>

definition event_of_run :: "workflow_ctx \<Rightarrow> string \<Rightarrow> string \<Rightarrow> ledger \<Rightarrow> audit_event \<Rightarrow> ledger \<Rightarrow> bool" where
  "event_of_run c kind payload L ev L' \<longleftrightarrow> ledger_events L' = ledger_events L @ [ev] \<and>
     ae_aggregate_id ev = ''workflow_run:'' @ cx_run_id c \<and> ae_payload_json ev = Some payload \<and>
     kind_str (ae_kind ev) = kind \<and>
     uint (ae_aggregate_seq ev) = int (length (run_events (cx_run_id c) L)) + 1"

lemma written_event_of_run:
  assumes "wf_ext X" "engine_inv X c L" "lg_rows L' = lg_rows L3"
    and "append_audit_conn_with_actor X (workflow_input (cx_run_id c) kind payload) fresh now L = Inr (ev, L3)"
  shows "event_of_run c kind payload L ev L'"
proof -
  have "rows_inv X L" using assms(2) ledger_run_rows(1) [OF assms(1)] by (simp add: engine_inv_def)
  note i = append_inv [OF assms(1) this assms(4)]
  have "ledger_events L' = ledger_events L @ [ev]" using i(3) ledger_events_cong [OF assms(3)] by simp
  with i(4-6) append_fields(3) [OF assms(4)] show ?thesis
    by (simp add: event_of_run_def run_events_def workflow_input_def aggregate_of_def)
qed

lemma entry_registered:
  assumes "engine_inv X c L" "find_entry s (cx_steps c) = Some e"
  obtains g where "step_map L (cx_run_id c, s) = Some g" "same_progress e g"
proof -
  have "rel_option same_progress (find_entry s (cx_steps c)) (step_map L (cx_run_id c, s))"
    using assms(1) by (simp add: engine_inv_def registered_def)
  with assms(2) that show thesis by (auto simp: option_rel_Some1)
qed

lemma tx_error: "op = with_immediate_tx f \<Longrightarrow> op L = (Inl err, L') \<Longrightarrow> L' = L"
  by (auto simp: with_immediate_tx_def split: sum.splits)

lemma completion_event:
  assumes "wf_ext X" "engine_inv X c L" "find_entry s (cx_steps c) = Some e" "se_completed e = None"
    and "append_workflow_completion X (cx_run_id c) kind payload s fresh now L = (Inr (ev, b), L')"
  obtains g n where "event_of_run c kind payload L ev L'" "ledger_run X L'" "same_progress e g"
    "step_map L' = (step_map L)((cx_run_id c, s) \<mapsto> g\<lparr>rg_completed_seq := Some n\<rparr>)"
proof -
  obtain g where g: "step_map L (cx_run_id c, s) = Some g" "same_progress e g"
    by (rule entry_registered [OF assms(2,3)])
  have run: "ledger_run X L'"
    using assms(2,5) run_step [OF _ step_completion] by (metis engine_inv_def snd_conv)
  from assms(5) show thesis
  proof (cases rule: completion_write)
    case (found g' n)
    then show ?thesis using g assms(4) by (simp add: same_progress_def)
  next
    case (written L3 g')
    then have "g' = g" using g by simp
    with written that [OF written_event_of_run [OF assms(1,2) written(5,4)] run g(2)] show ?thesis by simp
  qed
qed

lemma receipt_event:
  assumes "wf_ext X" "engine_inv X c L" "find_entry s (cx_steps c) = Some e" "se_receipt e = None"
    and "append_workflow_receipt X (cx_run_id c) kind payload s fresh now L = (Inr (ev, b), L')"
  obtains g n where "event_of_run c kind payload L ev L'" "ledger_run X L'" "same_progress e g"
    "step_map L' = (step_map L)((cx_run_id c, s) \<mapsto> g\<lparr>rg_receipt_seq := Some n\<rparr>)"
proof -
  obtain g where g: "step_map L (cx_run_id c, s) = Some g" "same_progress e g"
    by (rule entry_registered [OF assms(2,3)])
  have run: "ledger_run X L'"
    using assms(2,5) run_step [OF _ step_receipt] by (metis engine_inv_def snd_conv)
  from assms(5) show thesis
  proof (cases rule: receipt_write)
    case (found g' n)
    then show ?thesis using g assms(4) by (simp add: same_progress_def)
  next
    case (written L3 g')
    then have "g' = g" using g by simp
    with written that [OF written_event_of_run [OF assms(1,2) written(5,4)] run g(2)] show ?thesis by simp
  qed
qed

lemma done_ids_Cons:
  "done_ids [] = {}"
  "done_ids (e # es) = (if se_completed e = None then {} else {se_step_id e}) \<union> done_ids es"
  by (auto simp: done_ids_def)

lemma done_ids_complete:
  assumes "find_entry s es = Some e"
  shows "done_ids (set_entry s (\<lambda>e. e\<lparr>se_completed := Some out\<rparr>) es) = insert s (done_ids es)"
proof -
  have "done_ids (set_entry s (\<lambda>e. e\<lparr>se_completed := Some out\<rparr>) es) =
      (if s \<in> se_step_id ` set es then {s} else {}) \<union> done_ids es"
    by (induction es) (auto simp: done_ids_Cons set_entry_def)
  then show ?thesis using find_entry_Some [OF assms] by auto
qed

lemma done_ids_receipt: "done_ids (set_entry s (\<lambda>e. e\<lparr>se_receipt := Some a\<rparr>) es) = done_ids es"
proof (induction es)
  case (Cons e es)
  then show ?case by (cases "se_completed e") (simp_all add: done_ids_Cons set_entry_def)
qed (simp add: set_entry_def)

lemma completion_inv:
  assumes "wf_ext X" "wf_serde X" "engine_inv X c L" "find_entry s (cx_steps c) = Some e" "se_completed e = None"
    and "event_of_run c (se_kind e) payload L ev L'" "ledger_run X L'" "same_progress e g"
    and "step_map L' = (step_map L)((cx_run_id c, s) \<mapsto> g\<lparr>rg_completed_seq := Some n\<rparr>)"
    and "decode_record X ev = Inr (CompletedRec s (se_input_digest e) out)"
  shows "engine_inv X (c\<lparr>cx_steps := set_entry s (\<lambda>e. e\<lparr>se_completed := Some out\<rparr>) (cx_steps c)\<rparr>) L'"
proof -
  have "pair_step X ev (cx_steps c, done_ids (cx_steps c)) =
      Inr (set_entry s (\<lambda>e. e\<lparr>se_completed := Some out\<rparr>) (cx_steps c),
        done_ids (set_entry s (\<lambda>e. e\<lparr>se_completed := Some out\<rparr>) (cx_steps c)))"
    using assms(4,5,6,10) by (simp add: pair_step_def event_of_run_def done_ids_complete)
  with assms(4-9) show ?thesis
    by (intro inv_update [OF assms(3,7)]) (auto simp: event_of_run_def same_progress_def)
qed

lemma receipt_inv:
  assumes "wf_ext X" "wf_serde X" "engine_inv X c L" "find_entry s (cx_steps c) = Some e"
    and "se_receipt e = None" "se_completed e = None"
    and "event_of_run c (se_kind e) payload L ev L'" "ledger_run X L'" "same_progress e g"
    and "step_map L' = (step_map L)((cx_run_id c, s) \<mapsto> g\<lparr>rg_receipt_seq := Some n\<rparr>)"
    and "decode_record X ev = Inr (ReceiptRec s (se_input_digest e) a)"
  shows "engine_inv X (c\<lparr>cx_steps := set_entry s (\<lambda>e. e\<lparr>se_receipt := Some a\<rparr>) (cx_steps c)\<rparr>) L'"
proof -
  have "pair_step X ev (cx_steps c, done_ids (cx_steps c)) =
      Inr (set_entry s (\<lambda>e. e\<lparr>se_receipt := Some a\<rparr>) (cx_steps c),
        done_ids (set_entry s (\<lambda>e. e\<lparr>se_receipt := Some a\<rparr>) (cx_steps c)))"
    using assms(4-7,11) by (simp add: pair_step_def event_of_run_def done_ids_receipt)
  with assms(4-10) show ?thesis
    by (intro inv_update [OF assms(3,8)]) (auto simp: event_of_run_def same_progress_def)
qed

lemma complete_step_inv:
  assumes "wf_ext X" "wf_serde X" "engine_inv X c L" "wf_outcome (outcome_value to_value result)"
    and "complete_step X to_value h result fresh now c L = (r, c', L')"
  shows "engine_inv X c' L'"
proof (cases "entry_of_handle c h")
  case (Inl err)
  then show ?thesis using assms(3,5) by (auto simp: complete_step_def)
next
  case (Inr e)
  let ?out = "outcome_value to_value result"
  let ?rec = "CompletedRec (sh_step_id h) (se_input_digest e) ?out"
  have e: "find_entry (sh_step_id h) (cx_steps c) = Some e"
    using find_entry_mem [OF inv_distinct [OF assms(3)]] entry_of_handle_Inr [OF Inr] by metis
  show ?thesis
  proof (cases "append_workflow_completion X (cx_run_id c) (se_kind e) (record_text X ?rec) (sh_step_id h) fresh now L")
    case (Pair res L1)
    show ?thesis
    proof (cases res)
      case (Inl err)
      then have "L1 = L" using Pair tx_error [OF append_workflow_completion_def] by blast
      then show ?thesis using assms(3,5) Inr Pair Inl by (auto simp: complete_step_def Let_def split: if_splits)
    next
      case (Inr q)
      obtain ev b where q: "q = (ev, b)" by (cases q)
      show ?thesis
      proof (cases "se_completed e = None")
        case True
        obtain g n where w: "event_of_run c (se_kind e) (record_text X ?rec) L ev L1" "ledger_run X L1"
          "same_progress e g" "step_map L1 = (step_map L)((cx_run_id c, sh_step_id h) \<mapsto> g\<lparr>rg_completed_seq := Some n\<rparr>)"
          by (rule completion_event [OF assms(1,3) e True]) (use Pair Inr q in auto)
        have d: "decode_record X ev = Inr ?rec" "canonical_record X seq ev = Inr ?rec" for seq
          using decode_written [OF assms(2), of ?rec ev] assms(4) w(1) by (simp_all add: event_of_run_def)
        note completion_inv [OF assms(1-3) e True w d(1)]
        with assms(3,5) \<open>entry_of_handle c h = Inr e\<close> Pair Inr q d(2) True show ?thesis
          by (auto simp: complete_step_def Let_def set_handle_entry_eq [OF inv_distinct [OF assms(3)] \<open>entry_of_handle c h = Inr e\<close>]
              split: if_splits)
      next
        case False
        then show ?thesis using assms(3,5) \<open>entry_of_handle c h = Inr e\<close> by (auto simp: complete_step_def)
      qed
    qed
  qed
qed

lemma record_receipt_inv:
  assumes "wf_ext X" "wf_serde X" "engine_inv X c L" "digest_is_valid (digest_str (ar_digest artifact))"
    and "record_receipt X h artifact fresh now c L = (r, c', L')"
  shows "engine_inv X c' L'"
proof (cases "entry_of_handle c h")
  case (Inl err)
  then show ?thesis using assms(3,5) by (auto simp: record_receipt_def)
next
  case (Inr e)
  note h = Inr
  let ?rec = "ReceiptRec (sh_step_id h) (se_input_digest e) artifact"
  have e: "find_entry (sh_step_id h) (cx_steps c) = Some e"
    using find_entry_mem [OF inv_distinct [OF assms(3)]] entry_of_handle_Inr [OF h] by metis
  show ?thesis
  proof (cases "append_workflow_receipt X (cx_run_id c) (se_kind e) (record_text X ?rec) (sh_step_id h) fresh now L")
    case (Pair res L1)
    show ?thesis
    proof (cases "se_completed e = None \<and> se_receipt e = None")
      case False
      then show ?thesis using assms(3,5) h by (auto simp: record_receipt_def)
    next
      case True
      show ?thesis
      proof (cases res)
        case (Inl err)
        then have "L1 = L" using Pair tx_error [OF append_workflow_receipt_def] by blast
        then show ?thesis using assms(3,5) h Pair Inl True by (auto simp: record_receipt_def)
      next
        case (Inr q)
        obtain ev b where q: "q = (ev, b)" by (cases q)
        obtain g n where w: "event_of_run c (se_kind e) (record_text X ?rec) L ev L1" "ledger_run X L1"
          "same_progress e g" "step_map L1 = (step_map L)((cx_run_id c, sh_step_id h) \<mapsto> g\<lparr>rg_receipt_seq := Some n\<rparr>)"
          by (rule receipt_event [OF assms(1,3) e]) (use True Pair Inr q in auto)
        have d: "decode_record X ev = Inr ?rec" "canonical_record X seq ev = Inr ?rec" for seq
          using decode_written [OF assms(2), of ?rec ev] assms(4) w(1) by (simp_all add: event_of_run_def)
        note receipt_inv [OF assms(1-3) e _ _ w d(1)]
        with assms(3,5) h Pair Inr q d(2) True show ?thesis
          by (auto simp: record_receipt_def set_handle_entry_eq [OF inv_distinct [OF assms(3)] h])
      qed
    qed
  qed
qed

lemma step_at:
  assumes "engine_inv X c L" "k < length (cx_steps c)"
  shows "se_step_id (cx_steps c ! k) = step_id c k" "find_entry (step_id c k) (cx_steps c) = Some (cx_steps c ! k)"
proof -
  have ids: "map se_step_id (cx_steps c) = map (step_id c) [0..<length (cx_steps c)]"
    using assms(1) by (simp add: engine_inv_def)
  show i: "se_step_id (cx_steps c ! k) = step_id c k"
    using arg_cong [OF ids, of "\<lambda>l. l ! k"] assms(2) by simp
  show "find_entry (step_id c k) (cx_steps c) = Some (cx_steps c ! k)"
    using find_entry_mem [OF inv_distinct [OF assms(1)] nth_mem [OF assms(2)]] i by simp
qed

lemma step_beyond:
  assumes "engine_inv X c L" "length (cx_steps c) \<le> k"
  shows "find_entry (step_id c k) (cx_steps c) = None"
proof -
  have "se_step_id ` set (cx_steps c) = step_id c ` {0..<length (cx_steps c)}"
    using assms(1) unfolding engine_inv_def by (metis list.set_map set_upt)
  then show ?thesis using assms(2) by (auto simp: find_entry_None step_id_inj)
qed

lemma inv_cursor: "engine_inv X c L \<Longrightarrow> k \<le> length (cx_steps c) \<Longrightarrow> engine_inv X (c\<lparr>cx_cursor := k\<rparr>) L"
  by (simp add: engine_inv_def step_id_cong [of "c\<lparr>cx_cursor := k\<rparr>" c])

text \<open>A step that is begun for the first time: the pending record and the new entry.\<close>

lemma begin_fresh_inv:
  assumes "wf_ext X" "wf_serde X" "engine_inv X c L" "cx_cursor c = length (cx_steps c)"
    and "append_workflow_step_if_absent X (cx_run_id c) kind (record_text X (PendingRec (step_id_at c) d))
      (step_id_at c) fresh now L = (Inr (ev, b), L')"
    and "entry = \<lparr>se_step_id = step_id_at c, se_kind = kind, se_input_digest = d,
      se_pending_seq = ae_aggregate_seq ev, se_receipt = None, se_completed = None\<rparr>"
  shows "b" "decode_record X ev = Inr (PendingRec (step_id_at c) d)" "kind_str (ae_kind ev) = kind"
    "engine_inv X (advance_cursor (c\<lparr>cx_steps := cx_steps c @ [entry]\<rparr>)) L'"
    "event_of_run c kind (record_text X (PendingRec (step_id_at c) d)) L ev L'"
proof -
  let ?s = "step_id_at c" and ?es = "cx_steps c @ [entry]"
  have none: "find_entry ?s (cx_steps c) = None"
    using step_beyond [OF assms(3), of "cx_cursor c"] assms(4) by (simp add: step_id_at_cursor)
  have reg: "rel_option same_progress (find_entry t (cx_steps c)) (step_map L (cx_run_id c, t))" for t
    using assms(3) by (simp add: engine_inv_def registered_def)
  have new: "step_map L (cx_run_id c, ?s) = None"
    using reg [of ?s] none by (cases "step_map L (cx_run_id c, ?s)") simp_all
  have run: "ledger_run X L'"
    using assms(3,5) run_step [OF _ step_pending] by (metis engine_inv_def snd_conv)
  have "b \<and> event_of_run c kind (record_text X (PendingRec ?s d)) L ev L' \<and>
    step_map L' = (step_map L)((cx_run_id c, ?s) \<mapsto> \<lparr>rg_run_id = cx_run_id c, rg_step_id = ?s,
      rg_pending_seq = uint (ae_aggregate_seq ev), rg_receipt_seq = None, rg_completed_seq = None\<rparr>)"
    using assms(5)
  proof (cases rule: pending_write)
    case (written L3)
    then show ?thesis using written_event_of_run [OF assms(1,3) written(4,3)] by simp
  qed (use new in simp)
  then have w: "b" "event_of_run c kind (record_text X (PendingRec ?s d)) L ev L'"
    "step_map L' = (step_map L)((cx_run_id c, ?s) \<mapsto> \<lparr>rg_run_id = cx_run_id c, rg_step_id = ?s,
      rg_pending_seq = uint (ae_aggregate_seq ev), rg_receipt_seq = None, rg_completed_seq = None\<rparr>)"
    by simp_all
  show b by (rule w(1))
  show "event_of_run c kind (record_text X (PendingRec ?s d)) L ev L'" by (rule w(2))
  show k: "kind_str (ae_kind ev) = kind" using w(2) by (simp add: event_of_run_def)
  show dec: "decode_record X ev = Inr (PendingRec ?s d)"
    using decode_written(1) [OF assms(2), of "PendingRec ?s d" ev] w(2) by (simp add: event_of_run_def)
  have "done_ids ?es = done_ids (cx_steps c)" using assms(6) by (auto simp: done_ids_def)
  moreover have "?s \<notin> done_ids (cx_steps c)" using none by (auto simp: find_entry_None done_ids_def)
  ultimately have pair: "pair_step X ev (cx_steps c, done_ids (cx_steps c)) = Inr (?es, done_ids ?es)"
    using dec k none assms(6) by (simp add: pair_step_def)
  have ids: "map se_step_id ?es = map (step_id c) [0..<length ?es]"
    using assms(3,4,6) by (simp add: engine_inv_def step_id_at_cursor)
  have find: "find_entry t ?es = (if t = ?s then Some entry else find_entry t (cx_steps c))" for t
    using none assms(6) by (auto simp: find_entry_def find_append split: option.splits)
  have "registered (cx_run_id c) ?es L'"
    unfolding registered_def find w(3) using reg assms(6) by (simp add: same_progress_def)
  moreover have "ordered (length (run_events (cx_run_id c) L')) ?es"
  proof -
    have n: "uint (ae_aggregate_seq ev) = int (length (run_events (cx_run_id c) L)) + 1"
      and l: "length (run_events (cx_run_id c) L') = Suc (length (run_events (cx_run_id c) L))"
      using w(2) run_events_snoc by (auto simp: event_of_run_def)
    have o: "ordered (length (run_events (cx_run_id c) L)) (cx_steps c)" using assms(3) by (simp add: engine_inv_def)
    then have "\<forall>q\<in>set (map se_pending_seq (cx_steps c)). q < ae_aggregate_seq ev"
      using n unfolding ordered_def word_less_def by fastforce
    with o n l assms(6) show ?thesis by (force simp: ordered_def sorted_wrt_append)
  qed
  ultimately have "engine_inv X (c\<lparr>cx_steps := ?es, cx_cursor := Suc (cx_cursor c)\<rparr>) L'"
    using assms(4) w(2) by (intro inv_append [OF assms(3) run _ _ pair ids]) (simp_all add: event_of_run_def)
  then show "engine_inv X (advance_cursor (c\<lparr>cx_steps := ?es\<rparr>)) L'" by (simp add: advance_cursor_def)
qed

lemma begin_step_inv:
  assumes "wf_ext X" "wf_serde X" "engine_inv X c L"
    and "begin_step_raw X from_value kind inputs fresh now c L = (r, c', L')"
  shows "engine_inv X c' L'"
proof (cases "cx_cursor c < length (cx_steps c)")
  case True
  have "find_entry (step_id_at c) (cx_steps c) = Some (cx_steps c ! cx_cursor c)"
    using step_at(2) [OF assms(3) True] by (simp add: step_id_at_cursor)
  with assms(3,4) True inv_cursor [OF assms(3), of "Suc (cx_cursor c)"] show ?thesis
    by (auto simp: begin_step_raw_def Let_def advance_cursor_def split: if_splits)
next
  case False
  then have k: "cx_cursor c = length (cx_steps c)" using assms(3) by (simp add: engine_inv_def)
  have none: "find_entry (step_id_at c) (cx_steps c) = None"
    using step_beyond [OF assms(3), of "cx_cursor c"] k by (simp add: step_id_at_cursor)
  show ?thesis
  proof (cases "append_workflow_step_if_absent X (cx_run_id c) kind
      (record_text X (PendingRec (step_id_at c) (digest_inputs X inputs))) (step_id_at c) fresh now L")
    case (Pair res L1)
    show ?thesis
    proof (cases res)
      case (Inl err)
      then have "L1 = L" using Pair tx_error [OF append_workflow_step_if_absent_def] by blast
      then show ?thesis using assms(3,4) k none Pair Inl by (auto simp: begin_step_raw_def)
    next
      case (Inr q)
      obtain ev b where "q = (ev, b)" by (cases q)
      with Pair Inr have op: "append_workflow_step_if_absent X (cx_run_id c) kind
        (record_text X (PendingRec (step_id_at c) (digest_inputs X inputs))) (step_id_at c) fresh now L = (Inr (ev, b), L1)"
        by simp
      note f = begin_fresh_inv [OF assms(1-3) k op refl]
      from assms(4) k none op f show ?thesis by (auto simp: begin_step_raw_def Let_def)
    qed
  qed
qed

lemma handle_entry:
  assumes "distinct (map se_step_id (cx_steps c))" "e \<in> set (cx_steps c)"
  shows "entry_of_handle c (handle_of e) = Inr e"
proof -
  let ?P = "\<lambda>q. se_step_id q = sh_step_id (handle_of e) \<and> se_pending_seq q = sh_pending_seq (handle_of e)"
  have "?P e" by (simp add: handle_of_def)
  then obtain q where q: "find ?P (cx_steps c) = Some q" using find_exists [OF assms(2), of ?P] by auto
  then have "q \<in> set (cx_steps c)" "se_step_id q = se_step_id e"
    using find_hit [OF q] by (simp_all add: handle_of_def)
  then have "q = e" using assms by (simp add: distinct_map inj_on_def)
  with q show ?thesis by (simp add: entry_of_handle_def)
qed

text \<open>A step that is not replayed is open: its handle resolves to an entry without an outcome.\<close>

definition open_handle :: "workflow_ctx \<Rightarrow> step_handle \<Rightarrow> string \<Rightarrow> string \<Rightarrow> bool" where
  "open_handle c h kind d \<longleftrightarrow> (\<exists>e. entry_of_handle c h = Inr e \<and> find_entry (sh_step_id h) (cx_steps c) = Some e \<and>
     se_completed e = None \<and> se_kind e = kind \<and> se_input_digest e = d)"

lemma begin_opens:
  assumes "wf_ext X" "wf_serde X" "engine_inv X c L"
    and "begin_step_raw X from_value kind inputs fresh now c L = (Inr st, c', L')"
    and "st = Fresh h key \<or> st = Resuming h key"
  shows "open_handle c' h kind (digest_inputs X inputs)"
proof -
  have inv: "engine_inv X c' L'" by (rule begin_step_inv [OF assms(1-4)])
  have "\<exists>e\<in>set (cx_steps c'). h = handle_of e \<and> se_completed e = None \<and> se_kind e = kind \<and>
      se_input_digest e = digest_inputs X inputs"
  proof (cases "cx_cursor c < length (cx_steps c)")
    case True
    have "find_entry (step_id_at c) (cx_steps c) = Some (cx_steps c ! cx_cursor c)"
      using step_at(2) [OF assms(3) True] by (simp add: step_id_at_cursor)
    with assms(4,5) True show ?thesis
      by (intro bexI [of _ "cx_steps c ! cx_cursor c"])
        (auto simp: begin_step_raw_def Let_def advance_cursor_def resume_entry_def split: if_splits option.splits outcome.splits)
  next
    case False
    then have k: "cx_cursor c = length (cx_steps c)" using assms(3) by (simp add: engine_inv_def)
    have none: "find_entry (step_id_at c) (cx_steps c) = None"
      using step_beyond [OF assms(3), of "cx_cursor c"] k by (simp add: step_id_at_cursor)
    from assms(4,5) k none show ?thesis
      by (auto simp: begin_step_raw_def Let_def advance_cursor_def
          split: prod.splits sum.splits step_record.splits if_splits)
  qed
  then obtain e where e: "e \<in> set (cx_steps c')" "h = handle_of e" "se_completed e = None" "se_kind e = kind"
    "se_input_digest e = digest_inputs X inputs" by blast
  with handle_entry [OF inv_distinct [OF inv] e(1)] find_entry_mem [OF inv_distinct [OF inv] e(1)]
  show ?thesis unfolding open_handle_def by (simp add: handle_of_def)
qed

lemma timer_completion_decodes:
  assumes "wf_serde X" "wf_parsers X P"
    and "ae_payload_json ev = Some (canonical_json X (timer_completion_json X s d i t))"
  shows "decode_record X ev = Inr (CompletedRec s d (OutcomeOk (canonical (timer_spec_json X i t))))"
    "timer_spec_of P (canonical (timer_spec_json X i t)) = Some \<lparr>tsp_timer_id = i, tsp_fires_at = t\<rparr>"
    "canonical (timer_spec_value X \<lparr>tsp_timer_id = i, tsp_fires_at = t\<rparr>) = canonical (timer_spec_json X i t)"
proof -
  let ?v = "timer_completion_json X s d i t"
  have "wf_json ?v" "plain_json ?v" by (simp_all add: timer_completion_json_def timer_spec_json_def)
  then have "json_parse X (canonical_json X ?v) = Some (canonical ?v)" by (rule parse_canonical [OF assms(1)])
  moreover have "step_record_of (canonical ?v) = Some (CompletedRec s d (OutcomeOk (canonical (timer_spec_json X i t))))"
    by (simp add: timer_completion_json_def step_record_of_def json_str_canonical json_get_canonical
        sort_entries_def del: canonical.simps(6)) (simp add: sort_entries_def)
  ultimately show "decode_record X ev = Inr (CompletedRec s d (OutcomeOk (canonical (timer_spec_json X i t))))"
    by (simp add: decode_record_def assms(3))
  show "timer_spec_of P (canonical (timer_spec_json X i t)) = Some \<lparr>tsp_timer_id = i, tsp_fires_at = t\<rparr>"
    using assms(2) by (simp add: timer_spec_of_def timer_spec_json_def json_str_canonical json_get_canonical
        timestamp_of_def wf_parsers_def del: canonical.simps(6))
  show "canonical (timer_spec_value X \<lparr>tsp_timer_id = i, tsp_fires_at = t\<rparr>) = canonical (timer_spec_json X i t)"
    by (simp only: timer_spec_value_def timer_spec_json_def timer_spec.select_convs)
qed

lemma register_timer_inv:
  assumes "wf_ext X" "wf_serde X" "wf_parsers X P" "engine_inv X c L"
    and "open_handle c h ''workflow.timer_scheduled'' d"
    and "register_timer X P h fires_at timer fresh now c L = (r, c', L')"
  shows "engine_inv X c' L'"
proof -
  let ?k = "''workflow.timer_scheduled''"
  obtain e where e: "entry_of_handle c h = Inr e" "find_entry (sh_step_id h) (cx_steps c) = Some e"
    "se_completed e = None" "se_kind e = ?k" "se_input_digest e = d"
    using assms(5) by (auto simp: open_handle_def)
  show ?thesis
  proof (cases "schedule_workflow_timer_step X (cx_run_id c) (sh_step_id h) (sh_pending_seq h) ?k d fires_at timer fresh now L")
    case (Pair res L1)
    show ?thesis
    proof (cases res)
      case (Inl err)
      then have "L1 = L" using Pair tx_error [OF schedule_workflow_timer_step_def] by blast
      then show ?thesis using assms(4,6) e Pair Inl by (auto simp: register_timer_def)
    next
      case (Inr q)
      obtain ev b where "q = (ev, b)" by (cases q)
      with Pair Inr have op: "schedule_workflow_timer_step X (cx_run_id c) (sh_step_id h) (sh_pending_seq h) ?k d
        fires_at timer fresh now L = (Inr (ev, b), L1)" by simp
      obtain g where g: "step_map L (cx_run_id c, sh_step_id h) = Some g" "same_progress e g"
        by (rule entry_registered [OF assms(4) e(2)])
      have run: "ledger_run X L1"
        using assms(4) op run_step [OF _ step_schedule] by (metis engine_inv_def snd_conv)
      from op show ?thesis
      proof (cases rule: schedule_write)
        case (found g' n)
        then show ?thesis using g e(3) by (simp add: same_progress_def)
      next
        case (written L3 g')
        then have g': "g' = g" using g(1) by simp
        note ev = written_event_of_run [OF assms(1,4) written(5,4)]
        then have "ae_payload_json ev = Some (canonical_json X
            (timer_completion_json X (sh_step_id h) d (ulid_text X timer) fires_at))"
          by (simp add: event_of_run_def)
        note dec = timer_completion_decodes [OF assms(2,3) this]
        have "engine_inv X (c\<lparr>cx_steps := set_entry (sh_step_id h)
            (\<lambda>e. e\<lparr>se_completed := Some (OutcomeOk (canonical (timer_spec_json X (ulid_text X timer) fires_at)))\<rparr>)
            (cx_steps c)\<rparr>) L1"
          by (rule completion_inv [OF assms(1,2,4) e(2,3) _ run g(2)])
            (use ev written(6) dec(1) e(4,5) g' in simp_all)
        with assms(6) e op dec show ?thesis
          by (auto simp: register_timer_def set_handle_entry_eq [OF inv_distinct [OF assms(4)] e(1)])
      qed
    qed
  qed
qed

lemma schedule_timer_inv:
  assumes "wf_ext X" "wf_serde X" "wf_parsers X P" "engine_inv X c L"
    and "schedule_timer X P fires_at timer fresh1 fresh2 now1 now2 c L = (r, c', L')"
  shows "engine_inv X c' L'"
proof -
  let ?k = "''workflow.timer_scheduled''"
  have k: "\<not> is_reserved_kind ?k"
    by (simp add: is_reserved_kind_def LEGACY_APPROVAL_STEP_KIND_def APPROVAL_STEP_KIND_def
        TRANSITION_STEP_KIND_def ENTRY_BINDING_STEP_KIND_def DEFINITION_STEP_KIND_def)
  obtain res c1 L1 where op: "begin_step_raw X (timer_spec_of P) ?k (timestamp_value X fires_at) fresh1 now1 c L =
      (res, c1, L1)" by (metis prod_cases3)
  have inv: "engine_inv X c1 L1" by (rule begin_step_inv [OF assms(1,2,4) op])
  have register: "engine_inv X c' L'"
    if "res = Inr (Fresh h key) \<or> res = Inr (Resuming h key)" "register_timer X P h fires_at timer fresh2 now2 c1 L1 = (r, c', L')"
    for h key
    using register_timer_inv [OF assms(1-3) inv begin_opens [OF assms(1,2,4)]] op that by blast
  from assms(5) k op inv register show ?thesis
    by (auto simp: schedule_timer_def begin_step_def split: sum.splits step_state.splits)
qed

section \<open>Runs of the engine\<close>

text \<open>
  One context drives a run, and other writers leave the run's aggregate and registry rows alone.
  The payloads of the steps are JSON values; a step with another payload type has the same effect
  (\<open>begin_payload\<close>, \<open>complete_payload\<close>).
\<close>

inductive engine_run ::
  "ext \<Rightarrow> text_parsers \<Rightarrow> string \<Rightarrow> string \<Rightarrow> string \<Rightarrow> workflow_ctx \<Rightarrow> ledger \<Rightarrow> bool"
  for X P run_id d v where
  run_start: "ledger_run X L \<Longrightarrow> run_events run_id L = [] \<Longrightarrow> \<forall>s. step_map L (run_id, s) = None \<Longrightarrow>
    new_with_definition X run_id d v L = Inr c \<Longrightarrow> engine_run X P run_id d v c L"
| run_begin: "engine_run X P run_id d v c L \<Longrightarrow>
    begin_step_raw X (from_value :: json \<Rightarrow> json option) kind inputs fresh now c L = (r, c', L') \<Longrightarrow>
    engine_run X P run_id d v c' L'"
| run_receipt: "engine_run X P run_id d v c L \<Longrightarrow> digest_is_valid (digest_str (ar_digest a)) \<Longrightarrow>
    record_receipt X h a fresh now c L = (u, c', L') \<Longrightarrow> engine_run X P run_id d v c' L'"
| run_complete: "engine_run X P run_id d v c L \<Longrightarrow> wf_outcome (outcome_value id result) \<Longrightarrow>
    complete_step X id h result fresh now c L = (u, c', L') \<Longrightarrow> engine_run X P run_id d v c' L'"
| run_timer: "engine_run X P run_id d v c L \<Longrightarrow>
    schedule_timer X P fires_at timer fresh1 fresh2 now1 now2 c L = (t, c', L') \<Longrightarrow>
    engine_run X P run_id d v c' L'"
| run_resume: "engine_run X P run_id d v c L \<Longrightarrow> engine_run X P run_id d v (resume_after_completed_steps c) L"
| run_restart: "engine_run X P run_id d v c L \<Longrightarrow> new_with_definition X run_id d v L = Inr c' \<Longrightarrow>
    engine_run X P run_id d v c' L"
| run_other: "engine_run X P run_id d v c L \<Longrightarrow> ledger_step X L L' \<Longrightarrow>
    run_events run_id L' = run_events run_id L \<Longrightarrow> \<forall>s. step_map L' (run_id, s) = step_map L (run_id, s) \<Longrightarrow>
    engine_run X P run_id d v c L'"

lemma begin_payload:
  "snd (begin_step_raw X from_value kind inputs fresh now c L) =
     snd (begin_step_raw X from_value' kind inputs fresh now c L)"
  by (simp add: begin_step_raw_def Let_def split: option.split prod.split sum.split step_record.split)

lemma complete_payload:
  "complete_step X to_value h (Inr x) = complete_step X id h (Inr (to_value x))"
  "complete_step X to_value h (Inl m) = complete_step X to_value' h (Inl m)"
  by (simp_all only: fun_eq_iff complete_step_def outcome_value.simps id_apply simp_thms)

lemma gap_free_sequence:
  "map (uint \<circ> ae_aggregate_seq) es = map int [Suc i..<Suc i + length es] \<Longrightarrow> check_sequence i es = None"
proof (induction es arbitrary: i)
  case (Cons e es)
  have l: "map int [Suc i..<Suc i + length (e # es)] = int (Suc i) # map int [Suc (Suc i)..<Suc (Suc i) + length es]"
    by (simp add: upt_conv_Cons del: upt_Suc)
  then have "uint (ae_aggregate_seq e) = int (Suc i)" using Cons.prems by simp
  then have "ae_aggregate_seq e = word_of_int (int (Suc i))" by (metis word_of_int_uint)
  then have "ae_aggregate_seq e = word_of_nat i + 1" by (simp add: add.commute)
  moreover have "check_sequence (Suc i) es = None" using Cons.IH Cons.prems l by simp
  ultimately show ?case by simp
qed simp

lemma ordered_sorted: "ordered n es \<Longrightarrow> sort_key se_pending_seq es = es"
  unfolding ordered_def by (intro sort_key_id_if_sorted strict_sorted_imp_sorted) (simp add: strict_sorted_iff sorted_wrt_map)

lemma run_new:
  assumes "wf_ext X" "wf_serde X" "ledger_run X L"
    and "CHR '':'' \<notin> set run_id" "CHR '':'' \<notin> set d" "CHR '':'' \<notin> set v"
  shows "new_with_definition X run_id d v L = (case pair_steps X (run_events run_id L) of
    Inl err \<Rightarrow> Inl err | Inr es \<Rightarrow> Inr \<lparr>cx_run_id = run_id, cx_definition_id = d,
      cx_definition_version = v, cx_steps = es, cx_cursor = 0\<rparr>)"
proof -
  have "verify_and_replay_aggregate X (''workflow_run:'' @ run_id) L = Inr (run_events run_id L)"
    using run_replay_aggregate [OF assms(1-3)] by (simp add: run_events_def)
  moreover have "check_sequence 0 (run_events run_id L) = None"
    using ledger_run_rows(2) [OF assms(1,3)]
    by (intro gap_free_sequence) (simp add: events_ok_def gap_free_def run_events_def del: upt_Suc)
  ultimately show ?thesis using assms(4-6) by (simp add: new_with_definition_def split: sum.split)
qed

lemma rehydrates:
  assumes "wf_ext X" "wf_serde X" "engine_inv X c L" "CHR '':'' \<notin> set (cx_run_id c)"
    and "CHR '':'' \<notin> set (cx_definition_id c)" "CHR '':'' \<notin> set (cx_definition_version c)"
  shows "new_with_definition X (cx_run_id c) (cx_definition_id c) (cx_definition_version c) L = Inr (c\<lparr>cx_cursor := 0\<rparr>)"
proof -
  have "ledger_run X L" "pair_rows X (run_events (cx_run_id c) L) ([], {}) = Inr (cx_steps c, done_ids (cx_steps c))"
    "sort_key se_pending_seq (cx_steps c) = cx_steps c"
    using assms(3) ordered_sorted by (auto simp: engine_inv_def)
  then show ?thesis
    using run_new [OF assms(1,2) _ assms(4-6)] by (cases c) (simp add: pair_steps_def)
qed

lemma new_fields:
  "new_with_definition X run_id d v L = Inr c \<Longrightarrow> cx_run_id c = run_id \<and> cx_definition_id c = d \<and>
     cx_definition_version c = v \<and> CHR '':'' \<notin> set run_id \<and> CHR '':'' \<notin> set d \<and> CHR '':'' \<notin> set v"
  by (auto simp: new_with_definition_def split: if_splits sum.splits option.splits ledger_error.splits)

lemma op_fields:
  "begin_step_raw X from_value kind inputs fresh now c L = (r, c', L') \<Longrightarrow> cx_run_id c' = cx_run_id c \<and>
     cx_definition_id c' = cx_definition_id c \<and> cx_definition_version c' = cx_definition_version c"
  "record_receipt X h a fresh now c L = (u, c', L') \<Longrightarrow> cx_run_id c' = cx_run_id c \<and>
     cx_definition_id c' = cx_definition_id c \<and> cx_definition_version c' = cx_definition_version c"
  "complete_step X to_value h result fresh now c L = (u, c', L') \<Longrightarrow> cx_run_id c' = cx_run_id c \<and>
     cx_definition_id c' = cx_definition_id c \<and> cx_definition_version c' = cx_definition_version c"
  "register_timer X P h fires_at timer fresh now c L = (t, c', L') \<Longrightarrow> cx_run_id c' = cx_run_id c \<and>
     cx_definition_id c' = cx_definition_id c \<and> cx_definition_version c' = cx_definition_version c"
  by (auto simp: begin_step_raw_def record_receipt_def complete_step_def register_timer_def Let_def
      advance_cursor_def set_handle_entry_def
      split: if_splits sum.splits option.splits prod.splits step_record.splits outcome.splits)

lemma schedule_timer_fields:
  assumes "schedule_timer X P fires_at timer fresh1 fresh2 now1 now2 c L = (t, c', L')"
  shows "cx_run_id c' = cx_run_id c \<and> cx_definition_id c' = cx_definition_id c \<and>
    cx_definition_version c' = cx_definition_version c"
proof -
  let ?b = "begin_step_raw X (timer_spec_of P) ''workflow.timer_scheduled'' (timestamp_value X fires_at) fresh1 now1 c L"
  obtain res c1 L1 where op: "?b = (res, c1, L1)" by (metis prod_cases3)
  from assms op op_fields(1) [OF op] op_fields(4) [of X P _ fires_at timer fresh2 now2 c1 L1 t c' L'] show ?thesis
    by (auto simp: schedule_timer_def begin_step_def split: if_splits sum.splits step_state.splits)
qed

definition names_of :: "workflow_ctx \<Rightarrow> string \<times> string \<times> string" where
  "names_of c = (cx_run_id c, cx_definition_id c, cx_definition_version c)"

lemma engine_run_inv:
  assumes "engine_run X P run_id d v c L" "wf_ext X" "wf_serde X" "wf_parsers X P"
  shows "engine_inv X c L \<and> names_of c = (run_id, d, v) \<and>
    CHR '':'' \<notin> set run_id \<and> CHR '':'' \<notin> set d \<and> CHR '':'' \<notin> set v"
  using assms(1)
proof (induction rule: engine_run.induct)
  case (run_start L c)
  note n = new_fields [OF run_start(4)]
  then have "c = \<lparr>cx_run_id = run_id, cx_definition_id = d, cx_definition_version = v, cx_steps = [], cx_cursor = 0\<rparr>"
    using run_new [OF assms(2,3) run_start(1)] run_start(2,4) by (simp add: pair_steps_def)
  with n run_start(1-3) show ?case
    by (simp add: engine_inv_def names_of_def registered_def find_entry_def ordered_def done_ids_def)
next
  case (run_begin c L from_value kind inputs fresh now r c' L')
  then show ?case using begin_step_inv [OF assms(2,3) _ run_begin(2)] op_fields(1) [OF run_begin(2)] by (simp add: names_of_def)
next
  case (run_receipt c L a h fresh now u c' L')
  then show ?case
    using record_receipt_inv [OF assms(2,3) _ run_receipt(2,3)] op_fields(2) [OF run_receipt(3)] by (simp add: names_of_def)
next
  case (run_complete c L result h fresh now u c' L')
  then show ?case
    using complete_step_inv [OF assms(2,3) _ run_complete(2,3)] op_fields(3) [OF run_complete(3)] by (simp add: names_of_def)
next
  case (run_timer c L fires_at timer fresh1 fresh2 now1 now2 t c' L')
  then show ?case
    using schedule_timer_inv [OF assms(2-4) _ run_timer(2)] schedule_timer_fields [OF run_timer(2)]
    by (simp add: names_of_def)
next
  case (run_resume c L)
  then show ?case
    using inv_cursor [of X c L "length (takeWhile (\<lambda>e. se_completed e \<noteq> None) (cx_steps c))"]
    by (simp add: resume_after_completed_steps_def names_of_def length_takeWhile_le)
next
  case (run_restart c L c')
  then have "c' = c\<lparr>cx_cursor := 0\<rparr>" using rehydrates [OF assms(2,3), of c L] by (simp add: names_of_def)
  with run_restart.IH show ?case using inv_cursor [of X c L 0] by (simp add: names_of_def)
next
  case (run_other c L L')
  then have "ledger_run X L'" "cx_run_id c = run_id" using run_step by (auto simp: engine_inv_def names_of_def)
  with run_other show ?case by (simp add: engine_inv_def registered_def)
qed

section \<open>Steps that succeed\<close>

definition roomy :: "ext \<Rightarrow> ulid \<Rightarrow> ledger \<Rightarrow> bool" where
  "roomy X fresh L \<longleftrightarrow> ulid_text X fresh \<notin> lr_id ` set (lg_rows L) \<and> int (length (ledger_events L)) + 1 < 2 ^ 63"

lemma begin_accepted:
  assumes "wf_ext X" "wf_serde X" "engine_inv X c L" "cx_cursor c = length (cx_steps c)" "kind \<noteq> []" "roomy X fresh L"
  shows "\<exists>e L'. begin_step_raw X from_value kind inputs fresh now c L =
      (Inr (Fresh (handle_of e) (cx_run_id c @ '':'' @ step_id_at c)), advance_cursor (c\<lparr>cx_steps := cx_steps c @ [e]\<rparr>), L') \<and>
    se_step_id e = step_id_at c \<and> se_kind e = kind \<and> se_input_digest e = digest_inputs X inputs \<and>
    se_receipt e = None \<and> se_completed e = None \<and>
    (\<exists>ev. ledger_events L' = ledger_events L @ [ev] \<and> ae_id ev = fresh)"
proof -
  let ?s = "step_id_at c" and ?d = "digest_inputs X inputs"
  have none: "find_entry ?s (cx_steps c) = None"
    using step_beyond [OF assms(3), of "cx_cursor c"] assms(4) by (simp add: step_id_at_cursor)
  have "rel_option same_progress (find_entry ?s (cx_steps c)) (step_map L (cx_run_id c, ?s))"
    using assms(3) by (simp add: engine_inv_def registered_def)
  then have "step_map L (cx_run_id c, ?s) = None"
    using none by (cases "step_map L (cx_run_id c, ?s)") simp_all
  moreover have "ledger_run X L" using assms(3) by (simp add: engine_inv_def)
  ultimately obtain ev L' where op: "append_workflow_step_if_absent X (cx_run_id c) kind
      (record_text X (PendingRec ?s ?d)) ?s fresh now L = (Inr (ev, True), L')"
    "ledger_events L' = ledger_events L @ [ev]" "ae_id ev = fresh"
    using pending_accepted [OF assms(1), of L "cx_run_id c" ?s kind fresh "record_text X (PendingRec ?s ?d)" now] assms(5,6)
    by (auto simp: roomy_def)
  note f = begin_fresh_inv [OF assms(1-4) op(1) refl]
  let ?e = "\<lparr>se_step_id = ?s, se_kind = kind, se_input_digest = ?d, se_pending_seq = ae_aggregate_seq ev,
    se_receipt = None, se_completed = None\<rparr>"
  have "begin_step_raw X from_value kind inputs fresh now c L =
      (Inr (Fresh (handle_of ?e) (cx_run_id c @ '':'' @ ?s)), advance_cursor (c\<lparr>cx_steps := cx_steps c @ [?e]\<rparr>), L')"
    using assms(4) none op(1) f(2,3) by (simp add: begin_step_raw_def Let_def)
  with op(2,3) show ?thesis by (intro exI [of _ ?e] exI [of _ L']) simp
qed

lemma complete_accepted:
  assumes "wf_ext X" "wf_serde X" "engine_inv X c L" "entry_of_handle c h = Inr e" "se_completed e = None"
    and "se_kind e \<noteq> []" "se_receipt e = None" "roomy X fresh L" "wf_outcome (outcome_value to_value result)"
  shows "\<exists>L'. complete_step X to_value h result fresh now c L =
      (Inr (), set_handle_entry h (\<lambda>e. e\<lparr>se_completed := Some (outcome_value to_value result)\<rparr>) c, L') \<and>
    (\<exists>ev. ledger_events L' = ledger_events L @ [ev] \<and> ae_id ev = fresh)"
proof -
  let ?out = "outcome_value to_value result"
  let ?rec = "CompletedRec (sh_step_id h) (se_input_digest e) ?out"
  have e: "find_entry (sh_step_id h) (cx_steps c) = Some e"
    using find_entry_mem [OF inv_distinct [OF assms(3)]] entry_of_handle_Inr [OF assms(4)] by metis
  obtain g where g: "step_map L (cx_run_id c, sh_step_id h) = Some g" "same_progress e g"
    by (rule entry_registered [OF assms(3) e])
  then have n: "rg_completed_seq g = None" using assms(5) by (simp add: same_progress_def)
  have "ledger_run X L" using assms(3) by (simp add: engine_inv_def)
  from completion_accepted [OF assms(1) this g(1) n assms(6), of fresh "record_text X ?rec" now] assms(8)
  obtain ev L' where op: "append_workflow_completion X (cx_run_id c) (se_kind e) (record_text X ?rec) (sh_step_id h)
      fresh now L = (Inr (ev, True), L')" "ledger_events L' = ledger_events L @ [ev]" "ae_id ev = fresh"
    by (auto simp: roomy_def)
  obtain g' n' where "event_of_run c (se_kind e) (record_text X ?rec) L ev L'"
    by (rule completion_event [OF assms(1,3) e assms(5) op(1)])
  then have "canonical_record X seq ev = Inr ?rec" for seq
    using decode_written(2) [OF assms(2), of ?rec ev] assms(9) by (simp add: event_of_run_def)
  with assms(4,5,7) op show ?thesis by (simp add: complete_step_def Let_def)
qed

section \<open>Properties\<close>

text \<open>
  C11. Replay is faithful. After any sequence of begun, receipted and completed steps, timers,
  failures, restarts and unrelated writes, rehydrating the run from the ledger returns the
  context the engine has in memory, rewound to its first step; and driving the rehydrated
  context through a completed step again, with the same kind and inputs, returns the recorded
  outcome and writes nothing.
\<close>

theorem workflow_replay_faithful:
  assumes "wf_ext X" "wf_serde X" "wf_parsers X P" "engine_run X P run_id d v c L"
  shows "new_with_definition X run_id d v L = Inr (c\<lparr>cx_cursor := 0\<rparr>) \<and>
    (\<forall>k out from_value inputs fresh now. k < length (cx_steps c) \<and> se_completed (cx_steps c ! k) = Some out \<and>
       digest_inputs X inputs = se_input_digest (cx_steps c ! k) \<longrightarrow>
       begin_step_raw X (from_value :: json \<Rightarrow> 'a option) (se_kind (cx_steps c ! k)) inputs fresh now (c\<lparr>cx_cursor := k\<rparr>) L =
         ((case out of
             OutcomeErr m \<Rightarrow> Inr (Replayed (handle_of (cx_steps c ! k)) (Inl m))
           | OutcomeOk w \<Rightarrow> (case from_value w of
               None \<Rightarrow> Inl (WfMalformedRecord (se_pending_seq (cx_steps c ! k)))
             | Some x \<Rightarrow> Inr (Replayed (handle_of (cx_steps c ! k)) (Inr x)))), c\<lparr>cx_cursor := Suc k\<rparr>, L))"
proof -
  note i = engine_run_inv [OF assms(4,1-3)]
  then have "new_with_definition X run_id d v L = Inr (c\<lparr>cx_cursor := 0\<rparr>)"
    using rehydrates [OF assms(1,2), of c L] by (simp add: names_of_def)
  moreover have "find_entry (step_id_at (c\<lparr>cx_cursor := k\<rparr>)) (cx_steps c) = Some (cx_steps c ! k)"
    if "k < length (cx_steps c)" for k
    using step_at(2) [of X c L k] i that by (simp add: step_id_at_cursor step_id_cong [of "c\<lparr>cx_cursor := k\<rparr>" c])
  ultimately show ?thesis
    by (auto simp: begin_step_raw_def Let_def advance_cursor_def resume_entry_def split: outcome.split)
qed

section \<open>Witness\<close>

definition ex_run_ext :: ext where
  "ex_run_ext = ex_serde_ext\<lparr>ts_text := (\<lambda>t. replicate (to_nat t) (CHR ''t''))\<rparr>"

definition ex_parsers :: text_parsers where
  "ex_parsers = \<lparr>ulid_parse = (\<lambda>s. Some (word_of_nat (length s - 1))), ts_parse = (\<lambda>s. Some (from_nat (length s)))\<rparr>"

lemma wf_ex_run: "wf_ext ex_run_ext" "wf_serde ex_run_ext" "wf_parsers ex_run_ext ex_parsers"
proof -
  have f: "sha256 ex_run_ext = sha256 ex_serde_ext" "hmac ex_run_ext = hmac ex_serde_ext"
    "json_text ex_run_ext = json_text ex_serde_ext" "json_parse ex_run_ext = json_parse ex_serde_ext"
    by (simp_all add: ex_run_ext_def)
  show "wf_ext ex_run_ext" using wf_ex_serde(1) unfolding wf_ext_def f .
  show "wf_serde ex_run_ext" using wf_ex_serde(2) unfolding wf_serde_def f .
  have "ulid_text ex_run_ext u = replicate (Suc (unat u)) (CHR ''u'')" for u
    by (simp add: ex_run_ext_def ex_serde_ext_def)
  then show "wf_parsers ex_run_ext ex_parsers" by (simp add: wf_parsers_def ex_parsers_def ex_run_ext_def)
qed

lemma ex_run_text_eq: "ulid_text ex_run_ext u = ulid_text ex_run_ext w \<longleftrightarrow> u = w"
  by (simp add: ex_run_ext_def ex_serde_ext_def replicate_eq_replicate word_unat_eq_iff del: replicate_Suc)

lemma roomyI:
  assumes "ledger_run X L" "wf_ext X" "ulid_text X fresh \<notin> ulid_text X ` ae_id ` set (ledger_events L)"
    "int (length (ledger_events L)) + 1 < 2 ^ 63"
  shows "roomy X fresh L"
proof -
  have "lr_id ` set (lg_rows L) \<subseteq> ulid_text X ` ae_id ` set (ledger_events L)"
    using row_event [OF ledger_run_rows(1) [OF assms(2,1)]] by fastforce
  then show ?thesis using assms(3,4) by (auto simp: roomy_def)
qed

lemma ex_engine_run:
  "\<exists>c L. engine_run ex_run_ext ex_parsers ''run'' ''flow'' ''1'' c L \<and> length (cx_steps c) = 1 \<and>
     se_completed (cx_steps c ! 0) = Some (OutcomeOk (JString ''done'')) \<and> se_kind (cx_steps c ! 0) = ''note'' \<and>
     se_input_digest (cx_steps c ! 0) = digest_inputs ex_run_ext JNull"
proof -
  let ?X = ex_run_ext
  let ?c = "\<lparr>cx_run_id = ''run'', cx_definition_id = ''flow'', cx_definition_version = ''1'', cx_steps = [], cx_cursor = 0\<rparr>"
  have r0: "ledger_run ?X empty_ledger" by (simp add: ledger_run_def)
  have e0: "ledger_events empty_ledger = []" "step_map empty_ledger k = None" "run_events r empty_ledger = []" for k r
    by (simp_all add: empty_ledger_def ledger_events_def step_map_def find_step_def run_events_def in_aggregate_def)
  have "new_with_definition ?X ''run'' ''flow'' ''1'' empty_ledger = Inr ?c"
    using run_new [OF wf_ex_run(1,2) r0] by (simp add: pair_steps_def e0)
  then have start: "engine_run ?X ex_parsers ''run'' ''flow'' ''1'' ?c empty_ledger"
    by (intro run_start [OF r0]) (simp_all add: e0)
  note i0 = engine_run_inv [OF start wf_ex_run]
  have room0: "roomy ?X 1 empty_ledger" by (rule roomyI [OF r0 wf_ex_run(1)]) (simp_all add: e0)
  obtain e L1 ev where b: "begin_step_raw ?X (Some :: json \<Rightarrow> json option) ''note'' JNull 1 100 ?c empty_ledger =
      (Inr (Fresh (handle_of e) (''run:'' @ step_id_at ?c)), advance_cursor (?c\<lparr>cx_steps := [e]\<rparr>), L1)"
    "se_kind e = ''note''" "se_input_digest e = digest_inputs ?X JNull" "se_receipt e = None" "se_completed e = None"
    "ledger_events L1 = [ev]" "ae_id ev = 1"
    using begin_accepted [OF wf_ex_run(1,2) conjunct1 [OF i0] _ _ room0, of "''note''" Some JNull 100] e0 by auto
  let ?c1 = "advance_cursor (?c\<lparr>cx_steps := [e]\<rparr>)"
  have run1: "engine_run ?X ex_parsers ''run'' ''flow'' ''1'' ?c1 L1" by (rule run_begin [OF start b(1)])
  note i1 = conjunct1 [OF engine_run_inv [OF run1 wf_ex_run]]
  have h: "entry_of_handle ?c1 (handle_of e) = Inr e" by (rule handle_entry) (simp_all add: advance_cursor_def)
  have "roomy ?X 2 L1"
    by (rule roomyI [OF _ wf_ex_run(1)]) (use i1 b(6,7) in \<open>simp_all add: engine_inv_def ex_run_text_eq\<close>)
  from complete_accepted [OF wf_ex_run(1,2) i1 h b(5) _ b(4) this, where result = "Inr (JString ''done'')" and to_value = id and now = 110]
  obtain L2 where c: "complete_step ?X id (handle_of e) (Inr (JString ''done'')) 2 110 ?c1 L1 =
      (Inr (), set_handle_entry (handle_of e) (\<lambda>e. e\<lparr>se_completed := Some (OutcomeOk (JString ''done''))\<rparr>) ?c1, L2)"
    using b(2) by auto
  let ?c2 = "set_handle_entry (handle_of e) (\<lambda>e. e\<lparr>se_completed := Some (OutcomeOk (JString ''done''))\<rparr>) ?c1"
  have "engine_run ?X ex_parsers ''run'' ''flow'' ''1'' ?c2 L2" by (rule run_complete [OF run1 _ c]) simp
  moreover have "cx_steps ?c2 = [e\<lparr>se_completed := Some (OutcomeOk (JString ''done''))\<rparr>]"
    by (simp add: set_handle_entry_def advance_cursor_def handle_of_def)
  ultimately show ?thesis using b(2,3) by (intro exI [of _ ?c2] exI [of _ L2]) simp
qed

theorem workflow_replay_faithful_witness:
  "\<exists>c L h. new_with_definition ex_run_ext ''run'' ''flow'' ''1'' L = Inr (c\<lparr>cx_cursor := 0\<rparr>) \<and>
     begin_step_raw ex_run_ext json_as_str ''note'' JNull 5 200 (c\<lparr>cx_cursor := 0\<rparr>) L =
       (Inr (Replayed h (Inr ''done'')), c\<lparr>cx_cursor := 1\<rparr>, L)"
proof -
  obtain c L where r: "engine_run ex_run_ext ex_parsers ''run'' ''flow'' ''1'' c L" "length (cx_steps c) = 1"
    "se_completed (cx_steps c ! 0) = Some (OutcomeOk (JString ''done''))" "se_kind (cx_steps c ! 0) = ''note''"
    "se_input_digest (cx_steps c ! 0) = digest_inputs ex_run_ext JNull"
    using ex_engine_run by blast
  note t = workflow_replay_faithful [OF wf_ex_run r(1)]
  from t [THEN conjunct2, rule_format, of 0 "OutcomeOk (JString ''done'')" JNull json_as_str 5 200] r
  have "begin_step_raw ex_run_ext json_as_str ''note'' JNull 5 200 (c\<lparr>cx_cursor := 0\<rparr>) L =
      (Inr (Replayed (handle_of (cx_steps c ! 0)) (Inr ''done'')), c\<lparr>cx_cursor := 1\<rparr>, L)" by simp
  with conjunct1 [OF t] show ?thesis by blast
qed

end
