(* ===== verification/Workflow_Machine.thy ===== *)
theory Workflow_Machine
  imports Workflow_Replay
begin

text \<open>
  Declarative workflow state machines over the durable engine
  (\<open>src/crates/openspine-kernel/src/workflow_state_machine.rs\<close>, and in \<open>workflow.rs\<close> the typed step
  adapters and the validation of a replay).

  The tables of action requests and approvals (\<open>store/gate_support.rs\<close>) are read only here and
  kept decoded. Every operation that writes takes the identifiers and the clock readings it draws
  as arguments. Texts interpolated into an error message are left out of it.
\<close>

section \<open>Payloads of the reserved steps\<close>

record entry_binding =
  eb_target_state :: string
  eb_request_id :: string
  eb_action :: string
  eb_payload_digest :: digest
  eb_target_digest :: digest

definition entry_binding_value :: "entry_binding \<Rightarrow> json" where
  "entry_binding_value b = JObject
     [(''target_state'', JString (eb_target_state b)), (''request_id'', JString (eb_request_id b)),
      (''action'', JString (eb_action b)), (''payload_digest'', JString (digest_str (eb_payload_digest b))),
      (''target_digest'', JString (digest_str (eb_target_digest b)))]"

definition entry_binding_of :: "json \<Rightarrow> entry_binding option" where
  "entry_binding_of v =
     (case (json_str ''target_state'' v, json_str ''request_id'' v, json_str ''action'' v,
            Option.bind (json_get ''payload_digest'' v) digest_of_value,
            Option.bind (json_get ''target_digest'' v) digest_of_value) of
        (Some t, Some r, Some a, Some p, Some g) \<Rightarrow>
          Some \<lparr>eb_target_state = t, eb_request_id = r, eb_action = a, eb_payload_digest = p,
            eb_target_digest = g\<rparr>
      | _ \<Rightarrow> None)"

definition transition_value :: "string \<Rightarrow> json" where
  "transition_value target = JObject [(''target'', JString target)]"

definition transition_of :: "json \<Rightarrow> string option" where
  "transition_of v = json_str ''target'' v"

definition digest_value :: "digest \<Rightarrow> json" where
  "digest_value d = JString (digest_str d)"

definition transition_inputs :: "string \<Rightarrow> string \<Rightarrow> json" where
  "transition_inputs from target = JObject [(''from'', JString from), (''to'', JString target)]"

definition entry_inputs :: "string \<Rightarrow> entry_binding \<Rightarrow> json" where
  "entry_inputs from b = JObject [(''from'', JString from), (''binding'', entry_binding_value b)]"

definition departure_inputs :: "string \<Rightarrow> string \<Rightarrow> entry_binding \<Rightarrow> json" where
  "departure_inputs from target b = JObject
     [(''from'', JString from), (''to'', JString target), (''request_id'', JString (eb_request_id b)),
      (''action'', JString (eb_action b)), (''payload_digest'', JString (digest_str (eb_payload_digest b))),
      (''target_digest'', JString (digest_str (eb_target_digest b)))]"

definition approval_inputs :: "string \<Rightarrow> digest \<Rightarrow> digest \<Rightarrow> json" where
  "approval_inputs action target payload = JObject
     [(''action'', JString action), (''target_digest'', JString (digest_str target)),
      (''payload_digest'', JString (digest_str payload))]"

section \<open>Requests and approvals\<close>

record approval_tables =
  at_requests :: "action_request list"
  at_approvals :: "approval_record list"

definition find_action_request :: "approval_tables \<Rightarrow> ulid \<Rightarrow> action_request option" where
  "find_action_request T i = find (\<lambda>q. rq_id q = i) (at_requests T)"

text \<open>\<open>ORDER BY rowid DESC LIMIT 1\<close>.\<close>

definition find_approval_for_request :: "approval_tables \<Rightarrow> ulid \<Rightarrow> approval_record option" where
  "find_approval_for_request T i = find (\<lambda>a. ap_action_request_id a = i) (rev (at_approvals T))"

section \<open>Typed step adapters\<close>

definition begin_gated_departure_step ::
  "ext \<Rightarrow> json \<Rightarrow> ulid \<Rightarrow> timestamp \<Rightarrow> workflow_ctx \<Rightarrow> ledger \<Rightarrow> string step_state engine" where
  "begin_gated_departure_step X = begin_step_raw X transition_of APPROVAL_STEP_KIND"

text \<open>The checks of \<open>begin_authorized_gated_departure_step\<close> before it writes.\<close>

definition departure_refusal ::
  "text_parsers \<Rightarrow> approval_tables \<Rightarrow> string \<Rightarrow> entry_binding \<Rightarrow> timestamp \<Rightarrow> workflow_error option" where
  "departure_refusal P T from b clock =
     (case ulid_parse P (eb_request_id b) of
        None \<Rightarrow> Some (WfStep ''malformed approval request id'')
      | Some request_id \<Rightarrow>
          if eb_target_state b \<noteq> from
          then Some (WfStep ''approval binding source does not match departure source'')
          else (case find_action_request T request_id of
              None \<Rightarrow> Some (WfStep ''approval request is missing'')
            | Some request \<Rightarrow>
                if as_str (rq_action request) \<noteq> eb_action b
                then Some (WfStep ''approval request action does not match binding'')
                else (case find_approval_for_request T request_id of
                    None \<Rightarrow> Some (WfStep ''approval record is missing'')
                  | Some approval \<Rightarrow>
                      (case rq_payload_ref request of
                         None \<Rightarrow> Some (WfStep ''approval payload digest is missing'')
                       | Some payload \<Rightarrow>
                           (case rq_target_digest request of
                              None \<Rightarrow> Some (WfStep ''approval target digest is missing'')
                            | Some target \<Rightarrow>
                                if ar_digest payload \<noteq> eb_payload_digest b \<or> target \<noteq> eb_target_digest b
                                then Some (WfStep ''approval request digests do not match binding'')
                                else if \<not> approval_matches approval (eb_payload_digest b) (eb_target_digest b) clock
                                then Some (WfStep ''approval record does not match binding'')
                                else None)))))"

definition begin_authorized_gated_departure_step ::
  "ext \<Rightarrow> text_parsers \<Rightarrow> approval_tables \<Rightarrow> string \<Rightarrow> string \<Rightarrow> entry_binding \<Rightarrow> timestamp \<Rightarrow> ulid \<Rightarrow>
     timestamp \<Rightarrow> workflow_ctx \<Rightarrow> ledger \<Rightarrow> string step_state engine" where
  "begin_authorized_gated_departure_step X P T from target b clock fresh now c L =
     (case departure_refusal P T from b clock of
        Some err \<Rightarrow> (Inl err, c, L)
      | None \<Rightarrow> begin_gated_departure_step X (departure_inputs from target b) fresh now c L)"

definition begin_approval_step ::
  "ext \<Rightarrow> (json \<Rightarrow> 'a option) \<Rightarrow> string \<Rightarrow> digest \<Rightarrow> digest \<Rightarrow> ulid \<Rightarrow> timestamp \<Rightarrow> workflow_ctx \<Rightarrow> ledger \<Rightarrow>
     'a step_state engine" where
  "begin_approval_step X from_value action target payload =
     begin_step_raw X from_value LEGACY_APPROVAL_STEP_KIND (approval_inputs action target payload)"

definition begin_transition_step ::
  "ext \<Rightarrow> string \<Rightarrow> string \<Rightarrow> ulid \<Rightarrow> timestamp \<Rightarrow> workflow_ctx \<Rightarrow> ledger \<Rightarrow> string step_state engine" where
  "begin_transition_step X from target =
     begin_step_raw X transition_of TRANSITION_STEP_KIND (transition_inputs from target)"

definition begin_entry_binding_step ::
  "ext \<Rightarrow> string \<Rightarrow> entry_binding \<Rightarrow> ulid \<Rightarrow> timestamp \<Rightarrow> workflow_ctx \<Rightarrow> ledger \<Rightarrow>
     entry_binding step_state engine" where
  "begin_entry_binding_step X from b =
     begin_step_raw X entry_binding_of ENTRY_BINDING_STEP_KIND (entry_inputs from b)"

definition begin_definition_step ::
  "ext \<Rightarrow> digest \<Rightarrow> ulid \<Rightarrow> timestamp \<Rightarrow> workflow_ctx \<Rightarrow> ledger \<Rightarrow> digest step_state engine" where
  "begin_definition_step X d = begin_step_raw X digest_of_value DEFINITION_STEP_KIND (digest_value d)"

section \<open>Reading a history\<close>

text \<open>The bindings and targets of a history, the latest first; a malformed outcome is an error.\<close>

fun binding_scan :: "string \<Rightarrow> step_entry list \<Rightarrow> workflow_error + entry_binding option" where
  "binding_scan s [] = Inr None"
| "binding_scan s (e # es) =
     (if se_kind e \<noteq> ENTRY_BINDING_STEP_KIND then binding_scan s es
      else (case se_completed e of
          Some (OutcomeOk v) \<Rightarrow>
            (case entry_binding_of v of
               None \<Rightarrow> Inl (WfMalformedRecord (se_pending_seq e))
             | Some b \<Rightarrow> if eb_target_state b = s then Inr (Some b) else binding_scan s es)
        | _ \<Rightarrow> binding_scan s es))"

definition entry_binding_for_state :: "workflow_ctx \<Rightarrow> string \<Rightarrow> workflow_error + entry_binding option" where
  "entry_binding_for_state c s = binding_scan s (rev (cx_steps c))"

fun target_scan :: "step_entry list \<Rightarrow> workflow_error + string option" where
  "target_scan [] = Inr None"
| "target_scan (e # es) =
     (if se_kind e \<notin> {TRANSITION_STEP_KIND, APPROVAL_STEP_KIND, ENTRY_BINDING_STEP_KIND} then target_scan es
      else (case se_completed e of
          Some (OutcomeOk v) \<Rightarrow>
            (case (if se_kind e = ENTRY_BINDING_STEP_KIND then map_option eb_target_state (entry_binding_of v)
                   else transition_of v) of
               None \<Rightarrow> Inl (WfMalformedRecord (se_pending_seq e))
             | Some target \<Rightarrow> Inr (Some target))
        | _ \<Rightarrow> target_scan es))"

definition last_completed_transition_target :: "workflow_ctx \<Rightarrow> workflow_error + string option" where
  "last_completed_transition_target c = target_scan (rev (cx_steps c))"

definition find_state :: "workflow_manifest \<Rightarrow> string \<Rightarrow> workflow_state option" where
  "find_state m s = find (\<lambda>st. wss_id st = s) (wm_states m)"

definition has_edge :: "workflow_manifest \<Rightarrow> string \<Rightarrow> string \<Rightarrow> bool" where
  "has_edge m s t = list_ex (\<lambda>e. wt_from e = s \<and> wt_to e = t) (wm_transitions m)"

text \<open>One iteration of \<open>validate_state_machine_replay\<close> on the current state and its binding.\<close>

definition replay_step ::
  "ext \<Rightarrow> workflow_manifest \<Rightarrow> step_entry \<Rightarrow> string \<times> entry_binding option \<Rightarrow>
     workflow_error + string \<times> entry_binding option" where
  "replay_step X m e st =
     (let (current, current_binding) = st; malformed = Inl (WfMalformedRecord (se_pending_seq e)) in
      case se_completed e of
        Some (OutcomeOk v) \<Rightarrow>
          if se_kind e = DEFINITION_STEP_KIND
          then (if digest_of_value v = None then malformed else Inr st)
          else if se_kind e = TRANSITION_STEP_KIND
          then (case transition_of v of None \<Rightarrow> malformed
            | Some target \<Rightarrow> (case (find_state m current, find_state m target) of
                (Some src, Some dst) \<Rightarrow>
                  if wss_approval src = Required \<or> wss_approval dst = Required \<or> \<not> has_edge m current target
                  then Inl (WfDivergence (se_pending_seq e) current target)
                  else Inr (target, None)
              | _ \<Rightarrow> malformed))
          else if se_kind e = ENTRY_BINDING_STEP_KIND
          then (case entry_binding_of v of None \<Rightarrow> malformed
            | Some b \<Rightarrow> (case (find_state m current, find_state m (eb_target_state b)) of
                (Some src, Some dst) \<Rightarrow>
                  if wss_approval src = Required \<or> wss_approval dst \<noteq> Required \<or>
                     \<not> has_edge m current (eb_target_state b)
                  then Inl (WfDivergence (se_pending_seq e) current (eb_target_state b))
                  else Inr (eb_target_state b, Some b)
              | _ \<Rightarrow> malformed))
          else if se_kind e = APPROVAL_STEP_KIND
          then (case transition_of v of None \<Rightarrow> malformed
            | Some target \<Rightarrow> (case (find_state m current, find_state m target) of
                (Some src, Some dst) \<Rightarrow>
                  if wss_approval src \<noteq> Required \<or> wss_approval dst = Required \<or> \<not> has_edge m current target
                  then Inl (WfDivergence (se_pending_seq e) current target)
                  else (case current_binding of None \<Rightarrow> malformed
                    | Some b \<Rightarrow>
                        let expected = digest_inputs X (departure_inputs current target b) in
                        if se_input_digest e \<noteq> expected
                        then Inl (WfDivergence (se_pending_seq e) (se_input_digest e) expected)
                        else Inr (target, None))
              | _ \<Rightarrow> malformed))
          else Inr st
      | _ \<Rightarrow> Inr st)"

fun replay_fold ::
  "ext \<Rightarrow> workflow_manifest \<Rightarrow> step_entry list \<Rightarrow> string \<times> entry_binding option \<Rightarrow>
     workflow_error + string \<times> entry_binding option" where
  "replay_fold X m [] st = Inr st"
| "replay_fold X m (e # es) st = (case replay_step X m e st of Inl err \<Rightarrow> Inl err | Inr st' \<Rightarrow> replay_fold X m es st')"

definition validate_state_machine_replay ::
  "ext \<Rightarrow> workflow_manifest \<Rightarrow> workflow_ctx \<Rightarrow> workflow_error + unit" where
  "validate_state_machine_replay X m c =
     (case wm_initial_state m of
        None \<Rightarrow> Inl (WfStep ''declarative workflow has no initial state'')
      | Some initial \<Rightarrow> (case replay_fold X m (cx_steps c) (initial, None) of
          Inl err \<Rightarrow> Inl err | Inr _ \<Rightarrow> Inr ()))"

section \<open>The manifest digest\<close>

fun lifecycle_name :: "lifecycle \<Rightarrow> string" where
  "lifecycle_name Proposed = ''proposed''"
| "lifecycle_name Validated = ''validated''"
| "lifecycle_name ReviewRequired = ''review_required''"
| "lifecycle_name Approved = ''approved''"
| "lifecycle_name Active = ''active''"
| "lifecycle_name Quarantined = ''quarantined''"
| "lifecycle_name Retired = ''retired''"

fun reasoning_tier_name :: "reasoning_tier \<Rightarrow> string" where
  "reasoning_tier_name Low = ''low''"
| "reasoning_tier_name Standard = ''standard''"
| "reasoning_tier_name High = ''high''"

fun approval_name :: "approval_semantics \<Rightarrow> string" where
  "approval_name NoApproval = ''none''"
| "approval_name Required = ''required''"

fun step_kind_name :: "workflow_step_kind \<Rightarrow> string" where
  "step_kind_name Agentic = ''agentic''"
| "step_kind_name Deterministic = ''deterministic''"

definition workflow_step_json :: "workflow_step \<Rightarrow> json" where
  "workflow_step_json s = JObject [(''id'', JString (wst_id s)), (''kind'', JString (step_kind_name (wst_kind s))),
     (''reasoning_tier'', JString (reasoning_tier_name (wst_reasoning_tier s)))]"

definition escalation_json :: "escalation_point \<Rightarrow> json" where
  "escalation_json e = JObject [(''id'', JString (esc_id e)), (''reason'', jopt JString (esc_reason e))]"

definition workflow_state_json :: "workflow_state \<Rightarrow> json" where
  "workflow_state_json s = JObject
     [(''id'', JString (wss_id s)), (''steps'', JArray (map workflow_step_json (wss_steps s))),
      (''approval'', JString (approval_name (wss_approval s))),
      (''approval_action'', jopt (\<lambda>a. JString (as_str a)) (wss_approval_action s)),
      (''escalation'', jopt escalation_json (wss_escalation s))]"

definition workflow_transition_json :: "workflow_transition \<Rightarrow> json" where
  "workflow_transition_json t = JObject
     [(''from'', JString (wt_from t)), (''to'', JString (wt_to t)), (''event'', jopt JString (wt_event t))]"

definition manifest_json :: "workflow_manifest \<Rightarrow> json" where
  "manifest_json m = JObject
     [(''id'', JString (wm_id m)), (''schema_version'', jnum (wm_schema_version m)),
      (''version'', jnum (wm_version m)), (''lifecycle_state'', JString (lifecycle_name (wm_lifecycle_state m))),
      (''purpose'', JString (wm_purpose m)), (''required_agent'', JString (wm_required_agent m)),
      (''required_capability_pack'', JString (wm_required_capability_pack m)), (''steps'', jstrings (wm_steps m)),
      (''candidate_allowed_actions'', jstrings (map as_str (wm_candidate_allowed_actions m))),
      (''approval_required'', jstrings (map as_str (wm_approval_required m))),
      (''denied_actions'', jstrings (map as_str (wm_denied_actions m))),
      (''initial_state'', jopt JString (wm_initial_state m)),
      (''states'', JArray (map workflow_state_json (wm_states m))),
      (''transitions'', JArray (map workflow_transition_json (wm_transitions m)))]"

definition manifest_digest :: "ext \<Rightarrow> workflow_manifest \<Rightarrow> digest" where
  "manifest_digest X m = digest_of X (manifest_json m)"

section \<open>The state machine\<close>

datatype machine_error =
    InvalidDefinition string
  | NoCurrentState
  | UnknownTransition string
  | ApprovalRequired_err string
  | ApprovalEntryBindingRequired string
  | ApprovalMissing_err
  | ApprovalActionMismatch
  | ApprovalDigestMissing
  | ApprovalDigestMismatch_err
  | ApprovalBindingMismatch
  | MachineWorkflow workflow_error

record workflow_machine =
  mc_ctx :: workflow_ctx
  mc_manifest :: workflow_manifest
  mc_current_state :: "string option"

text \<open>Two identifiers and two clock readings for the records of a step.\<close>

record step_draws =
  dr_fresh1 :: ulid
  dr_now1 :: timestamp
  dr_fresh2 :: ulid
  dr_now2 :: timestamp

type_synonym 'a machine_op = "(machine_error + 'a) \<times> workflow_ctx \<times> ledger"

definition close_step ::
  "ext \<Rightarrow> ('a \<Rightarrow> json) \<Rightarrow> step_handle \<Rightarrow> 'a \<Rightarrow> step_draws \<Rightarrow> workflow_ctx \<Rightarrow> ledger \<Rightarrow> unit machine_op" where
  "close_step X to_value h x w c L =
     (case complete_step X to_value h (Inr x) (dr_fresh2 w) (dr_now2 w) c L of
        (Inl err, c', L') \<Rightarrow> (Inl (MachineWorkflow err), c', L') | (Inr _, c', L') \<Rightarrow> (Inr (), c', L'))"

definition bind_manifest_digest ::
  "ext \<Rightarrow> workflow_manifest \<Rightarrow> step_draws \<Rightarrow> workflow_ctx \<Rightarrow> ledger \<Rightarrow> unit machine_op" where
  "bind_manifest_digest X m w c L =
     (let md = manifest_digest X m in
      case begin_definition_step X md (dr_fresh1 w) (dr_now1 w) c L of
        (Inl (WfDivergence n a b), c', L') \<Rightarrow> (Inl (InvalidDefinition ''manifest binding diverged''), c', L')
      | (Inl err, c', L') \<Rightarrow> (Inl (MachineWorkflow err), c', L')
      | (Inr (Replayed h (Inl _)), c', L') \<Rightarrow>
          (Inl (InvalidDefinition ''run definition step recorded a failure''), c', L')
      | (Inr (Replayed h (Inr prior)), c', L') \<Rightarrow>
          if prior \<noteq> md
          then (Inl (InvalidDefinition ''manifest digest changed since this run started''), c', L')
          else (Inr (), c', L')
      | (Inr (Fresh h _), c', L') \<Rightarrow> close_step X digest_value h md w c' L'
      | (Inr (Resuming h _), c', L') \<Rightarrow> close_step X digest_value h md w c' L')"

definition reconstruct_current_state ::
  "workflow_ctx \<Rightarrow> workflow_manifest \<Rightarrow> machine_error + string option" where
  "reconstruct_current_state c m =
     (case last_completed_transition_target c of
        Inl err \<Rightarrow> Inl (MachineWorkflow err)
      | Inr None \<Rightarrow> Inr (wm_initial_state m)
      | Inr (Some target) \<Rightarrow>
          if find_state m target = None
          then Inl (InvalidDefinition ''recovered transition target is not a declared state'')
          else Inr (Some target))"

definition machine_new ::
  "ext \<Rightarrow> string \<Rightarrow> workflow_manifest \<Rightarrow> step_draws \<Rightarrow> ledger \<Rightarrow> (machine_error + workflow_machine) \<times> ledger" where
  "machine_new X run_id m w L =
     (case validate_workflow m of
        Inl err \<Rightarrow> (Inl (InvalidDefinition err), L)
      | Inr _ \<Rightarrow>
          (case new_with_definition X run_id (wm_id m) (decimal (unat (wm_version m))) L of
             Inl err \<Rightarrow> (Inl (MachineWorkflow err), L)
           | Inr c \<Rightarrow>
               (case bind_manifest_digest X m w c L of
                  (Inl err, c', L') \<Rightarrow> (Inl err, L')
                | (Inr _, c', L') \<Rightarrow>
                    (case validate_state_machine_replay X m c' of
                       Inl err \<Rightarrow> (Inl (MachineWorkflow err), L')
                     | Inr _ \<Rightarrow>
                         (case reconstruct_current_state c' m of
                            Inl err \<Rightarrow> (Inl err, L')
                          | Inr current \<Rightarrow> (Inr \<lparr>mc_ctx = resume_after_completed_steps c',
                              mc_manifest = m, mc_current_state = current\<rparr>, L'))))))"

definition authorize_departure ::
  "text_parsers \<Rightarrow> approval_tables \<Rightarrow> workflow_ctx \<Rightarrow> string \<Rightarrow> ulid option \<Rightarrow> timestamp \<Rightarrow>
     machine_error + ulid \<times> entry_binding" where
  "authorize_departure P T c s action_request clock =
     (case entry_binding_for_state c s of
        Inl err \<Rightarrow> Inl (MachineWorkflow err)
      | Inr None \<Rightarrow> Inl (ApprovalRequired_err s)
      | Inr (Some b) \<Rightarrow>
          (case action_request of
             None \<Rightarrow> Inl (ApprovalRequired_err s)
           | Some request_id \<Rightarrow>
               (case ulid_parse P (eb_request_id b) of
                  None \<Rightarrow> Inl (InvalidDefinition ''entry binding has a malformed request id'')
                | Some binding_id \<Rightarrow>
                    if request_id \<noteq> binding_id then Inl ApprovalBindingMismatch
                    else (case find_action_request T request_id of
                        None \<Rightarrow> Inl ApprovalMissing_err
                      | Some request \<Rightarrow>
                          if as_str (rq_action request) \<noteq> eb_action b then Inl ApprovalActionMismatch
                          else (case find_approval_for_request T request_id of
                              None \<Rightarrow> Inl ApprovalMissing_err
                            | Some approval \<Rightarrow>
                                if \<not> approval_matches approval (eb_payload_digest b) (eb_target_digest b) clock
                                then Inl ApprovalDigestMismatch_err
                                else Inr (request_id, b))))))"

definition prepare_entry_binding ::
  "ext \<Rightarrow> approval_tables \<Rightarrow> string \<Rightarrow> action_id option \<Rightarrow> ulid option \<Rightarrow> machine_error + entry_binding" where
  "prepare_entry_binding X T target approval_action action_request =
     (case approval_action of
        None \<Rightarrow> Inl (InvalidDefinition target)
      | Some action \<Rightarrow>
          (case action_request of
             None \<Rightarrow> Inl (ApprovalEntryBindingRequired target)
           | Some request_id \<Rightarrow>
               (case find_action_request T request_id of
                  None \<Rightarrow> Inl ApprovalMissing_err
                | Some request \<Rightarrow>
                    if rq_action request \<noteq> action then Inl ApprovalActionMismatch
                    else (case rq_payload_ref request of
                        None \<Rightarrow> Inl ApprovalDigestMissing
                      | Some payload \<Rightarrow>
                          (case rq_target_digest request of
                             None \<Rightarrow> Inl ApprovalDigestMissing
                           | Some digest \<Rightarrow> Inr \<lparr>eb_target_state = target,
                               eb_request_id = ulid_text X request_id, eb_action = as_str action,
                               eb_payload_digest = ar_digest payload, eb_target_digest = digest\<rparr>)))))"

definition record_entry_binding ::
  "ext \<Rightarrow> string \<Rightarrow> entry_binding \<Rightarrow> step_draws \<Rightarrow> workflow_ctx \<Rightarrow> ledger \<Rightarrow> unit machine_op" where
  "record_entry_binding X from b w c L =
     (case begin_entry_binding_step X from b (dr_fresh1 w) (dr_now1 w) c L of
        (Inl err, c', L') \<Rightarrow> (Inl (MachineWorkflow err), c', L')
      | (Inr (Replayed h (Inl _)), c', L') \<Rightarrow> (Inl (InvalidDefinition (eb_target_state b)), c', L')
      | (Inr (Replayed h (Inr prior)), c', L') \<Rightarrow>
          if prior \<noteq> b then (Inl ApprovalBindingMismatch, c', L') else (Inr (), c', L')
      | (Inr (Fresh h _), c', L') \<Rightarrow> close_step X entry_binding_value h b w c' L'
      | (Inr (Resuming h _), c', L') \<Rightarrow> close_step X entry_binding_value h b w c' L')"

definition record_gated_departure ::
  "ext \<Rightarrow> text_parsers \<Rightarrow> approval_tables \<Rightarrow> string \<Rightarrow> string \<Rightarrow> entry_binding \<Rightarrow> timestamp \<Rightarrow> step_draws \<Rightarrow>
     workflow_ctx \<Rightarrow> ledger \<Rightarrow> unit machine_op" where
  "record_gated_departure X P T from target b clock w c L =
     (case begin_authorized_gated_departure_step X P T from target b clock (dr_fresh1 w) (dr_now1 w) c L of
        (Inl err, c', L') \<Rightarrow> (Inl (MachineWorkflow err), c', L')
      | (Inr (Replayed h (Inl _)), c', L') \<Rightarrow> (Inl (InvalidDefinition target), c', L')
      | (Inr (Replayed h (Inr prior)), c', L') \<Rightarrow>
          if prior \<noteq> target then (Inl ApprovalBindingMismatch, c', L') else (Inr (), c', L')
      | (Inr (Fresh h _), c', L') \<Rightarrow> close_step X transition_value h target w c' L'
      | (Inr (Resuming h _), c', L') \<Rightarrow> close_step X transition_value h target w c' L')"

definition record_plain_transition ::
  "ext \<Rightarrow> string \<Rightarrow> string \<Rightarrow> step_draws \<Rightarrow> workflow_ctx \<Rightarrow> ledger \<Rightarrow> unit machine_op" where
  "record_plain_transition X from target w c L =
     (case begin_transition_step X from target (dr_fresh1 w) (dr_now1 w) c L of
        (Inl err, c', L') \<Rightarrow> (Inl (MachineWorkflow err), c', L')
      | (Inr (Replayed h (Inl _)), c', L') \<Rightarrow> (Inl (InvalidDefinition target), c', L')
      | (Inr (Replayed h (Inr prior)), c', L') \<Rightarrow>
          if prior \<noteq> target then (Inl (InvalidDefinition ''replayed transition target diverges''), c', L')
          else (Inr (), c', L')
      | (Inr (Fresh h _), c', L') \<Rightarrow> close_step X transition_value h target w c' L'
      | (Inr (Resuming h _), c', L') \<Rightarrow> close_step X transition_value h target w c' L')"

text \<open>The one durable step of a transition, chosen by the semantics of its source and target.\<close>

definition transition_record ::
  "ext \<Rightarrow> text_parsers \<Rightarrow> approval_tables \<Rightarrow> string \<Rightarrow> workflow_state \<Rightarrow> string \<Rightarrow> workflow_state \<Rightarrow>
     ulid option \<Rightarrow> timestamp \<Rightarrow> timestamp \<Rightarrow> step_draws \<Rightarrow> workflow_ctx \<Rightarrow> ledger \<Rightarrow> unit machine_op" where
  "transition_record X P T from src target dst action_request clock1 clock2 w c L =
     (let departure = (if wss_approval src = Required
            then map_sum id Some (authorize_departure P T c from action_request clock1) else Inr None) in
      case departure of
        Inl err \<Rightarrow> (Inl err, c, L)
      | Inr dep \<Rightarrow>
          if wss_approval dst = Required
          then (case prepare_entry_binding X T target (wss_approval_action dst) action_request of
              Inl err \<Rightarrow> (Inl err, c, L)
            | Inr b \<Rightarrow> record_entry_binding X from b w c L)
          else (case dep of
              Some (_, b) \<Rightarrow> record_gated_departure X P T from target b clock2 w c L
            | None \<Rightarrow> record_plain_transition X from target w c L))"

definition transition_to ::
  "ext \<Rightarrow> text_parsers \<Rightarrow> approval_tables \<Rightarrow> string \<Rightarrow> ulid option \<Rightarrow> timestamp \<Rightarrow> timestamp \<Rightarrow> step_draws \<Rightarrow>
     workflow_machine \<Rightarrow> ledger \<Rightarrow> (machine_error + unit) \<times> workflow_machine \<times> ledger" where
  "transition_to X P T target action_request clock1 clock2 w M L =
     (case mc_current_state M of
        None \<Rightarrow> (Inl NoCurrentState, M, L)
      | Some from \<Rightarrow>
          if \<not> has_edge (mc_manifest M) from target then (Inl (UnknownTransition target), M, L)
          else (case find_state (mc_manifest M) from of
              None \<Rightarrow> (Inl (InvalidDefinition from), M, L)
            | Some src \<Rightarrow> (case find_state (mc_manifest M) target of
                  None \<Rightarrow> (Inl (InvalidDefinition target), M, L)
                | Some dst \<Rightarrow>
                    (case transition_record X P T from src target dst action_request clock1 clock2 w (mc_ctx M) L of
                       (Inl err, c', L') \<Rightarrow> (Inl err, M\<lparr>mc_ctx := c'\<rparr>, L')
                     | (Inr _, c', L') \<Rightarrow>
                         (Inr (), M\<lparr>mc_ctx := c', mc_current_state := Some target\<rparr>, L')))))"

definition machine_step :: "workflow_machine \<Rightarrow> string \<Rightarrow> workflow_step option" where
  "machine_step M s = find (\<lambda>st. wst_id st = s) (all_steps (mc_manifest M))"

end
