(* ===== verification/Machine_Recovery.thy ===== *)
theory Machine_Recovery
  imports Workflow_Machine
begin

text \<open>
  Workflow state machines follow their manifest and survive restarts: the abstract machine of a
  manifest, the proof that every history the kernel accepts is one of its runs, the approval
  gate, and the recovery of the current state from the ledger.
\<close>

section \<open>The abstract machine\<close>

definition approval_of :: "workflow_manifest \<Rightarrow> string \<Rightarrow> approval_semantics option" where
  "approval_of m s = map_option wss_approval (find_state m s)"

inductive flow ::
  "workflow_manifest \<Rightarrow> string \<times> entry_binding option \<Rightarrow> string \<times> entry_binding option \<Rightarrow> bool" for m where
  flow_plain: "has_edge m s t \<Longrightarrow> approval_of m s = Some NoApproval \<Longrightarrow> approval_of m t = Some NoApproval \<Longrightarrow>
    flow m (s, b) (t, None)"
| flow_enter: "has_edge m s (eb_target_state b') \<Longrightarrow> approval_of m s = Some NoApproval \<Longrightarrow>
    approval_of m (eb_target_state b') = Some Required \<Longrightarrow> flow m (s, b) (eb_target_state b', Some b')"
| flow_leave: "has_edge m s t \<Longrightarrow> approval_of m s = Some Required \<Longrightarrow> approval_of m t = Some NoApproval \<Longrightarrow>
    flow m (s, Some b) (t, None)"

definition flow_run :: "workflow_manifest \<Rightarrow> string \<times> entry_binding option \<Rightarrow> bool" where
  "flow_run m st \<longleftrightarrow> (\<exists>initial. wm_initial_state m = Some initial \<and> (flow m)\<^sup>*\<^sup>* (initial, None) st)"

lemma not_required: "a \<noteq> Required \<longleftrightarrow> a = NoApproval" "a \<noteq> NoApproval \<longleftrightarrow> a = Required"
  by (cases a; simp)+

lemma kinds_differ [simp]:
  "TRANSITION_STEP_KIND \<noteq> DEFINITION_STEP_KIND" "ENTRY_BINDING_STEP_KIND \<noteq> DEFINITION_STEP_KIND"
  "APPROVAL_STEP_KIND \<noteq> DEFINITION_STEP_KIND" "ENTRY_BINDING_STEP_KIND \<noteq> TRANSITION_STEP_KIND"
  "APPROVAL_STEP_KIND \<noteq> TRANSITION_STEP_KIND" "APPROVAL_STEP_KIND \<noteq> ENTRY_BINDING_STEP_KIND"
  "DEFINITION_STEP_KIND \<noteq> TRANSITION_STEP_KIND" "DEFINITION_STEP_KIND \<noteq> ENTRY_BINDING_STEP_KIND"
  "DEFINITION_STEP_KIND \<noteq> APPROVAL_STEP_KIND" "TRANSITION_STEP_KIND \<noteq> ENTRY_BINDING_STEP_KIND"
  "TRANSITION_STEP_KIND \<noteq> APPROVAL_STEP_KIND" "ENTRY_BINDING_STEP_KIND \<noteq> APPROVAL_STEP_KIND"
  by (simp_all add: TRANSITION_STEP_KIND_def DEFINITION_STEP_KIND_def ENTRY_BINDING_STEP_KIND_def APPROVAL_STEP_KIND_def)

lemma kinds_nonempty [simp]:
  "TRANSITION_STEP_KIND \<noteq> []" "DEFINITION_STEP_KIND \<noteq> []" "ENTRY_BINDING_STEP_KIND \<noteq> []" "APPROVAL_STEP_KIND \<noteq> []"
  by (simp_all add: TRANSITION_STEP_KIND_def DEFINITION_STEP_KIND_def ENTRY_BINDING_STEP_KIND_def APPROVAL_STEP_KIND_def)

section \<open>Accepted histories\<close>

text \<open>What one entry of an accepted history does.\<close>

lemma replay_step_cases:
  assumes "replay_step X m e (s, b) = Inr (s', b')"
  obtains (idle) "s' = s" "b' = b"
      "\<forall>v. se_completed e = Some (OutcomeOk v) \<longrightarrow>
         se_kind e \<notin> {TRANSITION_STEP_KIND, APPROVAL_STEP_KIND, ENTRY_BINDING_STEP_KIND}"
  | (plain) v where "se_completed e = Some (OutcomeOk v)" "se_kind e = TRANSITION_STEP_KIND" "transition_of v = Some s'"
      "b' = None" "has_edge m s s'" "approval_of m s = Some NoApproval" "approval_of m s' = Some NoApproval"
  | (enter) v x where "se_completed e = Some (OutcomeOk v)" "se_kind e = ENTRY_BINDING_STEP_KIND"
      "entry_binding_of v = Some x" "s' = eb_target_state x" "b' = Some x" "has_edge m s s'"
      "approval_of m s = Some NoApproval" "approval_of m s' = Some Required"
  | (leave) v x where "se_completed e = Some (OutcomeOk v)" "se_kind e = APPROVAL_STEP_KIND"
      "transition_of v = Some s'" "b = Some x" "b' = None" "has_edge m s s'"
      "approval_of m s = Some Required" "approval_of m s' = Some NoApproval"
      "se_input_digest e = digest_inputs X (departure_inputs s s' x)"
proof (cases "\<exists>v. se_completed e = Some (OutcomeOk v) \<and>
    se_kind e \<in> {TRANSITION_STEP_KIND, APPROVAL_STEP_KIND, ENTRY_BINDING_STEP_KIND}")
  case False
  then show thesis
    using assms by (intro idle)
      (auto simp: replay_step_def Let_def split: option.splits outcome.splits if_splits)
next
  case True
  then obtain v where v: "se_completed e = Some (OutcomeOk v)"
    "se_kind e \<in> {TRANSITION_STEP_KIND, APPROVAL_STEP_KIND, ENTRY_BINDING_STEP_KIND}" by blast
  then consider "se_kind e = TRANSITION_STEP_KIND" | "se_kind e = ENTRY_BINDING_STEP_KIND" | "se_kind e = APPROVAL_STEP_KIND"
    by blast
  then show thesis
  proof cases
    case 1
    with assms v show thesis
      by (intro plain [of v]) (auto simp: replay_step_def approval_of_def not_required Let_def split: option.splits if_splits)
  next
    case 2
    then obtain x where "entry_binding_of v = Some x" "s' = eb_target_state x"
      using assms v by (auto simp: replay_step_def Let_def split: option.splits if_splits)
    with 2 assms v show thesis
      by (intro enter [of v x]) (auto simp: replay_step_def approval_of_def not_required Let_def split: option.splits if_splits)
  next
    case 3
    then obtain x where "b = Some x" using assms v by (auto simp: replay_step_def Let_def split: option.splits if_splits)
    with 3 assms v show thesis
      by (intro leave [of v x])
        (auto simp: replay_step_def approval_of_def not_required Let_def split: option.splits if_splits)
  qed
qed

lemma replay_step_flow: "replay_step X m e st = Inr st' \<Longrightarrow> (flow m)\<^sup>*\<^sup>* st st'"
proof -
  obtain s b s' b' where st: "st = (s, b)" "st' = (s', b')" by (cases st; cases st')
  assume "replay_step X m e st = Inr st'"
  then have "replay_step X m e (s, b) = Inr (s', b')" by (simp add: st)
  then show ?thesis unfolding st
  proof (cases rule: replay_step_cases)
    case (plain v)
    then show "(flow m)\<^sup>*\<^sup>* (s, b) (s', b')" using flow_plain [of m s s' b] by blast
  next
    case (enter v x)
    then show "(flow m)\<^sup>*\<^sup>* (s, b) (s', b')" using flow_enter [of m s x b] by blast
  next
    case (leave v x)
    then show "(flow m)\<^sup>*\<^sup>* (s, b) (s', b')" using flow_leave [of m s s' x] by blast
  qed simp
qed

lemma replay_fold_append:
  "replay_fold X m (es @ fs) st = (case replay_fold X m es st of Inl err \<Rightarrow> Inl err | Inr st' \<Rightarrow> replay_fold X m fs st')"
  by (induction es arbitrary: st) (auto split: sum.split)

lemma replay_fold_flow: "replay_fold X m es st = Inr st' \<Longrightarrow> (flow m)\<^sup>*\<^sup>* st st'"
proof (induction es arbitrary: st)
  case (Cons e es)
  then obtain st1 where "replay_step X m e st = Inr st1" "replay_fold X m es st1 = Inr st'"
    by (auto split: sum.splits)
  with Cons.IH replay_step_flow show ?case by (meson rtranclp_trans)
qed simp

text \<open>The state at the end of an accepted history is the target of its last transition.\<close>

lemma target_scan_fold:
  assumes "replay_fold X m es (s0, None) = Inr (s, b)"
  shows "target_scan (rev es) = Inr None \<and> s = s0 \<or> target_scan (rev es) = Inr (Some s) \<and> find_state m s \<noteq> None"
  using assms
proof (induction es arbitrary: s b rule: rev_induct)
  case (snoc e es)
  obtain s1 b1 where f: "replay_fold X m es (s0, None) = Inr (s1, b1)" "replay_step X m e (s1, b1) = Inr (s, b)"
    using snoc.prems by (auto simp: replay_fold_append split: sum.splits)
  from f(2) show ?case
  proof (cases rule: replay_step_cases)
    case idle
    then have "target_scan (rev (es @ [e])) = target_scan (rev es)"
      by (auto split: option.split outcome.split)
    then show ?thesis using snoc.IH [OF f(1)] idle by simp
  qed (auto simp: approval_of_def split: if_splits)
qed simp

text \<open>The binding of the current state is the one recorded on entry.\<close>

lemma binding_scan_fold:
  assumes "replay_fold X m es (s0, None) = Inr (s, b)"
  shows "(\<forall>t. approval_of m t \<noteq> Some Required \<longrightarrow> binding_scan t (rev es) = Inr None) \<and>
    binding_scan s (rev es) = Inr b"
  using assms
proof (induction es arbitrary: s b rule: rev_induct)
  case (snoc e es)
  obtain s1 b1 where f: "replay_fold X m es (s0, None) = Inr (s1, b1)" "replay_step X m e (s1, b1) = Inr (s, b)"
    using snoc.prems by (auto simp: replay_fold_append split: sum.splits)
  note ih = snoc.IH [OF f(1)]
  from f(2) show ?case
  proof (cases rule: replay_step_cases)
    case idle
    then have "binding_scan t (rev (es @ [e])) = binding_scan t (rev es)" for t
      by (auto split: option.split outcome.split)
    then show ?thesis using ih idle by simp
  qed (use ih in auto)
qed simp

section \<open>A durable step of the machine\<close>

text \<open>
  Between two steps of a machine the entries before its cursor are followed by at most one that is
  pending: the step an interrupted transition had begun. Those before the cursor are completed,
  except where a machine was kept after a transition failed: the cursor is then past the step the
  failure left open. No open step has a receipt.
\<close>

definition at_frontier :: "ext \<Rightarrow> workflow_ctx \<Rightarrow> ledger \<Rightarrow> step_entry list \<Rightarrow> bool" where
  "at_frontier X c L es \<longleftrightarrow> engine_inv X c L \<and> cx_cursor c = length es \<and>
     (\<forall>e\<in>set (cx_steps c). se_completed e = None \<longrightarrow> se_receipt e = None) \<and>
     (\<exists>pend. cx_steps c = es @ pend \<and> length pend \<le> 1 \<and> (\<forall>e\<in>set pend. se_completed e = None))"

definition opened :: "step_entry list \<Rightarrow> string \<Rightarrow> string \<Rightarrow> step_entry \<Rightarrow> workflow_ctx \<Rightarrow> bool" where
  "opened es kind d e c \<longleftrightarrow> cx_steps c = es @ [e] \<and> cx_cursor c = Suc (length es) \<and> se_kind e = kind \<and>
     se_input_digest e = d \<and> se_completed e = None \<and> se_receipt e = None"

lemma begin_frontier:
  assumes "wf_ext X" "wf_serde X" "at_frontier X c L es"
    and "begin_step_raw X from_value kind inputs fresh now c L = (r, c', L')"
  obtains (refused) err where "r = Inl err" "c' = c" "L' = L"
  | (under_way) e key where "r = Inr (Fresh (handle_of e) key) \<or> r = Inr (Resuming (handle_of e) key)"
      "opened es kind (digest_inputs X inputs) e c'" "engine_inv X c' L'"
proof -
  obtain pend where f: "engine_inv X c L" "cx_cursor c = length es" "cx_steps c = es @ pend" "length pend \<le> 1"
    "\<forall>e\<in>set pend. se_completed e = None \<and> se_receipt e = None"
    using assms(3) by (fastforce simp: at_frontier_def)
  note inv = begin_step_inv [OF assms(1,2) f(1) assms(4)]
  show thesis
  proof (cases pend)
    case (Cons e rest)
    then have "find_entry (step_id_at c) (cx_steps c) = Some e" "pend = [e]"
      using step_at(2) [OF f(1), of "cx_cursor c"] f by (simp_all add: step_id_at_cursor)
    with assms(4) f inv Cons show thesis
      by (auto simp: begin_step_raw_def Let_def resume_entry_def opened_def advance_cursor_def split: if_splits
          intro: refused under_way)
  next
    case Nil
    then have k: "cx_cursor c = length (cx_steps c)" using f by simp
    have none: "find_entry (step_id_at c) (cx_steps c) = None"
      using step_beyond [OF f(1), of "cx_cursor c"] k by (simp add: step_id_at_cursor)
    obtain res L1 where op: "append_workflow_step_if_absent X (cx_run_id c) kind
      (record_text X (PendingRec (step_id_at c) (digest_inputs X inputs))) (step_id_at c) fresh now L = (res, L1)"
      by fastforce
    show thesis
    proof (cases res)
      case (Inl err)
      then have "L1 = L" using op tx_error [OF append_workflow_step_if_absent_def] by blast
      then show thesis using assms(4) k none op Inl by (auto simp: begin_step_raw_def intro: refused)
    next
      case (Inr q)
      then obtain ev b where q: "append_workflow_step_if_absent X (cx_run_id c) kind
        (record_text X (PendingRec (step_id_at c) (digest_inputs X inputs))) (step_id_at c) fresh now L = (Inr (ev, b), L1)"
        using op by (cases q) simp
      note fresh = begin_fresh_inv [OF assms(1,2) f(1) k q refl]
      let ?e = "\<lparr>se_step_id = step_id_at c, se_kind = kind, se_input_digest = digest_inputs X inputs,
        se_pending_seq = ae_aggregate_seq ev, se_receipt = None, se_completed = None\<rparr>"
      have "r = Inr (Fresh (handle_of ?e) (cx_run_id c @ '':'' @ step_id_at c))"
        "c' = advance_cursor (c\<lparr>cx_steps := cx_steps c @ [?e]\<rparr>)"
        using assms(4) k none q fresh(1-3) by (auto simp: begin_step_raw_def Let_def)
      then show thesis using inv f(2,3) Nil by (intro under_way) (auto simp: opened_def advance_cursor_def)
    qed
  qed
qed

lemma close_frontier:
  assumes "wf_ext X" "wf_serde X" "engine_inv X c L" "opened es kind d e c" "wf_json (to_value x)" "plain_json (to_value x)"
    and "close_step X to_value (handle_of e) x w c L = (r, c', L')"
  obtains (failed) err where "r = Inl err" "c' = c" "L' = L"
  | (closed) "r = Inr ()" "engine_inv X c' L'" "cx_cursor c' = Suc (length es)"
      "cx_steps c' = es @ [e\<lparr>se_completed := Some (OutcomeOk (canonical (to_value x)))\<rparr>]"
proof -
  let ?out = "OutcomeOk (canonical (to_value x))"
  let ?rec = "CompletedRec (se_step_id e) (se_input_digest e) ?out"
  have out: "wf_outcome (outcome_value to_value (Inr x))"
    using assms(5,6) by (simp add: wf_canonical plain_canonical canonical_idem)
  have o: "cx_steps c = es @ [e]" "cx_cursor c = Suc (length es)" "se_completed e = None" "se_receipt e = None"
    using assms(4) by (simp_all add: opened_def)
  have h: "entry_of_handle c (handle_of e) = Inr e" "find_entry (se_step_id e) (cx_steps c) = Some e"
    using handle_entry find_entry_mem inv_distinct [OF assms(3)] o(1) by simp_all
  obtain res L1 where op: "append_workflow_completion X (cx_run_id c) (se_kind e) (record_text X ?rec) (se_step_id e)
      (dr_fresh2 w) (dr_now2 w) L = (res, L1)" by fastforce
  obtain u where u: "complete_step X to_value (handle_of e) (Inr x) (dr_fresh2 w) (dr_now2 w) c L = (u, c', L')"
    "r = map_sum MachineWorkflow id u"
    using assms(7) by (auto simp: close_step_def split: prod.splits sum.splits)
  show thesis
  proof (cases res)
    case (Inl err)
    then have "L1 = L" using op tx_error [OF append_workflow_completion_def] by blast
    with u op Inl h(1) o show thesis
      by (intro failed [of "MachineWorkflow (WfStore err)"]) (auto simp: complete_step_def handle_of_def)
  next
    case (Inr q)
    obtain ev b where q: "q = (ev, b)" by (cases q)
    obtain g n where "event_of_run c (se_kind e) (record_text X ?rec) L ev L1"
      by (rule completion_event [OF assms(1,3) h(2) o(3)]) (use op Inr q in auto)
    then have "canonical_record X seq ev = Inr ?rec" for seq
      using decode_written(2) [OF assms(2), of ?rec ev] out by (simp add: event_of_run_def)
    with u(1) op Inr q h(1) o have res: "u = Inr ()"
      "c' = set_handle_entry (handle_of e) (\<lambda>e. e\<lparr>se_completed := Some ?out\<rparr>) c" "L' = L1"
      by (auto simp: complete_step_def handle_of_def)
    have "se_step_id a \<noteq> se_step_id e" if "a \<in> set es" for a
      using inv_distinct [OF assms(3)] imageI [OF that, of se_step_id] o(1) by auto
    then have "cx_steps c' = es @ [e\<lparr>se_completed := Some ?out\<rparr>]"
      unfolding res(2) set_handle_entry_eq [OF inv_distinct [OF assms(3)] h(1)]
      using o(1) by (simp add: set_entry_def handle_of_def map_idI)
    then show thesis
      using closed res u(2) complete_step_inv [OF assms(1-3) out u(1)] o(2) by (simp add: set_handle_entry_def)
  qed
qed

text \<open>
  A durable step either fails, with nothing but a pending entry added, or adds one completed
  entry with the given kind, inputs and outcome. A failure leaves a history at whose frontier the
  step can be taken up again (the cursor set back), and also one the machine goes on from.
\<close>

definition durable ::
  "ext \<Rightarrow> string \<Rightarrow> json \<Rightarrow> json \<Rightarrow> step_entry list \<Rightarrow> workflow_ctx \<Rightarrow> unit machine_op \<Rightarrow> bool" where
  "durable X kind inputs v es c op \<longleftrightarrow> (case op of
     (Inl err, c', L') \<Rightarrow> at_frontier X (c'\<lparr>cx_cursor := length es\<rparr>) L' es \<and> names_of c' = names_of c \<and>
       (at_frontier X c' L' es \<and> cx_steps c' = cx_steps c \<or>
        (\<exists>e. at_frontier X c' L' (es @ [e]) \<and> cx_steps c' = es @ [e] \<and> se_completed e = None))
   | (Inr _, c', L') \<Rightarrow> names_of c' = names_of c \<and> (\<exists>e. at_frontier X c' L' (es @ [e]) \<and> se_kind e = kind \<and>
       se_input_digest e = digest_inputs X inputs \<and> se_completed e = Some (OutcomeOk v)))"

lemma durable_step:
  assumes "wf_ext X" "wf_serde X" "at_frontier X c L es" "wf_json (to_value x)" "plain_json (to_value x)"
    and "begin_step_raw X from_value kind inputs fresh now c L = (r, c1, L1)"
    and "\<And>err. r = Inl err \<Longrightarrow> \<exists>err'. op = (Inl err', c1, L1)"
    and "\<And>h key. r = Inr (Fresh h key) \<or> r = Inr (Resuming h key) \<Longrightarrow> op = close_step X to_value h x w c1 L1"
  shows "durable X kind inputs (canonical (to_value x)) es c op"
  using assms(1-3,6)
proof (cases rule: begin_frontier)
  case (refused err)
  have "c\<lparr>cx_cursor := length es\<rparr> = c" using assms(3) by (simp add: at_frontier_def)
  then show ?thesis using assms(3,7) refused by (auto simp: durable_def)
next
  case (under_way e key)
  obtain u c2 L2 where op: "close_step X to_value (handle_of e) x w c1 L1 = (u, c2, L2)" by (metis prod_cases3)
  then have o: "op = (u, c2, L2)" using assms(8) under_way(1) by metis
  have all: "\<forall>e\<in>set es. se_completed e = None \<longrightarrow> se_receipt e = None" using assms(3) by (auto simp: at_frontier_def)
  have n: "names_of c2 = names_of c"
    using op_fields(1) [OF assms(6)] op
    by (auto simp: names_of_def close_step_def split: prod.splits sum.splits dest: op_fields(3))
  from assms(1,2) under_way(3,2) assms(4,5) op show ?thesis
  proof (cases rule: close_frontier)
    case (failed err)
    have "engine_inv X (c1\<lparr>cx_cursor := length es\<rparr>) L1"
      using inv_cursor [OF under_way(3), of "length es"] under_way(2) by (simp add: opened_def)
    with failed under_way(2,3) all n o show ?thesis by (simp add: durable_def at_frontier_def opened_def)
  next
    case closed
    with under_way(2) all n o show ?thesis
      by (auto simp: durable_def at_frontier_def opened_def
          intro!: exI [of _ "e\<lparr>se_completed := Some (OutcomeOk (canonical (to_value x)))\<rparr>"])
  qed
qed

lemma payload_plain:
  "wf_json (transition_value t)" "plain_json (transition_value t)" "wf_json (entry_binding_value b)"
  "plain_json (entry_binding_value b)" "wf_json (digest_value d)" "plain_json (digest_value d)"
  by (simp_all add: transition_value_def entry_binding_value_def digest_value_def)

lemma record_durable:
  assumes "wf_ext X" "wf_serde X" "at_frontier X c L es"
  shows "durable X TRANSITION_STEP_KIND (transition_inputs from t) (canonical (transition_value t)) es c
      (record_plain_transition X from t w c L)"
    "durable X ENTRY_BINDING_STEP_KIND (entry_inputs from b) (canonical (entry_binding_value b)) es c
      (record_entry_binding X from b w c L)"
    "durable X DEFINITION_STEP_KIND (digest_value (manifest_digest X m)) (canonical (digest_value (manifest_digest X m)))
      es c (bind_manifest_digest X m w c L)"
    "departure_refusal P T from b clock = None \<Longrightarrow>
      durable X APPROVAL_STEP_KIND (departure_inputs from t b) (canonical (transition_value t)) es c
        (record_gated_departure X P T from t b clock w c L)"
proof -
  obtain r c1 L1 where op: "begin_step_raw X transition_of TRANSITION_STEP_KIND (transition_inputs from t)
    (dr_fresh1 w) (dr_now1 w) c L = (r, c1, L1)" by (metis prod_cases3)
  show "durable X TRANSITION_STEP_KIND (transition_inputs from t) (canonical (transition_value t)) es c
      (record_plain_transition X from t w c L)"
    by (rule durable_step [OF assms, where to_value = transition_value and x = t, OF payload_plain(1,2) op])
      (use op in \<open>auto simp: record_plain_transition_def begin_transition_step_def\<close>)
next
  obtain r c1 L1 where op: "begin_step_raw X entry_binding_of ENTRY_BINDING_STEP_KIND (entry_inputs from b)
    (dr_fresh1 w) (dr_now1 w) c L = (r, c1, L1)" by (metis prod_cases3)
  show "durable X ENTRY_BINDING_STEP_KIND (entry_inputs from b) (canonical (entry_binding_value b)) es c
      (record_entry_binding X from b w c L)"
    by (rule durable_step [OF assms, where to_value = entry_binding_value and x = b, OF payload_plain(3,4) op])
      (use op in \<open>auto simp: record_entry_binding_def begin_entry_binding_step_def\<close>)
next
  let ?d = "manifest_digest X m"
  obtain r c1 L1 where op: "begin_step_raw X digest_of_value DEFINITION_STEP_KIND (digest_value ?d)
    (dr_fresh1 w) (dr_now1 w) c L = (r, c1, L1)" by (metis prod_cases3)
  show "durable X DEFINITION_STEP_KIND (digest_value ?d) (canonical (digest_value ?d))
      es c (bind_manifest_digest X m w c L)"
    by (rule durable_step [OF assms, where to_value = digest_value and x = ?d, OF payload_plain(5,6) op])
      (use op in \<open>auto simp: bind_manifest_digest_def begin_definition_step_def split: workflow_error.split\<close>)
next
  assume d: "departure_refusal P T from b clock = None"
  obtain r c1 L1 where op: "begin_step_raw X transition_of APPROVAL_STEP_KIND (departure_inputs from t b)
    (dr_fresh1 w) (dr_now1 w) c L = (r, c1, L1)" by (metis prod_cases3)
  show "durable X APPROVAL_STEP_KIND (departure_inputs from t b) (canonical (transition_value t)) es c
        (record_gated_departure X P T from t b clock w c L)"
    by (rule durable_step [OF assms, where to_value = transition_value and x = t, OF payload_plain(1,2) op])
      (use op d in \<open>auto simp: record_gated_departure_def begin_authorized_gated_departure_step_def begin_gated_departure_step_def\<close>)
qed

section \<open>Round trips of the payloads\<close>

lemma digest_round_trip [simp]:
  "digest_is_valid (digest_str d) \<Longrightarrow> digest_of_value (JString (digest_str d)) = Some d"
  by (simp add: digest_of_value_def digest_parse_def)

lemma transition_round_trip [simp]: "transition_of (canonical (transition_value t)) = Some t"
  by (simp add: transition_of_def transition_value_def sort_entries_def json_str_def)

lemma binding_round_trip:
  assumes "digest_is_valid (digest_str (eb_payload_digest b))" "digest_is_valid (digest_str (eb_target_digest b))"
  shows "entry_binding_of (canonical (entry_binding_value b)) = Some b"
  using assms unfolding entry_binding_of_def entry_binding_value_def
  by (simp add: json_str_canonical json_get_canonical del: canonical.simps(6))

lemma manifest_digest_valid: "wf_ext X \<Longrightarrow> digest_is_valid (digest_str (manifest_digest X m))"
  unfolding manifest_digest_def digest_of_def wf_ext_def by (blast intro: digest_is_valid_from_hash)

section \<open>Recovery\<close>

definition machine_names :: "string \<Rightarrow> workflow_manifest \<Rightarrow> string \<times> string \<times> string" where
  "machine_names run_id m = (run_id, wm_id m, decimal (unat (wm_version m)))"

definition bound :: "ext \<Rightarrow> workflow_manifest \<Rightarrow> step_entry list \<Rightarrow> bool" where
  "bound X m es \<longleftrightarrow> es \<noteq> [] \<and> se_kind (hd es) = DEFINITION_STEP_KIND \<and>
     se_input_digest (hd es) = digest_inputs X (digest_value (manifest_digest X m)) \<and>
     se_completed (hd es) = Some (OutcomeOk (canonical (digest_value (manifest_digest X m))))"

definition machine_at ::
  "ext \<Rightarrow> string \<Rightarrow> workflow_manifest \<Rightarrow> workflow_ctx \<Rightarrow> ledger \<Rightarrow> string \<times> entry_binding option \<Rightarrow> bool" where
  "machine_at X run_id m c L st \<longleftrightarrow> (\<exists>es initial. at_frontier X c L es \<and> bound X m es \<and>
     wm_initial_state m = Some initial \<and> replay_fold X m es (initial, None) = Inr st) \<and>
     names_of c = machine_names run_id m \<and> wf_workflow m \<and> CHR '':'' \<notin> set run_id \<and>
     CHR '':'' \<notin> set (wm_id m) \<and> CHR '':'' \<notin> set (decimal (unat (wm_version m)))"

lemma replay_idle: "\<forall>e\<in>set es. se_completed e = None \<Longrightarrow> replay_fold X m es st = Inr st"
  by (induction es) (simp_all add: replay_step_def split: prod.split)

text \<open>No step is open but the last: what a machine leaves that was never used after a failure.\<close>

definition unbroken :: "workflow_ctx \<Rightarrow> bool" where
  "unbroken c \<longleftrightarrow> (\<forall>e\<in>set (butlast (cx_steps c)). se_completed e \<noteq> None)"

definition none_open_behind :: "workflow_ctx \<Rightarrow> bool" where
  "none_open_behind c \<longleftrightarrow> (\<forall>e\<in>set (take (cx_cursor c) (cx_steps c)). se_completed e \<noteq> None)"

lemma resume_same:
  assumes "at_frontier X c L es" "none_open_behind c"
  shows "resume_after_completed_steps c = c"
proof -
  obtain pend where f: "cx_cursor c = length es" "cx_steps c = es @ pend" "\<forall>e\<in>set pend. se_completed e = None"
    using assms(1) by (auto simp: at_frontier_def)
  have "takeWhile (\<lambda>e. se_completed e \<noteq> None) (cx_steps c) = es"
    using f assms(2) by (cases pend) (simp_all add: none_open_behind_def takeWhile_append)
  then show ?thesis using f(1) by (simp add: resume_after_completed_steps_def)
qed

lemma machine_tail:
  assumes "machine_at X run_id m c L (s, b)"
  shows "validate_state_machine_replay X m (c\<lparr>cx_cursor := k\<rparr>) = Inr ()"
    "reconstruct_current_state (c\<lparr>cx_cursor := k\<rparr>) m = Inr (Some s)"
    "resume_after_completed_steps (c\<lparr>cx_cursor := k\<rparr>) = resume_after_completed_steps c"
proof -
  obtain es initial pend where f: "cx_steps c = es @ pend" "\<forall>e\<in>set pend. se_completed e = None"
    and g: "wm_initial_state m = Some initial" "replay_fold X m es (initial, None) = Inr (s, b)"
    using assms unfolding machine_at_def at_frontier_def by auto
  have fold: "replay_fold X m (cx_steps c) (initial, None) = Inr (s, b)"
    using g(2) f by (simp add: replay_fold_append replay_idle)
  then show "validate_state_machine_replay X m (c\<lparr>cx_cursor := k\<rparr>) = Inr ()"
    using g(1) by (simp add: validate_state_machine_replay_def)
  show "reconstruct_current_state (c\<lparr>cx_cursor := k\<rparr>) m = Inr (Some s)"
    using target_scan_fold [OF fold] g(1)
    by (auto simp: reconstruct_current_state_def last_completed_transition_target_def)
  show "resume_after_completed_steps (c\<lparr>cx_cursor := k\<rparr>) = resume_after_completed_steps c"
    by (simp add: resume_after_completed_steps_def)
qed

text \<open>A rebuilt machine takes the open step up again: its history ends before it.\<close>

lemma machine_resumed:
  assumes "machine_at X run_id m c L st" "unbroken c"
  shows "machine_at X run_id m (resume_after_completed_steps c) L st"
proof -
  obtain es initial where m: "at_frontier X c L es" "bound X m es" "wm_initial_state m = Some initial"
    "replay_fold X m es (initial, None) = Inr st"
    using assms(1) by (auto simp: machine_at_def)
  obtain pend where f: "engine_inv X c L" "cx_cursor c = length es" "cx_steps c = es @ pend" "length pend \<le> 1"
    "\<forall>e\<in>set (cx_steps c). se_completed e = None \<longrightarrow> se_receipt e = None" "\<forall>e\<in>set pend. se_completed e = None"
    using m(1) by (auto simp: at_frontier_def)
  show ?thesis
  proof (cases "pend = [] \<and> se_completed (last es) = None")
    case True
    then obtain fs e where es: "es = fs @ [e]" "se_completed e = None"
      using m(2) by (metis append_butlast_last_id bound_def)
    then have steps: "cx_steps c = fs @ [e]" and all: "\<forall>e\<in>set fs. se_completed e \<noteq> None"
      using f(3) True assms(2) by (simp_all add: unbroken_def)
    then have r: "resume_after_completed_steps c = c\<lparr>cx_cursor := length fs\<rparr>"
      using es(2) by (simp add: resume_after_completed_steps_def takeWhile_append)
    have "engine_inv X (c\<lparr>cx_cursor := length fs\<rparr>) L" using inv_cursor [OF f(1)] steps by simp
    then have "at_frontier X (resume_after_completed_steps c) L fs"
      using f(5) steps es(2) r by (auto simp: at_frontier_def)
    moreover have "bound X m fs" using m(2) es by (cases fs) (auto simp: bound_def)
    moreover have "replay_fold X m fs (initial, None) = Inr st"
      using m(4) es replay_idle [of "[e]" X m] by (auto simp: replay_fold_append split: sum.splits)
    ultimately show ?thesis using assms(1) m(3) r by (auto simp: machine_at_def names_of_def)
  next
    case False
    have "es \<noteq> []" using m(2) by (simp add: bound_def)
    then have "set es = insert (last es) (set (butlast es))"
      by (cases es rule: rev_cases) auto
    then have "none_open_behind c"
      using False f(2-4) assms(2) by (cases pend) (auto simp: none_open_behind_def unbroken_def butlast_append)
    then show ?thesis using resume_same [OF m(1)] assms(1) by simp
  qed
qed

lemma machine_recovery:
  assumes "wf_ext X" "wf_serde X" "machine_at X run_id m c L (s, b)"
  shows "machine_new X run_id m w L =
    (Inr \<lparr>mc_ctx = resume_after_completed_steps c, mc_manifest = m, mc_current_state = Some s\<rparr>, L)"
proof -
  obtain es pend where f: "engine_inv X c L" "cx_steps c = es @ pend" "bound X m es"
    and n: "names_of c = machine_names run_id m" "wf_workflow m" "CHR '':'' \<notin> set run_id"
      "CHR '':'' \<notin> set (wm_id m)" "CHR '':'' \<notin> set (decimal (unat (wm_version m)))"
    using assms(3) unfolding machine_at_def at_frontier_def by auto
  have new: "new_with_definition X run_id (wm_id m) (decimal (unat (wm_version m))) L = Inr (c\<lparr>cx_cursor := 0\<rparr>)"
    using rehydrates [OF assms(1,2) f(1)] n by (simp add: names_of_def machine_names_def)
  let ?c0 = "c\<lparr>cx_cursor := 0\<rparr>" and ?c1 = "c\<lparr>cx_cursor := Suc 0\<rparr>" and ?d = "manifest_digest X m"
  have "find_entry (step_id_at ?c0) (cx_steps c) = Some (hd es)"
    using step_at(2) [OF f(1), of 0] f(2,3) step_id_cong [of ?c0 c]
    by (simp add: step_id_at_cursor bound_def nth_append hd_conv_nth)
  moreover have "digest_of_value (canonical (digest_value ?d)) = Some ?d"
    using manifest_digest_valid [OF assms(1)] by (simp add: digest_value_def)
  ultimately have "begin_definition_step X ?d (dr_fresh1 w) (dr_now1 w) ?c0 L =
      (Inr (Replayed (handle_of (hd es)) (Inr ?d)), ?c1, L)"
    using f(3) by (simp add: begin_definition_step_def begin_step_raw_def Let_def bound_def resume_entry_def advance_cursor_def)
  then have "bind_manifest_digest X m w ?c0 L = (Inr (), ?c1, L)" by (simp add: bind_manifest_digest_def)
  then show ?thesis
    using new n(2) machine_tail [OF assms(3)] by (simp add: machine_new_def validate_workflow_iff [THEN iffD2])
qed

text \<open>A run with no history, or whose start was interrupted.\<close>

definition unstarted :: "ext \<Rightarrow> string \<Rightarrow> workflow_manifest \<Rightarrow> ledger \<Rightarrow> bool" where
  "unstarted X run_id m L \<longleftrightarrow> (\<exists>c. at_frontier X c L [] \<and> names_of c = machine_names run_id m)"

lemma new_unstarted:
  assumes "wf_ext X" "wf_serde X" "at_frontier X c L []" "names_of c = machine_names run_id m"
    and "new_with_definition X run_id (wm_id m) (decimal (unat (wm_version m))) L = Inr c'"
  shows "c' = c"
proof -
  have "engine_inv X c L" "c\<lparr>cx_cursor := 0\<rparr> = c" using assms(3) by (simp_all add: at_frontier_def)
  then show ?thesis
    using rehydrates [OF assms(1,2), of c L] new_fields [OF assms(5)] assms(4,5)
    by (simp add: names_of_def machine_names_def)
qed

lemma machine_bound:
  assumes "wf_ext X" "wf_serde X" "at_frontier X c L []" "names_of c = machine_names run_id m"
    and "wm_initial_state m = Some initial" "wf_workflow m"
    and "new_with_definition X run_id (wm_id m) (decimal (unat (wm_version m))) L = Inr c"
    and "bind_manifest_digest X m w c L = (Inr (), c1, L1)"
  shows "machine_at X run_id m c1 L1 (initial, None)"
    "machine_new X run_id m w L = (Inr \<lparr>mc_ctx = c1, mc_manifest = m, mc_current_state = Some initial\<rparr>, L1)"
proof -
  note d = record_durable(3) [OF assms(1-3), of m w, unfolded assms(8) durable_def]
  then obtain e where e: "at_frontier X c1 L1 [e]" "bound X m [e]" "names_of c1 = machine_names run_id m"
    using assms(4) by (auto simp: bound_def)
  have "replay_fold X m [e] (initial, None) = Inr (initial, None)"
    using e(2) manifest_digest_valid [OF assms(1)] by (simp add: bound_def replay_step_def digest_value_def)
  then show m: "machine_at X run_id m c1 L1 (initial, None)"
    using e assms(5,6) new_fields [OF assms(7)] by (auto simp: machine_at_def)
  have "none_open_behind c1" using e(1,2) by (auto simp: none_open_behind_def at_frontier_def bound_def)
  then show "machine_new X run_id m w L = (Inr \<lparr>mc_ctx = c1, mc_manifest = m, mc_current_state = Some initial\<rparr>, L1)"
    using assms(6-8) machine_tail [OF m, of "cx_cursor c1"] resume_same [OF e(1)]
    by (simp add: machine_new_def validate_workflow_iff [THEN iffD2])
qed

lemma machine_start:
  assumes "wf_ext X" "wf_serde X" "unstarted X run_id m L" "wm_initial_state m = Some initial"
    and "machine_new X run_id m w L = (r, L')"
  shows "(\<exists>err. r = Inl err) \<and> unstarted X run_id m L' \<or>
    (\<exists>c. r = Inr \<lparr>mc_ctx = c, mc_manifest = m, mc_current_state = Some initial\<rparr> \<and>
      machine_at X run_id m c L' (initial, None))"
proof -
  obtain c where c: "at_frontier X c L []" "names_of c = machine_names run_id m"
    using assms(3) by (auto simp: unstarted_def)
  consider (early) err where "r = Inl err" "L' = L"
    | (begun) "wf_workflow m" "new_with_definition X run_id (wm_id m) (decimal (unat (wm_version m))) L = Inr c"
    using assms(5) new_unstarted [OF assms(1,2) c]
    by (auto simp: machine_new_def validate_workflow_iff [symmetric] split: sum.splits)
  then show ?thesis
  proof cases
    case early
    then show ?thesis using assms(3) by simp
  next
    case begun
    then have v: "validate_workflow m = Inr ()" by (simp add: validate_workflow_iff)
    obtain u c1 L1 where op: "bind_manifest_digest X m w c L = (u, c1, L1)" by (metis prod_cases3)
    note d = record_durable(3) [OF assms(1,2) c(1), of m w, unfolded op durable_def]
    show ?thesis
    proof (cases u)
      case (Inl err)
      then have "r = Inl err" "L' = L1" using assms(5) begun v op by (simp_all add: machine_new_def)
      then show ?thesis using d Inl c(2) by (auto simp: unstarted_def names_of_def)
    next
      case (Inr y)
      with op machine_bound [OF assms(1,2) c assms(4) begun] assms(5) show ?thesis by auto
    qed
  qed
qed

section \<open>Transitions\<close>

definition wf_tables :: "approval_tables \<Rightarrow> bool" where
  "wf_tables T \<longleftrightarrow> (\<forall>q\<in>set (at_requests T).
     (\<forall>a. rq_payload_ref q = Some a \<longrightarrow> digest_is_valid (digest_str (ar_digest a))) \<and>
     (\<forall>d. rq_target_digest q = Some d \<longrightarrow> digest_is_valid (digest_str d)))"

lemma prepared_binding:
  assumes "wf_tables T" "prepare_entry_binding X T target action q = Inr b"
  shows "eb_target_state b = target" "entry_binding_of (canonical (entry_binding_value b)) = Some b"
proof -
  obtain i request where r: "q = Some i" "find_action_request T i = Some request"
    using assms(2) by (auto simp: prepare_entry_binding_def split: option.splits if_splits)
  then have "request \<in> set (at_requests T)"
    using find_hit [of "\<lambda>q. rq_id q = i" "at_requests T" request] by (simp add: find_action_request_def)
  then have v: "digest_is_valid (digest_str (eb_payload_digest b))" "digest_is_valid (digest_str (eb_target_digest b))"
    using assms r by (auto simp: prepare_entry_binding_def wf_tables_def split: option.splits if_splits)
  then show "entry_binding_of (canonical (entry_binding_value b)) = Some b" by (rule binding_round_trip)
  show "eb_target_state b = target"
    using assms(2) by (auto simp: prepare_entry_binding_def split: option.splits if_splits)
qed

text \<open>A completed entry extends the history by one step of the abstract machine.\<close>

lemma machine_extend:
  assumes "machine_at X run_id m c L st" "at_frontier X c L es" "names_of c' = names_of c"
    and "at_frontier X c' L' (es @ [e])" "replay_step X m e st = Inr st'"
  shows "machine_at X run_id m c' L' st'"
proof -
  obtain fs initial where f: "at_frontier X c L fs" "bound X m fs" "wm_initial_state m = Some initial"
    "replay_fold X m fs (initial, None) = Inr st"
    using assms(1) by (auto simp: machine_at_def)
  have "fs = es" using f(1) assms(2) by (auto simp: at_frontier_def append_eq_append_conv)
  then have "bound X m (es @ [e])" "replay_fold X m (es @ [e]) (initial, None) = Inr st'"
    using f assms(5) by (simp_all add: bound_def replay_fold_append)
  with assms(1,3,4) f(3) show ?thesis by (auto simp: machine_at_def)
qed

lemma machine_stay:
  assumes "machine_at X run_id m c L st" "at_frontier X c L es" "names_of c' = names_of c"
    and "at_frontier X c' L' es"
  shows "machine_at X run_id m c' L' st"
proof -
  obtain fs initial where f: "at_frontier X c L fs" "bound X m fs" "wm_initial_state m = Some initial"
    "replay_fold X m fs (initial, None) = Inr st"
    using assms(1) by (auto simp: machine_at_def)
  have "fs = es" using f(1) assms(2) by (auto simp: at_frontier_def append_eq_append_conv)
  with assms f show ?thesis by (auto simp: machine_at_def)
qed

lemma machine_at_binding:
  assumes "machine_at X run_id m c L (s, b)"
  shows "entry_binding_for_state c s = Inr b"
proof -
  obtain es initial pend where "cx_steps c = es @ pend" "\<forall>e\<in>set pend. se_completed e = None"
    "replay_fold X m es (initial, None) = Inr (s, b)"
    using assms unfolding machine_at_def at_frontier_def by auto
  then have "replay_fold X m (cx_steps c) (initial, None) = Inr (s, b)"
    by (simp add: replay_fold_append replay_idle)
  from binding_scan_fold [OF this] show ?thesis by (simp add: entry_binding_for_state_def)
qed

text \<open>The binding the request of the caller gives on entry.\<close>

definition entered_with :: "ext \<Rightarrow> approval_tables \<Rightarrow> ulid option \<Rightarrow> string \<Rightarrow> entry_binding option \<Rightarrow> bool" where
  "entered_with X T q t b \<longleftrightarrow> (\<forall>x. b = Some x \<longrightarrow> (\<exists>action. prepare_entry_binding X T t (Some action) q = Inr x))"

definition lands ::
  "ext \<Rightarrow> string \<Rightarrow> workflow_manifest \<Rightarrow> string \<times> entry_binding option \<Rightarrow> approval_tables \<Rightarrow> ulid option \<Rightarrow> string \<Rightarrow>
     workflow_ctx \<Rightarrow> unit machine_op \<Rightarrow> bool" where
  "lands X run_id m st T q t c op \<longleftrightarrow> (case op of
     (Inl err, c', L') \<Rightarrow> machine_at X run_id m c' L' st \<and>
       (cx_steps c' = cx_steps c \<or> (\<exists>e. cx_steps c' = take (cx_cursor c) (cx_steps c) @ [e]))
   | (Inr _, c', L') \<Rightarrow> \<exists>b'. machine_at X run_id m c' L' (t, b') \<and> flow m st (t, b') \<and> entered_with X T q t b')"

lemma durable_lands:
  assumes "machine_at X run_id m c L st" "at_frontier X c L es" "durable X kind inputs v es c op"
    and "\<And>e. se_kind e = kind \<Longrightarrow> se_input_digest e = digest_inputs X inputs \<Longrightarrow>
      se_completed e = Some (OutcomeOk v) \<Longrightarrow> replay_step X m e st = Inr (t, b')"
    and "entered_with X T q t b'" "flow m st (t, b')"
  shows "lands X run_id m st T q t c op"
proof -
  obtain r c' L' where op: "op = (r, c', L')" by (cases op)
  show ?thesis
  proof (cases r)
    case (Inl err)
    have n: "names_of c' = names_of c" using assms(3) Inl by (simp add: op durable_def)
    consider (kept) "at_frontier X c' L' es" "cx_steps c' = cx_steps c"
      | (open_step) e where "at_frontier X c' L' (es @ [e])" "se_completed e = None" "cx_steps c' = es @ [e]"
      using assms(3) Inl by (auto simp: op durable_def)
    then show ?thesis
    proof cases
      case kept
      then show ?thesis using machine_stay [OF assms(1,2) n] Inl by (simp add: op lands_def)
    next
      case (open_step e)
      have "replay_step X m e st = Inr st" using open_step(2) by (simp add: replay_step_def split: prod.split)
      moreover have "cx_steps c' = take (cx_cursor c) (cx_steps c) @ [e]"
        using open_step(3) assms(2) by (auto simp: at_frontier_def)
      ultimately show ?thesis using machine_extend [OF assms(1,2) n open_step(1)] Inl by (auto simp: op lands_def)
    qed
  next
    case (Inr u)
    then obtain e where "names_of c' = names_of c" "at_frontier X c' L' (es @ [e])" "se_kind e = kind"
      "se_input_digest e = digest_inputs X inputs" "se_completed e = Some (OutcomeOk v)"
      using assms(3) unfolding op durable_def by auto
    then have "machine_at X run_id m c' L' (t, b')"
      using machine_extend [OF assms(1,2)] assms(4) by blast
    with Inr assms(5,6) show ?thesis unfolding op lands_def by auto
  qed
qed

lemma approval_edges:
  assumes "wf_workflow m" "has_edge m s t" "approval_of m s = Some Required"
  shows "approval_of m t \<noteq> Some Required"
proof -
  have q: "i \<in> approval_states (wm_states m)" if r: "approval_of m i = Some Required" for i
  proof -
    obtain st where st: "find_state m i = Some st" "wss_approval st = Required"
      using r by (auto simp: approval_of_def)
    then have "st \<in> set (wm_states m)" "wss_id st = i"
      using find_hit [of "\<lambda>st. wss_id st = i" "wm_states m" st] by (simp_all add: find_state_def)
    then show ?thesis using st(2) by (auto simp: approval_states_def)
  qed
  obtain e where "e \<in> set (wm_transitions m)" "wt_from e = s" "wt_to e = t"
    using assms(2) by (auto simp: has_edge_def list_ex_iff)
  with assms(1) have "\<not> (s \<in> approval_states (wm_states m) \<and> t \<in> approval_states (wm_states m))"
    unfolding wf_workflow_def by blast
  with q assms(3) show ?thesis by blast
qed

lemma transition_record_lands:
  assumes "wf_ext X" "wf_serde X" "wf_tables T" "machine_at X run_id m c L (s, b)" "has_edge m s t"
    and "find_state m s = Some src" "find_state m t = Some dst"
  shows "lands X run_id m (s, b) T q t c (transition_record X P T s src t dst q clock1 clock2 w c L)" (is "lands _ _ _ _ _ _ _ _ ?op")
proof -
  obtain es where f: "at_frontier X c L es" using assms(4) by (auto simp: machine_at_def)
  note d = durable_lands [OF assms(4) f]
  have a: "approval_of m s = Some (wss_approval src)" "approval_of m t = Some (wss_approval dst)"
    using assms(6,7) by (simp_all add: approval_of_def)
  have excl: "wss_approval dst = NoApproval" if "wss_approval src = Required"
    using approval_edges [of m s t] assms(4,5) a that by (auto simp: machine_at_def not_required)
  have refused: "lands X run_id m (s, b) T q t c (Inl err, c, L)" for err
    using assms(4) by (auto simp: lands_def)
  consider (stop) err where "?op = (Inl err, c, L)"
    | (enter) b0 where "wss_approval src = NoApproval" "wss_approval dst = Required"
        "prepare_entry_binding X T t (wss_approval_action dst) q = Inr b0" "?op = record_entry_binding X s b0 w c L"
    | (leave) b0 where "wss_approval src = Required" "wss_approval dst = NoApproval" "b = Some b0"
        "departure_refusal P T s b0 clock2 = None" "?op = record_gated_departure X P T s t b0 clock2 w c L"
    | (plain) "wss_approval src = NoApproval" "wss_approval dst = NoApproval" "?op = record_plain_transition X s t w c L"
  proof (cases "wss_approval src")
    case Required
    show thesis
    proof (cases "authorize_departure P T c s q clock1")
      case (Inl err)
      then show thesis using Required by (intro stop [of err]) (simp add: transition_record_def)
    next
      case (Inr p)
      obtain i b0 where p: "p = (i, b0)" by (cases p)
      then have "b = Some b0" using Inr machine_at_binding [OF assms(4)]
        by (auto simp: authorize_departure_def split: option.splits if_splits)
      moreover have op: "?op = record_gated_departure X P T s t b0 clock2 w c L"
        using Required Inr p excl by (simp add: transition_record_def)
      ultimately show thesis
      proof (cases "departure_refusal P T s b0 clock2")
        case (Some err)
        then show thesis unfolding op
          by (intro stop) (simp add: op record_gated_departure_def begin_authorized_gated_departure_step_def)
      qed (use leave Required excl in auto)
    qed
  next
    case NoApproval
    show thesis
    proof (cases "wss_approval dst")
      case Required
      then show thesis
        using NoApproval by (cases "prepare_entry_binding X T t (wss_approval_action dst) q")
          (auto simp: transition_record_def intro: stop enter)
    qed (use NoApproval plain in \<open>auto simp: transition_record_def\<close>)
  qed
  then show ?thesis
  proof cases
    case stop
    then show ?thesis using refused by simp
  next
    case enter
    note p = prepared_binding [OF assms(3) enter(3)]
    obtain action where action: "prepare_entry_binding X T t (Some action) q = Inr b0"
      using enter(3) by (cases "wss_approval_action dst") (auto simp: prepare_entry_binding_def)
    have "flow m (s, b) (t, Some b0)" using flow_enter [of m s b0 b] p(1) a assms(5) enter by simp
    then show ?thesis unfolding enter(4)
      by (rule d [OF record_durable(2) [OF assms(1,2) f], rotated 2])
        (use p enter assms(5-7) action in \<open>simp_all add: replay_step_def entered_with_def, blast\<close>)
  next
    case leave
    have "flow m (s, b) (t, None)" using flow_leave [of m s t b0] a assms(5) leave by simp
    then show ?thesis unfolding leave(5)
      by (rule d [OF record_durable(4) [OF assms(1,2) f leave(4)], rotated 2])
        (use leave assms(5-7) in \<open>simp_all add: replay_step_def entered_with_def\<close>)
  next
    case plain
    have "flow m (s, b) (t, None)" using flow_plain [of m s t b] a assms(5) plain by simp
    then show ?thesis unfolding plain(3)
      by (rule d [OF record_durable(1) [OF assms(1,2) f], rotated 2])
        (use plain assms(5-7) in \<open>simp_all add: replay_step_def entered_with_def\<close>)
  qed
qed

end
