(* ===== verification/Machine_Life.thy ===== *)
theory Machine_Life
  imports Machine_Recovery
begin

text \<open>
  The life of a state machine across crashes and restarts (\<open>machine_life\<close>), and the properties of
  the machine: every accepted history is a run of the manifest, each transition refines a step of
  the abstract machine, an approval state is left only with its approval, and a restart recovers
  the machine.
\<close>

section \<open>Lives\<close>

text \<open>
  \<open>None\<close> is a run with no machine in memory. A transition that fails leaves the machine as the
  failure left it: the caller may try again on it, or lose it in a crash and build it anew. Other
  writers may append to the ledger what does not concern the run. A machine that was used again
  after a failure may have gone past the step the failure left open; it lives on, but its life is
  not followed past a crash, since a machine rebuilt there has its cursor back at the open step
  (\<open>machine_recovers\<close> states what is rebuilt there too).
\<close>

inductive machine_life ::
  "ext \<Rightarrow> text_parsers \<Rightarrow> string \<Rightarrow> workflow_manifest \<Rightarrow> workflow_machine option \<Rightarrow> ledger \<Rightarrow> bool"
  for X P run_id m where
  life_idle: "ledger_run X L \<Longrightarrow> run_events run_id L = [] \<Longrightarrow> \<forall>s. step_map L (run_id, s) = None \<Longrightarrow>
    machine_life X P run_id m None L"
| life_refused: "machine_life X P run_id m None L \<Longrightarrow> machine_new X run_id m w L = (Inl err, L') \<Longrightarrow>
    machine_life X P run_id m None L'"
| life_boot: "machine_life X P run_id m None L \<Longrightarrow> machine_new X run_id m w L = (Inr M, L') \<Longrightarrow>
    machine_life X P run_id m (Some M) L'"
| life_step: "machine_life X P run_id m (Some M) L \<Longrightarrow> wf_tables T \<Longrightarrow>
    transition_to X P T t q clock1 clock2 w M L = (Inr (), M', L') \<Longrightarrow> machine_life X P run_id m (Some M') L'"
| life_fail: "machine_life X P run_id m (Some M) L \<Longrightarrow> wf_tables T \<Longrightarrow>
    transition_to X P T t q clock1 clock2 w M L = (Inl err, M', L') \<Longrightarrow> machine_life X P run_id m (Some M') L'"
| life_crash: "machine_life X P run_id m (Some M) L \<Longrightarrow> unbroken (mc_ctx M) \<Longrightarrow> machine_life X P run_id m None L"
| life_other: "machine_life X P run_id m M L \<Longrightarrow> ledger_step X L L' \<Longrightarrow>
    run_events run_id L' = run_events run_id L \<Longrightarrow> \<forall>s. step_map L' (run_id, s) = step_map L (run_id, s) \<Longrightarrow>
    machine_life X P run_id m M L'"

definition life_inv :: "ext \<Rightarrow> string \<Rightarrow> workflow_manifest \<Rightarrow> workflow_machine option \<Rightarrow> ledger \<Rightarrow> bool" where
  "life_inv X run_id m M L \<longleftrightarrow> (case M of
     None \<Rightarrow> wm_initial_state m = None \<or> unstarted X run_id m L \<or> (\<exists>c st. machine_at X run_id m c L st \<and> unbroken c)
   | Some M' \<Rightarrow> \<exists>s b. mc_manifest M' = m \<and> mc_current_state M' = Some s \<and> machine_at X run_id m (mc_ctx M') L (s, b))"

text \<open>What a failure does to the entries: nothing, or the step it began is left open at the cursor.\<close>

definition continues :: "workflow_ctx \<Rightarrow> workflow_ctx \<Rightarrow> bool" where
  "continues c c' \<longleftrightarrow> cx_steps c' = cx_steps c \<or> (\<exists>e. cx_steps c' = take (cx_cursor c) (cx_steps c) @ [e])"

lemma transition_lands:
  assumes "wf_ext X" "wf_serde X" "wf_tables T" "mc_manifest M = m" "mc_current_state M = Some s"
    and "machine_at X run_id m (mc_ctx M) L (s, b)" "transition_to X P T t q clock1 clock2 w M L = (r, M', L')"
  shows "(\<exists>err. r = Inl err) \<and> mc_manifest M' = m \<and> mc_current_state M' = Some s \<and>
      machine_at X run_id m (mc_ctx M') L' (s, b) \<and> continues (mc_ctx M) (mc_ctx M') \<or>
    r = Inr () \<and> mc_manifest M' = m \<and> mc_current_state M' = Some t \<and>
      (\<exists>b'. machine_at X run_id m (mc_ctx M') L' (t, b') \<and> flow m (s, b) (t, b') \<and> entered_with X T q t b')"
proof -
  consider (refused) err where "r = Inl err" "L' = L" "M' = M"
    | (tried) src dst where "has_edge m s t" "find_state m s = Some src" "find_state m t = Some dst"
    using assms(4,5,7) by (auto simp: transition_to_def split: if_splits option.splits)
  then show ?thesis
  proof cases
    case refused
    then show ?thesis using assms(4-6) by (simp add: continues_def)
  next
    case (tried src dst)
    let ?op = "transition_record X P T s src t dst q clock1 clock2 w (mc_ctx M) L"
    obtain u c' L1 where op: "?op = (u, c', L1)" by (metis prod_cases3)
    have "lands X run_id m (s, b) T q t (mc_ctx M) (u, c', L1)"
      using transition_record_lands [OF assms(1-3,6) tried, of q P clock1 clock2 w] op by simp
    then show ?thesis
      using assms(4,5,7) tried op by (cases u) (auto simp: transition_to_def lands_def continues_def)
  qed
qed

lemma inv_other:
  assumes "engine_inv X c L" "ledger_step X L L'" "run_events (cx_run_id c) L' = run_events (cx_run_id c) L"
    and "\<forall>s. step_map L' (cx_run_id c, s) = step_map L (cx_run_id c, s)"
  shows "engine_inv X c L'"
  using assms run_step by (auto simp: engine_inv_def registered_def)

lemma frontier_other:
  assumes "ledger_step X L L'" "run_events run_id L' = run_events run_id L"
    and "\<forall>s. step_map L' (run_id, s) = step_map L (run_id, s)"
  shows "at_frontier X c L es \<Longrightarrow> names_of c = machine_names run_id m \<Longrightarrow> at_frontier X c L' es"
    "machine_at X run_id m c L st \<Longrightarrow> machine_at X run_id m c L' st"
    "unstarted X run_id m L \<Longrightarrow> unstarted X run_id m L'"
proof -
  show f: "at_frontier X c L' es" if "at_frontier X c L es" "names_of c = machine_names run_id m" for c es
    using that assms inv_other [of X c L L'] by (auto simp: at_frontier_def names_of_def machine_names_def)
  show "machine_at X run_id m c L st \<Longrightarrow> machine_at X run_id m c L' st"
    using f unfolding machine_at_def by blast
  show "unstarted X run_id m L \<Longrightarrow> unstarted X run_id m L'"
    using f unfolding unstarted_def by blast
qed

lemma new_initial: "machine_new X run_id m w L = (Inr M, L') \<Longrightarrow> wm_initial_state m \<noteq> None"
  by (auto simp: machine_new_def validate_state_machine_replay_def split: sum.splits prod.splits option.splits)

lemma life_invariant:
  assumes "machine_life X P run_id m M L" "wf_ext X" "wf_serde X"
  shows "life_inv X run_id m M L"
  using assms(1)
proof (induction rule: machine_life.induct)
  case (life_idle L)
  let ?c = "\<lparr>cx_run_id = run_id, cx_definition_id = wm_id m,
    cx_definition_version = decimal (unat (wm_version m)), cx_steps = [], cx_cursor = 0\<rparr>"
  have "at_frontier X ?c L []"
    using life_idle by (simp add: at_frontier_def engine_inv_def registered_def find_entry_def ordered_def done_ids_def)
  moreover have "names_of ?c = machine_names run_id m" by (simp add: names_of_def machine_names_def)
  ultimately show ?case by (auto simp: life_inv_def unstarted_def)
next
  case (life_refused L w err L')
  show ?case
  proof (cases "wm_initial_state m")
    case (Some initial)
    then consider "unstarted X run_id m L" | c s b where "machine_at X run_id m c L (s, b)"
      using life_refused.IH by (auto simp: life_inv_def)
    then show ?thesis
    proof cases
      case 1
      from machine_start [OF assms(2,3) this Some life_refused(2)] show ?thesis by (simp add: life_inv_def)
    next
      case 2
      from machine_recovery [OF assms(2,3) this, of w] life_refused(2) show ?thesis by simp
    qed
  qed (simp add: life_inv_def)
next
  case (life_boot L w M L')
  obtain initial where i: "wm_initial_state m = Some initial" using new_initial [OF life_boot(2)] by blast
  then consider "unstarted X run_id m L" | c s b where "machine_at X run_id m c L (s, b)" "unbroken c"
    using life_boot.IH by (auto simp: life_inv_def)
  then show ?case
  proof cases
    case 1
    from machine_start [OF assms(2,3) this i life_boot(2)] show ?thesis by (auto simp: life_inv_def)
  next
    case 2
    from machine_recovery [OF assms(2,3) 2(1), of w] life_boot(2) machine_resumed [OF 2] show ?thesis
      by (auto simp: life_inv_def)
  qed
next
  case (life_step M L T t q clock1 clock2 w M' L')
  then show ?case using transition_lands [OF assms(2,3) life_step(2) _ _ _ life_step(3)] by (fastforce simp: life_inv_def)
next
  case (life_fail M L T t q clock1 clock2 w err M' L')
  then show ?case using transition_lands [OF assms(2,3) life_fail(2) _ _ _ life_fail(3)] by (fastforce simp: life_inv_def)
next
  case (life_crash M L)
  then show ?case by (auto simp: life_inv_def)
next
  case (life_other M L L')
  then show ?case using frontier_other(2,3) [OF life_other(2-4), of m] unfolding life_inv_def by (cases M; simp; blast)
qed

section \<open>Approved departures\<close>

text \<open>The request and the approval the recorded binding asks for, at a clock reading.\<close>

definition approved ::
  "text_parsers \<Rightarrow> approval_tables \<Rightarrow> entry_binding \<Rightarrow> ulid option \<Rightarrow> timestamp \<Rightarrow> bool" where
  "approved P T b q clock \<longleftrightarrow> (\<exists>i request payload approval. q = Some i \<and> ulid_parse P (eb_request_id b) = Some i \<and>
     find_action_request T i = Some request \<and> as_str (rq_action request) = eb_action b \<and>
     rq_payload_ref request = Some payload \<and> ar_digest payload = eb_payload_digest b \<and>
     rq_target_digest request = Some (eb_target_digest b) \<and> find_approval_for_request T i = Some approval \<and>
     approval_matches approval (eb_payload_digest b) (eb_target_digest b) clock)"

lemma departure_refusal_iff:
  assumes "ulid_parse P (eb_request_id b) = q" "q \<noteq> None"
  shows "departure_refusal P T from b clock = None \<longleftrightarrow> eb_target_state b = from \<and> approved P T b q clock"
  using assms by (auto simp: departure_refusal_def approved_def split: option.splits if_splits)

lemma authorize_binding:
  assumes "authorize_departure P T c s q clock = Inr (i, b)"
  shows "entry_binding_for_state c s = Inr (Some b)" "q = Some i" "ulid_parse P (eb_request_id b) = Some i"
    "\<exists>approval. find_approval_for_request T i = Some approval \<and>
       approval_matches approval (eb_payload_digest b) (eb_target_digest b) clock"
  using assms by (auto simp: authorize_departure_def split: sum.splits option.splits if_splits)

lemma authorize_approved:
  assumes "entry_binding_for_state c s = Inr (Some b)" "approved P T b q clock"
  shows "\<exists>i. authorize_departure P T c s q clock = Inr (i, b)"
  using assms by (auto simp: authorize_departure_def approved_def)

lemma binding_scan_target: "binding_scan s es = Inr (Some b) \<Longrightarrow> eb_target_state b = s"
  by (induction es) (auto split: if_splits option.splits outcome.splits)

lemma approved_clock:
  assumes "approved P T b q clock" "find_approval_for_request T (the q) = Some approval"
    and "approval_matches approval (eb_payload_digest b) (eb_target_digest b) clock'"
  shows "approved P T b q clock'"
  using assms by (auto simp: approved_def)

lemma departure_approved:
  assumes "mc_current_state M = Some s" "approval_of (mc_manifest M) s = Some Required"
    and "wf_workflow (mc_manifest M)" "transition_to X P T t q clock1 clock2 w M L = (Inr (), M', L')"
  shows "\<exists>b. entry_binding_for_state (mc_ctx M) s = Inr (Some b) \<and> eb_target_state b = s \<and>
    approved P T b q clock1 \<and> approved P T b q clock2"
proof -
  obtain src dst where st: "has_edge (mc_manifest M) s t" "find_state (mc_manifest M) s = Some src"
    "find_state (mc_manifest M) t = Some dst"
    and op: "\<exists>c'. transition_record X P T s src t dst q clock1 clock2 w (mc_ctx M) L = (Inr (), c', L')"
    using assms(1,4) by (auto simp: transition_to_def split: if_splits option.splits prod.splits sum.splits)
  have r: "wss_approval src = Required" "wss_approval dst = NoApproval"
    using assms(2) approval_edges [OF assms(3) st(1) assms(2)] st by (simp_all add: approval_of_def not_required)
  then obtain i b where a: "authorize_departure P T (mc_ctx M) s q clock1 = Inr (i, b)"
    "\<exists>c'. record_gated_departure X P T s t b clock2 w (mc_ctx M) L = (Inr (), c', L')"
    using op by (cases "authorize_departure P T (mc_ctx M) s q clock1") (auto simp: transition_record_def)
  note b = authorize_binding [OF a(1)]
  have "departure_refusal P T s b clock2 = None"
    using a(2) by (cases "departure_refusal P T s b clock2")
      (auto simp: record_gated_departure_def begin_authorized_gated_departure_step_def)
  then have "eb_target_state b = s" "approved P T b q clock2" using departure_refusal_iff [OF b(3)] b(2) by auto
  moreover from this b(2,4) have "approved P T b q clock1" by (auto intro: approved_clock)
  ultimately show ?thesis using b(1) by blast
qed

section \<open>Transitions that succeed\<close>

text \<open>The identifiers drawn for the two records of a step are new and the ledger has room for them.\<close>

definition step_room :: "ext \<Rightarrow> step_draws \<Rightarrow> ledger \<Rightarrow> bool" where
  "step_room X w L \<longleftrightarrow> ulid_text X (dr_fresh1 w) \<noteq> ulid_text X (dr_fresh2 w) \<and>
     {ulid_text X (dr_fresh1 w), ulid_text X (dr_fresh2 w)} \<inter> ulid_text X ` ae_id ` set (ledger_events L) = {} \<and>
     int (length (ledger_events L)) + 2 < 2 ^ 63"

definition settled :: "workflow_ctx \<Rightarrow> bool" where
  "settled c \<longleftrightarrow> cx_cursor c = length (cx_steps c)"

definition wrote :: "step_draws \<Rightarrow> ledger \<Rightarrow> ledger \<Rightarrow> bool" where
  "wrote w L L' \<longleftrightarrow> (\<exists>ev1 ev2. ledger_events L' = ledger_events L @ [ev1, ev2] \<and>
     ae_id ev1 = dr_fresh1 w \<and> ae_id ev2 = dr_fresh2 w)"

definition goes_through :: "step_draws \<Rightarrow> ledger \<Rightarrow> unit machine_op \<Rightarrow> bool" where
  "goes_through w L op \<longleftrightarrow> (\<exists>c' L'. op = (Inr (), c', L') \<and> settled c' \<and> wrote w L L')"

lemma step_accepted:
  assumes "wf_ext X" "wf_serde X" "engine_inv X c L" "settled c" "kind \<noteq> []" "step_room X w L"
    and "wf_json (to_value x)" "plain_json (to_value x)"
  shows "\<exists>h key c1 L1. begin_step_raw X from_value kind inputs (dr_fresh1 w) (dr_now1 w) c L = (Inr (Fresh h key), c1, L1) \<and>
    goes_through w L (close_step X to_value h x w c1 L1)"
proof -
  have run: "ledger_run X L" using assms(3) by (simp add: engine_inv_def)
  have r1: "roomy X (dr_fresh1 w) L"
    by (rule roomyI [OF run assms(1)]) (use assms(6) in \<open>auto simp: step_room_def\<close>)
  obtain e L1 ev1 where b: "begin_step_raw X from_value kind inputs (dr_fresh1 w) (dr_now1 w) c L =
      (Inr (Fresh (handle_of e) (cx_run_id c @ '':'' @ step_id_at c)), advance_cursor (c\<lparr>cx_steps := cx_steps c @ [e]\<rparr>), L1)"
    "se_kind e = kind" "se_receipt e = None" "se_completed e = None"
    "ledger_events L1 = ledger_events L @ [ev1]" "ae_id ev1 = dr_fresh1 w"
    using begin_accepted [OF assms(1-3) assms(4) [unfolded settled_def] assms(5) r1, of from_value inputs "dr_now1 w"]
    by blast
  let ?c1 = "advance_cursor (c\<lparr>cx_steps := cx_steps c @ [e]\<rparr>)"
  have i1: "engine_inv X ?c1 L1" by (rule begin_step_inv [OF assms(1-3) b(1)])
  have h: "entry_of_handle ?c1 (handle_of e) = Inr e"
    by (rule handle_entry [OF inv_distinct [OF i1]]) (simp add: advance_cursor_def)
  have "roomy X (dr_fresh2 w) L1"
    by (rule roomyI [OF _ assms(1)]) (use i1 b(5,6) assms(6) in \<open>auto simp: engine_inv_def step_room_def\<close>)
  moreover have "wf_outcome (outcome_value to_value (Inr x))"
    using assms(7,8) by (simp add: wf_canonical plain_canonical canonical_idem)
  ultimately obtain L2 ev2 where c: "complete_step X to_value (handle_of e) (Inr x) (dr_fresh2 w) (dr_now2 w) ?c1 L1 =
      (Inr (), set_handle_entry (handle_of e) (\<lambda>e. e\<lparr>se_completed := Some (outcome_value to_value (Inr x))\<rparr>) ?c1, L2)"
    "ledger_events L2 = ledger_events L1 @ [ev2]" "ae_id ev2 = dr_fresh2 w"
    using complete_accepted [OF assms(1,2) i1 h b(4) _ b(3), of "dr_fresh2 w" to_value "Inr x" "dr_now2 w"] b(2) assms(5)
    by blast
  have "settled (set_handle_entry (handle_of e) (\<lambda>e. e\<lparr>se_completed := Some (outcome_value to_value (Inr x))\<rparr>) ?c1)"
    unfolding set_handle_entry_eq [OF inv_distinct [OF i1] h]
    using assms(4) by (simp add: settled_def advance_cursor_def set_entry_maps(2))
  then have "goes_through w L (close_step X to_value (handle_of e) x w ?c1 L1)"
    using b(5,6) c by (simp add: goes_through_def close_step_def wrote_def)
  with b(1) show ?thesis by blast
qed

lemma record_accepted:
  assumes "wf_ext X" "wf_serde X" "engine_inv X c L" "settled c" "step_room X w L"
  shows "goes_through w L (record_plain_transition X from t w c L)"
    "goes_through w L (record_entry_binding X from b w c L)"
    "goes_through w L (bind_manifest_digest X m w c L)"
    "departure_refusal P T from b clock = None \<Longrightarrow> goes_through w L (record_gated_departure X P T from t b clock w c L)"
proof -
  note acc = step_accepted [OF assms(1-4) _ assms(5)]
  show "goes_through w L (record_plain_transition X from t w c L)"
    using acc [of TRANSITION_STEP_KIND transition_value t transition_of "transition_inputs from t"] payload_plain(1,2)
    by (auto simp: record_plain_transition_def begin_transition_step_def)
  show "goes_through w L (record_entry_binding X from b w c L)"
    using acc [of ENTRY_BINDING_STEP_KIND entry_binding_value b entry_binding_of "entry_inputs from b"] payload_plain(3,4)
    by (auto simp: record_entry_binding_def begin_entry_binding_step_def)
  show "goes_through w L (bind_manifest_digest X m w c L)"
    using acc [of DEFINITION_STEP_KIND digest_value "manifest_digest X m" digest_of_value "digest_value (manifest_digest X m)"]
      payload_plain(5,6)
    by (auto simp: bind_manifest_digest_def begin_definition_step_def)
  assume "departure_refusal P T from b clock = None"
  then show "goes_through w L (record_gated_departure X P T from t b clock w c L)"
    using acc [of APPROVAL_STEP_KIND transition_value t transition_of "departure_inputs from t b"] payload_plain(1,2)
    by (auto simp: record_gated_departure_def begin_authorized_gated_departure_step_def begin_gated_departure_step_def)
qed

text \<open>The request an approval state is entered with.\<close>

definition requested :: "approval_tables \<Rightarrow> workflow_state \<Rightarrow> ulid option \<Rightarrow> bool" where
  "requested T dst q \<longleftrightarrow> (\<exists>i request. q = Some i \<and> find_action_request T i = Some request \<and>
     wss_approval_action dst = Some (rq_action request) \<and> rq_payload_ref request \<noteq> None \<and> rq_target_digest request \<noteq> None)"

lemma requested_binding:
  "requested T dst q \<Longrightarrow> \<exists>b. prepare_entry_binding X T t (wss_approval_action dst) q = Inr b"
  by (auto simp: requested_def prepare_entry_binding_def)

text \<open>A transition the manifest declares and whose approvals are there.\<close>

definition enabled ::
  "text_parsers \<Rightarrow> approval_tables \<Rightarrow> workflow_machine \<Rightarrow> string \<Rightarrow> string \<Rightarrow> ulid option \<Rightarrow> timestamp \<Rightarrow> timestamp \<Rightarrow> bool" where
  "enabled P T M s t q clock1 clock2 \<longleftrightarrow> has_edge (mc_manifest M) s t \<and>
     (approval_of (mc_manifest M) s = Some Required \<longrightarrow>
       (\<exists>b. entry_binding_for_state (mc_ctx M) s = Inr (Some b) \<and> approved P T b q clock1 \<and> approved P T b q clock2)) \<and>
     (\<forall>dst. find_state (mc_manifest M) t = Some dst \<and> wss_approval dst = Required \<longrightarrow> requested T dst q)"

lemma edge_states:
  assumes "wf_workflow m" "has_edge m s t"
  shows "\<exists>src. find_state m s = Some src" "\<exists>dst. find_state m t = Some dst"
proof -
  obtain e where "e \<in> set (wm_transitions m)" "wt_from e = s" "wt_to e = t"
    using assms(2) by (auto simp: has_edge_def list_ex_iff)
  then have "s \<in> wss_id ` set (wm_states m)" "t \<in> wss_id ` set (wm_states m)"
    using assms(1) unfolding wf_workflow_def by blast+
  moreover have "\<exists>st. find_state m i = Some st" if "i \<in> wss_id ` set (wm_states m)" for i
    using that find_None_iff [of "\<lambda>st. wss_id st = i" "wm_states m"] by (auto simp: find_state_def)
  ultimately show "\<exists>src. find_state m s = Some src" "\<exists>dst. find_state m t = Some dst" by blast+
qed

lemma transition_progress:
  assumes "wf_ext X" "wf_serde X" "mc_manifest M = m" "mc_current_state M = Some s"
    and "machine_at X run_id m (mc_ctx M) L (s, b)" "settled (mc_ctx M)" "step_room X w L" "enabled P T M s t q clock1 clock2"
  shows "\<exists>M' L'. transition_to X P T t q clock1 clock2 w M L = (Inr (), M', L') \<and> settled (mc_ctx M') \<and>
    mc_manifest M' = m \<and> mc_current_state M' = Some t \<and> wrote w L L'"
proof -
  have e: "has_edge m s t" "wf_workflow m" using assms(3,5,8) by (simp_all add: enabled_def machine_at_def)
  obtain src dst where st: "find_state m s = Some src" "find_state m t = Some dst" using edge_states [OF e(2,1)] by blast
  have inv: "engine_inv X (mc_ctx M) L" using assms(5) by (auto simp: machine_at_def at_frontier_def)
  note acc = record_accepted [OF assms(1,2) inv assms(6,7)]
  have "goes_through w L (transition_record X P T s src t dst q clock1 clock2 w (mc_ctx M) L)"
  proof (cases "wss_approval src")
    case Required
    then obtain b where b: "entry_binding_for_state (mc_ctx M) s = Inr (Some b)" "approved P T b q clock1"
      "approved P T b q clock2"
      using assms(3,8) st(1) by (auto simp: enabled_def approval_of_def)
    then obtain i where "authorize_departure P T (mc_ctx M) s q clock1 = Inr (i, b)" using authorize_approved by blast
    moreover have "departure_refusal P T s b clock2 = None"
      using departure_refusal_iff [of P b q T s clock2] b binding_scan_target
      by (auto simp: entry_binding_for_state_def approved_def)
    moreover have "wss_approval dst = NoApproval"
      using approval_edges [OF e(2,1)] Required st by (auto simp: approval_of_def not_required)
    ultimately show ?thesis using acc(4) Required by (simp add: transition_record_def)
  next
    case NoApproval
    show ?thesis
    proof (cases "wss_approval dst")
      case Required
      then obtain b' where "prepare_entry_binding X T t (wss_approval_action dst) q = Inr b'"
        using requested_binding [of T dst q X t] assms(3,8) st(2) by (auto simp: enabled_def)
      then show ?thesis using acc(2) Required NoApproval by (simp add: transition_record_def)
    qed (use NoApproval acc(1) in \<open>simp add: transition_record_def\<close>)
  qed
  then show ?thesis using assms(3,4) e(1) st by (auto simp: goes_through_def transition_to_def)
qed

lemma idle_frontier:
  assumes "wf_ext X" "wf_serde X" "ledger_run X L" "run_events run_id L = []" "\<forall>s. step_map L (run_id, s) = None"
    and "CHR '':'' \<notin> set run_id" "CHR '':'' \<notin> set d" "CHR '':'' \<notin> set v"
  shows "\<exists>c. new_with_definition X run_id d v L = Inr c \<and> at_frontier X c L [] \<and> settled c \<and> names_of c = (run_id, d, v)"
  using run_new [OF assms(1-3,6-8)] assms(3-5)
  by (simp add: pair_steps_def at_frontier_def engine_inv_def registered_def find_entry_def ordered_def done_ids_def
      settled_def names_of_def)

lemma boot_progress:
  assumes "wf_ext X" "wf_serde X" "ledger_run X L" "run_events run_id L = []" "\<forall>s. step_map L (run_id, s) = None"
    and "CHR '':'' \<notin> set run_id" "CHR '':'' \<notin> set (wm_id m)" "CHR '':'' \<notin> set (decimal (unat (wm_version m)))"
    and "wf_workflow m" "wm_initial_state m = Some initial" "step_room X w L"
  shows "\<exists>M L'. machine_new X run_id m w L = (Inr M, L') \<and> settled (mc_ctx M) \<and> mc_manifest M = m \<and>
    mc_current_state M = Some initial \<and> wrote w L L'"
proof -
  obtain c where c: "new_with_definition X run_id (wm_id m) (decimal (unat (wm_version m))) L = Inr c"
    "at_frontier X c L []" "settled c" "names_of c = machine_names run_id m"
    using idle_frontier [OF assms(1-8)] by (auto simp: machine_names_def)
  have "engine_inv X c L" using c(2) by (simp add: at_frontier_def)
  then obtain c1 L1 where b: "bind_manifest_digest X m w c L = (Inr (), c1, L1)" "settled c1" "wrote w L L1"
    using record_accepted(3) [OF assms(1,2) _ c(3) assms(11)] unfolding goes_through_def by blast
  from machine_bound(2) [OF assms(1,2) c(2,4) assms(10,9) c(1) b(1)] b(2,3) show ?thesis by simp
qed

section \<open>Properties\<close>

text \<open>The state of the abstract machine a live machine stands for.\<close>

definition machine_state :: "workflow_machine \<Rightarrow> string \<times> entry_binding option" where
  "machine_state M = (let s = the (mc_current_state M) in
     (s, case entry_binding_for_state (mc_ctx M) s of Inl _ \<Rightarrow> None | Inr b \<Rightarrow> b))"

lemma life_state:
  assumes "machine_life X P run_id m (Some M) L" "wf_ext X" "wf_serde X"
  obtains s b where "mc_manifest M = m" "mc_current_state M = Some s" "machine_at X run_id m (mc_ctx M) L (s, b)"
    "machine_state M = (s, b)" "wf_workflow m"
proof -
  obtain s b where m: "mc_manifest M = m" "mc_current_state M = Some s" "machine_at X run_id m (mc_ctx M) L (s, b)"
    using life_invariant [OF assms] by (auto simp: life_inv_def)
  moreover have "machine_state M = (s, b)" using machine_at_binding [OF m(3)] m(2) by (simp add: machine_state_def)
  ultimately show thesis using that by (auto simp: machine_at_def)
qed

lemma machine_at_flow: "machine_at X run_id m c L st \<Longrightarrow> flow_run m st"
  using replay_fold_flow unfolding machine_at_def flow_run_def by blast

text \<open>
  C15. Whatever the ledger holds, a machine the kernel builds from it is in a state its manifest
  reaches: the recorded history is a path of declared transitions from the initial state, in
  which an approval state is entered with a binding, and left to a plain state by a record whose
  inputs digest that binding.
\<close>

theorem accepted_history_follows_manifest:
  assumes "machine_new X run_id m w L = (Inr M, L')"
  shows "validate_workflow m = Inr () \<and> (\<exists>s b. mc_current_state M = Some s \<and> flow_run m (s, b) \<and>
    entry_binding_for_state (mc_ctx M) s = Inr b)"
proof -
  obtain c where v: "validate_workflow m = Inr ()" "validate_state_machine_replay X m c = Inr ()"
    "reconstruct_current_state c m = Inr (mc_current_state M)" "mc_ctx M = resume_after_completed_steps c"
    using assms by (auto simp: machine_new_def split: sum.splits prod.splits)
  obtain initial s b where f: "wm_initial_state m = Some initial"
    "replay_fold X m (cx_steps c) (initial, None) = Inr (s, b)"
    using v(2) by (auto simp: validate_state_machine_replay_def split: option.splits sum.splits)
  have "mc_current_state M = Some s"
    using v(3) target_scan_fold [OF f(2)] f(1)
    by (auto simp: reconstruct_current_state_def last_completed_transition_target_def split: if_splits)
  moreover have "flow_run m (s, b)" using replay_fold_flow [OF f(2)] f(1) by (auto simp: flow_run_def)
  moreover have "entry_binding_for_state (mc_ctx M) s = Inr b"
    using binding_scan_fold [OF f(2)] v(4) by (simp add: entry_binding_for_state_def resume_after_completed_steps_def)
  ultimately show ?thesis using v(1) by blast
qed

text \<open>
  C13. The machine refines its manifest across crashes, failures and restarts: the state it stands
  for is reachable in the abstract machine, and every transition that succeeds is one step of it;
  an approval state it enters is bound to the request the caller named.
\<close>

theorem transition_refines_manifest:
  assumes "wf_ext X" "wf_serde X" "machine_life X P run_id m (Some M) L" "wf_tables T"
    and "transition_to X P T t q clock1 clock2 w M L = (Inr (), M', L')"
  shows "flow_run m (machine_state M) \<and> flow m (machine_state M) (machine_state M') \<and>
    mc_current_state M' = Some t \<and> entered_with X T q t (snd (machine_state M'))"
proof -
  obtain s b where m: "mc_manifest M = m" "mc_current_state M = Some s" "machine_at X run_id m (mc_ctx M) L (s, b)"
    "machine_state M = (s, b)"
    using life_state [OF assms(3,1,2)] by blast
  from transition_lands [OF assms(1,2,4) m(1-3) assms(5)] obtain b' where
    t: "mc_current_state M' = Some t" "machine_at X run_id m (mc_ctx M') L' (t, b')" "flow m (s, b) (t, b')"
    "entered_with X T q t b'" by auto
  have "machine_state M' = (t, b')" using machine_at_binding [OF t(2)] t(1) by (simp add: machine_state_def)
  with t m(4) machine_at_flow [OF m(3)] show ?thesis by simp
qed

text \<open>The machine a restart builds: the same, but for the cursor at the first open step.\<close>

definition rebuilt :: "workflow_machine \<Rightarrow> workflow_machine" where
  "rebuilt M = M\<lparr>mc_ctx := resume_after_completed_steps (mc_ctx M)\<rparr>"

lemma rebuilds:
  assumes "wf_ext X" "wf_serde X" "mc_manifest M = m" "mc_current_state M = Some s"
    and "machine_at X run_id m (mc_ctx M) L (s, b)"
  shows "machine_new X run_id m w L = (Inr (rebuilt M), L)" "machine_state M = (s, b)" "machine_state (rebuilt M) = (s, b)"
    "none_open_behind (mc_ctx M) \<Longrightarrow> rebuilt M = M"
proof -
  show "machine_new X run_id m w L = (Inr (rebuilt M), L)"
    using machine_recovery [OF assms(1,2,5), of w] assms(3,4) by (simp add: rebuilt_def)
  show s: "machine_state M = (s, b)" using machine_at_binding [OF assms(5)] assms(4) by (simp add: machine_state_def)
  then show "machine_state (rebuilt M) = (s, b)"
    by (simp add: machine_state_def rebuilt_def entry_binding_for_state_def resume_after_completed_steps_def)
  show "rebuilt M = M" if "none_open_behind (mc_ctx M)"
    using assms(5) resume_same [OF _ that] unfolding machine_at_def rebuilt_def by auto
qed

lemma continues_unbroken:
  assumes "continues c c'" "at_frontier X c L es" "none_open_behind c"
  shows "unbroken c'"
proof -
  obtain pend where f: "cx_cursor c = length es" "cx_steps c = es @ pend" "length pend \<le> 1"
    using assms(2) by (auto simp: at_frontier_def)
  have "\<forall>e\<in>set es. se_completed e \<noteq> None" using assms(3) f(1,2) by (simp add: none_open_behind_def)
  then show ?thesis
    using assms(1) f by (cases pend) (auto simp: continues_def unbroken_def butlast_append dest: in_set_butlastD)
qed

text \<open>
  C12. A restart recovers the machine. Rebuilding a live machine from the ledger writes nothing and
  returns its manifest, steps and current state; it returns the machine itself unless a step
  behind the cursor is open, and then only the cursor differs, which is back at that step. After a
  transition that failed, the machine kept in memory is live and in the state the transition
  started from, and the machine rebuilt from the ledger the failure left is in that state too; it
  is live when no step was open behind the cursor before the failure.
\<close>

theorem machine_recovers:
  assumes "wf_ext X" "wf_serde X" "machine_life X P run_id m (Some M) L"
  shows "machine_new X run_id m w L = (Inr (rebuilt M), L) \<and> machine_state (rebuilt M) = machine_state M \<and>
    (none_open_behind (mc_ctx M) \<longrightarrow> rebuilt M = M) \<and>
    (\<forall>T t q clock1 clock2 v err M1 L1. wf_tables T \<and> transition_to X P T t q clock1 clock2 v M L = (Inl err, M1, L1) \<longrightarrow>
       machine_life X P run_id m (Some M1) L1 \<and> machine_state M1 = machine_state M \<and>
       machine_new X run_id m w L1 = (Inr (rebuilt M1), L1) \<and> machine_state (rebuilt M1) = machine_state M \<and>
       (none_open_behind (mc_ctx M) \<longrightarrow> machine_life X P run_id m (Some (rebuilt M1)) L1))"
proof -
  obtain s b where m: "mc_manifest M = m" "mc_current_state M = Some s" "machine_at X run_id m (mc_ctx M) L (s, b)"
    using life_state [OF assms(3,1,2)] by blast
  note r = rebuilds [OF assms(1,2) m]
  have "machine_life X P run_id m (Some M1) L1 \<and> machine_state M1 = machine_state M \<and>
      machine_new X run_id m w L1 = (Inr (rebuilt M1), L1) \<and> machine_state (rebuilt M1) = machine_state M \<and>
      (none_open_behind (mc_ctx M) \<longrightarrow> machine_life X P run_id m (Some (rebuilt M1)) L1)"
    if f: "wf_tables T" "transition_to X P T t q clock1 clock2 v M L = (Inl err, M1, L1)" for T t q clock1 clock2 v err M1 L1
  proof -
    have m1: "mc_manifest M1 = m" "mc_current_state M1 = Some s" "machine_at X run_id m (mc_ctx M1) L1 (s, b)"
      "continues (mc_ctx M) (mc_ctx M1)"
      using transition_lands [OF assms(1,2) f(1) m f(2)] by simp_all
    note r1 = rebuilds [OF assms(1,2) m1(1-3)] and l1 = life_fail [OF assms(3) f]
    have "machine_life X P run_id m (Some (rebuilt M1)) L1" if "none_open_behind (mc_ctx M)"
    proof -
      have "unbroken (mc_ctx M1)" using m(3) continues_unbroken [OF m1(4) _ that] by (auto simp: machine_at_def)
      then show ?thesis using life_boot [OF life_crash [OF l1] r1(1)] by blast
    qed
    with r(2) r1 l1 show ?thesis by simp
  qed
  moreover have "machine_state (rebuilt M) = machine_state M" using r(2,3) by simp
  ultimately show ?thesis using r(1,4) by blast
qed

text \<open>
  C14. An approval state is left only with its approval: when a transition out of it succeeds, the
  caller named the request the state was entered with, that request still has the action and
  digests recorded then, and the owner's latest decision on it approves those digests and has
  not expired at either reading of the clock.
\<close>

theorem departure_needs_approval:
  assumes "wf_ext X" "wf_serde X" "machine_life X P run_id m (Some M) L"
    and "mc_current_state M = Some s" "approval_of m s = Some Required"
    and "transition_to X P T t q clock1 clock2 w M L = (Inr (), M', L')"
  shows "\<exists>b. machine_state M = (s, Some b) \<and> eb_target_state b = s \<and> approved P T b q clock1 \<and> approved P T b q clock2"
proof -
  obtain b where m: "mc_manifest M = m" "machine_state M = (s, b)" "wf_workflow m"
    using life_state [OF assms(3,1,2)] assms(4) by (metis option.inject)
  then show ?thesis
    using departure_approved [OF assms(4) _ _ assms(6)] assms(4,5) by (auto simp: machine_state_def)
qed

text \<open>
  C16. A transition goes through when it may: from a live machine with no step to take up again, a
  declared transition succeeds when its approvals are there and the identifiers drawn are new.
  It writes two events and ends in the target state.
\<close>

theorem enabled_transition_succeeds:
  assumes "wf_ext X" "wf_serde X" "machine_life X P run_id m (Some M) L" "mc_current_state M = Some s"
    and "settled (mc_ctx M)" "step_room X w L" "enabled P T M s t q clock1 clock2"
  shows "\<exists>M' L'. transition_to X P T t q clock1 clock2 w M L = (Inr (), M', L') \<and>
    settled (mc_ctx M') \<and> mc_current_state M' = Some t \<and> wrote w L L'"
proof -
  obtain b where "mc_manifest M = m" "machine_at X run_id m (mc_ctx M) L (s, b)"
    using life_state [OF assms(3,1,2)] assms(4) by (metis option.inject)
  from transition_progress [OF assms(1,2) this(1) assms(4) this(2) assms(5-7)] show ?thesis by blast
qed

section \<open>Witnesses\<close>

text \<open>A workflow that goes through a review: entered with a request, left with its approval.\<close>

definition ex_flow :: workflow_manifest where
  "ex_flow = ex_workflow\<lparr>
     wm_states := [\<lparr>wss_id = ''new'', wss_steps = [], wss_approval = NoApproval, wss_approval_action = None,
         wss_escalation = None\<rparr>,
       \<lparr>wss_id = ''review'', wss_steps = [], wss_approval = Required,
         wss_approval_action = Some (ActionId ''email.send''), wss_escalation = None\<rparr>,
       \<lparr>wss_id = ''sent'', wss_steps = [], wss_approval = NoApproval, wss_approval_action = None,
         wss_escalation = None\<rparr>],
     wm_initial_state := Some ''new'',
     wm_transitions := [\<lparr>wt_from = ''new'', wt_to = ''review'', wt_event = None\<rparr>,
       \<lparr>wt_from = ''review'', wt_to = ''sent'', wt_event = None\<rparr>]\<rparr>"

definition ex_tables :: approval_tables where
  "ex_tables = \<lparr>at_requests = [(ex_request (ActionId ''email.send''))\<lparr>rq_id := 9,
       rq_payload_ref := Some \<lparr>ar_digest = genesis_digest, ar_schema_version = 1\<rparr>,
       rq_target_digest := Some genesis_digest\<rparr>],
     at_approvals = [ex_approval\<lparr>ap_action_request_id := 9, ap_approved_payload_digest := genesis_digest,
       ap_approved_target_digest := genesis_digest, ap_expires_at := 1000, ap_decision := Approved_decision\<rparr>]\<rparr>"

definition ex_draws :: "ulid \<Rightarrow> ulid \<Rightarrow> step_draws" where
  "ex_draws i j = \<lparr>dr_fresh1 = i, dr_now1 = 100, dr_fresh2 = j, dr_now2 = 110\<rparr>"

definition ids :: "ledger \<Rightarrow> ulid list" where
  "ids L = map ae_id (ledger_events L)"

lemma ex_flow_valid: "wf_workflow ex_flow" "CHR '':'' \<notin> set (decimal (unat (wm_version ex_flow)))"
  unfolding validate_workflow_iff [symmetric] by code_simp+

lemma ex_flow_simps:
  "wm_initial_state ex_flow = Some ''new''" "CHR '':'' \<notin> set (wm_id ex_flow)"
  "has_edge ex_flow ''new'' ''review''" "has_edge ex_flow ''review'' ''sent''"
  "approval_of ex_flow ''new'' = Some NoApproval" "approval_of ex_flow ''review'' = Some Required"
  "approval_of ex_flow ''sent'' = Some NoApproval"
  by (simp_all add: ex_flow_def ex_workflow_def has_edge_def approval_of_def find_state_def)

lemma ex_tables_ok: "wf_tables ex_tables"
  by (simp add: wf_tables_def ex_tables_def valid_genesis)

lemma ex_room:
  assumes "ids L = l" "i \<noteq> j" "i \<notin> set l" "j \<notin> set l" "length l < 10"
  shows "step_room ex_run_ext (ex_draws i j) L"
proof -
  have "set l = ae_id ` set (ledger_events L)" "length l = length (ledger_events L)"
    using assms(1) by (auto simp: ids_def)
  with assms(2-5) show ?thesis by (auto simp: step_room_def ex_draws_def ex_run_text_eq)
qed

lemma ex_wrote: "wrote (ex_draws i j) L L' \<Longrightarrow> ids L' = ids L @ [i, j]"
  by (auto simp: ids_def wrote_def ex_draws_def)

lemma ex_binding:
  assumes "prepare_entry_binding ex_run_ext ex_tables t (Some action) (Some 9) = Inr b" "clock < 1000"
  shows "approved ex_parsers ex_tables b (Some 9) clock"
proof -
  have "ulid_parse ex_parsers (ulid_text ex_run_ext 9) = Some 9" using wf_ex_run(3) unfolding wf_parsers_def by blast
  then show ?thesis
    using assms by (auto simp: prepare_entry_binding_def approved_def find_action_request_def
        find_approval_for_request_def approval_matches_def ex_tables_def ex_request_def split: if_splits)
qed

lemma ex_life:
  "\<exists>M0 L0 M1 L1 M2 L2.
     machine_life ex_run_ext ex_parsers ''run'' ex_flow (Some M0) L0 \<and> mc_current_state M0 = Some ''new'' \<and>
     settled (mc_ctx M0) \<and> ids L0 = [1, 2] \<and> enabled ex_parsers ex_tables M0 ''new'' ''review'' (Some 9) 105 106 \<and>
     transition_to ex_run_ext ex_parsers ex_tables ''review'' (Some 9) 105 106 (ex_draws 3 4) M0 L0 = (Inr (), M1, L1) \<and>
     machine_life ex_run_ext ex_parsers ''run'' ex_flow (Some M1) L1 \<and> mc_current_state M1 = Some ''review'' \<and>
     settled (mc_ctx M1) \<and> ids L1 = [1, 2, 3, 4] \<and> enabled ex_parsers ex_tables M1 ''review'' ''sent'' (Some 9) 205 206 \<and>
     transition_to ex_run_ext ex_parsers ex_tables ''sent'' (Some 9) 205 206 (ex_draws 5 6) M1 L1 = (Inr (), M2, L2)"
proof -
  let ?X = ex_run_ext and ?P = ex_parsers and ?life = "machine_life ex_run_ext ex_parsers ''run'' ex_flow"
  have e0: "ledger_run ?X empty_ledger" "ids empty_ledger = []" "run_events ''run'' empty_ledger = []"
    "\<forall>s. step_map empty_ledger (''run'', s) = None"
    by (simp_all add: ledger_run_def ids_def empty_ledger_def ledger_events_def step_map_def find_step_def run_events_def
        in_aggregate_def)
  have "step_room ?X (ex_draws 1 2) empty_ledger" by (rule ex_room [OF e0(2)]) simp_all
  from boot_progress [OF wf_ex_run(1,2) e0(1,3,4) _ ex_flow_simps(2) ex_flow_valid(2,1) ex_flow_simps(1) this]
  obtain M0 L0 where m0: "machine_new ?X ''run'' ex_flow (ex_draws 1 2) empty_ledger = (Inr M0, L0)" "settled (mc_ctx M0)"
    "mc_manifest M0 = ex_flow" "mc_current_state M0 = Some ''new''" "ids L0 = [1, 2]"
    using ex_wrote e0(2) by fastforce
  have l0: "?life (Some M0) L0" by (rule life_boot [OF life_idle [OF e0(1,3,4)] m0(1)])
  obtain b0 where a0: "machine_at ?X ''run'' ex_flow (mc_ctx M0) L0 (''new'', b0)"
    using life_state [OF l0 wf_ex_run(1,2)] m0(4) by (metis option.inject)
  have en0: "enabled ?P ex_tables M0 ''new'' ''review'' (Some 9) 105 106"
    using ex_flow_simps(3,5) m0(3)
    by (simp add: enabled_def requested_def find_action_request_def ex_tables_def ex_request_def ex_flow_def find_state_def)
  have "step_room ?X (ex_draws 3 4) L0" by (rule ex_room [OF m0(5)]) simp_all
  from transition_progress [OF wf_ex_run(1,2) m0(3,4) a0 m0(2) this en0]
  obtain M1 L1 where m1: "transition_to ?X ?P ex_tables ''review'' (Some 9) 105 106 (ex_draws 3 4) M0 L0 = (Inr (), M1, L1)"
    "settled (mc_ctx M1)" "mc_manifest M1 = ex_flow" "mc_current_state M1 = Some ''review''" "ids L1 = [1, 2, 3, 4]"
    using ex_wrote m0(5) by fastforce
  have l1: "?life (Some M1) L1" by (rule life_step [OF l0 ex_tables_ok m1(1)])
  obtain b1 where a1: "machine_at ?X ''run'' ex_flow (mc_ctx M1) L1 (''review'', b1)" "flow ex_flow (''new'', b0) (''review'', b1)"
    "entered_with ?X ex_tables (Some 9) ''review'' b1"
    using transition_lands [OF wf_ex_run(1,2) ex_tables_ok m0(3,4) a0 m1(1)] by auto
  from a1(2) ex_flow_simps(6) obtain b where b: "b1 = Some b" by (cases rule: flow.cases) auto
  then have "approved ?P ex_tables b (Some 9) clock" if "clock < 1000" for clock
    using a1(3) ex_binding that by (auto simp: entered_with_def)
  then have en1: "enabled ?P ex_tables M1 ''review'' ''sent'' (Some 9) 205 206"
    using machine_at_binding [OF a1(1)] b ex_flow_simps(4,7) m1(3) by (auto simp: enabled_def approval_of_def)
  have "step_room ?X (ex_draws 5 6) L1" by (rule ex_room [OF m1(5)]) simp_all
  from transition_progress [OF wf_ex_run(1,2) m1(3,4) a1(1) m1(2) this en1]
  obtain M2 L2 where "transition_to ?X ?P ex_tables ''sent'' (Some 9) 205 206 (ex_draws 5 6) M1 L1 = (Inr (), M2, L2)"
    by blast
  with l0 m0 en0 m1 l1 en1 show ?thesis by blast
qed

theorem accepted_history_follows_manifest_witness:
  "\<exists>M L L'. machine_new ex_run_ext ''run'' ex_flow (ex_draws 1 2) L = (Inr M, L') \<and>
     (\<exists>s b. mc_current_state M = Some s \<and> flow_run ex_flow (s, b) \<and> entry_binding_for_state (mc_ctx M) s = Inr b)"
proof -
  obtain M0 L0 where "machine_life ex_run_ext ex_parsers ''run'' ex_flow (Some M0) L0" using ex_life by blast
  then obtain s b where "machine_at ex_run_ext ''run'' ex_flow (mc_ctx M0) L0 (s, b)"
    using life_state wf_ex_run(1,2) by metis
  note n = machine_recovery [OF wf_ex_run(1,2) this, of "ex_draws 1 2"]
  from n accepted_history_follows_manifest [OF n] show ?thesis by blast
qed

theorem transition_refines_manifest_witness:
  "\<exists>M M' :: workflow_machine. flow_run ex_flow (machine_state M) \<and> flow ex_flow (machine_state M) (machine_state M') \<and>
     mc_current_state M' = Some ''review'' \<and> entered_with ex_run_ext ex_tables (Some 9) ''review'' (snd (machine_state M'))"
  using ex_life transition_refines_manifest [OF wf_ex_run(1,2) _ ex_tables_ok] by blast

theorem machine_recovers_witness:
  "\<exists>M L err M1 L1. machine_life ex_run_ext ex_parsers ''run'' ex_flow (Some M) L \<and> mc_current_state M = Some ''review'' \<and>
     machine_new ex_run_ext ''run'' ex_flow (ex_draws 7 8) L = (Inr (rebuilt M), L) \<and>
     transition_to ex_run_ext ex_parsers ex_tables ''new'' None 300 310 (ex_draws 7 8) M L = (Inl err, M1, L1) \<and>
     machine_new ex_run_ext ''run'' ex_flow (ex_draws 7 8) L1 = (Inr (rebuilt M1), L1) \<and>
     machine_state (rebuilt M1) = machine_state M"
proof -
  obtain M L where m: "machine_life ex_run_ext ex_parsers ''run'' ex_flow (Some M) L" "mc_current_state M = Some ''review''"
    using ex_life by blast
  obtain s b where "mc_manifest M = ex_flow" using life_state [OF m(1) wf_ex_run(1,2)] by blast
  then have f: "transition_to ex_run_ext ex_parsers ex_tables ''new'' None 300 310 (ex_draws 7 8) M L =
      (Inl (UnknownTransition ''new''), M, L)"
    using m(2) by (simp add: transition_to_def has_edge_def ex_flow_def)
  from machine_recovers [OF wf_ex_run(1,2) m(1), of "ex_draws 7 8"] m f ex_tables_ok show ?thesis by blast
qed

theorem departure_needs_approval_witness:
  "\<exists>M b. machine_state M = (''review'', Some b) \<and> eb_target_state b = ''review'' \<and>
     approved ex_parsers ex_tables b (Some 9) 205 \<and> approved ex_parsers ex_tables b (Some 9) 206"
  using ex_life departure_needs_approval [OF wf_ex_run(1,2) _ _ ex_flow_simps(6)] by blast

theorem enabled_transition_succeeds_witness:
  "\<exists>M L M' L'. transition_to ex_run_ext ex_parsers ex_tables ''sent'' (Some 9) 205 206 (ex_draws 5 6) M L = (Inr (), M', L') \<and>
     mc_current_state M' = Some ''sent''"
proof -
  obtain M L where m: "machine_life ex_run_ext ex_parsers ''run'' ex_flow (Some M) L" "mc_current_state M = Some ''review''"
    "settled (mc_ctx M)" "ids L = [1, 2, 3, 4]" "enabled ex_parsers ex_tables M ''review'' ''sent'' (Some 9) 205 206"
    using ex_life by blast
  have "step_room ex_run_ext (ex_draws 5 6) L" by (rule ex_room [OF m(4)]) simp_all
  from enabled_transition_succeeds [OF wf_ex_run(1,2) m(1-3) this m(5)] show ?thesis by blast
qed

end
