(* ===== verification/Task_Board.thy ===== *)
theory Task_Board
  imports Workflow_Engine Standing_Rules
begin

text \<open>
  The kernel's task board and its durable dispatch (\<open>src/crates/openspine-schemas/src/task.rs\<close>,
  \<open>src/crates/openspine-kernel/src/store/task_board.rs\<close> and \<open>task_dispatch.rs\<close>, with the
  task-grant table of \<open>store/mod.rs\<close> and the sweep of \<open>store/budget_support.rs\<close>).

  Columns that hold an identifier are its text, columns that hold JSON are kept decoded, and a
  column with a fixed set of words is the enumeration of those words. The bookkeeping columns
  \<open>created_at\<close> and \<open>updated_at\<close> of the dispatch tables, which no query reads, are left out. The
  bundled SQLite enforces foreign keys. A clock reading is never close to the least timestamp.
\<close>

section \<open>Tasks\<close>

definition CURRENT_TASK_SCHEMA_VERSION :: u32 where
  "CURRENT_TASK_SCHEMA_VERSION = 1"

datatype worker_id_error = WorkerIdEmpty | WorkerIdInvalidCharacter

datatype worker_id = WorkerId (worker_id_str: string)

definition worker_id_char :: "char \<Rightarrow> bool" where
  "worker_id_char c \<longleftrightarrow> (let n = (of_char c :: nat) in (97 \<le> n \<and> n \<le> 122) \<or> (48 \<le> n \<and> n \<le> 57) \<or> n = 95)"

definition worker_id_new :: "string \<Rightarrow> worker_id_error + worker_id" where
  "worker_id_new s =
     (if s = [] then Inl WorkerIdEmpty
      else if \<not> list_all worker_id_char s then Inl WorkerIdInvalidCharacter
      else Inr (WorkerId s))"

datatype task_status = TaskOpen | TaskBlocked | TaskDone | TaskCancelled

datatype task_timer_kind = DeadlineTimer | ReminderTimer

datatype task_provenance =
    AskedAbout artifact_ref timestamp
  | Promised artifact_ref
  | External_obligation artifact_ref

record task =
  tk_schema_version :: u32
  tk_id :: ulid
  tk_owner_principal_id :: ulid
  tk_status :: task_status
  tk_owning_worker :: "worker_id option"
  tk_owning_grant_id :: "ulid option"
  tk_due_at :: "timestamp option"
  tk_reminder_at :: "timestamp option"
  tk_due_timer_id :: "string option"
  tk_reminder_timer_id :: "string option"
  tk_dependencies :: "ulid list"
  tk_provenance :: task_provenance
  tk_title_ref :: artifact_ref
  tk_created_at :: timestamp

record task_slice =
  sl_schema_version :: u32
  sl_id :: ulid
  sl_status :: task_status
  sl_due_at :: "timestamp option"
  sl_title_ref :: artifact_ref

section \<open>Tables\<close>

record task_row =
  tb_id :: string
  tb_owner_principal_id :: string
  tb_status :: task_status
  tb_due_at :: "int option"
  tb_reminder_at :: "int option"
  tb_created_at :: int
  tb_title_ref :: artifact_ref
  tb_provenance :: task_provenance
  tb_due_timer_id :: "string option"
  tb_reminder_timer_id :: "string option"
  tb_task :: task

record timer_link_row =
  lk_timer_id :: string
  lk_task_id :: string
  lk_kind :: task_timer_kind

record processed_row =
  pc_event_id :: string
  pc_grant_id :: string

datatype timer_dispatch_state = DispatchPending | HandedOff | Terminal

record dispatch_row =
  ds_event_id :: string
  ds_timer_id :: string
  ds_task_id :: "string option"
  ds_state :: timer_dispatch_state
  ds_grant_id :: "string option"
  ds_token_ref :: "artifact_ref option"
  ds_terminal_reason :: "string option"

record receipt_row =
  rc_dispatch_id :: string
  rc_grant_id :: string

datatype waiter_state = Waiting | Ready | Consumed

record waiter_row =
  wx_task_id :: string
  wx_owner_principal_id :: string
  wx_dependency_id :: string
  wx_timer_id :: string
  wx_event_id :: string
  wx_state :: waiter_state

record principal_row =
  px_id :: string
  px_is_owner :: bool

record grant_row =
  gr_id :: string
  gr_task_token :: string
  gr_expires_at :: timestamp
  gr_grant :: task_grant
  gr_pending_message_digest :: string
  gr_owner_surface :: owner_surface

record counter_row =
  gc_grant_id :: string
  gc_model_calls :: int
  gc_artifact_puts :: int

record board =
  bd_tasks :: "task_row list"
  bd_links :: "timer_link_row list"
  bd_processed :: "processed_row list"
  bd_dispatch :: "dispatch_row list"
  bd_receipts :: "receipt_row list"
  bd_waiters :: "waiter_row list"
  bd_principals :: "principal_row list"
  bd_grants :: "grant_row list"
  bd_counters :: "counter_row list"
  bd_ledger :: ledger

datatype board_error =
    Board_ledger ledger_error
  | Board_constraint
  | Board_no_rows
  | Board_bad_digest string
  | TaskNotFound ulid
  | InvalidTaskTimerSchedule string
  | UnsupportedTaskSchemaVersion u32
  | PrepopulatedTimerId string
  | NotOwner string

type_synonym 'a board_op = "board \<Rightarrow> (board_error + 'a) \<times> board"

definition find_task :: "string \<Rightarrow> board \<Rightarrow> task_row option" where
  "find_task i B = find (\<lambda>r. tb_id r = i) (bd_tasks B)"

definition update_task :: "string \<Rightarrow> (task_row \<Rightarrow> task_row) \<Rightarrow> board \<Rightarrow> board" where
  "update_task i f B = B\<lparr>bd_tasks := map (\<lambda>r. if tb_id r = i then f r else r) (bd_tasks B)\<rparr>"

definition find_principal :: "string \<Rightarrow> board \<Rightarrow> principal_row option" where
  "find_principal i B = find (\<lambda>p. px_id p = i) (bd_principals B)"

definition owner_principal_by_id :: "ext \<Rightarrow> ulid \<Rightarrow> board \<Rightarrow> board_error + principal_row" where
  "owner_principal_by_id X i B = (case find_principal (ulid_text X i) B of
     None \<Rightarrow> Inl (NotOwner (''Principal '' @ ulid_text X i @ '' not found''))
   | Some p \<Rightarrow> if px_is_owner p then Inr p else Inl (NotOwner (''Principal '' @ ulid_text X i @ '' is not owner'')))"

text \<open>A status change writes the column and the JSON.\<close>

definition set_status :: "task_status \<Rightarrow> task_row \<Rightarrow> task_row" where
  "set_status s r = r\<lparr>tb_status := s, tb_task := (tb_task r)\<lparr>tk_status := s\<rparr>\<rparr>"

definition terminal_status :: "task_status \<Rightarrow> bool" where
  "terminal_status s \<longleftrightarrow> s = TaskDone \<or> s = TaskCancelled"

section \<open>Scheduling\<close>

definition kind_word :: "task_timer_kind \<Rightarrow> string" where
  "kind_word k = (case k of DeadlineTimer \<Rightarrow> ''deadline'' | ReminderTimer \<Rightarrow> ''reminder'')"

text \<open>The first timestamp that does not fit the integer column.\<close>

fun range_error :: "timestamp option list \<Rightarrow> ledger_error option" where
  "range_error [] = None"
| "range_error (None # ts) = range_error ts"
| "range_error (Some t # ts) = (case epoch_nanos t of Inl e \<Rightarrow> Some e | Inr _ \<Rightarrow> range_error ts)"

definition insert_task :: "ext \<Rightarrow> task \<Rightarrow> unit board_op" where
  "insert_task X t B =
     (if tk_schema_version t \<noteq> CURRENT_TASK_SCHEMA_VERSION
      then (Inl (UnsupportedTaskSchemaVersion (tk_schema_version t)), B)
      else if tk_due_timer_id t \<noteq> None \<or> tk_reminder_timer_id t \<noteq> None
      then (Inl (PrepopulatedTimerId (ulid_text X (tk_id t))), B)
      else (case range_error [tk_due_at t, tk_reminder_at t, Some (tk_created_at t)] of
          Some e \<Rightarrow> (Inl (Board_ledger e), B)
        | None \<Rightarrow>
            if find_task (ulid_text X (tk_id t)) B \<noteq> None then (Inl Board_constraint, B)
            else (Inr (), B\<lparr>bd_tasks := bd_tasks B @
              [\<lparr>tb_id = ulid_text X (tk_id t), tb_owner_principal_id = ulid_text X (tk_owner_principal_id t),
                tb_status = tk_status t, tb_due_at = tk_due_at t, tb_reminder_at = tk_reminder_at t,
                tb_created_at = tk_created_at t, tb_title_ref = tk_title_ref t, tb_provenance = tk_provenance t,
                tb_due_timer_id = tk_due_timer_id t, tb_reminder_timer_id = tk_reminder_timer_id t, tb_task = t\<rparr>]\<rparr>)))"

definition get_task :: "ext \<Rightarrow> ulid \<Rightarrow> board \<Rightarrow> task option" where
  "get_task X i B = map_option tb_task (find_task (ulid_text X i) B)"

definition task_by_timer_id :: "string \<Rightarrow> board \<Rightarrow> task option" where
  "task_by_timer_id timer_id B =
     Option.bind (find (\<lambda>l. lk_timer_id l = timer_id \<and> find_task (lk_task_id l) B \<noteq> None) (bd_links B))
       (\<lambda>l. map_option tb_task (find_task (lk_task_id l) B))"

text \<open>The fields of a task that one kind of timer concerns.\<close>

definition timer_deadline :: "task_timer_kind \<Rightarrow> task \<Rightarrow> timestamp option" where
  "timer_deadline k t = (case k of DeadlineTimer \<Rightarrow> tk_due_at t | ReminderTimer \<Rightarrow> tk_reminder_at t)"

definition timer_column :: "task_timer_kind \<Rightarrow> task_row \<Rightarrow> string option" where
  "timer_column k r = (case k of DeadlineTimer \<Rightarrow> tb_due_timer_id r | ReminderTimer \<Rightarrow> tb_reminder_timer_id r)"

definition set_timer :: "task_timer_kind \<Rightarrow> string \<Rightarrow> task_row \<Rightarrow> task_row" where
  "set_timer k i r = (case k of
     DeadlineTimer \<Rightarrow> r\<lparr>tb_due_timer_id := Some i, tb_task := (tb_task r)\<lparr>tk_due_timer_id := Some i\<rparr>\<rparr>
   | ReminderTimer \<Rightarrow> r\<lparr>tb_reminder_timer_id := Some i, tb_task := (tb_task r)\<lparr>tk_reminder_timer_id := Some i\<rparr>\<rparr>)"

definition schedule_json :: "ext \<Rightarrow> string \<Rightarrow> string \<Rightarrow> task_timer_kind \<Rightarrow> timestamp \<Rightarrow> json" where
  "schedule_json X timer_id task_id k fires_at = JObject
     [(''timer_id'', JString timer_id), (''task_id'', JString task_id), (''kind'', JString (kind_word k)),
      (''fires_at'', JString (ts_text X fires_at))]"

definition schedule_input :: "ext \<Rightarrow> string \<Rightarrow> string \<Rightarrow> task_timer_kind \<Rightarrow> timestamp \<Rightarrow> audit_input" where
  "schedule_input X timer_id task_id k fires_at =
     (plain_input ''workflow.timer_scheduled'' None None [])\<lparr>
       an_aggregate_override := Some (''task:'' @ task_id @ '':'' @ kind_word k),
       an_payload_json := Some (canonical_json X (schedule_json X timer_id task_id k fires_at))\<rparr>"

definition schedule_task_timer ::
  "ext \<Rightarrow> text_parsers \<Rightarrow> string \<Rightarrow> string \<Rightarrow> task_timer_kind \<Rightarrow> timestamp \<Rightarrow> ulid \<Rightarrow> timestamp \<Rightarrow> audit_event board_op" where
  "schedule_task_timer X P timer_id task_id k fires_at fresh now B =
     (if ulid_parse P timer_id = None then (Inl (InvalidTaskTimerSchedule ''timer_id must be a ULID''), B)
      else with_immediate_tx (\<lambda>B. case find_task task_id B of
          None \<Rightarrow> Inl Board_no_rows
        | Some r \<Rightarrow>
            if terminal_status (tk_status (tb_task r))
            then Inl (InvalidTaskTimerSchedule ''task is in terminal status'')
            else if timer_deadline k (tb_task r) \<noteq> Some fires_at
            then Inl (InvalidTaskTimerSchedule ''fires_at does not match task'')
            else if list_ex (\<lambda>q. tb_id q \<noteq> task_id \<and> timer_column k q = Some timer_id) (bd_tasks B)
            then Inl Board_constraint
            else if list_ex (\<lambda>l. lk_timer_id l = timer_id \<or> lk_task_id l = task_id \<and> lk_kind l = k) (bd_links B)
            then Inl Board_constraint
            else (case append_audit_conn_with_actor X (schedule_input X timer_id task_id k fires_at) fresh now
                (bd_ledger B) of
                Inl e \<Rightarrow> Inl (Board_ledger e)
              | Inr (ev, L1) \<Rightarrow>
                  (case epoch_nanos fires_at of
                     Inl e \<Rightarrow> Inl (Board_ledger e)
                   | Inr n \<Rightarrow>
                       (case insert_timer \<lparr>tm_timer_id = timer_id, tm_run_id = ''task:'' @ task_id @ '':'' @ kind_word k,
                           tm_fires_at = n, tm_fired = False, tm_fired_event_id = None\<rparr> L1 of
                          Inl e \<Rightarrow> Inl (Board_ledger e)
                        | Inr L2 \<Rightarrow> Inr (ev, (update_task task_id (set_timer k timer_id) B)\<lparr>
                            bd_links := bd_links B @ [\<lparr>lk_timer_id = timer_id, lk_task_id = task_id, lk_kind = k\<rparr>],
                            bd_ledger := L2\<rparr>))))) B)"

section \<open>Slices for the master agent\<close>

text \<open>\<open>LIMIT\<close> with the bound cast to a signed integer: a negative bound is no bound.\<close>

definition sql_limit :: "u64 \<Rightarrow> 'a list \<Rightarrow> 'a list" where
  "sql_limit n xs = (if sint n < 0 then xs else take (nat (sint n)) xs)"

definition map_slice_row :: "text_parsers \<Rightarrow> task_row \<Rightarrow> board_error + task_slice" where
  "map_slice_row P r = (case ulid_parse P (tb_id r) of
     None \<Rightarrow> Inl (Board_bad_digest (tb_id r))
   | Some i \<Rightarrow> Inr \<lparr>sl_schema_version = 1, sl_id = i, sl_status = tb_status r, sl_due_at = tb_due_at r,
       sl_title_ref = tb_title_ref r\<rparr>)"

fun collect_slices :: "text_parsers \<Rightarrow> task_row list \<Rightarrow> board_error + task_slice list" where
  "collect_slices P [] = Inr []"
| "collect_slices P (r # rs) = (case map_slice_row P r of
     Inl e \<Rightarrow> Inl e
   | Inr x \<Rightarrow> (case collect_slices P rs of Inl e \<Rightarrow> Inl e | Inr xs \<Rightarrow> Inr (x # xs)))"

definition due_row :: "ext \<Rightarrow> int \<Rightarrow> ulid \<Rightarrow> task_row \<Rightarrow> bool" where
  "due_row X n owner r \<longleftrightarrow> tb_status r = TaskOpen \<and> (case tb_due_at r of None \<Rightarrow> False | Some d \<Rightarrow> d \<le> n) \<and>
     tb_owner_principal_id r = ulid_text X owner"

definition due_order :: "task_row \<Rightarrow> int" where
  "due_order r = (case tb_due_at r of None \<Rightarrow> 0 | Some d \<Rightarrow> d)"

definition tasks_due_now :: "ext \<Rightarrow> text_parsers \<Rightarrow> timestamp \<Rightarrow> ulid \<Rightarrow> u64 \<Rightarrow> board \<Rightarrow> board_error + task_slice list" where
  "tasks_due_now X P time owner limit B = (case epoch_nanos time of
     Inl e \<Rightarrow> Inl (Board_ledger e)
   | Inr n \<Rightarrow> collect_slices P (sql_limit limit
       (sort_key due_order (sort_key tb_id (filter (due_row X n owner) (bd_tasks B))))))"

definition blocked_row :: "ext \<Rightarrow> ulid \<Rightarrow> task_row \<Rightarrow> bool" where
  "blocked_row X owner r \<longleftrightarrow> tb_status r = TaskBlocked \<and> tb_owner_principal_id r = ulid_text X owner"

definition blocked_tasks :: "ext \<Rightarrow> text_parsers \<Rightarrow> ulid \<Rightarrow> u64 \<Rightarrow> board \<Rightarrow> board_error + task_slice list" where
  "blocked_tasks X P owner limit B = collect_slices P (sql_limit limit
     (sort_key tb_created_at (sort_key tb_id (filter (blocked_row X owner) (bd_tasks B)))))"

text \<open>The tag comes first in the JSON of a provenance, so the \<open>LIKE\<close> pattern tests the variant.\<close>

definition asked_row :: "ext \<Rightarrow> ulid \<Rightarrow> task_row \<Rightarrow> bool" where
  "asked_row X owner r \<longleftrightarrow> (case tb_provenance r of AskedAbout _ _ \<Rightarrow> True | _ \<Rightarrow> False) \<and>
     \<not> terminal_status (tb_status r) \<and> tb_owner_principal_id r = ulid_text X owner"

definition asked_about_tasks :: "ext \<Rightarrow> text_parsers \<Rightarrow> ulid \<Rightarrow> u64 \<Rightarrow> board \<Rightarrow> board_error + task_slice list" where
  "asked_about_tasks X P owner limit B = collect_slices P (sql_limit limit
     (sort_key tb_created_at (sort_key tb_id (filter (asked_row X owner) (bd_tasks B)))))"

text \<open>The three queries of a slice, each with the limit, in a chain.\<close>

definition slice_chain :: "ext \<Rightarrow> text_parsers \<Rightarrow> timestamp \<Rightarrow> ulid \<Rightarrow> u64 \<Rightarrow> board \<Rightarrow> board_error + task_slice list" where
  "slice_chain X P time owner limit B = (case tasks_due_now X P time owner limit B of
     Inl e \<Rightarrow> Inl e
   | Inr due \<Rightarrow> (case blocked_tasks X P owner limit B of
       Inl e \<Rightarrow> Inl e
     | Inr blocked \<Rightarrow> (case asked_about_tasks X P owner limit B of
         Inl e \<Rightarrow> Inl e
       | Inr asked \<Rightarrow> Inr (due @ blocked @ asked))))"

fun master_loop :: "nat \<Rightarrow> task_slice list \<Rightarrow> ulid set \<Rightarrow> task_slice list \<Rightarrow> task_slice list" where
  "master_loop limit combined seen [] = combined"
| "master_loop limit combined seen (x # xs) =
     (let (combined', seen') = (if sl_id x \<notin> seen then (combined @ [x], insert (sl_id x) seen) else (combined, seen)) in
      if limit \<le> length combined' then combined' else master_loop limit combined' seen' xs)"

definition master_slice :: "ext \<Rightarrow> text_parsers \<Rightarrow> timestamp \<Rightarrow> ulid \<Rightarrow> u64 \<Rightarrow> board \<Rightarrow> board_error + task_slice list" where
  "master_slice X P time owner limit B = (case slice_chain X P time owner limit B of
     Inl e \<Rightarrow> Inl e | Inr xs \<Rightarrow> Inr (master_loop (unat limit) [] {} xs))"

fun task_loop :: "nat \<Rightarrow> task_slice list \<Rightarrow> ulid set \<Rightarrow> task_slice list \<Rightarrow> task_slice list" where
  "task_loop limit combined seen [] = combined"
| "task_loop limit combined seen (x # xs) =
     (if sl_id x \<notin> seen
      then (let combined' = combined @ [x] in
        if limit \<le> length combined' then combined' else task_loop limit combined' (insert (sl_id x) seen) xs)
      else task_loop limit combined seen xs)"

definition master_slice_for_task ::
  "ext \<Rightarrow> text_parsers \<Rightarrow> ulid \<Rightarrow> timestamp \<Rightarrow> u64 \<Rightarrow> board \<Rightarrow> board_error + task_slice list" where
  "master_slice_for_task X P task_id now limit B =
     (if limit = 0 then Inr []
      else (case get_task X task_id B of
          None \<Rightarrow> Inl (TaskNotFound task_id)
        | Some t \<Rightarrow>
            let x = \<lparr>sl_schema_version = 1, sl_id = tk_id t, sl_status = tk_status t, sl_due_at = tk_due_at t,
              sl_title_ref = tk_title_ref t\<rparr> in
            if limit = 1 then Inr [x]
            else (case slice_chain X P now (tk_owner_principal_id t) limit B of
                Inl e \<Rightarrow> Inl e | Inr xs \<Rightarrow> Inr (task_loop (unat limit) [x] {tk_id t} xs))))"

definition timer_event_already_processed :: "string \<Rightarrow> board \<Rightarrow> bool" where
  "timer_event_already_processed event_id B = list_ex (\<lambda>p. pc_event_id p = event_id) (bd_processed B)"

section \<open>Blocking\<close>

definition mark_task_blocked :: "ext \<Rightarrow> ulid \<Rightarrow> ulid \<Rightarrow> timestamp \<Rightarrow> unit board_op" where
  "mark_task_blocked X i fresh now =
     with_immediate_tx (\<lambda>B. case find_task (ulid_text X i) B of
         None \<Rightarrow> Inl (TaskNotFound i)
       | Some r \<Rightarrow>
           if tk_status (tb_task r) = TaskBlocked then Inr ((), B)
           else (case append_audit_conn_with_actor X
               (plain_input ''task.blocked'' (Some (''unmet dependency at timer fire: '' @ ulid_text X i)) None [])
               fresh now (bd_ledger B) of
               Inl e \<Rightarrow> Inl (Board_ledger e)
             | Inr (_, L) \<Rightarrow> Inr ((), (update_task (ulid_text X i) (set_status TaskBlocked) B)\<lparr>bd_ledger := L\<rparr>)))"

section \<open>Durable dispatch\<close>

record timer_dispatch_record =
  dt_event_id :: string
  dt_timer_id :: string
  dt_task_id :: "ulid option"
  dt_state :: timer_dispatch_state
  dt_grant_id :: "ulid option"
  dt_token_ref :: "artifact_ref option"
  dt_terminal_reason :: "string option"

definition dispatch_record :: "text_parsers \<Rightarrow> dispatch_row \<Rightarrow> timer_dispatch_record" where
  "dispatch_record P d = \<lparr>dt_event_id = ds_event_id d, dt_timer_id = ds_timer_id d,
     dt_task_id = Option.bind (ds_task_id d) (ulid_parse P), dt_state = ds_state d,
     dt_grant_id = Option.bind (ds_grant_id d) (ulid_parse P), dt_token_ref = ds_token_ref d,
     dt_terminal_reason = ds_terminal_reason d\<rparr>"

definition dispatch_state_for_key :: "text_parsers \<Rightarrow> string \<Rightarrow> board \<Rightarrow> timer_dispatch_record option" where
  "dispatch_state_for_key P key B =
     map_option (dispatch_record P) (find (\<lambda>d. ds_event_id d = key) (bd_dispatch B))"

definition dispatch_receipt_exists :: "string \<Rightarrow> board \<Rightarrow> bool" where
  "dispatch_receipt_exists key B = list_ex (\<lambda>c. rc_dispatch_id c = key) (bd_receipts B)"

definition incomplete_timer_dispatches :: "text_parsers \<Rightarrow> board \<Rightarrow> timer_dispatch_record list" where
  "incomplete_timer_dispatches P B =
     map (dispatch_record P) (filter (\<lambda>d. ds_state d \<noteq> Terminal) (bd_dispatch B))"

text \<open>\<open>INSERT OR REPLACE\<close>: a row with the key goes and the new one is added.\<close>

definition replace_dispatch :: "dispatch_row \<Rightarrow> board \<Rightarrow> board" where
  "replace_dispatch d B =
     B\<lparr>bd_dispatch := filter (\<lambda>q. ds_event_id q \<noteq> ds_event_id d) (bd_dispatch B) @ [d]\<rparr>"

definition record_processed :: "string \<Rightarrow> string \<Rightarrow> board \<Rightarrow> board" where
  "record_processed key related B =
     (if timer_event_already_processed key B then B
      else B\<lparr>bd_processed := bd_processed B @ [\<lparr>pc_event_id = key, pc_grant_id = related\<rparr>]\<rparr>)"

definition GRANT_RETENTION :: int where
  "GRANT_RETENTION = 24 * 60 * 60 * 1000000000"

definition sweep_expired_grants :: "timestamp \<Rightarrow> board \<Rightarrow> board" where
  "sweep_expired_grants now B =
     (let kept = filter (\<lambda>g. \<not> gr_expires_at g < now - GRANT_RETENTION) (bd_grants B) in
      B\<lparr>bd_grants := kept, bd_counters := filter (\<lambda>c. gc_grant_id c \<in> gr_id ` set kept) (bd_counters B)\<rparr>)"

text \<open>The upserts of the counters: the conflict branch decides, and a first row ignores the bound.\<close>

definition upsert_counter :: "string \<Rightarrow> counter_row \<Rightarrow> (counter_row \<Rightarrow> bool) \<Rightarrow> (counter_row \<Rightarrow> counter_row) \<Rightarrow> bool board_op" where
  "upsert_counter i first ok f B =
     (case find (\<lambda>c. gc_grant_id c = i) (bd_counters B) of
        None \<Rightarrow> (Inr True, B\<lparr>bd_counters := bd_counters B @ [first]\<rparr>)
      | Some c \<Rightarrow>
          if ok c then (Inr True, B\<lparr>bd_counters := map (\<lambda>c. if gc_grant_id c = i then f c else c) (bd_counters B)\<rparr>)
          else (Inr False, B))"

definition try_count_model_call :: "ext \<Rightarrow> ulid \<Rightarrow> u32 \<Rightarrow> bool board_op" where
  "try_count_model_call X grant_id cap B =
     (if cap = 0 then (Inr False, B)
      else upsert_counter (ulid_text X grant_id)
        \<lparr>gc_grant_id = ulid_text X grant_id, gc_model_calls = 1, gc_artifact_puts = 0\<rparr>
        (\<lambda>c. gc_model_calls c < uint cap) (\<lambda>c. c\<lparr>gc_model_calls := gc_model_calls c + 1\<rparr>) B)"

definition try_count_model_calls :: "ext \<Rightarrow> ulid \<Rightarrow> u32 \<Rightarrow> u32 \<Rightarrow> bool board_op" where
  "try_count_model_calls X grant_id calls cap B =
     (if calls = 0 \<or> calls > cap then (Inr False, B)
      else upsert_counter (ulid_text X grant_id)
        \<lparr>gc_grant_id = ulid_text X grant_id, gc_model_calls = uint calls, gc_artifact_puts = 0\<rparr>
        (\<lambda>c. gc_model_calls c + uint calls \<le> uint cap)
        (\<lambda>c. c\<lparr>gc_model_calls := gc_model_calls c + uint calls\<rparr>) B)"

definition try_count_artifact_put :: "ext \<Rightarrow> ulid \<Rightarrow> u32 \<Rightarrow> bool board_op" where
  "try_count_artifact_put X grant_id cap B =
     (if cap = 0 then (Inr False, B)
      else upsert_counter (ulid_text X grant_id)
        \<lparr>gc_grant_id = ulid_text X grant_id, gc_model_calls = 0, gc_artifact_puts = 1\<rparr>
        (\<lambda>c. gc_artifact_puts c < uint cap) (\<lambda>c. c\<lparr>gc_artifact_puts := gc_artifact_puts c + 1\<rparr>) B)"

definition hash_task_token :: "ext \<Rightarrow> string \<Rightarrow> string" where
  "hash_task_token X token = digest_str (digest_of_bytes X (str_bytes token))"

definition insert_grant_row :: "ext \<Rightarrow> task_grant \<Rightarrow> artifact_ref \<Rightarrow> owner_surface \<Rightarrow> board \<Rightarrow> board_error + board" where
  "insert_grant_row X g pending surface B =
     (let r = \<lparr>gr_id = ulid_text X (tg_id g), gr_task_token = hash_task_token X (tg_task_token g),
            gr_expires_at = tg_expires_at g, gr_grant = g\<lparr>tg_task_token := []\<rparr>,
            gr_pending_message_digest = digest_str (ar_digest pending), gr_owner_surface = surface\<rparr> in
      if list_ex (\<lambda>q. gr_id q = gr_id r \<or> gr_task_token q = gr_task_token r) (bd_grants B)
      then Inl Board_constraint else Inr (B\<lparr>bd_grants := bd_grants B @ [r]\<rparr>))"

definition insert_task_grant :: "ext \<Rightarrow> task_grant \<Rightarrow> artifact_ref \<Rightarrow> owner_surface \<Rightarrow> timestamp \<Rightarrow> unit board_op" where
  "insert_task_grant X g pending surface now B =
     (let B1 = sweep_expired_grants now B in
      case insert_grant_row X g pending surface B1 of Inl e \<Rightarrow> (Inl e, B1) | Inr B2 \<Rightarrow> (Inr (), B2))"

definition persist_grant_with_handoff ::
  "ext \<Rightarrow> string \<Rightarrow> task_grant \<Rightarrow> artifact_ref \<Rightarrow> owner_surface \<Rightarrow> artifact_ref \<Rightarrow> string \<Rightarrow> ulid option \<Rightarrow> timestamp \<Rightarrow>
     ulid \<Rightarrow> timestamp \<Rightarrow> unit board_op" where
  "persist_grant_with_handoff X key g pending surface token_ref timer_id task_id clock fresh now B =
     with_immediate_tx (\<lambda>B. case insert_grant_row X g pending surface B of
         Inl e \<Rightarrow> Inl e
       | Inr B1 \<Rightarrow>
           let B2 = replace_dispatch \<lparr>ds_event_id = key, ds_timer_id = timer_id,
                 ds_task_id = map_option (ulid_text X) task_id, ds_state = HandedOff,
                 ds_grant_id = Some (ulid_text X (tg_id g)), ds_token_ref = Some token_ref,
                 ds_terminal_reason = None\<rparr> B1 in
           (case append_audit_conn_with_actor X (plain_input ''authority.granted'' None (Some (tg_id g)) [pending])
               fresh now (bd_ledger B2) of
              Inl e \<Rightarrow> Inl (Board_ledger e)
            | Inr (_, L) \<Rightarrow> Inr ((), B2\<lparr>bd_ledger := L\<rparr>)))
       (sweep_expired_grants clock B)"

definition complete_timer_dispatch :: "string \<Rightarrow> string \<Rightarrow> string \<Rightarrow> unit board_op" where
  "complete_timer_dispatch key reason grant_id B =
     (let B1 = B\<lparr>bd_dispatch := map (\<lambda>d. if ds_event_id d = key
            then d\<lparr>ds_state := Terminal, ds_terminal_reason := Some reason\<rparr> else d) (bd_dispatch B)\<rparr>;
          B2 = record_processed key grant_id B1
      in (Inr (), B2\<lparr>bd_receipts := filter (\<lambda>c. rc_dispatch_id c \<noteq> key) (bd_receipts B2) @
            [\<lparr>rc_dispatch_id = key, rc_grant_id = grant_id\<rparr>]\<rparr>))"

definition mark_dispatch_terminal :: "ext \<Rightarrow> string \<Rightarrow> string \<Rightarrow> ulid option \<Rightarrow> string \<Rightarrow> string \<Rightarrow> unit board_op" where
  "mark_dispatch_terminal X key timer_id task_id reason related B =
     (Inr (), record_processed key related (replace_dispatch \<lparr>ds_event_id = key, ds_timer_id = timer_id,
        ds_task_id = map_option (ulid_text X) task_id, ds_state = Terminal, ds_grant_id = None,
        ds_token_ref = None, ds_terminal_reason = Some reason\<rparr> B))"

section \<open>Dependency waiters\<close>

definition insert_dependency_waiter :: "ext \<Rightarrow> ulid \<Rightarrow> ulid \<Rightarrow> ulid \<Rightarrow> string \<Rightarrow> string \<Rightarrow> unit board_op" where
  "insert_dependency_waiter X task_id owner dependency timer_id event_id B =
     (if find_task (ulid_text X task_id) B = None then (Inl Board_constraint, B)
      else (Inr (), B\<lparr>bd_waiters := filter (\<lambda>w. \<not> (wx_task_id w = ulid_text X task_id \<and>
            wx_dependency_id w = ulid_text X dependency \<and> wx_timer_id w = timer_id)) (bd_waiters B) @
          [\<lparr>wx_task_id = ulid_text X task_id, wx_owner_principal_id = ulid_text X owner,
            wx_dependency_id = ulid_text X dependency, wx_timer_id = timer_id, wx_event_id = event_id,
            wx_state = Waiting\<rparr>]\<rparr>))"

definition set_waiters :: "string \<Rightarrow> string \<Rightarrow> waiter_state \<Rightarrow> board \<Rightarrow> board" where
  "set_waiters task_id timer_id s B = B\<lparr>bd_waiters := map (\<lambda>w.
     if wx_task_id w = task_id \<and> wx_timer_id w = timer_id then w\<lparr>wx_state := s\<rparr> else w) (bd_waiters B)\<rparr>"

definition reset_dependency_waiter :: "ext \<Rightarrow> ulid \<Rightarrow> string \<Rightarrow> unit board_op" where
  "reset_dependency_waiter X task_id timer_id B = (Inr (), set_waiters (ulid_text X task_id) timer_id Waiting B)"

definition consume_dependency_waiter :: "ext \<Rightarrow> ulid \<Rightarrow> string \<Rightarrow> unit board_op" where
  "consume_dependency_waiter X task_id timer_id B = (Inr (), set_waiters (ulid_text X task_id) timer_id Consumed B)"

record dependency_wake =
  wk_task_id :: ulid
  wk_timer_id :: string
  wk_dependency_id :: ulid
  wk_wake_key :: string

definition wake_key :: "string \<Rightarrow> string \<Rightarrow> string" where
  "wake_key task_id timer_id = ''wake:'' @ task_id @ '':'' @ timer_id"

definition dependency_done :: "ext \<Rightarrow> board \<Rightarrow> ulid \<Rightarrow> bool" where
  "dependency_done X B d \<longleftrightarrow> (case find_task (ulid_text X d) B of
     Some r \<Rightarrow> tk_status (tb_task r) = TaskDone | None \<Rightarrow> False)"

text \<open>The loop over the candidates read at the start of the transaction.\<close>

fun poll_loop ::
  "ext \<Rightarrow> text_parsers \<Rightarrow> ulid \<Rightarrow> waiter_row list \<Rightarrow> dependency_wake list \<Rightarrow> board \<Rightarrow>
     board_error + dependency_wake list \<times> board" where
  "poll_loop X P completed [] wakes B = Inr (wakes, B)"
| "poll_loop X P completed (w # ws) wakes B =
     (case ulid_parse P (wx_task_id w) of
        None \<Rightarrow> Inl (Board_bad_digest (wx_task_id w))
      | Some task_id \<Rightarrow>
          let consume = set_waiters (wx_task_id w) (wx_timer_id w) Consumed B in
          if find_principal (wx_owner_principal_id w) B = None then poll_loop X P completed ws wakes consume
          else (case find_task (wx_task_id w) B of
              None \<Rightarrow> poll_loop X P completed ws wakes consume
            | Some r \<Rightarrow>
                if terminal_status (tk_status (tb_task r)) then poll_loop X P completed ws wakes consume
                else if \<not> list_all (dependency_done X B) (tk_dependencies (tb_task r))
                then poll_loop X P completed ws wakes B
                else
                  let B1 = (if tk_status (tb_task r) = TaskBlocked
                        then update_task (wx_task_id w) (set_status TaskOpen) B else B)
                  in poll_loop X P completed ws
                       (wakes @ [\<lparr>wk_task_id = task_id, wk_timer_id = wx_timer_id w, wk_dependency_id = completed,
                          wk_wake_key = wake_key (ulid_text X task_id) (wx_timer_id w)\<rparr>])
                       (set_waiters (wx_task_id w) (wx_timer_id w) Ready B1)))"

definition poll_dependency_waits :: "ext \<Rightarrow> text_parsers \<Rightarrow> ulid \<Rightarrow> dependency_wake list board_op" where
  "poll_dependency_waits X P completed =
     with_immediate_tx (\<lambda>B. poll_loop X P completed
       (filter (\<lambda>w. wx_dependency_id w = ulid_text X completed \<and> wx_state w = Waiting) (bd_waiters B)) [] B)"

fun parse_ids :: "text_parsers \<Rightarrow> string list \<Rightarrow> board_error + ulid list" where
  "parse_ids P [] = Inr []"
| "parse_ids P (s # ss) = (case ulid_parse P s of
     None \<Rightarrow> Inl (Board_bad_digest s)
   | Some i \<Rightarrow> (case parse_ids P ss of Inl e \<Rightarrow> Inl e | Inr rest \<Rightarrow> Inr (i # rest)))"

fun poll_each ::
  "ext \<Rightarrow> text_parsers \<Rightarrow> ulid list \<Rightarrow> dependency_wake list \<Rightarrow> dependency_wake list board_op" where
  "poll_each X P [] wakes B = (Inr wakes, B)"
| "poll_each X P (d # ds) wakes B = (case poll_dependency_waits X P d B of
     (Inl e, B') \<Rightarrow> (Inl e, B') | (Inr new, B') \<Rightarrow> poll_each X P ds (wakes @ new) B')"

definition poll_all_dependency_waits :: "ext \<Rightarrow> text_parsers \<Rightarrow> dependency_wake list board_op" where
  "poll_all_dependency_waits X P B =
     (case parse_ids P (remdups (map wx_dependency_id (filter (\<lambda>w. wx_state w = Waiting) (bd_waiters B)))) of
        Inl e \<Rightarrow> (Inl e, B) | Inr ids \<Rightarrow> poll_each X P ids [] B)"

text \<open>\<open>GROUP BY task_id, timer_id\<close> with the least dependency of a group.\<close>

fun ready_wakes :: "ext \<Rightarrow> text_parsers \<Rightarrow> waiter_row list \<Rightarrow> (string \<times> string) list \<Rightarrow> board_error + dependency_wake list" where
  "ready_wakes X P rows [] = Inr []"
| "ready_wakes X P rows ((task_s, timer_id) # groups) =
     (let dep_s = Min (set (map wx_dependency_id (filter (\<lambda>w. wx_task_id w = task_s \<and> wx_timer_id w = timer_id) rows))) in
      case (ulid_parse P task_s, ulid_parse P dep_s) of
        (None, _) \<Rightarrow> Inl (Board_bad_digest task_s)
      | (Some _, None) \<Rightarrow> Inl (Board_bad_digest dep_s)
      | (Some task_id, Some dep) \<Rightarrow>
          (case ready_wakes X P rows groups of
             Inl e \<Rightarrow> Inl e
           | Inr ws \<Rightarrow> Inr (\<lparr>wk_task_id = task_id, wk_timer_id = timer_id, wk_dependency_id = dep,
               wk_wake_key = wake_key task_s timer_id\<rparr> # ws)))"

definition take_ready_wakes :: "ext \<Rightarrow> text_parsers \<Rightarrow> board \<Rightarrow> board_error + dependency_wake list" where
  "take_ready_wakes X P B =
     (let rows = filter (\<lambda>w. wx_state w = Ready) (bd_waiters B) in
      ready_wakes X P rows (remdups (map (\<lambda>w. (wx_task_id w, wx_timer_id w)) rows)))"

definition mark_task_done :: "ext \<Rightarrow> ulid \<Rightarrow> unit board_op" where
  "mark_task_done X i =
     with_immediate_tx (\<lambda>B. case find_task (ulid_text X i) B of
         None \<Rightarrow> Inl (TaskNotFound i)
       | Some r \<Rightarrow>
           if terminal_status (tk_status (tb_task r)) then Inr ((), B)
           else Inr ((), update_task (ulid_text X i) (set_status TaskDone) B))"

definition mark_task_done_and_poll :: "ext \<Rightarrow> text_parsers \<Rightarrow> ulid \<Rightarrow> dependency_wake list board_op" where
  "mark_task_done_and_poll X P i B = (case mark_task_done X i B of
     (Inl e, B') \<Rightarrow> (Inl e, B') | (Inr _, B') \<Rightarrow> poll_dependency_waits X P i B')"

end
