(* ===== verification/Board_Invariant.thy ===== *)
theory Board_Invariant
  imports Task_Board Workflow_Replay
begin

text \<open>
  The well-formedness of the task board. \<open>board_inv\<close> says that the columns of a task row mirror
  the stored task, that timer links and timer columns agree, that a dependency waiter belongs to
  an existing task of the same owner, and that every table respects its keys. Every operation
  keeps it, so it holds of every board reached from the empty one.
\<close>

section \<open>Tables with a key\<close>

lemma find_map_key:
  assumes "\<And>x. key (f x) = key x"
  shows "find (\<lambda>x. key x = k) (map f xs) = map_option f (find (\<lambda>x. key x = k) xs)"
  by (induction xs) (auto simp: assms)

lemma find_key_iff:
  assumes "distinct (map key xs)"
  shows "find (\<lambda>x. key x = k) xs = Some x \<longleftrightarrow> x \<in> set xs \<and> key x = k"
proof -
  have "find (\<lambda>x. key x = k) xs = Some x" if "x \<in> set xs" "key x = k"
    using assms that by (induction xs) force+
  then show ?thesis by (auto simp: find_Some_iff)
qed

lemma find_key_None: "find (\<lambda>x. key x = k) xs = None \<longleftrightarrow> k \<notin> key ` set xs"
  by (auto simp: find_None_iff)

lemma distinct_key_snoc: "distinct (map key (xs @ [x])) \<longleftrightarrow> key x \<notin> key ` set xs \<and> distinct (map key xs)"
  by auto

lemma distinct_key_replace:
  "distinct (map key xs) \<Longrightarrow> distinct (map key (filter (\<lambda>y. key y \<noteq> key x) xs @ [x]))"
  by (auto simp: distinct_map_filter)

lemma map_key_update:
  assumes "\<And>x. key (f x) = key x"
  shows "map key (map f xs) = map key xs"
  by (simp add: assms)

section \<open>The invariant\<close>

definition row_mirrors :: "ext \<Rightarrow> task_row \<Rightarrow> bool" where
  "row_mirrors X r \<longleftrightarrow> (let t = tb_task r in
     tb_id r = ulid_text X (tk_id t) \<and> tb_owner_principal_id r = ulid_text X (tk_owner_principal_id t) \<and>
     tb_status r = tk_status t \<and> tb_due_at r = tk_due_at t \<and> tb_reminder_at r = tk_reminder_at t \<and>
     tb_created_at r = tk_created_at t \<and> tb_title_ref r = tk_title_ref t \<and> tb_provenance r = tk_provenance t \<and>
     tb_due_timer_id r = tk_due_timer_id t \<and> tb_reminder_timer_id r = tk_reminder_timer_id t \<and>
     tk_schema_version t = CURRENT_TASK_SCHEMA_VERSION)"

definition tasks_ok :: "ext \<Rightarrow> task_row list \<Rightarrow> bool" where
  "tasks_ok X T \<longleftrightarrow> distinct (map tb_id T) \<and> (\<forall>r\<in>set T. row_mirrors X r)"

definition links_ok :: "task_row list \<Rightarrow> timer_link_row list \<Rightarrow> bool" where
  "links_ok T K \<longleftrightarrow> distinct (map lk_timer_id K) \<and> distinct (map (\<lambda>l. (lk_task_id l, lk_kind l)) K) \<and>
     (\<forall>l\<in>set K. \<exists>r\<in>set T. tb_id r = lk_task_id l \<and> timer_column (lk_kind l) r = Some (lk_timer_id l)) \<and>
     (\<forall>r\<in>set T. \<forall>k i. timer_column k r = Some i \<longrightarrow>
        (\<exists>l\<in>set K. lk_timer_id l = i \<and> lk_task_id l = tb_id r \<and> lk_kind l = k))"

definition waiter_key :: "waiter_row \<Rightarrow> string \<times> string \<times> string" where
  "waiter_key w = (wx_task_id w, wx_dependency_id w, wx_timer_id w)"

definition waiters_ok :: "ext \<Rightarrow> task_row list \<Rightarrow> waiter_row list \<Rightarrow> bool" where
  "waiters_ok X T W \<longleftrightarrow> distinct (map waiter_key W) \<and>
     (\<forall>w\<in>set W. (\<exists>r\<in>set T. tb_id r = wx_task_id w \<and> tb_owner_principal_id r = wx_owner_principal_id w) \<and>
        (\<exists>d. wx_dependency_id w = ulid_text X d))"

definition dispatch_ok :: "dispatch_row list \<Rightarrow> processed_row list \<Rightarrow> receipt_row list \<Rightarrow> bool" where
  "dispatch_ok D PR RC \<longleftrightarrow> distinct (map ds_event_id D) \<and> distinct (map pc_event_id PR) \<and>
     distinct (map rc_dispatch_id RC) \<and>
     (\<forall>d\<in>set D. ds_state d = Terminal \<longrightarrow> ds_event_id d \<in> pc_event_id ` set PR)"

definition grants_ok :: "ext \<Rightarrow> grant_row list \<Rightarrow> counter_row list \<Rightarrow> bool" where
  "grants_ok X G C \<longleftrightarrow> distinct (map gr_id G) \<and> distinct (map gr_task_token G) \<and> distinct (map gc_grant_id C) \<and>
     (\<forall>g\<in>set G. gr_id g = ulid_text X (tg_id (gr_grant g)) \<and> tg_task_token (gr_grant g) = []) \<and>
     (\<forall>c\<in>set C. 0 \<le> gc_model_calls c \<and> 0 \<le> gc_artifact_puts c)"

definition board_inv :: "ext \<Rightarrow> board \<Rightarrow> bool" where
  "board_inv X B \<longleftrightarrow> tasks_ok X (bd_tasks B) \<and> links_ok (bd_tasks B) (bd_links B) \<and>
     waiters_ok X (bd_tasks B) (bd_waiters B) \<and>
     dispatch_ok (bd_dispatch B) (bd_processed B) (bd_receipts B) \<and> grants_ok X (bd_grants B) (bd_counters B)"

definition empty_board :: "ledger \<Rightarrow> board" where
  "empty_board L = \<lparr>bd_tasks = [], bd_links = [], bd_processed = [], bd_dispatch = [], bd_receipts = [],
     bd_waiters = [], bd_principals = [], bd_grants = [], bd_counters = [], bd_ledger = L\<rparr>"

lemma board_inv_empty: "board_inv X (empty_board L)"
  by (simp add: board_inv_def empty_board_def tasks_ok_def links_ok_def waiters_ok_def dispatch_ok_def grants_ok_def)

section \<open>Updates of a task row\<close>

text \<open>An update of rows that keeps their keys, their owner and what they mirror.\<close>

definition faithful_update :: "ext \<Rightarrow> (task_row \<Rightarrow> task_row) \<Rightarrow> bool" where
  "faithful_update X f \<longleftrightarrow> (\<forall>r. tb_id (f r) = tb_id r \<and> tb_owner_principal_id (f r) = tb_owner_principal_id r \<and>
     (row_mirrors X r \<longrightarrow> row_mirrors X (f r)))"

lemma faithful_set_status [simp, intro]: "faithful_update X (set_status s)"
  by (simp add: faithful_update_def set_status_def row_mirrors_def Let_def)

lemma faithful_set_timer [simp, intro]: "faithful_update X (set_timer k i)"
  by (simp add: faithful_update_def set_timer_def row_mirrors_def Let_def split: task_timer_kind.splits)

lemma faithful_if [intro]: "faithful_update X f \<Longrightarrow> faithful_update X (\<lambda>r. if b r then f r else r)"
  by (simp add: faithful_update_def)

lemma tasks_ok_map:
  assumes "faithful_update X f" "tasks_ok X T"
  shows "tasks_ok X (map f T)"
proof -
  have "map tb_id (map f T) = map tb_id T" using assms(1) by (simp add: faithful_update_def)
  then show ?thesis using assms by (auto simp: tasks_ok_def faithful_update_def simp del: map_map)
qed

lemma waiters_ok_map:
  assumes "faithful_update X f" "waiters_ok X T W"
  shows "waiters_ok X (map f T) W"
  using assms unfolding waiters_ok_def faithful_update_def by fastforce

lemma links_ok_map:
  assumes "links_ok T K" "\<And>r. tb_id (f r) = tb_id r" "\<And>r k. timer_column k (f r) = timer_column k r"
  shows "links_ok (map f T) K"
  using assms unfolding links_ok_def by fastforce

lemma timer_column_status [simp]: "timer_column k (set_status s r) = timer_column k r"
  by (simp add: timer_column_def set_status_def split: task_timer_kind.splits)

lemma tb_id_status [simp]: "tb_id (set_status s r) = tb_id r"
  by (simp add: set_status_def)

lemma tb_id_timer [simp]: "tb_id (set_timer k i r) = tb_id r"
  by (simp add: set_timer_def split: task_timer_kind.splits)

lemma timer_column_timer:
  "timer_column k (set_timer k' i r) = (if k = k' then Some i else timer_column k r)"
  by (cases k; cases k') (simp_all add: set_timer_def timer_column_def)

section \<open>Every operation keeps the invariant\<close>

lemma board_inv_status:
  assumes "board_inv X B"
  shows "board_inv X (update_task i (set_status s) B)"
  using assms unfolding board_inv_def update_task_def
  by (auto intro!: tasks_ok_map waiters_ok_map links_ok_map)

lemma board_inv_set_waiters:
  assumes "board_inv X B"
  shows "board_inv X (set_waiters t m s B)"
proof -
  let ?f = "\<lambda>w. if wx_task_id w = t \<and> wx_timer_id w = m then w\<lparr>wx_state := s\<rparr> else w"
  have "map waiter_key (map ?f W) = map waiter_key W" for W by (simp add: waiter_key_def)
  then have "waiters_ok X T W \<Longrightarrow> waiters_ok X T (map ?f W)" for T W
    unfolding waiters_ok_def by (simp del: map_map) auto
  then show ?thesis using assms by (simp add: board_inv_def set_waiters_def)
qed

lemma board_inv_ledger [simp]: "board_inv X (B\<lparr>bd_ledger := L\<rparr>) \<longleftrightarrow> board_inv X B"
  by (simp add: board_inv_def)

lemma board_inv_principals [simp]: "board_inv X (B\<lparr>bd_principals := Q\<rparr>) \<longleftrightarrow> board_inv X B"
  by (simp add: board_inv_def)

lemma board_inv_insert_task:
  assumes "board_inv X B" "insert_task X t B = (res, B')"
  shows "board_inv X B'"
proof (cases "B' = B")
  case False
  let ?r = "\<lparr>tb_id = ulid_text X (tk_id t), tb_owner_principal_id = ulid_text X (tk_owner_principal_id t),
      tb_status = tk_status t, tb_due_at = tk_due_at t, tb_reminder_at = tk_reminder_at t,
      tb_created_at = tk_created_at t, tb_title_ref = tk_title_ref t, tb_provenance = tk_provenance t,
      tb_due_timer_id = tk_due_timer_id t, tb_reminder_timer_id = tk_reminder_timer_id t, tb_task = t\<rparr>"
  from False assms(2) have B': "B' = B\<lparr>bd_tasks := bd_tasks B @ [?r]\<rparr>"
    and new: "find_task (ulid_text X (tk_id t)) B = None" and v: "tk_schema_version t = CURRENT_TASK_SCHEMA_VERSION"
    and no: "tk_due_timer_id t = None" "tk_reminder_timer_id t = None"
    by (auto simp: insert_task_def split: if_splits option.splits)
  have "tasks_ok X (bd_tasks B @ [?r])"
    using assms(1) new v by (auto simp: board_inv_def tasks_ok_def find_task_def find_key_None row_mirrors_def)
  moreover have "links_ok (bd_tasks B @ [?r]) (bd_links B)"
    using assms(1) no unfolding board_inv_def links_ok_def
    by (auto simp: timer_column_def split: task_timer_kind.splits)
  moreover have "waiters_ok X (bd_tasks B @ [?r]) (bd_waiters B)"
    using assms(1) unfolding board_inv_def waiters_ok_def by auto
  ultimately show ?thesis using assms(1) by (simp add: B' board_inv_def)
qed (use assms in simp)

lemma links_ok_schedule:
  assumes ok: "links_ok T K" and r: "r \<in> set T"
    and new: "\<not> list_ex (\<lambda>l. lk_timer_id l = i \<or> lk_task_id l = tb_id r \<and> lk_kind l = k) K"
  shows "links_ok (map (\<lambda>q. if tb_id q = tb_id r then set_timer k i q else q) T)
     (K @ [\<lparr>lk_timer_id = i, lk_task_id = tb_id r, lk_kind = k\<rparr>])" (is "links_ok (map ?f T) (K @ [?l])")
proof -
  have fresh: "lk_timer_id l \<noteq> i" "(lk_task_id l, lk_kind l) \<noteq> (tb_id r, k)" if "l \<in> set K" for l
    using new that by (auto simp: list_ex_iff)
  have id: "tb_id (?f q) = tb_id q" for q by simp
  have col: "timer_column j (?f q) = (if tb_id q = tb_id r \<and> j = k then Some i else timer_column j q)" for j q
    by (simp add: timer_column_timer)
  have "distinct (map lk_timer_id (K @ [?l]))" "distinct (map (\<lambda>l. (lk_task_id l, lk_kind l)) (K @ [?l]))"
    using ok fresh unfolding links_ok_def by force+
  moreover have "\<exists>q\<in>set (map ?f T). tb_id q = lk_task_id l \<and> timer_column (lk_kind l) q = Some (lk_timer_id l)"
    if l: "l \<in> set (K @ [?l])" for l
  proof (cases "l = ?l")
    case True
    then show ?thesis using r id col by (intro bexI[of _ "?f r"]) (simp_all add: timer_column_timer)
  next
    case False
    with l have lK: "l \<in> set K" by simp
    with ok obtain q where "q \<in> set T" "tb_id q = lk_task_id l" "timer_column (lk_kind l) q = Some (lk_timer_id l)"
      unfolding links_ok_def by blast
    then show ?thesis using fresh(2)[OF lK] id col
      by (intro bexI[of _ "?f q"]) (auto simp: timer_column_timer)
  qed
  moreover have "\<exists>l\<in>set (K @ [?l]). lk_timer_id l = j \<and> lk_task_id l = tb_id q \<and> lk_kind l = k'"
    if q: "q \<in> set (map ?f T)" and j: "timer_column k' q = Some j" for q k' j
  proof -
    from q obtain p where p: "p \<in> set T" "q = ?f p" by auto
    show ?thesis
    proof (cases "tb_id p = tb_id r \<and> k' = k")
      case True
      then show ?thesis using p j col[of k' p] by auto
    next
      case False
      with p j col[of k' p] have "timer_column k' p = Some j" by auto
      with ok p(1) obtain l where "l \<in> set K" "lk_timer_id l = j" "lk_task_id l = tb_id p" "lk_kind l = k'"
        unfolding links_ok_def by blast
      then show ?thesis using p(2) id[of p] by auto
    qed
  qed
  ultimately show ?thesis unfolding links_ok_def by blast
qed

lemma board_inv_schedule:
  assumes inv: "board_inv X B" and op: "schedule_task_timer X P i t k fires_at fresh now B = (res, B')"
  shows "board_inv X B'"
proof (cases "B' = B")
  case False
  from False op obtain r L where r: "find_task t B = Some r"
    and new: "\<not> list_ex (\<lambda>l. lk_timer_id l = i \<or> lk_task_id l = t \<and> lk_kind l = k) (bd_links B)"
    and B': "B' = (update_task t (set_timer k i) B)\<lparr>
        bd_links := bd_links B @ [\<lparr>lk_timer_id = i, lk_task_id = t, lk_kind = k\<rparr>], bd_ledger := L\<rparr>"
    by (auto simp: schedule_task_timer_def with_immediate_tx_def split: if_splits option.splits sum.splits prod.splits)
  from r have rT: "r \<in> set (bd_tasks B)" "tb_id r = t"
    using find_hit unfolding find_task_def by fastforce+
  let ?T = "map (\<lambda>q. if tb_id q = t then set_timer k i q else q) (bd_tasks B)"
  have "tasks_ok X ?T" "waiters_ok X ?T (bd_waiters B)"
    using inv unfolding board_inv_def by (auto intro!: tasks_ok_map waiters_ok_map)
  moreover have "links_ok ?T (bd_links B @ [\<lparr>lk_timer_id = i, lk_task_id = t, lk_kind = k\<rparr>])"
    using links_ok_schedule[of "bd_tasks B" "bd_links B" r i k] inv rT new unfolding board_inv_def by simp
  ultimately show ?thesis using inv by (simp add: B' board_inv_def update_task_def)
qed (use inv in simp)

lemma board_inv_blocked:
  "board_inv X B \<Longrightarrow> mark_task_blocked X i fresh now B = (res, B') \<Longrightarrow> board_inv X B'"
  by (auto simp: mark_task_blocked_def with_immediate_tx_def board_inv_status
      split: if_splits option.splits sum.splits prod.splits)

lemma board_inv_done:
  "board_inv X B \<Longrightarrow> mark_task_done X i B = (res, B') \<Longrightarrow> board_inv X B'"
  by (auto simp: mark_task_done_def with_immediate_tx_def board_inv_status
      split: if_splits option.splits sum.splits prod.splits)

lemma board_inv_replace:
  assumes "board_inv X B" "ds_state d = Terminal \<Longrightarrow> ds_event_id d \<in> pc_event_id ` set (bd_processed B)"
  shows "board_inv X (replace_dispatch d B)"
  using assms by (auto simp: board_inv_def replace_dispatch_def dispatch_ok_def distinct_map_filter)

lemma board_inv_processed: "board_inv X B \<Longrightarrow> board_inv X (record_processed k g B)"
  by (auto simp: board_inv_def record_processed_def dispatch_ok_def timer_event_already_processed_def list_ex_iff)

lemma record_processed_key: "k \<in> pc_event_id ` set (bd_processed (record_processed k g B))"
  by (force simp: record_processed_def timer_event_already_processed_def list_ex_iff)

lemma board_inv_terminal:
  assumes "board_inv X B" "mark_dispatch_terminal X key m t reason related B = (res, B')"
  shows "board_inv X B'"
proof -
  let ?d = "\<lparr>ds_event_id = key, ds_timer_id = m, ds_task_id = map_option (ulid_text X) t, ds_state = Terminal,
      ds_grant_id = None, ds_token_ref = None, ds_terminal_reason = Some reason\<rparr>"
  have "B' = record_processed key related (replace_dispatch ?d B)"
    using assms(2) by (simp add: mark_dispatch_terminal_def)
  also have "\<dots> = replace_dispatch ?d (record_processed key related B)"
    by (simp add: record_processed_def replace_dispatch_def timer_event_already_processed_def)
  finally show ?thesis
    using assms(1) record_processed_key by (auto intro!: board_inv_replace board_inv_processed)
qed

lemma board_inv_complete:
  assumes "board_inv X B" "complete_timer_dispatch key reason g B = (res, B')"
  shows "board_inv X B'"
proof -
  let ?f = "\<lambda>d. if ds_event_id d = key then d\<lparr>ds_state := Terminal, ds_terminal_reason := Some reason\<rparr> else d"
  let ?P = "bd_processed (record_processed key g B)"
  let ?R = "filter (\<lambda>c. rc_dispatch_id c \<noteq> key) (bd_receipts B) @ [\<lparr>rc_dispatch_id = key, rc_grant_id = g\<rparr>]"
  have B': "B' = B\<lparr>bd_dispatch := map ?f (bd_dispatch B), bd_processed := ?P, bd_receipts := ?R\<rparr>"
    using assms(2) by (auto simp: complete_timer_dispatch_def record_processed_def timer_event_already_processed_def Let_def)
  have "board_inv X (record_processed key g B)" using assms(1) by (rule board_inv_processed)
  then have "dispatch_ok (bd_dispatch B) ?P (bd_receipts B)"
    by (simp add: board_inv_def record_processed_def split: if_splits)
  moreover have keys: "map ds_event_id (map ?f (bd_dispatch B)) = map ds_event_id (bd_dispatch B)" by simp
  ultimately have "dispatch_ok (map ?f (bd_dispatch B)) ?P ?R"
    using record_processed_key[of key g B] unfolding dispatch_ok_def keys
    by (auto simp: distinct_map_filter)
  then show ?thesis using assms(1) by (simp add: B' board_inv_def)
qed

lemma grants_ok_sweep:
  "grants_ok X G C \<Longrightarrow> grants_ok X (filter p G) (filter q C)"
  by (auto simp: grants_ok_def distinct_map_filter)

lemma board_inv_sweep: "board_inv X B \<Longrightarrow> board_inv X (sweep_expired_grants now B)"
  by (simp add: board_inv_def sweep_expired_grants_def Let_def grants_ok_sweep)

lemma board_inv_insert_grant:
  assumes "board_inv X B" "insert_grant_row X g pending surface B = Inr B'"
  shows "board_inv X B'"
  using assms by (auto simp: board_inv_def insert_grant_row_def Let_def grants_ok_def list_ex_iff split: if_splits; metis)

lemma board_inv_insert_task_grant:
  "board_inv X B \<Longrightarrow> insert_task_grant X g pending surface now B = (res, B') \<Longrightarrow> board_inv X B'"
  by (auto simp: insert_task_grant_def Let_def board_inv_sweep
      intro: board_inv_insert_grant[OF board_inv_sweep] split: sum.splits)

lemma board_inv_persist:
  assumes inv: "board_inv X B"
    and op: "persist_grant_with_handoff X key g pending surface token_ref m t clock fresh now B = (res, B')"
  shows "board_inv X B'"
proof (cases "B' = sweep_expired_grants clock B")
  case False
  let ?d = "\<lparr>ds_event_id = key, ds_timer_id = m, ds_task_id = map_option (ulid_text X) t, ds_state = HandedOff,
      ds_grant_id = Some (ulid_text X (tg_id g)), ds_token_ref = Some token_ref, ds_terminal_reason = None\<rparr>"
  from False op obtain B1 L where "insert_grant_row X g pending surface (sweep_expired_grants clock B) = Inr B1"
    "B' = (replace_dispatch ?d B1)\<lparr>bd_ledger := L\<rparr>"
    by (auto simp: persist_grant_with_handoff_def with_immediate_tx_def Let_def split: sum.splits prod.splits)
  moreover from this(1) have "board_inv X B1" by (rule board_inv_insert_grant[OF board_inv_sweep[OF inv]])
  ultimately show ?thesis by (auto intro!: board_inv_replace)
qed (use inv in \<open>simp add: board_inv_sweep\<close>)

text \<open>The counters: what the three upserts share.\<close>

lemma board_inv_upsert:
  assumes "board_inv X B" "upsert_counter i c ok f B = (res, B')"
    and "gc_grant_id c = i" "\<And>c. gc_grant_id (f c) = gc_grant_id c"
    and "0 \<le> gc_model_calls c \<and> 0 \<le> gc_artifact_puts c"
    and "\<And>c. 0 \<le> gc_model_calls c \<and> 0 \<le> gc_artifact_puts c \<Longrightarrow>
      0 \<le> gc_model_calls (f c) \<and> 0 \<le> gc_artifact_puts (f c)"
  shows "board_inv X B'"
proof -
  have "map gc_grant_id (map (\<lambda>c. if gc_grant_id c = i then f c else c) C) = map gc_grant_id C" for C
    by (simp add: assms(4))
  then show ?thesis
    using assms by (auto simp: board_inv_def upsert_counter_def grants_ok_def find_key_None
        simp del: map_map split: option.splits if_splits)
qed

lemma board_inv_count:
  "board_inv X B \<Longrightarrow> try_count_model_call X g cap B = (res, B') \<Longrightarrow> board_inv X B'"
  "board_inv X B \<Longrightarrow> try_count_model_calls X g calls cap B = (res, B') \<Longrightarrow> board_inv X B'"
  "board_inv X B \<Longrightarrow> try_count_artifact_put X g cap B = (res, B') \<Longrightarrow> board_inv X B'"
  by (auto simp: try_count_model_call_def try_count_model_calls_def try_count_artifact_put_def
      split: if_splits elim!: board_inv_upsert)

lemma board_inv_insert_waiter:
  assumes inv: "board_inv X B" and op: "insert_dependency_waiter X t owner dep m e B = (res, B')"
    and owner: "\<And>r. find_task (ulid_text X t) B = Some r \<Longrightarrow> tk_owner_principal_id (tb_task r) = owner"
  shows "board_inv X B'"
proof (cases "find_task (ulid_text X t) B")
  case (Some r)
  let ?w = "\<lparr>wx_task_id = ulid_text X t, wx_owner_principal_id = ulid_text X owner,
      wx_dependency_id = ulid_text X dep, wx_timer_id = m, wx_event_id = e, wx_state = Waiting\<rparr>"
  from Some have r: "r \<in> set (bd_tasks B)" "tb_id r = ulid_text X t"
    using find_hit unfolding find_task_def by fastforce+
  with inv owner[OF Some] have "tb_owner_principal_id r = ulid_text X owner"
    by (auto simp: board_inv_def tasks_ok_def row_mirrors_def Let_def)
  moreover have B': "B' = B\<lparr>bd_waiters := filter (\<lambda>w. waiter_key w \<noteq> waiter_key ?w) (bd_waiters B) @ [?w]\<rparr>"
    using op Some by (auto simp: insert_dependency_waiter_def waiter_key_def)
  moreover have "distinct (map waiter_key (filter (\<lambda>w. waiter_key w \<noteq> waiter_key ?w) (bd_waiters B) @ [?w]))"
    using inv by (intro distinct_key_replace) (simp add: board_inv_def waiters_ok_def)
  ultimately have "waiters_ok X (bd_tasks B) (bd_waiters B')"
    using inv r unfolding board_inv_def waiters_ok_def B' by auto
  then show ?thesis using inv by (simp add: B' board_inv_def)
qed (use inv op in \<open>simp add: insert_dependency_waiter_def\<close>)

lemma board_inv_poll_loop:
  "board_inv X B \<Longrightarrow> poll_loop X P dep ws wakes B = Inr (wakes', B') \<Longrightarrow> board_inv X B'"
proof (induction X P dep ws wakes B rule: poll_loop.induct)
  case (2 X P dep w ws wakes B)
  then show ?case
    by (cases "find_principal (wx_owner_principal_id w) B")
      (auto simp: board_inv_set_waiters board_inv_status Let_def split: option.splits if_splits)
qed simp

lemma board_inv_poll:
  "board_inv X B \<Longrightarrow> poll_dependency_waits X P dep B = (res, B') \<Longrightarrow> board_inv X B'"
  by (auto simp: poll_dependency_waits_def with_immediate_tx_def board_inv_poll_loop split: sum.splits prod.splits)

section \<open>Reachable boards\<close>

text \<open>
  One step is one call of the store, whether it succeeds or fails. The dispatcher, the only caller
  of \<open>insert_dependency_waiter\<close>, passes the owner of the task. Other parts of the kernel append to
  the ledger and register principals.
\<close>

inductive board_step :: "ext \<Rightarrow> text_parsers \<Rightarrow> board \<Rightarrow> board \<Rightarrow> bool" for X P where
  step_insert: "insert_task X t B = (r0, B') \<Longrightarrow> board_step X P B B'"
| step_schedule: "schedule_task_timer X P m i k fires_at fresh now B = (r1, B') \<Longrightarrow> board_step X P B B'"
| step_blocked: "mark_task_blocked X u fresh now B = (r2, B') \<Longrightarrow> board_step X P B B'"
| step_done: "mark_task_done X u B = (r2, B') \<Longrightarrow> board_step X P B B'"
| step_persist: "persist_grant_with_handoff X key g pending surface token_ref m task clock fresh now B = (r2, B') \<Longrightarrow>
    board_step X P B B'"
| step_complete: "complete_timer_dispatch key reason gid B = (r2, B') \<Longrightarrow> board_step X P B B'"
| step_terminal: "mark_dispatch_terminal X key m task reason related B = (r2, B') \<Longrightarrow> board_step X P B B'"
| step_waiter: "insert_dependency_waiter X u owner dep m e B = (r2, B') \<Longrightarrow>
    (\<And>r. find_task (ulid_text X u) B = Some r \<Longrightarrow> tk_owner_principal_id (tb_task r) = owner) \<Longrightarrow> board_step X P B B'"
| step_reset: "reset_dependency_waiter X u m B = (r2, B') \<Longrightarrow> board_step X P B B'"
| step_consume: "consume_dependency_waiter X u m B = (r2, B') \<Longrightarrow> board_step X P B B'"
| step_poll: "poll_dependency_waits X P dep B = (r3, B') \<Longrightarrow> board_step X P B B'"
| step_grant: "insert_task_grant X g pending surface now B = (r2, B') \<Longrightarrow> board_step X P B B'"
| step_model_call: "try_count_model_call X u cap B = (r4, B') \<Longrightarrow> board_step X P B B'"
| step_model_calls: "try_count_model_calls X u calls cap B = (r4, B') \<Longrightarrow> board_step X P B B'"
| step_artifact_put: "try_count_artifact_put X u cap B = (r4, B') \<Longrightarrow> board_step X P B B'"
| step_ledger: "board_step X P B (B\<lparr>bd_ledger := L\<rparr>)"
| step_principals: "board_step X P B (B\<lparr>bd_principals := Q\<rparr>)"

definition board_run :: "ext \<Rightarrow> text_parsers \<Rightarrow> board \<Rightarrow> bool" where
  "board_run X P B \<longleftrightarrow> (\<exists>L. (board_step X P)\<^sup>*\<^sup>* (empty_board L) B)"

lemma board_step_inv: "board_step X P B B' \<Longrightarrow> board_inv X B \<Longrightarrow> board_inv X B'"
proof (induction rule: board_step.induct)
  case (step_waiter u owner dep m e B r2 B')
  then show ?case by (auto intro: board_inv_insert_waiter)
qed (auto simp: reset_dependency_waiter_def consume_dependency_waiter_def board_inv_set_waiters
    intro: board_inv_insert_task board_inv_schedule board_inv_blocked board_inv_done board_inv_persist
      board_inv_complete board_inv_terminal board_inv_poll board_inv_insert_task_grant board_inv_count)

lemma board_steps_inv: "(board_step X P)\<^sup>*\<^sup>* B B' \<Longrightarrow> board_inv X B \<Longrightarrow> board_inv X B'"
  by (induction rule: rtranclp_induct) (auto intro: board_step_inv)

lemma board_run_inv: "board_run X P B \<Longrightarrow> board_inv X B"
  using board_steps_inv board_inv_empty unfolding board_run_def by blast

lemma board_run_step: "board_run X P B \<Longrightarrow> board_step X P B B' \<Longrightarrow> board_run X P B'"
  unfolding board_run_def by (meson rtranclp.rtrancl_into_rtrancl)

lemma board_run_init: "board_run X P (empty_board L)"
  unfolding board_run_def by blast

section \<open>Looking up\<close>

lemma find_task_iff: "board_inv X B \<Longrightarrow> find_task i B = Some r \<longleftrightarrow> r \<in> set (bd_tasks B) \<and> tb_id r = i"
  by (simp add: board_inv_def tasks_ok_def find_task_def find_key_iff)

lemma ulid_text_inj: "wf_parsers X P \<Longrightarrow> ulid_text X a = ulid_text X b \<longleftrightarrow> a = b"
  unfolding wf_parsers_def by (metis option.inject)

lemma row_mirrorsD: "board_inv X B \<Longrightarrow> r \<in> set (bd_tasks B) \<Longrightarrow> row_mirrors X r"
  by (simp add: board_inv_def tasks_ok_def)

lemma get_task_iff:
  assumes "board_inv X B" "wf_parsers X P"
  shows "get_task X i B = Some t \<longleftrightarrow> (\<exists>r\<in>set (bd_tasks B). tb_task r = t \<and> tk_id t = i)"
  using assms row_mirrorsD[OF assms(1)]
  by (auto simp: get_task_def find_task_iff row_mirrors_def Let_def ulid_text_inj)

definition task_timer_id :: "task_timer_kind \<Rightarrow> task \<Rightarrow> string option" where
  "task_timer_id k t = (case k of DeadlineTimer \<Rightarrow> tk_due_timer_id t | ReminderTimer \<Rightarrow> tk_reminder_timer_id t)"

lemma task_timer_id_column: "row_mirrors X r \<Longrightarrow> task_timer_id k (tb_task r) = timer_column k r"
  by (simp add: task_timer_id_def timer_column_def row_mirrors_def Let_def split: task_timer_kind.splits)

lemma task_by_timer_iff:
  assumes inv: "board_inv X B"
  shows "task_by_timer_id m B = Some t \<longleftrightarrow>
     (\<exists>r\<in>set (bd_tasks B). tb_task r = t \<and> (\<exists>k. task_timer_id k t = Some m))" (is "?L \<longleftrightarrow> ?R")
proof -
  have links: "links_ok (bd_tasks B) (bd_links B)" and dt: "distinct (map tb_id (bd_tasks B))"
    using inv by (auto simp: board_inv_def tasks_ok_def)
  have known: "find_task (lk_task_id l) B \<noteq> None" if "l \<in> set (bd_links B)" for l
    using links that unfolding links_ok_def find_task_def find_key_None by force
  have eq: "find (\<lambda>l. lk_timer_id l = m \<and> find_task (lk_task_id l) B \<noteq> None) (bd_links B) =
      find (\<lambda>l. lk_timer_id l = m) (bd_links B)"
    by (rule find_cong) (auto simp: known)
  have hit: "find (\<lambda>l. lk_timer_id l = m) (bd_links B) = Some l \<longleftrightarrow> l \<in> set (bd_links B) \<and> lk_timer_id l = m" for l
    using links by (simp add: links_ok_def find_key_iff)
  show ?thesis
  proof
    assume ?L
    then obtain l r where l: "l \<in> set (bd_links B)" "lk_timer_id l = m" and r: "find_task (lk_task_id l) B = Some r" "tb_task r = t"
      unfolding task_by_timer_id_def eq by (auto simp: bind_eq_Some_conv hit)
    from links l obtain q where q: "q \<in> set (bd_tasks B)" "tb_id q = lk_task_id l" "timer_column (lk_kind l) q = Some m"
      unfolding links_ok_def by blast
    with r inv have "q = r" by (simp add: find_task_iff) (metis dt find_key_iff option.inject)
    then show ?R using q r(2) task_timer_id_column[OF row_mirrorsD[OF inv q(1)]] by auto
  next
    assume ?R
    then obtain r k where r: "r \<in> set (bd_tasks B)" "tb_task r = t" "task_timer_id k t = Some m" by blast
    with task_timer_id_column[OF row_mirrorsD[OF inv r(1)]] have "timer_column k r = Some m" by auto
    with links r obtain l where l: "l \<in> set (bd_links B)" "lk_timer_id l = m" "lk_task_id l = tb_id r"
      unfolding links_ok_def by blast
    then have "find (\<lambda>l. lk_timer_id l = m) (bd_links B) = Some l" by (simp add: hit)
    moreover have "find_task (lk_task_id l) B = Some r" using r l inv by (simp add: find_task_iff)
    ultimately show ?L using r(2) unfolding task_by_timer_id_def eq by simp
  qed
qed

section \<open>A finished task can be blocked again\<close>

text \<open>\<open>mark_task_blocked\<close> looks only for a task that is already blocked.\<close>

lemma finished_task_blocked:
  assumes "find_task (ulid_text X i) B = Some r" "tk_status (tb_task r) = TaskDone"
    and "append_audit_conn_with_actor X (plain_input ''task.blocked''
      (Some (''unmet dependency at timer fire: '' @ ulid_text X i)) None []) fresh now (bd_ledger B) = Inr (ev, L)"
  shows "\<exists>B'. mark_task_blocked X i fresh now B = (Inr (), B') \<and>
    find_task (ulid_text X i) B' = Some (set_status TaskBlocked r)"
proof -
  have "find_task (ulid_text X i) (update_task (ulid_text X i) (set_status TaskBlocked) B) =
      map_option (\<lambda>r. if tb_id r = ulid_text X i then set_status TaskBlocked r else r) (find_task (ulid_text X i) B)"
    unfolding find_task_def update_task_def by (simp add: find_map_key)
  moreover have "tb_id r = ulid_text X i" using assms(1) unfolding find_task_def by (rule find_hit(2))
  ultimately show ?thesis
    using assms by (simp add: mark_task_blocked_def with_immediate_tx_def find_task_def)
qed

section \<open>Consistency of the board\<close>

text \<open>
  C24. On every board that calls of the store can produce, each column of a task row mirrors the
  stored task, timer columns and timer links agree, waiters belong to existing tasks of the same
  owner, a terminal dispatch has its idempotency mark, no table holds a key twice, and no grant row
  holds a bearer token. Reading a task by its identifier returns exactly the stored task with that
  identifier, and reading by a timer returns exactly the stored task that carries the timer.\<close>

theorem board_consistent:
  assumes "wf_parsers X P" "board_run X P B"
  shows "board_inv X B \<and>
    (\<forall>i t. get_task X i B = Some t \<longleftrightarrow> (\<exists>r\<in>set (bd_tasks B). tb_task r = t \<and> tk_id t = i)) \<and>
    (\<forall>m t. task_by_timer_id m B = Some t \<longleftrightarrow>
       get_task X (tk_id t) B = Some t \<and> (\<exists>k. task_timer_id k t = Some m))"
proof -
  have inv: "board_inv X B" using assms(2) by (rule board_run_inv)
  then show ?thesis using get_task_iff[OF inv assms(1)] task_by_timer_iff[OF inv] by auto
qed

definition ex_title :: artifact_ref where
  "ex_title = \<lparr>ar_digest = digest_of ex_run_ext (JString ''title''), ar_schema_version = 1\<rparr>"

definition ex_task :: "ulid \<Rightarrow> ulid list \<Rightarrow> task" where
  "ex_task i deps = \<lparr>tk_schema_version = 1, tk_id = i, tk_owner_principal_id = 7, tk_status = TaskOpen,
     tk_owning_worker = None, tk_owning_grant_id = None, tk_due_at = Some 50, tk_reminder_at = None,
     tk_due_timer_id = None, tk_reminder_timer_id = None, tk_dependencies = deps,
     tk_provenance = Promised ex_title, tk_title_ref = ex_title, tk_created_at = 10\<rparr>"

definition ex_row :: "ulid \<Rightarrow> ulid list \<Rightarrow> task_row" where
  "ex_row i deps = \<lparr>tb_id = ulid_text ex_run_ext i, tb_owner_principal_id = ulid_text ex_run_ext 7,
     tb_status = TaskOpen, tb_due_at = Some 50, tb_reminder_at = None, tb_created_at = 10, tb_title_ref = ex_title,
     tb_provenance = Promised ex_title, tb_due_timer_id = None, tb_reminder_timer_id = None, tb_task = ex_task i deps\<rparr>"

lemma ex_insert:
  assumes "ulid_text ex_run_ext i \<notin> tb_id ` set (bd_tasks B)"
  shows "insert_task ex_run_ext (ex_task i deps) B = (Inr (), B\<lparr>bd_tasks := bd_tasks B @ [ex_row i deps]\<rparr>)"
  using assms by (simp add: insert_task_def ex_task_def ex_row_def CURRENT_TASK_SCHEMA_VERSION_def epoch_nanos_def
      find_task_def find_key_None)

definition ex_board :: board where
  "ex_board = (empty_board empty_ledger)\<lparr>bd_tasks := [ex_row 1 [], ex_row 2 [1]]\<rparr>"

lemma ex_board_run: "board_run ex_run_ext ex_parsers ex_board"
proof -
  let ?B0 = "empty_board empty_ledger"
  have "board_run ex_run_ext ex_parsers ?B0" by (rule board_run_init)
  moreover have "insert_task ex_run_ext (ex_task 1 []) ?B0 = (Inr (), ?B0\<lparr>bd_tasks := [ex_row 1 []]\<rparr>)"
    using ex_insert[of 1 ?B0] by (simp add: empty_board_def)
  ultimately have "board_run ex_run_ext ex_parsers (?B0\<lparr>bd_tasks := [ex_row 1 []]\<rparr>)"
    by (blast intro: board_run_step step_insert)
  moreover have "insert_task ex_run_ext (ex_task 2 [1]) (?B0\<lparr>bd_tasks := [ex_row 1 []]\<rparr>) = (Inr (), ex_board)"
    using ex_insert[of 2 "?B0\<lparr>bd_tasks := [ex_row 1 []]\<rparr>" "[1]"]
    by (simp add: ex_board_def ex_row_def[of 1] ex_run_text_eq)
  ultimately show ?thesis by (blast intro: board_run_step step_insert)
qed

theorem board_consistent_witness:
  "board_inv ex_run_ext ex_board \<and> get_task ex_run_ext 2 ex_board = Some (ex_task 2 [1]) \<and>
   task_by_timer_id ''t'' ex_board = None"
proof -
  note c = board_consistent[OF wf_ex_run(3) ex_board_run]
  have "\<exists>r\<in>set (bd_tasks ex_board). tb_task r = ex_task 2 [1] \<and> tk_id (ex_task 2 [1]) = 2"
    by (simp add: ex_board_def ex_row_def ex_task_def)
  moreover have "task_timer_id k (tb_task r) = None" if "r \<in> set (bd_tasks ex_board)" for r k
    using that by (auto simp: ex_board_def ex_row_def ex_task_def task_timer_id_def split: task_timer_kind.splits)
  then have "task_by_timer_id ''t'' ex_board \<noteq> Some t" for t using c by fastforce
  ultimately show ?thesis using c by (metis option.exhaust)
qed

end
