(* ===== verification/Task_Wakes.thy ===== *)
theory Task_Wakes
  imports Board_Invariant
begin

text \<open>
  What a poll of the dependency waiters does. \<open>poll_all_dependency_waits\<close> runs one transaction per
  dependency, and each may touch the waiters the next one reads. The theory shows that together
  they do what one pass over the waiting groups would: \<open>settle\<close> is that pass.
\<close>

section \<open>The verdict on a group\<close>

datatype verdict = DropGroup | KeepGroup | WakeGroup

definition waiter_group :: "waiter_row \<Rightarrow> string \<times> string" where
  "waiter_group w = (wx_task_id w, wx_timer_id w)"

definition task_verdict :: "ext \<Rightarrow> board \<Rightarrow> string \<Rightarrow> verdict" where
  "task_verdict X B i = (case find_task i B of
     None \<Rightarrow> DropGroup
   | Some r \<Rightarrow>
       if find_principal (tb_owner_principal_id r) B = None \<or> terminal_status (tk_status (tb_task r)) then DropGroup
       else if list_all (dependency_done X B) (tk_dependencies (tb_task r)) then WakeGroup else KeepGroup)"

definition settled_waiter :: "ext \<Rightarrow> board \<Rightarrow> (string \<times> string) set \<Rightarrow> waiter_row \<Rightarrow> waiter_row" where
  "settled_waiter X B S w = (if waiter_group w \<in> S
     then w\<lparr>wx_state := if task_verdict X B (wx_task_id w) = WakeGroup then Ready else Consumed\<rparr> else w)"

definition settled_task :: "ext \<Rightarrow> board \<Rightarrow> (string \<times> string) set \<Rightarrow> task_row \<Rightarrow> task_row" where
  "settled_task X B S r = (if tk_status (tb_task r) = TaskBlocked \<and> task_verdict X B (tb_id r) = WakeGroup \<and>
      tb_id r \<in> fst ` S then set_status TaskOpen r else r)"

definition settle :: "ext \<Rightarrow> board \<Rightarrow> (string \<times> string) set \<Rightarrow> board" where
  "settle X B S = B\<lparr>bd_tasks := map (settled_task X B S) (bd_tasks B),
     bd_waiters := map (settled_waiter X B S) (bd_waiters B)\<rparr>"

definition waiting_groups :: "board \<Rightarrow> (string \<times> string) set" where
  "waiting_groups B = waiter_group ` {w \<in> set (bd_waiters B). wx_state w = Waiting}"

lemma settled_task_simps [simp]:
  "tb_id (settled_task X B S r) = tb_id r" "tb_owner_principal_id (settled_task X B S r) = tb_owner_principal_id r"
  "tk_dependencies (tb_task (settled_task X B S r)) = tk_dependencies (tb_task r)"
  "terminal_status (tk_status (tb_task (settled_task X B S r))) = terminal_status (tk_status (tb_task r))"
  "tk_status (tb_task (settled_task X B S r)) = TaskDone \<longleftrightarrow> tk_status (tb_task r) = TaskDone"
  by (simp_all add: settled_task_def set_status_def terminal_status_def)

lemma settled_waiter_simps [simp]:
  "wx_task_id (settled_waiter X B S w) = wx_task_id w" "wx_timer_id (settled_waiter X B S w) = wx_timer_id w"
  "wx_dependency_id (settled_waiter X B S w) = wx_dependency_id w"
  "wx_owner_principal_id (settled_waiter X B S w) = wx_owner_principal_id w"
  "waiter_group (settled_waiter X B S w) = waiter_group w"
  by (simp_all add: settled_waiter_def waiter_group_def)

lemma settle_none [simp]: "settle X B {} = B"
proof -
  have "settled_task X B {} = id" "settled_waiter X B {} = id"
    by (auto simp: fun_eq_iff settled_task_def settled_waiter_def)
  then show ?thesis by (simp add: settle_def)
qed

lemma find_task_settle: "find_task i (settle X B S) = map_option (settled_task X B S) (find_task i B)"
  by (simp add: find_task_def settle_def find_map_key)

lemma find_principal_settle [simp]: "find_principal i (settle X B S) = find_principal i B"
  by (simp add: find_principal_def settle_def)

lemma dependency_done_settle [simp]: "dependency_done X (settle X B S) = dependency_done X B"
  by (simp add: fun_eq_iff dependency_done_def find_task_settle split: option.split)

text \<open>Settling other groups does not change a verdict.\<close>

lemma task_verdict_settle [simp]: "task_verdict X (settle X B S) i = task_verdict X B i"
  by (simp add: task_verdict_def find_task_settle split: option.split)

section \<open>One candidate\<close>

lemma settle_drop:
  assumes "task_verdict X B t = DropGroup"
  shows "set_waiters t m Consumed (settle X B S) = settle X B (insert (t, m) S)"
proof -
  have "settled_task X B (insert (t, m) S) = settled_task X B S"
    using assms by (auto simp: fun_eq_iff settled_task_def)
  moreover have "(if wx_task_id w = t \<and> wx_timer_id w = m then settled_waiter X B S w\<lparr>wx_state := Consumed\<rparr>
      else settled_waiter X B S w) = settled_waiter X B (insert (t, m) S) w" for w
    using assms by (auto simp: settled_waiter_def waiter_group_def)
  ultimately show ?thesis by (simp add: set_waiters_def settle_def)
qed

lemma settle_wake:
  assumes "task_verdict X B t = WakeGroup" "find_task t (settle X B S) = Some r" "board_inv X B"
  shows "set_waiters t m Ready (if tk_status (tb_task r) = TaskBlocked
     then update_task t (set_status TaskOpen) (settle X B S) else settle X B S) = settle X B (insert (t, m) S)"
proof -
  from assms(2) obtain q where q: "find_task t B = Some q" "r = settled_task X B S q"
    by (auto simp: find_task_settle)
  have row: "(if tk_status (tb_task r) = TaskBlocked \<and> tb_id p = t then set_status TaskOpen (settled_task X B S p)
      else settled_task X B S p) = settled_task X B (insert (t, m) S) p" if "p \<in> set (bd_tasks B)" for p
  proof (cases "tb_id p = t")
    case True
    with q(1) that assms(3) have "p = q" by (metis find_task_iff option.inject)
    then show ?thesis using assms(1) True by (auto simp: q(2) settled_task_def set_status_def)
  qed (auto simp: settled_task_def)
  have waiter: "(if wx_task_id w = t \<and> wx_timer_id w = m then settled_waiter X B S w\<lparr>wx_state := Ready\<rparr>
      else settled_waiter X B S w) = settled_waiter X B (insert (t, m) S) w" for w
    using assms(1) by (auto simp: settled_waiter_def waiter_group_def)
  have "bd_tasks (if tk_status (tb_task r) = TaskBlocked
      then update_task t (set_status TaskOpen) (settle X B S) else settle X B S) =
      map (settled_task X B (insert (t, m) S)) (bd_tasks B)"
    by (auto simp: update_task_def settle_def row[symmetric])
  then show ?thesis
    by (auto simp: set_waiters_def update_task_def settle_def waiter)
qed

section \<open>The loops\<close>

definition wake_of :: "ext \<Rightarrow> text_parsers \<Rightarrow> ulid \<Rightarrow> waiter_row \<Rightarrow> dependency_wake" where
  "wake_of X P dep w = (let i = the (ulid_parse P (wx_task_id w)) in
     \<lparr>wk_task_id = i, wk_timer_id = wx_timer_id w, wk_dependency_id = dep,
      wk_wake_key = wake_key (ulid_text X i) (wx_timer_id w)\<rparr>)"

definition acted_on :: "ext \<Rightarrow> board \<Rightarrow> waiter_row \<Rightarrow> bool" where
  "acted_on X B w \<longleftrightarrow> task_verdict X B (wx_task_id w) \<noteq> KeepGroup"

definition woken :: "ext \<Rightarrow> board \<Rightarrow> waiter_row \<Rightarrow> bool" where
  "woken X B w \<longleftrightarrow> task_verdict X B (wx_task_id w) = WakeGroup"

lemma waiter_task:
  assumes "board_inv X B" "w \<in> set (bd_waiters B)"
  obtains r where "find_task (wx_task_id w) B = Some r" "tb_owner_principal_id r = wx_owner_principal_id w"
  using assms by (auto simp: board_inv_def waiters_ok_def find_task_iff[OF assms(1)])

lemma waiter_text:
  assumes "board_inv X B" "wf_parsers X P" "w \<in> set (bd_waiters B)"
  obtains i d where "wx_task_id w = ulid_text X i" "ulid_parse P (wx_task_id w) = Some i" "wx_dependency_id w = ulid_text X d"
proof -
  from assms(1,3) obtain r d where "r \<in> set (bd_tasks B)" "tb_id r = wx_task_id w" "wx_dependency_id w = ulid_text X d"
    unfolding board_inv_def waiters_ok_def by blast
  moreover from this row_mirrorsD[OF assms(1)] have "wx_task_id w = ulid_text X (tk_id (tb_task r))"
    by (fastforce simp: row_mirrors_def Let_def)
  ultimately show thesis using assms(2) that by (auto simp: wf_parsers_def)
qed

lemma poll_candidate:
  assumes inv: "board_inv X B" and P: "wf_parsers X P" and w: "w \<in> set (bd_waiters B)"
  shows "poll_loop X P dep (w # ws) wakes (settle X B S) =
    poll_loop X P dep ws (if woken X B w then wakes @ [wake_of X P dep w] else wakes)
      (if acted_on X B w then settle X B (insert (waiter_group w) S) else settle X B S)"
proof -
  obtain i where i: "ulid_parse P (wx_task_id w) = Some i" using waiter_text[OF inv P w] by metis
  obtain q where q: "find_task (wx_task_id w) B = Some q" "tb_owner_principal_id q = wx_owner_principal_id w"
    using waiter_task[OF inv w] .
  let ?r = "settled_task X B S q"
  have r: "find_task (wx_task_id w) (settle X B S) = Some ?r" using q by (simp add: find_task_settle)
  have v: "task_verdict X B (wx_task_id w) =
      (if find_principal (wx_owner_principal_id w) B = None \<or> terminal_status (tk_status (tb_task ?r)) then DropGroup
       else if list_all (dependency_done X B) (tk_dependencies (tb_task ?r)) then WakeGroup else KeepGroup)"
    using q by (simp add: task_verdict_def)
  show ?thesis
    using settle_drop[of X B "wx_task_id w" "wx_timer_id w" S] settle_wake[OF _ r inv, of "wx_timer_id w"] v
    by (auto simp: i r Let_def acted_on_def woken_def wake_of_def waiter_group_def split: if_splits)
qed

lemma poll_candidates:
  assumes "board_inv X B" "wf_parsers X P" "set ws \<subseteq> set (bd_waiters B)"
  shows "poll_loop X P dep ws wakes (settle X B S) =
    Inr (wakes @ map (wake_of X P dep) (filter (woken X B) ws),
      settle X B (S \<union> waiter_group ` set (filter (acted_on X B) ws)))"
  using assms(3)
proof (induction ws arbitrary: wakes S)
  case (Cons w ws)
  then show ?case
    by (simp add: poll_candidate[OF assms(1,2)] del: poll_loop.simps(2))
qed simp

text \<open>The groups that the waiting rows of some dependencies bring to a decision.\<close>

definition decided :: "ext \<Rightarrow> board \<Rightarrow> string set \<Rightarrow> (string \<times> string) set" where
  "decided X B D = waiter_group ` {w \<in> set (bd_waiters B). wx_state w = Waiting \<and> wx_dependency_id w \<in> D \<and> acted_on X B w}"

lemma decided_none [simp]: "decided X B {} = {}"
  by (simp add: decided_def)

lemma decided_insert: "decided X B (insert d D) = decided X B {d} \<union> decided X B D"
  by (auto simp: decided_def)

lemma settled_waiting: "wx_state (settled_waiter X B S w) = Waiting \<longleftrightarrow> wx_state w = Waiting \<and> waiter_group w \<notin> S"
  by (simp add: settled_waiter_def)

lemma settled_candidates:
  "filter (\<lambda>w. wx_dependency_id w = d \<and> wx_state w = Waiting) (bd_waiters (settle X B S)) =
   filter (\<lambda>w. wx_dependency_id w = d \<and> wx_state w = Waiting \<and> waiter_group w \<notin> S) (bd_waiters B)"
proof -
  have "map (settled_waiter X B S) (filter (\<lambda>w. wx_dependency_id w = d \<and> wx_state w = Waiting \<and> waiter_group w \<notin> S) W) =
      filter (\<lambda>w. wx_dependency_id w = d \<and> wx_state w = Waiting \<and> waiter_group w \<notin> S) W" for W
    by (rule map_idI) (simp add: settled_waiter_def)
  then show ?thesis by (simp add: settle_def filter_map settled_waiting comp_def)
qed

text \<open>What the wakes collected so far must say: one for each settled group with that verdict.\<close>

definition wake_group :: "ext \<Rightarrow> dependency_wake \<Rightarrow> string \<times> string" where
  "wake_group X k = (ulid_text X (wk_task_id k), wk_timer_id k)"

definition wake_of_waiter :: "ext \<Rightarrow> board \<Rightarrow> dependency_wake \<Rightarrow> bool" where
  "wake_of_waiter X B k \<longleftrightarrow> wk_wake_key k = wake_key (fst (wake_group X k)) (snd (wake_group X k)) \<and>
     (\<exists>w\<in>set (bd_waiters B). wx_state w = Waiting \<and> waiter_group w = wake_group X k \<and>
        wx_dependency_id w = ulid_text X (wk_dependency_id k))"

definition wakes_for :: "ext \<Rightarrow> board \<Rightarrow> (string \<times> string) set \<Rightarrow> dependency_wake list \<Rightarrow> bool" where
  "wakes_for X B S ks \<longleftrightarrow> distinct (map (wake_group X) ks) \<and>
     wake_group X ` set ks = {g \<in> S. task_verdict X B (fst g) = WakeGroup} \<and> list_all (wake_of_waiter X B) ks"

lemma wake_of_group:
  assumes "board_inv X B" "wf_parsers X P" "w \<in> set (bd_waiters B)"
  shows "wake_group X (wake_of X P d w) = waiter_group w" "wk_dependency_id (wake_of X P d w) = d"
    "wk_wake_key (wake_of X P d w) = wake_key (wx_task_id w) (wx_timer_id w)"
proof -
  obtain i where "wx_task_id w = ulid_text X i" "ulid_parse P (wx_task_id w) = Some i"
    using waiter_text[OF assms] by metis
  then show "wake_group X (wake_of X P d w) = waiter_group w" "wk_dependency_id (wake_of X P d w) = d"
    "wk_wake_key (wake_of X P d w) = wake_key (wx_task_id w) (wx_timer_id w)"
    by (simp_all add: wake_of_def waiter_group_def wake_group_def)
qed

lemma same_dependency_distinct:
  assumes "distinct (map waiter_key W)" "\<And>w. q w \<Longrightarrow> wx_dependency_id w = d"
  shows "distinct (map waiter_group (filter q W))"
  using assms(1)
proof (induction W)
  case (Cons w W)
  then show ?case by (auto simp: waiter_key_def waiter_group_def dest!: assms(2))
qed simp

lemma poll_one:
  assumes inv: "board_inv X B" and P: "wf_parsers X P" and ks: "wakes_for X B S ks"
  shows "\<exists>new. poll_dependency_waits X P d (settle X B S) = (Inr new, settle X B (S \<union> decided X B {ulid_text X d})) \<and>
    wakes_for X B (S \<union> decided X B {ulid_text X d}) (ks @ new)"
proof -
  let ?q = "\<lambda>w. wx_dependency_id w = ulid_text X d \<and> wx_state w = Waiting \<and> waiter_group w \<notin> S"
  let ?C = "filter ?q (bd_waiters B)"
  let ?N = "filter (woken X B) ?C"
  have eq: "S \<union> waiter_group ` set (filter (acted_on X B) ?C) = S \<union> decided X B {ulid_text X d}"
    by (auto simp: decided_def)
  have "poll_loop X P d ?C [] (settle X B S) =
      Inr (map (wake_of X P d) ?N, settle X B (S \<union> decided X B {ulid_text X d}))"
    using poll_candidates[OF inv P, of ?C d "[]" S] unfolding eq by simp
  then have poll: "poll_dependency_waits X P d (settle X B S) =
      (Inr (map (wake_of X P d) ?N), settle X B (S \<union> decided X B {ulid_text X d}))"
    by (simp add: poll_dependency_waits_def with_immediate_tx_def settled_candidates)
  have groups: "map (wake_group X) (map (wake_of X P d) ?N) = map waiter_group ?N"
    using wake_of_group[OF inv P] by simp
  have new: "waiter_group ` set ?N = {g \<in> decided X B {ulid_text X d} - S. task_verdict X B (fst g) = WakeGroup}"
    by (auto simp: decided_def woken_def acted_on_def waiter_group_def)
  have "distinct (map waiter_group ?N)"
    using inv same_dependency_distinct[of "bd_waiters B" "\<lambda>w. ?q w \<and> woken X B w" "ulid_text X d"]
    by (simp add: board_inv_def waiters_ok_def conj_assoc)
  moreover have "wake_group X ` set ks \<inter> waiter_group ` set ?N = {}"
    using ks unfolding wakes_for_def new by blast
  ultimately have "distinct (map (wake_group X) (ks @ map (wake_of X P d) ?N))"
    using ks unfolding wakes_for_def map_append groups distinct_append set_map by blast
  moreover have "wake_group X ` set (ks @ map (wake_of X P d) ?N) =
      {g \<in> S \<union> decided X B {ulid_text X d}. task_verdict X B (fst g) = WakeGroup}"
    using ks new arg_cong[OF groups, of set] unfolding wakes_for_def by (simp add: image_Un del: map_map) blast
  moreover have "list_all (wake_of_waiter X B) (map (wake_of X P d) ?N)"
    by (auto simp: list_all_iff wake_of_waiter_def wake_of_group[OF inv P] waiter_group_def)
  ultimately show ?thesis using poll ks by (auto simp: wakes_for_def)
qed

lemma poll_each_settles:
  assumes inv: "board_inv X B" and P: "wf_parsers X P" and "wakes_for X B S ks"
  shows "\<exists>ks'. poll_each X P ds ks (settle X B S) = (Inr ks', settle X B (S \<union> decided X B (ulid_text X ` set ds))) \<and>
    wakes_for X B (S \<union> decided X B (ulid_text X ` set ds)) ks'"
  using assms(3)
proof (induction ds arbitrary: S ks)
  case (Cons d ds)
  from poll_one[OF inv P Cons.prems] obtain new where new:
    "poll_dependency_waits X P d (settle X B S) = (Inr new, settle X B (S \<union> decided X B {ulid_text X d}))"
    "wakes_for X B (S \<union> decided X B {ulid_text X d}) (ks @ new)" by blast
  from Cons.IH[OF new(2)] show ?case
    by (simp add: new(1) Un_assoc decided_insert[of X B "ulid_text X d" "ulid_text X ` set ds"])
qed simp

lemma parse_ids_texts:
  assumes "wf_parsers X P" "\<And>s. s \<in> set ss \<Longrightarrow> \<exists>d. s = ulid_text X d"
  shows "\<exists>ids. parse_ids P ss = Inr ids \<and> map (ulid_text X) ids = ss"
  using assms(2)
proof (induction ss)
  case (Cons s ss)
  then obtain d ids where "s = ulid_text X d" "parse_ids P ss = Inr ids" "map (ulid_text X) ids = ss"
    by (metis list.set_intros)
  then show ?case using assms(1) by (auto simp: wf_parsers_def)
qed simp

lemma decided_all:
  "decided X B (wx_dependency_id ` {w \<in> set (bd_waiters B). wx_state w = Waiting}) =
   {g \<in> waiting_groups B. task_verdict X B (fst g) \<noteq> KeepGroup}"
  by (auto simp: decided_def waiting_groups_def acted_on_def waiter_group_def)

lemma poll_all_settles:
  assumes inv: "board_inv X B" and P: "wf_parsers X P"
  shows "\<exists>ks. poll_all_dependency_waits X P B =
      (Inr ks, settle X B {g \<in> waiting_groups B. task_verdict X B (fst g) \<noteq> KeepGroup}) \<and>
    wakes_for X B {g \<in> waiting_groups B. task_verdict X B (fst g) \<noteq> KeepGroup} ks"
proof -
  let ?D = "remdups (map wx_dependency_id (filter (\<lambda>w. wx_state w = Waiting) (bd_waiters B)))"
  have "\<exists>d. s = ulid_text X d" if "s \<in> set ?D" for s
    using that inv by (auto simp: board_inv_def waiters_ok_def)
  then obtain ids where ids: "parse_ids P ?D = Inr ids" "map (ulid_text X) ids = ?D"
    using parse_ids_texts[OF P] by blast
  have "ulid_text X ` set ids = wx_dependency_id ` {w \<in> set (bd_waiters B). wx_state w = Waiting}"
    using arg_cong[OF ids(2), of set] by simp
  moreover have "wakes_for X B {} []" by (simp add: wakes_for_def)
  ultimately show ?thesis
    using poll_each_settles[OF inv P, of "{}" "[]" ids] decided_all[of X B]
    by (simp add: poll_all_dependency_waits_def ids(1))
qed

section \<open>Wakes that survive a crash\<close>

definition ready_groups :: "board \<Rightarrow> (string \<times> string) set" where
  "ready_groups B = waiter_group ` {w \<in> set (bd_waiters B). wx_state w = Ready}"

lemma ready_wakes_total:
  assumes P: "wf_parsers X P"
    and g: "\<And>t m. (t, m) \<in> set gs \<Longrightarrow> \<exists>w\<in>set rows. waiter_group w = (t, m)"
    and w: "\<And>w. w \<in> set rows \<Longrightarrow> \<exists>i d. wx_task_id w = ulid_text X i \<and> wx_dependency_id w = ulid_text X d"
  shows "\<exists>ks. ready_wakes X P rows gs = Inr ks \<and> map (wake_group X) ks = gs"
  using g
proof (induction gs)
  case (Cons g gs)
  obtain t m where tm: "g = (t, m)" by (cases g)
  let ?S = "set (map wx_dependency_id (filter (\<lambda>w. wx_task_id w = t \<and> wx_timer_id w = m) rows))"
  from Cons.prems[of t m] tm obtain r where r: "r \<in> set rows" "wx_task_id r = t" "wx_timer_id r = m"
    by (auto simp: waiter_group_def)
  then have "?S \<noteq> {}" by auto
  then have "Min ?S \<in> ?S" by (intro Min_in) auto
  then obtain q where "q \<in> set rows" "Min ?S = wx_dependency_id q" by auto
  with w obtain d where d: "Min ?S = ulid_text X d" by metis
  from w[OF r(1)] r(2) obtain i where i: "t = ulid_text X i" by blast
  from Cons.IH Cons.prems obtain ks where "ready_wakes X P rows gs = Inr ks" "map (wake_group X) ks = gs" by auto
  then show ?case
    using P unfolding tm wf_parsers_def by (simp only: ready_wakes.simps Let_def d) (simp add: i wake_group_def[abs_def])
qed simp

lemma take_ready_exact:
  assumes inv: "board_inv X B" and P: "wf_parsers X P"
  shows "\<exists>ks. take_ready_wakes X P B = Inr ks \<and> distinct (map (wake_group X) ks) \<and> wake_group X ` set ks = ready_groups B"
proof -
  let ?R = "filter (\<lambda>w. wx_state w = Ready) (bd_waiters B)"
  let ?G = "remdups (map (\<lambda>w. (wx_task_id w, wx_timer_id w)) ?R)"
  have "\<exists>i d. wx_task_id w = ulid_text X i \<and> wx_dependency_id w = ulid_text X d" if "w \<in> set ?R" for w
    using waiter_text[OF inv P, of w] that by (metis (mono_tags) filter_is_subset subsetD)
  then obtain ks where ks: "ready_wakes X P ?R ?G = Inr ks" "map (wake_group X) ks = ?G"
    using ready_wakes_total[OF P, of ?G ?R] by (auto simp: waiter_group_def)
  have "set ?G = ready_groups B" by (auto simp: ready_groups_def waiter_group_def)
  then have "wake_group X ` set ks = ready_groups B" unfolding ks(2)[symmetric] by simp
  moreover have "distinct (map (wake_group X) ks)" unfolding ks(2) by simp
  ultimately show ?thesis using ks(1) unfolding take_ready_wakes_def Let_def by blast
qed

lemma poll_each_inv: "poll_each X P ds ks B = (res, B') \<Longrightarrow> board_inv X B \<Longrightarrow> board_inv X B'"
  by (induction X P ds ks B rule: poll_each.induct) (auto dest: board_inv_poll split: prod.splits sum.splits)

lemma poll_all_inv: "board_inv X B \<Longrightarrow> poll_all_dependency_waits X P B = (res, B') \<Longrightarrow> board_inv X B'"
  by (auto simp: poll_all_dependency_waits_def dest: poll_each_inv split: sum.splits)

lemma woken_ready:
  "{g \<in> waiting_groups B. task_verdict X B (fst g) = WakeGroup} \<subseteq>
   ready_groups (settle X B {g \<in> waiting_groups B. task_verdict X B (fst g) \<noteq> KeepGroup})" (is "_ \<subseteq> ready_groups (settle X B ?S)")
proof
  fix g assume "g \<in> {g \<in> waiting_groups B. task_verdict X B (fst g) = WakeGroup}"
  then obtain w where w: "w \<in> set (bd_waiters B)" "waiter_group w = g" "g \<in> ?S" "task_verdict X B (fst g) = WakeGroup"
    by (auto simp: waiting_groups_def)
  then have "wx_state (settled_waiter X B ?S w) = Ready"
    by (auto simp: settled_waiter_def waiter_group_def)
  with w show "g \<in> ready_groups (settle X B ?S)"
    unfolding ready_groups_def by (intro image_eqI[of _ _ "settled_waiter X B ?S w"]) (auto simp: settle_def)
qed

section \<open>A poll is one pass over the waiting groups\<close>

text \<open>
  C20. On every reachable board a poll of all dependency waiters succeeds and equals one pass over
  the groups of a task and a timer that have a waiting row: it returns exactly one wake for each
  group whose owner is known, whose task is not finished and whose dependencies are all done, makes
  the rows of that group ready and reopens its blocked task; it consumes the rows of a group whose
  owner is unknown or whose task is finished; and it leaves every other row and task as it was. A
  restart before the wakes are dispatched finds each of them again, once.\<close>

theorem poll_all_exact:
  assumes "wf_parsers X P" "board_run X P B"
  shows "\<exists>ks B' rs. poll_all_dependency_waits X P B = (Inr ks, B') \<and>
     B' = settle X B {g \<in> waiting_groups B. task_verdict X B (fst g) \<noteq> KeepGroup} \<and>
     distinct (map (wake_group X) ks) \<and>
     wake_group X ` set ks = {g \<in> waiting_groups B. task_verdict X B (fst g) = WakeGroup} \<and>
     list_all (wake_of_waiter X B) ks \<and>
     take_ready_wakes X P B' = Inr rs \<and> distinct (map (wake_group X) rs) \<and>
     wake_group X ` set rs = ready_groups B' \<and> wake_group X ` set ks \<subseteq> wake_group X ` set rs"
proof -
  let ?S = "{g \<in> waiting_groups B. task_verdict X B (fst g) \<noteq> KeepGroup}"
  have inv: "board_inv X B" using assms(2) by (rule board_run_inv)
  obtain ks where ks: "poll_all_dependency_waits X P B = (Inr ks, settle X B ?S)" "wakes_for X B ?S ks"
    using poll_all_settles[OF inv assms(1)] by blast
  have "board_inv X (settle X B ?S)" by (rule poll_all_inv[OF inv ks(1)])
  from take_ready_exact[OF this assms(1)] obtain rs where rs: "take_ready_wakes X P (settle X B ?S) = Inr rs"
    "distinct (map (wake_group X) rs)" "wake_group X ` set rs = ready_groups (settle X B ?S)" by blast
  moreover have "wake_group X ` set ks = {g \<in> waiting_groups B. task_verdict X B (fst g) = WakeGroup}"
    using ks(2) by (auto simp: wakes_for_def)
  moreover have "{g \<in> waiting_groups B. task_verdict X B (fst g) = WakeGroup} \<subseteq> ready_groups (settle X B ?S)"
    by (rule woken_ready)
  ultimately show ?thesis using ks unfolding wakes_for_def by auto
qed

definition ex_waiter :: waiter_row where
  "ex_waiter = \<lparr>wx_task_id = ulid_text ex_run_ext 2, wx_owner_principal_id = ulid_text ex_run_ext 7,
     wx_dependency_id = ulid_text ex_run_ext 1, wx_timer_id = ''t'', wx_event_id = ''e'', wx_state = Waiting\<rparr>"

definition ex_waiting :: board where
  "ex_waiting = ex_board\<lparr>bd_principals := [\<lparr>px_id = ulid_text ex_run_ext 7, px_is_owner = True\<rparr>],
     bd_waiters := [ex_waiter], bd_tasks := [set_status TaskDone (ex_row 1 []), ex_row 2 [1]]\<rparr>"

lemma ex_waiting_run: "board_run ex_run_ext ex_parsers ex_waiting"
proof -
  let ?B1 = "ex_board\<lparr>bd_principals := [\<lparr>px_id = ulid_text ex_run_ext 7, px_is_owner = True\<rparr>]\<rparr>"
  let ?B2 = "?B1\<lparr>bd_waiters := [ex_waiter]\<rparr>"
  have id: "tb_id (ex_row i deps) = ulid_text ex_run_ext i" "tk_owner_principal_id (tb_task (ex_row i deps)) = 7" for i deps
    by (simp_all add: ex_row_def ex_task_def)
  have t: "find_task (ulid_text ex_run_ext 2) ?B1 = Some (ex_row 2 [1])"
    by (simp add: find_task_def ex_board_def id ex_run_text_eq)
  have "board_run ex_run_ext ex_parsers ?B1" using ex_board_run by (blast intro: board_run_step step_principals)
  moreover have "insert_dependency_waiter ex_run_ext 2 7 1 ''t'' ''e'' ?B1 = (Inr (), ?B2)"
    using t by (simp add: insert_dependency_waiter_def ex_waiter_def) (simp add: ex_board_def empty_board_def)
  then have "board_step ex_run_ext ex_parsers ?B1 ?B2" by (rule step_waiter) (use t in \<open>auto simp: id\<close>)
  ultimately have "board_run ex_run_ext ex_parsers ?B2" by (rule board_run_step)
  moreover have "mark_task_done ex_run_ext 1 ?B2 = (Inr (), ex_waiting)"
    by (simp add: mark_task_done_def with_immediate_tx_def find_task_def update_task_def ex_waiting_def ex_board_def id
        ex_run_text_eq terminal_status_def) (simp add: ex_row_def ex_task_def)
  ultimately show ?thesis by (blast intro: board_run_step step_done)
qed

lemma Collect_one: "P a \<Longrightarrow> {x \<in> {a}. P x} = {a}"
  by blast

theorem poll_all_exact_witness:
  "\<exists>ks B'. poll_all_dependency_waits ex_run_ext ex_parsers ex_waiting = (Inr ks, B') \<and>
     wake_group ex_run_ext ` set ks = {(ulid_text ex_run_ext 2, ''t'')}"
proof -
  have w: "wx_state ex_waiter = Waiting" "waiter_group ex_waiter = (ulid_text ex_run_ext 2, ''t'')"
    by (simp_all add: ex_waiter_def waiter_group_def)
  then have "{w \<in> set (bd_waiters ex_waiting). wx_state w = Waiting} = {ex_waiter}" by (auto simp: ex_waiting_def)
  with w(2) have "waiting_groups ex_waiting = {(ulid_text ex_run_ext 2, ''t'')}" by (simp add: waiting_groups_def)
  moreover have "task_verdict ex_run_ext ex_waiting (ulid_text ex_run_ext 2) = WakeGroup"
    by (simp add: task_verdict_def find_task_def find_principal_def dependency_done_def ex_waiting_def ex_row_def ex_task_def
        set_status_def terminal_status_def ex_run_text_eq)
  ultimately have eq: "{g \<in> waiting_groups ex_waiting. task_verdict ex_run_ext ex_waiting (fst g) = WakeGroup} =
      {(ulid_text ex_run_ext 2, ''t'')}"
    using Collect_one[of "\<lambda>g. task_verdict ex_run_ext ex_waiting (fst g) = WakeGroup" "(ulid_text ex_run_ext 2, ''t'')"]
    by simp
  from poll_all_exact[OF wf_ex_run(3) ex_waiting_run] show ?thesis unfolding eq by blast
qed

end
