(* ===== verification/Timer_Dispatch.thy ===== *)
theory Timer_Dispatch
  imports Board_Invariant Event_Bus
begin

text \<open>
  The dispatcher of fired task timers and dependency wakes
  (\<open>src/crates/openspine-kernel/src/pipeline/timer_dispatch.rs\<close>), over the tables of the task board,
  with the stages of \<open>pipeline/driver.rs\<close> that a scheduled run goes through after its authority is
  composed.

  The stages before that (spend admission, preflight, envelope, identity, route, composition, token
  blob) are the parameter \<open>dv_prefix\<close>: they read the inputs, append to the ledger, and end with an
  error, a refusal, or a sealed grant with its message and token references. The sandboxed shell is
  the parameter \<open>dv_shell\<close>: whether it succeeded, and the board when it ends, since other parts of
  the kernel run meanwhile. Identifiers and the clock are supplied by \<open>dv_fresh\<close> and \<open>dv_now\<close>.
\<close>

section \<open>Operations that may fail\<close>

datatype dispatch_error =
    Dispatch_store board_error
  | Dispatch_no_timer_id
  | Dispatch_pipeline

type_synonym 'a dispatch_op = "board \<Rightarrow> (dispatch_error + 'a) \<times> board"

text \<open>The operator \<open>?\<close>: an error ends the handler and keeps what was written.\<close>

definition and_then :: "'a dispatch_op \<Rightarrow> ('a \<Rightarrow> 'b dispatch_op) \<Rightarrow> 'b dispatch_op" where
  "and_then m f B = (case m B of (Inl e, B') \<Rightarrow> (Inl e, B') | (Inr a, B') \<Rightarrow> f a B')"

definition return_ok :: "'a \<Rightarrow> 'a dispatch_op" where
  "return_ok a B = (Inr a, B)"

definition on_store :: "'a board_op \<Rightarrow> 'a dispatch_op" where
  "on_store m B = (case m B of (Inl e, B') \<Rightarrow> (Inl (Dispatch_store e), B') | (Inr a, B') \<Rightarrow> (Inr a, B'))"

definition board_audit :: "ext \<Rightarrow> audit_input \<Rightarrow> ulid \<Rightarrow> timestamp \<Rightarrow> unit board_op" where
  "board_audit X a fresh now B = (case append_audit X a fresh now (bd_ledger B) of
     (Inl e, L) \<Rightarrow> (Inl (Board_ledger e), B\<lparr>bd_ledger := L\<rparr>) | (Inr _, L) \<Rightarrow> (Inr (), B\<lparr>bd_ledger := L\<rparr>))"

section \<open>A scheduled run of the pipeline\<close>

record event_inputs =
  ei_owner_surface :: owner_surface
  ei_text :: string
  ei_thread_id :: "string option"
  ei_principal_override :: "ulid option"
  ei_event_type_override :: "event_type option"
  ei_timer_event_id :: "string option"
  ei_correlated_task_id :: "ulid option"
  ei_dispatch_key :: "string option"
  ei_dispatch_timer_id :: "string option"

record dispatch_env =
  dv_surface :: owner_surface
  dv_prefix :: "event_inputs \<Rightarrow> ledger \<Rightarrow> (unit + (task_grant \<times> artifact_ref \<times> artifact_ref) option) \<times> ledger"
  dv_shell :: "board \<Rightarrow> bool \<times> board"
  dv_fresh :: "nat \<Rightarrow> ulid"
  dv_now :: timestamp

text \<open>The shell has run: its end is audited and a success completes the dispatch.\<close>

definition finish_run :: "ext \<Rightarrow> dispatch_env \<Rightarrow> string \<Rightarrow> task_grant \<Rightarrow> task_grant option dispatch_op" where
  "finish_run X E key g B =
     (let (ok, B1) = dv_shell E B in
      if ok then
        and_then (on_store (board_audit X (plain_input ''task.shell_completed'' None (Some (tg_id g)) []) (dv_fresh E 1) (dv_now E)))
          (\<lambda>_. and_then (on_store (complete_timer_dispatch key ''handed_off'' (ulid_text X (tg_id g))))
            (\<lambda>_. return_ok (Some g))) B1
      else
        and_then (on_store (board_audit X (plain_input ''task.shell_failed'' (Some ''worker shell failed'') (Some (tg_id g)) [])
            (dv_fresh E 1) (dv_now E)))
          (\<lambda>_. return_ok (Some g)) B1)"

definition run_scheduled :: "ext \<Rightarrow> dispatch_env \<Rightarrow> event_inputs \<Rightarrow> string \<Rightarrow> task_grant option dispatch_op" where
  "run_scheduled X E inputs key B =
     (case dv_prefix E inputs (bd_ledger B) of
        (Inl _, L) \<Rightarrow> (Inl Dispatch_pipeline, B\<lparr>bd_ledger := L\<rparr>)
      | (Inr None, L) \<Rightarrow> (Inr None, B\<lparr>bd_ledger := L\<rparr>)
      | (Inr (Some (g, pending, token_ref)), L) \<Rightarrow>
          and_then (on_store (persist_grant_with_handoff X key g pending (ei_owner_surface inputs) token_ref
              (case ei_dispatch_timer_id inputs of None \<Rightarrow> [] | Some m \<Rightarrow> m) (ei_correlated_task_id inputs)
              (dv_now E) (dv_fresh E 0) (dv_now E)))
            (\<lambda>_. finish_run X E key g) (B\<lparr>bd_ledger := L\<rparr>))"

definition scheduled_inputs :: "ext \<Rightarrow> dispatch_env \<Rightarrow> task \<Rightarrow> string \<Rightarrow> string option \<Rightarrow> string \<Rightarrow> event_inputs" where
  "scheduled_inputs X E t timer_id event_id key =
     \<lparr>ei_owner_surface = dv_surface E, ei_text = ''task:'' @ ulid_text X (tk_id t), ei_thread_id = None,
      ei_principal_override = Some (tk_owner_principal_id t),
      ei_event_type_override = Some (if tk_reminder_timer_id t = Some timer_id then TimerReminderFired else TimerDeadlineFired),
      ei_timer_event_id = event_id, ei_correlated_task_id = Some (tk_id t), ei_dispatch_key = Some key,
      ei_dispatch_timer_id = Some timer_id\<rparr>"

section \<open>Handlers\<close>

datatype dispatch_outcome = Delivered task_grant | AckSkip | Retry

definition reattempt_handed_off :: "ext \<Rightarrow> dispatch_env \<Rightarrow> timer_dispatch_record \<Rightarrow> dispatch_outcome dispatch_op" where
  "reattempt_handed_off X E rec B =
     (if dispatch_receipt_exists (dt_event_id rec) B then (Inr AckSkip, B)
      else
        and_then (on_store (mark_dispatch_terminal X (dt_event_id rec) (dt_timer_id rec) (dt_task_id rec)
            ''receiptless_handoff_refused''
            (case dt_grant_id rec of Some i \<Rightarrow> ulid_text X i | None \<Rightarrow> dt_event_id rec)))
          (\<lambda>_. and_then (on_store (board_audit X (plain_input ''task.dispatch_refused''
              (Some ''worker handoff has no durable receipt; refusing redispatch'') (dt_grant_id rec) []) (dv_fresh E 0) (dv_now E)))
            (\<lambda>_. return_ok AckSkip)) B)"

definition fired_timer_id :: "ext \<Rightarrow> audit_event \<Rightarrow> string option" where
  "fired_timer_id X ev = Option.bind (ae_payload_json ev)
     (\<lambda>payload. Option.bind (json_parse X payload) (\<lambda>v. Option.bind (json_get ''timer_id'' v) json_as_str))"

definition skip_event :: "ext \<Rightarrow> string \<Rightarrow> string \<Rightarrow> ulid option \<Rightarrow> string \<Rightarrow> dispatch_outcome dispatch_op" where
  "skip_event X key timer_id task_id reason =
     and_then (on_store (mark_dispatch_terminal X key timer_id task_id reason key)) (\<lambda>_. return_ok AckSkip)"

definition unmet_dependencies :: "ext \<Rightarrow> task \<Rightarrow> board \<Rightarrow> ulid list" where
  "unmet_dependencies X t B = filter (\<lambda>d. \<not> dependency_done X B d) (tk_dependencies t)"

fun insert_waiters :: "ext \<Rightarrow> task \<Rightarrow> string \<Rightarrow> string \<Rightarrow> ulid list \<Rightarrow> unit dispatch_op" where
  "insert_waiters X t timer_id key [] = return_ok ()"
| "insert_waiters X t timer_id key (d # ds) =
     and_then (on_store (insert_dependency_waiter X (tk_id t) (tk_owner_principal_id t) d timer_id key))
       (\<lambda>_. insert_waiters X t timer_id key ds)"

definition dispatch_task_timer_event :: "ext \<Rightarrow> text_parsers \<Rightarrow> dispatch_env \<Rightarrow> audit_event \<Rightarrow> dispatch_outcome dispatch_op" where
  "dispatch_task_timer_event X P E ev B =
     (case fired_timer_id X ev of
        None \<Rightarrow> (Inl Dispatch_no_timer_id, B)
      | Some timer_id \<Rightarrow>
          let key = ulid_text X (ae_id ev) in
          (case task_by_timer_id timer_id B of
             None \<Rightarrow> skip_event X key timer_id None ''non_task_timer'' B
           | Some t \<Rightarrow>
               if terminal_status (tk_status t) then skip_event X key timer_id (Some (tk_id t)) ''terminal_task'' B
               else if (case dispatch_state_for_key P key B of
                    None \<Rightarrow> False | Some rec \<Rightarrow> dt_state rec \<noteq> DispatchPending)
               then (Inr AckSkip, B)
               else (case owner_principal_by_id X (tk_owner_principal_id t) B of
                   Inl (NotOwner _) \<Rightarrow> skip_event X key timer_id (Some (tk_id t)) ''unknown_or_non_owner_principal'' B
                 | Inl e \<Rightarrow> (Inl (Dispatch_store e), B)
                 | Inr _ \<Rightarrow>
                     let unmet = unmet_dependencies X t B in
                     if unmet \<noteq> [] then
                       and_then (insert_waiters X t timer_id key unmet)
                         (\<lambda>_. and_then (on_store (mark_task_blocked X (tk_id t) (dv_fresh E 0) (dv_now E)))
                           (\<lambda>_. skip_event X key timer_id (Some (tk_id t)) ''dependency_wait'')) B
                     else
                       and_then (run_scheduled X E (scheduled_inputs X E t timer_id (Some key) key) key)
                         (\<lambda>res. return_ok (case res of Some g \<Rightarrow> Delivered g | None \<Rightarrow> Retry)) B)))"

definition consume_and_skip :: "ext \<Rightarrow> dependency_wake \<Rightarrow> string \<Rightarrow> dispatch_outcome dispatch_op" where
  "consume_and_skip X wake reason =
     and_then (on_store (consume_dependency_waiter X (wk_task_id wake) (wk_timer_id wake)))
       (\<lambda>_. skip_event X (wk_wake_key wake) (wk_timer_id wake) (Some (wk_task_id wake)) reason)"

definition dispatch_fresh_wake :: "ext \<Rightarrow> dispatch_env \<Rightarrow> dependency_wake \<Rightarrow> dispatch_outcome dispatch_op" where
  "dispatch_fresh_wake X E wake B =
     (case get_task X (wk_task_id wake) B of
        None \<Rightarrow> consume_and_skip X wake ''missing_task'' B
      | Some t \<Rightarrow>
          if terminal_status (tk_status t) then consume_and_skip X wake ''terminal_task'' B
          else (case owner_principal_by_id X (tk_owner_principal_id t) B of
              Inl (NotOwner _) \<Rightarrow> consume_and_skip X wake ''unknown_or_non_owner_principal'' B
            | Inl e \<Rightarrow> (Inl (Dispatch_store e), B)
            | Inr _ \<Rightarrow>
                if unmet_dependencies X t B \<noteq> [] then
                  and_then (on_store (reset_dependency_waiter X (wk_task_id wake) (wk_timer_id wake))) (\<lambda>_. return_ok Retry) B
                else
                  and_then (run_scheduled X E (scheduled_inputs X E t (wk_timer_id wake) None (wk_wake_key wake)) (wk_wake_key wake))
                    (\<lambda>res. case res of
                        Some g \<Rightarrow> and_then (on_store (consume_dependency_waiter X (wk_task_id wake) (wk_timer_id wake)))
                          (\<lambda>_. return_ok (Delivered g))
                      | None \<Rightarrow> and_then (on_store (reset_dependency_waiter X (wk_task_id wake) (wk_timer_id wake)))
                          (\<lambda>_. return_ok Retry)) B))"

definition dispatch_task_wake :: "ext \<Rightarrow> text_parsers \<Rightarrow> dispatch_env \<Rightarrow> dependency_wake \<Rightarrow> dispatch_outcome dispatch_op" where
  "dispatch_task_wake X P E wake B =
     (case dispatch_state_for_key P (wk_wake_key wake) B of
        None \<Rightarrow> dispatch_fresh_wake X E wake B
      | Some rec \<Rightarrow>
          (case dt_state rec of
             Terminal \<Rightarrow>
               and_then (on_store (consume_dependency_waiter X (wk_task_id wake) (wk_timer_id wake))) (\<lambda>_. return_ok AckSkip) B
           | HandedOff \<Rightarrow>
               and_then (reattempt_handed_off X E rec)
                 (\<lambda>outcome. case outcome of
                     Delivered _ \<Rightarrow> and_then (on_store (consume_dependency_waiter X (wk_task_id wake) (wk_timer_id wake)))
                       (\<lambda>_. return_ok outcome)
                   | _ \<Rightarrow> return_ok outcome) B
           | DispatchPending \<Rightarrow> dispatch_fresh_wake X E wake B))"

section \<open>Draining\<close>

text \<open>Each dispatched item takes its own environment from the supply.\<close>

fun dispatch_wakes :: "ext \<Rightarrow> text_parsers \<Rightarrow> (nat \<Rightarrow> dispatch_env) \<Rightarrow> nat \<Rightarrow> dependency_wake list \<Rightarrow> unit dispatch_op" where
  "dispatch_wakes X P Es n [] = return_ok ()"
| "dispatch_wakes X P Es n (k # ks) =
     and_then (dispatch_task_wake X P (Es n) k) (\<lambda>_. dispatch_wakes X P Es (Suc n) ks)"

definition complete_task_and_wake :: "ext \<Rightarrow> text_parsers \<Rightarrow> (nat \<Rightarrow> dispatch_env) \<Rightarrow> ulid \<Rightarrow> unit dispatch_op" where
  "complete_task_and_wake X P Es task_id =
     and_then (on_store (mark_task_done_and_poll X P task_id)) (\<lambda>wakes. dispatch_wakes X P Es 0 wakes)"

fun refuse_handed_off :: "ext \<Rightarrow> (nat \<Rightarrow> dispatch_env) \<Rightarrow> nat \<Rightarrow> timer_dispatch_record list \<Rightarrow> unit dispatch_op" where
  "refuse_handed_off X Es n [] = return_ok ()"
| "refuse_handed_off X Es n (rec # recs) =
     (if dt_state rec = HandedOff
      then and_then (reattempt_handed_off X (Es n) rec) (\<lambda>_. refuse_handed_off X Es (Suc n) recs)
      else refuse_handed_off X Es n recs)"

definition recover_timer_dispatches ::
  "ext \<Rightarrow> text_parsers \<Rightarrow> (nat \<Rightarrow> dispatch_env) \<Rightarrow> (nat \<Rightarrow> dispatch_env) \<Rightarrow> unit dispatch_op" where
  "recover_timer_dispatches X P Es Fs B =
     and_then (refuse_handed_off X Es 0 (incomplete_timer_dispatches P B))
       (\<lambda>_. and_then (on_store (poll_all_dependency_waits X P))
         (\<lambda>_ B1. case take_ready_wakes X P B1 of
             Inl e \<Rightarrow> (Inl (Dispatch_store e), B1)
           | Inr wakes \<Rightarrow> dispatch_wakes X P Fs 0 wakes B1)) B"

text \<open>The pass over the replayed entries: an acknowledged event moves the checkpoint, anything else ends the pass.\<close>

fun consume_entries ::
  "ext \<Rightarrow> text_parsers \<Rightarrow> event_filter \<Rightarrow> (nat \<Rightarrow> dispatch_env) \<Rightarrow> nat \<Rightarrow> ledger_entry list \<Rightarrow>
     consumer_checkpoint \<Rightarrow> board \<Rightarrow> consumer_checkpoint \<times> board" where
  "consume_entries X P f Es n [] ck B = (ck, B)"
| "consume_entries X P f Es n (en # ens) ck B =
     (case dispatch_task_timer_event X P (Es n) (le_event en) B of
        (Inr Retry, B1) \<Rightarrow> (ck, B1)
      | (Inl _, B1) \<Rightarrow> (ck, B1)
      | (Inr _, B1) \<Rightarrow>
          let next_ck = ck\<lparr>cc_last_acked_global_seq := le_global_seq en\<rparr> in
          (case save_consumer_checkpoint ''task_board_timer_consumer''
              \<lparr>ps_schema_version = 1, ps_checkpoint = next_ck, ps_filter = f\<rparr> (bd_ledger B1) of
             (Inl _, L) \<Rightarrow> (ck, B1\<lparr>bd_ledger := L\<rparr>)
           | (Inr _, L) \<Rightarrow> consume_entries X P f Es (Suc n) ens next_ck (B1\<lparr>bd_ledger := L\<rparr>)))"

definition deadline_consumer_pass ::
  "ext \<Rightarrow> text_parsers \<Rightarrow> event_filter \<Rightarrow> (nat \<Rightarrow> dispatch_env) \<Rightarrow> consumer_checkpoint \<Rightarrow> board \<Rightarrow> consumer_checkpoint \<times> board" where
  "deadline_consumer_pass X P f Es ck B =
     (case replay_audit X f (cc_last_acked_global_seq ck) (bd_ledger B) of
        Inl _ \<Rightarrow> (ck, B)
      | Inr entries \<Rightarrow> consume_entries X P f Es 0 entries ck B)"

end
