(* ===== verification/Given_Once.thy ===== *)
theory Given_Once
  imports Main
begin

text \<open>
  Systems that give a value to a key at most once: the interface shared by the dispatcher of fired
  timers (a grant for a dispatch key) and the store of owner reviews (a standing rule for a review).
\<close>

locale given_once =
  fixes good :: "'s \<Rightarrow> bool" and step :: "'s \<Rightarrow> 's \<Rightarrow> bool"
    and settled :: "'k \<Rightarrow> 's \<Rightarrow> bool" and given :: "'k \<Rightarrow> 's \<Rightarrow> 'g option"
  assumes good_step: "good s \<Longrightarrow> step s s' \<Longrightarrow> good s'"
    and settled_step: "step s s' \<Longrightarrow> settled k s \<Longrightarrow> settled k s'"
    and given_step: "step s s' \<Longrightarrow> settled k s \<Longrightarrow> given k s' = given k s \<or> given k s' = None"
    and given_settled: "good s \<Longrightarrow> given k s = Some g \<Longrightarrow> settled k s"
begin

lemma settled_steps: "step\<^sup>*\<^sup>* s s' \<Longrightarrow> settled k s \<Longrightarrow> settled k s'"
  by (induction rule: rtranclp_induct) (auto intro: settled_step)

lemma good_steps: "step\<^sup>*\<^sup>* s s' \<Longrightarrow> good s \<Longrightarrow> good s'"
  by (induction rule: rtranclp_induct) (auto intro: good_step)

lemma given_steps: "step\<^sup>*\<^sup>* s s' \<Longrightarrow> settled k s \<Longrightarrow> given k s' = given k s \<or> given k s' = None"
proof (induction rule: rtranclp_induct)
  case (step s1 s2)
  then have "settled k s1" by (blast intro: settled_steps)
  with step show ?case using given_step[of s1 s2 k] by auto
qed simp

lemma given_unique:
  assumes "good s" "step\<^sup>*\<^sup>* s s'" "given k s = Some g" "given k s' = Some g'"
  shows "g = g'"
  using given_steps[OF assms(2) given_settled[OF assms(1,3)]] assms(3,4) by simp

end

text \<open>What has been given is not taken back.\<close>

locale given_forever = given_once +
  assumes given_kept: "step s s' \<Longrightarrow> given k s \<noteq> None \<Longrightarrow> given k s' \<noteq> None"
begin

lemma given_fixed:
  assumes "good s" "step\<^sup>*\<^sup>* s s'" "given k s = Some g"
  shows "given k s' = Some g"
proof -
  have "given k s' \<noteq> None"
    using assms(2)
  proof (induction rule: rtranclp_induct)
    case (step s1 s2)
    show ?case by (rule given_kept[OF step.hyps(2) step.IH])
  qed (simp add: assms(3))
  then show ?thesis using given_unique[OF assms] by auto
qed

end

end
