(* ===== verification/Dispatch_Once.thy ===== *)
theory Dispatch_Once
  imports Timer_Dispatch Given_Once
begin

text \<open>
  The dispatcher hands out at most one grant for a dispatch key, and acknowledges an event only
  when its outcome is on the board. A key is settled when its dispatch row is no longer pending;
  every handler keeps settled keys settled and never gives them another grant.
\<close>

section \<open>Settled keys\<close>

definition dispatch_at :: "string \<Rightarrow> board \<Rightarrow> dispatch_row option" where
  "dispatch_at key B = find (\<lambda>d. ds_event_id d = key) (bd_dispatch B)"

definition settled_key :: "string \<Rightarrow> board \<Rightarrow> bool" where
  "settled_key key B \<longleftrightarrow> (case dispatch_at key B of None \<Rightarrow> False | Some d \<Rightarrow> ds_state d \<noteq> DispatchPending)"

definition given_grant :: "string \<Rightarrow> board \<Rightarrow> string option" where
  "given_grant key B = Option.bind (dispatch_at key B) ds_grant_id"

definition no_pending :: "board \<Rightarrow> bool" where
  "no_pending B \<longleftrightarrow> (\<forall>d\<in>set (bd_dispatch B). ds_state d \<noteq> DispatchPending)"

definition kept :: "board \<Rightarrow> board \<Rightarrow> bool" where
  "kept B B' \<longleftrightarrow> (no_pending B \<longrightarrow> no_pending B') \<and>
     (\<forall>key. settled_key key B \<longrightarrow> settled_key key B' \<and> (given_grant key B' = given_grant key B \<or> given_grant key B' = None))"

lemma kept_refl [simp]: "kept B B"
  by (simp add: kept_def)

lemma kept_trans [trans]: "kept B B1 \<Longrightarrow> kept B1 B2 \<Longrightarrow> kept B B2"
  unfolding kept_def by metis

lemma kept_same: "bd_dispatch B' = bd_dispatch B \<Longrightarrow> kept B B'"
  by (simp add: kept_def no_pending_def settled_key_def given_grant_def dispatch_at_def)

lemma given_settled_key: "no_pending B \<Longrightarrow> given_grant key B = Some g \<Longrightarrow> settled_key key B"
  by (auto simp: given_grant_def settled_key_def dispatch_at_def no_pending_def bind_eq_Some_conv dest: find_hit)

lemma dispatch_at_replace:
  "dispatch_at key (replace_dispatch d B) = (if key = ds_event_id d then Some d else dispatch_at key B)"
proof -
  have "find (\<lambda>q. ds_event_id q = key) (filter (\<lambda>q. ds_event_id q \<noteq> ds_event_id d) D @ [d]) =
      (if key = ds_event_id d then Some d else find (\<lambda>q. ds_event_id q = key) D)" for D
    by (induction D) auto
  then show ?thesis by (simp add: dispatch_at_def replace_dispatch_def)
qed

lemma settled_record:
  "(case dispatch_state_for_key P key B of None \<Rightarrow> False | Some rec \<Rightarrow> dt_state rec \<noteq> DispatchPending) \<longleftrightarrow> settled_key key B"
  by (simp add: dispatch_state_for_key_def settled_key_def dispatch_at_def dispatch_record_def split: option.split)

lemma kept_replace:
  assumes "ds_state d \<noteq> DispatchPending" "settled_key (ds_event_id d) B \<Longrightarrow> ds_grant_id d = None"
  shows "kept B (replace_dispatch d B)"
  using assms by (auto simp: kept_def settled_key_def given_grant_def dispatch_at_replace no_pending_def)
    (auto simp: replace_dispatch_def)

section \<open>What the operations write\<close>

lemma processed_dispatch [simp]: "bd_dispatch (record_processed k g B) = bd_dispatch B"
  by (simp add: record_processed_def)

lemma dispatch_at_cong: "bd_dispatch B' = bd_dispatch B \<Longrightarrow> dispatch_at key B' = dispatch_at key B"
  by (simp add: dispatch_at_def)

lemma terminal_op:
  assumes "mark_dispatch_terminal X key m t reason related B = (res, B')"
  shows "res = Inr ()" "kept B B'" "settled_key key B'" "given_grant key B' = None"
proof -
  let ?d = "\<lparr>ds_event_id = key, ds_timer_id = m, ds_task_id = map_option (ulid_text X) t, ds_state = Terminal,
      ds_grant_id = None, ds_token_ref = None, ds_terminal_reason = Some reason\<rparr>"
  have r: "res = Inr ()" "B' = record_processed key related (replace_dispatch ?d B)"
    using assms by (simp_all add: mark_dispatch_terminal_def)
  then have d: "bd_dispatch B' = bd_dispatch (replace_dispatch ?d B)" by simp
  show "res = Inr ()" by (rule r)
  have "kept B (replace_dispatch ?d B)" by (rule kept_replace) simp_all
  then show "kept B B'" using kept_same[OF d] kept_trans by blast
  show "settled_key key B'" "given_grant key B' = None"
    by (simp_all add: settled_key_def given_grant_def dispatch_at_cong[OF d] dispatch_at_replace)
qed

lemma dispatch_at_complete:
  assumes "complete_timer_dispatch key reason g B = (res, B')"
  shows "res = Inr ()" "dispatch_at k B' = map_option (\<lambda>d. if k = key
     then d\<lparr>ds_state := Terminal, ds_terminal_reason := Some reason\<rparr> else d) (dispatch_at k B)"
proof -
  let ?f = "\<lambda>d. if ds_event_id d = key then d\<lparr>ds_state := Terminal, ds_terminal_reason := Some reason\<rparr> else d"
  have r: "res = Inr ()" "bd_dispatch B' = map ?f (bd_dispatch B)"
    using assms by (auto simp: complete_timer_dispatch_def Let_def)
  show "res = Inr ()" by (rule r)
  have "find (\<lambda>d. ds_event_id d = k) (map ?f D) = map_option ?f (find (\<lambda>d. ds_event_id d = k) D)"
    for D :: "dispatch_row list" by (rule find_map_key) simp
  moreover have "map_option ?f (dispatch_at k B) = map_option (\<lambda>d. if k = key
      then d\<lparr>ds_state := Terminal, ds_terminal_reason := Some reason\<rparr> else d) (dispatch_at k B)"
    by (auto simp: dispatch_at_def dest: find_hit intro!: option.map_cong)
  ultimately show "dispatch_at k B' = map_option (\<lambda>d. if k = key
      then d\<lparr>ds_state := Terminal, ds_terminal_reason := Some reason\<rparr> else d) (dispatch_at k B)"
    unfolding dispatch_at_def r(2) by (simp only:)
qed

lemma complete_op:
  assumes "complete_timer_dispatch key reason g B = (res, B')"
  shows "kept B B'" "settled_key k B \<Longrightarrow> settled_key k B'" "given_grant k B' = given_grant k B"
proof -
  note c = dispatch_at_complete(2)[OF assms]
  show s: "settled_key k B \<Longrightarrow> settled_key k B'" for k by (auto simp: settled_key_def c split: option.splits)
  show g: "given_grant k B' = given_grant k B" for k
    by (cases "dispatch_at k B") (simp_all add: given_grant_def c)
  have "no_pending B \<Longrightarrow> no_pending B'" using assms by (auto simp: complete_timer_dispatch_def Let_def no_pending_def)
  with s g show "kept B B'" by (simp add: kept_def)
qed

lemma persist_op:
  assumes "persist_grant_with_handoff X key g pending surface token_ref m t clock fresh now B = (res, B')"
  shows "res = Inr () \<Longrightarrow> settled_key key B' \<and> given_grant key B' = Some (ulid_text X (tg_id g))"
    "res \<noteq> Inr () \<Longrightarrow> bd_dispatch B' = bd_dispatch B" "\<not> settled_key key B \<Longrightarrow> kept B B'"
proof -
  let ?d = "\<lparr>ds_event_id = key, ds_timer_id = m, ds_task_id = map_option (ulid_text X) t, ds_state = HandedOff,
      ds_grant_id = Some (ulid_text X (tg_id g)), ds_token_ref = Some token_ref, ds_terminal_reason = None\<rparr>"
  have sw: "bd_dispatch (sweep_expired_grants clock B) = bd_dispatch B"
    by (simp add: sweep_expired_grants_def Let_def)
  have ins: "bd_dispatch B1 = bd_dispatch B0" if "insert_grant_row X g pending surface B0 = Inr B1" for B0 B1
    using that by (auto simp: insert_grant_row_def Let_def split: if_splits)
  have cases: "res = Inr () \<and> bd_dispatch B' = bd_dispatch (replace_dispatch ?d B) \<or>
      res \<noteq> Inr () \<and> bd_dispatch B' = bd_dispatch B"
    using assms sw
    by (auto simp: persist_grant_with_handoff_def with_immediate_tx_def Let_def replace_dispatch_def dest!: ins
        split: sum.splits prod.splits)
  then show "res \<noteq> Inr () \<Longrightarrow> bd_dispatch B' = bd_dispatch B" by blast
  show "settled_key key B' \<and> given_grant key B' = Some (ulid_text X (tg_id g))" if "res = Inr ()"
  proof -
    from that cases have "bd_dispatch B' = bd_dispatch (replace_dispatch ?d B)" by blast
    from dispatch_at_cong[OF this] show ?thesis by (simp add: settled_key_def given_grant_def dispatch_at_replace)
  qed
  show "kept B B'" if n: "\<not> settled_key key B"
  proof -
    have "kept B (replace_dispatch ?d B)" by (rule kept_replace) (use n in simp_all)
    then show ?thesis using cases kept_same kept_trans by metis
  qed
qed

section \<open>Operations that keep\<close>

definition keeps :: "'a dispatch_op \<Rightarrow> bool" where
  "keeps m \<longleftrightarrow> (\<forall>B. kept B (snd (m B)))"

named_theorems keeping \<open>operations of the dispatcher that keep settled keys\<close>

lemma keepsI: "(\<And>B. kept B (snd (m B))) \<Longrightarrow> keeps m"
  by (simp add: keeps_def)

lemma keepsD: "keeps m \<Longrightarrow> m B = (r, B') \<Longrightarrow> kept B B'"
  unfolding keeps_def by (metis snd_conv)

lemma keeps_return [keeping]: "keeps (return_ok a)"
  by (simp add: keeps_def return_ok_def)

lemma keeps_and_then [keeping]:
  assumes "keeps m" "\<And>a. keeps (f a)"
  shows "keeps (and_then m f)"
proof (rule keepsI)
  fix B
  obtain r B1 where m: "m B = (r, B1)" by fastforce
  with assms(1) have "kept B B1" by (rule keepsD)
  moreover have "kept B1 (snd (f a B1))" for a using assms(2) by (simp add: keeps_def)
  ultimately show "kept B (snd (and_then m f B))"
    using kept_trans m by (auto simp: and_then_def split: sum.splits)
qed

lemma keeps_on_store: "(\<And>B. kept B (snd (m B))) \<Longrightarrow> keeps (on_store m)"
  by (rule keepsI) (auto simp: on_store_def split: prod.splits sum.splits, metis snd_conv, metis snd_conv)

lemma keeps_same: "(\<And>B. bd_dispatch (snd (m B)) = bd_dispatch B) \<Longrightarrow> keeps (on_store m)"
  by (rule keeps_on_store) (simp add: kept_same)

lemma keeps_terminal [keeping]: "keeps (on_store (mark_dispatch_terminal X key m t reason related))"
  by (rule keeps_on_store) (metis prod.collapse terminal_op(2))

lemma keeps_complete [keeping]: "keeps (on_store (complete_timer_dispatch key reason g))"
  by (rule keeps_on_store) (metis prod.collapse complete_op(1))

lemma keeps_audit [keeping]: "keeps (on_store (board_audit X a fresh now))"
  by (rule keeps_same) (simp add: board_audit_def split: prod.split sum.split)

lemma keeps_waiter [keeping]: "keeps (on_store (insert_dependency_waiter X t u d m e))"
  by (rule keeps_same) (simp add: insert_dependency_waiter_def)

lemma keeps_consume [keeping]:
  "keeps (on_store (consume_dependency_waiter X t m))" "keeps (on_store (reset_dependency_waiter X t m))"
  by (rule keeps_same, simp add: consume_dependency_waiter_def reset_dependency_waiter_def set_waiters_def)+

lemma keeps_blocked [keeping]: "keeps (on_store (mark_task_blocked X i fresh now))"
  by (rule keeps_same)
    (simp add: mark_task_blocked_def with_immediate_tx_def update_task_def split: option.split sum.split prod.split)

lemma poll_loop_dispatch: "poll_loop X P d ws ks B = Inr (ks', B') \<Longrightarrow> bd_dispatch B' = bd_dispatch B"
proof (induction X P d ws ks B rule: poll_loop.induct)
  case (2 X P d w ws ks B)
  then show ?case
    by (cases "find_principal (wx_owner_principal_id w) B")
      (auto simp: Let_def set_waiters_def update_task_def split: option.splits if_splits)
qed simp

lemma poll_dispatch: "bd_dispatch (snd (poll_dependency_waits X P d B)) = bd_dispatch B"
  by (auto simp: poll_dependency_waits_def with_immediate_tx_def dest: poll_loop_dispatch split: sum.splits prod.splits)

lemma poll_each_dispatch: "bd_dispatch (snd (poll_each X P ds ks B)) = bd_dispatch B"
proof (induction X P ds ks B rule: poll_each.induct)
  case (2 X P d ds ks B)
  then show ?case using poll_dispatch[of X P d B] by (auto split: prod.splits sum.splits)
qed simp

lemma keeps_polls [keeping]:
  "keeps (on_store (poll_all_dependency_waits X P))" "keeps (on_store (mark_task_done_and_poll X P i))"
proof -
  show "keeps (on_store (poll_all_dependency_waits X P))"
    by (rule keeps_same) (simp add: poll_all_dependency_waits_def poll_each_dispatch split: sum.split)
  have "bd_dispatch (snd (mark_task_done X i B)) = bd_dispatch B" for B
    by (simp add: mark_task_done_def with_immediate_tx_def update_task_def split: option.split)
  moreover have "snd (mark_task_done_and_poll X P i B) \<in>
      {snd (mark_task_done X i B), snd (poll_dependency_waits X P i (snd (mark_task_done X i B)))}" for B
    by (simp add: mark_task_done_and_poll_def split: prod.split sum.split)
  ultimately have "bd_dispatch (snd (mark_task_done_and_poll X P i B)) = bd_dispatch B" for B
    using poll_dispatch[of X P i "snd (mark_task_done X i B)"] by (metis insertE singletonD)
  then show "keeps (on_store (mark_task_done_and_poll X P i))" by (rule keeps_same)
qed

section \<open>A scheduled run\<close>

text \<open>While the shell runs, no other part of the kernel writes the dispatch table.\<close>

definition quiet :: "dispatch_env \<Rightarrow> bool" where
  "quiet E \<longleftrightarrow> (\<forall>B. bd_dispatch (snd (dv_shell E B)) = bd_dispatch B)"

lemma and_then_Inr:
  "and_then m f B = (Inr b, B') \<longleftrightarrow> (\<exists>a B1. m B = (Inr a, B1) \<and> f a B1 = (Inr b, B'))"
  by (auto simp: and_then_def split: prod.splits sum.splits)

lemma on_store_Inr: "on_store m B = (Inr a, B') \<longleftrightarrow> m B = (Inr a, B')"
  by (auto simp: on_store_def split: prod.splits sum.splits)

lemma kept_after:
  assumes "kept B B1" "keeps m"
  shows "kept B (snd (m B1))"
  using assms kept_trans unfolding keeps_def by blast

lemma keeps_finish:
  assumes "quiet E"
  shows "keeps (finish_run X E key g)"
proof (rule keepsI)
  fix B
  obtain ok B1 where sh: "dv_shell E B = (ok, B1)" by fastforce
  with assms have "kept B B1" unfolding quiet_def by (metis kept_same snd_conv)
  then show "kept B (snd (finish_run X E key g B))"
    by (auto simp: finish_run_def sh intro!: kept_after keeping)
qed

lemma finish_given:
  assumes "quiet E" "finish_run X E key g B = (Inr res, B')"
  shows "res = Some g" "settled_key k B \<Longrightarrow> settled_key k B' \<and> given_grant k B' = given_grant k B"
proof -
  obtain ok B1 where sh: "dv_shell E B = (ok, B1)" by fastforce
  with assms(1) have d1: "bd_dispatch B1 = bd_dispatch B" unfolding quiet_def by (metis snd_conv)
  have aud: "bd_dispatch B2 = bd_dispatch B1" if "board_audit X a fresh now B1 = (r, B2)" for a fresh now r B2
    using that by (auto simp: board_audit_def split: prod.splits sum.splits)
  show "res = Some g"
    using assms(2) by (auto simp: finish_run_def sh and_then_Inr return_ok_def split: if_splits)
  have same: "settled_key k B2 = settled_key k B" "given_grant k B2 = given_grant k B"
    if "bd_dispatch B2 = bd_dispatch B1" for B2
    using that d1 by (simp_all add: settled_key_def given_grant_def dispatch_at_def)
  show "settled_key k B' \<and> given_grant k B' = given_grant k B" if k: "settled_key k B"
  proof (cases ok)
    case True
    with assms(2) obtain a B2 where a: "board_audit X a (dv_fresh E 1) (dv_now E) B1 = (Inr (), B2)"
      and c: "complete_timer_dispatch key ''handed_off'' (ulid_text X (tg_id g)) B2 = (Inr (), B')"
      by (auto simp: finish_run_def sh and_then_Inr on_store_Inr return_ok_def)
    from complete_op(2,3)[OF c, of k] k same[OF aud[OF a]] show ?thesis by simp
  next
    case False
    with assms(2) obtain a where "board_audit X a (dv_fresh E 1) (dv_now E) B1 = (Inr (), B')"
      by (auto simp: finish_run_def sh and_then_Inr on_store_Inr return_ok_def)
    from k same[OF aud[OF this]] show ?thesis by simp
  qed
qed

lemma run_scheduled_keeps:
  assumes "quiet E" "\<not> settled_key key B"
  shows "kept B (snd (run_scheduled X E inputs key B))"
proof -
  have ledger: "kept B (B\<lparr>bd_ledger := L\<rparr>)" "\<not> settled_key key (B\<lparr>bd_ledger := L\<rparr>)" for L
    using assms(2) by (simp_all add: kept_same settled_key_def dispatch_at_def)
  have "kept B (snd (and_then (on_store (persist_grant_with_handoff X key g pending surface tok m t c f n))
      (\<lambda>_. finish_run X E key g) (B\<lparr>bd_ledger := L\<rparr>)))" for L g pending surface tok m t c f n
  proof -
    obtain r B1 where p: "persist_grant_with_handoff X key g pending surface tok m t c f n (B\<lparr>bd_ledger := L\<rparr>) = (r, B1)"
      by fastforce
    from kept_trans[OF ledger(1) persist_op(3)[OF p ledger(2)]] have "kept B B1" .
    then show ?thesis
      by (auto simp: and_then_def on_store_def p kept_after keeps_finish[OF assms(1)] split: sum.split)
  qed
  then show ?thesis
    by (auto simp: run_scheduled_def ledger(1) split: prod.split sum.split option.split)
qed

lemma run_scheduled_result:
  assumes "quiet E" "run_scheduled X E inputs key B = (Inr res, B')"
  shows "case res of Some g \<Rightarrow> settled_key key B' \<and> given_grant key B' = Some (ulid_text X (tg_id g))
    | None \<Rightarrow> bd_dispatch B' = bd_dispatch B"
proof -
  obtain r L where pre: "dv_prefix E inputs (bd_ledger B) = (r, L)" by fastforce
  show ?thesis
  proof (cases r)
    case (Inr got)
    show ?thesis
    proof (cases got)
      case (Some x)
      obtain g pending tok where x: "x = (g, pending, tok)" by (cases x)
      from assms(2) obtain B1 where
        p: "persist_grant_with_handoff X key g pending (ei_owner_surface inputs) tok
              (case ei_dispatch_timer_id inputs of None \<Rightarrow> [] | Some m \<Rightarrow> m) (ei_correlated_task_id inputs)
              (dv_now E) (dv_fresh E 0) (dv_now E) (B\<lparr>bd_ledger := L\<rparr>) = (Inr (), B1)"
        and f: "finish_run X E key g B1 = (Inr res, B')"
        by (auto simp: run_scheduled_def pre Inr Some x and_then_Inr on_store_Inr)
      from persist_op(1)[OF p] finish_given[OF assms(1) f] show ?thesis by simp
    qed (use assms(2) pre Inr in \<open>auto simp: run_scheduled_def\<close>)
  qed (use assms(2) pre in \<open>auto simp: run_scheduled_def\<close>)
qed

section \<open>Handlers\<close>

lemma kept_snd: "keeps m \<Longrightarrow> kept B (snd (m B))"
  by (simp add: keeps_def)

lemma kept_and_then: "kept B (snd (m B)) \<Longrightarrow> (\<And>a. keeps (f a)) \<Longrightarrow> kept B (snd (and_then m f B))"
  by (auto simp: and_then_def kept_after split: prod.split sum.split)

lemma keeps_skip [keeping]: "keeps (skip_event X key m t reason)"
  unfolding skip_event_def by (intro keeping)

lemma skip_event_result:
  "skip_event X key m t reason B = (Inr out, B') \<Longrightarrow> out = AckSkip \<and> settled_key key B'"
  by (auto simp: skip_event_def and_then_Inr on_store_Inr return_ok_def dest: terminal_op(3))

lemma keeps_waiters [keeping]: "keeps (insert_waiters X t m key ds)"
  by (induction ds) (simp_all add: keeping)

lemma keeps_reattempt [keeping]: "keeps (reattempt_handed_off X E rec)"
  by (rule keepsI) (auto simp: reattempt_handed_off_def intro!: kept_snd keeping)

lemma keeps_consume_skip [keeping]: "keeps (consume_and_skip X wake reason)"
  unfolding consume_and_skip_def by (intro keeping)

lemma keeps_timer_event [keeping]:
  assumes "quiet E"
  shows "keeps (dispatch_task_timer_event X P E ev)"
proof (rule keepsI)
  fix B
  let ?k = "ulid_text X (ae_id ev)"
  have skip: "kept B (snd (skip_event X ?k m t reason B))" for m t reason
    by (intro kept_snd keeping)
  have wait: "kept B (snd (and_then (insert_waiters X t m ?k ds)
      (\<lambda>_. and_then (on_store (mark_task_blocked X i (dv_fresh E 0) (dv_now E))) (\<lambda>_. skip_event X ?k m u reason)) B))"
    for t m ds i u reason by (intro kept_snd keeping)
  have sched: "kept B (snd (and_then (run_scheduled X E inputs ?k) (\<lambda>res. return_ok (h res)) B))"
    if "\<not> settled_key ?k B" for inputs and h :: "task_grant option \<Rightarrow> dispatch_outcome"
    using that assms by (intro kept_and_then run_scheduled_keeps keeping)
  show "kept B (snd (dispatch_task_timer_event X P E ev B))"
    unfolding dispatch_task_timer_event_def Let_def settled_record
    by (auto simp: skip wait sched split: option.split sum.split board_error.split)
qed

lemma keeps_fresh_wake:
  assumes "quiet E" "\<not> settled_key (wk_wake_key wake) B"
  shows "kept B (snd (dispatch_fresh_wake X E wake B))"
proof -
  have sched: "kept B (snd (and_then (run_scheduled X E inputs (wk_wake_key wake)) h B))"
    if "\<And>res. keeps (h res)" for inputs and h :: "task_grant option \<Rightarrow> dispatch_outcome dispatch_op"
    using that assms by (intro kept_and_then run_scheduled_keeps)
  have after: "keeps (case res of
      Some g \<Rightarrow> and_then (on_store (consume_dependency_waiter X (wk_task_id wake) (wk_timer_id wake))) (\<lambda>_. return_ok (Delivered g))
    | None \<Rightarrow> and_then (on_store (reset_dependency_waiter X (wk_task_id wake) (wk_timer_id wake))) (\<lambda>_. return_ok Retry))"
    for res by (cases res) (simp_all add: keeping)
  have skip: "kept B (snd (consume_and_skip X wake reason B))" for reason by (intro kept_snd keeping)
  have reset: "kept B (snd (and_then (on_store (reset_dependency_waiter X (wk_task_id wake) (wk_timer_id wake)))
      (\<lambda>_. return_ok Retry) B))" by (intro kept_snd keeping)
  show ?thesis
    unfolding dispatch_fresh_wake_def
    by (auto simp: skip reset sched after split: option.split sum.split board_error.split)
qed

lemma keeps_wake [keeping]:
  assumes "quiet E"
  shows "keeps (dispatch_task_wake X P E wake)"
proof (rule keepsI)
  fix B
  show "kept B (snd (dispatch_task_wake X P E wake B))"
  proof (cases "settled_key (wk_wake_key wake) B")
    case True
    then obtain rec where "dispatch_state_for_key P (wk_wake_key wake) B = Some rec" "dt_state rec \<noteq> DispatchPending"
      by (auto simp: settled_record[symmetric, of _ _ P] split: option.splits)
    then show ?thesis
      by (auto simp: dispatch_task_wake_def intro!: kept_snd kept_and_then keeping
          split: timer_dispatch_state.split dispatch_outcome.split)
  next
    case False
    then show ?thesis
      using keeps_fresh_wake[OF assms False] settled_record[of P "wk_wake_key wake" B]
      by (auto simp: dispatch_task_wake_def split: option.split timer_dispatch_state.split)
  qed
qed

lemma keeps_wakes [keeping]: "(\<And>n. quiet (Es n)) \<Longrightarrow> keeps (dispatch_wakes X P Es n ks)"
  by (induction ks arbitrary: n) (simp_all add: keeping)

lemma keeps_complete_task [keeping]: "(\<And>n. quiet (Es n)) \<Longrightarrow> keeps (complete_task_and_wake X P Es i)"
  unfolding complete_task_and_wake_def by (intro keeping) simp

lemma keeps_refuse [keeping]: "keeps (refuse_handed_off X Es n recs)"
  by (induction recs arbitrary: n) (auto simp: keeping)

lemma keeps_recover [keeping]:
  assumes "\<And>n. quiet (Fs n)"
  shows "keeps (recover_timer_dispatches X P Es Fs)"
proof -
  have "keeps (\<lambda>B1. case take_ready_wakes X P B1 of
      Inl e \<Rightarrow> (Inl (Dispatch_store e), B1) | Inr wakes \<Rightarrow> dispatch_wakes X P Fs 0 wakes B1)"
    by (rule keepsI) (auto intro!: kept_snd keeping assms split: sum.split)
  then have "kept B (snd (and_then (refuse_handed_off X Es 0 recs)
      (\<lambda>_. and_then (on_store (poll_all_dependency_waits X P))
         (\<lambda>_ B1. case take_ready_wakes X P B1 of
             Inl e \<Rightarrow> (Inl (Dispatch_store e), B1) | Inr wakes \<Rightarrow> dispatch_wakes X P Fs 0 wakes B1)) B))" for B recs
    by (intro kept_snd keeping)
  then show ?thesis unfolding keeps_def recover_timer_dispatches_def by blast
qed

lemma kept_consume_entries:
  "(\<And>n. quiet (Es n)) \<Longrightarrow> kept B (snd (consume_entries X P f Es n ens ck B))"
proof (induction ens arbitrary: n ck B)
  case (Cons en ens)
  obtain r B1 where d: "dispatch_task_timer_event X P (Es n) (le_event en) B = (r, B1)" by fastforce
  with keepsD[OF keeps_timer_event[OF Cons.prems]] have k: "kept B B1" by blast
  have l: "kept B (B1\<lparr>bd_ledger := L\<rparr>)" for L using kept_trans[OF k kept_same] by simp
  have ih: "kept B (snd (consume_entries X P f Es m ens c (B1\<lparr>bd_ledger := L\<rparr>)))" for m c L
    using kept_trans[OF l Cons.IH[OF Cons.prems]] .
  show ?case
    by (auto simp: d k l ih Let_def split: sum.split dispatch_outcome.split prod.split)
qed simp

section \<open>Outcomes\<close>

text \<open>The conditions under which a fired timer is handed to the pipeline.\<close>

definition actionable :: "ext \<Rightarrow> audit_event \<Rightarrow> board \<Rightarrow> bool" where
  "actionable X ev B \<longleftrightarrow> (\<exists>m t. fired_timer_id X ev = Some m \<and> task_by_timer_id m B = Some t \<and>
     \<not> terminal_status (tk_status t) \<and> list_all (dependency_done X B) (tk_dependencies t) \<and>
     (\<exists>p. find_principal (ulid_text X (tk_owner_principal_id t)) B = Some p \<and> px_is_owner p))"

lemma owner_principal_Inr:
  "owner_principal_by_id X i B = Inr p \<longleftrightarrow> find_principal (ulid_text X i) B = Some p \<and> px_is_owner p"
  by (auto simp: owner_principal_by_id_def split: option.split)

lemma owner_principal_Inl: "owner_principal_by_id X i B = Inl e \<Longrightarrow> \<exists>s. e = NotOwner s"
  by (auto simp: owner_principal_by_id_def split: option.splits if_splits)

lemma unmet_none: "unmet_dependencies X t B = [] \<longleftrightarrow> list_all (dependency_done X B) (tk_dependencies t)"
  by (auto simp: unmet_dependencies_def filter_empty_conv list_all_iff)

lemma timer_event_cases:
  assumes "dispatch_task_timer_event X P E ev B = (Inr out, B')"
  obtains (skip) m t reason B1 where "skip_event X (ulid_text X (ae_id ev)) m t reason B1 = (Inr out, B')"
  | (settled) "settled_key (ulid_text X (ae_id ev)) B" "out = AckSkip" "B' = B"
  | (sched) inputs res where "\<not> settled_key (ulid_text X (ae_id ev)) B" "actionable X ev B"
      "run_scheduled X E inputs (ulid_text X (ae_id ev)) B = (Inr res, B')"
      "out = (case res of Some g \<Rightarrow> Delivered g | None \<Rightarrow> Retry)"
proof -
  let ?k = "ulid_text X (ae_id ev)"
  from assms obtain m where m: "fired_timer_id X ev = Some m"
    by (auto simp: dispatch_task_timer_event_def split: option.splits)
  note ev = assms[unfolded dispatch_task_timer_event_def m option.case Let_def settled_record]
  show thesis
  proof (cases "task_by_timer_id m B")
    case None
    with ev have "skip_event X ?k m None ''non_task_timer'' B = (Inr out, B')" by simp
    then show thesis by (rule skip)
  next
    case (Some t)
    note ev = ev[unfolded Some option.case]
    show thesis
    proof (cases "terminal_status (tk_status t)")
      case True
      with ev have "skip_event X ?k m (Some (tk_id t)) ''terminal_task'' B = (Inr out, B')" by simp
      then show thesis by (rule skip)
    next
      case open_task: False
      note ev = ev[unfolded if_not_P[OF open_task]]
      show thesis
      proof (cases "settled_key ?k B")
        case True
        with ev have "out = AckSkip" "B' = B" by simp_all
        with True show thesis by (rule settled)
      next
        case fresh: False
        note ev = ev[unfolded if_not_P[OF fresh]]
        show thesis
        proof (cases "owner_principal_by_id X (tk_owner_principal_id t) B")
          case (Inl e)
          with owner_principal_Inl[OF Inl] ev
          have "skip_event X ?k m (Some (tk_id t)) ''unknown_or_non_owner_principal'' B = (Inr out, B')" by auto
          then show thesis by (rule skip)
        next
          case (Inr p)
          note ev = ev[unfolded Inr sum.case]
          show thesis
          proof (cases "unmet_dependencies X t B = []")
            case False
            with ev obtain B1 where "skip_event X ?k m (Some (tk_id t)) ''dependency_wait'' B1 = (Inr out, B')"
              by (auto simp: and_then_Inr)
            then show thesis by (rule skip)
          next
            case True
            with m Some open_task Inr have act: "actionable X ev B"
              by (auto simp: actionable_def owner_principal_Inr unmet_none)
            from ev True obtain res where
              "run_scheduled X E (scheduled_inputs X E t m (Some ?k) ?k) ?k B = (Inr res, B')"
              "out = (case res of Some g \<Rightarrow> Delivered g | None \<Rightarrow> Retry)"
              by (auto simp: and_then_Inr return_ok_def)
            with fresh act show thesis by (rule sched)
          qed
        qed
      qed
    qed
  qed
qed

text \<open>
  C21. What a handled timer event leaves behind. A delivered event was actionable (its timer
  belongs to an unfinished task of a registered owner, all of whose dependencies are done) and had no
  settled dispatch before; afterwards its dispatch row is settled and names the grant that was
  delivered. A skipped event is settled. A retried event was actionable and leaves the dispatch
  table as it was.\<close>

theorem timer_event_outcome:
  assumes "quiet E" "dispatch_task_timer_event X P E ev B = (Inr out, B')"
  shows "case out of
      Delivered g \<Rightarrow> actionable X ev B \<and> \<not> settled_key (ulid_text X (ae_id ev)) B \<and>
        settled_key (ulid_text X (ae_id ev)) B' \<and> given_grant (ulid_text X (ae_id ev)) B' = Some (ulid_text X (tg_id g))
    | AckSkip \<Rightarrow> settled_key (ulid_text X (ae_id ev)) B'
    | Retry \<Rightarrow> actionable X ev B \<and> \<not> settled_key (ulid_text X (ae_id ev)) B \<and> bd_dispatch B' = bd_dispatch B"
  using assms(2)
proof (cases rule: timer_event_cases)
  case (sched inputs res)
  with run_scheduled_result[OF assms(1) sched(3)] show ?thesis by (cases res) simp_all
qed (auto dest: skip_event_result)

section \<open>At most one grant for a key\<close>

text \<open>
  The only writers of the dispatch table are the dispatcher's handlers, and one loop runs them one
  after another. Everything else the kernel does leaves the table alone.
\<close>

inductive dispatch_step :: "ext \<Rightarrow> text_parsers \<Rightarrow> board \<Rightarrow> board \<Rightarrow> bool" for X P where
  step_event: "quiet E \<Longrightarrow> dispatch_step X P B (snd (dispatch_task_timer_event X P E ev B))"
| step_wake: "quiet E \<Longrightarrow> dispatch_step X P B (snd (dispatch_task_wake X P E wake B))"
| step_complete_task: "(\<And>n. quiet (Es n)) \<Longrightarrow> dispatch_step X P B (snd (complete_task_and_wake X P Es i B))"
| step_recover: "(\<And>n. quiet (Fs n)) \<Longrightarrow> dispatch_step X P B (snd (recover_timer_dispatches X P Es Fs B))"
| step_pass: "(\<And>n. quiet (Es n)) \<Longrightarrow> dispatch_step X P B (snd (deadline_consumer_pass X P f Es ck B))"
| step_elsewhere: "bd_dispatch B' = bd_dispatch B \<Longrightarrow> dispatch_step X P B B'"

lemma dispatch_step_kept: "dispatch_step X P B B' \<Longrightarrow> kept B B'"
proof (induction rule: dispatch_step.induct)
  case (step_pass Es B f ck)
  then show ?case by (simp add: deadline_consumer_pass_def kept_consume_entries split: sum.split)
next
  case (step_event E B ev)
  show ?case by (rule kept_snd[OF keeps_timer_event[OF step_event]])
next
  case (step_wake E B wake)
  show ?case by (rule kept_snd[OF keeps_wake[OF step_wake]])
next
  case (step_complete_task Es B i)
  then show ?case by (intro kept_snd keeps_complete_task)
next
  case (step_recover Fs B Es)
  then show ?case by (intro kept_snd keeps_recover)
qed (rule kept_same)

lemma keptD:
  assumes "kept B B'"
  shows "no_pending B \<Longrightarrow> no_pending B'" "settled_key key B \<Longrightarrow> settled_key key B'"
    "settled_key key B \<Longrightarrow> given_grant key B' = given_grant key B \<or> given_grant key B' = None"
  using assms by (simp_all add: kept_def)

interpretation once: given_once no_pending "dispatch_step X P" settled_key given_grant for X P
  by unfold_locales (erule dispatch_step_kept[THEN keptD(1), rotated] dispatch_step_kept[THEN keptD(2)]
    dispatch_step_kept[THEN keptD(3)] given_settled_key; assumption)+

text \<open>
  C22. Over any sequence of handled events, wakes, recoveries and consumer passes, interleaved with
  anything the rest of the kernel does to the other tables, a dispatch key never gets a second
  grant: once settled it stays settled, and from then on its row names the same grant or none.\<close>

theorem dispatch_granted_once:
  assumes "(dispatch_step X P)\<^sup>*\<^sup>* (empty_board L) B1" "(dispatch_step X P)\<^sup>*\<^sup>* B1 B2"
  shows "(settled_key key B1 \<longrightarrow> settled_key key B2 \<and> given_grant key B2 \<in> {given_grant key B1, None}) \<and>
    (\<forall>g g'. given_grant key B1 = Some g \<and> given_grant key B2 = Some g' \<longrightarrow> g' = g)"
proof -
  have "no_pending (empty_board L)" by (simp add: no_pending_def empty_board_def)
  then have "no_pending B1" using once.good_steps[OF assms(1)] by blast
  then show ?thesis
    using once.settled_steps[OF assms(2)] once.given_steps[OF assms(2)] once.given_unique[OF _ assms(2)] by blast
qed

section \<open>Acknowledgement\<close>

lemma acked_settled:
  assumes "quiet E" "dispatch_task_timer_event X P E ev B = (Inr out, B')" "out \<noteq> Retry"
  shows "settled_key (ulid_text X (ae_id ev)) B'"
  using assms(2)
proof (cases rule: timer_event_cases)
  case (sched inputs res)
  with run_scheduled_result[OF assms(1) sched(3)] assms(3) show ?thesis by (cases res) simp_all
qed (auto dest: skip_event_result)

definition acked_checkpoint :: "ledger_entry list \<Rightarrow> nat \<Rightarrow> consumer_checkpoint \<Rightarrow> consumer_checkpoint" where
  "acked_checkpoint ens k ck =
     (if k = 0 then ck else ck\<lparr>cc_last_acked_global_seq := le_global_seq (ens ! (k - 1))\<rparr>)"

lemma consume_entries_acked:
  assumes "\<And>n. quiet (Es n)" "consume_entries X P f Es n ens ck B = (ck', B')"
  shows "\<exists>k\<le>length ens. ck' = acked_checkpoint ens k ck \<and>
    (\<forall>en\<in>set (take k ens). settled_key (ulid_text X (ae_id (le_event en))) B')"
  using assms(2)
proof (induction ens arbitrary: n ck B)
  case (Cons en ens)
  obtain r B1 where d: "dispatch_task_timer_event X P (Es n) (le_event en) B = (r, B1)" by fastforce
  let ?ck = "ck\<lparr>cc_last_acked_global_seq := le_global_seq en\<rparr>"
  consider (stop) "ck' = ck" | (go) out L where "r = Inr out" "out \<noteq> Retry"
    "consume_entries X P f Es (Suc n) ens ?ck (B1\<lparr>bd_ledger := L\<rparr>) = (ck', B')"
    using Cons.prems by (auto simp: d Let_def split: sum.splits dispatch_outcome.splits prod.splits)
  then show ?case
  proof cases
    case stop
    then show ?thesis by (intro exI[of _ 0]) (simp add: acked_checkpoint_def)
  next
    case go
    from Cons.IH[OF go(3)] obtain k where k: "k \<le> length ens" "ck' = acked_checkpoint ens k ?ck"
      "\<forall>en\<in>set (take k ens). settled_key (ulid_text X (ae_id (le_event en))) B'" by blast
    let ?B1 = "B1\<lparr>bd_ledger := L\<rparr>"
    have "settled_key (ulid_text X (ae_id (le_event en))) B1"
      by (rule acked_settled[OF assms(1)]) (use d go in auto)
    then have "settled_key (ulid_text X (ae_id (le_event en))) ?B1" by (simp add: settled_key_def dispatch_at_def)
    moreover have "kept ?B1 B'"
      using kept_consume_entries[where Es = Es and B = ?B1] assms(1) go(3) by (metis snd_conv)
    ultimately have "settled_key (ulid_text X (ae_id (le_event en))) B'" unfolding kept_def by blast
    with k show ?thesis
      by (intro exI[of _ "Suc k"]) (auto simp: acked_checkpoint_def nth_Cons')
  qed
qed (simp add: acked_checkpoint_def)

text \<open>
  C23. A pass of the consumer moves its checkpoint over an initial part of the replayed entries, and
  every event it moves past has a settled dispatch on the board: no fired timer is acknowledged
  before its outcome is durable, and an event that must be retried holds the checkpoint back.\<close>

theorem acknowledged_events_settled:
  assumes "\<And>n. quiet (Es n)" "replay_audit X f (cc_last_acked_global_seq ck) (bd_ledger B) = Inr entries"
    and "deadline_consumer_pass X P f Es ck B = (ck', B')"
  shows "\<exists>k\<le>length entries. ck' = acked_checkpoint entries k ck \<and>
    (\<forall>en\<in>set (take k entries). settled_key (ulid_text X (ae_id (le_event en))) B')"
proof -
  have "consume_entries X P f Es 0 entries ck B = (ck', B')"
    using assms(2,3) by (simp add: deadline_consumer_pass_def)
  then show ?thesis by (rule consume_entries_acked[OF assms(1)])
qed

section \<open>Witnesses\<close>

definition ex_timer_row :: task_row where
  "ex_timer_row = set_timer DeadlineTimer ''t'' (ex_row 1 [])"

definition ex_timer_board :: board where
  "ex_timer_board = (empty_board empty_ledger)\<lparr>bd_tasks := [ex_timer_row],
     bd_links := [\<lparr>lk_timer_id = ''t'', lk_task_id = ulid_text ex_run_ext 1, lk_kind = DeadlineTimer\<rparr>],
     bd_principals := [\<lparr>px_id = ulid_text ex_run_ext 7, px_is_owner = True\<rparr>]\<rparr>"

definition ex_fired :: audit_event where
  "ex_fired = \<lparr>ae_id = 9, ae_schema_version = 1, ae_ts = 50, ae_kind = AuditKind ''workflow.timer_fired'', ae_action = None,
     ae_decision = None, ae_reason = None, ae_task_grant_id = None, ae_target_refs = [], ae_payload_refs = [],
     ae_aggregate_id = default_aggregate_id, ae_aggregate_seq = 1,
     ae_payload_json = Some (json_text ex_run_ext (JObject [(''timer_id'', JString ''t'')])), ae_actor = None,
     ae_prev_hash = genesis_digest, ae_hash = genesis_digest\<rparr>"

definition ex_env :: dispatch_env where
  "ex_env = \<lparr>dv_surface = \<lparr>os_kind = LocalTerminal, os_principal_id = 7, os_thread_binding = None, os_surface_id = None\<rparr>,
     dv_prefix = (\<lambda>_ L. (Inr (Some (ex_grant, ex_title, ex_title)), L)), dv_shell = (\<lambda>B. (True, B)),
     dv_fresh = (\<lambda>n. word_of_nat n), dv_now = 50\<rparr>"

lemma ex_env_quiet: "quiet ex_env"
  by (simp add: quiet_def ex_env_def)

lemma ex_fired_timer: "fired_timer_id ex_run_ext ex_fired = Some ''t''"
proof -
  let ?v = "JObject [(''timer_id'', JString ''t'')]"
  have "wf_json ?v" "plain_json ?v" by simp_all
  then have "json_parse ex_run_ext (json_text ex_run_ext ?v) = Some (canonical ?v)"
    using wf_ex_run(2) unfolding wf_serde_def by blast
  moreover have "canonical ?v = ?v" by (simp add: sort_entries_def)
  ultimately show ?thesis by (simp add: fired_timer_id_def ex_fired_def)
qed

lemma ex_persisted:
  obtains L1 where
    "persist_grant_with_handoff ex_run_ext key ex_grant ex_title surface ex_title m t 50 0 50 ex_timer_board =
      (Inr (), (replace_dispatch \<lparr>ds_event_id = key, ds_timer_id = m, ds_task_id = map_option (ulid_text ex_run_ext) t,
         ds_state = HandedOff, ds_grant_id = Some (ulid_text ex_run_ext (tg_id ex_grant)), ds_token_ref = Some ex_title,
         ds_terminal_reason = None\<rparr> (ex_timer_board\<lparr>bd_grants := [\<lparr>gr_id = ulid_text ex_run_ext (tg_id ex_grant),
           gr_task_token = hash_task_token ex_run_ext (tg_task_token ex_grant), gr_expires_at = tg_expires_at ex_grant,
           gr_grant = ex_grant\<lparr>tg_task_token := []\<rparr>, gr_pending_message_digest = digest_str (ar_digest ex_title),
           gr_owner_surface = surface\<rparr>]\<rparr>))\<lparr>bd_ledger := L1\<rparr>)"
    "rows_inv ex_run_ext L1" "length (ledger_events L1) = 1" "lr_id ` set (lg_rows L1) = {ulid_text ex_run_ext 0}"
proof -
  let ?a = "plain_input ''authority.granted'' None (Some (tg_id ex_grant)) [ex_title]"
  have e: "rows_inv ex_run_ext empty_ledger" "ledger_events empty_ledger = []" "lg_rows empty_ledger = []"
    by (simp_all add: ledger_run_rows(1)[OF wf_ex_run(1)] ledger_run_def) (simp_all add: empty_ledger_def ledger_events_def)
  from append_roomy[OF wf_ex_run(1) e(1), of ?a 0 50] e obtain ev L1 where
    L1: "append_audit_conn_with_actor ex_run_ext ?a 0 50 empty_ledger = Inr (ev, L1)" "rows_inv ex_run_ext L1"
    "ledger_events L1 = [ev]" "lr_id ` set (lg_rows L1) = {ulid_text ex_run_ext 0}"
    by (auto simp: plain_input_def)
  have "sweep_expired_grants 50 ex_timer_board = ex_timer_board"
    by (simp add: sweep_expired_grants_def ex_timer_board_def empty_board_def)
  then show thesis
    using L1 by (intro that[of L1])
      (simp_all add: persist_grant_with_handoff_def with_immediate_tx_def insert_grant_row_def Let_def replace_dispatch_def
        ex_timer_board_def empty_board_def)
qed

lemma ex_finished:
  assumes "rows_inv ex_run_ext (bd_ledger B)" "length (ledger_events (bd_ledger B)) = 1"
    "lr_id ` set (lg_rows (bd_ledger B)) = {ulid_text ex_run_ext 0}"
  shows "\<exists>B'. finish_run ex_run_ext ex_env key ex_grant B = (Inr (Some ex_grant), B')"
proof -
  let ?a = "plain_input ''task.shell_completed'' None (Some (tg_id ex_grant)) []"
  obtain ev L where "append_audit_conn_with_actor ex_run_ext ?a 1 50 (bd_ledger B) = Inr (ev, L)"
    by (rule append_roomy[OF wf_ex_run(1) assms(1), of ?a 1 50]) (use assms(2,3) in \<open>auto simp: plain_input_def ex_run_text_eq\<close>)
  then show ?thesis
    by (simp add: finish_run_def ex_env_def and_then_def on_store_def board_audit_def append_audit_def with_immediate_tx_def
        complete_timer_dispatch_def return_ok_def Let_def)
qed

lemma ex_delivered:
  "\<exists>B'. dispatch_task_timer_event ex_run_ext ex_parsers ex_env ex_fired ex_timer_board = (Inr (Delivered ex_grant), B')"
proof -
  let ?B = ex_timer_board and ?k = "ulid_text ex_run_ext 9" and ?t = "tb_task ex_timer_row"
  have row: "tb_id ex_timer_row = ulid_text ex_run_ext 1" "tk_status ?t = TaskOpen" "tk_dependencies ?t = []"
    "tk_owner_principal_id ?t = 7"
    by (simp_all add: ex_timer_row_def set_timer_def ex_row_def ex_task_def)
  have t: "task_by_timer_id ''t'' ?B = Some ?t"
    by (simp add: task_by_timer_id_def find_task_def ex_timer_board_def row)
  have o: "owner_principal_by_id ex_run_ext 7 ?B = Inr \<lparr>px_id = ulid_text ex_run_ext 7, px_is_owner = True\<rparr>"
    by (simp add: owner_principal_by_id_def find_principal_def ex_timer_board_def)
  have d: "\<not> settled_key k ?B" for k by (simp add: settled_key_def dispatch_at_def ex_timer_board_def empty_board_def)
  let ?i = "scheduled_inputs ex_run_ext ex_env ?t ''t'' (Some ?k) ?k"
  obtain B1 B2 where p: "persist_grant_with_handoff ex_run_ext ?k ex_grant ex_title (ei_owner_surface ?i) ex_title ''t''
      (ei_correlated_task_id ?i) 50 0 50 ?B = (Inr (), B1)" and f: "finish_run ex_run_ext ex_env ?k ex_grant B1 = (Inr (Some ex_grant), B2)"
  proof (rule ex_persisted[of ?k "ei_owner_surface ?i" "''t''" "ei_correlated_task_id ?i"])
    fix L1
    let ?B1 = "(replace_dispatch \<lparr>ds_event_id = ?k, ds_timer_id = ''t'', ds_task_id = map_option (ulid_text ex_run_ext) (ei_correlated_task_id ?i),
         ds_state = HandedOff, ds_grant_id = Some (ulid_text ex_run_ext (tg_id ex_grant)), ds_token_ref = Some ex_title,
         ds_terminal_reason = None\<rparr> (ex_timer_board\<lparr>bd_grants := [\<lparr>gr_id = ulid_text ex_run_ext (tg_id ex_grant),
           gr_task_token = hash_task_token ex_run_ext (tg_task_token ex_grant), gr_expires_at = tg_expires_at ex_grant,
           gr_grant = ex_grant\<lparr>tg_task_token := []\<rparr>, gr_pending_message_digest = digest_str (ar_digest ex_title),
           gr_owner_surface = ei_owner_surface ?i\<rparr>]\<rparr>))\<lparr>bd_ledger := L1\<rparr>"
    assume a: "persist_grant_with_handoff ex_run_ext ?k ex_grant ex_title (ei_owner_surface ?i) ex_title ''t''
        (ei_correlated_task_id ?i) 50 0 50 ?B = (Inr (), ?B1)"
      and L: "rows_inv ex_run_ext L1" "length (ledger_events L1) = 1" "lr_id ` set (lg_rows L1) = {ulid_text ex_run_ext 0}"
    obtain B2 where "finish_run ex_run_ext ex_env ?k ex_grant ?B1 = (Inr (Some ex_grant), B2)"
      using ex_finished[of ?B1 ?k] L by auto
    with a show thesis by (rule that)
  qed
  have "run_scheduled ex_run_ext ex_env ?i ?k ?B = (Inr (Some ex_grant), B2)"
    using p f by (simp add: run_scheduled_def ex_env_def[THEN arg_cong[of _ _ dv_prefix]] and_then_def on_store_def
        scheduled_inputs_def ex_env_def[THEN arg_cong[of _ _ dv_now]] ex_env_def[THEN arg_cong[of _ _ dv_fresh]])
  then have "and_then (run_scheduled ex_run_ext ex_env ?i ?k)
      (\<lambda>res. return_ok (case res of Some g \<Rightarrow> Delivered g | None \<Rightarrow> Retry)) ?B = (Inr (Delivered ex_grant), B2)"
    by (simp add: and_then_def return_ok_def)
  moreover have "ae_id ex_fired = 9" by (simp add: ex_fired_def)
  ultimately show ?thesis
    unfolding dispatch_task_timer_event_def Let_def settled_record
    by (simp add: ex_fired_timer t row d o terminal_status_def unmet_dependencies_def)
qed

lemma run_scheduled_given:
  assumes "dispatch_task_timer_event ex_run_ext ex_parsers ex_env ex_fired B = (Inr (Delivered g), B')"
  shows "settled_key (ulid_text ex_run_ext 9) B' \<and> given_grant (ulid_text ex_run_ext 9) B' = Some (ulid_text ex_run_ext (tg_id g))"
  using assms
proof (cases rule: timer_event_cases)
  case (sched inputs res)
  have "ae_id ex_fired = 9" by (simp add: ex_fired_def)
  with run_scheduled_result[OF ex_env_quiet sched(3)] sched(4) show ?thesis by (cases res) simp_all
qed (auto dest: skip_event_result)

theorem timer_event_outcome_witness:
  "quiet ex_env \<and> (\<exists>B'. dispatch_task_timer_event ex_run_ext ex_parsers ex_env ex_fired ex_timer_board = (Inr (Delivered ex_grant), B') \<and>
     actionable ex_run_ext ex_fired ex_timer_board \<and>
     given_grant (ulid_text ex_run_ext 9) B' = Some (ulid_text ex_run_ext (tg_id ex_grant)))"
proof -
  obtain B' where B': "dispatch_task_timer_event ex_run_ext ex_parsers ex_env ex_fired ex_timer_board = (Inr (Delivered ex_grant), B')"
    using ex_delivered by blast
  from timer_event_outcome[OF ex_env_quiet B'] have "actionable ex_run_ext ex_fired ex_timer_board"
    "given_grant (ulid_text ex_run_ext (ae_id ex_fired)) B' = Some (ulid_text ex_run_ext (tg_id ex_grant))" by simp_all
  then show ?thesis using ex_env_quiet B' by (simp add: ex_fired_def)
qed

theorem dispatch_granted_once_witness:
  "\<exists>B1 B2 ev. given_grant (ulid_text ex_run_ext 9) B1 = Some (ulid_text ex_run_ext (tg_id ex_grant)) \<and>
     B2 = snd (dispatch_task_timer_event ex_run_ext ex_parsers ex_env ev B1) \<and> settled_key (ulid_text ex_run_ext 9) B2 \<and>
     given_grant (ulid_text ex_run_ext 9) B2 \<in> {Some (ulid_text ex_run_ext (tg_id ex_grant)), None}"
proof -
  let ?X = ex_run_ext and ?P = ex_parsers and ?k = "ulid_text ex_run_ext 9"
  obtain B1 where B1: "dispatch_task_timer_event ?X ?P ex_env ex_fired ex_timer_board = (Inr (Delivered ex_grant), B1)"
    using ex_delivered by blast
  define B2 where "B2 = snd (dispatch_task_timer_event ?X ?P ex_env ex_fired B1)"
  have "dispatch_step ?X ?P (empty_board empty_ledger) ex_timer_board"
    by (rule step_elsewhere) (simp add: ex_timer_board_def empty_board_def)
  moreover have "dispatch_step ?X ?P ex_timer_board B1"
    using step_event[OF ex_env_quiet, of ?X ?P ex_timer_board ex_fired] by (simp add: B1)
  ultimately have run: "(dispatch_step ?X ?P)\<^sup>*\<^sup>* (empty_board empty_ledger) B1" by (meson converse_rtranclp_into_rtranclp r_into_rtranclp)
  have "(dispatch_step ?X ?P)\<^sup>*\<^sup>* B1 B2" unfolding B2_def using step_event[OF ex_env_quiet] by blast
  note once = dispatch_granted_once[OF run this, of ?k]
  from run_scheduled_given B1 have "settled_key ?k B1" "given_grant ?k B1 = Some (ulid_text ?X (tg_id ex_grant))" by auto
  with once show ?thesis
    by (intro exI[of _ B1] exI[of _ B2] exI[of _ ex_fired]) (simp add: B2_def)
qed

theorem acknowledged_events_settled_witness:
  "\<exists>entries ck' B'. replay_audit ex_serde_ext filter_all 0 ex_ledger = Inr entries \<and> length entries = 2 \<and>
     deadline_consumer_pass ex_serde_ext ex_parsers filter_all (\<lambda>_. ex_env) checkpoint_default (empty_board ex_ledger) = (ck', B') \<and>
     (\<exists>k\<le>length entries. ck' = acked_checkpoint entries k checkpoint_default \<and>
        (\<forall>en\<in>set (take k entries). settled_key (ulid_text ex_serde_ext (ae_id (le_event en))) B'))"
proof -
  have "entry_matches filter_all en" for en
    by (simp add: entry_matches_def filter_all_def filter_matches_def)
  then obtain ens where r: "replay_audit ex_serde_ext filter_all 0 ex_ledger = Inr ens" "length ens = 2"
    using run_replay [OF wf_ex_serde ex_ledger_run, of filter_all 0] ex_ledger_rows
    by (auto simp: replay_audit_def ledger_events_def)
  obtain ck' B' where p: "deadline_consumer_pass ex_serde_ext ex_parsers filter_all (\<lambda>_. ex_env) checkpoint_default
      (empty_board ex_ledger) = (ck', B')" by fastforce
  have "replay_audit ex_serde_ext filter_all (cc_last_acked_global_seq checkpoint_default) (bd_ledger (empty_board ex_ledger)) = Inr ens"
    using r by (simp add: checkpoint_default_def empty_board_def)
  from acknowledged_events_settled[OF ex_env_quiet this p] r p show ?thesis by blast
qed

end
