(* ===== verification/Board_Bounds.thy ===== *)
theory Board_Bounds
  imports Board_Invariant
begin

text \<open>
  Bounds of the task board: the slice of tasks a master agent is shown, and the budgets of model
  calls and artifact writes of a grant.
\<close>

section \<open>Slices\<close>

definition as_slice :: "task_row \<Rightarrow> task_slice" where
  "as_slice r = \<lparr>sl_schema_version = 1, sl_id = tk_id (tb_task r), sl_status = tk_status (tb_task r),
     sl_due_at = tk_due_at (tb_task r), sl_title_ref = tk_title_ref (tb_task r)\<rparr>"

definition shown_row :: "ext \<Rightarrow> int \<Rightarrow> ulid \<Rightarrow> task_row \<Rightarrow> bool" where
  "shown_row X n owner r \<longleftrightarrow> due_row X n owner r \<or> blocked_row X owner r \<or> asked_row X owner r"

lemma collect_slices_total:
  assumes "wf_parsers X P" "\<forall>r\<in>set rs. row_mirrors X r"
  shows "collect_slices P rs = Inr (map as_slice rs)"
  using assms(2)
proof (induction rs)
  case (Cons r rs)
  then have "ulid_parse P (tb_id r) = Some (tk_id (tb_task r))"
    using assms(1) by (simp add: row_mirrors_def Let_def wf_parsers_def)
  with Cons show ?case by (simp add: map_slice_row_def as_slice_def row_mirrors_def Let_def)
qed simp

text \<open>The first slice of each identifier, in order.\<close>

fun firsts :: "ulid set \<Rightarrow> task_slice list \<Rightarrow> task_slice list" where
  "firsts seen [] = []"
| "firsts seen (x # xs) = (if sl_id x \<in> seen then firsts seen xs else x # firsts (insert (sl_id x) seen) xs)"

lemma firsts_subset: "set (firsts seen xs) \<subseteq> set xs"
  by (induction seen xs rule: firsts.induct) auto

lemma firsts_ids: "sl_id ` set (firsts seen xs) = sl_id ` set xs - seen"
  by (induction seen xs rule: firsts.induct) auto

lemma firsts_distinct: "distinct (map sl_id (firsts seen xs))"
  by (induction seen xs rule: firsts.induct) (auto simp flip: set_map simp: firsts_ids[unfolded set_map[symmetric]])

lemma master_loop_firsts:
  "length combined < n \<Longrightarrow> master_loop n combined seen xs = take n (combined @ firsts seen xs)"
proof (induction n combined seen xs rule: master_loop.induct)
  case (2 n combined seen x xs)
  then show ?case
    by (cases "sl_id x \<in> seen"; cases "n \<le> length combined + 1") (auto simp: take_Cons' le_Suc_eq)
qed simp

lemma length_firsts:
  assumes "distinct (map sl_id ys)" "set ys \<subseteq> set xs"
  shows "length ys \<le> length (firsts {} xs)"
proof -
  have "length ys = card (sl_id ` set ys)" using assms(1) by (metis distinct_card length_map set_map)
  also have "\<dots> \<le> card (sl_id ` set (firsts {} xs))"
    using assms(2) by (intro card_mono) (auto simp: firsts_ids)
  also have "\<dots> \<le> length (firsts {} xs)" by (metis card_image_le card_length finite_set le_trans)
  finally show ?thesis .
qed

lemma distinct_of_map: "distinct (map f xs) \<Longrightarrow> distinct xs"
  by (simp add: distinct_map)

lemma limited_query:
  fixes limit :: u64
  assumes "0 \<le> sint limit" "distinct (map tb_id T)" "\<forall>r\<in>set T. row_mirrors X r" "mset rs = mset (filter p T)" "wf_parsers X P"
  shows "set (sql_limit limit rs) \<subseteq> {r \<in> set T. p r}" "distinct (map sl_id (map as_slice (sql_limit limit rs)))"
    "length (sql_limit limit rs) < unat limit \<Longrightarrow> set (sql_limit limit rs) = {r \<in> set T. p r}"
proof -
  have "sint limit < 2 ^ 63" using sint_lt[of limit] by simp
  with assms(1) have "uint limit = sint limit" by (simp add: uint_sint[of limit] take_bit_int_eq_self)
  then have lim: "sql_limit limit rs = take (unat limit) rs"
    using assms(1) by (simp add: sql_limit_def unat_eq_nat_uint)
  have s: "set rs = {r \<in> set T. p r}" using assms(4) by (metis set_mset_mset set_filter)
  show sub: "set (sql_limit limit rs) \<subseteq> {r \<in> set T. p r}" using s set_take_subset[of _ rs] by (auto simp: lim)
  show "length (sql_limit limit rs) < unat limit \<Longrightarrow> set (sql_limit limit rs) = {r \<in> set T. p r}"
    using s by (simp add: lim)
  have "mset (map tb_id rs) = mset (map tb_id (filter p T))" using assms(4) by simp
  then have "distinct (map tb_id rs)" using assms(2) by (metis distinct_map_filter mset_eq_imp_distinct_iff)
  then have "distinct (map tb_id (take (unat limit) rs))" by (metis distinct_take take_map)
  moreover have "map tb_id (take (unat limit) rs) = map (ulid_text X) (map (sl_id \<circ> as_slice) (take (unat limit) rs))"
    using assms(3) sub by (auto simp: lim row_mirrors_def Let_def as_slice_def)
  ultimately show "distinct (map sl_id (map as_slice (sql_limit limit rs)))"
    by (metis distinct_of_map lim map_map)
qed

lemma slice_of_id: "tasks_ok X T \<Longrightarrow> r \<in> set T \<Longrightarrow> q \<in> set T \<Longrightarrow> sl_id (as_slice r) = sl_id (as_slice q) \<Longrightarrow> r = q"
  by (auto simp: tasks_ok_def row_mirrors_def Let_def as_slice_def distinct_map inj_on_def)

lemma master_slice_total:
  assumes inv: "board_inv X B" and P: "wf_parsers X P" and lim: "0 \<le> sint limit" and t: "epoch_nanos time = Inr n"
  shows "\<exists>xs. master_slice X P time owner limit B = Inr xs \<and> length xs \<le> unat limit \<and> distinct (map sl_id xs) \<and>
    set xs \<subseteq> as_slice ` {r \<in> set (bd_tasks B). shown_row X n owner r} \<and>
    (length xs < unat limit \<longrightarrow> set xs = as_slice ` {r \<in> set (bd_tasks B). shown_row X n owner r})"
proof -
  let ?T = "bd_tasks B"
  have T: "distinct (map tb_id ?T)" "\<forall>r\<in>set ?T. row_mirrors X r" "tasks_ok X ?T"
    using inv by (auto simp: board_inv_def tasks_ok_def)
  let ?due = "sql_limit limit (sort_key due_order (sort_key tb_id (filter (due_row X n owner) ?T)))"
  let ?blocked = "sql_limit limit (sort_key tb_created_at (sort_key tb_id (filter (blocked_row X owner) ?T)))"
  let ?asked = "sql_limit limit (sort_key tb_created_at (sort_key tb_id (filter (asked_row X owner) ?T)))"
  note q = limited_query[OF lim T(1,2) _ P]
  have m: "mset (sort_key f (sort_key g xs)) = mset xs" for f :: "task_row \<Rightarrow> int" and g :: "task_row \<Rightarrow> string" and xs by simp
  note due = q[OF m[of due_order tb_id "filter (due_row X n owner) ?T"]]
    and blocked = q[OF m[of tb_created_at tb_id "filter (blocked_row X owner) ?T"]]
    and asked = q[OF m[of tb_created_at tb_id "filter (asked_row X owner) ?T"]]
  have mirrors: "\<forall>r\<in>set rs. row_mirrors X r" if "set rs \<subseteq> {r \<in> set ?T. p r}" for rs p using that T(2) by blast
  let ?rows = "?due @ ?blocked @ ?asked" and ?S = "{r \<in> set ?T. shown_row X n owner r}"
  have "slice_chain X P time owner limit B = Inr (map as_slice ?rows)"
    using collect_slices_total[OF P mirrors[OF due(1)]] collect_slices_total[OF P mirrors[OF blocked(1)]]
      collect_slices_total[OF P mirrors[OF asked(1)]]
    by (simp add: slice_chain_def tasks_due_now_def blocked_tasks_def asked_about_tasks_def t)
  moreover have sub: "set ?rows \<subseteq> ?S" using due(1) blocked(1) asked(1) by (auto simp: shown_row_def)
  let ?F = "firsts {} (map as_slice ?rows)"
  have F: "set ?F = as_slice ` set ?rows"
  proof
    show "set ?F \<subseteq> as_slice ` set ?rows" using firsts_subset[of "{}" "map as_slice ?rows"] by auto
    show "as_slice ` set ?rows \<subseteq> set ?F"
    proof
      fix x assume "x \<in> as_slice ` set ?rows"
      then obtain r where r: "r \<in> set ?rows" "x = as_slice r" by blast
      then have "sl_id x \<in> sl_id ` set ?F" by (auto simp: firsts_ids)
      then obtain y where y: "y \<in> set ?F" "sl_id y = sl_id x" by auto
      with firsts_subset[of "{}" "map as_slice ?rows"] obtain s where s: "s \<in> set ?rows" "y = as_slice s" by auto
      with r y sub slice_of_id[OF T(3), of s r] show "x \<in> set ?F" by auto
    qed
  qed
  have full: "unat limit \<le> length ?F" if "length rs \<ge> unat limit" "rs \<in> {?due, ?blocked, ?asked}" for rs
  proof -
    have "distinct (map sl_id (map as_slice rs))" using that(2) due(2) blocked(2) asked(2) by auto
    moreover have "set (map as_slice rs) \<subseteq> set (map as_slice ?rows)" using that(2) by auto
    ultimately have "length (map as_slice rs) \<le> length ?F" by (rule length_firsts)
    with that(1) show ?thesis by simp
  qed
  have all: "set ?rows = ?S" if "length ?F < unat limit"
  proof -
    have "length rs < unat limit" if "rs \<in> {?due, ?blocked, ?asked}" for rs
      using full[OF _ that] \<open>length ?F < unat limit\<close> by linarith
    then show ?thesis using due(3) blocked(3) asked(3) by (auto simp: shown_row_def)
  qed
  have "master_loop (unat limit) [] {} (map as_slice ?rows) = take (unat limit) ?F"
  proof (cases "unat limit = 0")
    case True
    then have "limit = 0" by (simp add: unat_eq_0)
    then show ?thesis by (simp add: sql_limit_def)
  qed (simp add: master_loop_firsts)
  ultimately have "master_slice X P time owner limit B = Inr (take (unat limit) ?F)" by (simp add: master_slice_def)
  moreover have "distinct (map sl_id (take (unat limit) ?F))" by (metis distinct_take firsts_distinct take_map)
  moreover have "set (take (unat limit) ?F) \<subseteq> as_slice ` ?S" using F sub set_take_subset[of "unat limit" ?F] by blast
  moreover have "set (take (unat limit) ?F) = as_slice ` ?S" if "length (take (unat limit) ?F) < unat limit"
  proof -
    from that have "length ?F < unat limit" by simp
    with all F show ?thesis by simp
  qed
  ultimately show ?thesis by (intro exI[of _ "take (unat limit) ?F"]) simp
qed

text \<open>
  On a reachable board, for a bound that fits a signed 64-bit integer and a time in range, the
  slice for an owner succeeds; it has at most that many entries, no task twice, and every entry is
  the slice of a task of that owner that is due, blocked or asked about and unfinished. When it has
  fewer entries than the bound, no such task is missing.\<close>

theorem master_slice_exact:
  assumes "wf_parsers X P" "board_run X P B" "0 \<le> sint limit" "epoch_nanos time = Inr n"
  shows "\<exists>xs. master_slice X P time owner limit B = Inr xs \<and> length xs \<le> unat limit \<and> distinct (map sl_id xs) \<and>
    set xs \<subseteq> as_slice ` {r \<in> set (bd_tasks B). shown_row X n owner r} \<and>
    (length xs < unat limit \<longrightarrow> set xs = as_slice ` {r \<in> set (bd_tasks B). shown_row X n owner r})"
  by (rule master_slice_total[OF board_run_inv[OF assms(2)] assms(1,3,4)])

theorem master_slice_exact_witness:
  "\<exists>xs. master_slice ex_run_ext ex_parsers 60 7 5 ex_board = Inr xs \<and> length xs \<le> 5 \<and>
     (length xs < 5 \<longrightarrow> set xs = {as_slice (ex_row 1 []), as_slice (ex_row 2 [1])})"
proof -
  have "{r \<in> set (bd_tasks ex_board). shown_row ex_run_ext 60 7 r} = {ex_row 1 [], ex_row 2 [1]}"
    by (auto simp: ex_board_def shown_row_def due_row_def ex_row_def)
  then show ?thesis
    using master_slice_exact[OF wf_ex_run(3) ex_board_run, of 5 60 60 7] by (auto simp: epoch_nanos_def)
qed

section \<open>Budgets\<close>

text \<open>The requests that consume a budget, with the maximum the grant allows.\<close>

datatype budget_request = OneCall ulid u32 | ManyCalls ulid u32 u32 | OnePut ulid u32

definition request_of :: "ext \<Rightarrow> budget_request \<Rightarrow> board \<Rightarrow> (board_error + bool) \<times> board" where
  "request_of X q = (case q of OneCall g cap \<Rightarrow> try_count_model_call X g cap
     | ManyCalls g n cap \<Rightarrow> try_count_model_calls X g n cap | OnePut g cap \<Rightarrow> try_count_artifact_put X g cap)"

definition model_calls :: "ext \<Rightarrow> ulid \<Rightarrow> board \<Rightarrow> int" where
  "model_calls X g B = (case find (\<lambda>c. gc_grant_id c = ulid_text X g) (bd_counters B) of
     None \<Rightarrow> 0 | Some c \<Rightarrow> gc_model_calls c)"

definition artifact_puts :: "ext \<Rightarrow> ulid \<Rightarrow> board \<Rightarrow> int" where
  "artifact_puts X g B = (case find (\<lambda>c. gc_grant_id c = ulid_text X g) (bd_counters B) of
     None \<Rightarrow> 0 | Some c \<Rightarrow> gc_artifact_puts c)"

text \<open>What a granted request adds to the counts of calls and of writes.\<close>

definition calls_asked :: "ulid \<Rightarrow> budget_request \<Rightarrow> int" where
  "calls_asked g q = (case q of OneCall h _ \<Rightarrow> (if h = g then 1 else 0)
     | ManyCalls h n _ \<Rightarrow> (if h = g then uint n else 0) | OnePut h _ \<Rightarrow> 0)"

definition puts_asked :: "ulid \<Rightarrow> budget_request \<Rightarrow> int" where
  "puts_asked g q = (case q of OnePut h _ \<Rightarrow> (if h = g then 1 else 0) | _ \<Rightarrow> 0)"

definition request_allowed :: "ext \<Rightarrow> budget_request \<Rightarrow> board \<Rightarrow> bool" where
  "request_allowed X q B = (case q of OneCall g cap \<Rightarrow> model_calls X g B + 1 \<le> uint cap
     | ManyCalls g n cap \<Rightarrow> 0 < uint n \<and> model_calls X g B + uint n \<le> uint cap
     | OnePut g cap \<Rightarrow> artifact_puts X g B + 1 \<le> uint cap)"

lemma upsert_counter_find:
  assumes "upsert_counter i c ok f B = (res, B')" "gc_grant_id c = i" "\<And>c. gc_grant_id (f c) = gc_grant_id c"
  shows "find (\<lambda>c. gc_grant_id c = j) (bd_counters B') = (case find (\<lambda>c. gc_grant_id c = j) (bd_counters B) of
      None \<Rightarrow> if j = i then Some c else None
    | Some d \<Rightarrow> Some (if j = i \<and> ok d then f d else d))"
    "res = Inr (case find (\<lambda>c. gc_grant_id c = i) (bd_counters B) of None \<Rightarrow> True | Some d \<Rightarrow> ok d)"
proof -
  have snoc: "find (\<lambda>c. gc_grant_id c = j) (C @ [c]) = (case find (\<lambda>c. gc_grant_id c = j) C of
      None \<Rightarrow> if j = i then Some c else None | Some d \<Rightarrow> Some d)" for C j
    using assms(2) by (induction C) auto
  have upd: "find (\<lambda>c. gc_grant_id c = j) (map (\<lambda>c. if gc_grant_id c = i then f c else c) C) =
      map_option (\<lambda>c. if gc_grant_id c = i then f c else c) (find (\<lambda>c. gc_grant_id c = j) C)" for C j
    by (rule find_map_key) (simp add: assms(3))
  have hit: "find (\<lambda>c. gc_grant_id c = j) C = Some d \<Longrightarrow> gc_grant_id d = j" for C :: "counter_row list" and j d
    by (rule find_hit(2))
  show "res = Inr (case find (\<lambda>c. gc_grant_id c = i) (bd_counters B) of None \<Rightarrow> True | Some d \<Rightarrow> ok d)"
    using assms(1) by (auto simp: upsert_counter_def split: option.splits if_splits)
  show "find (\<lambda>c. gc_grant_id c = j) (bd_counters B') = (case find (\<lambda>c. gc_grant_id c = j) (bd_counters B) of
      None \<Rightarrow> if j = i then Some c else None | Some d \<Rightarrow> Some (if j = i \<and> ok d then f d else d))"
    using assms(1) by (auto simp: upsert_counter_def snoc upd dest: hit split: option.splits if_splits)
qed

text \<open>One statement decides and counts: a request is granted exactly when it fits, and then costs what it asks.\<close>

lemma counts_nonneg:
  assumes "\<And>c. c \<in> set (bd_counters B) \<Longrightarrow> 0 \<le> gc_model_calls c \<and> 0 \<le> gc_artifact_puts c"
  shows "0 \<le> model_calls X g B" "0 \<le> artifact_puts X g B"
  using assms by (auto simp: model_calls_def artifact_puts_def dest: find_hit(1) split: option.split)

lemma request_exact:
  assumes P: "wf_parsers X P" and r: "request_of X q B = (res, B')"
    and pos: "\<And>c. c \<in> set (bd_counters B) \<Longrightarrow> 0 \<le> gc_model_calls c \<and> 0 \<le> gc_artifact_puts c"
  shows "res = Inr (request_allowed X q B)"
    "model_calls X g B' = model_calls X g B + (if request_allowed X q B then calls_asked g q else 0)"
    "artifact_puts X g B' = artifact_puts X g B + (if request_allowed X q B then puts_asked g q else 0)"
proof -
  note nn = counts_nonneg[of B X, OF pos]
  note simps = request_of_def request_allowed_def calls_asked_def puts_asked_def model_calls_def artifact_puts_def
    ulid_text_inj[OF P]
  have "res = Inr (request_allowed X q B) \<and>
    model_calls X g B' = model_calls X g B + (if request_allowed X q B then calls_asked g q else 0) \<and>
    artifact_puts X g B' = artifact_puts X g B + (if request_allowed X q B then puts_asked g q else 0)"
  proof (cases q)
    case (OneCall h cap)
    show ?thesis
    proof (cases "cap = 0")
      case True
      then show ?thesis using r nn(1)[of h] by (auto simp: OneCall request_of_def try_count_model_call_def request_allowed_def)
    next
      case False
      then have cap: "0 < uint cap" by (metis uint_0_iff uint_ge_0 le_less)
      from False r have "upsert_counter (ulid_text X h) \<lparr>gc_grant_id = ulid_text X h, gc_model_calls = 1, gc_artifact_puts = 0\<rparr>
        (\<lambda>c. gc_model_calls c < uint cap) (\<lambda>c. c\<lparr>gc_model_calls := gc_model_calls c + 1\<rparr>) B = (res, B')"
        by (simp add: OneCall request_of_def try_count_model_call_def)
      from upsert_counter_find[OF this] cap show ?thesis
        by (auto simp: OneCall simps split: option.splits)
    qed
  next
    case (ManyCalls h n cap)
    show ?thesis
    proof (cases "n = 0 \<or> n > cap")
      case True
      then show ?thesis using r nn(1)[of h]
        by (auto simp: ManyCalls request_of_def try_count_model_calls_def request_allowed_def word_less_def)
    next
      case False
      then have n: "0 < uint n" "uint n \<le> uint cap"
        by (auto simp: word_less_def word_le_def not_less) (metis uint_0_iff uint_ge_0 le_less)
      from False r have "upsert_counter (ulid_text X h) \<lparr>gc_grant_id = ulid_text X h, gc_model_calls = uint n, gc_artifact_puts = 0\<rparr>
        (\<lambda>c. gc_model_calls c + uint n \<le> uint cap) (\<lambda>c. c\<lparr>gc_model_calls := gc_model_calls c + uint n\<rparr>) B = (res, B')"
        by (simp add: ManyCalls request_of_def try_count_model_calls_def)
      from upsert_counter_find[OF this] n show ?thesis
        by (auto simp: ManyCalls simps split: option.splits)
    qed
  next
    case (OnePut h cap)
    show ?thesis
    proof (cases "cap = 0")
      case True
      then show ?thesis using r nn(2)[of h] by (auto simp: OnePut request_of_def try_count_artifact_put_def request_allowed_def)
    next
      case False
      then have cap: "0 < uint cap" by (metis uint_0_iff uint_ge_0 le_less)
      from False r have "upsert_counter (ulid_text X h) \<lparr>gc_grant_id = ulid_text X h, gc_model_calls = 0, gc_artifact_puts = 1\<rparr>
        (\<lambda>c. gc_artifact_puts c < uint cap) (\<lambda>c. c\<lparr>gc_artifact_puts := gc_artifact_puts c + 1\<rparr>) B = (res, B')"
        by (simp add: OnePut request_of_def try_count_artifact_put_def)
      from upsert_counter_find[OF this] cap show ?thesis
        by (auto simp: OnePut simps split: option.splits)
    qed
  qed
  then show "res = Inr (request_allowed X q B)"
    "model_calls X g B' = model_calls X g B + (if request_allowed X q B then calls_asked g q else 0)"
    "artifact_puts X g B' = artifact_puts X g B + (if request_allowed X q B then puts_asked g q else 0)"
    by blast+
qed

fun run_requests :: "ext \<Rightarrow> budget_request list \<Rightarrow> board \<Rightarrow> (board_error + bool) list \<times> board" where
  "run_requests X [] B = ([], B)"
| "run_requests X (q # qs) B =
     (let (r, B1) = request_of X q B; (rs, B2) = run_requests X qs B1 in (r # rs, B2))"

definition granted :: "budget_request list \<Rightarrow> (board_error + bool) list \<Rightarrow> budget_request list" where
  "granted qs rs = map fst (filter (\<lambda>(q, r). r = Inr True) (zip qs rs))"

text \<open>Every request for the grant carries the maximum the grant was issued with.\<close>

definition at_limits :: "ulid \<Rightarrow> u32 \<Rightarrow> u32 \<Rightarrow> budget_request \<Rightarrow> bool" where
  "at_limits g max_calls max_puts q = (case q of OneCall h cap \<Rightarrow> h = g \<longrightarrow> cap = max_calls
     | ManyCalls h _ cap \<Rightarrow> h = g \<longrightarrow> cap = max_calls | OnePut h cap \<Rightarrow> h = g \<longrightarrow> cap = max_puts)"

lemma allowed_bound:
  assumes "request_allowed X q B" "at_limits g max_calls max_puts q"
  shows "model_calls X g B \<le> uint max_calls \<Longrightarrow> model_calls X g B + calls_asked g q \<le> uint max_calls"
    "artifact_puts X g B \<le> uint max_puts \<Longrightarrow> artifact_puts X g B + puts_asked g q \<le> uint max_puts"
  using assms by (auto simp: request_allowed_def at_limits_def calls_asked_def puts_asked_def split: budget_request.splits)

lemma request_step: "board_inv X B \<Longrightarrow> request_of X q B = (res, B') \<Longrightarrow> board_inv X B'"
  by (cases q) (simp_all add: request_of_def, (erule (1) board_inv_count)+)

lemma board_inv_counts:
  "board_inv X B \<Longrightarrow> c \<in> set (bd_counters B) \<Longrightarrow> 0 \<le> gc_model_calls c \<and> 0 \<le> gc_artifact_puts c"
  by (simp add: board_inv_def grants_ok_def)

lemma run_requests_exact:
  assumes P: "wf_parsers X P"
  shows "board_inv X B \<Longrightarrow> run_requests X qs B = (rs, B') \<Longrightarrow> list_all (at_limits g max_calls max_puts) qs \<Longrightarrow>
    model_calls X g B \<le> uint max_calls \<Longrightarrow> artifact_puts X g B \<le> uint max_puts \<Longrightarrow>
    model_calls X g B' = model_calls X g B + (\<Sum>q\<leftarrow>granted qs rs. calls_asked g q) \<and>
    artifact_puts X g B' = artifact_puts X g B + (\<Sum>q\<leftarrow>granted qs rs. puts_asked g q) \<and>
    model_calls X g B' \<le> uint max_calls \<and> artifact_puts X g B' \<le> uint max_puts"
proof (induction qs arbitrary: B rs)
  case (Cons q qs)
  obtain r B1 where r: "request_of X q B = (r, B1)" by fastforce
  from Cons.prems(2) r obtain rs1 where rs1: "run_requests X qs B1 = (rs1, B')" and eq: "rs = r # rs1"
    by (auto split: prod.splits)
  note ex = request_exact(1)[OF P r board_inv_counts[OF Cons.prems(1)]]
    request_exact(2,3)[OF P r board_inv_counts[OF Cons.prems(1)], of g]
  have "model_calls X g B1 \<le> uint max_calls" "artifact_puts X g B1 \<le> uint max_puts"
    using ex(2,3) Cons.prems(3-5) allowed_bound[of X q B g max_calls max_puts] by auto
  with Cons.IH[OF request_step[OF Cons.prems(1) r] rs1] Cons.prems(3) ex
  show ?case by (simp add: eq granted_def)
qed (simp add: granted_def)

text \<open>
  C29. However requests for model calls and artifact writes of any grants interleave, the counts of a
  grant grow by exactly what its granted requests asked for, and stay within the limits of the grant
  as long as each request carries them: no sequence of calls overspends a budget, and a refused
  request costs nothing.\<close>

theorem grant_budget_bounded:
  assumes "wf_parsers X P" "board_run X P B" "run_requests X qs B = (rs, B')"
    and "list_all (at_limits g max_calls max_puts) qs"
    and "model_calls X g B \<le> uint max_calls" "artifact_puts X g B \<le> uint max_puts"
  shows "model_calls X g B' = model_calls X g B + (\<Sum>q\<leftarrow>granted qs rs. calls_asked g q) \<and>
    artifact_puts X g B' = artifact_puts X g B + (\<Sum>q\<leftarrow>granted qs rs. puts_asked g q) \<and>
    model_calls X g B' \<le> uint max_calls \<and> artifact_puts X g B' \<le> uint max_puts"
  by (rule run_requests_exact[OF assms(1) board_run_inv[OF assms(2)] assms(3-6)])

theorem grant_budget_bounded_witness:
  "\<exists>rs B'. run_requests ex_run_ext [OneCall 1 2, ManyCalls 1 2 2, OneCall 3 9, OneCall 1 2, OneCall 1 2] ex_board = (rs, B') \<and>
     rs = [Inr True, Inr False, Inr True, Inr True, Inr False] \<and> model_calls ex_run_ext 1 B' = 2"
proof -
  let ?qs = "[OneCall 1 2, ManyCalls 1 2 2, OneCall 3 9, OneCall 1 2, OneCall 1 2]"
  obtain rs B' where r: "run_requests ex_run_ext ?qs ex_board = (rs, B')" by fastforce
  have none: "model_calls ex_run_ext 1 ex_board = 0" "artifact_puts ex_run_ext 1 ex_board = 0"
    by (simp_all add: model_calls_def artifact_puts_def ex_board_def empty_board_def)
  have rs: "rs = [Inr True, Inr False, Inr True, Inr True, Inr False]"
    using r by (auto simp: request_of_def try_count_model_call_def try_count_model_calls_def upsert_counter_def ex_board_def
        empty_board_def ex_run_text_eq)
  have "list_all (at_limits 1 2 2) ?qs" by (simp add: at_limits_def)
  from grant_budget_bounded[OF wf_ex_run(3) ex_board_run r this] none rs
  have "model_calls ex_run_ext 1 B' = 2" by (simp add: granted_def calls_asked_def)
  with r rs show ?thesis by blast
qed

end
