(* ===== verification/Owner_Review.thy ===== *)
theory Owner_Review
  imports Standing_Rules Audit_Ledger
begin

text \<open>
  Delegation evidence and the owner review of a proposal
  (\<open>src/crates/openspine-schemas/src/delegation_evidence.rs\<close>, \<open>owner_review.rs\<close> and
  \<open>owner_review_narrow.rs\<close>). A \<open>BTreeSet\<close> of decisions or controls is a set, listed in the order of
  the enumeration when it is serialized. A list of evidence has fewer than \<open>usize::MAX\<close> entries.
\<close>

section \<open>Evidence\<close>

datatype evidence_kind =
  RepeatedApprovals_kind | ExplicitOwnerRequest_kind | CorrectionOrWorkflowProposal_kind | ManuallySuppliedArtifact_kind

record owner_approval_evidence =
  oe_decision_event_id :: ulid
  oe_owner_principal_id :: ulid
  oe_request_digest :: digest
  oe_target_digest :: digest
  oe_payload_digest :: digest

datatype delegation_evidence =
    RepeatedApprovals u32 digest digest u32 "owner_approval_evidence list"
      \<comment> \<open>schema version, context class, evidence set, count, approvals\<close>
  | ExplicitOwnerRequest u32 ulid ulid digest
  | CorrectionOrWorkflowProposal u32 ulid digest "ulid list"
  | ManuallySuppliedArtifact u32 ulid artifact_ref digest

datatype delegation_evidence_error =
    TooFewApprovals nat
  | DuplicateDecisionEvent ulid
  | MixedOwnerPrincipals
  | MixedRequestDigests
  | ApprovalCountOverflow

fun first_duplicate :: "ulid set \<Rightarrow> ulid list \<Rightarrow> ulid option" where
  "first_duplicate seen [] = None"
| "first_duplicate seen (i # is) = (if i \<in> seen then Some i else first_duplicate (insert i seen) is)"

definition approval_json :: "ext \<Rightarrow> owner_approval_evidence \<Rightarrow> json" where
  "approval_json X a = JObject
     [(''decision_event_id'', JString (ulid_text X (oe_decision_event_id a))),
      (''owner_principal_id'', JString (ulid_text X (oe_owner_principal_id a))),
      (''request_digest'', JString (digest_str (oe_request_digest a))),
      (''target_digest'', JString (digest_str (oe_target_digest a))),
      (''payload_digest'', JString (digest_str (oe_payload_digest a)))]"

definition evidence_digest_of :: "ext \<Rightarrow> digest \<Rightarrow> owner_approval_evidence list \<Rightarrow> digest" where
  "evidence_digest_of X context_class approvals = digest_of X (JObject
     [(''schema_version'', jnum 1), (''kind'', JString ''repeated_approvals''),
      (''context_class_digest'', JString (digest_str context_class)),
      (''approvals'', JArray (map (approval_json X) approvals))])"

definition repeated_approvals ::
  "ext \<Rightarrow> digest \<Rightarrow> owner_approval_evidence list \<Rightarrow> delegation_evidence_error + delegation_evidence" where
  "repeated_approvals X context_class given =
     (if length given < 2 then Inl (TooFewApprovals (length given))
      else
        let approvals = sort_key oe_decision_event_id given in
        (case first_duplicate {} (map oe_decision_event_id approvals) of
           Some i \<Rightarrow> Inl (DuplicateDecisionEvent i)
         | None \<Rightarrow>
             if list_ex (\<lambda>a. oe_owner_principal_id a \<noteq> oe_owner_principal_id (hd approvals)) approvals
             then Inl MixedOwnerPrincipals
             else if list_ex (\<lambda>a. oe_request_digest a \<noteq> oe_request_digest (hd approvals)) approvals
             then Inl MixedRequestDigests
             else if \<not> length approvals < 2 ^ 32 then Inl ApprovalCountOverflow
             else Inr (RepeatedApprovals 1 context_class (evidence_digest_of X context_class approvals)
                    (word_of_nat (length approvals)) approvals)))"

definition integrity_is_valid :: "ext \<Rightarrow> delegation_evidence \<Rightarrow> bool" where
  "integrity_is_valid X e = (case e of
     RepeatedApprovals v context_class _ _ approvals \<Rightarrow> v = 1 \<and> repeated_approvals X context_class approvals = Inr e
   | ExplicitOwnerRequest v _ _ _ \<Rightarrow> v = 1
   | CorrectionOrWorkflowProposal v _ _ _ \<Rightarrow> v = 1
   | ManuallySuppliedArtifact v _ _ _ \<Rightarrow> v = 1)"

fun kind_of_evidence :: "delegation_evidence \<Rightarrow> evidence_kind" where
  "kind_of_evidence (RepeatedApprovals _ _ _ _ _) = RepeatedApprovals_kind"
| "kind_of_evidence (ExplicitOwnerRequest _ _ _ _) = ExplicitOwnerRequest_kind"
| "kind_of_evidence (CorrectionOrWorkflowProposal _ _ _ _) = CorrectionOrWorkflowProposal_kind"
| "kind_of_evidence (ManuallySuppliedArtifact _ _ _ _) = ManuallySuppliedArtifact_kind"

definition supports_pattern_claim :: "delegation_evidence \<Rightarrow> bool" where
  "supports_pattern_claim e = (case e of RepeatedApprovals _ _ _ _ _ \<Rightarrow> True | _ \<Rightarrow> False)"

definition approval_count :: "delegation_evidence \<Rightarrow> u32 option" where
  "approval_count e = (case e of RepeatedApprovals _ _ _ n _ \<Rightarrow> Some n | _ \<Rightarrow> None)"

definition evidence_set_digest :: "delegation_evidence \<Rightarrow> digest option" where
  "evidence_set_digest e = (case e of RepeatedApprovals _ _ d _ _ \<Rightarrow> Some d | _ \<Rightarrow> None)"

definition evidence_context_class :: "delegation_evidence \<Rightarrow> digest option" where
  "evidence_context_class e = (case e of RepeatedApprovals _ d _ _ _ \<Rightarrow> Some d | _ \<Rightarrow> None)"

fun provenance_digest :: "delegation_evidence \<Rightarrow> digest" where
  "provenance_digest (RepeatedApprovals _ _ d _ _) = d"
| "provenance_digest (ExplicitOwnerRequest _ _ _ d) = d"
| "provenance_digest (CorrectionOrWorkflowProposal _ _ d _) = d"
| "provenance_digest (ManuallySuppliedArtifact _ _ _ d) = d"

fun evidence_count :: "delegation_evidence \<Rightarrow> u32" where
  "evidence_count (RepeatedApprovals _ _ _ n _) = n"
| "evidence_count (CorrectionOrWorkflowProposal _ _ _ ids) =
     (if length ids < 2 ^ 32 then word_of_nat (length ids) else - 1)"
| "evidence_count (ExplicitOwnerRequest _ _ _ _) = 1"
| "evidence_count (ManuallySuppliedArtifact _ _ _ _) = 1"

section \<open>The review object\<close>

datatype proposal_kind = Responsibility_proposal | StandingRule_proposal | WorkflowCorrection_proposal | ManualArtifact_proposal

record proposal_provenance =
  prov_schema_version :: u32
  prov_kind :: evidence_kind
  prov_summary :: string
  prov_evidence_digest :: digest
  prov_evidence_count :: u32

definition provenance_summary :: "delegation_evidence \<Rightarrow> string" where
  "provenance_summary e = (case kind_of_evidence e of
     RepeatedApprovals_kind \<Rightarrow> u32_text (evidence_count e) @ '' matching owner approvals''
   | ExplicitOwnerRequest_kind \<Rightarrow> ''Explicit owner request''
   | CorrectionOrWorkflowProposal_kind \<Rightarrow> ''Correction or workflow proposal''
   | ManuallySuppliedArtifact_kind \<Rightarrow> ''Manually supplied artifact'')"

definition try_from_evidence :: "ext \<Rightarrow> delegation_evidence \<Rightarrow> proposal_provenance option" where
  "try_from_evidence X e =
     (if \<not> integrity_is_valid X e then None
      else Some \<lparr>prov_schema_version = 1, prov_kind = kind_of_evidence e, prov_summary = provenance_summary e,
        prov_evidence_digest = provenance_digest e, prov_evidence_count = evidence_count e\<rparr>)"

record review_limits =
  rvl_quota :: budget_window
  rvl_rate :: budget_window
  rvl_expires_after_secs :: int

datatype boundary_behavior = RequireApproval_boundary | Deny_boundary

record review_fallback_behavior =
  rvf_scope_mismatch :: boundary_behavior
  rvf_compatibility_drift :: boundary_behavior
  rvf_budget_exhaustion :: boundary_behavior
  rvf_timeout :: boundary_behavior

datatype owner_review_decision = ApproveDecision | RejectDecision | NarrowDecision | EditDecision

datatype lifecycle_control = PauseControl | ResumeControl | ExpireControl | RevokeControl

datatype owner_review_state = PendingReview | ApprovedReview | RejectedReview | NarrowedReview | RevokedReview | ExpiredReview

definition review_can_transition :: "owner_review_state \<Rightarrow> owner_review_state \<Rightarrow> bool" where
  "review_can_transition before after \<longleftrightarrow> (before, after) \<in>
     {(PendingReview, ApprovedReview), (PendingReview, RejectedReview), (PendingReview, NarrowedReview),
      (PendingReview, ExpiredReview), (NarrowedReview, ApprovedReview), (NarrowedReview, RejectedReview),
      (NarrowedReview, NarrowedReview), (NarrowedReview, ExpiredReview), (ApprovedReview, ExpiredReview),
      (RejectedReview, ExpiredReview), (RevokedReview, ExpiredReview), (PendingReview, RevokedReview),
      (NarrowedReview, RevokedReview), (ApprovedReview, RevokedReview), (RejectedReview, RevokedReview)}"

datatype decision_intent =
    Approve_intent | Reject_intent | Narrow_intent | Edit_intent | Pause_intent | Resume_intent
  | Expire_intent | Revoke_intent | Inspect_intent

fun as_decision :: "decision_intent \<Rightarrow> owner_review_decision option" where
  "as_decision Approve_intent = Some ApproveDecision"
| "as_decision Reject_intent = Some RejectDecision"
| "as_decision Narrow_intent = Some NarrowDecision"
| "as_decision Edit_intent = Some EditDecision"
| "as_decision _ = None"

fun as_control :: "decision_intent \<Rightarrow> lifecycle_control option" where
  "as_control Pause_intent = Some PauseControl"
| "as_control Resume_intent = Some ResumeControl"
| "as_control Expire_intent = Some ExpireControl"
| "as_control Revoke_intent = Some RevokeControl"
| "as_control _ = None"

definition is_read_only :: "decision_intent \<Rightarrow> bool" where
  "is_read_only i \<longleftrightarrow> i = Inspect_intent"

definition is_permitted :: "decision_intent \<Rightarrow> owner_review_decision set \<Rightarrow> lifecycle_control set \<Rightarrow> bool" where
  "is_permitted i decisions controls \<longleftrightarrow>
     (if is_read_only i then True
      else if i \<in> {Approve_intent, Reject_intent, Narrow_intent, Edit_intent}
      then (case as_decision i of None \<Rightarrow> False | Some d \<Rightarrow> d \<in> decisions)
      else if i \<in> {Pause_intent, Resume_intent, Expire_intent, Revoke_intent}
      then (case as_control i of None \<Rightarrow> False | Some c \<Rightarrow> c \<in> controls)
      else True)"

record review_evaluation_epochs =
  rve_proposal_digest :: "digest option"
  rve_compatibility_digest :: "digest option"
  rve_reviewed_scope_digest :: "digest option"
  rve_evidence_set_digest :: "digest option"
  rve_descriptor_version :: "u32 option"
  rve_implementation_version :: "u32 option"
  rve_policy_version :: "u32 option"

record review_evaluation_binding =
  rvb_artifact_kind :: string
  rvb_artifact_id :: string
  rvb_artifact_version :: u32
  rvb_proposal_digest :: digest
  rvb_action_request_id :: ulid
  rvb_replay_verdict_id :: ulid
  rvb_judge_verdict_id :: ulid
  rvb_epochs :: review_evaluation_epochs

record owner_review_input =
  rvi_id :: ulid
  rvi_schema_version :: u32
  rvi_review_version :: u32
  rvi_proposal_kind :: proposal_kind
  rvi_evidence :: delegation_evidence
  rvi_title :: string
  rvi_description :: string
  rvi_reviewed_scope :: reviewed_action_scope
  rvi_automatic_effects :: "string list"
  rvi_remaining_boundaries :: "string list"
  rvi_limits :: review_limits
  rvi_fallback_behavior :: review_fallback_behavior
  rvi_proposal_digest :: digest
  rvi_compatibility_digest :: digest
  rvi_available_decisions :: "owner_review_decision set"
  rvi_lifecycle_controls :: "lifecycle_control set"
  rvi_evaluation_binding :: "review_evaluation_binding option"

record owner_review_request =
  rvr_id :: ulid
  rvr_schema_version :: u32
  rvr_review_version :: u32
  rvr_proposal_kind :: proposal_kind
  rvr_provenance :: proposal_provenance
  rvr_title :: string
  rvr_description :: string
  rvr_reviewed_scope :: reviewed_action_scope
  rvr_automatic_effects :: "string list"
  rvr_remaining_boundaries :: "string list"
  rvr_limits :: review_limits
  rvr_fallback_behavior :: review_fallback_behavior
  rvr_proposal_digest :: digest
  rvr_compatibility_digest :: digest
  rvr_available_decisions :: "owner_review_decision set"
  rvr_lifecycle_controls :: "lifecycle_control set"
  rvr_evaluation_binding :: "review_evaluation_binding option"
  rvr_binding_digest :: digest

section \<open>Its JSON\<close>

fun proposal_kind_name :: "proposal_kind \<Rightarrow> string" where
  "proposal_kind_name Responsibility_proposal = ''responsibility''"
| "proposal_kind_name StandingRule_proposal = ''standing_rule''"
| "proposal_kind_name WorkflowCorrection_proposal = ''workflow_correction''"
| "proposal_kind_name ManualArtifact_proposal = ''manual_artifact''"

fun evidence_kind_name :: "evidence_kind \<Rightarrow> string" where
  "evidence_kind_name RepeatedApprovals_kind = ''repeated_approvals''"
| "evidence_kind_name ExplicitOwnerRequest_kind = ''explicit_owner_request''"
| "evidence_kind_name CorrectionOrWorkflowProposal_kind = ''correction_or_workflow_proposal''"
| "evidence_kind_name ManuallySuppliedArtifact_kind = ''manually_supplied_artifact''"

fun boundary_name :: "boundary_behavior \<Rightarrow> string" where
  "boundary_name RequireApproval_boundary = ''require_approval''"
| "boundary_name Deny_boundary = ''deny''"

fun decision_name :: "owner_review_decision \<Rightarrow> string" where
  "decision_name ApproveDecision = ''approve''"
| "decision_name RejectDecision = ''reject''"
| "decision_name NarrowDecision = ''narrow''"
| "decision_name EditDecision = ''edit''"

fun control_name :: "lifecycle_control \<Rightarrow> string" where
  "control_name PauseControl = ''pause''"
| "control_name ResumeControl = ''resume''"
| "control_name ExpireControl = ''expire''"
| "control_name RevokeControl = ''revoke''"

definition decision_list :: "owner_review_decision set \<Rightarrow> owner_review_decision list" where
  "decision_list S = filter (\<lambda>d. d \<in> S) [ApproveDecision, RejectDecision, NarrowDecision, EditDecision]"

definition control_list :: "lifecycle_control set \<Rightarrow> lifecycle_control list" where
  "control_list S = filter (\<lambda>c. c \<in> S) [PauseControl, ResumeControl, ExpireControl, RevokeControl]"

definition i64_json :: "int \<Rightarrow> json" where
  "i64_json n = JNumber (if n < 0 then NegInt (word_of_int (- n)) else PosInt (word_of_int n))"

definition window_json :: "budget_window \<Rightarrow> json" where
  "window_json w = JObject [(''max'', jnum (bw_max w)), (''window_secs'', i64_json (bw_window_secs w))]"

definition provenance_json :: "proposal_provenance \<Rightarrow> json" where
  "provenance_json p = JObject
     [(''schema_version'', jnum (prov_schema_version p)), (''kind'', JString (evidence_kind_name (prov_kind p))),
      (''summary'', JString (prov_summary p)), (''evidence_digest'', JString (digest_str (prov_evidence_digest p))),
      (''evidence_count'', jnum (prov_evidence_count p))]"

definition scope_json :: "ext \<Rightarrow> reviewed_action_scope \<Rightarrow> json" where
  "scope_json X s = JObject
     [(''schema_version'', jnum (rs_schema_version s)), (''scope_version'', jnum (rs_scope_version s)),
      (''action_id'', JString (as_str (rs_action_id s))), (''descriptor_version'', jnum (rs_descriptor_version s)),
      (''dimensions'', scope_values_json X (rs_dimensions s)),
      (''context_class_digest'', JString (digest_str (rs_context_class_digest s)))]"

definition limits_json :: "review_limits \<Rightarrow> json" where
  "limits_json l = JObject
     [(''quota'', window_json (rvl_quota l)), (''rate'', window_json (rvl_rate l)),
      (''expires_after_secs'', i64_json (rvl_expires_after_secs l))]"

definition fallback_json :: "review_fallback_behavior \<Rightarrow> json" where
  "fallback_json f = JObject
     [(''scope_mismatch'', JString (boundary_name (rvf_scope_mismatch f))),
      (''compatibility_drift'', JString (boundary_name (rvf_compatibility_drift f))),
      (''budget_exhaustion'', JString (boundary_name (rvf_budget_exhaustion f))),
      (''timeout'', JString (boundary_name (rvf_timeout f)))]"

definition epochs_json :: "review_evaluation_epochs \<Rightarrow> json" where
  "epochs_json e = (let d = jopt (\<lambda>d. JString (digest_str d)) in JObject
     [(''proposal_digest'', d (rve_proposal_digest e)), (''compatibility_digest'', d (rve_compatibility_digest e)),
      (''reviewed_scope_digest'', d (rve_reviewed_scope_digest e)), (''evidence_set_digest'', d (rve_evidence_set_digest e)),
      (''descriptor_version'', jopt jnum (rve_descriptor_version e)),
      (''implementation_version'', jopt jnum (rve_implementation_version e)),
      (''policy_version'', jopt jnum (rve_policy_version e))])"

definition evaluation_json :: "ext \<Rightarrow> review_evaluation_binding \<Rightarrow> json" where
  "evaluation_json X b = JObject
     [(''artifact_kind'', JString (rvb_artifact_kind b)), (''artifact_id'', JString (rvb_artifact_id b)),
      (''artifact_version'', jnum (rvb_artifact_version b)), (''proposal_digest'', JString (digest_str (rvb_proposal_digest b))),
      (''action_request_id'', JString (ulid_text X (rvb_action_request_id b))),
      (''replay_verdict_id'', JString (ulid_text X (rvb_replay_verdict_id b))),
      (''judge_verdict_id'', JString (ulid_text X (rvb_judge_verdict_id b))), (''epochs'', epochs_json (rvb_epochs b))]"

text \<open>The serialized review without its binding digest; an absent evaluation binding is skipped.\<close>

definition review_json :: "ext \<Rightarrow> owner_review_request \<Rightarrow> json" where
  "review_json X r = JObject
     ([(''id'', JString (ulid_text X (rvr_id r))), (''schema_version'', jnum (rvr_schema_version r)),
       (''review_version'', jnum (rvr_review_version r)), (''proposal_kind'', JString (proposal_kind_name (rvr_proposal_kind r))),
       (''provenance'', provenance_json (rvr_provenance r)), (''title'', JString (rvr_title r)),
       (''description'', JString (rvr_description r)), (''reviewed_scope'', scope_json X (rvr_reviewed_scope r)),
       (''automatic_effects'', jstrings (rvr_automatic_effects r)),
       (''remaining_boundaries'', jstrings (rvr_remaining_boundaries r)), (''limits'', limits_json (rvr_limits r)),
       (''fallback_behavior'', fallback_json (rvr_fallback_behavior r)),
       (''proposal_digest'', JString (digest_str (rvr_proposal_digest r))),
       (''compatibility_digest'', JString (digest_str (rvr_compatibility_digest r))),
       (''available_decisions'', jstrings (map decision_name (decision_list (rvr_available_decisions r)))),
       (''lifecycle_controls'', jstrings (map control_name (control_list (rvr_lifecycle_controls r))))] @
      (case rvr_evaluation_binding r of None \<Rightarrow> [] | Some b \<Rightarrow> [(''evaluation_binding'', evaluation_json X b)]))"

definition calculate_binding_digest :: "ext \<Rightarrow> owner_review_request \<Rightarrow> digest" where
  "calculate_binding_digest X r = digest_of X (review_json X r)"

definition review_binding_is_valid :: "ext \<Rightarrow> owner_review_request \<Rightarrow> bool" where
  "review_binding_is_valid X r \<longleftrightarrow>
     scope_binding_is_valid X (rvr_reviewed_scope r) \<and> rvr_binding_digest r = calculate_binding_digest X r"

definition bind_review :: "ext \<Rightarrow> owner_review_request \<Rightarrow> owner_review_request" where
  "bind_review X r = r\<lparr>rvr_binding_digest := calculate_binding_digest X r\<rparr>"

section \<open>Making and narrowing a review\<close>

datatype owner_review_error =
    Incomplete_review string
  | InvalidEvidence
  | EvidenceScopeMismatch
  | InvalidReviewedScope_review
  | InvalidLimits
  | LimitsOutOfBounds
  | MissingRequiredDecisions
  | MissingRequiredControls

definition incomplete_field :: "owner_review_input \<Rightarrow> string option" where
  "incomplete_field i = map_option fst (find snd
     [(''schema_version'', rvi_schema_version i = 0), (''review_version'', rvi_review_version i = 0),
      (''title'', str_is_blank (rvi_title i)), (''description'', str_is_blank (rvi_description i)),
      (''automatic_effects'', rvi_automatic_effects i = []), (''remaining_boundaries'', rvi_remaining_boundaries i = [])])"

definition limits_finite :: "review_limits \<Rightarrow> bool" where
  "limits_finite l \<longleftrightarrow> \<not> (bw_max (rvl_quota l) = 0 \<or> bw_window_secs (rvl_quota l) \<le> 0 \<or> bw_max (rvl_rate l) = 0 \<or>
     bw_window_secs (rvl_rate l) \<le> 0 \<or> rvl_expires_after_secs l \<le> 0)"

definition limits_within :: "delegation_policy_bounds \<Rightarrow> review_limits \<Rightarrow> bool" where
  "limits_within p l \<longleftrightarrow> \<not> (\<not> bounds_contains (dp_quota p) (rvl_quota l) \<or> \<not> bounds_contains (dp_rate p) (rvl_rate l) \<or>
     rvl_expires_after_secs l > dp_maximum_lapse_secs p)"

definition review_of_input :: "ext \<Rightarrow> owner_review_input \<Rightarrow> proposal_provenance \<Rightarrow> owner_review_request" where
  "review_of_input X i p = bind_review X
     \<lparr>rvr_id = rvi_id i, rvr_schema_version = rvi_schema_version i, rvr_review_version = rvi_review_version i,
      rvr_proposal_kind = rvi_proposal_kind i, rvr_provenance = p, rvr_title = rvi_title i,
      rvr_description = rvi_description i, rvr_reviewed_scope = rvi_reviewed_scope i,
      rvr_automatic_effects = rvi_automatic_effects i, rvr_remaining_boundaries = rvi_remaining_boundaries i,
      rvr_limits = rvi_limits i, rvr_fallback_behavior = rvi_fallback_behavior i,
      rvr_proposal_digest = rvi_proposal_digest i, rvr_compatibility_digest = rvi_compatibility_digest i,
      rvr_available_decisions = rvi_available_decisions i, rvr_lifecycle_controls = rvi_lifecycle_controls i,
      rvr_evaluation_binding = rvi_evaluation_binding i, rvr_binding_digest = digest_of X JNull\<rparr>"

definition review_try_new ::
  "ext \<Rightarrow> owner_review_input \<Rightarrow> delegation_policy_bounds \<Rightarrow> owner_review_error + owner_review_request" where
  "review_try_new X i policy =
     (case incomplete_field i of
        Some field \<Rightarrow> Inl (Incomplete_review field)
      | None \<Rightarrow>
          if \<not> scope_binding_is_valid X (rvi_reviewed_scope i) then Inl InvalidReviewedScope_review
          else (case try_from_evidence X (rvi_evidence i) of
              None \<Rightarrow> Inl InvalidEvidence
            | Some p \<Rightarrow>
                if (case evidence_context_class (rvi_evidence i) of
                    None \<Rightarrow> False | Some d \<Rightarrow> d \<noteq> rs_context_class_digest (rvi_reviewed_scope i))
                then Inl EvidenceScopeMismatch
                else if \<not> limits_finite (rvi_limits i) then Inl InvalidLimits
                else if \<not> limits_within policy (rvi_limits i) then Inl LimitsOutOfBounds
                else if \<not> list_all (\<lambda>d. d \<in> rvi_available_decisions i) [ApproveDecision, RejectDecision, NarrowDecision]
                then Inl MissingRequiredDecisions
                else if \<not> list_all (\<lambda>c. c \<in> rvi_lifecycle_controls i) [PauseControl, RevokeControl]
                then Inl MissingRequiredControls
                else Inr (review_of_input X i p)))"

definition with_evaluation_binding :: "ext \<Rightarrow> review_evaluation_binding \<Rightarrow> owner_review_request \<Rightarrow> owner_review_request" where
  "with_evaluation_binding X b r = bind_review X (r\<lparr>rvr_evaluation_binding := Some b\<rparr>)"

datatype owner_review_narrow_error = InvalidScope | NotNarrower | ActionChanged | DescriptorChanged | ReusedId

definition saturating_succ :: "u32 \<Rightarrow> u32" where
  "saturating_succ n = (if n = - 1 then n else n + 1)"

definition narrowed_review ::
  "ext \<Rightarrow> ulid \<Rightarrow> reviewed_action_scope \<Rightarrow> owner_review_request \<Rightarrow> owner_review_narrow_error + owner_review_request" where
  "narrowed_review X new_id scope r =
     (if new_id = rvr_id r then Inl ReusedId
      else if \<not> scope_binding_is_valid X scope then Inl InvalidScope
      else if \<not> is_strict_narrowing X (rvr_reviewed_scope r) scope then Inl NotNarrower
      else if rs_action_id scope \<noteq> rs_action_id (rvr_reviewed_scope r) then Inl ActionChanged
      else if rs_descriptor_version scope \<noteq> rs_descriptor_version (rvr_reviewed_scope r) then Inl DescriptorChanged
      else Inr (bind_review X (r\<lparr>rvr_id := new_id, rvr_review_version := saturating_succ (rvr_review_version r),
             rvr_reviewed_scope := scope\<rparr>)))"

end
