(* ===== verification/Review_Contract.thy ===== *)
theory Review_Contract
  imports Owner_Review
begin

text \<open>
  What a review object guarantees: when one can be made at all, and what a chain of narrowings may
  change about it.
\<close>

section \<open>Honest evidence\<close>

definition honest_evidence :: "ext \<Rightarrow> delegation_evidence \<Rightarrow> bool" where
  "honest_evidence X e \<longleftrightarrow> (case e of
     RepeatedApprovals v cls d n approvals \<Rightarrow> v = 1 \<and> 2 \<le> length approvals \<and> length approvals < 2 ^ 32 \<and>
       sorted_wrt (<) (map oe_decision_event_id approvals) \<and>
       (\<exists>owner request. \<forall>a\<in>set approvals. oe_owner_principal_id a = owner \<and> oe_request_digest a = request) \<and>
       n = word_of_nat (length approvals) \<and> d = evidence_digest_of X cls approvals
   | ExplicitOwnerRequest v _ _ _ \<Rightarrow> v = 1
   | CorrectionOrWorkflowProposal v _ _ _ \<Rightarrow> v = 1
   | ManuallySuppliedArtifact v _ _ _ \<Rightarrow> v = 1)"

lemma first_duplicate_None: "first_duplicate seen is = None \<longleftrightarrow> distinct is \<and> set is \<inter> seen = {}"
  by (induction seen "is" rule: first_duplicate.induct) auto

lemma sort_key_fixed: "sort_key f xs = xs \<longleftrightarrow> sorted (map f xs)"
  by (metis sorted_sort_key sort_key_id_if_sorted)

lemma one_value:
  assumes "xs \<noteq> []"
  shows "list_ex (\<lambda>a. f a \<noteq> f (hd xs)) xs \<longleftrightarrow> \<not> (\<exists>v. \<forall>a\<in>set xs. f a = v)"
  using assms hd_in_set[OF assms] unfolding list_ex_iff by metis

lemma repeated_approvals_fixed:
  "repeated_approvals X cls approvals = Inr (RepeatedApprovals 1 cls d n approvals) \<longleftrightarrow>
     2 \<le> length approvals \<and> length approvals < 2 ^ 32 \<and> sorted_wrt (<) (map oe_decision_event_id approvals) \<and>
     (\<exists>owner. \<forall>a\<in>set approvals. oe_owner_principal_id a = owner) \<and>
     (\<exists>request. \<forall>a\<in>set approvals. oe_request_digest a = request) \<and>
     n = word_of_nat (length approvals) \<and> d = evidence_digest_of X cls approvals" (is "?l \<longleftrightarrow> ?r")
proof (cases "sort_key oe_decision_event_id approvals = approvals \<and> 2 \<le> length approvals")
  case True
  then have "approvals \<noteq> []" by auto
  note one = one_value[OF this]
  have "sorted_wrt (<) (map oe_decision_event_id approvals) \<longleftrightarrow> distinct (map oe_decision_event_id approvals)"
    using True sort_key_fixed strict_sorted_iff by metis
  then show ?thesis
    using True by (cases "first_duplicate {} (map oe_decision_event_id approvals)")
      (auto simp: repeated_approvals_def Let_def one dest: first_duplicate_None[THEN iffD1]
        simp flip: first_duplicate_None[of "{}", simplified])
next
  case False
  then have "\<not> ?r" by (auto simp: sort_key_fixed strict_sorted_iff)
  moreover have "\<not> ?l"
    using False by (auto simp: repeated_approvals_def Let_def split: option.splits if_splits)
  ultimately show ?thesis by blast
qed

lemma integrity_honest: "integrity_is_valid X e \<longleftrightarrow> honest_evidence X e"
proof (cases e)
  case (RepeatedApprovals v cls d n approvals)
  have both: "(\<exists>owner. \<forall>a\<in>set approvals. oe_owner_principal_id a = owner) \<and>
      (\<exists>request. \<forall>a\<in>set approvals. oe_request_digest a = request) \<longleftrightarrow>
      (\<exists>owner request. \<forall>a\<in>set approvals. oe_owner_principal_id a = owner \<and> oe_request_digest a = request)" by blast
  then show ?thesis
    by (cases "v = 1") (simp_all add: RepeatedApprovals integrity_is_valid_def honest_evidence_def repeated_approvals_fixed both[symmetric])
qed (simp_all add: integrity_is_valid_def honest_evidence_def)

section \<open>When a review can be made\<close>

definition offers_all :: "owner_review_input \<Rightarrow> bool" where
  "offers_all i \<longleftrightarrow> {ApproveDecision, RejectDecision, NarrowDecision} \<subseteq> rvi_available_decisions i \<and>
     {PauseControl, RevokeControl} \<subseteq> rvi_lifecycle_controls i"

definition bounded_limits :: "delegation_policy_bounds \<Rightarrow> review_limits \<Rightarrow> bool" where
  "bounded_limits p l \<longleftrightarrow> (\<forall>w\<in>{rvl_quota l, rvl_rate l}. 0 < bw_max w \<and> 0 < bw_window_secs w) \<and>
     bounds_contains (dp_quota p) (rvl_quota l) \<and> bounds_contains (dp_rate p) (rvl_rate l) \<and>
     0 < rvl_expires_after_secs l \<and> rvl_expires_after_secs l \<le> dp_maximum_lapse_secs p"

lemma limits_split: "limits_finite l \<and> limits_within p l \<longleftrightarrow> bounded_limits p l"
  by (auto simp: limits_finite_def limits_within_def bounded_limits_def word_gt_0)

lemma incomplete_None:
  "incomplete_field i = None \<longleftrightarrow> rvi_schema_version i \<noteq> 0 \<and> rvi_review_version i \<noteq> 0 \<and> \<not> str_is_blank (rvi_title i) \<and>
     \<not> str_is_blank (rvi_description i) \<and> rvi_automatic_effects i \<noteq> [] \<and> rvi_remaining_boundaries i \<noteq> []"
  by (auto simp: incomplete_field_def)

lemma review_try_new_Inr:
  "review_try_new X i policy = Inr r \<longleftrightarrow>
     incomplete_field i = None \<and> scope_binding_is_valid X (rvi_reviewed_scope i) \<and> honest_evidence X (rvi_evidence i) \<and>
     evidence_context_class (rvi_evidence i) \<in> {None, Some (rs_context_class_digest (rvi_reviewed_scope i))} \<and>
     bounded_limits policy (rvi_limits i) \<and> offers_all i \<and>
     (\<exists>p. try_from_evidence X (rvi_evidence i) = Some p \<and> r = review_of_input X i p)"
  unfolding limits_split[symmetric] integrity_honest[symmetric]
  by (auto simp: review_try_new_def offers_all_def try_from_evidence_def split: option.splits)

lemma bind_valid: "scope_binding_is_valid X (rvr_reviewed_scope r) \<Longrightarrow> review_binding_is_valid X (bind_review X r)"
  by (simp add: review_binding_is_valid_def bind_review_def calculate_binding_digest_def review_json_def)

lemma review_of_input_fields:
  "rvr_id (review_of_input X i p) = rvi_id i" "rvr_reviewed_scope (review_of_input X i p) = rvi_reviewed_scope i"
  "rvr_limits (review_of_input X i p) = rvi_limits i" "rvr_proposal_digest (review_of_input X i p) = rvi_proposal_digest i"
  "rvr_compatibility_digest (review_of_input X i p) = rvi_compatibility_digest i"
  "rvr_available_decisions (review_of_input X i p) = rvi_available_decisions i"
  "rvr_lifecycle_controls (review_of_input X i p) = rvi_lifecycle_controls i"
  "rvr_provenance (review_of_input X i p) = p"
  by (simp_all add: review_of_input_def bind_review_def)

lemma review_of_input_valid:
  "scope_binding_is_valid X (rvi_reviewed_scope i) \<Longrightarrow> review_binding_is_valid X (review_of_input X i p)"
  unfolding review_of_input_def by (rule bind_valid) simp

text \<open>
  C25. A review can be made exactly when every field is filled in, the reviewed scope matches its
  digest, the evidence is honest (repeated approvals are at least two distinct decisions, in order,
  of one owner on one request, with their true count and digest) and of the same context class, the
  limits are positive and inside the policy, and the owner can approve, reject, narrow, pause and
  revoke. The review made is the input with the provenance of its evidence under a valid binding.\<close>

theorem owner_review_exact:
  "((\<exists>r. review_try_new X i policy = Inr r) \<longleftrightarrow>
      rvi_schema_version i \<noteq> 0 \<and> rvi_review_version i \<noteq> 0 \<and> \<not> str_is_blank (rvi_title i) \<and>
      \<not> str_is_blank (rvi_description i) \<and> rvi_automatic_effects i \<noteq> [] \<and> rvi_remaining_boundaries i \<noteq> [] \<and>
      scope_binding_is_valid X (rvi_reviewed_scope i) \<and> honest_evidence X (rvi_evidence i) \<and>
      evidence_context_class (rvi_evidence i) \<in> {None, Some (rs_context_class_digest (rvi_reviewed_scope i))} \<and>
      bounded_limits policy (rvi_limits i) \<and> offers_all i) \<and>
   (\<forall>r. review_try_new X i policy = Inr r \<longrightarrow> review_binding_is_valid X r \<and>
      rvr_id r = rvi_id i \<and> rvr_reviewed_scope r = rvi_reviewed_scope i \<and> rvr_limits r = rvi_limits i \<and>
      rvr_proposal_digest r = rvi_proposal_digest i \<and> rvr_compatibility_digest r = rvi_compatibility_digest i \<and>
      rvr_available_decisions r = rvi_available_decisions i \<and> rvr_lifecycle_controls r = rvi_lifecycle_controls i \<and>
      prov_evidence_digest (rvr_provenance r) = provenance_digest (rvi_evidence i) \<and>
      prov_evidence_count (rvr_provenance r) = evidence_count (rvi_evidence i))"
proof -
  have p: "\<exists>p. try_from_evidence X (rvi_evidence i) = Some p" if "honest_evidence X (rvi_evidence i)"
    using that by (simp add: try_from_evidence_def integrity_honest)
  show ?thesis
    by (rule conjI)
      (use p in \<open>auto simp: review_try_new_Inr incomplete_None review_of_input_fields review_of_input_valid
        try_from_evidence_def integrity_honest\<close>)
qed

section \<open>Narrowing again and again\<close>

fun narrow_all ::
  "ext \<Rightarrow> owner_review_request \<Rightarrow> (ulid \<times> reviewed_action_scope) list \<Rightarrow> owner_review_narrow_error + owner_review_request" where
  "narrow_all X r [] = Inr r"
| "narrow_all X r ((i, s) # steps) = (case narrowed_review X i s r of Inl e \<Rightarrow> Inl e | Inr r' \<Rightarrow> narrow_all X r' steps)"

text \<open>What a narrowing keeps of a review, and which way it may change its scope.\<close>

definition confined :: "owner_review_request \<Rightarrow> owner_review_request \<Rightarrow> bool" where
  "confined r r' \<longleftrightarrow> rs_action_id (rvr_reviewed_scope r') = rs_action_id (rvr_reviewed_scope r) \<and>
     rs_descriptor_version (rvr_reviewed_scope r') = rs_descriptor_version (rvr_reviewed_scope r) \<and>
     dom (rs_dimensions (rvr_reviewed_scope r')) = dom (rs_dimensions (rvr_reviewed_scope r)) \<and>
     (\<forall>d\<in>dom (rs_dimensions (rvr_reviewed_scope r)).
        narrower_or_equal (the (rs_dimensions (rvr_reviewed_scope r') d)) (the (rs_dimensions (rvr_reviewed_scope r) d))) \<and>
     rvr_limits r' = rvr_limits r \<and> rvr_provenance r' = rvr_provenance r \<and>
     rvr_fallback_behavior r' = rvr_fallback_behavior r \<and> rvr_proposal_digest r' = rvr_proposal_digest r \<and>
     rvr_compatibility_digest r' = rvr_compatibility_digest r \<and>
     rvr_available_decisions r' = rvr_available_decisions r \<and> rvr_lifecycle_controls r' = rvr_lifecycle_controls r \<and>
     rvr_evaluation_binding r' = rvr_evaluation_binding r \<and> rvr_review_version r \<le> rvr_review_version r'"

lemma confined_refl: "confined r r"
  by (auto simp: confined_def narrower_or_equal_iff)

lemma confined_trans: "confined r r' \<Longrightarrow> confined r' r'' \<Longrightarrow> confined r r''"
  unfolding confined_def by (metis (no_types, lifting) narrower_or_equal_trans order_trans)

lemma saturating_succ_mono: "n \<le> saturating_succ n"
  using inc_less_eq_iff[of n n] linear[of n "n + 1"] by (auto simp: saturating_succ_def)

lemma narrowed_review_Inr:
  assumes "narrowed_review X i s r = Inr r'"
  shows "review_binding_is_valid X r'" "confined r r'" "rvr_id r' = i" "i \<noteq> rvr_id r"
    "rs_dimensions (rvr_reviewed_scope r') \<noteq> rs_dimensions (rvr_reviewed_scope r)"
    "rs_scope_version (rvr_reviewed_scope r') = rs_scope_version (rvr_reviewed_scope r) + 1"
proof -
  have ok: "scope_binding_is_valid X s" "i \<noteq> rvr_id r" "rs_action_id s = rs_action_id (rvr_reviewed_scope r)"
    "rs_descriptor_version s = rs_descriptor_version (rvr_reviewed_scope r)"
    and n: "scope_narrowed X (rvr_reviewed_scope r) (rs_dimensions s) = Inr s"
    and r': "r' = bind_review X (r\<lparr>rvr_id := i, rvr_review_version := saturating_succ (rvr_review_version r), rvr_reviewed_scope := s\<rparr>)"
    using assms by (auto simp: narrowed_review_def is_strict_narrowing_def split: if_splits)
  have s: "s = seal_scope X ((rvr_reviewed_scope r)\<lparr>rs_scope_version := rs_scope_version (rvr_reviewed_scope r) + 1,
      rs_dimensions := rs_dimensions s\<rparr>)"
    using n unfolding scope_narrowed_Inr by blast
  show "review_binding_is_valid X r'" unfolding r' by (rule bind_valid) (simp add: ok(1))
  show "confined r r'"
    using n[unfolded scope_narrowed_Inr] ok saturating_succ_mono by (auto simp: r' confined_def bind_review_def)
  show "rvr_id r' = i" "i \<noteq> rvr_id r" using ok by (simp_all add: r' bind_review_def)
  show "rs_dimensions (rvr_reviewed_scope r') \<noteq> rs_dimensions (rvr_reviewed_scope r)"
    using n[unfolded scope_narrowed_Inr] by (simp add: r' bind_review_def)
  show "rs_scope_version (rvr_reviewed_scope r') = rs_scope_version (rvr_reviewed_scope r) + 1"
    by (simp add: r' bind_review_def, subst s) (simp add: seal_scope_def)
qed

text \<open>
  C26. However often a review is narrowed, the result carries a valid binding, keeps the action, the
  descriptor, the limits, the provenance, the digests, the decisions and the fallback, and every
  dimension of its scope is narrower than or equal to the one first reviewed. A single narrowing
  takes a new identifier and changes the scope.\<close>

theorem narrowed_review_confined:
  assumes "review_binding_is_valid X r" "narrow_all X r steps = Inr r'"
  shows "review_binding_is_valid X r' \<and> confined r r' \<and>
    (\<forall>i s. steps = [(i, s)] \<longrightarrow> rvr_id r' = i \<and> i \<noteq> rvr_id r \<and>
       rs_dimensions (rvr_reviewed_scope r') \<noteq> rs_dimensions (rvr_reviewed_scope r))"
proof -
  have "review_binding_is_valid X r' \<and> confined r r'"
    using assms
  proof (induction X r steps rule: narrow_all.induct)
    case (2 X r i s steps)
    then show ?case using narrowed_review_Inr(1,2) confined_trans by (fastforce split: sum.splits)
  qed (simp add: confined_refl)
  moreover have "rvr_id r' = i \<and> i \<noteq> rvr_id r \<and> rs_dimensions (rvr_reviewed_scope r') \<noteq> rs_dimensions (rvr_reviewed_scope r)"
    if "steps = [(i, s)]" for i s
    using assms(2) that narrowed_review_Inr(3-5)[of X i s r r'] by (simp split: sum.splits)
  ultimately show ?thesis by blast
qed

section \<open>Witnesses\<close>

definition ex_channel_scope :: "u32 \<Rightarrow> string set \<Rightarrow> reviewed_action_scope" where
  "ex_channel_scope v channels = seal_scope ex_ext
     \<lparr>rs_schema_version = 1, rs_scope_version = v, rs_action_id = ActionId ''mail.send'', rs_descriptor_version = 1,
      rs_dimensions = [ActionDim \<mapsto> ActionValue (ActionId ''mail.send''), DescriptorDim \<mapsto> DescriptorVersionValue 1,
        OutputChannel \<mapsto> OutputChannelsValue channels],
      rs_context_class_digest = digest_of ex_ext JNull\<rparr>"

definition ex_approvals :: "owner_approval_evidence list" where
  "ex_approvals = map (\<lambda>i. \<lparr>oe_decision_event_id = i, oe_owner_principal_id = 7, oe_request_digest = digest_of ex_ext JNull,
     oe_target_digest = digest_of ex_ext JNull, oe_payload_digest = digest_of ex_ext JNull\<rparr>) [1, 2]"

definition ex_review_input :: owner_review_input where
  "ex_review_input = (let s = ex_channel_scope 1 {''telegram'', ''email''}; cls = rs_context_class_digest s in
     \<lparr>rvi_id = 4, rvi_schema_version = 1, rvi_review_version = 1, rvi_proposal_kind = StandingRule_proposal,
      rvi_evidence = RepeatedApprovals 1 cls (evidence_digest_of ex_ext cls ex_approvals) 2 ex_approvals,
      rvi_title = ''t'', rvi_description = ''d'', rvi_reviewed_scope = s, rvi_automatic_effects = [''e''],
      rvi_remaining_boundaries = [''b''],
      rvi_limits = \<lparr>rvl_quota = \<lparr>bw_max = 2, bw_window_secs = 60\<rparr>, rvl_rate = \<lparr>bw_max = 2, bw_window_secs = 60\<rparr>,
        rvl_expires_after_secs = 60\<rparr>,
      rvi_fallback_behavior = \<lparr>rvf_scope_mismatch = Deny_boundary, rvf_compatibility_drift = Deny_boundary,
        rvf_budget_exhaustion = Deny_boundary, rvf_timeout = Deny_boundary\<rparr>,
      rvi_proposal_digest = digest_of ex_ext JNull, rvi_compatibility_digest = digest_of ex_ext JNull,
      rvi_available_decisions = UNIV, rvi_lifecycle_controls = UNIV, rvi_evaluation_binding = None\<rparr>)"

definition ex_policy_bounds :: delegation_policy_bounds where
  "ex_policy_bounds = \<lparr>dp_schema_version = 1, dp_policy_version = 1, dp_quota = ex_bounds, dp_rate = ex_bounds,
         dp_maximum_lapse_secs = 60, dp_proposal_mode = ExplicitLimitsRequired,
         dp_defaults = None, dp_dark_window_policy = Prohibited,
         dp_fresh_target_selection_required = False\<rparr>"

lemma ex_channel_scope_valid: "v \<noteq> 0 \<Longrightarrow> scope_binding_is_valid ex_ext (ex_channel_scope v channels)"
  by (simp add: scope_binding_is_valid_def ex_channel_scope_def seal_scope_def calculate_context_class_digest_def)

lemma ex_review_input_ok:
  "incomplete_field ex_review_input = None" "scope_binding_is_valid ex_ext (rvi_reviewed_scope ex_review_input)"
  "honest_evidence ex_ext (rvi_evidence ex_review_input)"
  "evidence_context_class (rvi_evidence ex_review_input) = Some (rs_context_class_digest (rvi_reviewed_scope ex_review_input))"
  "bounded_limits ex_policy_bounds (rvi_limits ex_review_input)" "offers_all ex_review_input"
proof -
  have "\<not> str_is_blank ''t''" "\<not> str_is_blank ''d''" by code_simp+
  then show "incomplete_field ex_review_input = None" by (simp add: incomplete_None ex_review_input_def Let_def)
qed (simp_all add: ex_review_input_def ex_approvals_def Let_def honest_evidence_def evidence_context_class_def
    bounded_limits_def ex_policy_bounds_def bounds_contains_def ex_bounds_def offers_all_def ex_channel_scope_valid)

theorem owner_review_exact_witness:
  "\<exists>r. review_try_new ex_ext ex_review_input ex_policy_bounds = Inr r \<and> review_binding_is_valid ex_ext r \<and> rvr_id r = 4 \<and>
     prov_evidence_count (rvr_provenance r) = 2"
proof -
  have f: "rvi_id ex_review_input = 4" "evidence_count (rvi_evidence ex_review_input) = 2"
    by (simp_all add: ex_review_input_def Let_def)
  note e = owner_review_exact[of ex_ext ex_review_input ex_policy_bounds]
  have "\<exists>r. review_try_new ex_ext ex_review_input ex_policy_bounds = Inr r"
    using conjunct1[OF e] ex_review_input_ok by (simp add: incomplete_None)
  then show ?thesis using conjunct2[OF e] f by auto
qed

lemma ex_narrowed:
  assumes "b \<subset> a" "rvr_reviewed_scope r = ex_channel_scope v a" "rvr_id r \<noteq> i" "v \<noteq> - 1"
  shows "\<exists>r'. narrowed_review ex_ext i (ex_channel_scope (v + 1) b) r = Inr r' \<and>
    rvr_reviewed_scope r' = ex_channel_scope (v + 1) b \<and> rvr_id r' = i"
proof -
  have "v + 1 \<noteq> 0" using assms(4) by (metis add.commute add_eq_0_iff)
  note valid = ex_channel_scope_valid[OF this, of b]
  have "scope_narrowed ex_ext (ex_channel_scope v a) (rs_dimensions (ex_channel_scope (v + 1) b)) = Inr (ex_channel_scope (v + 1) b)"
    unfolding scope_narrowed_Inr using assms(1) by (auto simp: ex_channel_scope_def seal_scope_def fun_eq_iff calculate_context_class_digest_def)
  then show ?thesis
    using valid assms(2,3)
    by (simp add: narrowed_review_def is_strict_narrowing_def bind_review_def) (simp add: ex_channel_scope_def seal_scope_def)
qed

theorem narrowed_review_confined_witness:
  "\<exists>r r'. review_try_new ex_ext ex_review_input ex_policy_bounds = Inr r \<and>
     narrow_all ex_ext r [(5, ex_channel_scope 2 {''telegram''}), (6, ex_channel_scope 3 {})] = Inr r' \<and>
     review_binding_is_valid ex_ext r' \<and> rvr_limits r' = rvr_limits r \<and>
     rs_dimensions (rvr_reviewed_scope r') OutputChannel = Some (OutputChannelsValue {})"
proof -
  have "\<exists>p. try_from_evidence ex_ext (rvi_evidence ex_review_input) = Some p"
    by (simp add: try_from_evidence_def integrity_honest ex_review_input_ok)
  then obtain p where p: "try_from_evidence ex_ext (rvi_evidence ex_review_input) = Some p" by blast
  define r where "r = review_of_input ex_ext ex_review_input p"
  have r: "review_try_new ex_ext ex_review_input ex_policy_bounds = Inr r"
    using p by (simp add: review_try_new_Inr r_def ex_review_input_ok)
  have s: "rvr_reviewed_scope r = ex_channel_scope 1 {''telegram'', ''email''}" "rvr_id r = 4" "review_binding_is_valid ex_ext r"
    by (simp_all add: r_def review_of_input_fields review_of_input_valid ex_review_input_def Let_def ex_channel_scope_valid)
  obtain r1 where r1: "narrowed_review ex_ext 5 (ex_channel_scope 2 {''telegram''}) r = Inr r1"
    "rvr_reviewed_scope r1 = ex_channel_scope 2 {''telegram''}" "rvr_id r1 = 5"
    using ex_narrowed[of "{''telegram''}" "{''telegram'', ''email''}" r 1 5] s by auto
  obtain r2 where r2: "narrowed_review ex_ext 6 (ex_channel_scope 3 {}) r1 = Inr r2" "rvr_reviewed_scope r2 = ex_channel_scope 3 {}"
    using ex_narrowed[of "{}" "{''telegram''}" r1 2 6] r1 by auto
  have n: "narrow_all ex_ext r [(5, ex_channel_scope 2 {''telegram''}), (6, ex_channel_scope 3 {})] = Inr r2" by (simp add: r1 r2)
  from narrowed_review_confined[OF s(3) n] show ?thesis
    using r n r2(2) by (auto simp: confined_def ex_channel_scope_def seal_scope_def)
qed

end
