(* ===== verification/Review_Store.thy ===== *)
theory Review_Store
  imports Owner_Review Rule_Operations Workflow_Engine
begin

text \<open>
  The rows of owner reviews and their transitions
  (\<open>src/crates/openspine-kernel/src/store/owner_review.rs\<close>, \<open>owner_review_schema.rs\<close> and
  \<open>owner_review_approval.rs\<close>), over the audit ledger and the standing-rule store. A digest column
  is its text. Identifiers are the texts of ULIDs, so reading one back does not fail. A transaction
  that writes several events takes their identifiers from \<open>fresh\<close>; the standing-rule store keeps
  its own account of what it audits.
\<close>

section \<open>Tables\<close>

record review_row =
  rvw_id :: string
  rvw_artifact_ref :: artifact_ref
  rvw_state :: owner_review_state
  rvw_owner_principal_id :: string
  rvw_expires_at :: int
  rvw_created_at :: int
  rvw_last_decision :: "string option"
  rvw_decision_digest :: "string option"

record review_rule_link =
  rvk_review_id :: string
  rvk_rule_id :: string
  rvk_rule_version :: u32

record review_store =
  rv_rows :: "review_row list"
  rv_links :: "review_rule_link list"
  rv_rules :: rule_store
  rv_ledger :: ledger

datatype review_error =
    Review_ledger ledger_error
  | Review_failure string
  | Review_constraint
  | Review_rule store_error
  | Review_bad_digest string
  | Review_bad_ulid string

type_synonym 'a review_op = "review_store \<Rightarrow> (review_error + 'a) \<times> review_store"

fun state_str :: "owner_review_state \<Rightarrow> string" where
  "state_str PendingReview = ''pending''"
| "state_str ApprovedReview = ''approved''"
| "state_str RejectedReview = ''rejected''"
| "state_str NarrowedReview = ''narrowed''"
| "state_str RevokedReview = ''revoked''"
| "state_str ExpiredReview = ''expired''"

text \<open>The \<open>Debug\<close> forms that go into audit reasons and the decision column.\<close>

fun state_debug :: "owner_review_state \<Rightarrow> string" where
  "state_debug PendingReview = ''Pending''"
| "state_debug ApprovedReview = ''Approved''"
| "state_debug RejectedReview = ''Rejected''"
| "state_debug NarrowedReview = ''Narrowed''"
| "state_debug RevokedReview = ''Revoked''"
| "state_debug ExpiredReview = ''Expired''"

fun intent_debug :: "decision_intent \<Rightarrow> string" where
  "intent_debug Approve_intent = ''Approve''"
| "intent_debug Reject_intent = ''Reject''"
| "intent_debug Narrow_intent = ''Narrow''"
| "intent_debug Edit_intent = ''Edit''"
| "intent_debug Pause_intent = ''Pause''"
| "intent_debug Resume_intent = ''Resume''"
| "intent_debug Expire_intent = ''Expire''"
| "intent_debug Revoke_intent = ''Revoke''"
| "intent_debug Inspect_intent = ''Inspect''"

definition find_review :: "string \<Rightarrow> review_store \<Rightarrow> review_row option" where
  "find_review i S = find (\<lambda>r. rvw_id r = i) (rv_rows S)"

definition update_reviews :: "(review_row \<Rightarrow> bool) \<Rightarrow> (review_row \<Rightarrow> review_row) \<Rightarrow> review_store \<Rightarrow> review_store" where
  "update_reviews p f S = S\<lparr>rv_rows := map (\<lambda>r. if p r then f r else r) (rv_rows S)\<rparr>"

text \<open>One audit event inside the transaction.\<close>

definition review_audit :: "ext \<Rightarrow> audit_input \<Rightarrow> ulid \<Rightarrow> timestamp \<Rightarrow> review_store \<Rightarrow> review_error + review_store" where
  "review_audit X a fresh now S = (case append_audit_conn_with_actor X a fresh now (rv_ledger S) of
     Inl e \<Rightarrow> Inl (Review_ledger e) | Inr (_, L) \<Rightarrow> Inr (S\<lparr>rv_ledger := L\<rparr>))"

text \<open>The cast \<open>as i64\<close> of the nanoseconds wraps.\<close>

definition pending_row_of :: "ext \<Rightarrow> ulid \<Rightarrow> artifact_ref \<Rightarrow> ulid \<Rightarrow> timestamp \<Rightarrow> timestamp \<Rightarrow> review_row" where
  "pending_row_of X i artifact owner expires_at now =
     \<lparr>rvw_id = ulid_text X i, rvw_artifact_ref = artifact, rvw_state = PendingReview,
      rvw_owner_principal_id = ulid_text X owner, rvw_expires_at = i64_wrap expires_at, rvw_created_at = i64_wrap now,
      rvw_last_decision = None, rvw_decision_digest = None\<rparr>"

definition insert_review_row :: "review_row \<Rightarrow> review_store \<Rightarrow> review_error + review_store" where
  "insert_review_row r S = (if find_review (rvw_id r) S \<noteq> None then Inl Review_constraint
     else Inr (S\<lparr>rv_rows := rv_rows S @ [r]\<rparr>))"

section \<open>Operations\<close>

definition insert_owner_review ::
  "ext \<Rightarrow> ulid \<Rightarrow> artifact_ref \<Rightarrow> ulid \<Rightarrow> timestamp \<Rightarrow> timestamp \<Rightarrow> ulid \<Rightarrow> timestamp \<Rightarrow> unit review_op" where
  "insert_owner_review X i artifact owner expires_at now fresh clock =
     with_immediate_tx (\<lambda>S. case review_audit X (plain_input ''owner_review.created'' (Some (ulid_text X i)) None [artifact])
         fresh clock S of
         Inl e \<Rightarrow> Inl e
       | Inr S1 \<Rightarrow> (case insert_review_row (pending_row_of X i artifact owner expires_at now) S1 of
           Inl e \<Rightarrow> Inl e | Inr S2 \<Rightarrow> Inr ((), S2)))"

record owner_review_row =
  rvo_id :: ulid
  rvo_artifact_ref :: artifact_ref
  rvo_state :: owner_review_state
  rvo_owner_principal_id :: ulid
  rvo_expires_at :: timestamp

definition map_review_row :: "text_parsers \<Rightarrow> review_row \<Rightarrow> review_error + owner_review_row" where
  "map_review_row P r =
     (if \<not> digest_is_valid (digest_str (ar_digest (rvw_artifact_ref r)))
      then Inl (Review_bad_digest (digest_str (ar_digest (rvw_artifact_ref r))))
      else (case (ulid_parse P (rvw_id r), ulid_parse P (rvw_owner_principal_id r)) of
          (None, _) \<Rightarrow> Inl (Review_bad_ulid (rvw_id r))
        | (Some _, None) \<Rightarrow> Inl (Review_bad_ulid (rvw_owner_principal_id r))
        | (Some i, Some owner) \<Rightarrow> Inr \<lparr>rvo_id = i, rvo_artifact_ref = rvw_artifact_ref r, rvo_state = rvw_state r,
            rvo_owner_principal_id = owner, rvo_expires_at = rvw_expires_at r\<rparr>))"

definition load_owner_review :: "ext \<Rightarrow> text_parsers \<Rightarrow> ulid \<Rightarrow> review_store \<Rightarrow> review_error + owner_review_row option" where
  "load_owner_review X P i S = (case find_review (ulid_text X i) S of
     None \<Rightarrow> Inr None
   | Some r \<Rightarrow> (case map_review_row P r of Inl e \<Rightarrow> Inl e | Inr o' \<Rightarrow> Inr (Some o')))"

definition transition_owner_review ::
  "ext \<Rightarrow> ulid \<Rightarrow> owner_review_state \<Rightarrow> owner_review_state \<Rightarrow> string \<Rightarrow> ulid \<Rightarrow> timestamp \<Rightarrow> bool review_op" where
  "transition_owner_review X i before after reason fresh now S =
     (if \<not> review_can_transition before after
      then (Inl (Review_failure (''illegal owner-review transition '' @ state_debug before @ '' -> '' @ state_debug after)), S)
      else with_immediate_tx (\<lambda>S.
        case review_audit X (plain_input ''owner_review.transitioned'' (Some (ulid_text X i @ '':'' @
            state_debug before @ ''->'' @ state_debug after @ '':'' @ reason)) None []) fresh now S of
          Inl e \<Rightarrow> Inl e
        | Inr S1 \<Rightarrow>
            let hit = (\<lambda>r. rvw_id r = ulid_text X i \<and> rvw_state r = before) in
            Inr (length (filter hit (rv_rows S1)) = 1, update_reviews hit (\<lambda>r. r\<lparr>rvw_state := after\<rparr>) S1)) S)"

definition record_owner_review_refusal ::
  "ext \<Rightarrow> ulid \<Rightarrow> ulid \<Rightarrow> decision_intent \<Rightarrow> string \<Rightarrow> ulid \<Rightarrow> timestamp \<Rightarrow> unit review_op" where
  "record_owner_review_refusal X i submitted intent reason fresh now =
     with_immediate_tx (\<lambda>S. case review_audit X (plain_input ''owner_review.decision_refused''
         (Some (ulid_text X i @ '':'' @ intent_debug intent @ '':'' @ ulid_text X submitted @ '':'' @ reason)) None []) fresh now S of
         Inl e \<Rightarrow> Inl e | Inr S1 \<Rightarrow> Inr ((), S1))"

definition record_owner_review_inspection ::
  "ext \<Rightarrow> ulid \<Rightarrow> ulid \<Rightarrow> digest \<Rightarrow> ulid \<Rightarrow> timestamp \<Rightarrow> unit review_op" where
  "record_owner_review_inspection X i owner binding fresh now =
     with_immediate_tx (\<lambda>S.
       if map_option rvw_owner_principal_id (find_review (ulid_text X i) S) \<noteq> Some (ulid_text X owner)
       then Inl (Review_failure ''owner-review principal mismatch'')
       else (case review_audit X (plain_input ''owner_review.inspected'' (Some (ulid_text X i @ '':Inspect:'' @
           digest_str binding @ '':'' @ ulid_text X owner)) None []) fresh now S of
           Inl e \<Rightarrow> Inl e | Inr S1 \<Rightarrow> Inr ((), S1)))"

definition commit_owner_review_decision ::
  "ext \<Rightarrow> ulid \<Rightarrow> decision_intent \<Rightarrow> ulid \<Rightarrow> digest \<Rightarrow> (owner_review_state \<times> owner_review_state) option \<Rightarrow>
     (nat \<Rightarrow> ulid) \<Rightarrow> timestamp \<Rightarrow> bool review_op" where
  "commit_owner_review_decision X i intent owner binding transition fresh now S =
     (case (case transition of
          Some (before, after) \<Rightarrow> if review_can_transition before after then None
            else Some (''illegal owner-review transition '' @ state_debug before @ '' -> '' @ state_debug after)
        | None \<Rightarrow> None) of
        Some problem \<Rightarrow> (Inl (Review_failure problem), S)
      | None \<Rightarrow> with_immediate_tx (\<lambda>S. case find_review (ulid_text X i) S of
          None \<Rightarrow> Inr (False, S)
        | Some r \<Rightarrow>
            if rvw_owner_principal_id r \<noteq> ulid_text X owner
            then Inl (Review_failure ''owner-review principal mismatch'')
            else if rvw_last_decision r = Some (intent_debug intent) \<and> rvw_decision_digest r = Some (digest_str binding)
            then Inr (False, S)
            else if (case transition of None \<Rightarrow> False | Some (before, _) \<Rightarrow> rvw_state r \<noteq> before)
            then Inl (Review_failure ''owner-review state changed before decision commit'')
            else
              let target = (case transition of None \<Rightarrow> rvw_state r | Some (_, after) \<Rightarrow> after);
                  hit = (\<lambda>q. rvw_id q = ulid_text X i \<and> rvw_owner_principal_id q = ulid_text X owner);
                  changed = (length (filter hit (rv_rows S)) = 1);
                  S1 = update_reviews hit (\<lambda>q. q\<lparr>rvw_state := target, rvw_last_decision := Some (intent_debug intent),
                    rvw_decision_digest := Some (digest_str binding)\<rparr>) S
              in (case review_audit X (plain_input ''owner_review.decision'' (Some (ulid_text X i @ '':'' @ intent_debug intent @
                  '':'' @ digest_str binding @ '':'' @ ulid_text X owner)) None []) (fresh 0) now S1 of
                  Inl e \<Rightarrow> Inl e
                | Inr S2 \<Rightarrow>
                    if transition = None then Inr (changed, S2)
                    else (case review_audit X (plain_input ''owner_review.transitioned'' (Some (ulid_text X i @ '':'' @
                        state_str (rvw_state r) @ ''->'' @ state_str target)) None []) (fresh 1) now S2 of
                        Inl e \<Rightarrow> Inl e | Inr S3 \<Rightarrow> Inr (changed, S3)))) S)"

definition insert_narrowed_owner_review ::
  "ext \<Rightarrow> ulid \<Rightarrow> digest \<Rightarrow> ulid \<Rightarrow> artifact_ref \<Rightarrow> ulid \<Rightarrow> timestamp \<Rightarrow> timestamp \<Rightarrow> (nat \<Rightarrow> ulid) \<Rightarrow> timestamp \<Rightarrow> unit review_op" where
  "insert_narrowed_owner_review X original original_binding new_id artifact owner expires_at now fresh clock =
     with_immediate_tx (\<lambda>S.
       let hit = (\<lambda>r. rvw_id r = ulid_text X original \<and> rvw_owner_principal_id r = ulid_text X owner \<and>
             rvw_state r = PendingReview) in
       if length (filter hit (rv_rows S)) \<noteq> 1
       then Inl (Review_failure ''original owner review is not pending for this principal'')
       else (case insert_review_row (pending_row_of X new_id artifact owner expires_at now)
           (update_reviews hit (\<lambda>r. r\<lparr>rvw_state := NarrowedReview, rvw_last_decision := Some ''Narrow'',
              rvw_decision_digest := Some (digest_str original_binding)\<rparr>) S) of
           Inl e \<Rightarrow> Inl e
         | Inr S1 \<Rightarrow>
             (case review_audit X (plain_input ''owner_review.decision'' (Some (ulid_text X original @ '':Narrow:'' @
                 digest_str original_binding @ '':'' @ ulid_text X new_id @ '':'' @ ulid_text X owner)) None [artifact])
                 (fresh 0) clock S1 of
                Inl e \<Rightarrow> Inl e
              | Inr S2 \<Rightarrow>
                  (case review_audit X (plain_input ''owner_review.transitioned'' (Some (ulid_text X original @
                      '':pending->narrowed:'' @ ulid_text X new_id)) None []) (fresh 1) clock S2 of
                     Inl e \<Rightarrow> Inl e
                   | Inr S3 \<Rightarrow>
                       (case review_audit X (plain_input ''owner_review.created'' (Some (ulid_text X new_id)) None [artifact])
                           (fresh 2) clock S3 of
                          Inl e \<Rightarrow> Inl e | Inr S4 \<Rightarrow> Inr ((), S4))))))"

definition upsert_rule_link :: "review_rule_link \<Rightarrow> review_store \<Rightarrow> review_store" where
  "upsert_rule_link k S =
     (if list_ex (\<lambda>q. rvk_review_id q = rvk_review_id k) (rv_links S)
      then S\<lparr>rv_links := map (\<lambda>q. if rvk_review_id q = rvk_review_id k then k else q) (rv_links S)\<rparr>
      else S\<lparr>rv_links := rv_links S @ [k]\<rparr>)"

definition approve_owner_review_and_activate_rule ::
  "ext \<Rightarrow> action_catalog \<Rightarrow> action_descriptor list \<Rightarrow> ulid \<Rightarrow> ulid \<Rightarrow> digest \<Rightarrow> standing_rule_manifest \<Rightarrow> timestamp \<Rightarrow>
     (nat \<Rightarrow> ulid) \<Rightarrow> timestamp \<Rightarrow> unit review_op" where
  "approve_owner_review_and_activate_rule X catalog descriptors i owner binding m now fresh clock S =
     (case reject_incomplete_scope_binding catalog descriptors m (rv_rules S) of
        (Inl e, R) \<Rightarrow> (Inl (Review_rule e), S\<lparr>rv_rules := R\<rparr>)
      | (Inr _, R) \<Rightarrow> with_immediate_tx (\<lambda>S. case find_review (ulid_text X i) S of
          None \<Rightarrow> Inl (Review_failure ''owner review does not exist'')
        | Some r \<Rightarrow>
            if rvw_state r \<noteq> PendingReview \<or> rvw_owner_principal_id r \<noteq> ulid_text X owner
            then Inl (Review_failure ''owner review is not pending for this principal'')
            else (case activate_standing_rule_in_tx X catalog descriptors m None now (rv_rules S) of
                Inl e \<Rightarrow> Inl (Review_rule e)
              | Inr (_, R1) \<Rightarrow>
                  let S1 = upsert_rule_link \<lparr>rvk_review_id = ulid_text X i, rvk_rule_id = sm_id m, rvk_rule_version = sm_version m\<rparr>
                        (update_reviews (\<lambda>q. rvw_id q = ulid_text X i \<and> rvw_state q = PendingReview)
                          (\<lambda>q. q\<lparr>rvw_state := ApprovedReview, rvw_last_decision := Some (intent_debug Approve_intent),
                             rvw_decision_digest := Some (digest_str binding)\<rparr>) (S\<lparr>rv_rules := R1\<rparr>))
                  in (case review_audit X ((plain_input ''owner_review.decision'' (Some (ulid_text X i @ '':Approve:'' @
                      digest_str binding @ '':'' @ sm_id m @ '':'' @ ulid_text X owner)) None [])\<lparr>an_action := Some (sm_action_id m)\<rparr>)
                      (fresh 0) clock S1 of
                      Inl e \<Rightarrow> Inl e
                    | Inr S2 \<Rightarrow>
                        (case review_audit X ((plain_input ''owner_review.transitioned'' (Some (ulid_text X i @
                            '':pending->approved'')) None [])\<lparr>an_action := Some (sm_action_id m)\<rparr>) (fresh 1) clock S2 of
                           Inl e \<Rightarrow> Inl e | Inr S3 \<Rightarrow> Inr ((), S3))))) (S\<lparr>rv_rules := R\<rparr>))"

text \<open>
  What the activation of an artifact does with a review: the part of \<open>commit_artifact_activation\<close>
  (\<open>store/activation.rs\<close>) that approves it, inside the transaction that activates the rule. The
  identifier is the key of the table, so at most one row is updated.
\<close>

definition activation_review_approval ::
  "ext \<Rightarrow> ulid \<Rightarrow> ulid \<Rightarrow> digest \<Rightarrow> string \<Rightarrow> u32 \<Rightarrow> (nat \<Rightarrow> ulid) \<Rightarrow> timestamp \<Rightarrow> review_store \<Rightarrow>
     review_error + review_store" where
  "activation_review_approval X i owner binding rule_id rule_version fresh clock S =
     (let hit = (\<lambda>r. rvw_id r = ulid_text X i \<and> rvw_owner_principal_id r = ulid_text X owner \<and>
             rvw_state r = PendingReview) in
       if map_option hit (find_review (ulid_text X i) S) \<noteq> Some True
       then Inl (Review_failure ''owner review is not pending for this principal'')
       else (case review_audit X (plain_input ''owner_review.decision'' (Some (ulid_text X i @ '':Approve:'' @
             digest_str binding @ '':'' @ rule_id @ '':'' @ ulid_text X owner)) None []) (fresh 0) clock
             (upsert_rule_link \<lparr>rvk_review_id = ulid_text X i, rvk_rule_id = rule_id, rvk_rule_version = rule_version\<rparr>
               (update_reviews hit (\<lambda>q. q\<lparr>rvw_state := ApprovedReview, rvw_last_decision := Some (intent_debug Approve_intent),
                  rvw_decision_digest := Some (digest_str binding)\<rparr>) S)) of
           Inl e \<Rightarrow> Inl e
         | Inr S1 \<Rightarrow>
             review_audit X (plain_input ''owner_review.transitioned'' (Some (ulid_text X i @ '':pending->approved'')) None [])
               (fresh 1) clock S1))"

definition owner_review_standing_rule :: "ext \<Rightarrow> ulid \<Rightarrow> review_store \<Rightarrow> (string \<times> u32) option" where
  "owner_review_standing_rule X i S =
     map_option (\<lambda>k. (rvk_rule_id k, rvk_rule_version k)) (find (\<lambda>k. rvk_review_id k = ulid_text X i) (rv_links S))"

definition owner_review_last_decision :: "ext \<Rightarrow> ulid \<Rightarrow> review_store \<Rightarrow> review_error + (string \<times> digest) option" where
  "owner_review_last_decision X i S =
     (case Option.bind (find_review (ulid_text X i) S) (\<lambda>r. case (rvw_last_decision r, rvw_decision_digest r) of
         (Some intent, Some d) \<Rightarrow> Some (intent, d) | _ \<Rightarrow> None) of
        None \<Rightarrow> Inr None
      | Some (intent, d) \<Rightarrow> (case digest_parse d of Inl _ \<Rightarrow> Inl (Review_bad_digest d) | Inr d' \<Rightarrow> Inr (Some (intent, d'))))"

definition owner_review_decision_digest :: "ext \<Rightarrow> ulid \<Rightarrow> review_store \<Rightarrow> review_error + digest option" where
  "owner_review_decision_digest X i S =
     (case Option.bind (find_review (ulid_text X i) S) rvw_decision_digest of
        None \<Rightarrow> Inr None
      | Some d \<Rightarrow> (case digest_parse d of Inl _ \<Rightarrow> Inl (Review_bad_digest d) | Inr d' \<Rightarrow> Inr (Some d')))"

end
