(* ===== verification/Review_Lifecycle.thy ===== *)
theory Review_Lifecycle
  imports Review_Store Workflow_Replay Rule_Budget Given_Once
begin

text \<open>
  What the store of owner reviews keeps: rows change only by legal transitions, each of them is
  announced on the ledger in the same transaction, and a review activates one standing rule at most.
\<close>

section \<open>Notes on the ledger\<close>

text \<open>What an event tells of a review is its kind and its reason.\<close>

type_synonym remark = "string \<times> string option"

definition note_of :: "audit_event \<Rightarrow> remark" where
  "note_of e = (kind_str (ae_kind e), ae_reason e)"

definition announces :: "string \<Rightarrow> owner_review_state \<Rightarrow> owner_review_state \<Rightarrow> remark \<Rightarrow> bool" where
  "announces i s t n \<longleftrightarrow> fst n = ''owner_review.transitioned'' \<and>
     (\<exists>rest. snd n = Some (i @ '':'' @ state_str s @ ''->'' @ state_str t @ rest) \<or>
        snd n = Some (i @ '':'' @ state_debug s @ ''->'' @ state_debug t @ rest))"

text \<open>The notes contain, in order, one announcement for each step of a legal path.\<close>

inductive explains :: "string \<Rightarrow> remark list \<Rightarrow> owner_review_state \<Rightarrow> owner_review_state \<Rightarrow> bool" for i where
  explains_end: "explains i [] s s"
| explains_other: "explains i ns s t \<Longrightarrow> explains i (n # ns) s t"
| explains_move: "announces i s u n \<Longrightarrow> review_can_transition s u \<Longrightarrow> explains i ns u t \<Longrightarrow> explains i (n # ns) s t"

lemma explains_refl [simp, intro]: "explains i ns s s"
  by (induction ns) (auto intro: explains.intros)

lemma explains_append: "explains i ns s t \<Longrightarrow> explains i ms t u \<Longrightarrow> explains i (ns @ ms) s u"
  by (induction rule: explains.induct) (auto intro: explains.intros)

lemma explains_one:
  "n \<in> set ns \<Longrightarrow> announces i s t n \<Longrightarrow> review_can_transition s t \<Longrightarrow> explains i ns s t"
  by (induction ns) (auto intro: explains.intros)



section \<open>Appending\<close>

inductive audited :: "ext \<Rightarrow> remark list \<Rightarrow> ledger \<Rightarrow> ledger \<Rightarrow> bool" for X where
  audited_none: "audited X [] L L"
| audited_one: "append_audit_conn_with_actor X a fresh now L = Inr (e, L1) \<Longrightarrow> audited X ns L1 L2 \<Longrightarrow>
    audited X ((an_kind a, an_reason a) # ns) L L2"

lemma audited_append: "audited X ns L L1 \<Longrightarrow> audited X ms L1 L2 \<Longrightarrow> audited X (ns @ ms) L L2"
  by (induction rule: audited.induct) (auto intro: audited.intros)

lemma review_auditD:
  assumes "review_audit X a fresh now S = Inr S'"
  shows "rv_rows S' = rv_rows S" "rv_links S' = rv_links S" "rv_rules S' = rv_rules S"
    "audited X [(an_kind a, an_reason a)] (rv_ledger S) (rv_ledger S')"
  using assms by (auto simp: review_audit_def split: sum.splits intro!: audited_one[OF _ audited_none])

lemma review_audit_Inr:
  "review_audit X a fresh now S = Inr S' \<Longrightarrow> rv_rows S' = rv_rows S \<and> rv_links S' = rv_links S \<and>
     rv_rules S' = rv_rules S \<and> audited X [(an_kind a, an_reason a)] (rv_ledger S) (rv_ledger S')"
  using review_auditD[of X a fresh now S S'] by simp

lemma audited_events:
  assumes "audited X ns L L'" "wf_ext X" "rows_inv X L"
  shows "rows_inv X L' \<and> (\<exists>es. ledger_events L' = ledger_events L @ es \<and> map note_of es = ns)"
  using assms
proof (induction rule: audited.induct)
  case (audited_one a fresh now L e L1 ns L2)
  note a = append_inv[OF audited_one.prems audited_one.hyps(1)]
  from audited_one.IH[OF audited_one.prems(1) a(2)] obtain es where
    "rows_inv X L2" "ledger_events L2 = ledger_events L1 @ es" "map note_of es = ns" by blast
  then show ?case
    using a(3) append_fields[OF audited_one.hyps(1)]
    by (intro conjI exI[of _ "e # es"]) (auto simp: note_of_def)
qed auto

section \<open>How rows change\<close>

definition same_review :: "review_row \<Rightarrow> review_row \<Rightarrow> bool" where
  "same_review r r' \<longleftrightarrow> rvw_id r' = rvw_id r \<and> rvw_artifact_ref r' = rvw_artifact_ref r \<and>
     rvw_owner_principal_id r' = rvw_owner_principal_id r \<and> rvw_expires_at r' = rvw_expires_at r \<and>
     rvw_created_at r' = rvw_created_at r"

definition accounted :: "string \<Rightarrow> remark list \<Rightarrow> review_row option \<Rightarrow> review_row option \<Rightarrow> bool" where
  "accounted i ns before after = (case before of
     Some r \<Rightarrow> (\<exists>r'. after = Some r' \<and> same_review r r' \<and> explains i ns (rvw_state r) (rvw_state r'))
   | None \<Rightarrow> (\<forall>r'. after = Some r' \<longrightarrow>
       (''owner_review.created'', Some i) \<in> set ns \<and> explains i ns PendingReview (rvw_state r')))"

definition evolves :: "ext \<Rightarrow> remark list \<Rightarrow> review_store \<Rightarrow> review_store \<Rightarrow> bool" where
  "evolves X ns S S' \<longleftrightarrow> audited X ns (rv_ledger S) (rv_ledger S') \<and>
     (\<forall>i. accounted i ns (find_review i S) (find_review i S'))"

lemma same_review_refl [simp]: "same_review r r"
  by (simp add: same_review_def)

lemma accounted_trans:
  assumes "accounted i ns a b" "accounted i ms b c"
  shows "accounted i (ns @ ms) a c"
proof (cases a)
  case None
  show ?thesis
  proof (cases b)
    case None
    with \<open>a = None\<close> assms show ?thesis
      using explains_append[OF explains_refl] by (auto simp: accounted_def)
  next
    case (Some r)
    with \<open>a = None\<close> assms show ?thesis by (auto simp: accounted_def intro: explains_append)
  qed
next
  case (Some r)
  with assms show ?thesis
    by (auto simp: accounted_def same_review_def split: option.splits intro: explains_append)
qed

lemma evolves_trans: "evolves X ns S S1 \<Longrightarrow> evolves X ms S1 S2 \<Longrightarrow> evolves X (ns @ ms) S S2"
  using audited_append accounted_trans unfolding evolves_def by blast

lemma evolves_same:
  "audited X ns (rv_ledger S) (rv_ledger S') \<Longrightarrow> rv_rows S' = rv_rows S \<Longrightarrow> evolves X ns S S'"
  by (auto simp: evolves_def accounted_def find_review_def split: option.splits)

lemma find_review_id: "find_review i S = Some r \<Longrightarrow> rvw_id r = i"
  by (auto simp: find_review_def dest: find_SomeD)

lemma find_mapped:
  assumes "\<And>r. rvw_id (g r) = rvw_id r"
  shows "find (\<lambda>r. rvw_id r = i) (map g rs @ new) =
    (case find (\<lambda>r. rvw_id r = i) rs of Some r \<Rightarrow> Some (g r) | None \<Rightarrow> find (\<lambda>r. rvw_id r = i) new)"
  by (induction rs) (simp_all add: assms)

text \<open>Rows are rewritten in place, and at most one new pending row is added.\<close>

lemma evolves_update:
  assumes "audited X ns (rv_ledger S) (rv_ledger S')"
    and "rv_rows S' = map (\<lambda>r. if p r then f r else r) (rv_rows S) @ new"
    and "\<And>r. same_review r (f r)"
    and "\<And>r. find_review (rvw_id r) S = Some r \<Longrightarrow> p r \<Longrightarrow> explains (rvw_id r) ns (rvw_state r) (rvw_state (f r))"
    and "\<And>r. r \<in> set new \<Longrightarrow> rvw_state r = PendingReview \<and> (''owner_review.created'', Some (rvw_id r)) \<in> set ns"
  shows "evolves X ns S S'"
  unfolding evolves_def
proof (intro conjI allI)
  fix i
  let ?g = "\<lambda>r. if p r then f r else r"
  have "rvw_id (?g r) = rvw_id r" for r using assms(3)[of r] by (simp add: same_review_def)
  note found = find_mapped[of ?g i "rv_rows S" new, OF this, folded assms(2)]
  show "accounted i ns (find_review i S) (find_review i S')"
  proof (cases "find_review i S")
    case None
    then show ?thesis
      using found assms(5) by (auto simp: accounted_def find_review_def dest!: find_SomeD)
  next
    case (Some r)
    then have "find_review (rvw_id r) S = Some r" "rvw_id r = i" using find_review_id by auto
    with Some show ?thesis
      using found assms(3)[of r] assms(4)[of r] by (auto simp: accounted_def find_review_def)
  qed
qed (rule assms(1))

section \<open>The operations\<close>

lemma announce_debug: "announces i s t (''owner_review.transitioned'', Some (i @ '':'' @ state_debug s @ ''->'' @ state_debug t @ rest))"
  unfolding announces_def by auto

lemma announce_str: "announces i s t (''owner_review.transitioned'', Some (i @ '':'' @ state_str s @ ''->'' @ state_str t @ rest))"
  unfolding announces_def by auto

lemma audited_two:
  "audited X [n] L L1 \<Longrightarrow> audited X ns L1 L2 \<Longrightarrow> audited X (n # ns) L L2"
  using audited_append[of X "[n]"] by simp

lemma insert_evolves: "\<exists>ns. evolves X ns S (snd (insert_owner_review X i artifact owner expires_at now fresh clock S))"
proof (cases "fst (insert_owner_review X i artifact owner expires_at now fresh clock S)")
  case (Inl e)
  then have "snd (insert_owner_review X i artifact owner expires_at now fresh clock S) = S"
    by (auto simp: insert_owner_review_def with_immediate_tx_def split: sum.splits prod.splits)
  then show ?thesis by (auto intro!: exI[of _ "[]"] evolves_same audited_none)
next
  case (Inr u)
  let ?a = "plain_input ''owner_review.created'' (Some (ulid_text X i)) None [artifact]"
  from Inr obtain S1 where a: "review_audit X ?a fresh clock S = Inr S1"
    and s: "snd (insert_owner_review X i artifact owner expires_at now fresh clock S) =
      S1\<lparr>rv_rows := rv_rows S1 @ [pending_row_of X i artifact owner expires_at now]\<rparr>"
    by (auto simp: insert_owner_review_def with_immediate_tx_def insert_review_row_def split: sum.splits prod.splits if_splits)
  note a = review_auditD[OF a]
  have "evolves X [(''owner_review.created'', Some (ulid_text X i))] S
      (S1\<lparr>rv_rows := rv_rows S1 @ [pending_row_of X i artifact owner expires_at now]\<rparr>)"
    by (rule evolves_update[where p = "\<lambda>_. False" and f = id and new = "[pending_row_of X i artifact owner expires_at now]"])
      (use a in \<open>auto simp: plain_input_def pending_row_of_def\<close>)
  with s show ?thesis by metis
qed

lemma transition_evolves:
  "\<exists>ns. evolves X ns S (snd (transition_owner_review X i before after reason fresh now S))"
proof (cases "fst (transition_owner_review X i before after reason fresh now S)")
  case (Inl e)
  then have "snd (transition_owner_review X i before after reason fresh now S) = S"
    by (auto simp: transition_owner_review_def with_immediate_tx_def Let_def split: sum.splits prod.splits if_splits)
  then show ?thesis by (auto intro!: exI[of _ "[]"] evolves_same audited_none)
next
  case (Inr b)
  let ?n = "(''owner_review.transitioned'', Some (ulid_text X i @ '':'' @ state_debug before @ ''->'' @ state_debug after @ '':'' @ reason))"
  let ?hit = "\<lambda>r. rvw_id r = ulid_text X i \<and> rvw_state r = before"
  from Inr obtain S1 where legal: "review_can_transition before after"
    and a: "review_audit X (plain_input (fst ?n) (snd ?n) None []) fresh now S = Inr S1"
    and s: "snd (transition_owner_review X i before after reason fresh now S) =
      update_reviews ?hit (\<lambda>r. r\<lparr>rvw_state := after\<rparr>) S1"
    by (auto simp: transition_owner_review_def with_immediate_tx_def Let_def split: sum.splits prod.splits if_splits)
  note a = review_auditD[OF a]
  have "announces (ulid_text X i) before after ?n" by (rule announce_debug)
  then have "evolves X [?n] S (update_reviews ?hit (\<lambda>r. r\<lparr>rvw_state := after\<rparr>) S1)"
    by (intro evolves_update[where p = ?hit and f = "\<lambda>r. r\<lparr>rvw_state := after\<rparr>" and new = "[]"])
      (use a legal in \<open>auto simp: update_reviews_def same_review_def plain_input_def intro: explains_one\<close>)
  with s show ?thesis by metis
qed

lemma audit_only_evolves:
  assumes "review_audit X a fresh now S = Inr S'"
  shows "evolves X [(an_kind a, an_reason a)] S S'"
  using review_auditD[OF assms] by (auto intro: evolves_same)

lemma refusal_evolves: "\<exists>ns. evolves X ns S (snd (record_owner_review_refusal X i submitted intent reason fresh now S))"
  using audit_only_evolves evolves_same[of X "[]" S S, OF audited_none]
  by (fastforce simp: record_owner_review_refusal_def with_immediate_tx_def split: sum.splits)

lemma inspection_evolves: "\<exists>ns. evolves X ns S (snd (record_owner_review_inspection X i owner binding fresh now S))"
  using audit_only_evolves evolves_same[of X "[]" S S, OF audited_none]
  by (fastforce simp: record_owner_review_inspection_def with_immediate_tx_def split: sum.splits)

text \<open>A decision that changes something wrote its row and its one or two events.\<close>

lemma commit_cases:
  assumes "commit_owner_review_decision X i intent owner binding transition fresh now S = (res, S')"
  obtains (unchanged) "S' = S"
  | (written) r after ns where
    "find_review (ulid_text X i) S = Some r" "rvw_owner_principal_id r = ulid_text X owner"
    "after = rvw_state r \<or> review_can_transition (rvw_state r) after"
    "after = rvw_state r \<or> (\<exists>n\<in>set ns. announces (ulid_text X i) (rvw_state r) after n)"
    "audited X ns (rv_ledger S) (rv_ledger S')"
    "rv_rows S' = rv_rows (update_reviews (\<lambda>q. rvw_id q = ulid_text X i \<and> rvw_owner_principal_id q = ulid_text X owner)
       (\<lambda>q. q\<lparr>rvw_state := after, rvw_last_decision := Some (intent_debug intent),
          rvw_decision_digest := Some (digest_str binding)\<rparr>) S)"
    "rv_links S' = rv_links S"
proof (cases res)
  case (Inl e)
  then have "S' = S"
    using assms by (auto simp: commit_owner_review_decision_def with_immediate_tx_def Let_def
        split: option.splits sum.splits prod.splits if_splits)
  then show thesis by (rule unchanged)
next
  case (Inr b)
  show thesis
  proof (cases "S' = S")
    case False
    from assms Inr False obtain r where r: "find_review (ulid_text X i) S = Some r" "rvw_owner_principal_id r = ulid_text X owner"
      by (auto simp: commit_owner_review_decision_def with_immediate_tx_def Let_def
        split: option.splits sum.splits prod.splits if_splits)
    show thesis
    proof (cases transition)
      case None
      with assms Inr False r show thesis
        by (intro written[OF r, of "rvw_state r"])
          (auto simp: commit_owner_review_decision_def with_immediate_tx_def Let_def update_reviews_def dest!: review_audit_Inr
            split: option.splits sum.splits prod.splits if_splits)
    next
      case (Some ba)
      then obtain before after where t: "transition = Some (before, after)" by (cases ba) auto
      have "announces (ulid_text X i) (rvw_state r) after
          (''owner_review.transitioned'', Some (ulid_text X i @ '':'' @ state_str (rvw_state r) @ ''->'' @ state_str after @ []))"
        by (rule announce_str)
      with assms Inr False r t show thesis
        by (intro written[OF r, of after])
          (auto simp: commit_owner_review_decision_def with_immediate_tx_def Let_def update_reviews_def plain_input_def
            dest!: review_audit_Inr intro: audited_two split: option.splits sum.splits prod.splits if_splits)
    qed
  qed (rule unchanged)
qed

lemma commit_evolves:
  "\<exists>ns. evolves X ns S (snd (commit_owner_review_decision X i intent owner binding transition fresh now S))"
proof -
  obtain res S' where c: "commit_owner_review_decision X i intent owner binding transition fresh now S = (res, S')" by fastforce
  then have "\<exists>ns. evolves X ns S S'"
  proof (cases rule: commit_cases)
    case unchanged
    then show ?thesis using evolves_same[of X "[]" S S, OF audited_none] by blast
  next
    case (written r after ns)
    let ?hit = "\<lambda>q. rvw_id q = ulid_text X i \<and> rvw_owner_principal_id q = ulid_text X owner"
    let ?f = "\<lambda>q. q\<lparr>rvw_state := after, rvw_last_decision := Some (intent_debug intent),
        rvw_decision_digest := Some (digest_str binding)\<rparr>"
    have "evolves X ns S S'"
      by (rule evolves_update[where p = ?hit and f = ?f and new = "[]"])
        (use written in \<open>auto simp: update_reviews_def same_review_def intro: explains_one\<close>)
    then show ?thesis by blast
  qed
  with c show ?thesis by simp
qed

lemma narrow_result:
  assumes "insert_narrowed_owner_review X original binding new_id artifact owner expires_at now fresh clock S = (Inr u, S')"
  shows "rv_links S' = rv_links S"
    "\<exists>d. audited X [(''owner_review.decision'', d),
      (''owner_review.transitioned'', Some (ulid_text X original @ '':pending->narrowed:'' @ ulid_text X new_id)),
      (''owner_review.created'', Some (ulid_text X new_id))] (rv_ledger S) (rv_ledger S')"
    "rv_rows S' = rv_rows (update_reviews (\<lambda>r. rvw_id r = ulid_text X original \<and> rvw_owner_principal_id r = ulid_text X owner \<and>
        rvw_state r = PendingReview) (\<lambda>r. r\<lparr>rvw_state := NarrowedReview, rvw_last_decision := Some ''Narrow'',
        rvw_decision_digest := Some (digest_str binding)\<rparr>) S) @ [pending_row_of X new_id artifact owner expires_at now]"
  using assms
  by (auto simp: insert_narrowed_owner_review_def with_immediate_tx_def Let_def update_reviews_def insert_review_row_def
      plain_input_def dest!: review_audit_Inr split: sum.splits if_splits)
    (meson audited_two)

lemma narrow_evolves:
  "\<exists>ns. evolves X ns S (snd (insert_narrowed_owner_review X original binding new_id artifact owner expires_at now fresh clock S))"
proof (cases "insert_narrowed_owner_review X original binding new_id artifact owner expires_at now fresh clock S")
  case (Pair res S')
  show ?thesis
  proof (cases res)
    case (Inl e)
    with Pair have "S' = S"
      by (auto simp: insert_narrowed_owner_review_def with_immediate_tx_def Let_def split: sum.splits if_splits)
    then show ?thesis using Pair evolves_same[of X "[]" S S, OF audited_none] by auto
  next
    case (Inr u)
    note n = narrow_result[OF Pair[unfolded Inr]]
    have "\<exists>ns. audited X ns (rv_ledger S) (rv_ledger S') \<and> (''owner_review.created'', Some (ulid_text X new_id)) \<in> set ns \<and>
      (''owner_review.transitioned'', Some (ulid_text X original @ '':pending->narrowed:'' @ ulid_text X new_id)) \<in> set ns"
      using n(2) by fastforce
    then obtain ns where ns: "audited X ns (rv_ledger S) (rv_ledger S')"
      "(''owner_review.created'', Some (ulid_text X new_id)) \<in> set ns"
      "(''owner_review.transitioned'', Some (ulid_text X original @ '':pending->narrowed:'' @ ulid_text X new_id)) \<in> set ns" by blast
    have "announces (ulid_text X original) PendingReview NarrowedReview
        (''owner_review.transitioned'', Some (ulid_text X original @ '':pending->narrowed:'' @ ulid_text X new_id))"
      using announce_str[of "ulid_text X original" PendingReview NarrowedReview "'':'' @ ulid_text X new_id"] by simp
    moreover have "review_can_transition PendingReview NarrowedReview" by (simp add: review_can_transition_def)
    ultimately have e: "explains (ulid_text X original) ns PendingReview NarrowedReview" using explains_one ns(3) by blast
    let ?hit = "\<lambda>r. rvw_id r = ulid_text X original \<and> rvw_owner_principal_id r = ulid_text X owner \<and> rvw_state r = PendingReview"
    let ?f = "\<lambda>r. r\<lparr>rvw_state := NarrowedReview, rvw_last_decision := Some ''Narrow'', rvw_decision_digest := Some (digest_str binding)\<rparr>"
    have "evolves X ns S S'"
      by (rule evolves_update[where p = ?hit and f = ?f and new = "[pending_row_of X new_id artifact owner expires_at now]"])
        (use n(3) ns e in \<open>auto simp: update_reviews_def same_review_def pending_row_of_def\<close>)
    with Pair show ?thesis by auto
  qed
qed

lemma upsert_rule_link_fields [simp]:
  "rv_rows (upsert_rule_link k S) = rv_rows S" "rv_ledger (upsert_rule_link k S) = rv_ledger S"
  "rv_rules (upsert_rule_link k S) = rv_rules S"
  by (simp_all add: upsert_rule_link_def)

lemma approve_result:
  assumes "approve_owner_review_and_activate_rule X catalog descriptors i owner binding m now fresh clock S = (Inr u, S')"
  shows "\<exists>r. find_review (ulid_text X i) S = Some r \<and> rvw_state r = PendingReview \<and> rvw_owner_principal_id r = ulid_text X owner"
    "activate_standing_rule_in_tx X catalog descriptors m None now (rv_rules S) = Inr ((), rv_rules S')"
    "\<exists>d. audited X [(''owner_review.decision'', d),
      (''owner_review.transitioned'', Some (ulid_text X i @ '':pending->approved''))] (rv_ledger S) (rv_ledger S')"
    "rv_rows S' = rv_rows (update_reviews (\<lambda>q. rvw_id q = ulid_text X i \<and> rvw_state q = PendingReview)
        (\<lambda>q. q\<lparr>rvw_state := ApprovedReview, rvw_last_decision := Some (intent_debug Approve_intent),
           rvw_decision_digest := Some (digest_str binding)\<rparr>) S)"
    "rv_links S' = rv_links (upsert_rule_link \<lparr>rvk_review_id = ulid_text X i, rvk_rule_id = sm_id m, rvk_rule_version = sm_version m\<rparr> S)"
  using assms
  by (auto simp: approve_owner_review_and_activate_rule_def reject_incomplete_scope_binding_def with_immediate_tx_def Let_def
      update_reviews_def plain_input_def find_review_def upsert_rule_link_def dest!: review_audit_Inr
      split: sum.splits if_splits option.splits prod.splits) (meson audited_two)+

lemma approved_evolves:
  assumes "\<exists>d. audited X [(''owner_review.decision'', d),
      (''owner_review.transitioned'', Some (i @ '':pending->approved''))] (rv_ledger S) (rv_ledger S')"
    and "rv_rows S' = rv_rows (update_reviews hit (\<lambda>q. q\<lparr>rvw_state := ApprovedReview, rvw_last_decision := a,
      rvw_decision_digest := b\<rparr>) S)"
    and "\<And>q. hit q \<Longrightarrow> rvw_id q = i \<and> rvw_state q = PendingReview"
  shows "\<exists>ns. evolves X ns S S'"
proof -
  have "\<exists>ns. audited X ns (rv_ledger S) (rv_ledger S') \<and>
    (''owner_review.transitioned'', Some (i @ '':pending->approved'')) \<in> set ns" using assms(1) by fastforce
  then obtain ns where ns: "audited X ns (rv_ledger S) (rv_ledger S')"
    "(''owner_review.transitioned'', Some (i @ '':pending->approved'')) \<in> set ns" by blast
  have "announces i PendingReview ApprovedReview (''owner_review.transitioned'', Some (i @ '':pending->approved''))"
    using announce_str[of i PendingReview ApprovedReview "[]"] by simp
  moreover have "review_can_transition PendingReview ApprovedReview" by (simp add: review_can_transition_def)
  ultimately have e: "explains i ns PendingReview ApprovedReview" using explains_one ns(2) by blast
  let ?f = "\<lambda>q. q\<lparr>rvw_state := ApprovedReview, rvw_last_decision := a, rvw_decision_digest := b\<rparr>"
  have "evolves X ns S S'"
    by (rule evolves_update[where p = hit and f = ?f and new = "[]"])
      (use assms(2,3) ns e in \<open>auto simp: update_reviews_def same_review_def\<close>)
  then show ?thesis by blast
qed

lemma activation_result:
  assumes "activation_review_approval X i owner binding rule_id rule_version fresh clock S = Inr S'"
  shows "\<exists>r. find_review (ulid_text X i) S = Some r \<and> rvw_state r = PendingReview \<and> rvw_owner_principal_id r = ulid_text X owner"
    "\<exists>d. audited X [(''owner_review.decision'', d),
      (''owner_review.transitioned'', Some (ulid_text X i @ '':pending->approved''))] (rv_ledger S) (rv_ledger S')"
    "rv_rows S' = rv_rows (update_reviews (\<lambda>r. rvw_id r = ulid_text X i \<and> rvw_owner_principal_id r = ulid_text X owner \<and>
        rvw_state r = PendingReview) (\<lambda>q. q\<lparr>rvw_state := ApprovedReview, rvw_last_decision := Some (intent_debug Approve_intent),
           rvw_decision_digest := Some (digest_str binding)\<rparr>) S)"
    "rv_links S' = rv_links (upsert_rule_link \<lparr>rvk_review_id = ulid_text X i, rvk_rule_id = rule_id, rvk_rule_version = rule_version\<rparr> S)"
  using assms
  by (auto simp: activation_review_approval_def Let_def update_reviews_def plain_input_def upsert_rule_link_def
      dest!: review_audit_Inr split: sum.splits if_splits) (meson audited_two)+

lemma approve_evolves:
  "\<exists>ns. evolves X ns S (snd (approve_owner_review_and_activate_rule X catalog descriptors i owner binding m now fresh clock S))"
proof (cases "approve_owner_review_and_activate_rule X catalog descriptors i owner binding m now fresh clock S")
  case (Pair res S')
  show ?thesis
  proof (cases res)
    case (Inl e)
    with Pair have "rv_rows S' = rv_rows S \<and> rv_ledger S' = rv_ledger S"
      by (auto simp: approve_owner_review_and_activate_rule_def reject_incomplete_scope_binding_def with_immediate_tx_def Let_def
          split: sum.splits if_splits option.splits prod.splits)
    then show ?thesis using Pair evolves_same[of X "[]" S S'] audited_none by auto
  next
    case (Inr u)
    note a = approve_result[OF Pair[unfolded Inr]]
    show ?thesis using approved_evolves[OF a(3,4)] Pair by simp
  qed
qed

section \<open>Runs\<close>

text \<open>
  Any call of the store of reviews, the approval of a review in the transaction that activates its
  artifact, and whatever the rest of the kernel does to the ledger and to the standing rules. (The
  rest of that transaction is such a step before the approval; when the approval fails it is
  rolled back.)
\<close>

inductive review_step :: "ext \<Rightarrow> review_store \<Rightarrow> review_store \<Rightarrow> bool" for X where
  step_insert: "review_step X S (snd (insert_owner_review X i artifact owner expires_at now fresh clock S))"
| step_transition: "review_step X S (snd (transition_owner_review X i before after reason fresh' now S))"
| step_refusal: "review_step X S (snd (record_owner_review_refusal X i submitted intent reason fresh' now S))"
| step_inspection: "review_step X S (snd (record_owner_review_inspection X i owner binding fresh' now S))"
| step_commit: "review_step X S (snd (commit_owner_review_decision X i intent owner binding transition fresh'' now S))"
| step_narrow: "review_step X S (snd (insert_narrowed_owner_review X i binding new_id artifact owner expires_at now fresh'' clock S))"
| step_approve: "review_step X S (snd (approve_owner_review_and_activate_rule X catalog descriptors i owner binding m now fresh'' clock S))"
| step_activation: "activation_review_approval X i owner binding rule_id rule_version fresh'' clock S = Inr S' \<Longrightarrow> review_step X S S'"
| step_rest: "audited X ns (rv_ledger S) L \<Longrightarrow> review_step X S (S\<lparr>rv_ledger := L, rv_rules := R\<rparr>)"

lemma step_evolves: "review_step X S S' \<Longrightarrow> \<exists>ns. evolves X ns S S'"
proof (induction rule: review_step.induct)
  case (step_activation i owner binding rule_id rule_version fresh'' clock S S')
  show ?case by (rule approved_evolves[OF activation_result(2,3)[OF step_activation]]) simp
next
  case (step_rest ns S L R)
  then have "evolves X ns S (S\<lparr>rv_ledger := L, rv_rules := R\<rparr>)" by (intro evolves_same) simp_all
  then show ?case by blast
qed (rule insert_evolves transition_evolves refusal_evolves inspection_evolves commit_evolves narrow_evolves approve_evolves)+

lemma steps_evolve: "(review_step X)\<^sup>*\<^sup>* S S' \<Longrightarrow> \<exists>ns. evolves X ns S S'"
proof (induction rule: rtranclp_induct)
  case base
  then show ?case using evolves_same[of X "[]" S S, OF audited_none] by blast
next
  case (step S1 S2)
  then show ?case using step_evolves evolves_trans by blast
qed

text \<open>
  C27. Over any calls of the store of reviews, interleaved with anything the rest of the kernel
  writes, each review keeps its identifier, artifact, owner and deadlines, and its state changes
  only along legal transitions each of which the ledger announces, in order. A review that was not
  there before is announced as created and starts out pending.\<close>

theorem review_history_explained:
  assumes "wf_ext X" "rows_inv X (rv_ledger S)" "(review_step X)\<^sup>*\<^sup>* S S'"
  shows "\<exists>es. ledger_events (rv_ledger S') = ledger_events (rv_ledger S) @ es \<and>
    (\<forall>i. case find_review i S of
       Some r \<Rightarrow> (\<exists>r'. find_review i S' = Some r' \<and> same_review r r' \<and>
         explains i (map note_of es) (rvw_state r) (rvw_state r'))
     | None \<Rightarrow> (\<forall>r'. find_review i S' = Some r' \<longrightarrow> (''owner_review.created'', Some i) \<in> set (map note_of es) \<and>
         explains i (map note_of es) PendingReview (rvw_state r')))"
proof -
  from steps_evolve[OF assms(3)] obtain ns where ev: "evolves X ns S S'" by blast
  then have "audited X ns (rv_ledger S) (rv_ledger S')" by (simp add: evolves_def)
  from audited_events[OF this assms(1,2)] obtain es where
    es: "ledger_events (rv_ledger S') = ledger_events (rv_ledger S) @ es" "ns = map note_of es" by blast
  have "\<forall>i. accounted i (map note_of es) (find_review i S) (find_review i S')" using ev es(2) by (simp add: evolves_def)
  with es(1) show ?thesis unfolding accounted_def by blast
qed

section \<open>One rule for a review\<close>


















text \<open>
  The rule need not be active: when the store already has a row of that rule and version, in any
  status, the approval succeeds and leaves the standing rules as they are.
\<close>

lemma approval_of_known_version:
  assumes "approve_owner_review_and_activate_rule X catalog descriptors i owner binding m now fresh clock S = (Inr u, S')"
    and "find_rule (rv_rules S) (sm_id m) = Some r" "sr_version r = sm_version m"
  shows "rv_rules S' = rv_rules S"
  using approve_result(2)[OF assms(1)] assms(2,3)
  by (auto simp: activate_standing_rule_in_tx_def with_nanos_def Let_def split: sum.splits option.splits if_splits)

section \<open>Witnesses\<close>

lemma review_audit_roomy:
  assumes "wf_ext X" "rows_inv X (rv_ledger S)" "an_kind a \<noteq> []" "ulid_text X fresh \<notin> lr_id ` set (lg_rows (rv_ledger S))"
    "length (ledger_events (rv_ledger S)) < 10"
  obtains L where "review_audit X a fresh now S = Inr (S\<lparr>rv_ledger := L\<rparr>)" "rows_inv X L"
    "length (ledger_events L) = Suc (length (ledger_events (rv_ledger S)))"
    "lr_id ` set (lg_rows L) = insert (ulid_text X fresh) (lr_id ` set (lg_rows (rv_ledger S)))"
proof -
  obtain e L where "append_audit_conn_with_actor X a fresh now (rv_ledger S) = Inr (e, L)" "rows_inv X L"
    "ledger_events L = ledger_events (rv_ledger S) @ [e]" "lr_id ` set (lg_rows L) = insert (ulid_text X fresh) (lr_id ` set (lg_rows (rv_ledger S)))"
    by (rule append_roomy[OF assms(1-4)]) (use assms(5) in auto)
  then show thesis by (intro that[of L]) (simp_all add: review_audit_def)
qed

definition ex_review_ref :: artifact_ref where
  "ex_review_ref = \<lparr>ar_digest = digest_of ex_run_ext JNull, ar_schema_version = 1\<rparr>"

definition ex_reviews :: review_store where
  "ex_reviews = \<lparr>rv_rows = [], rv_links = [], rv_rules = empty_store, rv_ledger = empty_ledger\<rparr>"

definition ex_review_row :: review_row where
  "ex_review_row = pending_row_of ex_run_ext 4 ex_review_ref 7 90 50"

lemma ex_row_fields: "rvw_id ex_review_row = ulid_text ex_run_ext 4" "rvw_state ex_review_row = PendingReview"
    "rvw_owner_principal_id ex_review_row = ulid_text ex_run_ext 7"
  by (simp_all add: ex_review_row_def pending_row_of_def)

lemma empty_ledger_facts:
  "rows_inv ex_run_ext empty_ledger" "ledger_events empty_ledger = []" "lg_rows empty_ledger = []"
  by (simp_all add: ledger_run_rows(1)[OF wf_ex_run(1)] ledger_run_def) (simp_all add: empty_ledger_def ledger_events_def)

lemma ex_inserted:
  obtains L where "insert_owner_review ex_run_ext 4 ex_review_ref 7 90 50 0 50 ex_reviews =
      (Inr (), ex_reviews\<lparr>rv_ledger := L, rv_rows := [ex_review_row]\<rparr>)"
    "rows_inv ex_run_ext L" "length (ledger_events L) = 1" "lr_id ` set (lg_rows L) = {ulid_text ex_run_ext 0}"
proof -
  have l: "rv_ledger ex_reviews = empty_ledger" "rv_rows ex_reviews = []" by (simp_all add: ex_reviews_def)
  obtain L where L: "review_audit ex_run_ext (plain_input ''owner_review.created'' (Some (ulid_text ex_run_ext 4)) None [ex_review_ref])
      0 50 ex_reviews = Inr (ex_reviews\<lparr>rv_ledger := L\<rparr>)" "rows_inv ex_run_ext L" "length (ledger_events L) = 1"
      "lr_id ` set (lg_rows L) = {ulid_text ex_run_ext 0}"
    by (rule review_audit_roomy[OF wf_ex_run(1), of ex_reviews])
      (auto simp: l empty_ledger_facts plain_input_def)
  then show thesis
    by (intro that[of L]) (simp_all add: insert_owner_review_def with_immediate_tx_def insert_review_row_def find_review_def
        l ex_review_row_def)
qed

theorem review_history_explained_witness:
  "\<exists>S es r. (review_step ex_run_ext)\<^sup>*\<^sup>* ex_reviews S \<and> ledger_events (rv_ledger S) = es \<and>
     find_review (ulid_text ex_run_ext 4) S = Some r \<and> rvw_state r = RejectedReview \<and>
     (''owner_review.created'', Some (ulid_text ex_run_ext 4)) \<in> set (map note_of es) \<and>
     explains (ulid_text ex_run_ext 4) (map note_of es) PendingReview RejectedReview"
proof -
  let ?i = "ulid_text ex_run_ext 4"
  obtain L where S1: "insert_owner_review ex_run_ext 4 ex_review_ref 7 90 50 0 50 ex_reviews =
      (Inr (), ex_reviews\<lparr>rv_ledger := L, rv_rows := [ex_review_row]\<rparr>)" "rows_inv ex_run_ext L"
    "length (ledger_events L) = 1" "lr_id ` set (lg_rows L) = {ulid_text ex_run_ext 0}" by (rule ex_inserted)
  let ?S1 = "ex_reviews\<lparr>rv_ledger := L, rv_rows := [ex_review_row]\<rparr>"
  let ?S2 = "snd (transition_owner_review ex_run_ext 4 PendingReview RejectedReview ''no'' 1 51 ?S1)"
  obtain L2 where "review_audit ex_run_ext (plain_input ''owner_review.transitioned'' (Some (?i @ '':'' @
      state_debug PendingReview @ ''->'' @ state_debug RejectedReview @ '':'' @ ''no'')) None []) 1 51 ?S1 =
      Inr (?S1\<lparr>rv_ledger := L2\<rparr>)"
    by (rule review_audit_roomy[OF wf_ex_run(1), of ?S1]) (use S1 in \<open>auto simp: plain_input_def ex_run_text_eq\<close>)
  then have r: "find_review ?i ?S2 = Some (ex_review_row\<lparr>rvw_state := RejectedReview\<rparr>)"
    by (simp add: transition_owner_review_def review_can_transition_def with_immediate_tx_def update_reviews_def
        find_review_def ex_row_fields Let_def)
  have "review_step ex_run_ext ex_reviews ?S1" using step_insert[of ex_run_ext ex_reviews 4 ex_review_ref 7 90 50 0 50] S1(1) by simp
  moreover have "review_step ex_run_ext ?S1 ?S2" by (rule step_transition)
  ultimately have run: "(review_step ex_run_ext)\<^sup>*\<^sup>* ex_reviews ?S2"
    by (rule converse_rtranclp_into_rtranclp[OF _ r_into_rtranclp])
  have "rows_inv ex_run_ext (rv_ledger ex_reviews)" "ledger_events (rv_ledger ex_reviews) = []" "find_review ?i ex_reviews = None"
    by (simp_all add: ex_reviews_def empty_ledger_facts find_review_def)
  with review_history_explained[OF wf_ex_run(1) _ run] r obtain es where "ledger_events (rv_ledger ?S2) = es"
    "(''owner_review.created'', Some ?i) \<in> set (map note_of es)" "explains ?i (map note_of es) PendingReview RejectedReview"
    by (auto dest!: spec[of _ ?i])
  with run r show ?thesis by (intro exI[of _ ?S2] exI[of _ es] exI) auto
qed




end
