(* ===== verification/Spec2Isabelle.thy ===== *)
theory Spec2Isabelle
  imports Grant_Integrity Equivalence Routing Briefcase_Invariant Fired_Tokens Event_Bus Timer_Firing Machine_Life
    Task_Wakes Dispatch_Once Board_Bounds Review_Contract Review_Lifecycle
begin

text \<open>
  A verification development of the authority core of OpenSpine: the code that turns declarative
  artifacts into a task grant, seals the grant, narrows it for workers, decides every action
  requested under it, keeps the owner's standing rules, records everything in a hash-chained
  ledger, runs workflows that survive crashes on top of it, and dispatches the tasks on its board.

  \<^bold>\<open>The program.\<close> OpenSpine is a kernel that stands between an untrusted agent process (the
  shell) and the owner's accounts. An inbound event is matched against routes
  (\<open>openspine-authority/src/route.rs\<close>); the route, the identity of the sender and the active
  agent, workflow, capability pack and policies are merged into a task grant
  (\<open>compose.rs\<close>), which the kernel seals with a chained HMAC
  (\<open>openspine-schemas/src/grant_chain.rs\<close>). The shell presents the grant with each action
  request, and the gate (\<open>openspine-gate/src/gate.rs\<close>) answers allow, deny, ask the owner, or
  suppress. A workflow may commission a worker under a narrowed sub-grant
  (\<open>worker_grant.rs\<close>), and grants composed alike form one equivalence class
  (\<open>equivalence.rs\<close>). Approved habits become standing rules with budgets
  (\<open>openspine-kernel/src/store/standing_rules.rs\<close>) once the owner has approved a review of them
  (\<open>store/owner_review.rs\<close>). Tasks with deadlines and dependencies wait on a board
  (\<open>store/task_board.rs\<close>) until a fired timer or a finished dependency dispatches them
  (\<open>pipeline/timer_dispatch.rs\<close>). Every decision is appended to the audit ledger
  (\<open>store/audit_append.rs\<close>), whose rows feed consumers (\<open>store/event_bus.rs\<close>) and are the only
  memory of a workflow run (\<open>workflow.rs\<close>, \<open>workflow_state_machine.rs\<close>).

  \<^bold>\<open>The theories, in dependency order.\<close>

  \<^item> \<open>Prelude\<close>: machine types, strings, panics, the \<open>f64\<close> comparisons, the sorting and
    deduplicating list functions of the standard library.
  \<^item> \<open>Canonical_Json\<close> (\<open>schemas/digest.rs\<close>): the record \<open>ext\<close> of third-party functions
    with its named hypothesis \<open>wf_ext\<close>, JSON values, the recursive key sort with the
    object cases of the code, the digest text, its parser and the in-place comparison. Digests are
    shown independent of entry order, and the comparison equal to parsing and comparing.
  \<^item> \<open>Vocabulary\<close> (\<open>schemas/event.rs\<close>, \<open>identity.rs\<close>, \<open>ids.rs\<close>, \<open>artifact.rs\<close>,
    \<open>egress.rs\<close>, \<open>provenance.rs\<close>): the closed enumerations, the event envelope, the identity
    resolution and the lifecycle machine with its reachability facts.
  \<^item> \<open>Delegation\<close> (\<open>schemas/delegation_contract.rs\<close>): the delegation contract and its
    validation in the order of the code's checks.
  \<^item> \<open>Catalog\<close> (\<open>schemas/action.rs\<close>, \<open>action/catalog_metadata.rs\<close>, \<open>selection.rs\<close>,
    \<open>approval.rs\<close>): the action catalog with its builders and lookups, selection tokens, approval
    records, requests, reasons and decisions.
  \<^item> \<open>Grant_Chain\<close> (\<open>schemas/grant.rs\<close>, \<open>grant_chain.rs\<close>): the grant, its hops and caveats,
    the root commitment, the tip computation, structural validity, sealing and the effective
    authority. The locale \<open>allowlist_axis\<close> states once what every allowlist caveat does
    (adding a caveat can only narrow) and is interpreted on the five axes of the code.
  \<^item> \<open>Gate\<close> (\<open>gate/gate.rs\<close>): \<open>resolve\<close> and \<open>gate\<close> with every early return, refined by
    the declarative predicates \<open>authentic\<close>, \<open>in_force\<close>, \<open>permits\<close> and \<open>asks\<close>.
  \<^item> \<open>Artifacts\<close> (\<open>schemas/agent.rs\<close>, \<open>policy.rs\<close>, \<open>pack.rs\<close>, \<open>route.rs\<close>,
    \<open>persona.rs\<close>, \<open>worker.rs\<close>) and \<open>Workflow_Manifest\<close> (\<open>schemas/workflow.rs\<close>): the
    artifact records, the pack match, workflow validation and its Mermaid rendering.
  \<^item> \<open>Worker_Grant\<close> (\<open>authority/worker_grant.rs\<close>): minting, the relation \<open>delegated\<close> of
    grants reachable by minting, and the narrowing theorems.
  \<^item> \<open>Grant_Integrity\<close> (\<open>schemas/grant_chain.rs\<close>): what a verified tag binds.
  \<^item> \<open>Composition\<close> (\<open>authority/compose.rs\<close>, \<open>project_catalog.rs\<close>): the merge with its
    precedence, every non-grant outcome, the one panic, and the tool projection.
  \<^item> \<open>Equivalence\<close> (\<open>authority/equivalence.rs\<close>): class identity, grouping (the locale
    \<open>grouping\<close>, interpreted on the insertion-sorted map of the code), resolution and selection.
  \<^item> \<open>Routing\<close> (\<open>authority/route.rs\<close>, \<open>persona_binding.rs\<close>): route matching, conflict
    resolution by deny, priority and specificity, and the persona binding.
  \<^item> \<open>Disclosure\<close> (\<open>schemas/disclosure_policy.rs\<close>): disclosure classes and policies, the
    redaction of a query, the binding of a prepared query, and the two-stage egress check.
  \<^item> \<open>Briefcase\<close> and \<open>Briefcase_Invariant\<close> (\<open>schemas/briefcase.rs\<close>, \<open>briefcase/ops.rs\<close>,
    \<open>briefcase/topup.rs\<close>, \<open>kernel/briefcase.rs\<close>, \<open>kernel/disclosure/preparation.rs\<close>):
    packing a task's context, worker views, exports and top-ups; the briefcases reachable by
    packing and top-ups and their invariant.
  \<^item> \<open>Reviewed_Scope\<close> (\<open>schemas/resolved_context.rs\<close>, \<open>reviewed_scope.rs\<close>,
    \<open>reviewed_scope_narrow.rs\<close>): the context an action is resolved to, the scope an owner
    reviews, and the exact comparison of the two.
  \<^item> \<open>Standing_Rules\<close> (\<open>schemas/standing_rule.rs\<close>, \<open>kernel/action_catalog_contracts.rs\<close>, the
    tables of \<open>kernel/store/standing_rules_schema.rs\<close>) and \<open>Rule_Operations\<close>
    (\<open>kernel/store/standing_rules*.rs\<close>, \<open>kernel/standing_rules_gate.rs\<close>): the manifest and its
    guards, the tables as lists of rows, and every operation on them as a function of the store.
    \<open>with_immediate_tx\<close> keeps the writes of a closure that succeeds and drops the others.
  \<^item> \<open>Rule_Invariant\<close>: the relation \<open>run\<close> of stores reachable by any sequence of those
    operations, with fresh ids and any non-negative clock, the five ways in which one of them
    changes the tables, and the invariants of rules and exceptions.
  \<^item> \<open>Rule_Budget\<close>: the locale \<open>sliding_window\<close> (a charge that leaves every window within its
    bound keeps it so), interpreted on the usage table, and the budget and exception bounds. The
    width of a window is the one the code computes, wrapped to 64 bits; it is the reviewed one for
    windows below 2^63 nanoseconds, and a window whose computed width is negative has no bound.
  \<^item> \<open>Rule_Admission\<close>: when a rule admits an action, and what withdrawing a rule takes away.
    \<open>Fired_Tokens\<close>: the marks of an exception and how transactions move them; a token is spent
    once unless it is re-armed, and never after its effect was attempted.
  \<^item> \<open>Audit_Ledger\<close> (\<open>schemas/audit.rs\<close>, \<open>schemas/event_bus.rs\<close>,
    \<open>kernel/store/audit_append.rs\<close>, \<open>audit_support.rs\<close>, \<open>event_bus.rs\<close>, \<open>event_bus_scan.rs\<close>,
    \<open>workflow_timers.rs\<close>): the hash-chained audit log with its aggregate sequences, verification and
    validating replay, the registry of workflow steps and the durable timers.
  \<^item> \<open>Ledger_Integrity\<close>: the relation \<open>ledger_step\<close> of all writes, the invariant of the rows and
    the round trip of the canonical metadata. \<open>Ledger_Evidence\<close>: what a verified ledger proves
    (rewriting history needs a SHA-256 collision; the row numbers alone are not under the hash, and
    lowering them below one hides the oldest events from a replay), the chain of every reachable ledger, write-once step
    records and the totality of appends. \<open>Ledger_Log\<close>: the locale \<open>append_only_log\<close> (what holds of
    a log that only grows), interpreted on the ledger, and when a write is accepted.
  \<^item> \<open>Event_Bus\<close> (\<open>kernel/store/event_bus.rs\<close>): consumer checkpoints and the idempotent consumer,
    with any handler. The relation \<open>bus_run\<close> lets it die between any two events and between a
    handler call and the write of its checkpoint: delivery is in order and at least once, with no
    more repetitions than crashes.
  \<^item> \<open>Timer_Firing\<close> (\<open>kernel/store/workflow_timers.rs\<close>): timers fire once, never early, and the
    sweep leaves none due.
  \<^item> \<open>Workflow_Engine\<close> (\<open>kernel/workflow.rs\<close>): a run rehydrated from the ledger, beginning,
    receipting and completing a step, recorded reads and timers. \<open>Workflow_Replay\<close>: the relation
    \<open>engine_run\<close> of the engine's operations with failures and restarts, the agreement of memory and
    ledger as its invariant, and faithful replay.
  \<^item> \<open>Workflow_Machine\<close> (\<open>kernel/workflow_state_machine.rs\<close>, the adapters and the replay
    validation of \<open>kernel/workflow.rs\<close>, the lookups of \<open>kernel/store/gate_support.rs\<close>): declarative
    state machines over the engine. \<open>Machine_Recovery\<close>: the abstract machine \<open>flow\<close> of a manifest,
    accepted histories as its runs, and what one durable step does. \<open>Machine_Life\<close>: the relation
    \<open>machine_life\<close> of a machine that is kept, retried, lost and built again, refinement of the
    manifest, the approval gate, recovery and progress. A machine that went on past a step a
    failure left open is followed until it is lost, not beyond: what a restart builds then is
    stated, but it has its cursor back at the open step and may be unable to go on.
  \<^item> \<open>Task_Board\<close> (\<open>schemas/task.rs\<close>, \<open>kernel/store/task_board.rs\<close>, \<open>task_dispatch.rs\<close>,
    \<open>budget_support.rs\<close>): tasks, their timers, the bounded slices, blocking, the dispatch table,
    grant rows and counters, dependency waiters and the polls that wake them. \<open>Board_Invariant\<close>: the
    relation \<open>board_run\<close> of boards that calls of the store produce, and the consistency of their
    tables. \<open>Task_Wakes\<close>: a poll as one pass over the waiting groups. \<open>Board_Bounds\<close>: what a slice
    shows, and the budgets of grants.
  \<^item> \<open>Timer_Dispatch\<close> (\<open>kernel/pipeline/timer_dispatch.rs\<close> and the grant and run stages of
    \<open>pipeline/driver.rs\<close>): the handlers of fired timers and wakes, recovery and the consumer pass.
    \<open>Given_Once\<close>: the locale of systems that give a value to a key once, and its extension to values
    that stay. \<open>Dispatch_Once\<close>: its interpretation on dispatch keys and grants, and acknowledgement.
  \<^item> \<open>Owner_Review\<close> (\<open>schemas/delegation_evidence.rs\<close>, \<open>owner_review.rs\<close>,
    \<open>owner_review_narrow.rs\<close>): evidence, the review object, its digest, its construction and its
    narrowing. \<open>Review_Contract\<close>: when a review can be made and what narrowings may change.
    \<open>Review_Store\<close> (\<open>kernel/store/owner_review.rs\<close>, \<open>owner_review_schema.rs\<close>,
    \<open>owner_review_approval.rs\<close>, the review part of \<open>commit_artifact_activation\<close> in
    \<open>store/activation.rs\<close>): the rows of reviews, their links to rules, and every operation that
    writes or looks up one of them. Read-only surveys of all reviews (\<open>store/package_review_work.rs\<close>,
    \<open>package_outstanding_work.rs\<close>) and the rest of an activation are not modelled.
    \<open>Review_Lifecycle\<close>: the relation \<open>review_step\<close> of its calls, the account the ledger gives of
    every review, and the interpretation of \<open>given_forever\<close> on reviews and standing rules.
  \<^item> This theory: the properties that span components, from a resolved route to a composed and
    sealed grant, its worker, and the gate's answer.

  \<^bold>\<open>How state and operations correspond.\<close> A struct is a record whose fields carry a two-letter
  prefix, an enum a datatype with the source's constructors (suffixed where HOL or another enum
  has the name), a function a definition of the same name. A \<open>Result\<close> is a sum with the error
  on the left, a panic the outer left sum. Timestamps are signed nanosecond counts, ids 128-bit
  words, counters words of the source's width; \<open>HashMap\<close>s are maps, ordered maps sorted
  association lists. The clock, fresh identifiers and random bytes are arguments of the
  operations that draw them. Iteration over an unordered map is modelled only where the result
  does not depend on the order.

  \<^bold>\<open>Parameters.\<close> \<open>ext\<close> holds what the code takes from third-party crates: the compact JSON
  serializer and the parser, SHA-256, HMAC-SHA256, the text forms of ULIDs and timestamps, the largest
  timestamp and the lower-casing of non-ASCII text. \<open>wf_ext\<close> states that HMAC and SHA-256 return 32
  bytes, \<open>wf_serde\<close> (where text is read back) that parsing the serialization of a value gives the
  value with sorted keys. \<open>text_parsers\<close> holds the parsers of ULID and timestamp text, and
  \<open>wf_parsers\<close> says that they invert the text forms. Nothing assumes collision freedom: the
  integrity theorems name the collision instead. The handler of a consumer is an argument. A
  scheduled run takes two more (\<open>dispatch_env\<close>): the pipeline before a grant is persisted, which may
  append to the ledger and returns an error, a refusal or a grant, and the sandboxed shell, which
  succeeds or fails while the rest of the kernel changes the board; \<open>quiet\<close> says that it does not
  write the dispatch table, which only the dispatcher does.

  \<^bold>\<open>Termination.\<close> Every modelled loop is structural or a fold, so every definition is a total
  function and no fuel is used.

  \<^bold>\<open>The store.\<close> A table is the list of its rows in insertion order, \<open>UPDATE\<close> a map, \<open>DELETE\<close>
  a filter, \<open>COUNT\<close> the length of a filter. \<open>ORDER BY version DESC\<close> leaves rows of equal version
  in table order. Integer columns are checked or wrapped at 64 bits where the Rust code computes
  them; the switch of SQLite to floating point on overflow inside a statement, and failures of
  the database itself, are not represented. In the ledger the column \<open>event_json\<close> is kept
  decoded, \<open>ts\<close> parsed and the metadata as the text that is hashed; the three entry points of an
  append pass no value for the fields they lack. The standing-rule operations record an audit entry
  as the row of its kind, action, reason and grant; an approval of a review, which activates a rule
  and writes to the ledger in one transaction, keeps both accounts. A failing operation returns an error and leaves
  the ledger as it was, which also stands for a process that dies before it commits.

  \<^bold>\<open>Not modelled.\<close> Serde decoding of artifact files, the other tables of the store, the pipeline
  before a grant is persisted, the handlers of owner surfaces, the HTTP interface, connectors, the
  model gateway, the sandbox and the command line: mostly input and output around the logic above. Of the workflow engine, steps with private payloads, the gated
  dispatch and the endless loop of the timer driver, which run on the artifact store, the pipeline
  and the asynchronous runtime; its single iteration is the sweep above. The gate's egress classifier, which no decision reads, is left
  out, as are the switches with which tests make a store operation fail.
\<close>

section \<open>From composition to the gate\<close>

text \<open>What the gate decides for a freshly sealed root grant.\<close>

lemma resolve_sealed:
  assumes "wf_ext X" "tg_id g \<noteq> nil_ulid" "tg_root_grant_id g = nil_ulid"
    and "grant_hmac_key ctx = Some key"
  shows "resolve X (seal_root X key g) req orig ctx catalog now =
    (if tg_expires_at g \<le> now then Deny GrantExpired
     else if \<not> catalog_contains catalog (rq_action req) then Deny UnknownAction
     else if orig = Shell \<and> rq_action req \<in> set (tg_denied_actions g) then Deny ExplicitDeny
     else (case egress_denial (seal_root X key g) req catalog of
         Some reason \<Rightarrow> Deny reason
       | None \<Rightarrow>
           if orig = Kernel
           then (if is_kernel_origin catalog (rq_action req) then Allow
                 else Deny KernelOriginNotTrusted)
           else (case Option.bind (requires_selection_token catalog (rq_action req))
                   (\<lambda>ty. validate_selection_token (seal_root X key g) req ty ctx now) of
               Some reason \<Rightarrow> Deny reason
             | None \<Rightarrow>
                 if rq_action req \<in> set (tg_approval_required_actions g)
                 then resolve_approval_required req ctx now
                 else if rq_action req \<in> set (tg_allowed_actions g) then Allow
                 else Deny NotGranted)))"
proof -
  have "chain_valid X (seal_root X key g) ctx" "bindings_valid (seal_root X key g)"
    using seal_root_authentic [OF assms] by (simp_all add: authentic_iff)
  then show ?thesis
    unfolding resolve_def seal_root_effective seal_root_fields seal_root_caveats by simp
qed

lemma composed_unsealed:
  assumes "compose_authority X i catalog now fresh random = Inr (Granted g)"
  shows "tg_id g = fresh" "tg_root_grant_id g = nil_ulid" "tg_mode g = Live"
    "tg_selection_tokens g = []"
    "set (tg_allowed_actions g) = gathered_allow i - gathered_approval i - gathered_deny i"
    "set (tg_approval_required_actions g) = gathered_approval i - gathered_deny i"
    "set (tg_denied_actions g) = gathered_deny i"
  using assms by (auto simp: compose_authority_Granted merged_iff)

text \<open>
  C31. End to end, from the declarative sources to a decision. A grant is composed from an input
  and sealed; before it expires, a shell request for a catalogued action that has no egress
  rating, needs no selection token and has no recorded approval is denied if any source denies
  the action, put to the owner if some source requires approval, allowed if some source offers
  it within both policies, and otherwise denied.
\<close>

theorem composed_authority_decides:
  assumes "wf_ext X" "compose_authority X i catalog issued fresh random = Inr (Granted g)"
    and "fresh \<noteq> nil_ulid" "grant_hmac_key ctx = Some key" "now < tg_expires_at g"
    and "catalog_contains catalog (rq_action req)"
    and "egress_decl_for catalog (rq_action req) =
      Some \<lparr>ed_output_channels = None, ed_egress_class = None\<rparr>"
    and "requires_selection_token catalog (rq_action req) = None"
    and "approval_for_request ctx (rq_id req) = None"
  shows "go_decision (gate X (seal_root X key g) req Shell ctx catalog now) =
    (if rq_action req \<in> gathered_deny i then Deny ExplicitDeny
     else if rq_action req \<in> gathered_approval i then ApprovalRequired (as_str (rq_action req))
     else if rq_action req \<in> gathered_allow i then Allow
     else Deny NotGranted)"
proof -
  note g = composed_unsealed [OF assms(2)]
  have "egress_denial (seal_root X key g) req catalog = None"
    using assms(7) by (simp add: egress_denial_def)
  moreover have "resolve_approval_required req ctx now = ApprovalRequired (as_str (rq_action req))"
    using assms(9) by (simp add: resolve_approval_required_def)
  ultimately have "resolve X (seal_root X key g) req Shell ctx catalog now =
    (if rq_action req \<in> gathered_deny i then Deny ExplicitDeny
     else if rq_action req \<in> gathered_approval i then ApprovalRequired (as_str (rq_action req))
     else if rq_action req \<in> gathered_allow i then Allow
     else Deny NotGranted)"
    using assms g by (simp add: resolve_sealed)
  then show ?thesis using g(3) by (simp add: gate_decision)
qed

text \<open>
  A worker of a composed grant never interrupts the owner: actions that need approval are
  not in the list a commission may draw from, so under a worker grant minted from a sealed
  composed grant no request, of any origin, at any time, is answered with an approval request.
\<close>

theorem composed_worker_never_asks:
  assumes "wf_ext X" "compose_authority X i catalog issued fresh random = Inr (Granted g)"
    and "mint_worker_grant X (seal_root X key g) spec catalog' key child t random' = Inr (Inr w)"
  shows "go_decision (gate X w req orig ctx catalog'' now) \<noteq> ApprovalRequired kind"
proof
  assume "go_decision (gate X w req orig ctx catalog'' now) = ApprovalRequired kind"
  then have "resolve X w req orig ctx catalog'' now = ApprovalRequired kind"
    by (auto simp: gate_decision split: if_splits)
  then have asks: "effectively_approval_required w (rq_action req)"
    by (simp add: resolve_asks asks_def)
  obtain mac where w: "w = worker_of (seal_root X key g) spec child t (hex_encode random') mac"
    and n: "narrowing_spec (seal_root X key g) spec catalog'"
    using assms(1,3) by (auto simp: mint_worker_grant_iff)
  have "rq_action req \<in> set (wc_allowed_actions spec)"
    "rq_action req \<in> gathered_approval i"
    using asks composed_unsealed(6) [OF assms(2)] by (auto simp: w worker_actions)
  then have "effectively_allows (seal_root X key g) (rq_action req)"
    using n by (auto simp: narrowing_spec_def)
  then show False
    using \<open>rq_action req \<in> gathered_approval i\<close> composed_unsealed(5) [OF assms(2)] by auto
qed

text \<open>
  The route that resolution selects is fit for composition: among routes with distinct
  ids, the selected one is active, allows, and asks for a verified source only if the event has
  one; so composition over it is decided by the remaining artifacts and the identity alone.
\<close>

theorem selected_route_composable:
  assumes "resolve_route (in_event i) (in_identity i) rel routes = Success (ro_id (in_route i))"
    and "in_route i \<in> set routes" "distinct (map ro_id routes)"
  shows "composable i catalog \<longleftrightarrow>
    ag_lifecycle_state (in_agent i) = Active \<and> wm_lifecycle_state (in_workflow i) = Active \<and>
    cp_lifecycle_state (in_pack i) = Active \<and> po_lifecycle_state (in_global_policy i) = Active \<and>
    (rw_verified_source (ro_when (in_route i)) = Some True \<longrightarrow> ir_source_verified (in_identity i)) \<and>
    (\<forall>(ids, label)\<in>set (candidate_sources i). \<forall>a\<in>set ids. catalog_contains catalog a) \<and>
    (\<forall>mx. co_data_classification_max (cp_constraints (in_pack i)) = Some mx \<longrightarrow>
       classification_rank (ev_data_classification (in_event i)) \<le> classification_rank mx)"
proof -
  let ?live = "live_routes (in_event i) (in_identity i) rel routes"
  have res: "\<forall>r\<in>?live. ro_effect r = Allow_route" "ro_id ` top_routes ?live = {ro_id (in_route i)}"
    using assms(1) by (simp_all add: resolve_route_Success_iff)
  then have "ro_id (in_route i) \<in> ro_id ` top_routes ?live" by simp
  then obtain r where r: "r \<in> ?live" "ro_id r = ro_id (in_route i)"
    by (auto simp: top_routes_def)
  with assms(2,3) have "r = in_route i" by (auto simp: distinct_map dest: inj_onD)
  with r res have live: "ro_lifecycle_state (in_route i) = Active" "ro_effect (in_route i) = Allow_route"
    and m: "route_matches (in_event i) (in_identity i) rel (in_route i)" by auto
  have "rw_verified_source (ro_when (in_route i)) = Some True \<Longrightarrow> ev_verified_source (in_event i)"
    using route_matches_parts(2) [OF m] by simp
  with live show ?thesis by (auto simp: composable_def)
qed

lemma egress_denial_same_lists:
  assumes "egress_class_for catalog (rq_action req) = None"
    and "set (tg_output_channels g) = set (tg_output_channels h)" and "flattened_caveats (tg_chain g) = flattened_caveats (tg_chain h)"
  shows "egress_denial g req catalog = egress_denial h req catalog"
proof (cases "egress_decl_for catalog (rq_action req)")
  case (Some decl)
  have "effectively_allows_output_channel g = effectively_allows_output_channel h"
    using assms(2,3) by (intro ext) (simp add: effectively_allows_output_channel_def list_ex_iff)
  then show ?thesis using Some assms(1) by (simp add: egress_denial_def egress_class_for_def
        split: option.split)
qed (simp add: egress_denial_def)

text \<open>
  C38. Members of one authority class are interchangeable at the gate. Two composed grants with
  the same class, sealed and unexpired, get the same decision on every request for an action
  without an egress class; the class leaves egress classes out.
\<close>

theorem same_class_same_decision:
  assumes "wf_ext X" "from_grant g = from_grant h"
    and "compose_authority X i catalog issued fresh random = Inr (Granted g)"
    and "compose_authority X j catalog issued fresh' random' = Inr (Granted h)"
    and "fresh \<noteq> nil_ulid" "fresh' \<noteq> nil_ulid" "grant_hmac_key ctx = Some key"
    and "now < tg_expires_at g" "now < tg_expires_at h"
    and "egress_class_for catalog (rq_action req) = None"
  shows "go_decision (gate X (seal_root X key g) req orig ctx catalog now) =
    go_decision (gate X (seal_root X key h) req orig ctx catalog now)"
proof -
  note g = composed_unsealed [OF assms(3)] and h = composed_unsealed [OF assms(4)]
  have set_canonical: "set (canonical_list xs) = set xs" for xs :: "'a::linorder list"
    by (simp add: canonical_list_def)
  have lists: "set (tg_allowed_actions g) = set (tg_allowed_actions h)"
    "set (tg_approval_required_actions g) = set (tg_approval_required_actions h)"
    "set (tg_denied_actions g) = set (tg_denied_actions h)"
    "set (tg_output_channels g) = set (tg_output_channels h)"
    using assms(2) unfolding from_grant_def authority_class_id.inject
    by (metis set_canonical)+
  have egress: "egress_denial (seal_root X key g) req catalog =
      egress_denial (seal_root X key h) req catalog"
    using egress_denial_same_lists [of catalog req "seal_root X key g" "seal_root X key h"]
      assms(10) lists(4) g h by simp
  have token: "validate_selection_token (seal_root X key g) req ty ctx now =
      validate_selection_token (seal_root X key h) req ty ctx now" for ty
    using g(4) h(4) by (simp add: validate_selection_token_def split: option.splits)
  have ids: "tg_id g \<noteq> nil_ulid" "tg_id h \<noteq> nil_ulid" using g(1) h(1) assms(5,6) by simp_all
  have "resolve X (seal_root X key g) req orig ctx catalog now =
      resolve X (seal_root X key h) req orig ctx catalog now"
    unfolding resolve_sealed [OF assms(1) ids(1) g(2) assms(7)]
      resolve_sealed [OF assms(1) ids(2) h(2) assms(7)] egress token lists
    using assms(8,9) by simp
  then show ?thesis using g(3) h(3) by (simp add: gate_decision)
qed

section \<open>Instances\<close>

definition ex_composed_grant :: "ulid \<Rightarrow> task_grant" where
  "ex_composed_grant fresh = composed_grant ex_input 0 60000000000 fresh []"

definition ex_quiet_context :: gate_context where
  "ex_quiet_context = \<lparr>approval_for_request = Map.empty, find_selection_token = Map.empty,
     grant_hmac_key = Some []\<rparr>"

lemma ex_compose:
  "compose_authority ex_ext ex_input ex_universe 0 fresh [] = Inr (Granted (ex_composed_grant fresh))"
  by (simp add: compose_authority_composable [OF ex_composable] ts_add_secs_def ex_runtime ex_ext_def
      ex_composed_grant_def)

lemma ex_gathered:
  "ex_read \<in> gathered_allow ex_input" "ex_read \<notin> gathered_deny ex_input"
  "ex_read \<notin> gathered_approval ex_input"
  by (auto simp: gathered_allow_def gathered_deny_def gathered_approval_def narrow_def ex_input_defs
      ex_read_def ex_send_def ex_enable_def)

lemma ex_universe_read:
  "catalog_contains ex_universe ex_read" "requires_selection_token ex_universe ex_read = None"
  "egress_decl_for ex_universe ex_read = Some \<lparr>ed_output_channels = None, ed_egress_class = None\<rparr>"
  by code_simp+

theorem composed_authority_decides_witness:
  "go_decision (gate ex_ext (seal_root ex_ext [] (ex_composed_grant 7)) (ex_request ex_read) Shell
     ex_quiet_context ex_universe 2) = Allow"
proof -
  have "rq_action (ex_request ex_read) = ex_read" by (simp add: ex_request_def)
  with composed_authority_decides [OF wf_ex_ext ex_compose [of 7], of ex_quiet_context "[]" 2
      "ex_request ex_read"]
  show ?thesis
    by (simp add: ex_gathered ex_universe_read ex_quiet_context_def ex_composed_grant_def)
qed

definition ex_composed_worker :: task_grant where
  "ex_composed_worker = worker_of (seal_root ex_ext [] (ex_composed_grant 7)) (ex_spec []) 9 1
     (hex_encode [])
     (compute_mac_hex ex_ext [] (root_of_grant (seal_root ex_ext [] (ex_composed_grant 7)))
        (tg_chain (seal_root ex_ext [] (ex_composed_grant 7)) @
         [child_step (seal_root ex_ext [] (ex_composed_grant 7)) (ex_spec []) 9]))"

lemma ex_composed_mint:
  "mint_worker_grant ex_ext (seal_root ex_ext [] (ex_composed_grant 7)) (ex_spec []) ex_universe [] 9 1
     [] = Inr (Inr ex_composed_worker)"
proof -
  let ?g = "seal_root ex_ext [] (ex_composed_grant 7)"
  have "verify_mac ex_ext [] ?g"
    by (simp add: seal_root_verifies [OF wf_ex_ext] ex_composed_grant_def)
  moreover have "\<not> is_expired ?g 499" by (simp add: ex_composed_grant_def)
  then have "500 \<le> parent_expiry ?g" using parent_expiry_le [of ?g 499] by simp
  moreover have "\<not> is_non_delegable ex_universe ex_read" by code_simp
  moreover have "effectively_allows ?g ex_read"
    using ex_gathered by (simp add: ex_composed_grant_def merged_iff)
  ultimately show ?thesis
    unfolding mint_worker_grant_iff [OF wf_ex_ext]
    by (simp add: narrowing_spec_def ex_spec_def ex_composed_worker_def)
qed

theorem composed_worker_never_asks_witness:
  "go_decision (gate ex_ext ex_composed_worker (ex_request ex_enable) Shell ex_quiet_context
     ex_universe 2) \<noteq> ApprovalRequired ''connector.enable''"
  by (rule composed_worker_never_asks [OF wf_ex_ext ex_compose ex_composed_mint])

theorem selected_route_composable_witness: "composable ex_input ex_universe"
proof -
  have "resolve_route (in_event ex_input) (in_identity ex_input) None [ex_route ''r'' 1] =
      Success (ro_id (in_route ex_input))"
    by code_simp
  moreover have "in_route ex_input \<in> set [ex_route ''r'' 1]" by (simp add: ex_input_def)
  ultimately show ?thesis
    using selected_route_composable [of ex_input None "[ex_route ''r'' 1]" ex_universe] ex_composable
    by (auto simp: composable_def)
qed

theorem same_class_same_decision_witness:
  "go_decision (gate ex_ext (seal_root ex_ext [] (ex_composed_grant 7)) (ex_request ex_enable) Shell
     ex_quiet_context ex_universe 2) =
   go_decision (gate ex_ext (seal_root ex_ext [] (ex_composed_grant 8)) (ex_request ex_enable) Shell
     ex_quiet_context ex_universe 2)"
proof (rule same_class_same_decision [OF wf_ex_ext _ ex_compose ex_compose])
  show "from_grant (ex_composed_grant 7) = from_grant (ex_composed_grant 8)"
    by (simp add: from_grant_def ex_composed_grant_def composed_grant_def)
  show "egress_class_for ex_universe (rq_action (ex_request ex_enable)) = None" by code_simp
qed (simp_all add: ex_quiet_context_def ex_composed_grant_def)

end
